(* ===== verification/Prelude.thy ===== *)
theory Prelude
  imports Main "HOL-Library.Word" "HOL-Library.Monad_Syntax"
begin

text \<open>
  Shared vocabulary of the development: the fixed-width C types, the null pointer, generic
  facts on lists, options and words that several components use, and the collections
  (\<open>cmodel\<close>, \<open>kdefs\<close>, \<open>regs\<close>) that gather the definitions a group of proofs unfolds.

  Conventions used by every theory:
  \<^item> \<open>uint8_t\<close>, \<open>uint16_t\<close>, \<open>uint32_t\<close>, \<open>uint64_t\<close> are words of that width; \<open>int32_t\<close> is the same
    32-bit word read with \<open>sint\<close> and compared with the signed orders;
  \<^item> a pointer is a 32-bit word, \<open>NULL\<close> is 0;
  \<^item> a C function that may run into undefined behaviour (a null dereference, an array index
    out of range) or may not return has a result of type \<open>option\<close>, \<open>None\<close> standing for that;
    the error codes the source returns are ordinary values.
\<close>

unbundle bit_operations_syntax

type_synonym u8 = "8 word"
type_synonym u16 = "16 word"
type_synonym u32 = "32 word"
type_synonym u64 = "64 word"
type_synonym ptr = "32 word"

abbreviation (input) NULL :: ptr where
  "NULL \<equiv> 0"

named_theorems cmodel "definitions of the C library models"
named_theorems kdefs "definitions of the kernel models"
named_theorems regs "register and bit-field facts"

subsection \<open>Options and lists\<close>

declare Option.bind_eq_Some_conv [simp]

lemma map_upt_cong:
  assumes "\<And>i. i < n \<Longrightarrow> f i = g i"
  shows "map f [0..<n] = map g [0..<n]"
  using assms by simp

text \<open>Writing a block of values into a list at an index, as a \<open>memcpy\<close> into an array does.\<close>

definition list_splice :: "nat \<Rightarrow> 'a list \<Rightarrow> 'a list \<Rightarrow> 'a list" where
  "list_splice k ys xs = take k xs @ ys @ drop (k + length ys) xs"

lemma length_list_splice: "k + length ys \<le> length xs \<Longrightarrow> length (list_splice k ys xs) = length xs"
  by (simp add: list_splice_def)

lemma list_splice_take: "take (length ys) (list_splice 0 ys xs) = ys"
  by (simp add: list_splice_def)

subsection \<open>C integers\<close>

text \<open>
  C's \<open>/\<close> and \<open>%\<close> on \<open>int\<close> truncate towards zero. Division by zero is undefined and is excluded
  where the operators are used.
\<close>

definition c_div :: "u32 \<Rightarrow> u32 \<Rightarrow> u32" where
  "c_div a b = word_of_int (sgn (sint a) * sgn (sint b) * (\<bar>sint a\<bar> div \<bar>sint b\<bar>))"

definition c_mod :: "u32 \<Rightarrow> u32 \<Rightarrow> u32" where
  "c_mod a b = a - c_div a b * b"

text \<open>A C condition as an \<open>int\<close>.\<close>

definition of_cond :: "bool \<Rightarrow> u32" where
  "of_cond b = (if b then 1 else 0)"

subsection \<open>Words\<close>

lemma unat_add_small:
  fixes a b :: "'a::len word"
  assumes "unat a + unat b < 2 ^ LENGTH('a)"
  shows "unat (a + b) = unat a + unat b"
  using assms by (simp add: unat_word_ariths)

lemma unat_of_nat_small:
  assumes "n < 2 ^ LENGTH('a::len)"
  shows "unat (of_nat n :: 'a word) = n"
  using assms by (simp add: unat_of_nat take_bit_nat_eq_self_iff)

lemma word32_of_nat_inj:
  assumes "i < 2 ^ 32" and "j < 2 ^ 32"
  shows "(of_nat i :: u32) = of_nat j \<longleftrightarrow> i = j"
proof
  assume "(of_nat i :: u32) = of_nat j"
  then have "unat (of_nat i :: u32) = unat (of_nat j :: u32)" by simp
  with assms show "i = j" by (simp add: unat_of_nat_small)
qed simp


lemma sint_shift: "sint (w::u32) = (int (unat w) + 2 ^ 31) mod 2 ^ 32 - 2 ^ 31"
  by (simp add: sint_uint signed_take_bit_eq_take_bit_shift take_bit_eq_mod)

lemma shift_mod_int:
  fixes k :: int
  assumes "0 \<le> k" "k < 2 ^ 32"
  shows "(k + 2 ^ 31) mod 2 ^ 32 - 2 ^ 31 = (if k < 2 ^ 31 then k else k - 2 ^ 32)"
proof (cases "k < 2 ^ 31")
  case True
  with assms show ?thesis by (simp add: mod_pos_pos_trivial)
next
  case False
  then have "(k + 2 ^ 31) mod 2 ^ 32 = (k + 2 ^ 31 - 2 ^ 32) mod 2 ^ 32"
    by (intro mod_pos_geq) auto
  then show ?thesis using False assms by (simp add: mod_pos_pos_trivial)
qed

lemma unat_lt32: "unat (b::u32) < 2 ^ 32"
  using unsigned_less [of b] by simp

lemma sint_eq_if:
  "sint (w::u32) = (if unat w < 2 ^ 31 then int (unat w) else int (unat w) - 2 ^ 32)"
proof -
  define n where "n = unat w"
  have "n < 2 ^ 32" using unat_lt32 [of w] by (simp add: n_def)
  then have "int n < 2 ^ 32" by simp
  moreover have "int n < 2 ^ 31 \<longleftrightarrow> n < 2 ^ 31" by simp
  ultimately show ?thesis by (simp only: sint_shift n_def [symmetric] shift_mod_int) 
qed

lemma sless_pos_iff: "0 <s (b::u32) \<longleftrightarrow> 0 < unat b \<and> unat b < 2 ^ 31"
proof -
  define n where "n = unat b"
  have "n < 2 ^ 32" using unat_lt32 [of b] by (simp add: n_def)
  then show ?thesis
    by (simp only: word_sless_alt sint_eq_if n_def [symmetric] unat_0) (simp; linarith)
qed

lemma sless_neg_iff: "(b::u32) <s 0 \<longleftrightarrow> 2 ^ 31 \<le> unat b"
proof -
  define n where "n = unat b"
  have "n < 2 ^ 32" using unat_lt32 [of b] by (simp add: n_def)
  then show ?thesis
    by (simp only: word_sless_alt sint_eq_if n_def [symmetric] unat_0) (simp; linarith)
qed

lemma sless_small: "unat a < 2 ^ 31 \<Longrightarrow> unat b < 2 ^ 31 \<Longrightarrow> (a::u32) <s b \<longleftrightarrow> unat a < unat b"
  by (simp only: word_sless_alt sint_eq_if if_True of_nat_less_iff)

lemma slesseq_small: "unat a < 2 ^ 31 \<Longrightarrow> unat b < 2 ^ 31 \<Longrightarrow> (a::u32) \<le>s b \<longleftrightarrow> unat a \<le> unat b"
  by (simp only: word_sle_eq sint_eq_if if_True of_nat_le_iff)

lemma unat_pred: "unat (b::u32) = Suc n \<Longrightarrow> unat (b - 1) = n"
  by (subst unat_minus_one) auto

lemma unat_add_le: "unat (a + b :: u32) \<le> unat a + unat b"
  by (simp add: unat_word_ariths)

lemma unat_ucast_u8: "unat (ucast (a::u8) :: u32) = unat a"
proof -
  have "unat a < 2 ^ 8" using unsigned_less [of a] by simp
  then show ?thesis by (simp add: unsigned_ucast_eq take_bit_nat_eq_self)
qed

lemma ucast_u8_inj: "(ucast (a::u8) :: u32) = ucast b \<longleftrightarrow> a = b"
  by (metis unat_ucast_u8 unsigned_word_eqI)

lemma ucast_u8_0_iff: "(ucast (a::u8) :: u32) = 0 \<longleftrightarrow> a = 0"
  by (metis unat_ucast_u8 unsigned_0 unat_eq_zero)

lemma sint_diff_u8: "sint (ucast (a::u8) - ucast (b::u8) :: u32) = int (unat a) - int (unat b)"
proof -
  define x where "x = unat a" define y where "y = unat b"
  have xy: "x < 256" "y < 256" using unsigned_less [of a] unsigned_less [of b] by (simp_all add: x_def y_def)
  have d: "(ucast a - ucast b :: u32) = of_int (int x - int y)"
    by (simp add: x_def y_def)
  have "sint (of_int (int x - int y) :: u32) = int x - int y"
    using xy by (subst sint_sbintrunc') (simp_all add: signed_take_bit_int_eq_self)
  then show ?thesis unfolding d x_def y_def .
qed

lemma diff_u8:
  "(ucast (a::u8) - ucast (b::u8) :: u32) <s 0 \<longleftrightarrow> a < b"
  "0 <s (ucast a - ucast b :: u32) \<longleftrightarrow> b < a"
  "(ucast a - ucast b :: u32) = 0 \<longleftrightarrow> a = b"
proof -
  show "(ucast (a::u8) - ucast (b::u8) :: u32) <s 0 \<longleftrightarrow> a < b" and "0 <s (ucast a - ucast b :: u32) \<longleftrightarrow> b < a"
    by (simp_all add: word_sless_alt sint_diff_u8 word_less_nat_alt del: of_nat_unat)
  have "(ucast a :: u32) = ucast b \<Longrightarrow> a = b" by (metis unat_ucast_u8 unsigned_word_eqI)
  then show "(ucast a - ucast b :: u32) = 0 \<longleftrightarrow> a = b" by auto
qed

lemmas diff_u8_0 = diff_u8 [of 0, simplified] diff_u8 [of _ 0, simplified]

lemma ucast_u8_of_nat: "ucast (of_nat n :: u32) = (of_nat n :: u8)"
  by (simp add: unsigned_of_nat word_of_nat_eq_iff)

lemma dvd4_if_low_bits_zero:
  assumes "(a OR b OR c :: u32) AND 3 = 0"
  shows "4 * unat (drop_bit 2 c) = unat c"
proof -
  have "c AND 3 = 0"
    using assms by (simp add: bit_eq_iff bit_simps) blast
  then have "take_bit 2 c = 0" by (simp add: take_bit_eq_mask mask_eq_exp_minus_1)
  then have "take_bit 2 (unat c) = 0" by (metis unsigned_take_bit_eq unsigned_0)
  then have "unat c mod 4 = 0" by (simp add: take_bit_eq_mod)
  then show ?thesis by (simp add: drop_bit_eq_div unat_div) presburger
qed

end
