(* ===== verification/CMem.thy ===== *)
theory CMem
  imports Prelude
begin

text \<open>
  The C abstract machine's byte memory as the library routines of both libc copies see it: a
  total map from 32-bit addresses to bytes, little-endian words (the images are built with
  \<open>-EL\<close>), and the predicate \<open>cstr\<close> for a NUL-terminated string. The lemmas say what a block store
  and a block load do, with address wrap-around, and when two blocks are disjoint.
\<close>

type_synonym mem = "u32 \<Rightarrow> u8"

definition bytes_at :: "mem \<Rightarrow> u32 \<Rightarrow> nat \<Rightarrow> u8 list" where
  "bytes_at m a n = map (\<lambda>i. m (a + of_nat i)) [0..<n]"

primrec store_bytes :: "mem \<Rightarrow> u32 \<Rightarrow> u8 list \<Rightarrow> mem" where
  "store_bytes m a [] = m"
| "store_bytes m a (b # bs) = store_bytes (m(a := b)) (a + 1) bs"

definition load32 :: "mem \<Rightarrow> u32 \<Rightarrow> u32" where
  "load32 m a = ucast (m a) OR push_bit 8 (ucast (m (a + 1)))
     OR push_bit 16 (ucast (m (a + 2))) OR push_bit 24 (ucast (m (a + 3)))"

definition le_bytes :: "u32 \<Rightarrow> u8 list" where
  "le_bytes v = [ucast v, ucast (drop_bit 8 v), ucast (drop_bit 16 v), ucast (drop_bit 24 v)]"

definition store32 :: "mem \<Rightarrow> u32 \<Rightarrow> u32 \<Rightarrow> mem" where
  "store32 m a v = store_bytes m a (le_bytes v)"

text \<open>\<open>cstr m p s\<close>: the bytes \<open>s\<close>, none of them NUL, stand at \<open>p\<close> and a NUL follows.\<close>

primrec cstr :: "mem \<Rightarrow> u32 \<Rightarrow> u8 list \<Rightarrow> bool" where
  "cstr m p [] \<longleftrightarrow> m p = 0"
| "cstr m p (c # cs) \<longleftrightarrow> m p = c \<and> c \<noteq> 0 \<and> cstr m (p + 1) cs"

text \<open>The block of \<open>n\<close> bytes at \<open>a\<close>, and disjointness of two blocks.\<close>

definition in_block :: "u32 \<Rightarrow> nat \<Rightarrow> u32 \<Rightarrow> bool" where
  "in_block a n x \<longleftrightarrow> unat (x - a) < n"

definition blocks_disjoint :: "u32 \<Rightarrow> nat \<Rightarrow> u32 \<Rightarrow> nat \<Rightarrow> bool" where
  "blocks_disjoint a n b k \<longleftrightarrow> (\<forall>x. \<not> (in_block a n x \<and> in_block b k x))"

lemma length_bytes_at [simp]: "length (bytes_at m a n) = n"
  by (simp add: bytes_at_def)

lemma bytes_at_0 [simp]: "bytes_at m a 0 = []"
  by (simp add: bytes_at_def)

lemma nth_bytes_at [simp]: "i < n \<Longrightarrow> bytes_at m a n ! i = m (a + of_nat i)"
  by (simp add: bytes_at_def)

lemma bytes_at_Suc: "bytes_at m a (Suc n) = m a # bytes_at m (a + 1) n"
  by (simp add: bytes_at_def upt_conv_Cons map_Suc_upt [symmetric] algebra_simps del: upt_Suc)

lemma bytes_at_add: "bytes_at m a (n + k) = bytes_at m a n @ bytes_at m (a + of_nat n) k"
  by (rule nth_equalityI) (auto simp: nth_append of_nat_diff algebra_simps)

lemma unat_offset_Suc:
  fixes x a :: u32
  assumes "x \<noteq> a"
  shows "unat (x - a) = Suc (unat (x - (a + 1)))"
proof -
  have eq: "x - (a + 1) = (x - a) - 1" by simp
  have "x - a \<noteq> 0" using assms by simp
  then have "unat (x - a - 1) = unat (x - a) - 1" and "0 < unat (x - a)"
    by (rule unat_minus_one, simp add: unat_gt_0)
  then show ?thesis unfolding eq by linarith
qed

lemma store_bytes_apply:
  "length bs \<le> 2 ^ 32 \<Longrightarrow>
   store_bytes m a bs x = (if unat (x - a) < length bs then bs ! unat (x - a) else m x)"
proof (induction bs arbitrary: m a)
  case Nil
  then show ?case by simp
next
  case (Cons b bs)
  have IH: "store_bytes (m(a := b)) (a + 1) bs x =
      (if unat (x - (a + 1)) < length bs then bs ! unat (x - (a + 1)) else (m(a := b)) x)"
    using Cons.prems by (intro Cons.IH) simp
  show ?case
  proof (cases "x = a")
    case True
    have "a - (a + 1) = (4294967295 :: u32)" by simp
    then have "unat (a - (a + 1)) = 2 ^ 32 - 1" by (simp only:) simp
    then have "\<not> unat (x - (a + 1)) < length bs" using True Cons.prems by simp
    with True IH show ?thesis by simp
  next
    case False
    with IH show ?thesis by (simp add: unat_offset_Suc [OF False])
  qed
qed

lemma store_bytes_outside:
  "length bs \<le> 2 ^ 32 \<Longrightarrow> \<not> in_block a (length bs) x \<Longrightarrow> store_bytes m a bs x = m x"
  by (simp add: store_bytes_apply in_block_def)

lemma bytes_at_store_bytes:
  assumes "length bs \<le> 2 ^ 32"
  shows "bytes_at (store_bytes m a bs) a (length bs) = bs"
proof (rule nth_equalityI)
  fix i assume "i < length (bytes_at (store_bytes m a bs) a (length bs))"
  then have i: "i < length bs" by simp
  then have "unat (of_nat i :: u32) = i" using assms by (simp add: unat_of_nat_small)
  with i assms show "bytes_at (store_bytes m a bs) a (length bs) ! i = bs ! i"
    by (simp add: store_bytes_apply)
qed simp

lemma bytes_at_frame:
  assumes "length bs \<le> 2 ^ 32" and "k \<le> 2 ^ 32" and "blocks_disjoint a (length bs) b k"
  shows "bytes_at (store_bytes m a bs) b k = bytes_at m b k"
proof (rule nth_equalityI)
  fix i assume "i < length (bytes_at (store_bytes m a bs) b k)"
  then have i: "i < k" by simp
  have "in_block b k (b + of_nat i)"
    using i assms(2) by (simp add: in_block_def unat_of_nat_small)
  with assms(3) have "\<not> in_block a (length bs) (b + of_nat i)"
    by (auto simp: blocks_disjoint_def)
  with i assms(1) show "bytes_at (store_bytes m a bs) b k ! i = bytes_at m b k ! i"
    by (simp add: store_bytes_outside)
qed simp

lemma store_bytes_append:
  "store_bytes m a (xs @ ys) = store_bytes (store_bytes m a xs) (a + of_nat (length xs)) ys"
  by (induction xs arbitrary: m a) (auto simp: algebra_simps)

lemma blocks_disjoint_sym: "blocks_disjoint a n b k \<Longrightarrow> blocks_disjoint b k a n"
  by (auto simp: blocks_disjoint_def)

lemma cstr_unique: "cstr m p s \<Longrightarrow> cstr m p t \<Longrightarrow> s = t"
proof (induction s arbitrary: p t)
  case Nil
  then show ?case by (cases t) auto
next
  case (Cons c s)
  then show ?case by (cases t) auto
qed

lemma cstr_iff:
  "cstr m p s \<longleftrightarrow> bytes_at m p (length s) = s \<and> 0 \<notin> set s \<and> m (p + of_nat (length s)) = 0"
  by (induction s arbitrary: p) (auto simp: bytes_at_Suc algebra_simps)

lemma bytes_at_4: "bytes_at m a 4 = [m a, m (a + 1), m (a + 2), m (a + 3)]"
  by (simp add: bytes_at_def upt_rec)

lemma join_bytes32:
  fixes v :: u32
  shows "(ucast (ucast v :: u8) OR push_bit 8 (ucast (ucast (drop_bit 8 v) :: u8))
    OR push_bit 16 (ucast (ucast (drop_bit 16 v) :: u8))
    OR push_bit 24 (ucast (ucast (drop_bit 24 v) :: u8))) = v" (is "?l = v")
proof (rule bit_word_eqI)
  fix n assume "n < LENGTH(32)"
  then consider "n < 8" | "8 \<le> n" "n < 16" | "16 \<le> n" "n < 24" | "24 \<le> n" "n < 32"
    by fastforce
  then show "bit ?l n \<longleftrightarrow> bit v n"
    by cases (simp_all add: bit_simps less_diff_conv2)
qed

lemma load32_eqI:
  assumes "bytes_at m a 4 = le_bytes v"
  shows "load32 m a = v"
proof -
  have "m a = ucast v" "m (a + 1) = ucast (drop_bit 8 v)"
    "m (a + 2) = ucast (drop_bit 16 v)" "m (a + 3) = ucast (drop_bit 24 v)"
    using assms by (simp_all add: bytes_at_4 le_bytes_def)
  then show ?thesis by (simp only: load32_def join_bytes32)
qed

lemma le_bytes_load32: "le_bytes (load32 m a) = bytes_at m a 4"
  by (auto simp: le_bytes_def bytes_at_4 load32_def intro!: bit_word_eqI)
    (auto simp: bit_simps dest: bit_imp_le_length)

lemma load32_store32: "load32 (store32 m a v) a = v"
proof (rule load32_eqI)
  have "length (le_bytes v) = 4" by (simp add: le_bytes_def)
  then show "bytes_at (store32 m a v) a 4 = le_bytes v"
    using bytes_at_store_bytes [of "le_bytes v" m a] by (simp add: store32_def)
qed


lemma in_block_sub:
  assumes "in_block (a + of_nat j) n x" and "j + n \<le> N" and "N \<le> 2 ^ 32"
  shows "in_block a N x"
proof (cases "n = 0")
  case False
  have "x - a = (x - (a + of_nat j)) + of_nat j" by simp
  then have "unat (x - a) \<le> unat (x - (a + of_nat j)) + unat (of_nat j :: u32)"
    by (metis unat_add_le)
  moreover have "unat (of_nat j :: u32) = j"
    using assms False by (intro unat_of_nat_small) simp
  ultimately show ?thesis using assms by (simp add: in_block_def)
qed (use assms in \<open>simp add: in_block_def\<close>)

lemma blocks_disjoint_sub:
  assumes "blocks_disjoint a N b K"
    and "j + n \<le> N" and "i + k \<le> K" and "N \<le> 2 ^ 32" and "K \<le> 2 ^ 32"
  shows "blocks_disjoint (a + of_nat j) n (b + of_nat i) k"
  using assms in_block_sub unfolding blocks_disjoint_def by blast

lemma disjoint_head:
  assumes "blocks_disjoint a (Suc n) b k" "i < k" "k \<le> 2 ^ 32"
  shows "(m(a := c)) (b + of_nat i) = m (b + of_nat i)"
proof -
  have "in_block b k (b + of_nat i)" using assms by (simp add: in_block_def unat_of_nat_small)
  moreover have "in_block a (Suc n) a" by (simp add: in_block_def)
  ultimately show ?thesis using assms(1) by (auto simp: blocks_disjoint_def)
qed

lemma bytes_at_upd_disjoint:
  "blocks_disjoint a (Suc n) b k \<Longrightarrow> k \<le> 2 ^ 32 \<Longrightarrow> bytes_at (m(a := c)) b k = bytes_at m b k"
  by (rule nth_equalityI) (simp_all add: disjoint_head del: fun_upd_apply)

lemma cstr_bytes:
  "cstr m p s \<longleftrightarrow> bytes_at m p (Suc (length s)) = s @ [0] \<and> 0 \<notin> set s"
proof -
  have "bytes_at m p (Suc (length s)) = bytes_at m p (length s) @ [m (p + of_nat (length s))]"
    using bytes_at_add [of m p "length s" 1] by (simp add: bytes_at_Suc)
  then show ?thesis by (auto simp: cstr_iff)
qed

lemma store_bytes_snoc:
  assumes "length bs < 2 ^ 32"
  shows "store_bytes (m(a + of_nat (length bs) := c)) a bs = store_bytes m a (bs @ [c])"
proof
  fix x
  have "unat (of_nat (length bs) :: u32) = length bs" using assms by (intro unat_of_nat_small) simp
  then show "store_bytes (m(a + of_nat (length bs) := c)) a bs x = store_bytes m a (bs @ [c]) x"
    using assms by (auto simp: store_bytes_apply store_bytes_append)
qed

lemma store_bytes_Cons_last:
  assumes "length bs < 2 ^ 32"
  shows "(store_bytes m (a + 1) bs)(a := c) = store_bytes m a (c # bs)"
proof
  fix x
  have "length bs \<le> 2 ^ 32" using assms by simp
  note ap = store_bytes_apply [OF this]
  show "((store_bytes m (a + 1) bs)(a := c)) x = store_bytes m a (c # bs) x"
  proof (cases "x = a")
    case True
    have "a - (a + 1) = (4294967295 :: u32)" by simp
    then have "unat (a - (a + 1)) = 2 ^ 32 - 1" by (simp only:) simp
    with True assms show ?thesis by (simp add: ap)
  qed (simp add: ap)
qed

end
