(* ===== verification/HypLibc.thy ===== *)
theory HypLibc
  imports CMem
begin

text \<open>
  The hypervisor's C library, \<^verbatim>\<open>sys/lib/libc.c\<close>: memory and string routines and the \<open>printf\<close>
  family. Pointers are addresses into \<open>mem\<close>; local arrays (\<open>print_buf\<close>, \<open>scr\<close>) live at an address
  given by \<open>penv\<close>, so that what they may overwrite is visible. A string loop runs until it meets a
  NUL and is a \<open>partial_function\<close>: \<open>None\<close> means it never meets one.

  The \<open>_gen\<close> definitions take the two points in which the guest library's copy of the same code
  (\<^verbatim>\<open>bare-metal-apps/lib/libc.c\<close>) differs, the size of \<open>print_buf\<close> and the CR before a
  newline; the instances of both copies are at the end of the group.
\<close>

subsection \<open>memset, memcpy\<close>

function memset_loop :: "mem \<Rightarrow> u32 \<Rightarrow> u8 \<Rightarrow> u32 \<Rightarrow> mem" where
  "memset_loop m d c b = (if 0 <s b then memset_loop (m(d := c)) (d + 1) c (b - 1) else m)"
  by pat_completeness auto
termination
  by (relation "measure (\<lambda>(m, d, c, b). unat b)") (auto intro: measure_unat)

declare memset_loop.simps [simp del]

definition memset :: "mem \<Rightarrow> u32 \<Rightarrow> u32 \<Rightarrow> u32 \<Rightarrow> mem" where
  "memset m dst c bytes = memset_loop m dst (ucast c) bytes"

function memcpy_bytes :: "mem \<Rightarrow> u32 \<Rightarrow> u32 \<Rightarrow> u32 \<Rightarrow> mem" where
  "memcpy_bytes m d s b =
     (if 0 <s b then memcpy_bytes (m(d := m s)) (d + 1) (s + 1) (b - 1) else m)"
  by pat_completeness auto
termination
  by (relation "measure (\<lambda>(m, d, s, b). unat b)") (auto intro: measure_unat)

declare memcpy_bytes.simps [simp del]

function memcpy_words :: "mem \<Rightarrow> u32 \<Rightarrow> u32 \<Rightarrow> u32 \<Rightarrow> mem" where
  "memcpy_words m d s b =
     (if 0 <s b then memcpy_words (store32 m d (load32 m s)) (d + 4) (s + 4) (b - 1) else m)"
  by pat_completeness auto
termination
  by (relation "measure (\<lambda>(m, d, s, b). unat b)") (auto intro: measure_unat)

declare memcpy_words.simps [simp del]

definition memcpy :: "mem \<Rightarrow> u32 \<Rightarrow> u32 \<Rightarrow> u32 \<Rightarrow> mem" where
  "memcpy m dst src bytes =
     (if (dst OR src OR bytes) AND 3 \<noteq> 0 then memcpy_bytes m dst src bytes
      else memcpy_words m dst src (drop_bit 2 bytes))"

subsection \<open>Strings\<close>

partial_function (option) puts_loop :: "mem \<Rightarrow> u32 \<Rightarrow> u8 list \<Rightarrow> u8 list option" where
  "puts_loop m str out =
     (if m str = 0 then Some out
      else puts_loop m (str + 1) (out @ (if m str = 10 then [13] else []) @ [m str]))"

text \<open>\<open>puts\<close> returns 0; the model returns what it sends to the UART.\<close>

definition puts :: "mem \<Rightarrow> u32 \<Rightarrow> u8 list option" where
  "puts m str = puts_loop m str []"

partial_function (option) strcmp_loop :: "mem \<Rightarrow> u32 \<Rightarrow> u32 \<Rightarrow> u32 option" where
  "strcmp_loop m s1 s2 =
     (let ret = (ucast (m s1) :: u32) - ucast (m s2)
      in if ret = 0 \<and> m s2 \<noteq> 0 then strcmp_loop m (s1 + 1) (s2 + 1) else Some ret)"

definition strcmp :: "mem \<Rightarrow> u32 \<Rightarrow> u32 \<Rightarrow> u32 option" where
  "strcmp m s1 s2 = do {
     ret \<leftarrow> strcmp_loop m s1 s2;
     Some (if ret <s 0 then - 1 else if 0 <s ret then 1 else ret) }"

partial_function (option) strcpy_loop :: "mem \<Rightarrow> u32 \<Rightarrow> u32 \<Rightarrow> mem option" where
  "strcpy_loop m dest src =
     (let m' = m(dest := m src)
      in if m src = 0 then Some m' else strcpy_loop m' (dest + 1) (src + 1))"

definition strcpy :: "mem \<Rightarrow> u32 \<Rightarrow> u32 \<Rightarrow> mem option" where
  "strcpy m dest src = strcpy_loop m dest src"

partial_function (option) strlen_loop :: "mem \<Rightarrow> u32 \<Rightarrow> u32 option" where
  "strlen_loop m s = (if m s = 0 then Some s else strlen_loop m (s + 1))"

definition strlen :: "mem \<Rightarrow> u32 \<Rightarrow> u32 option" where
  "strlen m str = do { s \<leftarrow> strlen_loop m str; Some (s - str) }"

partial_function (option) hash_loop :: "mem \<Rightarrow> u32 \<Rightarrow> u32 \<Rightarrow> u32 option" where
  "hash_loop m str h =
     (if m str = 0 then Some h
      else hash_loop m (str + 1) ((push_bit 5 h + h) + ucast (m str)))"

definition hash :: "mem \<Rightarrow> u32 \<Rightarrow> u32 option" where
  "hash m str = hash_loop m str 5381"

subsection \<open>itoa\<close>

partial_function (option) itoa_hex_digits :: "mem \<Rightarrow> u32 \<Rightarrow> u32 \<Rightarrow> (mem \<times> u32) option" where
  "itoa_hex_digits m q h =
     (let m' = m(q := ucast (48 + h mod 16)); h' = h div 16
      in if h' \<noteq> 0 then itoa_hex_digits m' (q + 1) h' else Some (m', q + 1))"

definition hex_fix :: "u8 \<Rightarrow> u8" where
  "hex_fix c = (if 57 <s c then c + 39 else c)"

text \<open>The reversal loop of the base-16 branch; \<open>q\<close> is the pointer before \<open>--q\<close>.\<close>

partial_function (option) itoa_hex_rev :: "mem \<Rightarrow> u32 \<Rightarrow> u32 \<Rightarrow> mem option" where
  "itoa_hex_rev m p q =
     (let q' = q - 1
      in if p \<le> q'
         then (let c = hex_fix (m p); m1 = m(p := hex_fix (m q')); m2 = m1(q' := c)
               in itoa_hex_rev m2 (p + 1) q')
         else Some m)"

partial_function (option) itoa_pos_digits :: "mem \<Rightarrow> u32 \<Rightarrow> u32 \<Rightarrow> u32 \<Rightarrow> (mem \<times> u32) option" where
  "itoa_pos_digits m q i base =
     (if base = 0 then None
      else (let m' = m(q := ucast (48 + c_mod i base)); i' = c_div i base
            in if i' \<noteq> 0 then itoa_pos_digits m' (q + 1) i' base else Some (m', q + 1)))"

partial_function (option) itoa_neg_digits :: "mem \<Rightarrow> u32 \<Rightarrow> u32 \<Rightarrow> u32 \<Rightarrow> (mem \<times> u32) option" where
  "itoa_neg_digits m q i base =
     (if base = 0 then None
      else (let m' = m(q := ucast (48 - c_mod i base)); i' = c_div i base
            in if i' \<noteq> 0 then itoa_neg_digits m' (q + 1) i' base else Some (m', q + 1)))"

partial_function (option) itoa_rev :: "mem \<Rightarrow> u32 \<Rightarrow> u32 \<Rightarrow> mem option" where
  "itoa_rev m p q =
     (let q' = q - 1
      in if p \<le> q'
         then (let c = m p; m1 = m(p := m q'); m2 = m1(q' := c)
               in itoa_rev m2 (p + 1) q')
         else Some m)"

definition itoa :: "mem \<Rightarrow> u32 \<Rightarrow> u32 \<Rightarrow> u32 \<Rightarrow> mem option" where
  "itoa m i s base =
     (if base = 16 then do {
        (m1, q) \<leftarrow> itoa_hex_digits m s i;
        itoa_hex_rev (m1(q := 0)) s q }
      else if 0 <=s i then do {
        (m1, q) \<leftarrow> itoa_pos_digits m s i base;
        itoa_rev (m1(q := 0)) s q }
      else do {
        (m1, q) \<leftarrow> itoa_neg_digits (m(s := 45)) (s + 1) i base;
        itoa_rev (m1(q := 0)) (s + 1) q })"

subsection \<open>The printf family\<close>

text \<open>
  \<open>pout\<close> is the pointer \<open>*out\<close> where \<open>out\<close> is not null (\<open>sprintf\<close>), \<open>None\<close> where it is null
  (\<open>printf\<close>, which writes to the UART: \<open>pcon\<close>).
\<close>

record pst =
  pmem :: mem
  pout :: "u32 option"
  pcon :: "u8 list"

text \<open>The addresses of the local arrays \<open>print_buf\<close> and \<open>scr\<close> and of the literal \<open>"(null)"\<close>.\<close>

record penv =
  print_buf :: u32
  scr :: u32
  null_str :: u32

definition PAD_RIGHT :: u32 where "PAD_RIGHT = 1"
definition PAD_ZERO :: u32 where "PAD_ZERO = 2"

definition printchar :: "pst \<Rightarrow> u8 \<Rightarrow> pst" where
  "printchar st c = (case pout st of
     Some p \<Rightarrow> st\<lparr>pmem := (pmem st)(p := c), pout := Some (p + 1)\<rparr>
   | None \<Rightarrow> st\<lparr>pcon := pcon st @ [c]\<rparr>)"

function prints_pad :: "pst \<Rightarrow> u8 \<Rightarrow> u32 \<Rightarrow> u32 \<Rightarrow> pst \<times> u32 \<times> u32" where
  "prints_pad st padchar width pc =
     (if 0 <s width then prints_pad (printchar st padchar) padchar (width - 1) (pc + 1)
      else (st, width, pc))"
  by pat_completeness auto
termination
  by (relation "measure (\<lambda>(st, padchar, width, pc). unat width)") (auto intro: measure_unat)

declare prints_pad.simps [simp del]

partial_function (option) prints_str :: "pst \<Rightarrow> u32 \<Rightarrow> u32 \<Rightarrow> (pst \<times> u32) option" where
  "prints_str st string pc =
     (if pmem st string = 0 then Some (st, pc)
      else prints_str (printchar st (pmem st string)) (string + 1) (pc + 1))"

definition prints :: "pst \<Rightarrow> u32 \<Rightarrow> u32 \<Rightarrow> u32 \<Rightarrow> (pst \<times> u32) option" where
  "prints st string width pad = do {
     (width, padchar) \<leftarrow>
       (if 0 <s width then do {
          len \<leftarrow> strlen (pmem st) string;
          Some (if width \<le>s len then 0 else width - len,
                if pad AND PAD_ZERO \<noteq> 0 then 48 else 32) }
        else Some (width, 32));
     let (st, width, pc) =
       (if pad AND PAD_RIGHT = 0 then prints_pad st padchar width 0 else (st, width, 0));
     (st, pc) \<leftarrow> prints_str st string pc;
     let (st, width, pc) = prints_pad st padchar width pc;
     Some (st, pc) }"

partial_function (option) printi_digits ::
  "mem \<Rightarrow> u32 \<Rightarrow> u32 \<Rightarrow> u32 \<Rightarrow> u32 \<Rightarrow> (mem \<times> u32) option" where
  "printi_digits m s u b letbase =
     (if u = 0 then Some (m, s)
      else if b = 0 then None
      else (let t = u mod b;
                t = (if 10 \<le>s t then t + (letbase - 48 - 10) else t)
            in printi_digits (m(s - 1 := ucast (t + 48))) (s - 1) (u div b) b letbase))"

definition printi_gen ::
  "nat \<Rightarrow> penv \<Rightarrow> pst \<Rightarrow> u32 \<Rightarrow> u32 \<Rightarrow> u32 \<Rightarrow> u32 \<Rightarrow> u32 \<Rightarrow> u32 \<Rightarrow> (pst \<times> u32) option" where
  "printi_gen buf_len e st i b sg width pad letbase =
     (if i = 0 then
        prints (st\<lparr>pmem := (pmem st)(print_buf e := 48, print_buf e + 1 := 0)\<rparr>) (print_buf e) width pad
      else (let neg = sg \<noteq> 0 \<and> b = 10 \<and> i <s 0;
                u = (if neg then - i else i);
                s = print_buf e + of_nat (buf_len - 1)
            in do {
              (m, s) \<leftarrow> printi_digits ((pmem st)(s := 0)) s u b letbase;
              if neg then
                (if width \<noteq> 0 \<and> pad AND PAD_ZERO \<noteq> 0 then do {
                   (st, n) \<leftarrow> prints (printchar (st\<lparr>pmem := m\<rparr>) 45) s (width - 1) pad;
                   Some (st, 1 + n) }
                 else prints (st\<lparr>pmem := m(s - 1 := 45)\<rparr>) (s - 1) width pad)
              else prints (st\<lparr>pmem := m\<rparr>) s width pad }))"

partial_function (option) skip_zeros :: "mem \<Rightarrow> u32 \<Rightarrow> u32 \<Rightarrow> (u32 \<times> u32) option" where
  "skip_zeros m f pad =
     (if m f = 48 then skip_zeros m (f + 1) (pad OR PAD_ZERO) else Some (f, pad))"

partial_function (option) read_width :: "mem \<Rightarrow> u32 \<Rightarrow> u32 \<Rightarrow> (u32 \<times> u32) option" where
  "read_width m f width =
     (if 48 \<le> m f \<and> m f \<le> 57 then read_width m (f + 1) (width * 10 + (ucast (m f) - 48))
      else Some (f, width))"

text \<open>
  One conversion: the chain of \<open>if( *format == ...)\<close> after flags and width have been read, at the
  conversion character \<open>c\<close>. \<open>va_arg\<close> with no argument left is undefined.
\<close>

definition print_conv ::
  "nat \<Rightarrow> penv \<Rightarrow> pst \<Rightarrow> u8 \<Rightarrow> u32 list \<Rightarrow> u32 \<Rightarrow> u32 \<Rightarrow> (pst \<times> u32 list \<times> u32) option" where
  "print_conv buf_len e st c args width pad =
     (let num = (\<lambda>b sg letbase. case args of [] \<Rightarrow> None | a # as \<Rightarrow> do {
                   (st, n) \<leftarrow> printi_gen buf_len e st a b sg width pad letbase;
                   Some (st, as, n) })
      in if c = 115 then (case args of [] \<Rightarrow> None | a # as \<Rightarrow> do {
              (st, n) \<leftarrow> prints st (if a \<noteq> 0 then a else null_str e) width pad;
              Some (st, as, n) })
         else if c = 100 then num 10 1 97
         else if c = 120 then num 16 0 97
         else if c = 88 then num 16 0 65
         else if c = 117 then num 10 0 97
         else if c = 99 then (case args of [] \<Rightarrow> None | a # as \<Rightarrow> do {
              (st, n) \<leftarrow> prints (st\<lparr>pmem := (pmem st)(scr e := ucast a, scr e + 1 := 0)\<rparr>) (scr e) width pad;
              Some (st, as, n) })
         else Some (st, args, 0))"

partial_function (option) print_loop ::
  "nat \<Rightarrow> bool \<Rightarrow> penv \<Rightarrow> pst \<Rightarrow> u32 \<Rightarrow> u32 list \<Rightarrow> u32 \<Rightarrow> (pst \<times> u32) option" where
  "print_loop buf_len crlf e st format args pc =
     (let c = pmem st format
      in if c = 0 then Some (st, pc)
         else if c = 37 then
           (let c1 = pmem st (format + 1)
            in if c1 = 0 then Some (st, pc)
               else if c1 = 37 then
                 print_loop buf_len crlf e (printchar st c1) (format + 2) args (pc + 1)
               else Option.bind (skip_zeros (pmem st) (if c1 = 45 then format + 2 else format + 1)
                                   (if c1 = 45 then PAD_RIGHT else 0)) (\<lambda>fp.
                    Option.bind (read_width (pmem st) (fst fp) 0) (\<lambda>fw.
                    Option.bind (print_conv buf_len e st (pmem st (fst fw)) args (snd fw) (snd fp)) (\<lambda>r.
                    print_loop buf_len crlf e (fst r) (fst fw + 1) (fst (snd r)) (pc + snd (snd r))))))
         else print_loop buf_len crlf e
                (printchar (if crlf \<and> c = 10 then printchar st 13 else st) c)
                (format + 1) args (pc + 1))"

definition print_gen ::
  "nat \<Rightarrow> bool \<Rightarrow> penv \<Rightarrow> pst \<Rightarrow> u32 \<Rightarrow> u32 list \<Rightarrow> (pst \<times> u32) option" where
  "print_gen buf_len crlf e st format args = do {
     (st, pc) \<leftarrow> print_loop buf_len crlf e st format args 0;
     Some (case pout st of Some p \<Rightarrow> st\<lparr>pmem := (pmem st)(p := 0)\<rparr> | None \<Rightarrow> st, pc) }"

text \<open>The hypervisor's instances.\<close>

definition printi :: "penv \<Rightarrow> pst \<Rightarrow> u32 \<Rightarrow> u32 \<Rightarrow> u32 \<Rightarrow> u32 \<Rightarrow> u32 \<Rightarrow> u32 \<Rightarrow> (pst \<times> u32) option" where
  "printi = printi_gen 12"

definition print :: "penv \<Rightarrow> pst \<Rightarrow> u32 \<Rightarrow> u32 list \<Rightarrow> (pst \<times> u32) option" where
  "print = print_gen 12 True"

definition printf :: "penv \<Rightarrow> mem \<Rightarrow> u32 \<Rightarrow> u32 list \<Rightarrow> (mem \<times> u8 list \<times> u32) option" where
  "printf e m format args = do {
     (st, pc) \<leftarrow> print e \<lparr>pmem = m, pout = None, pcon = []\<rparr> format args;
     Some (pmem st, pcon st, pc) }"

definition sprintf :: "penv \<Rightarrow> mem \<Rightarrow> u32 \<Rightarrow> u32 \<Rightarrow> u32 list \<Rightarrow> (mem \<times> u32) option" where
  "sprintf e m out format args = do {
     (st, pc) \<leftarrow> print e \<lparr>pmem = m, pout = Some out, pcon = []\<rparr> format args;
     Some (pmem st, pc) }"


subsection \<open>Correctness of the memory and string routines\<close>


lemma memset_loop_eq:
  "unat b < 2 ^ 31 \<Longrightarrow> memset_loop m d c b = store_bytes m d (replicate (unat b) c)"
proof (induction "unat b" arbitrary: m d b)
  case 0
  then show ?case by (simp add: memset_loop.simps sless_pos_iff)
next
  case (Suc n)
  note n = unat_pred [OF Suc.hyps(2) [symmetric]]
  then show ?case using Suc.prems Suc.hyps(1) [of "b - 1"]
    by (subst memset_loop.simps) (simp add: sless_pos_iff flip: Suc.hyps(2))
qed

lemma memset_loop_neg: "2 ^ 31 \<le> unat b \<Longrightarrow> memset_loop m d c b = m"
  by (simp add: memset_loop.simps sless_pos_iff)

lemma memcpy_bytes_eq:
  "unat b < 2 ^ 31 \<Longrightarrow> blocks_disjoint d (unat b) s (unat b) \<Longrightarrow>
   memcpy_bytes m d s b = store_bytes m d (bytes_at m s (unat b))"
proof (induction "unat b" arbitrary: m d s b)
  case 0
  then show ?case by (simp add: memcpy_bytes.simps sless_pos_iff)
next
  case (Suc n)
  note n = unat_pred [OF Suc.hyps(2) [symmetric]]
  have dj: "blocks_disjoint d (Suc n) s (Suc n)" using Suc.prems(2) Suc.hyps(2) by simp
  have n32: "Suc n \<le> 2 ^ 32" using Suc.hyps(2) Suc.prems by simp
  have "bytes_at (m(d := m s)) (s + 1) n = bytes_at m (s + 1) n"
    using bytes_at_upd_disjoint [OF dj, of m "m s"] n32 by (simp add: bytes_at_Suc)
  moreover have "memcpy_bytes (m(d := m s)) (d + 1) (s + 1) (b - 1)
     = store_bytes (m(d := m s)) (d + 1) (bytes_at (m(d := m s)) (s + 1) n)"
    using Suc.hyps(1) [of "b - 1" "d + 1" "s + 1"] n Suc.prems Suc.hyps(2)
      blocks_disjoint_sub [OF dj, of 1 n 1 n] n32 by simp
  moreover have "0 <s b" using Suc.prems Suc.hyps(2) by (simp add: sless_pos_iff)
  ultimately have "memcpy_bytes m d s b = store_bytes m d (bytes_at m s (Suc n))"
    by (subst memcpy_bytes.simps) (simp add: bytes_at_Suc)
  then show ?case by (simp only: Suc.hyps(2))
qed

lemma memcpy_words_eq:
  "4 * unat b < 2 ^ 32 \<Longrightarrow> unat b < 2 ^ 31 \<Longrightarrow> blocks_disjoint d (4 * unat b) s (4 * unat b) \<Longrightarrow>
   memcpy_words m d s b = store_bytes m d (bytes_at m s (4 * unat b))"
proof (induction "unat b" arbitrary: m d s b)
  case 0
  then show ?case by (simp add: memcpy_words.simps sless_pos_iff)
next
  case (Suc n)
  note n = unat_pred [OF Suc.hyps(2) [symmetric]]
  have k: "4 * unat b = 4 + 4 * n" and k32: "4 + 4 * n \<le> 2 ^ 32"
    using Suc.hyps(2) Suc.prems(1) by simp_all
  have dj: "blocks_disjoint d (4 + 4 * n) s (4 + 4 * n)" using Suc.prems(3) k by simp
  let ?m = "store_bytes m d (bytes_at m s 4)"
  have st: "store32 m d (load32 m s) = ?m"
    by (simp add: store32_def le_bytes_load32)
  have "bytes_at ?m (s + 4) (4 * n) = bytes_at m (s + 4) (4 * n)"
    using blocks_disjoint_sub [OF dj, of 0 4 4 "4 * n"] k32 by (intro bytes_at_frame) simp_all
  moreover have "blocks_disjoint (d + 4) (4 * n) (s + 4) (4 * n)"
    using blocks_disjoint_sub [OF dj, of 4 "4 * n" 4 "4 * n"] k32 by simp
  ultimately have IH: "memcpy_words ?m (d + 4) (s + 4) (b - 1)
      = store_bytes ?m (d + 4) (bytes_at m (s + 4) (4 * n))"
    using Suc.hyps(1) [of "b - 1" "d + 4" "s + 4" ?m] n Suc.prems Suc.hyps(2) by simp
  have "0 <s b" using Suc.prems Suc.hyps(2) by (simp add: sless_pos_iff)
  then have "memcpy_words m d s b = store_bytes m d (bytes_at m s (4 + 4 * n))"
    using IH by (subst memcpy_words.simps)
      (simp add: st bytes_at_add store_bytes_append)
  then show ?case by (simp only: k)
qed

lemma memcpy_copies:
  assumes "unat bytes < 2 ^ 31" and "blocks_disjoint dst (unat bytes) src (unat bytes)"
  shows "memcpy m dst src bytes = store_bytes m dst (bytes_at m src (unat bytes))"
proof (cases "(dst OR src OR bytes) AND 3 = 0")
  case True
  note q = dvd4_if_low_bits_zero [OF True]
  have "memcpy_words m dst src (drop_bit 2 bytes)
      = store_bytes m dst (bytes_at m src (4 * unat (drop_bit 2 bytes)))"
    using assms q by (intro memcpy_words_eq) simp_all
  with True q show ?thesis by (simp add: memcpy_def)
qed (simp add: memcpy_def memcpy_bytes_eq [OF assms])

lemma strlen_loop_cstr: "cstr m s cs \<Longrightarrow> strlen_loop m s = Some (s + of_nat (length cs))"
  by (induction cs arbitrary: s) (simp_all add: strlen_loop.simps algebra_simps)

lemma strlen_cstr: "cstr m s cs \<Longrightarrow> strlen m s = Some (of_nat (length cs))"
  by (simp add: strlen_def strlen_loop_cstr)

lemma hash_loop_cstr:
  "cstr m s cs \<Longrightarrow> hash_loop m s h = Some (foldl (\<lambda>h c. 33 * h + ucast c) h cs)"
proof (induction cs arbitrary: s h)
  case (Cons c cs)
  have "push_bit 5 h + h = 33 * h" by (simp add: push_bit_eq_mult)
  with Cons show ?case by (subst hash_loop.simps) simp
qed (simp add: hash_loop.simps)

lemma strcpy_loop_cstr:
  "cstr m s cs \<Longrightarrow> length cs < 2 ^ 32 \<Longrightarrow> blocks_disjoint d (Suc (length cs)) s (Suc (length cs)) \<Longrightarrow>
   strcpy_loop m d s = Some (store_bytes m d (cs @ [0]))"
proof (induction cs arbitrary: m s d)
  case (Cons c cs)
  let ?n = "Suc (length cs)"
  have dj: "blocks_disjoint d (Suc ?n) s (Suc ?n)" using Cons.prems by simp
  have n32: "Suc ?n \<le> 2 ^ 32" using Cons.prems by simp
  have "bytes_at (m(d := c)) s (Suc ?n) = bytes_at m s (Suc ?n)"
    using bytes_at_upd_disjoint [OF dj n32] by simp
  then have e: "bytes_at (m(d := c)) (s + 1) ?n = bytes_at m (s + 1) ?n"
    by (simp only: bytes_at_Suc list.inject)
  have "cstr m (s + 1) cs" using Cons.prems(1) by simp
  then have "cstr (m(d := c)) (s + 1) cs" unfolding cstr_bytes e .
  moreover have "blocks_disjoint (d + 1) ?n (s + 1) ?n"
    using blocks_disjoint_sub [OF dj, of 1 ?n 1 ?n] n32 by simp
  ultimately have "strcpy_loop (m(d := c)) (d + 1) (s + 1)
      = Some (store_bytes (m(d := c)) (d + 1) (cs @ [0]))"
    using Cons.prems(2) by (intro Cons.IH) (simp_all del: fun_upd_apply)
  moreover have "m s = c" "c \<noteq> 0" using Cons.prems(1) by simp_all
  ultimately show ?case by (subst strcpy_loop.simps) (simp add: Let_def)
qed (simp add: strcpy_loop.simps)

lemma strcmp_loop_cstr:
  "cstr m s1 a \<Longrightarrow> cstr m s2 b \<Longrightarrow>
   \<exists>ret. strcmp_loop m s1 s2 = Some ret \<and> (ret = 0 \<longleftrightarrow> a = b) \<and>
     (ret <s 0 \<longleftrightarrow> ord_class.lexordp a b) \<and> (0 <s ret \<longleftrightarrow> ord_class.lexordp b a)"
proof (induction a arbitrary: s1 s2 b)
  case Nil
  then have "strcmp_loop m s1 s2 = Some (ucast (m s1) - ucast (m s2))"
    by (subst strcmp_loop.simps) (auto simp: Let_def ucast_u8_0_iff)
  with Nil show ?case by (cases b) (auto simp: diff_u8 diff_u8_0 ucast_u8_0_iff word_greater_zero_iff)
next
  case (Cons c cs)
  show ?case 
  proof (cases b)
    case Nil
    with Cons.prems have "strcmp_loop m s1 s2 = Some (ucast (m s1) - ucast (m s2))"
      by (subst strcmp_loop.simps) (auto simp: Let_def diff_u8)
    with Nil Cons.prems show ?thesis by (auto simp: diff_u8 diff_u8_0 ucast_u8_0_iff word_greater_zero_iff)
  next
    case (Cons d ds)
    show ?thesis
    proof (cases "c = d")
      case True
      with Cons Cons.prems have "strcmp_loop m s1 s2 = strcmp_loop m (s1 + 1) (s2 + 1)"
        by (subst strcmp_loop.simps) (auto simp: Let_def diff_u8)
      with Cons.IH [of "s1 + 1" "s2 + 1" ds] Cons.prems Cons True show ?thesis by simp
    next
      case False
      with Cons Cons.prems have "strcmp_loop m s1 s2 = Some (ucast (m s1) - ucast (m s2))"
        by (subst strcmp_loop.simps) (simp add: Let_def diff_u8(3) del: right_minus_eq)
      with False Cons Cons.prems show ?thesis by (auto simp: diff_u8 ucast_u8_inj)
    qed
  qed
qed

lemma strcmp_cstr:
  assumes "cstr m s1 a" and "cstr m s2 b"
  shows "strcmp m s1 s2 = Some (if a = b then 0 else if ord_class.lexordp a b then - 1 else 1)"
proof -
  obtain ret where "strcmp_loop m s1 s2 = Some ret" "ret = 0 \<longleftrightarrow> a = b"
    "ret <s 0 \<longleftrightarrow> ord_class.lexordp a b" "0 <s ret \<longleftrightarrow> ord_class.lexordp b a"
    using strcmp_loop_cstr [OF assms] by blast
  moreover have "ord_class.lexordp a b \<or> a = b \<or> ord_class.lexordp b a"
    by (rule lexordp_linear)
  ultimately show ?thesis by (auto simp: strcmp_def lexordp_irreflexive')
qed

fun udigits :: "nat \<Rightarrow> nat \<Rightarrow> nat list" where
  "udigits b n = (if n = 0 \<or> b < 2 then [] else udigits b (n div b) @ [n mod b])"

declare udigits.simps [simp del]

lemma udigits_0 [simp]: "udigits b 0 = []" by (simp add: udigits.simps)

lemma udigits_value: "2 \<le> b \<Longrightarrow> foldl (\<lambda>a d. a * b + d) 0 (udigits b n) = n"
proof (induction b n rule: udigits.induct)
  case (1 b n)
  show ?case
  proof (cases "n = 0")
    case False
    with 1 show ?thesis by (subst udigits.simps) simp
  qed simp
qed

lemma udigits_lt: "d \<in> set (udigits b n) \<Longrightarrow> d < b"
proof (induction b n rule: udigits.induct)
  case (1 b n)
  from 1(2) have *: "\<not> (n = 0 \<or> b < 2)" by (subst (asm) udigits.simps) (auto split: if_splits)
  with 1 show ?case by (subst (asm) (2) udigits.simps) auto
qed

lemma udigits_length: "2 \<le> b \<Longrightarrow> n < b ^ k \<Longrightarrow> length (udigits b n) \<le> k"
proof (induction b n arbitrary: k rule: udigits.induct)
  case (1 b n)
  show ?case
  proof (cases "n = 0")
    case False
    then obtain j where k: "k = Suc j" using 1(3) by (cases k) auto
    then have "n div b < b ^ j" using 1 by (simp add: less_mult_imp_div_less mult.commute)
    with 1(1) [of j] False 1(2) k show ?thesis by (subst udigits.simps) simp
  qed simp
qed

definition digit_char :: "u32 \<Rightarrow> nat \<Rightarrow> u8" where
  "digit_char letbase d = of_nat (if d < 10 then 48 + d else unat letbase + d - 10)"

lemma digit_char_eq:
  assumes "unat t < 16" 
  shows "ucast ((if 10 \<le>s t then t + (letbase - 48 - 10) else t) + 48) = digit_char letbase (unat t)"
proof -
  have s: "10 \<le>s t \<longleftrightarrow> \<not> unat t < 10" using assms by (simp add: slesseq_small not_less)
  have "digit_char letbase (unat t) = ucast (of_nat (if unat t < 10 then 48 + unat t else unat letbase + unat t - 10) :: u32)"
    by (simp add: digit_char_def ucast_u8_of_nat del: of_nat_diff of_nat_add)
  also have "(of_nat (if unat t < 10 then 48 + unat t else unat letbase + unat t - 10) :: u32) = (if 10 \<le>s t then t + (letbase - 48 - 10) else t) + 48"
    by (simp add: s of_nat_diff)
  finally show ?thesis by simp
qed

lemma printi_digits_eq:
  assumes "2 \<le> unat b" and "unat b \<le> 16"
  shows "printi_digits m s u b lb =
    (let ds = map (digit_char lb) (udigits (unat b) (unat u))
     in Some (store_bytes m (s - of_nat (length ds)) ds, s - of_nat (length ds)))"
proof (induction "unat u" arbitrary: u m s rule: less_induct)
  case less
  show ?case
  proof (cases "u = 0")
    case False
    let ?ds = "map (digit_char lb) (udigits (unat b) (unat (u div b)))"
    have b0: "b \<noteq> 0" using assms(1) by auto
    have u0: "unat u \<noteq> 0" using False by (simp add: unat_eq_0)
    have lt: "unat (u div b) < unat u" using assms(1) u0 by (simp add: unat_div)
    have md: "unat (u mod b) < 16" using assms by (simp add: unat_mod) (rule less_le_trans [OF mod_less_divisor], simp_all)
    have ds: "map (digit_char lb) (udigits (unat b) (unat u)) = ?ds @ [digit_char lb (unat (u mod b))]"
      using assms(1) u0 by (subst udigits.simps) (simp add: unat_div unat_mod)
    have "printi_digits m s u b lb =
       printi_digits (m(s - 1 := digit_char lb (unat (u mod b)))) (s - 1) (u div b) b lb"
      using False b0 by (subst printi_digits.simps) (simp add: Let_def digit_char_eq [OF md])
    also have "\<dots> = Some (store_bytes (m(s - 1 := digit_char lb (unat (u mod b)))) (s - 1 - of_nat (length ?ds)) ?ds, s - 1 - of_nat (length ?ds))"
      using less [OF lt] by (simp add: Let_def del: fun_upd_apply)
    also have "store_bytes (m(s - 1 := digit_char lb (unat (u mod b)))) (s - 1 - of_nat (length ?ds)) ?ds
        = store_bytes m (s - 1 - of_nat (length ?ds)) (?ds @ [digit_char lb (unat (u mod b))])"
    proof -
      have "length ?ds \<le> 32"
        using assms(1) unat_lt32 [of "u div b"] power_mono [of 2 "unat b" 32]
        by (auto intro!: udigits_length)
      then show ?thesis
        using store_bytes_snoc [of ?ds m "s - 1 - of_nat (length ?ds)" "digit_char lb (unat (u mod b))"] by simp
    qed
    finally show ?thesis unfolding ds by (simp add: Let_def algebra_simps)
  qed (simp add: printi_digits.simps)
qed

lemma prints_str_console:
  "cstr m p cs \<Longrightarrow> pmem st = m \<Longrightarrow> pout st = None \<Longrightarrow>
   prints_str st p pc = Some (st\<lparr>pcon := pcon st @ cs\<rparr>, pc + of_nat (length cs))"
proof (induction cs arbitrary: st p pc)
  case Nil
  then show ?case by (simp add: prints_str.simps)
next
  case (Cons c cs)
  then have "prints_str st p pc = prints_str (printchar st c) (p + 1) (pc + 1)"
    by (subst prints_str.simps) simp
  then show ?case using Cons by (simp add: printchar_def algebra_simps)
qed

lemma prints_console:
  assumes "cstr (pmem st) p cs" and "pout st = None" 
  shows "prints st p 0 pad = Some (st\<lparr>pcon := pcon st @ cs\<rparr>, of_nat (length cs))"
proof -
  have z: "prints_pad s c 0 n = (s, 0, n)" for s c n by (simp add: prints_pad.simps)
  show ?thesis
    using prints_str_console [OF assms(1) refl assms(2), of 0] by (simp add: prints_def z)
qed

definition hexdec :: "u32 \<Rightarrow> nat \<Rightarrow> nat \<Rightarrow> u8 list" where
  "hexdec letbase b n = (if n = 0 then [48] else map (digit_char letbase) (udigits b n))"

lemma digit_char_nonzero:
  assumes "d < 16" and "letbase = 97 \<or> letbase = 65"
  shows "digit_char letbase d \<noteq> 0"
proof -
  have "d \<in> set [0..<16]" using assms(1) by simp
  then show ?thesis using assms(2) by (auto simp: digit_char_def upt_rec) 
qed

lemma printi_console:
  fixes b sg i letbase :: u32
  assumes "pout st = None" and "b = 10 \<or> b = 16" and "letbase = 97 \<or> letbase = 65"
  defines "neg \<equiv> sg \<noteq> 0 \<and> b = 10 \<and> i <s 0"
  defines "outp \<equiv> (if neg then [45] else []) @ hexdec letbase (unat b) (unat (if neg then - i else i))"
  shows "\<exists>m'. printi e st i b sg 0 pad letbase
      = Some (st\<lparr>pmem := m', pcon := pcon st @ outp\<rparr>, of_nat (length outp)) \<and>
    (\<forall>x. \<not> in_block (print_buf e) 12 x \<longrightarrow> m' x = pmem st x)"
proof (cases "i = 0")
  case True
  let ?m = "(pmem st)(print_buf e := 48, print_buf e + 1 := 0)"
  have c: "cstr ?m (print_buf e) [48]" by simp
  have m: "\<forall>x. \<not> in_block (print_buf e) 12 x \<longrightarrow> ?m x = pmem st x"
    by (auto simp: in_block_def)
  show ?thesis using True m
    using prints_console [of "st\<lparr>pmem := ?m\<rparr>" "print_buf e" "[48]" pad] assms(1) c
    by (intro exI [of _ ?m]) (simp add: printi_def printi_gen_def outp_def neg_def hexdec_def)
next
  case False
  define u where "u = (if neg then - i else i)"
  define ds where "ds = map (digit_char letbase) (udigits (unat b) (unat u))"
  define s where "s = print_buf e + 11"
  define p where "p = s - of_nat (length ds)"
  define m1 where "m1 = store_bytes (pmem st) p (ds @ [0])"
  have u0: "unat u \<noteq> 0" using False by (simp add: u_def unat_eq_0)
  have b: "2 \<le> unat b" "unat b \<le> 16" using assms(2) by auto
  have len: "length ds \<le> 10"
    using unat_lt32 [of u] assms(2) by (auto simp: ds_def intro!: udigits_length)
  have "store_bytes ((pmem st)(s := 0)) p ds = m1"
    using store_bytes_snoc [of ds "pmem st" p 0] len by (simp add: m1_def p_def)
  then have dg: "printi_digits ((pmem st)(s := 0)) s u b letbase = Some (m1, p)"
    using printi_digits_eq [OF b, of "(pmem st)(s := 0)" s u letbase]
    by (simp add: Let_def ds_def p_def)
  have nz: "0 \<notin> set ds"
    using b(2) udigits_lt [of _ "unat b" "unat u"] digit_char_nonzero [OF _ assms(3)]
    by (fastforce simp: ds_def)
  define q where "q = (if neg then p - 1 else p)"
  define m2 where "m2 = store_bytes (pmem st) q (outp @ [0])"
  have outp_eq: "outp = (if neg then [45] else []) @ ds" using u0 by (simp add: outp_def ds_def hexdec_def u_def)
  have m2: "m2 = (if neg then m1(p - 1 := 45) else m1)"
    using store_bytes_Cons_last [of "ds @ [0]" "pmem st" "p - 1" 45] len
    by (simp add: m2_def m1_def outp_eq q_def)
  have "cstr m2 q outp"
    using bytes_at_store_bytes [of "outp @ [0]" "pmem st" q] nz len by (simp add: cstr_bytes m2_def outp_eq)
  then have "prints (st\<lparr>pmem := m2\<rparr>) q 0 pad
     = Some (st\<lparr>pmem := m2, pcon := pcon st @ outp\<rparr>, of_nat (length outp))"
    using prints_console [of "st\<lparr>pmem := m2\<rparr>" q outp pad] assms(1) by simp
  then have "printi e st i b sg 0 pad letbase
     = Some (st\<lparr>pmem := m2, pcon := pcon st @ outp\<rparr>, of_nat (length outp))"
    using False dg m2 by (auto simp: printi_def printi_gen_def neg_def u_def s_def q_def Let_def)
  moreover have "m2 x = pmem st x" if "\<not> in_block (print_buf e) 12 x" for x
  proof -
    have "q = print_buf e + of_nat (11 - length outp)"
      using len by (simp add: q_def p_def s_def outp_eq of_nat_diff)
    moreover have "length outp \<le> 11" using len by (simp add: outp_eq)
    ultimately have "\<not> in_block q (length (outp @ [0])) x"
      using that in_block_sub [of "print_buf e" "11 - length outp" "length (outp @ [0])" x 12] by auto
    then show ?thesis unfolding m2_def using \<open>length outp \<le> 11\<close> by (intro store_bytes_outside) simp_all
  qed
  ultimately show ?thesis by blast
qed

end
