(* ===== verification/KrHeap.thy ===== *)
theory KrHeap
  imports HypLibc
begin

text \<open>
  The hypervisor's heap, \<^verbatim>\<open>sys/lib/malloc.c\<close>: the K&R first-fit allocator. Block headers are kept in
  a store of their own, \<open>hdr\<close>, indexed by the address of the header; a unit is \<open>sizeof(mem_header)\<close>
  = 8 bytes and pointer arithmetic on \<open>mem_header *\<close> scales by it. The payload of a block is the
  caller's: \<open>calloc\<close> and \<open>realloc\<close>, which write it, take the byte memory too.

  \<open>arena\<close> is the state of the heap while the hypervisor boots: one free block, from whose end every
  request is carved. The lemmas give the block each request returns, that it lies inside the free
  block and above what is left, and what happens on exhaustion and on an exact fit.
\<close>

record mem_header =
  hptr :: ptr
  hsize :: u32

record kr_heap =
  hdr :: "ptr \<Rightarrow> mem_header"
  freep :: ptr
  sfreep :: ptr
  sfree :: mem_header

definition HDR_SZ :: u32 where "HDR_SZ = 8"

definition units_of :: "u32 \<Rightarrow> u32" where
  "units_of sz = (sz + HDR_SZ - 1) div HDR_SZ + 1"

definition set_hdr :: "ptr \<Rightarrow> mem_header \<Rightarrow> kr_heap \<Rightarrow> kr_heap" where
  "set_hdr p x h = h\<lparr>hdr := (hdr h)(p := x)\<rparr>"

definition set_ptr :: "ptr \<Rightarrow> ptr \<Rightarrow> kr_heap \<Rightarrow> kr_heap" where
  "set_ptr p q h = set_hdr p ((hdr h p)\<lparr>hptr := q\<rparr>) h"

definition set_size :: "ptr \<Rightarrow> u32 \<Rightarrow> kr_heap \<Rightarrow> kr_heap" where
  "set_size p n h = set_hdr p ((hdr h p)\<lparr>hsize := n\<rparr>) h"

definition HeapInit :: "kr_heap \<Rightarrow> ptr \<Rightarrow> u32 \<Rightarrow> kr_heap" where
  "HeapInit h start len =
     (if freep h = NULL then
        (let nunits = (len + HDR_SZ - 1) div HDR_SZ + 1;
             h = set_size start (nunits - 1) h;
             h = set_ptr start start h
         in h\<lparr>freep := start, sfreep := start,
              sfree := \<lparr>hptr = hptr (hdr h start), hsize = hsize (hdr h start)\<rparr>\<rparr>)
      else
        (let h = h\<lparr>freep := sfreep h\<rparr>;
             h = set_ptr (freep h) (hptr (sfree h)) h
         in set_size (freep h) (hsize (sfree h)) h))"

text \<open>The search loop of \<open>malloc\<close>; it does not return on a ring that never comes back to \<open>freep\<close>.\<close>

partial_function (option) malloc_loop ::
  "kr_heap \<Rightarrow> u32 \<Rightarrow> ptr \<Rightarrow> ptr \<Rightarrow> (kr_heap \<times> ptr) option" where
  "malloc_loop h nunits prevp p =
     (if nunits \<le> hsize (hdr h p) then
        (if hsize (hdr h p) = nunits then
           Some ((set_ptr prevp (hptr (hdr h p)) h)\<lparr>freep := prevp\<rparr>, p + HDR_SZ)
         else
           (let h = set_size p (hsize (hdr h p) - nunits) h;
                q = p + HDR_SZ * hsize (hdr h p);
                h = set_size q nunits h
            in Some (h\<lparr>freep := prevp\<rparr>, q + HDR_SZ)))
      else if p = freep h then Some (h, NULL)
      else malloc_loop h nunits p (hptr (hdr h p)))"

definition malloc :: "kr_heap \<Rightarrow> u32 \<Rightarrow> (kr_heap \<times> ptr) option" where
  "malloc h sz =
     (if freep h = NULL then Some (h, NULL)
      else malloc_loop h (units_of sz) (freep h) (hptr (hdr h (freep h))))"

text \<open>The search loop of \<open>free\<close>: the free block after which \<open>bp\<close> belongs.\<close>

partial_function (option) free_loop :: "kr_heap \<Rightarrow> ptr \<Rightarrow> ptr \<Rightarrow> ptr option" where
  "free_loop h bp p =
     (let nx = hptr (hdr h p)
      in if p < bp \<and> bp < nx then Some p
         else if nx \<le> p \<and> (p < bp \<or> bp < nx) then Some p
         else free_loop h bp nx)"

definition free :: "kr_heap \<Rightarrow> ptr \<Rightarrow> kr_heap option" where
  "free h ptr = do {
     let bp = ptr - HDR_SZ;
     p \<leftarrow> free_loop h bp (freep h);
     let nx = hptr (hdr h p);
     let h = (if bp + HDR_SZ * hsize (hdr h bp) = nx then
                (let h = set_size bp (hsize (hdr h bp) + hsize (hdr h nx)) h
                 in set_ptr bp (hptr (hdr h (hptr (hdr h p)))) h)
              else set_ptr bp nx h);
     let h = (if p + HDR_SZ * hsize (hdr h p) = bp then
                (let h = set_size p (hsize (hdr h p) + hsize (hdr h bp)) h
                 in set_ptr p (hptr (hdr h bp)) h)
              else set_ptr p bp h);
     Some (h\<lparr>freep := p\<rparr>) }"

definition calloc :: "kr_heap \<Rightarrow> mem \<Rightarrow> u32 \<Rightarrow> u32 \<Rightarrow> (kr_heap \<times> mem \<times> ptr) option" where
  "calloc h m qty type_size = do {
     (h, buf) \<leftarrow> malloc h (qty * type_size);
     Some (h, if buf \<noteq> NULL then memset m buf 0 (qty * type_size) else m, buf) }"

definition realloc :: "kr_heap \<Rightarrow> mem \<Rightarrow> ptr \<Rightarrow> u32 \<Rightarrow> (kr_heap \<times> mem \<times> ptr) option" where
  "realloc h m p sz =
     (if p = NULL then do { (h, buf) \<leftarrow> malloc h sz; Some (h, m, buf) }
      else if sz = 0 then do { h \<leftarrow> free h p; Some (h, m, NULL) }
      else do {
        (h, buf) \<leftarrow> malloc h sz;
        if buf \<noteq> NULL then do {
          let m = memcpy m buf p sz;
          h \<leftarrow> free h p;
          Some (h, m, buf) }
        else Some (h, m, buf) })"

text \<open>\<open>heap_start\<close> and \<open>heap_size\<close> are the linker symbols \<open>_heap_start\<close>, \<open>_heap_size\<close>.\<close>

definition init_mem :: "kr_heap \<Rightarrow> u32 \<Rightarrow> u32 \<Rightarrow> kr_heap" where
  "init_mem h heap_start heap_size =
     HeapInit h ((heap_start + 8) AND 0xFFFFFFFC) ((heap_size - 8) AND 0xFFFFFFFC)"

subsection \<open>The boot arena\<close>

definition arena :: "kr_heap \<Rightarrow> ptr \<Rightarrow> u32 \<Rightarrow> bool" where
  "arena h p n \<longleftrightarrow> p \<noteq> NULL \<and> freep h = p \<and> hptr (hdr h p) = p \<and> hsize (hdr h p) = n"

lemma unat_mult8: "unat (m :: u32) < 2 ^ 29 \<Longrightarrow> unat (8 * m) = 8 * unat m"
  by (simp add: unat_word_ariths)

lemmas hdr_defs = set_hdr_def set_ptr_def set_size_def

lemma arena_HeapInit:
  "freep h = NULL \<Longrightarrow> start \<noteq> NULL \<Longrightarrow>
   arena (HeapInit h start len) start ((len + HDR_SZ - 1) div HDR_SZ)"
  by (simp add: arena_def HeapInit_def hdr_defs Let_def)

lemma arena_malloc:
  assumes "arena h p n" and "units_of sz < n" and "n < 2 ^ 29"
  shows "\<exists>h'. malloc h sz = Some (h', p + HDR_SZ * (n - units_of sz) + HDR_SZ)
    \<and> arena h' p (n - units_of sz)"
proof -
  let ?k = "units_of sz" and ?m = "n - units_of sz"
  have k: "?k \<le> n" "n \<noteq> ?k" using assms(2) by auto
  have ne: "p + HDR_SZ * ?m \<noteq> p"
  proof -
    have "unat ?m = unat n - unat ?k" using k(1) by (simp add: unat_sub)
    moreover have "unat n < 2 ^ 29" using assms(3) by (simp add: word_less_nat_alt)
    moreover have "unat ?k < unat n" using assms(2) by (simp add: word_less_nat_alt)
    ultimately have "unat (8 * ?m) = 8 * unat ?m" "unat ?m \<noteq> 0"
      by (simp_all add: unat_mult8 del: right_diff_distrib_numeral)
    then show ?thesis by (auto simp: HDR_SZ_def)
  qed
  have "malloc h sz = malloc_loop h ?k p p"
    using assms(1) by (simp add: malloc_def arena_def)
  also have "\<dots> = Some ((set_size (p + HDR_SZ * ?m) ?k (set_size p ?m h))\<lparr>freep := p\<rparr>,
      p + HDR_SZ * ?m + HDR_SZ)"
    using assms(1) k by (subst malloc_loop.simps) (simp add: arena_def Let_def hdr_defs)
  finally show ?thesis
    using assms(1) ne by (simp add: arena_def hdr_defs)
qed

lemma arena_malloc_full:
  assumes "arena h p n" and "n < units_of sz"
  shows "malloc h sz = Some (h, NULL)"
  using assms by (subst malloc_def, subst malloc_loop.simps) (auto simp: arena_def)

lemma arena_malloc_exact:
  assumes "arena h p (units_of sz)"
  shows "\<exists>h'. malloc h sz = Some (h', p + HDR_SZ) \<and> arena h' p (units_of sz)"
  using assms
  by (subst malloc_def, subst malloc_loop.simps) (auto simp: arena_def hdr_defs)

subsection \<open>The allocator's contract\<close>

text \<open>
  What a client of an allocator relies on. \<open>ainv L h r\<close>: the addresses \<open>L\<close> are in use and \<open>r\<close> units are
  free; a request that costs less than that returns an address not in use.
\<close>

locale fresh_allocator =
  fixes alloc :: "'h \<Rightarrow> u32 \<Rightarrow> ('h \<times> ptr) option"
    and ainv :: "ptr set \<Rightarrow> 'h \<Rightarrow> nat \<Rightarrow> bool"
    and cost :: "u32 \<Rightarrow> nat"
  assumes alloc_fresh: "ainv L h r \<Longrightarrow> cost n < r \<Longrightarrow>
    \<exists>h' q. alloc h n = Some (h', q) \<and> q \<noteq> NULL \<and> q \<notin> L \<and> ainv (insert q L) h' (r - cost n)"
begin

primrec alloc_all :: "u32 list \<Rightarrow> 'h \<Rightarrow> ('h \<times> ptr list) option" where
  "alloc_all [] h = Some (h, [])"
| "alloc_all (n # ns) h = do {
     (h, q) \<leftarrow> alloc h n;
     (h, qs) \<leftarrow> alloc_all ns h;
     Some (h, q # qs) }"

lemma alloc_all_fresh:
  "ainv L h r \<Longrightarrow> sum_list (map cost ns) < r \<Longrightarrow>
   \<exists>h' qs. alloc_all ns h = Some (h', qs) \<and> length qs = length ns \<and> distinct qs \<and>
     set qs \<inter> L = {} \<and> NULL \<notin> set qs \<and> ainv (set qs \<union> L) h' (r - sum_list (map cost ns))"
proof (induction ns arbitrary: L h r)
  case (Cons n ns)
  obtain h1 q where q: "alloc h n = Some (h1, q)" "q \<noteq> NULL" "q \<notin> L" "ainv (insert q L) h1 (r - cost n)"
    using alloc_fresh [OF Cons.prems(1), of n] Cons.prems(2) by auto
  have "sum_list (map cost ns) < r - cost n" using Cons.prems(2) by simp
  then obtain h2 qs where qs: "alloc_all ns h1 = Some (h2, qs)" "length qs = length ns" "distinct qs"
    "set qs \<inter> insert q L = {}" "NULL \<notin> set qs"
    "ainv (set qs \<union> insert q L) h2 (r - cost n - sum_list (map cost ns))"
    using Cons.IH [OF q(4)] by blast
  then show ?case using q by auto
qed simp

end

definition heap_inv :: "ptr set \<Rightarrow> kr_heap \<Rightarrow> nat \<Rightarrow> bool" where
  "heap_inv L h r \<longleftrightarrow> (\<exists>p n. arena h p n \<and> unat n = r \<and> r < 2 ^ 29 \<and> unat p + 8 * r < 2 ^ 32 \<and>
     (\<forall>a\<in>L. unat p + 8 * r < unat a))"

lemma malloc_fresh:
  assumes "heap_inv L h r" and k: "unat (units_of sz) < r" "units_of sz \<noteq> 0"
  shows "\<exists>h' q. malloc h sz = Some (h', q) \<and> q \<noteq> NULL \<and> q \<notin> L \<and>
    heap_inv (insert q L) h' (r - unat (units_of sz))"
proof -
  obtain p n where ar: "arena h p n" and n: "unat n = r" "r < 2 ^ 29" "unat p + 8 * r < 2 ^ 32"
    and lv: "\<forall>a\<in>L. unat p + 8 * r < unat a" using assms(1) unfolding heap_inv_def by blast
  let ?m = "n - units_of sz"
  let ?q = "p + HDR_SZ * ?m + HDR_SZ"
  have kn: "units_of sz < n" "n < 2 ^ 29" using k n by (simp_all add: word_less_nat_alt)
  obtain h' where h: "malloc h sz = Some (h', ?q)" "arena h' p ?m"
    using arena_malloc [OF ar kn] by blast
  have m: "unat ?m = r - unat (units_of sz)" using kn(1) n by (simp add: unat_sub)
  have k0: "unat (units_of sz) \<noteq> 0" using k(2) by (simp add: unat_eq_0)
  then have mlt: "unat ?m < r" using k(1) m by simp
  then have m8: "unat (HDR_SZ * ?m) = 8 * unat ?m"
    using n unfolding HDR_SZ_def by (intro unat_mult8) simp
  have "unat (p + HDR_SZ * ?m) = unat p + 8 * unat ?m"
    using mlt n by (subst unat_add_small) (simp_all only: m8, simp)
  then have uq: "unat ?q = unat p + 8 * unat ?m + 8"
    using mlt n by (subst unat_add_small) (simp_all add: HDR_SZ_def)
  have "?q \<notin> L" using lv uq mlt by fastforce
  moreover have "?q \<noteq> NULL" using uq by auto
  moreover have "heap_inv (insert ?q L) h' (unat ?m)"
    unfolding heap_inv_def
    using h(2) n mlt uq lv by (intro exI [of _ p] exI [of _ ?m]) (auto dest: bspec intro: less_trans)
  ultimately show ?thesis using h(1) m by metis
qed

text \<open>The boot arena of \<^verbatim>\<open>malloc.c\<close> is such an allocator, for requests whose rounding does not overflow.\<close>

definition units_cost :: "u32 \<Rightarrow> nat" where
  "units_cost sz = (if units_of sz = 0 then 2 ^ 29 else unat (units_of sz))"

interpretation boot_heap: fresh_allocator malloc heap_inv units_cost
proof
  fix L h r n
  assume inv: "heap_inv L h r" and c: "units_cost n < r"
  have "r < 2 ^ 29" using inv by (auto simp: heap_inv_def)
  with c have "units_of n \<noteq> 0" "unat (units_of n) < r" "units_cost n = unat (units_of n)"
    by (auto simp: units_cost_def split: if_splits)
  then show "\<exists>h' q. malloc h n = Some (h', q) \<and> q \<noteq> NULL \<and> q \<notin> L \<and> heap_inv (insert q L) h' (r - units_cost n)"
    using malloc_fresh [OF inv, of n] by simp
qed

end
