(* ===== verification/Machine.thy ===== *)
theory Machine
  imports CMem
begin

text \<open>
  The processor as the hypervisor sees it: the root and guest CP0 registers, the banks of general
  purpose registers (one per shadow set), the TLB, the byte memory behind it and the 32-bit
  memory-mapped registers of the PIC32MZ.

  \<^item> \<open>mfc0\<close>, \<open>mtc0\<close>, \<open>mfgc0\<close>, \<open>mtgc0\<close>, \<open>tlb_commit\<close> and the two \<open>PreviousGuestGPR\<close> accessors are the
    macros of \<^verbatim>\<open>arch/mips/common/include/mips_cp0.h\<close>. \<open>CP0_COUNT\<close> advances on its own: the n-th
    read returns \<open>count_src hw n\<close>, an arbitrary sequence.
  \<^item> \<open>translate\<close> is the MIPS32 root address translation: kseg0 and kseg1 are fixed windows, any other
    address needs a valid root entry (guest id 0) of the TLB; \<open>None\<close> is a TLB exception.
  \<^item> \<open>sfr_write\<close> is the write to a PIC32 register: the three words after a register are its CLR, SET and
    INV aliases, except in the \<open>OFF\<close> table.
\<close>

record tlb_reg =
  t_gid :: u32
  t_hi :: u32
  t_lo0 :: u32
  t_lo1 :: u32
  t_mask :: u32

record hw =
  cp0 :: "nat \<times> nat \<Rightarrow> u32"
  gcp0 :: "nat \<times> nat \<Rightarrow> u32"
  gpr :: "u32 \<Rightarrow> nat \<Rightarrow> u32"
  tlb :: "u32 \<Rightarrow> tlb_reg option"
  ram :: mem
  sfr :: "u32 \<Rightarrow> u32"
  count_src :: "nat \<Rightarrow> u32"
  count_reads :: nat

subsection \<open>CP0 registers and fields (\<^verbatim>\<open>mips_cp0.h\<close>)\<close>

abbreviation (input) "CP0_INDEX \<equiv> 0 :: nat"
abbreviation (input) "CP0_RANDOM \<equiv> 1 :: nat"
abbreviation (input) "CP0_ENTRYLO0 \<equiv> 2 :: nat"
abbreviation (input) "CP0_ENTRYLO1 \<equiv> 3 :: nat"
abbreviation (input) "CP0_PAGEMASK \<equiv> 5 :: nat"
abbreviation (input) "CP0_PAGEGRAIN \<equiv> 5 :: nat"
abbreviation (input) "CP0_BADVADDR \<equiv> 8 :: nat"
abbreviation (input) "CP0_COUNT \<equiv> 9 :: nat"
abbreviation (input) "CP0_ENTRYHI \<equiv> 10 :: nat"
abbreviation (input) "CP0_GUESTCTL1 \<equiv> 10 :: nat"
abbreviation (input) "CP0_GUESTCTL2 \<equiv> 10 :: nat"
abbreviation (input) "CP0_GUESTCTL3 \<equiv> 10 :: nat"
abbreviation (input) "CP0_COMPARE \<equiv> 11 :: nat"
abbreviation (input) "CP0_GUESTCLT0EXT \<equiv> 11 :: nat"
abbreviation (input) "CP0_STATUS \<equiv> 12 :: nat"
abbreviation (input) "CP0_INTCTL \<equiv> 12 :: nat"
abbreviation (input) "CP0_SRSCTL \<equiv> 12 :: nat"
abbreviation (input) "CP0_SRSMAP \<equiv> 12 :: nat"
abbreviation (input) "CP0_SRSMAP2 \<equiv> 12 :: nat"
abbreviation (input) "CP0_GUESTCTL0 \<equiv> 12 :: nat"
abbreviation (input) "CP0_GTOOFFSET \<equiv> 12 :: nat"
abbreviation (input) "CP0_CAUSE \<equiv> 13 :: nat"
abbreviation (input) "CP0_EPC \<equiv> 14 :: nat"
abbreviation (input) "CP0_EBASE \<equiv> 15 :: nat"
abbreviation (input) "CP0_CONFIG3 \<equiv> 16 :: nat"
abbreviation (input) "CP0_DEBUG2 \<equiv> 23 :: nat"

abbreviation (input) "STATUS_BEV \<equiv> 0x00400000 :: u32"
abbreviation (input) "STATUS_ERL \<equiv> 4 :: u32"
abbreviation (input) "STATUS_EXL \<equiv> 2 :: u32"
abbreviation (input) "STATUS_IE \<equiv> 1 :: u32"
abbreviation (input) "CAUSE_BD \<equiv> 0x80000000 :: u32"
abbreviation (input) "CAUSE_IV \<equiv> 0x00800000 :: u32"
abbreviation (input) "CONFIG3_VZ \<equiv> 0x00800000 :: u32"
abbreviation (input) "CONFIG3_SP \<equiv> 0x10 :: u32"
abbreviation (input) "GUESTCTL0_GM \<equiv> 0x80000000 :: u32"
abbreviation (input) "GUESTCTL0_CP0 \<equiv> 0x10000000 :: u32"
abbreviation (input) "GUESTCTL0_GT \<equiv> 0x02000000 :: u32"
abbreviation (input) "GUESTCTL0_CG \<equiv> 0x01000000 :: u32"
abbreviation (input) "GUESTCTL0_CF \<equiv> 0x00800000 :: u32"
abbreviation (input) "GUESTCTL0_G1 \<equiv> 0x00400000 :: u32"
abbreviation (input) "GUESTCTL0_DRG \<equiv> 0x100 :: u32"
abbreviation (input) "GUESTCTL0_RAD \<equiv> 0x200 :: u32"
abbreviation (input) "GUESTCTL0EXT_FCD \<equiv> 8 :: u32"
abbreviation (input) "GUESTCTL0EXT_CGI \<equiv> 0x10 :: u32"
abbreviation (input) "DEBUG_DM \<equiv> 0x40000000 :: u32"
abbreviation (input) "CAUSE_EXECCODE \<equiv> 0x7C :: u32"
abbreviation (input) "CAUSE_IP \<equiv> 0x3FF00 :: u32"
abbreviation (input) "INTCTL_VS \<equiv> 2 :: u32"
abbreviation (input) "PAGEGRAIN_ESP \<equiv> 0x10000000 :: u32"
abbreviation (input) "SRSCTL_HSS \<equiv> 0x3C000000 :: u32"
abbreviation (input) "SRSCTL_PSS \<equiv> 0x3C0 :: u32"
abbreviation (input) "GUESTCTL1_RID \<equiv> 0x00FF0000 :: u32"
abbreviation (input) "GUESTCTL1_ID \<equiv> 0xFF :: u32"
abbreviation (input) "HYPCODE \<equiv> 0x001FF800 :: u32"
abbreviation (input) "PERFORMANCE_COUNTER_INT \<equiv> 0x80000000 :: u32"

abbreviation (input) "SRSCTL_HSS_SHIFT \<equiv> 26 :: nat"
abbreviation (input) "SRSCLT_PSS_SHIFT \<equiv> 6 :: nat"
abbreviation (input) "CAUSE_EXECCODE_SHIFT \<equiv> 2 :: nat"
abbreviation (input) "CAUSE_PCI_SHIFT \<equiv> 26 :: nat"
abbreviation (input) "INTCTL_VS_SHIFT \<equiv> 5 :: nat"
abbreviation (input) "GUESTCTL1_RID_SHIFT \<equiv> 16 :: nat"
abbreviation (input) "GUESTCLT2_GRIPL_SHIFT \<equiv> 24 :: nat"
abbreviation (input) "HYPCODE_SHIFT \<equiv> 11 :: nat"

abbreviation (input) "REG_V0 \<equiv> 2 :: nat"
abbreviation (input) "REG_A0 \<equiv> 4 :: nat"
abbreviation (input) "REG_A1 \<equiv> 5 :: nat"
abbreviation (input) "REG_A2 \<equiv> 6 :: nat"

abbreviation (input) "TLB_LOAD_FETCH_EXCEPTION \<equiv> 2 :: u32"
abbreviation (input) "TLB_STORE_EXCEPTION \<equiv> 3 :: u32"
abbreviation (input) "GUEST_EXIT_EXCEPTION \<equiv> 0x1b :: u32"
abbreviation (input) "GUEST_INSTRUCTION_EMULATION \<equiv> 0 :: u32"
abbreviation (input) "GUEST_HYPERCALL \<equiv> 2 :: u32"

subsection \<open>Register access\<close>

definition mfc0 :: "hw \<Rightarrow> nat \<Rightarrow> nat \<Rightarrow> u32" where
  "mfc0 h reg sel = cp0 h (reg, sel)"

definition mtc0 :: "nat \<Rightarrow> nat \<Rightarrow> u32 \<Rightarrow> hw \<Rightarrow> hw" where
  "mtc0 reg sel v h = h\<lparr>cp0 := (cp0 h)((reg, sel) := v)\<rparr>"

text \<open>\<open>mfc0(CP0_COUNT, 0)\<close>.\<close>

definition mfc0_count :: "hw \<Rightarrow> u32 \<times> hw" where
  "mfc0_count h = (count_src h (count_reads h), h\<lparr>count_reads := count_reads h + 1\<rparr>)"

definition mfgc0 :: "hw \<Rightarrow> nat \<Rightarrow> nat \<Rightarrow> u32" where
  "mfgc0 h reg sel = gcp0 h (reg, sel)"

definition mtgc0 :: "nat \<Rightarrow> nat \<Rightarrow> u32 \<Rightarrow> hw \<Rightarrow> hw" where
  "mtgc0 reg sel v h = h\<lparr>gcp0 := (gcp0 h)((reg, sel) := v)\<rparr>"

text \<open>\<open>rdpgpr\<close> and \<open>wrpgpr\<close> use the bank selected by \<open>SRSCTL.PSS\<close>.\<close>

definition prev_set :: "hw \<Rightarrow> u32" where
  "prev_set h = drop_bit SRSCLT_PSS_SHIFT (cp0 h (CP0_SRSCTL, 2) AND SRSCTL_PSS)"

definition MoveFromPreviousGuestGPR :: "hw \<Rightarrow> nat \<Rightarrow> u32" where
  "MoveFromPreviousGuestGPR h r = gpr h (prev_set h) r"

definition MoveToPreviousGuestGPR :: "nat \<Rightarrow> u32 \<Rightarrow> hw \<Rightarrow> hw" where
  "MoveToPreviousGuestGPR r v h =
     h\<lparr>gpr := (gpr h)(prev_set h := (gpr h (prev_set h))(r := v))\<rparr>"

subsection \<open>TLB and memory\<close>

text \<open>\<open>tlbwi\<close>: the entry named by \<open>Index\<close> becomes the contents of the TLB registers, its guest id the
  field \<open>RID\<close> of \<open>GuestCtl1\<close>.\<close>

definition tlb_commit :: "hw \<Rightarrow> hw" where
  "tlb_commit h = h\<lparr>tlb := (tlb h)(cp0 h (CP0_INDEX, 0) \<mapsto>
     \<lparr>t_gid = drop_bit GUESTCTL1_RID_SHIFT (cp0 h (CP0_GUESTCTL1, 4) AND GUESTCTL1_RID),
      t_hi = cp0 h (CP0_ENTRYHI, 0), t_lo0 = cp0 h (CP0_ENTRYLO0, 0),
      t_lo1 = cp0 h (CP0_ENTRYLO1, 0), t_mask = cp0 h (CP0_PAGEMASK, 0)\<rparr>)\<rparr>"

definition pair_mask :: "tlb_reg \<Rightarrow> u32" where
  "pair_mask e = t_mask e OR 0x1FFF"

definition tlb_match :: "u32 \<Rightarrow> tlb_reg \<Rightarrow> bool" where
  "tlb_match va e \<longleftrightarrow> va AND NOT (pair_mask e) = t_hi e AND NOT (pair_mask e)"

definition tlb_phys :: "u32 \<Rightarrow> tlb_reg \<Rightarrow> u32 option" where
  "tlb_phys va e =
     (let off = drop_bit 1 (pair_mask e);
          lo = (if va AND (off + 1) = 0 then t_lo0 e else t_lo1 e)
      in if lo AND 2 = 0 then None
         else Some ((push_bit 12 (drop_bit 6 lo) AND NOT off) OR (va AND off)))"

definition NUM_TLB :: nat where "NUM_TLB = 32"

text \<open>The entry of guest \<open>gid\<close> that maps \<open>va\<close>.\<close>

definition tlb_lookup :: "hw \<Rightarrow> u32 \<Rightarrow> u32 \<Rightarrow> tlb_reg option" where
  "tlb_lookup h gid va =
     List.find (\<lambda>e. t_gid e = gid \<and> tlb_match va e)
       (List.map_filter (\<lambda>i. tlb h (of_nat i)) [0..<NUM_TLB])"

definition in_kseg01 :: "u32 \<Rightarrow> bool" where
  "in_kseg01 va \<longleftrightarrow> 0x80000000 \<le> va \<and> va < 0xC0000000"

definition translate :: "hw \<Rightarrow> u32 \<Rightarrow> u32 option" where
  "translate h va =
     (if in_kseg01 va then Some (va AND 0x1FFFFFFF)
      else Option.bind (tlb_lookup h 0 va) (tlb_phys va))"

definition read8 :: "hw \<Rightarrow> u32 \<Rightarrow> u8 option" where
  "read8 h va = map_option (ram h) (translate h va)"

definition write8 :: "u32 \<Rightarrow> u8 \<Rightarrow> hw \<Rightarrow> hw option" where
  "write8 va b h = map_option (\<lambda>pa. h\<lparr>ram := (ram h)(pa := b)\<rparr>) (translate h va)"

primrec read_bytes :: "hw \<Rightarrow> u32 \<Rightarrow> nat \<Rightarrow> u8 list option" where
  "read_bytes h va 0 = Some []"
| "read_bytes h va (Suc n) =
     do { b \<leftarrow> read8 h va; bs \<leftarrow> read_bytes h (va + 1) n; Some (b # bs) }"

primrec write_bytes :: "u32 \<Rightarrow> u8 list \<Rightarrow> hw \<Rightarrow> hw option" where
  "write_bytes va [] h = Some h"
| "write_bytes va (b # bs) h = do { h \<leftarrow> write8 va b h; write_bytes (va + 1) bs h }"

definition read32 :: "hw \<Rightarrow> u32 \<Rightarrow> u32 option" where
  "read32 h va = do {
     bs \<leftarrow> read_bytes h va 4;
     Some (load32 ((\<lambda>i. bs ! unat i)) 0) }"

definition write32 :: "u32 \<Rightarrow> u32 \<Rightarrow> hw \<Rightarrow> hw option" where
  "write32 va v h = write_bytes va (le_bytes v) h"

subsection \<open>Memory-mapped registers (\<^verbatim>\<open>pic32mz.h\<close>)\<close>

definition SFR_BASE :: u32 where "SFR_BASE = 0xBF800000"

definition IFS :: "u32 \<Rightarrow> u32" where "IFS n = SFR_BASE + 0x10040 + push_bit 4 n"
definition IEC :: "u32 \<Rightarrow> u32" where "IEC n = SFR_BASE + 0x100C0 + push_bit 4 n"
definition IPC :: "u32 \<Rightarrow> u32" where "IPC n = SFR_BASE + 0x10140 + push_bit 4 n"
definition OFF :: "u32 \<Rightarrow> u32" where "OFF n = SFR_BASE + 0x10540 + push_bit 2 n"
definition INTCON :: u32 where "INTCON = SFR_BASE + 0x10000"
definition PRISS :: u32 where "PRISS = SFR_BASE + 0x10010"
definition NVMCON :: u32 where "NVMCON = SFR_BASE + 0x600"
definition NVMKEY :: u32 where "NVMKEY = SFR_BASE + 0x610"
definition NVMADDR :: u32 where "NVMADDR = SFR_BASE + 0x620"
definition NVMDATA :: "u32 \<Rightarrow> u32" where "NVMDATA n = SFR_BASE + 0x630 + push_bit 4 n"

text \<open>The vector offsets and the pin selections are plain words; every other register has \<open>CLR\<close>, \<open>SET\<close> and
  \<open>INV\<close> at the three words that follow it.\<close>

definition is_off_reg :: "u32 \<Rightarrow> bool" where
  "is_off_reg a \<longleftrightarrow> OFF 0 \<le> a \<and> a < OFF 256"

definition is_pin_reg :: "u32 \<Rightarrow> bool" where
  "is_pin_reg a \<longleftrightarrow> SFR_BASE + 0x1400 \<le> a \<and> a < SFR_BASE + 0x1800"

definition sfr_write :: "u32 \<Rightarrow> u32 \<Rightarrow> hw \<Rightarrow> hw" where
  "sfr_write a v h =
     (let base = a AND NOT 0xC; old = sfr h base
      in if is_off_reg a \<or> is_pin_reg a \<or> a AND 0xC = 0 then h\<lparr>sfr := (sfr h)(a := v)\<rparr>
         else if a AND 0xC = 4 then h\<lparr>sfr := (sfr h)(base := old AND NOT v)\<rparr>
         else if a AND 0xC = 8 then h\<lparr>sfr := (sfr h)(base := old OR v)\<rparr>
         else h\<lparr>sfr := (sfr h)(base := old XOR v)\<rparr>)"

abbreviation sfr_clr :: "u32 \<Rightarrow> u32 \<Rightarrow> hw \<Rightarrow> hw" where
  "sfr_clr reg v \<equiv> sfr_write (reg + 4) v"

abbreviation sfr_set :: "u32 \<Rightarrow> u32 \<Rightarrow> hw \<Rightarrow> hw" where
  "sfr_set reg v \<equiv> sfr_write (reg + 8) v"

lemma sfr_write_keeps [simp]:
  "cp0 (sfr_write a v h) = cp0 h" "tlb (sfr_write a v h) = tlb h" "ram (sfr_write a v h) = ram h"
  "gpr (sfr_write a v h) = gpr h" "gcp0 (sfr_write a v h) = gcp0 h"
  by (simp_all add: sfr_write_def Let_def)

subsection \<open>Buffers behind a translation\<close>

lemma translate_ram [simp]: "translate (h\<lparr>ram := m\<rparr>) va = translate h va"
  by (simp add: translate_def tlb_lookup_def)

lemma read_bytes_translate:
  "(\<And>k. k < n \<Longrightarrow> translate h (va + of_nat k) = Some (P + of_nat k)) \<Longrightarrow>
   read_bytes h va n = Some (bytes_at (ram h) P n)"
proof (induction n arbitrary: va P)
  case (Suc n)
  have "translate h (va + 1 + of_nat k) = Some (P + 1 + of_nat k)" if "k < n" for k
    using Suc.prems [of "Suc k"] that by (simp add: algebra_simps)
  then have "read_bytes h (va + 1) n = Some (bytes_at (ram h) (P + 1) n)" by (rule Suc.IH)
  moreover have "read8 h va = Some (ram h P)" using Suc.prems [of 0] by (simp add: read8_def)
  ultimately show ?case by (simp add: bytes_at_Suc)
qed simp

lemma write_bytes_translate:
  "(\<And>k. k < length bs \<Longrightarrow> translate h (va + of_nat k) = Some (P + of_nat k)) \<Longrightarrow>
   write_bytes va bs h = Some (h\<lparr>ram := store_bytes (ram h) P bs\<rparr>)"
proof (induction bs arbitrary: va P h)
  case (Cons b bs)
  let ?h = "h\<lparr>ram := (ram h)(P := b)\<rparr>"
  have "translate ?h (va + 1 + of_nat k) = Some (P + 1 + of_nat k)" if "k < length bs" for k
    using Cons.prems [of "Suc k"] that by (simp add: algebra_simps)
  then have "write_bytes (va + 1) bs ?h = Some (?h\<lparr>ram := store_bytes (ram ?h) (P + 1) bs\<rparr>)"
    by (rule Cons.IH)
  moreover have "write8 va b h = Some ?h" using Cons.prems [of 0] by (simp add: write8_def)
  ultimately show ?case by simp
qed simp

lemma translate_kseg0:
  assumes "unat x < 2 ^ 29"
  shows "translate h (0x80000000 + x) = Some x"
proof -
  have u: "unat (0x80000000 + x) = 0x80000000 + unat x" using assms by (subst unat_add_small) simp_all
  have m: "0x1FFFFFFF = (mask 29 :: u32)" by (simp add: mask_eq_exp_minus_1)
  have "unat (0x80000000 + x AND mask 29) = unat x"
    using assms mod_mult_self3 [of 4 536870912 "unat x"]
    by (simp add: take_bit_eq_mask [symmetric] take_bit_eq_mod unat_mod u)
  then have "0x80000000 + x AND 0x1FFFFFFF = x" unfolding m by (simp only: word_unat_eq_iff)
  then show ?thesis using assms u by (simp add: translate_def in_kseg01_def word_le_nat_alt word_less_nat_alt)
qed

end
