(* ===== verification/Hal.thy ===== *)
theory Hal
  imports Machine
begin

text \<open>
  \<^verbatim>\<open>arch/mips/common/hal.c\<close>: access to the CP0 registers, the initial checks and configuration of the
  processor, and the busy wait. \<open>hyper_init\<close> is in theory \<open>Boot\<close>. The lemmas give the fields the
  setters change and the ones they keep.
\<close>

definition isRootMode :: "hw \<Rightarrow> u32" where
  "isRootMode h =
     (let guestctl0 = mfc0 h CP0_GUESTCTL0 6; status = mfc0 h CP0_STATUS 0
      in if guestctl0 AND GUESTCTL0_GM = 0 \<or>
            (guestctl0 AND GUESTCTL0_GM \<noteq> 0 \<and>
             \<not> (mfc0 h CP0_DEBUG2 0 AND DEBUG_DM = 0 \<and> status AND STATUS_ERL = 0 \<and>
                status AND STATUS_EXL = 0))
         then 1 else 0)"

definition hasVZ :: "hw \<Rightarrow> u32" where
  "hasVZ h = (if mfc0 h CP0_CONFIG3 3 AND CONFIG3_VZ = 0 then 0 else 1)"

definition ConfigureGPRShadow :: "hw \<Rightarrow> u32 \<times> hw" where
  "ConfigureGPRShadow h =
     (let num_shadow_gprs = drop_bit SRSCTL_HSS_SHIFT (mfc0 h CP0_SRSCTL 2 AND SRSCTL_HSS)
      in if num_shadow_gprs = 0 then (1, h)
         else (let h = mtc0 CP0_SRSCTL 2 0 h;
                   h = mtc0 CP0_SRSMAP 3 0 h;
                   h = mtc0 CP0_SRSMAP2 5 0 h;
                   h = mtc0 CP0_GUESTCTL3 6 0 h
               in (0, h)))"

definition hasGuestID :: "hw \<Rightarrow> u32" where
  "hasGuestID h = (if mfc0 h CP0_GUESTCTL0 6 AND GUESTCTL0_G1 \<noteq> 0 then 1 else 0)"

definition isDirectRoot :: "hw \<Rightarrow> u32" where
  "isDirectRoot h = (if mfc0 h CP0_GUESTCTL0 6 AND GUESTCTL0_DRG \<noteq> 0 then 1 else 0)"

definition isRootASID :: "hw \<Rightarrow> u32" where
  "isRootASID h = (if mfc0 h CP0_GUESTCTL0 6 AND GUESTCTL0_RAD \<noteq> 0 then 1 else 0)"

definition has1KPageSupport :: "hw \<Rightarrow> u32" where
  "has1KPageSupport h = mfc0 h CP0_CONFIG3 3 AND CONFIG3_SP"

definition Disable1KPageSupport :: "hw \<Rightarrow> hw" where
  "Disable1KPageSupport h =
     mtc0 CP0_PAGEGRAIN 1 (mfc0 h CP0_PAGEGRAIN 1 AND NOT PAGEGRAIN_ESP) h"

definition setGTOffset :: "u32 \<Rightarrow> hw \<Rightarrow> hw" where
  "setGTOffset gtoffset h = mtc0 CP0_GTOOFFSET 0 gtoffset h"

text \<open>Returns 1 or -1 on the failed checks, 0 on success.\<close>

definition LowLevelProcInit :: "hw \<Rightarrow> u32 \<times> hw" where
  "LowLevelProcInit h =
     (if hasVZ h = 0 then (1, h)
      else if isRootMode h = 0 then (1, h)
      else if isRootASID h \<noteq> 0 then (- 1, h)
      else if hasGuestID h = 0 then (1, h)
      else (let h = (if has1KPageSupport h \<noteq> 0 then Disable1KPageSupport h else h);
                h = mtc0 CP0_INTCTL 1 (mfc0 h CP0_INTCTL 1 OR push_bit INTCTL_VS_SHIFT INTCTL_VS) h;
                h = mtc0 CP0_GUESTCTL0 6 (mfc0 h CP0_GUESTCTL0 6 OR GUESTCTL0_CP0 OR GUESTCTL0_GT
                      OR GUESTCTL0_CF OR GUESTCTL0_CG) h;
                h = mtc0 CP0_GUESTCLT0EXT 4 (mfc0 h CP0_GUESTCLT0EXT 4 OR GUESTCTL0EXT_CGI) h;
                h = mtc0 CP0_GUESTCLT0EXT 4 (mfc0 h CP0_GUESTCLT0EXT 4 OR GUESTCTL0EXT_FCD) h;
                (err, h) = ConfigureGPRShadow h
            in if err \<noteq> 0 then (1, h) else (0, setGTOffset 0 h)))"

definition getCauseCode :: "hw \<Rightarrow> u32" where
  "getCauseCode h = drop_bit CAUSE_EXECCODE_SHIFT (mfc0 h CP0_CAUSE 0 AND CAUSE_EXECCODE)"

definition getHypercallCode :: "hw \<Rightarrow> u32" where
  "getHypercallCode h = drop_bit HYPCODE_SHIFT (mfc0 h CP0_BADVADDR 1 AND HYPCODE)"

definition getCauseBD :: "hw \<Rightarrow> u32" where
  "getCauseBD h = mfc0 h CP0_CAUSE 0 AND CAUSE_BD"

definition getGCauseCode :: "hw \<Rightarrow> u32" where
  "getGCauseCode h = drop_bit CAUSE_EXECCODE_SHIFT (mfc0 h CP0_GUESTCTL0 6 AND CAUSE_EXECCODE)"

definition getInterruptPending :: "hw \<Rightarrow> u32" where
  "getInterruptPending h =
     (let pending = mfc0 h CP0_CAUSE 0
      in if drop_bit CAUSE_PCI_SHIFT pending AND 1 = 1 then PERFORMANCE_COUNTER_INT
         else pending AND CAUSE_IP)"

definition confTimer :: "u32 \<Rightarrow> hw \<Rightarrow> hw" where
  "confTimer quantum h =
     (let (count, h) = mfc0_count h
      in mtc0 CP0_COMPARE 0
           (if quantum \<le> 0xFFFFFFFF - count then count + quantum
            else quantum - (0xFFFFFFFF - count)) h)"

definition setInterruptMask :: "u32 \<Rightarrow> hw \<Rightarrow> hw" where
  "setInterruptMask im h = mtc0 CP0_STATUS 0 (mfc0 h CP0_STATUS 0 OR im) h"

definition clearInterruptMask :: "u32 \<Rightarrow> hw \<Rightarrow> hw" where
  "clearInterruptMask im h = mtc0 CP0_STATUS 0 (mfc0 h CP0_STATUS 0 AND NOT im) h"

definition enableIE :: "hw \<Rightarrow> hw" where
  "enableIE h = mtc0 CP0_STATUS 0 (mfc0 h CP0_STATUS 0 OR STATUS_IE) h"

definition setEPC :: "u32 \<Rightarrow> hw \<Rightarrow> hw" where
  "setEPC epc h = mtc0 CP0_EPC 0 epc h"

definition getEPC :: "hw \<Rightarrow> u32" where
  "getEPC h = mfc0 h CP0_EPC 0"

definition setGuestRID :: "u32 \<Rightarrow> hw \<Rightarrow> hw" where
  "setGuestRID guestrid h =
     (let reg = (mfc0 h CP0_GUESTCTL1 4 AND NOT GUESTCTL1_RID) OR push_bit GUESTCTL1_RID_SHIFT guestrid
      in mtc0 CP0_GUESTCTL1 4 reg h)"

definition setGuestID :: "u32 \<Rightarrow> hw \<Rightarrow> hw" where
  "setGuestID guestid h =
     mtc0 CP0_GUESTCTL1 4 ((mfc0 h CP0_GUESTCTL1 4 AND NOT GUESTCTL1_ID) OR guestid) h"

definition getGuestID :: "hw \<Rightarrow> u32" where
  "getGuestID h = mfc0 h CP0_GUESTCTL1 4 AND GUESTCTL1_ID"

definition setGuestMode :: "hw \<Rightarrow> hw" where
  "setGuestMode h = mtc0 CP0_GUESTCTL0 6
     (mfc0 h CP0_GUESTCTL0 6 OR GUESTCTL0_GM OR GUESTCTL0_CP0 OR GUESTCTL0_GT OR push_bit 12 1) h"

definition setStatusReg :: "u32 \<Rightarrow> hw \<Rightarrow> hw" where
  "setStatusReg bits h = mtc0 CP0_STATUS 0 (mfc0 h CP0_STATUS 0 OR bits) h"

definition isEnteringGuestMode :: "hw \<Rightarrow> u32" where
  "isEnteringGuestMode h =
     (let status = mfc0 h CP0_STATUS 0
      in if mfc0 h CP0_GUESTCTL0 6 AND GUESTCTL0_GM \<noteq> 0 \<and> status AND STATUS_ERL = 0 \<and>
            status AND STATUS_EXL \<noteq> 0 \<and> mfc0 h CP0_DEBUG2 0 AND DEBUG_DM = 0
         then 1 else 0)"

definition getBadVAddress :: "hw \<Rightarrow> u32" where
  "getBadVAddress h = mfc0 h CP0_BADVADDR 0"

definition setLowestGShadow :: "u32 \<Rightarrow> hw \<Rightarrow> hw" where
  "setLowestGShadow lowestshadow h = mtc0 CP0_GUESTCTL3 6 (lowestshadow AND 0xF) h"

definition getLowestGShadow :: "hw \<Rightarrow> u32" where
  "getLowestGShadow h = mfc0 h CP0_GUESTCTL3 6 AND 0xF"

definition setPreviousShadowSet :: "u32 \<Rightarrow> hw \<Rightarrow> hw" where
  "setPreviousShadowSet shadow_set h =
     (let srsclt = mfc0 h CP0_SRSCTL 2;
          srsclt = (srsclt AND NOT SRSCTL_PSS) OR push_bit SRSCLT_PSS_SHIFT shadow_set
      in mtc0 CP0_SRSCTL 2 srsclt h)"

definition getPreviousShadowSet :: "hw \<Rightarrow> u32" where
  "getPreviousShadowSet h =
     (let srsclt = mfc0 h CP0_SRSCTL 2 in drop_bit SRSCLT_PSS_SHIFT (srsclt AND SRSCTL_PSS))"

definition getCounter :: "hw \<Rightarrow> u32 \<times> hw" where
  "getCounter h = mfc0_count h"

definition setGuestCTL2 :: "u32 \<Rightarrow> hw \<Rightarrow> hw" where
  "setGuestCTL2 guestclt2 h = mtc0 CP0_GUESTCTL2 5 guestclt2 h"

definition getGuestCTL2 :: "hw \<Rightarrow> u32" where
  "getGuestCTL2 h = mfc0 h CP0_GUESTCTL2 5"

definition getRandom :: "hw \<Rightarrow> u32" where
  "getRandom h = mfc0 h CP0_RANDOM 0"

definition CPU_FREQ :: u32 where "CPU_FREQ = 200000000"

partial_function (option) udelay_loop :: "u32 \<Rightarrow> hw \<Rightarrow> hw option" where
  "udelay_loop final h =
     (let r = mfc0_count h
      in if 0 \<le>s fst r - final then Some (snd r) else udelay_loop final (snd r))"

definition udelay :: "u32 \<Rightarrow> hw \<Rightarrow> hw option" where
  "udelay usec h =
     (let (now, h) = mfc0_count h
      in udelay_loop (now + usec * (CPU_FREQ div 1000000) div 2) h)"

subsection \<open>What the setters keep\<close>

lemmas hal_setters = setGTOffset_def setEPC_def setGuestRID_def setGuestID_def setGuestMode_def
  setStatusReg_def setLowestGShadow_def setPreviousShadowSet_def setGuestCTL2_def mtc0_def Let_def

text \<open>Bit masks of disjoint fields.\<close>

lemma field_insert:
  fixes x v :: u32
  assumes "unat v < 2 ^ n" and "n + k \<le> 32"
  shows "drop_bit k (((x AND NOT (push_bit k (mask n))) OR push_bit k v) AND push_bit k (mask n)) = v"
proof (rule bit_word_eqI)
  fix i assume i: "i < LENGTH(32)"
  have "unat (take_bit n v) = unat v"
    using assms(1) by (simp add: unsigned_take_bit_eq take_bit_nat_eq_self)
  then have "take_bit n v = v" by (simp only: word_unat_eq_iff)
  then have *: "bit v i \<Longrightarrow> i < n" by (metis bit_take_bit_iff)
  then show "bit (drop_bit k (((x AND NOT (push_bit k (mask n))) OR push_bit k v) AND push_bit k (mask n))) i
      = bit v i"
    using i assms(2) by (auto simp: bit_simps)
qed

lemma PSS_mask: "SRSCTL_PSS = push_bit SRSCLT_PSS_SHIFT (mask 4)"
  by (simp add: mask_eq_exp_minus_1 push_bit_eq_mult)

lemma RID_mask: "GUESTCTL1_RID = push_bit GUESTCTL1_RID_SHIFT (mask 8)"
  by (simp add: mask_eq_exp_minus_1 push_bit_eq_mult)

lemma prev_set_setPreviousShadowSet:
  "unat s < 16 \<Longrightarrow> prev_set (setPreviousShadowSet s h) = s"
  using field_insert [of s 4 6 "cp0 h (CP0_SRSCTL, 2)"]
  by (simp add: prev_set_def setPreviousShadowSet_def mtc0_def mfc0_def PSS_mask)

lemma getPreviousShadowSet_prev: "getPreviousShadowSet h = prev_set h"
  by (simp add: getPreviousShadowSet_def prev_set_def mfc0_def)

end
