(* ===== verification/KState.thy ===== *)
theory KState
  imports KrHeap Hal
begin

text \<open>
  The hypervisor's data: the structures of \<^verbatim>\<open>vm.h\<close>, \<^verbatim>\<open>vcpu.h\<close>, \<^verbatim>\<open>tlb.h\<close>, \<^verbatim>\<open>linkedlist.h\<close>,
  \<^verbatim>\<open>scheduler.h\<close>, and \<open>kst\<close>, the whole state: the machine, the heap, one typed store per structure
  that is allocated at run time (a partial map from the address \<open>malloc\<close> returned to the structure
  there; a dereference outside its domain is \<open>None\<close>), and the global and function-static variables of
  the kernel. The configuration table \<open>VMCONF\<close> is constant; a pointer to one of its elements is the
  element's index. What the flash controller does between two polls of its control register is \<open>nvm_ctl\<close>.
\<close>

subsection \<open>Structures\<close>

record list_node =
  elem :: ptr
  next_nd :: ptr

record tlbentry =
  guestid :: u32
  index :: u32
  entrylo0 :: u32
  lo0flags :: u32
  entrylo1 :: u32
  lo1flags :: u32
  pagemask :: u32
  entryhi :: u32
  coherency :: u32

record tlb_entries =
  te_entrylo0 :: u32
  te_entrylo1 :: u32
  te_pagemask :: u32
  te_entryhi :: u32
  te_coherency :: u32

record device_mapping_t =
  start_addr :: u32
  dev_size :: u32

record vmconf_t =
  cf_vm_name :: string
  ram_base :: u32
  flash_size :: u32
  flash_base_add :: u32
  cf_os_type :: u32
  fast_interrupts :: "u32 list"
  interrupt_redirect :: "u32 list"
  cf_tlb :: "tlb_entries list"
  devices :: "device_mapping_t list"

record vm_t =
  vm_name :: string
  vm_id :: u32
  base_addr :: u32
  vm_vcpus :: ptr
  os_type :: u32
  vm_init :: u32
  vmconf :: nat
  ntlbent :: u32
  tlbentries :: ptr

definition MESSAGELIST_SZ :: u32 where "MESSAGELIST_SZ = 5"
definition MESSAGE_SZ :: u32 where "MESSAGE_SZ = 255"

abbreviation (input) "MESSAGE_VCPU_NOT_FOUND \<equiv> - 1 :: u32"
abbreviation (input) "MESSAGE_FULL \<equiv> - 2 :: u32"
abbreviation (input) "MESSAGE_TOO_BIG \<equiv> - 3 :: u32"
abbreviation (input) "MESSAGE_EMPTY \<equiv> - 4 :: u32"
abbreviation (input) "MESSAGE_VCPU_NOT_INIT \<equiv> - 5 :: u32"

record message_t =
  source_id :: u32
  msg_size :: u32
  message :: "u8 list"

record message_buffer_t =
  msg_in :: u32
  msg_out :: u32
  num_messages :: u32
  message_list :: "message_t list"

record vcpu_t =
  vcpu_id :: u32
  gprshadowset :: u32
  cp0_registers :: "u32 list"
  guestclt2 :: u32
  vcpu_vm :: ptr
  pc :: u32
  vcpu_init :: u32
  messages :: message_buffer_t

text \<open>\<open>sizeof\<close> of the structures (32-bit pointers and integers).\<close>

abbreviation (input) "SIZEOF_list_t \<equiv> 8 :: u32"
abbreviation (input) "SIZEOF_vm_t \<equiv> 36 :: u32"
abbreviation (input) "SIZEOF_tlbentry \<equiv> 36 :: u32"
abbreviation (input) "SIZEOF_vcpu_t \<equiv> 1420 :: u32"
abbreviation (input) "SIZEOF_interrupt_mapping \<equiv> 12 :: u32"

text \<open>What \<open>memset(p, 0, sizeof)\<close> makes of a structure.\<close>

definition zero_tlbentry :: tlbentry where
  "zero_tlbentry = \<lparr>guestid = 0, index = 0, entrylo0 = 0, lo0flags = 0, entrylo1 = 0, lo1flags = 0,
     pagemask = 0, entryhi = 0, coherency = 0\<rparr>"

definition zero_message :: message_t where
  "zero_message = \<lparr>source_id = 0, msg_size = 0, message = replicate (unat MESSAGE_SZ) 0\<rparr>"

definition zero_message_buffer :: message_buffer_t where
  "zero_message_buffer = \<lparr>msg_in = 0, msg_out = 0, num_messages = 0,
     message_list = replicate (unat MESSAGELIST_SZ) zero_message\<rparr>"

definition zero_vcpu :: vcpu_t where
  "zero_vcpu = \<lparr>vcpu_id = 0, gprshadowset = 0, cp0_registers = replicate 16 0, guestclt2 = 0,
     vcpu_vm = NULL, pc = 0, vcpu_init = 0, messages = zero_message_buffer\<rparr>"

subsection \<open>Kernel state\<close>

text \<open>The functions that drivers register as hypercalls and as interrupt handlers.\<close>

datatype hcall =
    H_get_vm_id | H_intervm_send_msg | H_intervm_recv_msg | H_guest_is_up
  | H_write_address | H_read_address
  | H_reenable_interrupt
  | H_flash_read | H_flash_write
  | H_update_chosen_vm | H_get_allowed_vm
  | H_get_owned_list

datatype handler = I_timer_interrupt_handler | I_interrupt_injection | I_sw1_button_handler

record interrupt_mapping =
  irq_number :: u32
  irq_guest :: u32
  irq_vcpu :: ptr

record kst =
  mach :: hw
  heap :: kr_heap
  nodes :: "ptr \<rightharpoonup> list_node"
  vms :: "ptr \<rightharpoonup> vm_t"
  vcpus :: "ptr \<rightharpoonup> vcpu_t"
  tlbtabs :: "ptr \<rightharpoonup> tlbentry list"
  imaps :: "ptr \<rightharpoonup> interrupt_mapping list"
  vcpu_ready_list :: ptr
  virtual_machines_list :: ptr
  vcpu_executing_nd :: ptr
  next_vcpu :: ptr
  tick_count :: u32
  last_scheduled :: ptr
  st_vm_id :: u32
  st_tlbindex :: u32
  st_vcpu_id :: u32
  hypercall_table :: "hcall option list"
  interrupt_handlers :: "handler option list"
  interrupt_mapping_sz :: u32
  interrupt_mapping_list :: ptr
  vmconf_p :: "nat option list"
  timer_past :: u32
  VMCONF :: "vmconf_t list"
  nvm_ctl :: "hw \<Rightarrow> hw"

definition NVMACHINES :: "kst \<Rightarrow> u32" where
  "NVMACHINES s = of_nat (length (VMCONF s))"

text \<open>\<open>is_vcpu_executing\<close>, \<open>vcpu_executing\<close> and \<open>vm_executing\<close> of \<^verbatim>\<open>globals.h\<close>.\<close>

definition is_vcpu_executing :: "kst \<Rightarrow> ptr option" where
  "is_vcpu_executing s =
     (if vcpu_executing_nd s = NULL then Some NULL
      else map_option elem (nodes s (vcpu_executing_nd s)))"

definition vcpu_executing :: "kst \<Rightarrow> ptr option" where
  "vcpu_executing s = map_option elem (nodes s (vcpu_executing_nd s))"

definition vm_executing :: "kst \<Rightarrow> ptr option" where
  "vm_executing s = do { v \<leftarrow> vcpu_executing s; vc \<leftarrow> vcpus s v; Some (vcpu_vm vc) }"

text \<open>Access to the machine and to a structure behind a pointer.\<close>

definition upd_mach :: "(hw \<Rightarrow> hw) \<Rightarrow> kst \<Rightarrow> kst" where
  "upd_mach f s = s\<lparr>mach := f (mach s)\<rparr>"

definition upd_vcpu :: "ptr \<Rightarrow> (vcpu_t \<Rightarrow> vcpu_t) \<Rightarrow> kst \<Rightarrow> kst option" where
  "upd_vcpu p f s = do { vc \<leftarrow> vcpus s p; Some (s\<lparr>vcpus := (vcpus s)(p \<mapsto> f vc)\<rparr>) }"

abbreviation set_V0 :: "u32 \<Rightarrow> kst \<Rightarrow> kst" where
  "set_V0 v \<equiv> upd_mach (MoveToPreviousGuestGPR REG_V0 v)"

abbreviation guest_reg :: "kst \<Rightarrow> nat \<Rightarrow> u32" where
  "guest_reg s r \<equiv> MoveFromPreviousGuestGPR (mach s) r"

definition k_malloc :: "u32 \<Rightarrow> kst \<Rightarrow> (kst \<times> ptr) option" where
  "k_malloc n s = do { (h, p) \<leftarrow> malloc (heap s) n; Some (s\<lparr>heap := h\<rparr>, p) }"

end
