(* ===== verification/Lists.thy ===== *)
theory Lists
  imports KState
begin

text \<open>
  The linked lists of the kernel, \<^verbatim>\<open>sys/lib/linkedlist.c\<close>, over the node store of \<open>kst\<close>. A
  \<open>struct list_t **\<close> argument is the value of the head pointer before the call and, in the result,
  after it.

  \<open>chain nd p as\<close> relates a head pointer to the addresses of its nodes in order, \<open>elems\<close> gives what
  they hold; the lemmas show that appending is appending at the end of that list.
\<close>

definition upd_node :: "ptr \<Rightarrow> (list_node \<Rightarrow> list_node) \<Rightarrow> kst \<Rightarrow> kst option" where
  "upd_node p f s = do { n \<leftarrow> nodes s p; Some (s\<lparr>nodes := (nodes s)(p \<mapsto> f n)\<rparr>) }"

partial_function (option) last_node :: "(ptr \<rightharpoonup> list_node) \<Rightarrow> ptr \<Rightarrow> ptr option" where
  "last_node nd t2 =
     Option.bind (nd t2) (\<lambda>n. if next_nd n \<noteq> NULL then last_node nd (next_nd n) else Some t2)"

definition list_append :: "ptr \<Rightarrow> ptr \<Rightarrow> kst \<Rightarrow> (u32 \<times> ptr \<times> kst) option" where
  "list_append lst item s = do {
     (s, t1) \<leftarrow> k_malloc SIZEOF_list_t s;
     if t1 = NULL then Some (- 1, lst, s)
     else do {
       let s = s\<lparr>nodes := (nodes s)(t1 \<mapsto> \<lparr>elem = item, next_nd = NULL\<rparr>)\<rparr>;
       if lst = NULL then Some (0, t1, s)
       else do {
         t2 \<leftarrow> last_node (nodes s) lst;
         s \<leftarrow> upd_node t2 (\<lambda>n. n\<lparr>next_nd := t1\<rparr>) s;
         Some (0, lst, s) } } }"

text \<open>The node and the element are given back to the heap; the stores forget the node.\<close>

partial_function (option) list_remove_all :: "ptr \<Rightarrow> kst \<Rightarrow> (u32 \<times> ptr \<times> kst) option" where
  "list_remove_all lst s =
     (if lst = NULL then Some (0, NULL, s)
      else Option.bind (nodes s lst) (\<lambda>n.
           Option.bind (free (heap s) (elem n)) (\<lambda>h.
           Option.bind (free h lst) (\<lambda>h.
           list_remove_all (next_nd n) (s\<lparr>heap := h, nodes := (nodes s)(lst := None)\<rparr>)))))"

partial_function (option) list_count_loop :: "(ptr \<rightharpoonup> list_node) \<Rightarrow> ptr \<Rightarrow> u32 \<Rightarrow> u32 option" where
  "list_count_loop nd t1 i =
     Option.bind (nd t1) (\<lambda>n.
       if next_nd n \<noteq> NULL then list_count_loop nd (next_nd n) (i + 1) else Some i)"

definition list_count :: "ptr \<Rightarrow> kst \<Rightarrow> u32 option" where
  "list_count lst s = list_count_loop (nodes s) lst 0"

subsection \<open>Lists of nodes\<close>

primrec chain :: "(ptr \<rightharpoonup> list_node) \<Rightarrow> ptr \<Rightarrow> ptr list \<Rightarrow> bool" where
  "chain nd p [] \<longleftrightarrow> p = NULL"
| "chain nd p (a # as) \<longleftrightarrow> p = a \<and> a \<noteq> NULL \<and> (\<exists>n. nd a = Some n \<and> chain nd (next_nd n) as)"

definition elems :: "(ptr \<rightharpoonup> list_node) \<Rightarrow> ptr list \<Rightarrow> ptr list" where
  "elems nd as = map (\<lambda>a. elem (the (nd a))) as"

lemma chain_NULL [simp]: "chain nd NULL as \<longleftrightarrow> as = []"
  by (cases as) auto

lemma chain_nonnull: "p \<noteq> NULL \<Longrightarrow> chain nd p as \<Longrightarrow>
    \<exists>n as'. as = p # as' \<and> nd p = Some n \<and> chain nd (next_nd n) as'"
  by (cases as) auto

lemma chain_dom: "chain nd p as \<Longrightarrow> a \<in> set as \<Longrightarrow> a \<in> dom nd"
  by (induction as arbitrary: p) auto

lemma chain_unique: "chain nd p as \<Longrightarrow> chain nd p bs \<Longrightarrow> as = bs"
proof (induction as arbitrary: p bs)
  case (Cons a as)
  then show ?case by (cases bs) auto
qed simp

lemma chain_suffix: "chain nd p (xs @ a # ys) \<Longrightarrow> chain nd a (a # ys)"
  by (induction xs arbitrary: p) auto

lemma chain_distinct: "chain nd p as \<Longrightarrow> distinct as"
proof (induction as arbitrary: p)
  case (Cons a as)
  have "a \<notin> set as"
  proof
    assume "a \<in> set as"
    then obtain xs ys where as: "as = xs @ a # ys" by (meson split_list)
    have "chain nd a (a # as)" using Cons.prems by auto
    moreover have "chain nd a (a # ys)"
      using Cons.prems chain_suffix [of nd p "a # xs" a ys] as by simp
    ultimately have "length (a # as) = length (a # ys)" using chain_unique by blast
    then show False by (simp add: as)
  qed
  then show ?case using Cons by auto
qed simp

lemma chain_cong: "(\<And>a. a \<in> set as \<Longrightarrow> nd a = nd' a) \<Longrightarrow> chain nd p as = chain nd' p as"
  by (induction as arbitrary: p) auto

lemma elems_cong: "(\<And>a. a \<in> set as \<Longrightarrow> nd a = nd' a) \<Longrightarrow> elems nd as = elems nd' as"
  by (simp add: elems_def)

lemma last_node_chain: "chain nd p (as @ [a]) \<Longrightarrow> last_node nd p = Some a"
proof (induction as arbitrary: p)
  case Nil
  then show ?case by (subst last_node.simps) auto
next
  case (Cons b as)
  then obtain n where n: "p = b" "nd b = Some n" "chain nd (next_nd n) (as @ [a])" by auto
  then have "next_nd n \<noteq> NULL" by (cases as) auto
  with n Cons.IH [OF n(3)] show ?case by (subst last_node.simps) simp
qed

lemma chain_snoc:
  assumes "chain nd p (as @ [a])" and "nd a = Some n" and "t \<notin> set (as @ [a])" and "t \<noteq> NULL"
    and "next_nd m = NULL"
  shows "chain (nd(t \<mapsto> m, a \<mapsto> n\<lparr>next_nd := t\<rparr>)) p (as @ [a, t])"
  using assms
proof (induction as arbitrary: p)
  case (Cons b as)
  have "distinct (b # as @ [a])" using chain_distinct Cons.prems(1) by fastforce
  with Cons show ?case by auto
qed simp

lemma elems_snoc:
  assumes "a \<notin> set as" and "nd a = Some n" and "t \<notin> set (as @ [a])"
  shows "elems (nd(t \<mapsto> m, a \<mapsto> n\<lparr>next_nd := t\<rparr>)) (as @ [a, t]) = elems nd (as @ [a]) @ [elem m]"
  using assms by (auto simp: elems_def)

lemma list_count_loop_chain:
  "chain nd p (as @ [a]) \<Longrightarrow> list_count_loop nd p i = Some (i + of_nat (length as))"
proof (induction as arbitrary: p i)
  case Nil
  then show ?case by (subst list_count_loop.simps) auto
next
  case (Cons b as)
  then obtain n where n: "p = b" "nd b = Some n" "chain nd (next_nd n) (as @ [a])" by auto
  then have "next_nd n \<noteq> NULL" by (cases as) auto
  with n Cons.IH [OF n(3)] show ?case by (subst list_count_loop.simps) (simp add: algebra_simps)
qed

subsection \<open>Appending while the arena has room\<close>

text \<open>Appending to a well-formed list while the arena has room.\<close>

lemma list_append_chain:
  assumes inv: "heap_inv L (heap s) r" and L: "dom (nodes s) \<subseteq> L" and room: "2 < r"
    and ch: "chain (nodes s) lst as"
  obtains h t nd where
    "list_append lst item s = Some (0, hd (as @ [t]), s\<lparr>heap := h, nodes := nd\<rparr>)"
    and "t \<notin> L" and "t \<noteq> NULL" and "chain nd (hd (as @ [t])) (as @ [t])"
    and "elems nd (as @ [t]) = elems (nodes s) as @ [item]"
    and "dom nd = insert t (dom (nodes s))"
    and "\<And>a. a \<notin> set as \<Longrightarrow> a \<noteq> t \<Longrightarrow> nd a = nodes s a"
    and "\<And>a. a \<in> dom (nodes s) \<Longrightarrow> elem (the (nd a)) = elem (the (nodes s a))"
    and "heap_inv (insert t L) h (r - 2)"
proof -
  have "units_of SIZEOF_list_t = 2" by (simp add: units_of_def HDR_SZ_def)
  then obtain h t where m: "malloc (heap s) SIZEOF_list_t = Some (h, t)" "t \<noteq> NULL"
    "t \<notin> L" "heap_inv (insert t L) h (r - 2)"
    using malloc_fresh [OF inv, of SIZEOF_list_t] room by auto
  have tn: "t \<notin> dom (nodes s)" using m(3) L by auto
  then have tas: "t \<notin> set as" using chain_dom [OF ch] by blast
  let ?m = "\<lparr>elem = item, next_nd = NULL\<rparr>"
  show thesis
  proof (cases as rule: rev_cases)
    case Nil
    then have l: "lst = NULL" using ch by simp
    show thesis
      by (rule that [of t "(nodes s)(t \<mapsto> ?m)" h])
        (use m tn l Nil in \<open>auto simp: list_append_def k_malloc_def elems_def\<close>)
  next
    case (snoc bs a)
    then have l: "lst \<noteq> NULL" "lst = hd as" using ch by (cases bs; auto)+
    obtain na where na: "nodes s a = Some na" using chain_dom [OF ch, of a] snoc by auto
    let ?nd1 = "(nodes s)(t \<mapsto> ?m)"
    let ?nd = "?nd1(a \<mapsto> na\<lparr>next_nd := t\<rparr>)"
    have at: "a \<noteq> t" using tas snoc by auto
    have "chain ?nd1 lst (bs @ [a])"
      using ch unfolding snoc by (subst chain_cong [of _ _ "nodes s"]) (use tas snoc in auto)
    then have ln: "last_node ?nd1 lst = Some a" by (rule last_node_chain)
    have abs: "a \<notin> set bs" using chain_distinct [OF ch] snoc by simp
    have "list_append lst item s = Some (0, hd (as @ [t]), s\<lparr>heap := h, nodes := ?nd\<rparr>)"
      using m l ln na at snoc by (simp add: list_append_def k_malloc_def upd_node_def hd_append)
    moreover have "chain ?nd (hd (as @ [t])) (as @ [t])"
    proof -
      have "hd (as @ [t]) = lst" using l(2) snoc by (cases bs) simp_all
      moreover have "chain ?nd lst (bs @ [a, t])"
        using ch tas na m(2) unfolding snoc by (intro chain_snoc) auto
      ultimately show ?thesis by (simp only: snoc append_assoc append_Cons append_Nil)
    qed
    moreover have "elems ?nd (as @ [t]) = elems (nodes s) as @ [item]"
      using elems_snoc [of a bs "nodes s" na t ?m, OF abs na] tas snoc by simp
    moreover have "dom ?nd = insert t (dom (nodes s))" using na by auto
    ultimately show thesis
      by (intro that [of t ?nd h]) (use m(2,3,4) na snoc tn in auto)
  qed
qed

end
