(* ===== verification/Tlb.thy ===== *)
theory Tlb
  imports Lists
begin

text \<open>
  \<^verbatim>\<open>arch/mips/common/tlb.c\<close>: writing a TLB entry and the temporary root entry through which a
  hypercall reaches a guest buffer. \<open>tlbCreateEntry_translates\<close> is the correctness of that mapping:
  every byte of a buffer of at most one page, at a virtual machine whose RAM base is aligned to a
  pair of pages, is translated to the guest's own RAM.
\<close>

abbreviation (input) "ENTRYLO_D \<equiv> 4 :: u32"
abbreviation (input) "ENTRYLO_V \<equiv> 2 :: u32"
abbreviation (input) "ENTRYLO_C_SHIFT \<equiv> 3 :: nat"
abbreviation (input) "ENTRYLO_PFN_SHIFT \<equiv> 6 :: nat"
abbreviation (input) "PAGEMASK_MASK_SHIFT \<equiv> 13 :: nat"
abbreviation (input) "ENTRYHI_VPN2_SHIFT \<equiv> 12 :: nat"
abbreviation (input) "ENTRYHI_MASK \<equiv> 0xFFFFE000 :: u32"
abbreviation (input) "PAGEMASK_4KB \<equiv> 0 :: u32"
abbreviation (input) "CACHEABLE \<equiv> 1 :: u32"
abbreviation (input) "NONCACHEABLE \<equiv> 0 :: u32"

definition tblGetRandomIndex :: "hw \<Rightarrow> u32" where
  "tblGetRandomIndex h = mfc0 h CP0_RANDOM 0"

definition tlbEntryWrite :: "tlbentry \<Rightarrow> hw \<Rightarrow> hw" where
  "tlbEntryWrite entry h =
     (let h = setGuestRID (guestid entry) h;
          h = mtc0 CP0_INDEX 0 (index entry) h;
          h = mtc0 CP0_ENTRYLO0 0 (push_bit ENTRYLO_PFN_SHIFT (entrylo0 entry) OR lo0flags entry
                OR push_bit ENTRYLO_C_SHIFT (coherency entry)) h;
          h = mtc0 CP0_ENTRYLO1 0 (push_bit ENTRYLO_PFN_SHIFT (entrylo1 entry) OR lo1flags entry
                OR push_bit ENTRYLO_C_SHIFT (coherency entry)) h;
          h = mtc0 CP0_PAGEMASK 0 (push_bit PAGEMASK_MASK_SHIFT (pagemask entry)) h;
          h = mtc0 CP0_ENTRYHI 0 (push_bit ENTRYHI_VPN2_SHIFT (entryhi entry) AND ENTRYHI_MASK) h
      in tlb_commit h)"

definition tlbCreateEntry :: "u32 \<Rightarrow> u32 \<Rightarrow> u32 \<Rightarrow> u32 \<Rightarrow> u32 \<Rightarrow> hw \<Rightarrow> u32 \<times> hw" where
  "tlbCreateEntry address baseaddr sz tlbindex use_cache h =
     (let KSEG = (if use_cache \<noteq> 0 then 0x80000000 else 0xA0000000);
          next_page = address div 0x1000 < (address + sz) div 0x1000;
          entry = \<lparr>guestid = 0, index = tlbindex,
            entrylo0 = drop_bit 12 ((baseaddr - 0x80000000) + (address - 0x80000000)),
            lo0flags = ENTRYLO_V OR ENTRYLO_D,
            entrylo1 = (if next_page then drop_bit 12 ((baseaddr - 0x80000000) + address + sz - 0x80000000) else 0),
            lo1flags = (if next_page then ENTRYLO_V OR ENTRYLO_D else 0),
            pagemask = PAGEMASK_4KB,
            entryhi = drop_bit 12 (baseaddr - KSEG),
            coherency = 2\<rparr>
      in ((address AND 0xFFF) + baseaddr - KSEG, tlbEntryWrite entry h))"

subsection \<open>What a TLB write changes\<close>

lemma tlbEntryWrite_tlb:
  assumes "unat (guestid e) < 256"
  shows "tlb (tlbEntryWrite e h) = (tlb h)(index e \<mapsto>
    \<lparr>t_gid = guestid e, t_hi = push_bit ENTRYHI_VPN2_SHIFT (entryhi e) AND ENTRYHI_MASK,
     t_lo0 = push_bit ENTRYLO_PFN_SHIFT (entrylo0 e) OR lo0flags e OR push_bit ENTRYLO_C_SHIFT (coherency e),
     t_lo1 = push_bit ENTRYLO_PFN_SHIFT (entrylo1 e) OR lo1flags e OR push_bit ENTRYLO_C_SHIFT (coherency e),
     t_mask = push_bit PAGEMASK_MASK_SHIFT (pagemask e)\<rparr>)"
  using field_insert [of "guestid e" 8 16 "cp0 h (CP0_GUESTCTL1, 4)"] assms
  by (simp add: tlbEntryWrite_def tlb_commit_def setGuestRID_def mtc0_def mfc0_def RID_mask Let_def)

lemma tlbEntryWrite_keeps [simp]:
  "ram (tlbEntryWrite e h) = ram h" "gpr (tlbEntryWrite e h) = gpr h"
  "sfr (tlbEntryWrite e h) = sfr h" "gcp0 (tlbEntryWrite e h) = gcp0 h"
  "count_reads (tlbEntryWrite e h) = count_reads h" "count_src (tlbEntryWrite e h) = count_src h"
  by (simp_all add: tlbEntryWrite_def tlb_commit_def setGuestRID_def mtc0_def Let_def)

lemma tlbEntryWrite_cp0:
  "reg \<notin> {(CP0_INDEX, 0), (CP0_ENTRYLO0, 0), (CP0_ENTRYLO1, 0), (CP0_PAGEMASK, 0), (CP0_ENTRYHI, 0),
    (CP0_GUESTCTL1, 4)} \<Longrightarrow> cp0 (tlbEntryWrite e h) reg = cp0 h reg"
  by (auto simp: tlbEntryWrite_def tlb_commit_def setGuestRID_def mtc0_def Let_def)

lemma prev_set_tlbEntryWrite [simp]: "prev_set (tlbEntryWrite e h) = prev_set h"
  by (simp add: prev_set_def tlbEntryWrite_cp0)

subsection \<open>Page arithmetic\<close>

lemma page_split: "(push_bit 12 (drop_bit 12 P) AND NOT 0xFFF) OR (P AND 0xFFF) = (P :: u32)"
proof -
  have m: "(0xFFF :: u32) = mask 12" by (simp add: mask_eq_exp_minus_1)
  show ?thesis unfolding m by (rule bit_word_eqI) (auto simp: bit_simps)
qed

lemma pair_base_iff:
  "x AND NOT 0x1FFF = y AND NOT 0x1FFF \<longleftrightarrow> unat (x :: u32) div 8192 = unat y div 8192"
proof -
  have m: "(0x1FFF :: u32) = mask 13" by (simp add: mask_eq_exp_minus_1)
  have p: "z AND NOT (mask 13) = push_bit 13 (drop_bit 13 z)" for z :: u32
    by (rule bit_word_eqI) (auto simp: bit_simps)
  have d: "drop_bit 13 (push_bit 13 (drop_bit 13 z)) = drop_bit 13 z" for z :: u32
    by (rule bit_word_eqI) (auto simp: bit_simps dest: bit_imp_le_length)
  have u: "unat (drop_bit 13 z) = unat z div 8192" for z :: u32
    by (simp add: drop_bit_eq_div unat_div)
  have "x AND NOT (mask 13) = y AND NOT (mask 13) \<longleftrightarrow> drop_bit 13 x = drop_bit 13 y"
    unfolding p using d by metis
  also have "\<dots> \<longleftrightarrow> unat (drop_bit 13 x) = unat (drop_bit 13 y)" by (rule word_unat_eq_iff)
  finally show ?thesis unfolding m u .
qed

lemma unat_low12: "unat (x AND 0xFFF :: u32) = unat x mod 4096"
proof -
  have "(0xFFF :: u32) = mask 12" by (simp add: mask_eq_exp_minus_1)
  then have "x AND 0xFFF = take_bit 12 x" by (simp only: take_bit_eq_mask)
  then show ?thesis by (simp add: unat_mod take_bit_eq_mod)
qed

lemma low12_iff: "x AND 0xFFF = y AND 0xFFF \<longleftrightarrow> unat (x :: u32) mod 4096 = unat y mod 4096"
  by (metis unat_low12 word_unat_eq_iff)

lemma bit12_iff: "x AND 0x1000 = (0 :: u32) \<longleftrightarrow> even (unat x div 4096)"
proof -
  have "x AND 0x1000 = 0 \<longleftrightarrow> \<not> bit x 12"
    using and_exp_eq_0_iff_not_bit [of x 12] by simp
  also have "bit x 12 \<longleftrightarrow> odd (unat x div 4096)"
  proof -
    have "bit x 12 \<longleftrightarrow> bit (unat x) 12" by (auto simp: bit_unsigned_iff dest: bit_imp_le_length)
    then show ?thesis using bit_iff_odd [of "unat x" 12] by simp
  qed
  finally show ?thesis by simp
qed

lemma pfn_of_lo: "drop_bit 6 (push_bit 6 (drop_bit 12 x) OR 6 OR push_bit 3 2) = drop_bit 12 (x :: u32)"
proof -
  have "drop_bit 6 (push_bit 6 (drop_bit 12 x)) = drop_bit 12 x"
    by (rule bit_word_eqI) (auto simp: bit_simps dest: bit_imp_le_length)
  then show ?thesis by simp
qed

lemma lo_valid: "(push_bit 6 (drop_bit 12 x) OR 6 OR push_bit 3 2) AND 2 \<noteq> (0 :: u32)"
proof
  assume "(push_bit 6 (drop_bit 12 x) OR 6 OR push_bit 3 2) AND 2 = (0 :: u32)"
  then have "bit ((push_bit 6 (drop_bit 12 x) OR 6 OR push_bit 3 2) AND 2 :: u32) 1
    = bit (0 :: u32) 1" by (rule arg_cong)
  then show False by (simp add: bit_simps)
qed

text \<open>An even/odd pair of 4 KB pages at a base aligned to the pair.\<close>

lemma tlb_phys_4k:
  assumes "t_mask e = 0"
    and "lo = (if even (unat va div 4096) then t_lo0 e else t_lo1 e)"
    and "lo AND 2 \<noteq> 0" and "drop_bit 6 lo = drop_bit 12 P" and "unat va mod 4096 = unat P mod 4096"
  shows "tlb_phys va e = Some P"
proof -
  have "va AND 0xFFF = P AND 0xFFF" using assms(5) by (simp only: low12_iff)
  moreover have "drop_bit 1 (pair_mask e) = 0xFFF" using assms(1) by (simp add: pair_mask_def)
  moreover have "lo = (if va AND (0xFFF + 1) = 0 then t_lo0 e else t_lo1 e)"
    using assms(2) bit12_iff [of va] by simp
  ultimately show ?thesis
    using assms(3,4) page_split [of P] by (simp add: tlb_phys_def Let_def)
qed

text \<open>
  The only root entry of the TLB is the one for hypercalls: what \<open>create_vm\<close> writes carries the id of
  a guest.
\<close>

definition root_free :: "hw \<Rightarrow> u32 \<Rightarrow> bool" where
  "root_free h i \<longleftrightarrow> (\<forall>j e. j \<noteq> i \<longrightarrow> tlb h j = Some e \<longrightarrow> t_gid e \<noteq> 0)"

lemma find_unique:
  "x \<in> set xs \<Longrightarrow> P x \<Longrightarrow> (\<And>y. y \<in> set xs \<Longrightarrow> P y \<Longrightarrow> y = x) \<Longrightarrow> List.find P xs = Some x"
proof (cases "List.find P xs")
  case None
  then show "x \<in> set xs \<Longrightarrow> P x \<Longrightarrow> ?thesis" by (simp add: find_None_iff)
next
  case (Some y)
  then have "y \<in> set xs" "P y" by (auto simp: find_Some_iff)
  moreover assume "\<And>y. y \<in> set xs \<Longrightarrow> P y \<Longrightarrow> y = x"
  ultimately show ?thesis using Some by blast
qed

lemma tlb_lookup_root:
  assumes "root_free h i" and "tlb h i = Some e" and "unat i < 32" and "t_gid e = 0"
    and "tlb_match va e"
  shows "tlb_lookup h 0 va = Some e"
proof -
  let ?xs = "List.map_filter (\<lambda>j. tlb h (of_nat j)) [0..<NUM_TLB]"
  have xs: "y \<in> set ?xs \<longleftrightarrow> (\<exists>j<32. tlb h (of_nat j) = Some y)" for y
    by (auto simp: List.map_filter_def NUM_TLB_def intro!: rev_image_eqI)
  have "e \<in> set ?xs" using assms(2,3) by (auto simp: xs intro!: exI [of _ "unat i"])
  moreover have "y = e" if "y \<in> set ?xs" "t_gid y = 0" for y
  proof -
    from that(1) obtain j :: nat where j: "tlb h (of_nat j) = Some y" by (auto simp: xs)
    then have "of_nat j = i" using assms(1) that(2) unfolding root_free_def by blast
    with j assms(2) show ?thesis by simp
  qed
  ultimately show ?thesis
    unfolding tlb_lookup_def using assms(4,5) by (intro find_unique) blast+
qed

text \<open>The virtual address of a byte of the mapped buffer, with its page in numbers.\<close>

lemma unat_mapped:
  assumes "in_kseg01 base" and "unat base mod 8192 = 0" and "use_cache \<noteq> 0" and "base < 0xA0000000"
    and "i + unat address mod 4096 < 8192"
  shows "unat (((address AND 0xFFF) + base - 0x80000000) + of_nat i)
    = unat (base - 0x80000000) + (unat address mod 4096 + i)"
    and "unat (base - 0x80000000) mod 8192 = 0" and "unat (base - 0x80000000) < 2 ^ 29"
proof -
  let ?b = "base - 0x80000000"
  have ge: "0x80000000 \<le> base" using assms(1) by (simp add: in_kseg01_def)
  then have b: "unat ?b = unat base - 0x80000000" by (simp add: unat_sub)
  have "unat base < 0xA0000000" using assms(4) by (simp add: word_less_nat_alt)
  then show "unat ?b < 2 ^ 29" using b by simp
  show m: "unat ?b mod 8192 = 0"
  proof -
    have "unat base = unat ?b + 0x80000000" using b ge by (simp add: word_le_nat_alt)
    then have "(unat ?b + 262144 * 8192) mod 8192 = 0" using assms(2) by simp
    then show ?thesis by (simp only: mod_mult_self1)
  qed
  let ?o = "(address AND 0xFFF) + of_nat i"
  have o: "unat ?o = unat address mod 4096 + i"
  proof -
    have "unat (of_nat i :: u32) = i" using assms(5) by (intro unat_of_nat_small) simp
    then show ?thesis using assms(5) by (subst unat_add_small) (simp_all only: unat_low12, simp)
  qed
  have "unat (?b + ?o) = unat ?b + unat ?o"
    using \<open>unat ?b < 2 ^ 29\<close> assms(5) unfolding o [symmetric]
    by (intro unat_add_small) (simp only: o, simp)
  moreover have "((address AND 0xFFF) + base - 0x80000000) + of_nat i = ?b + ?o" by simp
  ultimately show "unat (((address AND 0xFFF) + base - 0x80000000) + of_nat i)
      = unat ?b + (unat address mod 4096 + i)"
    unfolding o by (simp only:)
qed

lemma div_of_add_lt: "x mod 4096 + i < 4096 \<Longrightarrow> (x + i) div 4096 = (x :: nat) div 4096"
  using div_add1_eq [of x i 4096] by (auto simp: div_eq_0_iff)

lemma drop12_eq_iff: "drop_bit 12 x = drop_bit 12 y \<longleftrightarrow> unat (x :: u32) div 4096 = unat y div 4096"
proof -
  have "unat (drop_bit 12 z) = unat z div 4096" for z :: u32 by (simp add: drop_bit_eq_div unat_div)
  then show ?thesis by (metis word_unat_eq_iff)
qed

text \<open>The guest physical address of a byte of the buffer: the guest's kseg0 window is its RAM.\<close>

definition guest_phys :: "u32 \<Rightarrow> u32 \<Rightarrow> u32" where
  "guest_phys baseaddr address = (baseaddr - 0x80000000) + (address - 0x80000000)"

lemma unat_add_mod4096: "unat (x + y :: u32) mod 4096 = (unat x + unat y) mod 4096"
proof -
  have "(4096 :: nat) dvd 2 ^ 32" by simp
  then show ?thesis by (simp add: unat_word_ariths mod_mod_cancel del: power_numeral)
qed

lemma unat_guest_phys_mod:
  assumes "unat (base - 0x80000000) mod 8192 = 0"
  shows "unat (guest_phys base address) mod 4096 = unat address mod 4096"
proof -
  have "address - 0x80000000 = address + 0x80000000" by simp
  then have a: "unat (address - 0x80000000) mod 4096 = unat address mod 4096"
    using unat_add_mod4096 [of address "0x80000000"] mod_mult_self1 [of "unat address" 524288 4096]
    by (simp only:) simp
  have b: "unat (base - 0x80000000) mod 4096 = 0"
    using assms mod_mod_cancel [of 4096 8192 "unat (base - 0x80000000)"] by simp
  have "unat (guest_phys base address) mod 4096
      = (unat (base - 0x80000000) mod 4096 + unat (address - 0x80000000) mod 4096) mod 4096"
    unfolding guest_phys_def unat_add_mod4096 by (simp only: mod_add_eq)
  then show ?thesis unfolding a b by (simp only: add_0 mod_mod_trivial)
qed

text \<open>The mapping of \<open>tlbCreateEntry\<close>.\<close>

lemma create_entry_tlb:
  assumes "use_cache \<noteq> 0" and "tlbCreateEntry address base sz i use_cache h = (va, h')"
  defines "nx \<equiv> address div 0x1000 < (address + sz) div 0x1000"
  shows "va = (address AND 0xFFF) + base - 0x80000000"
    and "tlb h' = (tlb h)(i \<mapsto> \<lparr>t_gid = 0,
      t_hi = push_bit 12 (drop_bit 12 (base - 0x80000000)) AND ENTRYHI_MASK,
      t_lo0 = push_bit 6 (drop_bit 12 (guest_phys base address)) OR 6 OR push_bit 3 2,
      t_lo1 = (if nx then push_bit 6 (drop_bit 12 (guest_phys base address + sz)) OR 6 OR push_bit 3 2
               else push_bit 3 2),
      t_mask = 0\<rparr>)"
  using assms
  by (auto simp: tlbCreateEntry_def Let_def tlbEntryWrite_tlb guest_phys_def algebra_simps)

lemma create_entry_match:
  assumes "unat (base - 0x80000000) mod 8192 = 0" and "unat va = unat (base - 0x80000000) + k" and "k < 8192"
    and "t_hi e = push_bit 12 (drop_bit 12 (base - 0x80000000)) AND ENTRYHI_MASK" and "t_mask e = 0"
  shows "tlb_match va e"
proof -
  let ?b = "base - 0x80000000"
  have p: "pair_mask e = 0x1FFF" using assms(5) by (simp add: pair_mask_def)
  have m: "(0x1FFF :: u32) = mask 13" "ENTRYHI_MASK = NOT (mask 13 :: u32)"
    by (simp_all add: mask_eq_exp_minus_1)
  have "t_hi e AND NOT 0x1FFF = ?b AND NOT 0x1FFF"
    unfolding assms(4) m by (rule bit_word_eqI) (auto simp: bit_simps)
  moreover have "unat va div 8192 = unat ?b div 8192"
    using assms(1-3) div_add1_eq [of "unat ?b" k 8192] by (simp add: div_eq_0_iff)
  ultimately show ?thesis unfolding tlb_match_def p by (simp only: pair_base_iff)
qed

text \<open>The buffer an entry maps: at most a page, not running over the end of the address space.\<close>

definition mappable :: "u32 \<Rightarrow> u32 \<Rightarrow> u32 \<Rightarrow> bool" where
  "mappable base address sz \<longleftrightarrow>
     0x80000000 \<le> base \<and> base < 0xA0000000 \<and> unat base mod 8192 = 0 \<and> unat sz \<le> 4096 \<and>
     unat address + unat sz < 2 ^ 32 \<and> unat (guest_phys base address) + unat sz < 2 ^ 32"

lemma page_of_byte:
  fixes a s i :: nat
  assumes "i < s" and "s \<le> 4096"
  shows "a mod 4096 + i < 4096 \<Longrightarrow> (a + i) div 4096 = a div 4096"
    and "4096 \<le> a mod 4096 + i \<Longrightarrow> (a + i) div 4096 = (a + s) div 4096 \<and> a div 4096 < (a + s) div 4096"
proof -
  have l: "a mod 4096 < 4096" by simp
  have d: "(a + x) div 4096 = a div 4096 + (a mod 4096 + x) div 4096" for x
  proof -
    have "a + x = (a mod 4096 + x) + a div 4096 * 4096" using div_mult_mod_eq [of a 4096] by linarith
    then have "(a + x) div 4096 = ((a mod 4096 + x) + a div 4096 * 4096) div 4096" by (rule arg_cong)
    also have "\<dots> = a div 4096 + (a mod 4096 + x) div 4096" by (rule div_mult_self1) simp
    finally show ?thesis .
  qed
  show "(a + i) div 4096 = a div 4096" if "a mod 4096 + i < 4096"
    using d [of i] that by simp
  have one: "(a mod 4096 + x) div 4096 = 1" if "4096 \<le> a mod 4096 + x" "x \<le> 4096" for x
    using that l by (intro div_nat_eqI) auto
  show "(a + i) div 4096 = (a + s) div 4096 \<and> a div 4096 < (a + s) div 4096"
    if "4096 \<le> a mod 4096 + i"
    using d [of i] d [of s] one [of i] one [of s] that assms by simp
qed

lemma create_entry_translates:
  assumes mp: "mappable base address sz" and c: "use_cache \<noteq> 0" and rf: "root_free h i" and i: "unat i < 32"
    and ce: "tlbCreateEntry address base sz i use_cache h = (va, h')" and k: "k < unat sz"
  shows "translate h' (va + of_nat k) = Some (guest_phys base address + of_nat k)"
proof -
  let ?P = "guest_phys base address" and ?b = "unat (base - 0x80000000)"
  note ct = create_entry_tlb [OF c ce]
  obtain e where e: "tlb h' i = Some e" "t_gid e = 0" "t_mask e = 0"
    "t_hi e = push_bit 12 (drop_bit 12 (base - 0x80000000)) AND ENTRYHI_MASK"
    "t_lo0 e = push_bit 6 (drop_bit 12 ?P) OR 6 OR push_bit 3 2"
    "address div 0x1000 < (address + sz) div 0x1000 \<Longrightarrow>
     t_lo1 e = push_bit 6 (drop_bit 12 (?P + sz)) OR 6 OR push_bit 3 2"
    unfolding ct(2) by simp
  have m: "in_kseg01 base" "unat base mod 8192 = 0" "base < 0xA0000000" "unat sz \<le> 4096"
    "unat address + unat sz < 2 ^ 32" "unat ?P + unat sz < 2 ^ 32"
    using mp unfolding mappable_def in_kseg01_def by (auto simp: word_less_nat_alt word_le_nat_alt)
  have koff: "k + unat address mod 4096 < 8192" 
    using k m(4) mod_less_divisor [of 4096 "unat address"] by linarith
  note um = unat_mapped [OF m(1,2) c m(3) koff]
  let ?va = "va + of_nat k"
  have va: "unat ?va = ?b + (unat address mod 4096 + k)" unfolding ct(1) by (rule um(1))
  have P: "unat (?P + of_nat k) = unat ?P + k" and Ps: "unat (?P + sz) = unat ?P + unat sz"
  proof -
    have uk: "unat (of_nat k :: u32) = k" using k m(4) by (intro unat_of_nat_small) simp
    show "unat (?P + of_nat k) = unat ?P + k" using m(6) k by (subst unat_add_small) (simp_all add: uk)
    show "unat (?P + sz) = unat ?P + unat sz" using m(6) by (intro unat_add_small) simp
  qed
  have as: "unat (address + sz) = unat address + unat sz" using m(5) by (intro unat_add_small) simp
  have P12: "unat ?P mod 4096 = unat address mod 4096" using um(2) by (rule unat_guest_phys_mod)
  have rf2: "root_free h' i" using rf unfolding root_free_def ct(2) by auto
  have mt: "tlb_match ?va e"
    using create_entry_match [OF um(2) va _ e(4,3)] koff by (simp add: add.commute)
  have nk: "\<not> in_kseg01 ?va"
    using va um(3) koff by (auto simp: in_kseg01_def word_le_nat_alt)
  have b4: "?b mod 4096 = 0" "even (?b div 4096)"
  proof -
    obtain q where "?b = 8192 * q" using um(2) by (metis mod_0_imp_dvd dvdE)
    then show "?b mod 4096 = 0" "even (?b div 4096)" by simp_all
  qed
  let ?x = "unat address mod 4096 + k"
  have vd: "unat ?va div 4096 = ?b div 4096 + ?x div 4096"
    using b4(1) div_add1_eq [of ?b ?x 4096] unfolding va by simp
  have vm: "unat ?va mod 4096 = unat (?P + of_nat k) mod 4096"
  proof -
    have "unat ?va mod 4096 = ?x mod 4096"
      using mod_add_left_eq [of ?b 4096 ?x] unfolding va b4(1) add_0 by (rule sym)
    also have "\<dots> = (unat ?P + k) mod 4096"
      using mod_add_left_eq [of "unat ?P" 4096 k] unfolding P12 .
    finally show ?thesis unfolding P .
  qed
  have "tlb_phys ?va e = Some (?P + of_nat k)"
  proof (cases "?x < 4096")
    case True
    then have ev: "even (unat ?va div 4096)" using b4(2) vd by simp
    have "drop_bit 12 ?P = drop_bit 12 (?P + of_nat k)"
      unfolding drop12_eq_iff P using page_of_byte(1) [OF k m(4), of "unat ?P"] True P12 by simp
    then show ?thesis
      using ev lo_valid [of ?P] pfn_of_lo [of ?P]
      by (intro tlb_phys_4k [OF e(3) _ _ _ vm, of "t_lo0 e"]) (simp_all only: e(5) if_True simp_thms)
  next
    case False
    then have "?x div 4096 = 1" using koff by (intro div_nat_eqI) auto
    then have od: "odd (unat ?va div 4096)" using b4(2) vd by simp
    note pb = page_of_byte(2) [OF k m(4)]
    have "address div 0x1000 < (address + sz) div 0x1000"
      using pb [of "unat address"] False by (simp add: word_less_nat_alt unat_div as)
    note lo1 = e(6) [OF this]
    have "drop_bit 12 (?P + sz) = drop_bit 12 (?P + of_nat k)"
      unfolding drop12_eq_iff P Ps using pb [of "unat ?P"] False P12 by simp
    then show ?thesis
      using od lo_valid [of "?P + sz"] pfn_of_lo [of "?P + sz"]
      by (intro tlb_phys_4k [OF e(3) _ _ _ vm, of "t_lo1 e"]) (simp_all only: lo1 if_False simp_thms)
  qed
  then show ?thesis
    using nk tlb_lookup_root [OF rf2 e(1) i e(2) mt] by (simp add: translate_def)
qed

end
