(* ===== verification/Vcpu.thy ===== *)
theory Vcpu
  imports Tlb
begin

text \<open>
  \<^verbatim>\<open>arch/mips/common/vcpu.c\<close>: saving and restoring the context of the VCPU in execution. The lemmas
  give what a restore puts into the machine, that a save followed by a restore is the identity on the
  guest CP0 registers (but \<open>Compare\<close>, which is saved and never restored), and which bank of general
  registers the hypercall accessors use afterwards.
\<close>

text \<open>\<open>cp0_registers[i]\<close> holds the guest CP0 register at position \<open>i\<close>.\<close>

definition saved_regs :: "(nat \<times> nat) list" where
  "saved_regs = [(4,0), (6,0), (8,0), (11,0), (12,0), (12,1), (12,2), (12,3), (13,0), (14,0), (14,2),
     (15,1), (16,0), (17,0), (16,3), (30,0)]"

definition contextSave :: "kst \<Rightarrow> kst option" where
  "contextSave s = do {
     v \<leftarrow> is_vcpu_executing s;
     if v = NULL then Some s
     else do {
       vc \<leftarrow> vcpus s v;
       if vcpu_init vc = 0 then
         upd_vcpu v (\<lambda>vc. vc\<lparr>cp0_registers := map (\<lambda>(r, sel). mfgc0 (mach s) r sel) saved_regs,
                           guestclt2 := guestclt2 vc OR getGuestCTL2 (mach s),
                           pc := getEPC (mach s)\<rparr>) s
       else Some s } }"

definition calculateGTOffset :: "u32 \<Rightarrow> u32 \<Rightarrow> u32" where
  "calculateGTOffset savedcounter currentCount =
     (let offset = (if currentCount < savedcounter then (0xFFFFFFFF - savedcounter) + currentCount
                    else currentCount - savedcounter)
      in NOT offset + 1)"

text \<open>The positions written back, in the code's order: all but 3, the guest's \<open>Compare\<close>.\<close>

definition restored_regs :: "((nat \<times> nat) \<times> nat) list" where
  "restored_regs = [((4,0),0), ((6,0),1), ((8,0),2), ((12,0),4), ((12,1),5), ((12,2),6), ((12,3),7),
     ((13,0),8), ((14,0),9), ((14,2),10), ((15,1),11), ((16,0),12), ((17,0),13), ((16,3),14), ((30,0),15)]"

definition restore_cp0 :: "u32 list \<Rightarrow> hw \<Rightarrow> hw" where
  "restore_cp0 regs h = fold (\<lambda>((r, sel), i). mtgc0 r sel (regs ! i)) restored_regs h"

definition contextRestore :: "kst \<Rightarrow> kst option" where
  "contextRestore s = do {
     v \<leftarrow> vcpu_executing s;
     vc \<leftarrow> vcpus s v;
     let s = upd_mach (setPreviousShadowSet (gprshadowset vc)) s;
     let s = upd_mach (setLowestGShadow (gprshadowset vc)) s;
     let s = upd_mach (setGuestID (vcpu_id vc)) s;
     let s = upd_mach setGuestMode s;
     s \<leftarrow> upd_vcpu v (\<lambda>vc. if vcpu_init vc \<noteq> 0 then vc\<lparr>vcpu_init := 0\<rparr> else vc) s;
     let s = upd_mach (restore_cp0 (cp0_registers vc)) s;
     let s = upd_mach (setGuestCTL2 (guestclt2 vc)) s;
     s \<leftarrow> upd_vcpu v (\<lambda>vc. vc\<lparr>guestclt2 := 0\<rparr>) s;
     Some (upd_mach (setEPC (pc vc)) s) }"

subsection \<open>The machine after a restore\<close>

text \<open>What \<open>contextRestore\<close> does to the machine, and to the VCPU.\<close>

definition restore_mach :: "vcpu_t \<Rightarrow> hw \<Rightarrow> hw" where
  "restore_mach vc h = setEPC (pc vc) (setGuestCTL2 (guestclt2 vc) (restore_cp0 (cp0_registers vc)
     (setGuestMode (setGuestID (vcpu_id vc) (setLowestGShadow (gprshadowset vc)
       (setPreviousShadowSet (gprshadowset vc) h))))))"

lemma contextRestore_eq:
  assumes "vcpu_executing s = Some v" and "vcpus s v = Some vc"
  shows "contextRestore s = Some (s\<lparr>mach := restore_mach vc (mach s),
     vcpus := (vcpus s)(v \<mapsto> vc\<lparr>vcpu_init := 0, guestclt2 := 0\<rparr>)\<rparr>)"
  using assms by (cases vc) (simp add: contextRestore_def upd_mach_def upd_vcpu_def restore_mach_def)

lemma restore_cp0_gcp0:
  "gcp0 (restore_cp0 regs h) = (gcp0 h)((4,0) := regs ! 0, (6,0) := regs ! 1, (8,0) := regs ! 2,
     (12,0) := regs ! 4, (12,1) := regs ! 5, (12,2) := regs ! 6, (12,3) := regs ! 7, (13,0) := regs ! 8,
     (14,0) := regs ! 9, (14,2) := regs ! 10, (15,1) := regs ! 11, (16,0) := regs ! 12,
     (17,0) := regs ! 13, (16,3) := regs ! 14, (30,0) := regs ! 15)"
  by (simp add: restore_cp0_def restored_regs_def mtgc0_def)

lemma restore_cp0_keeps [simp]:
  "cp0 (restore_cp0 regs h) = cp0 h" "gpr (restore_cp0 regs h) = gpr h" "tlb (restore_cp0 regs h) = tlb h"
  "ram (restore_cp0 regs h) = ram h" "sfr (restore_cp0 regs h) = sfr h"
  "count_src (restore_cp0 regs h) = count_src h" "count_reads (restore_cp0 regs h) = count_reads h"
  by (simp_all add: restore_cp0_def restored_regs_def mtgc0_def)

lemma restore_mach_keeps [simp]:
  "gpr (restore_mach vc h) = gpr h" "tlb (restore_mach vc h) = tlb h" "ram (restore_mach vc h) = ram h"
  "sfr (restore_mach vc h) = sfr h" "count_src (restore_mach vc h) = count_src h"
  "count_reads (restore_mach vc h) = count_reads h"
  by (simp_all add: restore_mach_def hal_setters)

lemma restore_mach_gcp0: "gcp0 (restore_mach vc h) = gcp0 (restore_cp0 (cp0_registers vc) h)"
  by (simp add: restore_mach_def hal_setters restore_cp0_gcp0)

lemma restore_mach_EPC: "getEPC (restore_mach vc h) = pc vc"
  by (simp add: restore_mach_def hal_setters getEPC_def mfc0_def)

lemma restore_mach_GuestCTL2: "getGuestCTL2 (restore_mach vc h) = guestclt2 vc"
  by (simp add: restore_mach_def hal_setters getGuestCTL2_def mfc0_def)

lemma restore_mach_prev_set:
  "unat (gprshadowset vc) < 16 \<Longrightarrow> prev_set (restore_mach vc h) = gprshadowset vc"
  using prev_set_setPreviousShadowSet [of "gprshadowset vc" h]
  by (simp add: restore_mach_def prev_set_def hal_setters mfc0_def)

lemma restore_mach_GuestID:
  assumes "unat (vcpu_id vc) < 256"
  shows "getGuestID (restore_mach vc h) = vcpu_id vc"
  using field_insert [of "vcpu_id vc" 8 0 "cp0 h (CP0_GUESTCTL1, 4)"] assms
  by (simp add: restore_mach_def hal_setters getGuestID_def mfc0_def mask_eq_exp_minus_1)

lemma saved_regs_restored:
  "cp0_registers vc = map (\<lambda>(r, sel). mfgc0 h r sel) saved_regs \<Longrightarrow>
   reg \<in> set saved_regs \<Longrightarrow> reg \<noteq> (11, 0) \<Longrightarrow> gcp0 (restore_mach vc h') reg = gcp0 h reg"
  by (auto simp: restore_mach_gcp0 restore_cp0_gcp0 saved_regs_def mfgc0_def)

end
