(* ===== verification/Vm.thy ===== *)
theory Vm
  imports Vcpu
begin

text \<open>
  \<^verbatim>\<open>sys/kernel/vm.c\<close>: creation of the virtual machines and of their VCPUs from \<open>VMCONF\<close> at start-up.
  A \<open>malloc\<close> that returns NULL is not checked by the code: the write through it is \<open>None\<close>.
\<close>

abbreviation (input) "BARE_METAL \<equiv> 1 :: u32"
abbreviation (input) "BARE_METAL_ENTRY_POINT \<equiv> 0x9d001000 :: u32"

text \<open>One entry of the loop that fills the table of the virtual machine.\<close>

definition mk_tlbentry :: "u32 \<Rightarrow> u32 \<Rightarrow> tlb_entries \<Rightarrow> tlbentry" where
  "mk_tlbentry vmid idx te =
     (let e = zero_tlbentry\<lparr>guestid := vmid, index := idx, entrylo0 := te_entrylo0 te\<rparr>;
          e = (if entrylo0 e \<noteq> 0 then e\<lparr>lo0flags := ENTRYLO_V OR ENTRYLO_D\<rparr> else e);
          e = e\<lparr>entrylo1 := te_entrylo1 te\<rparr>;
          e = (if entrylo1 e \<noteq> 0 then e\<lparr>lo1flags := ENTRYLO_V OR ENTRYLO_D\<rparr> else e)
      in e\<lparr>pagemask := te_pagemask te, entryhi := te_entryhi te, coherency := te_coherency te\<rparr>)"

primrec fill_tlb :: "u32 \<Rightarrow> tlb_entries list \<Rightarrow> kst \<Rightarrow> tlbentry list \<times> kst" where
  "fill_tlb vmid [] s = ([], s)"
| "fill_tlb vmid (te # tes) s =
     (let e = mk_tlbentry vmid (st_tlbindex s) te;
          s = upd_mach (tlbEntryWrite e) s;
          s = s\<lparr>st_tlbindex := st_tlbindex s + 1\<rparr>;
          (es, s) = fill_tlb vmid tes s
      in (e # es, s))"

definition create_vcpu :: "ptr \<Rightarrow> u32 \<Rightarrow> kst \<Rightarrow> (ptr \<times> kst) option" where
  "create_vcpu vm entry_point s = do {
     (s, vcpu) \<leftarrow> k_malloc SIZEOF_vcpu_t s;
     if vcpu = NULL then None
     else do {
       let id = st_vcpu_id s;
       let vc = zero_vcpu\<lparr>gprshadowset := id, vcpu_id := id, vcpu_init := 1, pc := entry_point,
                          vcpu_vm := vm\<rparr>;
       Some (vcpu, s\<lparr>vcpus := (vcpus s)(vcpu \<mapsto> vc), st_vcpu_id := id + 1\<rparr>) } }"

definition create_vm :: "nat \<Rightarrow> kst \<Rightarrow> (ptr \<times> kst) option" where
  "create_vm i s = do {
     let conf = VMCONF s ! i;
     let n = of_nat (length (cf_tlb conf));
     (s, vm) \<leftarrow> k_malloc SIZEOF_vm_t s;
     if vm = NULL then None
     else do {
       let id = st_vm_id s;
       let s = s\<lparr>st_vm_id := id + 1\<rparr>;
       (s, tab) \<leftarrow> k_malloc (SIZEOF_tlbentry * n) s;
       if tab = NULL then None
       else do {
         let (es, s) = fill_tlb id (cf_tlb conf) s;
         let s = s\<lparr>tlbtabs := (tlbtabs s)(tab \<mapsto> es),
                   vms := (vms s)(vm \<mapsto> \<lparr>vm_name = cf_vm_name conf, vm_id = id,
                     base_addr = ram_base conf, vm_vcpus = NULL, os_type = cf_os_type conf,
                     vm_init = 1, vmconf = i, ntlbent = n, tlbentries = tab\<rparr>)\<rparr>;
         let entry_point = (if cf_os_type conf = BARE_METAL then BARE_METAL_ENTRY_POINT else 0);
         (vcpu, s) \<leftarrow> create_vcpu vm entry_point s;
         (_, l, s) \<leftarrow> list_append (vcpu_ready_list s) vcpu s;
         let s = s\<lparr>vcpu_ready_list := l\<rparr>;
         (_, l, s) \<leftarrow> list_append (virtual_machines_list s) vm s;
         let s = s\<lparr>virtual_machines_list := l\<rparr>;
         v \<leftarrow> vms s vm;
         (_, l, s) \<leftarrow> list_append (vm_vcpus v) vcpu s;
         Some (vm, s\<lparr>vms := (vms s)(vm \<mapsto> v\<lparr>vm_vcpus := l\<rparr>)\<rparr>) } } }"

primrec create_vms :: "nat list \<Rightarrow> kst \<Rightarrow> kst option" where
  "create_vms [] s = Some s"
| "create_vms (i # is) s = do { (_, s) \<leftarrow> create_vm i s; create_vms is s }"

definition initializeMachines :: "kst \<Rightarrow> kst option" where
  "initializeMachines s =
     (let s = s\<lparr>vcpu_ready_list := NULL\<rparr>;
          s = s\<lparr>virtual_machines_list := NULL\<rparr>
      in create_vms [0..<length (VMCONF s)] s)"

end
