(* ===== verification/Scheduler.thy ===== *)
theory Scheduler
  imports Vm
begin

text \<open>
  \<^verbatim>\<open>sys/kernel/scheduler.c\<close>: the round-robin scheduler, the fast interrupt delivery that preempts it,
  and the look-ups of a VCPU by the id of its virtual machine and by the interrupt it attends.
\<close>

definition SYSTEM_TICK_US :: u32 where "SYSTEM_TICK_US = 1000"
definition QUANTUM_SCHEDULER_MS :: u32 where "QUANTUM_SCHEDULER_MS = 10"

definition TICKS_BEFORE_SCHEDULING :: u32 where
  "TICKS_BEFORE_SCHEDULING = QUANTUM_SCHEDULER_MS div (SYSTEM_TICK_US div 1000)"

definition round_robin_scheduler :: "kst \<Rightarrow> (ptr \<times> kst) option" where
  "round_robin_scheduler s = do {
     nx \<leftarrow> (if last_scheduled s = NULL then Some NULL
             else map_option next_nd (nodes s (last_scheduled s)));
     let l = (if nx = NULL then vcpu_ready_list s else nx);
     Some (l, s\<lparr>last_scheduled := l\<rparr>) }"

definition fast_interrupt_delivery :: "ptr \<Rightarrow> kst \<Rightarrow> kst" where
  "fast_interrupt_delivery target s =
     (if target = vcpu_executing_nd s then s else s\<lparr>next_vcpu := target\<rparr>)"

definition run_scheduler :: "kst \<Rightarrow> kst option" where
  "run_scheduler s = do {
     s \<leftarrow> (if next_vcpu s \<noteq> NULL then do {
            s \<leftarrow> contextSave s;
            let s = s\<lparr>vcpu_executing_nd := next_vcpu s\<rparr>;
            s \<leftarrow> contextRestore s;
            let s = s\<lparr>next_vcpu := NULL\<rparr>;
            Some (s\<lparr>tick_count :=
              (if TICKS_BEFORE_SCHEDULING \<le> tick_count s mod TICKS_BEFORE_SCHEDULING
               then tick_count s - 2 else tick_count s)\<rparr>) }
          else if tick_count s mod TICKS_BEFORE_SCHEDULING = 0 then do {
            s \<leftarrow> contextSave s;
            (nd, s) \<leftarrow> round_robin_scheduler s;
            contextRestore (s\<lparr>vcpu_executing_nd := nd\<rparr>) }
          else Some s);
     Some (s\<lparr>tick_count := tick_count s + 1\<rparr>) }"

text \<open>A null result is a null pointer; dereferencing the empty VCPU list of a VM is \<open>None\<close>.\<close>

partial_function (option) get_vcpu_from_id_loop :: "kst \<Rightarrow> u32 \<Rightarrow> ptr \<Rightarrow> ptr option" where
  "get_vcpu_from_id_loop s vid vm_list =
     (if vm_list = NULL then Some NULL
      else Option.bind (nodes s vm_list) (\<lambda>n.
           Option.bind (vms s (elem n)) (\<lambda>vm.
           if vid = vm_id vm then map_option elem (nodes s (vm_vcpus vm))
           else get_vcpu_from_id_loop s vid (next_nd n))))"

definition get_vcpu_from_id :: "kst \<Rightarrow> u32 \<Rightarrow> ptr option" where
  "get_vcpu_from_id s vid = get_vcpu_from_id_loop s vid (virtual_machines_list s)"

partial_function (option) get_fast_int_loop :: "kst \<Rightarrow> u32 \<Rightarrow> ptr \<Rightarrow> ptr option" where
  "get_fast_int_loop s fast_int vm_list =
     (if vm_list = NULL then Some NULL
      else Option.bind (nodes s vm_list) (\<lambda>n.
           Option.bind (vms s (elem n)) (\<lambda>vm.
           if fast_int \<in> set (fast_interrupts (VMCONF s ! vmconf vm)) then Some (vm_vcpus vm)
           else get_fast_int_loop s fast_int (next_nd n))))"

definition get_fast_int_vcpu_node :: "kst \<Rightarrow> u32 \<Rightarrow> ptr option" where
  "get_fast_int_vcpu_node s fast_int = get_fast_int_loop s fast_int (virtual_machines_list s)"

subsection \<open>Round robin\<close>

lemma chain_next:
  assumes "chain nd p as" and "i < length as"
  shows "\<exists>n. nd (as ! i) = Some n \<and> next_nd n = (if Suc i < length as then as ! Suc i else NULL)"
  using assms
proof (induction as arbitrary: p i)
  case (Cons a as)
  show ?case
  proof (cases i)
    case 0
    with Cons.prems show ?thesis by (cases as) auto
  next
    case (Suc j)
    from Cons.prems(1) obtain n :: list_node where "chain nd (next_nd n) as" by auto
    with Cons.IH [of "next_nd n" j] Cons.prems(2) Suc show ?thesis
      by (cases "Suc j < length as") simp_all
  qed
qed simp

lemma chain_hd: "chain nd p as \<Longrightarrow> as \<noteq> [] \<Longrightarrow> p = as ! 0 \<and> p \<noteq> NULL"
  by (cases as) auto

lemma chain_nth_nonnull: "chain nd p as \<Longrightarrow> i < length as \<Longrightarrow> as ! i \<noteq> NULL"
proof (induction as arbitrary: p i)
  case (Cons a as)
  then show ?case by (cases i) auto
qed simp

text \<open>The next turn goes to the node after the last one, cyclically; the first turn to the head.\<close>

lemma round_robin_step:
  assumes ch: "chain (nodes s) (vcpu_ready_list s) rs" and ne: "rs \<noteq> []"
  shows "last_scheduled s = NULL \<Longrightarrow>
      round_robin_scheduler s = Some (rs ! 0, s\<lparr>last_scheduled := rs ! 0\<rparr>)"
    and "i < length rs \<Longrightarrow> last_scheduled s = rs ! i \<Longrightarrow>
      round_robin_scheduler s
        = Some (rs ! (Suc i mod length rs), s\<lparr>last_scheduled := rs ! (Suc i mod length rs)\<rparr>)"
proof -
  show "round_robin_scheduler s = Some (rs ! 0, s\<lparr>last_scheduled := rs ! 0\<rparr>)" if "last_scheduled s = NULL"
    using that chain_hd [OF ch ne] by (simp add: round_robin_scheduler_def Let_def)
  show "round_robin_scheduler s
        = Some (rs ! (Suc i mod length rs), s\<lparr>last_scheduled := rs ! (Suc i mod length rs)\<rparr>)"
    if i: "i < length rs" "last_scheduled s = rs ! i"
  proof -
    obtain n where n: "nodes s (rs ! i) = Some n"
      "next_nd n = (if Suc i < length rs then rs ! Suc i else NULL)"
      using chain_next [OF ch i(1)] by blast
    have nz: "rs ! i \<noteq> NULL" by (rule chain_nth_nonnull [OF ch i(1)])
    show ?thesis
    proof (cases "Suc i < length rs")
      case True
      then show ?thesis using n nz i chain_nth_nonnull [OF ch True] by (simp add: round_robin_scheduler_def Let_def)
    next
      case False
      then have "Suc i = length rs" using i by simp
      then show ?thesis using n nz i chain_hd [OF ch ne] by (simp add: round_robin_scheduler_def Let_def)
    qed
  qed
qed

text \<open>\<open>k\<close> turns of the scheduler.\<close>

primrec rr_turns :: "nat \<Rightarrow> kst \<Rightarrow> (ptr list \<times> kst) option" where
  "rr_turns 0 s = Some ([], s)"
| "rr_turns (Suc k) s = do {
     (nd, s) \<leftarrow> round_robin_scheduler s;
     (nds, s) \<leftarrow> rr_turns k s;
     Some (nd # nds, s) }"

lemma rr_turns_from:
  assumes "chain (nodes s) (vcpu_ready_list s) rs" and "i < length rs" and "last_scheduled s = rs ! i"
  shows "\<exists>s'. rr_turns k s = Some (map (\<lambda>j. rs ! ((i + 1 + j) mod length rs)) [0..<k], s')"
  using assms
proof (induction k arbitrary: s i)
  case (Suc k)
  let ?j = "Suc i mod length rs"
  let ?s = "s\<lparr>last_scheduled := rs ! ?j\<rparr>"
  have ne: "rs \<noteq> []" using Suc.prems(2) by auto
  have st: "round_robin_scheduler s = Some (rs ! ?j, ?s)"
    using round_robin_step(2) [OF Suc.prems(1) ne Suc.prems(2,3)] .
  have "\<exists>s'. rr_turns k ?s = Some (map (\<lambda>x. rs ! ((?j + 1 + x) mod length rs)) [0..<k], s')"
    using Suc.prems ne by (intro Suc.IH) simp_all
  moreover have "(?j + 1 + x) mod length rs = (i + 1 + Suc x) mod length rs" for x
    by (simp add: mod_Suc_eq mod_add_left_eq [of "Suc i" "length rs" "Suc x", simplified])
  ultimately show ?case
    using st by (auto simp del: upt_Suc simp add: upt_conv_Cons map_Suc_upt [symmetric])
qed simp

lemma rr_turns_rotate:
  assumes "chain (nodes s) (vcpu_ready_list s) rs" and "i < length rs" and "last_scheduled s = rs ! i"
  shows "\<exists>s'. rr_turns (length rs) s = Some (rotate (i + 1) rs, s')"
proof -
  have "map (\<lambda>j. rs ! ((i + 1 + j) mod length rs)) [0..<length rs] = rotate (i + 1) rs"
    by (rule nth_equalityI) (simp_all only: length_map length_upt length_rotate diff_zero nth_rotate
      nth_map nth_upt add_0 add_0_right add.commute)
  then show ?thesis using rr_turns_from [OF assms, of "length rs"] by simp
qed

subsection \<open>The scheduler keeps the kernel runnable\<close>

text \<open>A list node that holds a VCPU whose bank and id fit their register fields.\<close>

definition valid_nd :: "kst \<Rightarrow> ptr \<Rightarrow> bool" where
  "valid_nd s p \<longleftrightarrow> (\<exists>n vc. nodes s p = Some n \<and> elem n \<noteq> NULL \<and> vcpus s (elem n) = Some vc \<and>
     unat (gprshadowset vc) < 16 \<and> unat (vcpu_id vc) < 256)"

text \<open>The bank that the hypercall accessors use is the one of the VCPU in execution, and its id is the
  guest id of the processor.\<close>

definition bank_ok :: "kst \<Rightarrow> bool" where
  "bank_ok s \<longleftrightarrow> (\<forall>v vc. vcpu_executing_nd s \<noteq> NULL \<longrightarrow> vcpu_executing s = Some v \<longrightarrow> vcpus s v = Some vc \<longrightarrow>
     prev_set (mach s) = gprshadowset vc \<and> getGuestID (mach s) = vcpu_id vc)"

definition sched_inv :: "ptr list \<Rightarrow> kst \<Rightarrow> bool" where
  "sched_inv rs s \<longleftrightarrow>
     chain (nodes s) (vcpu_ready_list s) rs \<and> rs \<noteq> [] \<and> (\<forall>p\<in>set rs. valid_nd s p) \<and>
     (last_scheduled s = NULL \<or> last_scheduled s \<in> set rs) \<and>
     (vcpu_executing_nd s = NULL \<or> valid_nd s (vcpu_executing_nd s)) \<and>
     (next_vcpu s = NULL \<or> valid_nd s (next_vcpu s)) \<and> bank_ok s"

lemma contextSave_eq:
  assumes "vcpu_executing_nd s = NULL \<or> valid_nd s (vcpu_executing_nd s)"
  shows "\<exists>f. contextSave s = Some (s\<lparr>vcpus := f\<rparr>) \<and>
    (\<forall>v vc. vcpus s v = Some vc \<longrightarrow> (\<exists>vc'. f v = Some vc' \<and> gprshadowset vc' = gprshadowset vc \<and>
       vcpu_id vc' = vcpu_id vc \<and> vcpu_vm vc' = vcpu_vm vc \<and> messages vc' = messages vc \<and>
       vcpu_init vc' = vcpu_init vc)) \<and> dom f = dom (vcpus s)"
proof (cases "vcpu_executing_nd s = NULL")
  case True
  then show ?thesis
    by (intro exI [of _ "vcpus s"]) (simp add: contextSave_def is_vcpu_executing_def)
next
  case False
  with assms obtain n vc where n: "nodes s (vcpu_executing_nd s) = Some n" "elem n \<noteq> NULL"
    "vcpus s (elem n) = Some vc" by (auto simp: valid_nd_def)
  show ?thesis
  proof (cases "vcpu_init vc = 0")
    case True
    let ?vc = "vc\<lparr>cp0_registers := map (\<lambda>(r, sel). mfgc0 (mach s) r sel) saved_regs,
      guestclt2 := guestclt2 vc OR getGuestCTL2 (mach s), pc := getEPC (mach s)\<rparr>"
    show ?thesis
      by (intro exI [of _ "(vcpus s)(elem n \<mapsto> ?vc)"])
        (use n False True in \<open>auto simp: contextSave_def is_vcpu_executing_def upd_vcpu_def\<close>)
  next
    case init: False
    show ?thesis
      by (intro exI [of _ "vcpus s"])
        (use n False init in \<open>simp add: contextSave_def is_vcpu_executing_def\<close>)
  qed
qed

lemma valid_nd_cong:
  assumes "valid_nd s p" and "nodes s' = nodes s"
    and "\<And>v vc. vcpus s v = Some vc \<Longrightarrow>
      \<exists>vc'. vcpus s' v = Some vc' \<and> gprshadowset vc' = gprshadowset vc \<and> vcpu_id vc' = vcpu_id vc"
  shows "valid_nd s' p"
  using assms(1) assms(3) unfolding valid_nd_def assms(2) by metis

text \<open>Switching to a valid node.\<close>

lemma switch_to:
  assumes "valid_nd s p" and "p \<noteq> NULL" and "vcpu_executing_nd s = p"
  shows "\<exists>v vc. vcpu_executing s = Some v \<and> vcpus s v = Some vc \<and>
    contextRestore s = Some (s\<lparr>mach := restore_mach vc (mach s),
      vcpus := (vcpus s)(v \<mapsto> vc\<lparr>vcpu_init := 0, guestclt2 := 0\<rparr>)\<rparr>) \<and>
    bank_ok (s\<lparr>mach := restore_mach vc (mach s),
      vcpus := (vcpus s)(v \<mapsto> vc\<lparr>vcpu_init := 0, guestclt2 := 0\<rparr>)\<rparr>)"
proof -
  obtain n vc where n: "nodes s p = Some n" "vcpus s (elem n) = Some vc"
    "unat (gprshadowset vc) < 16" "unat (vcpu_id vc) < 256"
    using assms(1) by (auto simp: valid_nd_def)
  have ve: "vcpu_executing s = Some (elem n)" using n assms by (simp add: vcpu_executing_def)
  have "bank_ok (s\<lparr>mach := restore_mach vc (mach s),
      vcpus := (vcpus s)(elem n \<mapsto> vc\<lparr>vcpu_init := 0, guestclt2 := 0\<rparr>)\<rparr>)"
    using n ve restore_mach_prev_set restore_mach_GuestID
    by (auto simp: bank_ok_def vcpu_executing_def assms(3))
  then show ?thesis using ve n(2) contextRestore_eq [OF ve n(2)] by blast
qed

text \<open>The cyclic successor of a node in the ready list, the head when there is none yet.\<close>

definition rr_succ :: "ptr list \<Rightarrow> ptr \<Rightarrow> ptr" where
  "rr_succ rs p = (case map_of (zip rs (rotate1 rs)) p of Some q \<Rightarrow> q | None \<Rightarrow> hd rs)"

lemma round_robin_succ:
  assumes ch: "chain (nodes s) (vcpu_ready_list s) rs" and ne: "rs \<noteq> []"
    and last: "last_scheduled s = NULL \<or> last_scheduled s \<in> set rs"
  shows "round_robin_scheduler s = Some (rr_succ rs (last_scheduled s),
      s\<lparr>last_scheduled := rr_succ rs (last_scheduled s)\<rparr>)"
    and "rr_succ rs (last_scheduled s) \<in> set rs"
proof -
  have nz: "NULL \<notin> set rs" using chain_nth_nonnull [OF ch] by (metis in_set_conv_nth)
  have *: "round_robin_scheduler s = Some (rr_succ rs (last_scheduled s),
      s\<lparr>last_scheduled := rr_succ rs (last_scheduled s)\<rparr>) \<and> rr_succ rs (last_scheduled s) \<in> set rs"
  proof (cases "last_scheduled s = NULL")
    case True
    have "map_of (zip rs (rotate1 rs)) NULL = None" using nz by simp
    then have "rr_succ rs NULL = rs ! 0" by (simp only: rr_succ_def option.case hd_conv_nth [OF ne])
    then show ?thesis using round_robin_step(1) [OF ch ne True] True ne by simp
  next
    case False
    then obtain i where i: "i < length rs" "last_scheduled s = rs ! i"
      using last by (auto simp: in_set_conv_nth)
    have "map_of (zip rs (rotate1 rs)) (rs ! i) = Some (rotate1 rs ! i)"
      using i(1) chain_distinct [OF ch] by (intro map_of_zip_nth) simp_all
    then have "rr_succ rs (rs ! i) = rs ! (Suc i mod length rs)"
      using i(1) by (simp add: rr_succ_def nth_rotate1)
    then show ?thesis using round_robin_step(2) [OF ch ne i] i ne by (simp add: nth_mem)
  qed
  then show "round_robin_scheduler s = Some (rr_succ rs (last_scheduled s),
      s\<lparr>last_scheduled := rr_succ rs (last_scheduled s)\<rparr>)"
    and "rr_succ rs (last_scheduled s) \<in> set rs" by blast+
qed

text \<open>The node that runs after a tick.\<close>

definition next_exec :: "ptr list \<Rightarrow> kst \<Rightarrow> ptr" where
  "next_exec rs s =
     (if next_vcpu s \<noteq> NULL then next_vcpu s
      else if tick_count s mod 10 = 0 then rr_succ rs (last_scheduled s)
      else vcpu_executing_nd s)"

lemma TICKS: "TICKS_BEFORE_SCHEDULING = 10"
  by (simp add: TICKS_BEFORE_SCHEDULING_def QUANTUM_SCHEDULER_MS_def SYSTEM_TICK_US_def)

lemma mod10_less: "\<not> 10 \<le> (t :: u32) mod 10"
  using word_mod_less_divisor [of 10 t] by (simp add: not_le)

text \<open>Save the context, choose the node, restore the context.\<close>

lemma save_switch_restore:
  assumes inv: "sched_inv rs s" and p: "valid_nd s p" "p \<noteq> NULL" and l: "l = NULL \<or> l \<in> set rs"
  shows "\<exists>s1 s2. contextSave s = Some s1 \<and> nodes s1 = nodes s \<and>
    s1 = s\<lparr>vcpus := vcpus s1\<rparr> \<and>
    contextRestore (s1\<lparr>last_scheduled := l, vcpu_executing_nd := p\<rparr>) = Some s2 \<and>
    sched_inv rs s2 \<and> vcpu_executing_nd s2 = p \<and> tick_count s2 = tick_count s \<and> next_vcpu s2 = next_vcpu s
    \<and> last_scheduled s2 = l"
proof -
  obtain f where f: "contextSave s = Some (s\<lparr>vcpus := f\<rparr>)"
    "\<And>v vc. vcpus s v = Some vc \<Longrightarrow> \<exists>vc'. f v = Some vc' \<and> gprshadowset vc' = gprshadowset vc \<and> vcpu_id vc' = vcpu_id vc"
    using contextSave_eq [of s] inv unfolding sched_inv_def by metis
  let ?s1 = "s\<lparr>vcpus := f\<rparr>"
  let ?s1' = "?s1\<lparr>last_scheduled := l, vcpu_executing_nd := p\<rparr>"
  have v1: "valid_nd ?s1' q" if "valid_nd s q" for q
    using that by (rule valid_nd_cong) (use f(2) in auto)
  obtain v vc where r: "vcpu_executing ?s1' = Some v" "vcpus ?s1' v = Some vc"
    and cr: "contextRestore ?s1' = Some (?s1'\<lparr>mach := restore_mach vc (mach ?s1'),
      vcpus := (vcpus ?s1')(v \<mapsto> vc\<lparr>vcpu_init := 0, guestclt2 := 0\<rparr>)\<rparr>)"
    and bk: "bank_ok (?s1'\<lparr>mach := restore_mach vc (mach ?s1'),
      vcpus := (vcpus ?s1')(v \<mapsto> vc\<lparr>vcpu_init := 0, guestclt2 := 0\<rparr>)\<rparr>)"
    using switch_to [of ?s1' p] v1 [OF p(1)] p(2) by auto
  let ?s2 = "?s1'\<lparr>mach := restore_mach vc (mach ?s1'),
      vcpus := (vcpus ?s1')(v \<mapsto> vc\<lparr>vcpu_init := 0, guestclt2 := 0\<rparr>)\<rparr>"
  have v2: "valid_nd ?s2 q" if "valid_nd s q" for q
    using v1 [OF that] by (rule valid_nd_cong) (use r(2) in auto)
  have "sched_inv rs ?s2"
    using inv l p v2 bk unfolding sched_inv_def by auto
  then show ?thesis using f(1) cr
    by (intro exI [of _ ?s1] exI [of _ ?s2]) simp
qed

lemma run_scheduler_ok:
  assumes inv: "sched_inv rs s"
  shows "\<exists>s'. run_scheduler s = Some s' \<and> sched_inv rs s' \<and>
    vcpu_executing_nd s' = next_exec rs s \<and> tick_count s' = tick_count s + 1 \<and> next_vcpu s' = NULL"
proof -
  have tick1: "sched_inv rs (s\<lparr>tick_count := t\<rparr>)" if "sched_inv rs s" for s t
    using that by (simp add: sched_inv_def valid_nd_def bank_ok_def vcpu_executing_def)
  have tick: "sched_inv rs (s\<lparr>tick_count := t, next_vcpu := n\<rparr>)"
    if "sched_inv rs s" "n = NULL \<or> n = next_vcpu s" for s t n
    using that by (auto simp: sched_inv_def valid_nd_def bank_ok_def vcpu_executing_def)
  have ch: "chain (nodes s) (vcpu_ready_list s) rs" "rs \<noteq> []"
    "last_scheduled s = NULL \<or> last_scheduled s \<in> set rs" using inv by (auto simp: sched_inv_def)
  consider (fast) "next_vcpu s \<noteq> NULL" | (turn) "next_vcpu s = NULL" "tick_count s mod 10 = 0"
    | (none) "next_vcpu s = NULL" "tick_count s mod 10 \<noteq> 0" by blast
  then show ?thesis
  proof cases
    case fast
    then have p: "valid_nd s (next_vcpu s)" using inv by (auto simp: sched_inv_def)
    obtain s1 s2 where c: "contextSave s = Some s1" "nodes s1 = nodes s" "s1 = s\<lparr>vcpus := vcpus s1\<rparr>"
      "contextRestore (s1\<lparr>last_scheduled := last_scheduled s, vcpu_executing_nd := next_vcpu s\<rparr>) = Some s2"
      "sched_inv rs s2" "vcpu_executing_nd s2 = next_vcpu s" "tick_count s2 = tick_count s"
      using save_switch_restore [OF inv p fast ch(3)] by metis
    have "next_vcpu s1 = next_vcpu s" "last_scheduled s1 = last_scheduled s" by (subst c(3), simp)+
    then have "s1\<lparr>last_scheduled := last_scheduled s, vcpu_executing_nd := next_vcpu s\<rparr>
        = s1\<lparr>vcpu_executing_nd := next_vcpu s\<rparr>" and "next_vcpu s1 = next_vcpu s"
      by (cases s1, simp)+
    then have "run_scheduler s = Some (s2\<lparr>tick_count := tick_count s + 1, next_vcpu := NULL\<rparr>)"
      using fast c(1,4,6,7) by (simp add: run_scheduler_def TICKS mod10_less)
    then show ?thesis using tick [OF c(5)] c(6) fast by (simp add: next_exec_def)
  next
    case turn
    let ?p = "rr_succ rs (last_scheduled s)"
    note rr = round_robin_succ [OF ch]
    have p: "valid_nd s ?p" "?p \<noteq> NULL"
      using rr(2) inv chain_nth_nonnull [OF ch(1)] by (auto simp: sched_inv_def in_set_conv_nth)
    obtain s1 s2 where c: "contextSave s = Some s1" "nodes s1 = nodes s" "s1 = s\<lparr>vcpus := vcpus s1\<rparr>"
      "contextRestore (s1\<lparr>last_scheduled := ?p, vcpu_executing_nd := ?p\<rparr>) = Some s2"
      "sched_inv rs s2" "vcpu_executing_nd s2 = ?p" "tick_count s2 = tick_count s" "next_vcpu s2 = next_vcpu s"
      using save_switch_restore [OF inv p disjI2 [OF rr(2)]] by metis
    have e: "last_scheduled s1 = last_scheduled s" "vcpu_ready_list s1 = vcpu_ready_list s" by (subst c(3), simp)+
    have "round_robin_scheduler s1 = Some (?p, s1\<lparr>last_scheduled := ?p\<rparr>)"
      using round_robin_succ(1) [of s1 rs] ch c(2) e by simp
    then have "run_scheduler s = Some (s2\<lparr>tick_count := tick_count s + 1\<rparr>)"
      using turn c by (simp add: run_scheduler_def TICKS)
    then show ?thesis using tick1 [OF c(5)] c(6,8) turn by (simp add: next_exec_def)
  next
    case none
    then have "run_scheduler s = Some (s\<lparr>tick_count := tick_count s + 1\<rparr>)"
      by (simp add: run_scheduler_def TICKS)
    then show ?thesis using tick1 [OF inv] none by (simp add: next_exec_def)
  qed
qed

subsection \<open>Look-up by id\<close>

text \<open>The virtual machines on the list, each with the VCPU at the head of its own list.\<close>

definition machines :: "kst \<Rightarrow> ptr list \<Rightarrow> (u32 \<times> ptr) list \<Rightarrow> bool" where
  "machines s ms tab \<longleftrightarrow> list_all2 (\<lambda>p (vid, v). \<exists>n vm m. nodes s p = Some n \<and> vms s (elem n) = Some vm \<and>
     vm_id vm = vid \<and> nodes s (vm_vcpus vm) = Some m \<and> elem m = v) ms tab"

lemma get_vcpu_from_id_machines:
  assumes "chain (nodes s) (virtual_machines_list s) ms" and "machines s ms tab"
  shows "get_vcpu_from_id s vid = Some (case map_of tab vid of Some v \<Rightarrow> v | None \<Rightarrow> NULL)"
proof -
  have "get_vcpu_from_id_loop s vid p = Some (case map_of tab vid of Some v \<Rightarrow> v | None \<Rightarrow> NULL)"
    if "chain (nodes s) p ms" for p
    using that assms(2)
  proof (induction ms arbitrary: p tab)
    case Nil
    then show ?case by (subst get_vcpu_from_id_loop.simps) (simp add: machines_def)
  next
    case (Cons a ms)
    from Cons.prems(2) obtain w v tab' where t: "tab = (w, v) # tab'"
      by (cases tab) (auto simp: machines_def)
    with Cons.prems obtain n vm m where n: "p = a" "a \<noteq> NULL" "nodes s a = Some n" "vms s (elem n) = Some vm"
      "vm_id vm = w" "nodes s (vm_vcpus vm) = Some m" "elem m = v" "chain (nodes s) (next_nd n) ms"
      by (auto simp: machines_def)
    have "get_vcpu_from_id_loop s vid (next_nd n) = Some (case map_of tab' vid of Some v \<Rightarrow> v | None \<Rightarrow> NULL)"
      using Cons.prems t n by (intro Cons.IH) (simp_all add: machines_def)
    with n t show ?case by (subst get_vcpu_from_id_loop.simps) auto
  qed
  then show ?thesis using assms(1) by (simp add: get_vcpu_from_id_def)
qed

subsection \<open>What the scheduler leaves alone\<close>

text \<open>\<open>k_frame R\<close>: the lists, the virtual machines and the configuration are the same, and every VCPU
  is related to its old value by \<open>R\<close>.\<close>

definition k_frame :: "(vcpu_t \<Rightarrow> vcpu_t \<Rightarrow> bool) \<Rightarrow> kst \<Rightarrow> kst \<Rightarrow> bool" where
  "k_frame R s s' \<longleftrightarrow> nodes s' = nodes s \<and> vms s' = vms s \<and> vcpu_ready_list s' = vcpu_ready_list s \<and>
     virtual_machines_list s' = virtual_machines_list s \<and> VMCONF s' = VMCONF s \<and>
     hypercall_table s' = hypercall_table s \<and> interrupt_handlers s' = interrupt_handlers s \<and>
     imaps s' = imaps s \<and> interrupt_mapping_sz s' = interrupt_mapping_sz s \<and>
     interrupt_mapping_list s' = interrupt_mapping_list s \<and> vmconf_p s' = vmconf_p s \<and>
     nvm_ctl s' = nvm_ctl s \<and> heap s' = heap s \<and> tlbtabs s' = tlbtabs s \<and>
     (\<forall>v. rel_option R (vcpus s v) (vcpus s' v))"

definition vc_ids :: "vcpu_t \<Rightarrow> vcpu_t \<Rightarrow> bool" where
  "vc_ids vc vc' \<longleftrightarrow> vcpu_id vc' = vcpu_id vc \<and> gprshadowset vc' = gprshadowset vc \<and> vcpu_vm vc' = vcpu_vm vc"

definition vc_same :: "vcpu_t \<Rightarrow> vcpu_t \<Rightarrow> bool" where
  "vc_same vc vc' \<longleftrightarrow> vc_ids vc vc' \<and> messages vc' = messages vc"

lemma vc_same_refl [simp]: "vc_same vc vc" and vc_ids_refl [simp]: "vc_ids vc vc"
  by (simp_all add: vc_same_def vc_ids_def)

lemma k_frame_refl: "(\<And>vc. R vc vc) \<Longrightarrow> k_frame R s s"
  by (simp add: k_frame_def option.rel_refl)

lemma rel_option_trans:
  assumes tr: "transp R" and ab: "rel_option R a b" and bc: "rel_option R b c"
  shows "rel_option R a c"
  using ab
proof cases
  case None
  with bc show ?thesis by simp
next
  case (Some x y)
  from bc [unfolded Some(2)] obtain z where "c = Some z" "R y z" by cases auto
  with Some transpD [OF tr] show ?thesis by auto
qed

lemma k_frame_trans:
  assumes tr: "transp R" and 1: "k_frame R s s'" and 2: "k_frame R s' s''"
  shows "k_frame R s s''"
proof -
  have "rel_option R (vcpus s v) (vcpus s'' v)" for v
    by (rule rel_option_trans [OF tr, of "vcpus s v" "vcpus s' v"]) (use 1 2 in \<open>auto simp: k_frame_def\<close>)
  then show ?thesis using 1 2 by (simp add: k_frame_def)
qed

lemma transp_vc: "transp vc_same" "transp vc_ids"
  by (auto intro!: transpI simp: vc_same_def vc_ids_def)

lemma upd_vcpu_frame:
  assumes "upd_vcpu p f s = Some s'" and "\<And>vc. R vc (f vc)" and "\<And>vc. R vc vc"
  shows "k_frame R s s'" and "mach s' = mach s" and "vcpu_executing_nd s' = vcpu_executing_nd s"
    and "next_vcpu s' = next_vcpu s" and "last_scheduled s' = last_scheduled s" and "tick_count s' = tick_count s"
  using assms by (auto simp: upd_vcpu_def k_frame_def option.rel_refl)

lemma upd_mach_frame: "(\<And>vc. R vc vc) \<Longrightarrow> k_frame R s (upd_mach f s)"
  by (simp add: upd_mach_def k_frame_def option.rel_refl)

lemma contextSave_frame:
  assumes "contextSave s = Some s'"
  shows "k_frame vc_same s s' \<and> mach s' = mach s \<and> vcpu_executing_nd s' = vcpu_executing_nd s \<and>
    next_vcpu s' = next_vcpu s \<and> last_scheduled s' = last_scheduled s"
  using assms
  by (auto simp: contextSave_def upd_vcpu_def k_frame_def option.rel_refl vc_same_def vc_ids_def
      split: if_splits)

lemma contextRestore_frame:
  assumes "contextRestore s = Some s'"
  shows "k_frame vc_same s s' \<and> tlb (mach s') = tlb (mach s) \<and> ram (mach s') = ram (mach s) \<and>
    gpr (mach s') = gpr (mach s) \<and> sfr (mach s') = sfr (mach s) \<and>
    vcpu_executing_nd s' = vcpu_executing_nd s \<and> next_vcpu s' = next_vcpu s \<and>
    last_scheduled s' = last_scheduled s"
proof -
  obtain v where v: "vcpu_executing s = Some v" using assms by (auto simp: contextRestore_def)
  obtain vc where vc: "vcpus s v = Some vc" using assms v by (auto simp: contextRestore_def)
  show ?thesis using assms contextRestore_eq [OF v vc] vc
    by (auto simp: k_frame_def option.rel_refl vc_same_def vc_ids_def)
qed

lemma run_scheduler_frame:
  assumes "run_scheduler s = Some s'"
  shows "k_frame vc_same s s' \<and> tlb (mach s') = tlb (mach s) \<and> ram (mach s') = ram (mach s) \<and>
    gpr (mach s') = gpr (mach s) \<and> sfr (mach s') = sfr (mach s)"
proof -
  have fr: "k_frame R (s\<lparr>vcpu_executing_nd := a\<rparr>) s' = k_frame R s s'"
    "k_frame R (s\<lparr>last_scheduled := a\<rparr>) s' = k_frame R s s'"
    "k_frame R s (s'\<lparr>tick_count := t\<rparr>) = k_frame R s s'"
    "k_frame R s (s'\<lparr>next_vcpu := a\<rparr>) = k_frame R s s'" for R s s' a t
    by (simp_all add: k_frame_def)
  note tr = k_frame_trans [OF transp_vc(1)]
  have sw: "k_frame vc_same s s2 \<and> tlb (mach s2) = tlb (mach s) \<and> ram (mach s2) = ram (mach s) \<and>
    gpr (mach s2) = gpr (mach s) \<and> sfr (mach s2) = sfr (mach s)"
    if "contextSave s = Some s1" "contextRestore (f s1) = Some s2"
      "\<And>t. k_frame vc_same (f s1) t = k_frame vc_same s1 t" "mach (f s1) = mach s1" for s1 s2 f
    using contextSave_frame [OF that(1)] contextRestore_frame [OF that(2)] that(3,4) tr [of s s1 s2] by simp
  consider "next_vcpu s \<noteq> NULL" | "next_vcpu s = NULL" "tick_count s mod TICKS_BEFORE_SCHEDULING = 0"
    | "next_vcpu s = NULL" "tick_count s mod TICKS_BEFORE_SCHEDULING \<noteq> 0" by blast
  then show ?thesis
  proof cases
    case 1
    then obtain s1 s2 t where a: "contextSave s = Some s1"
      "contextRestore (s1\<lparr>vcpu_executing_nd := next_vcpu s1\<rparr>) = Some s2"
      "s' = s2\<lparr>next_vcpu := NULL, tick_count := t\<rparr>"
      using assms by (auto simp: run_scheduler_def Let_def)
    show ?thesis using sw [of s1 "\<lambda>s. s\<lparr>vcpu_executing_nd := next_vcpu s\<rparr>" s2] a by (simp add: fr)
  next
    case 2
    then obtain s1 s2 nd t where a: "contextSave s = Some s1"
      "contextRestore (s1\<lparr>last_scheduled := nd, vcpu_executing_nd := nd\<rparr>) = Some s2"
      "s' = s2\<lparr>tick_count := t\<rparr>"
      using assms by (auto simp: run_scheduler_def round_robin_scheduler_def Let_def)
    show ?thesis using sw [of s1 "\<lambda>s. s\<lparr>last_scheduled := nd, vcpu_executing_nd := nd\<rparr>" s2] a by (simp add: fr)
  next
    case 3
    then show ?thesis using assms by (auto simp: run_scheduler_def fr k_frame_refl)
  qed
qed

end
