(* ===== verification/KInv.thy ===== *)
theory KInv
  imports Scheduler
begin

text \<open>
  The invariant of the kernel's data and its establishment at start-up. \<open>kdata\<close> says what
  \<open>create_vm\<close> builds: virtual machine number \<open>i\<close> of \<open>VMCONF\<close> has id \<open>i + 1\<close>, one VCPU with the same id
  and shadow set, both are on their lists, and every message queue is well formed. \<open>kinv\<close> adds what
  holds while guests run. \<open>create_vm_ok\<close> and \<open>initializeMachines_ok\<close> establish it from an empty heap.
\<close>

definition msg_buf_ok :: "message_buffer_t \<Rightarrow> bool" where
  "msg_buf_ok b \<longleftrightarrow> msg_in b < MESSAGELIST_SZ \<and> msg_out b < MESSAGELIST_SZ \<and>
     num_messages b \<le> MESSAGELIST_SZ \<and> length (message_list b) = unat MESSAGELIST_SZ \<and>
     msg_in b = (msg_out b + num_messages b) mod MESSAGELIST_SZ \<and>
     (\<forall>m\<in>set (message_list b). length (message m) = unat MESSAGE_SZ \<and>
      msg_size m \<le> MESSAGE_SZ)"

definition vm_entry :: "kst \<Rightarrow> nat \<Rightarrow> ptr \<Rightarrow> ptr \<Rightarrow> bool" where
  "vm_entry s i m v \<longleftrightarrow> m \<noteq> NULL \<and> v \<noteq> NULL \<and>
      (\<exists>vm vc nd. vms s m = Some vm \<and> vcpus s v = Some vc \<and>
     vm_id vm = of_nat (i + 1) \<and> vmconf vm = i \<and> base_addr vm = ram_base (VMCONF s ! i) \<and>
     vm_vcpus vm \<noteq> NULL \<and> nodes s (vm_vcpus vm) = Some nd \<and> elem nd = v \<and>
     vcpu_id vc = of_nat (i + 1) \<and> gprshadowset vc = of_nat (i + 1) \<and> vcpu_vm vc = m \<and>
     msg_buf_ok (messages vc))"

definition kdata :: "kst \<Rightarrow> ptr list \<Rightarrow> ptr list \<Rightarrow> (ptr \<times> ptr) list \<Rightarrow> bool" where
  "kdata s rs ms tab \<longleftrightarrow>
     chain (nodes s) (vcpu_ready_list s) rs \<and> elems (nodes s) rs = map snd tab \<and>
     chain (nodes s) (virtual_machines_list s) ms \<and> elems (nodes s) ms = map fst tab \<and>
     set rs \<inter> set ms = {} \<and> (\<forall>i<length tab. vm_entry s i (fst (tab ! i)) (snd (tab ! i)))"

definition live :: "kst \<Rightarrow> ptr set" where
  "live s = dom (nodes s) \<union> dom (vms s) \<union> dom (vcpus s) \<union> dom (tlbtabs s) \<union> dom (imaps s)"

text \<open>No entry of the TLB belongs to the hypervisor's own address space.\<close>

definition no_root :: "hw \<Rightarrow> bool" where
  "no_root h \<longleftrightarrow> (\<forall>j e. tlb h j = Some e \<longrightarrow> t_gid e \<noteq> 0)"

definition boot_inv :: "kst \<Rightarrow> ptr set \<Rightarrow> nat \<Rightarrow> ptr list \<Rightarrow> ptr list \<Rightarrow> (ptr \<times> ptr) list \<Rightarrow> bool" where
  "boot_inv s L r rs ms tab \<longleftrightarrow> heap_inv L (heap s) r \<and> live s \<subseteq> L \<and>
      kdata s rs ms tab \<and>
     st_vm_id s = of_nat (length tab + 1) \<and> st_vcpu_id s = of_nat (length tab + 1) \<and> no_root (mach s)"

lemma zero_message_buffer_ok: "msg_buf_ok zero_message_buffer"
  by (simp add: msg_buf_ok_def zero_message_buffer_def zero_message_def MESSAGELIST_SZ_def MESSAGE_SZ_def)

subsection \<open>Creating one virtual machine\<close>

lemma mk_tlbentry_guestid [simp]: "guestid (mk_tlbentry vmid i te) = vmid"
  and mk_tlbentry_index [simp]: "index (mk_tlbentry vmid i te) = i"
  by (simp_all add: mk_tlbentry_def Let_def)

lemma fill_tlb_ok:
  assumes "vmid \<noteq> 0" and "unat vmid < 256"
  shows "no_root (mach s) \<Longrightarrow> \<exists>es h j. fill_tlb vmid tes s = (es, s\<lparr>mach := h, st_tlbindex := j\<rparr>) \<and> no_root h \<and>
    length es = length tes"
proof (induction tes arbitrary: s)
  case Nil
  then show ?case by (intro exI [of _ "[]"] exI [of _ "mach s"] exI [of _ "st_tlbindex s"]) simp
next
  case (Cons te tes)
  let ?e = "mk_tlbentry vmid (st_tlbindex s) te"
  let ?s = "s\<lparr>mach := tlbEntryWrite ?e (mach s), st_tlbindex := st_tlbindex s + 1\<rparr>"
  have "no_root (mach ?s)"
    using Cons.prems assms by (auto simp: no_root_def tlbEntryWrite_tlb)
  then obtain es h j where "fill_tlb vmid tes ?s = (es, ?s\<lparr>mach := h, st_tlbindex := j\<rparr>)" "no_root h"
    "length es = length tes"
    using Cons.IH by blast
  then show ?case by (auto simp: upd_mach_def Let_def)
qed

lemma vm_entry_mono:
  assumes "vm_entry s i m v"
    and "\<And>p. vms s p \<noteq> None \<Longrightarrow> vms s' p = vms s p" and "\<And>p. vcpus s p \<noteq> None \<Longrightarrow> vcpus s' p = vcpus s p"
    and "VMCONF s' = VMCONF s"
    and "\<And>p n. nodes s p = Some n \<Longrightarrow> \<exists>n'. nodes s' p = Some n' \<and>
      elem n' = elem n"
  shows "vm_entry s' i m v"
proof -
  obtain vm vc nd where 1: "m \<noteq> NULL" "v \<noteq> NULL" "vms s m = Some vm" "vcpus s v = Some vc"
    "nodes s (vm_vcpus vm) = Some nd" "elem nd = v" and
    2: "vm_id vm = of_nat (i + 1)" "vmconf vm = i" "base_addr vm = ram_base (VMCONF s ! i)"
     "vm_vcpus vm \<noteq> NULL" "vcpu_id vc = of_nat (i + 1)" "gprshadowset vc = of_nat (i + 1)" "vcpu_vm vc = m"
     "msg_buf_ok (messages vc)"
    using assms(1) unfolding vm_entry_def by blast
  have "vms s' m = Some vm" "vcpus s' v = Some vc" using assms(2) [of m] assms(3) [of v] 1 by simp_all
  moreover obtain nd' where "nodes s' (vm_vcpus vm) = Some nd'" "elem nd' = v" using assms(5) 1(5,6) by blast
  ultimately show ?thesis using 1(1,2) 2 assms(4) unfolding vm_entry_def by auto
qed

lemma units_consts: "units_of SIZEOF_vm_t = 6" "units_of SIZEOF_vcpu_t = 179"
  by (simp_all add: units_of_def HDR_SZ_def)

lemma units_table:
  assumes "k \<le> 16"
  shows "unat (units_of (SIZEOF_tlbentry * of_nat k)) \<le> 73" and "units_of (SIZEOF_tlbentry * of_nat k) \<noteq> 0"
proof -
  have "k \<in> set [0..<17]" using assms by simp
  then show "unat (units_of (SIZEOF_tlbentry * of_nat k)) \<le> 73" "units_of (SIZEOF_tlbentry * of_nat k) \<noteq> 0"
    by (auto simp: units_of_def HDR_SZ_def upt_rec)
qed

definition CREATE_COST :: nat where "CREATE_COST = 264"

lemma create_vm_ok:
  assumes inv: "boot_inv s L r rs ms tab" and small: "length tab < 15"
    and k16: "length (cf_tlb (VMCONF s ! length tab)) \<le> 16" and room: "CREATE_COST < r"
  obtains m v s' L' r' t1 t2 where "create_vm (length tab) s = Some (m, s')"
    and "boot_inv s' L' r' (rs @ [t1]) (ms @ [t2]) (tab @ [(m, v)])" and "r - CREATE_COST \<le> r'"
    and "VMCONF s' = VMCONF s" and "last_scheduled s' = last_scheduled s"
    and "vcpu_executing_nd s' = vcpu_executing_nd s" and "next_vcpu s' = next_vcpu s"
    and "hypercall_table s' = hypercall_table s \<and>
      tick_count s' = tick_count s \<and> nvm_ctl s' = nvm_ctl s \<and>
      interrupt_mapping_sz s' = interrupt_mapping_sz s \<and> vmconf_p s' = vmconf_p s \<and>
      interrupt_handlers s' = interrupt_handlers s"
proof -
  let ?i = "length tab" and ?conf = "VMCONF s ! length tab"
  let ?id = "of_nat (length tab + 1) :: u32" and ?k = "of_nat (length (cf_tlb ?conf)) :: u32"
  have hi: "heap_inv L (heap s) r" and lv: "live s \<subseteq> L" and kd: "kdata s rs ms tab"
    and ids: "st_vm_id s = ?id" "st_vcpu_id s = ?id" and nr: "no_root (mach s)"
    using inv by (auto simp: boot_inv_def)
  have idu: "unat ?id = length tab + 1" using small by (intro unat_of_nat_small) simp
  then have id0: "?id \<noteq> 0" "unat ?id < 256" using small by auto
  obtain h1 m where m: "malloc (heap s) SIZEOF_vm_t = Some (h1, m)" "m \<noteq> NULL" "m \<notin> L"
    "heap_inv (insert m L) h1 (r - 6)"
    using malloc_fresh [OF hi, of SIZEOF_vm_t] room by (auto simp: units_consts CREATE_COST_def)
  let ?x = "unat (units_of (SIZEOF_tlbentry * ?k))"
  note ut = units_table [OF k16]
  obtain h2 tb where tb: "malloc h1 (SIZEOF_tlbentry * ?k) = Some (h2, tb)" "tb \<noteq> NULL" "tb \<notin> insert m L"
    "heap_inv (insert tb (insert m L)) h2 (r - 6 - ?x)"
  proof -
    have "?x < r - 6" using room ut(1) by (simp add: CREATE_COST_def)
    from malloc_fresh [OF m(4) this ut(2)] that show thesis by blast
  qed
  obtain es hm j where ft: "fill_tlb ?id (cf_tlb ?conf) (s\<lparr>st_vm_id := ?id + 1, heap := h2\<rparr>)
      = (es, s\<lparr>st_vm_id := ?id + 1, heap := h2, mach := hm, st_tlbindex := j\<rparr>)" "no_root hm"
    using fill_tlb_ok [OF id0, of "s\<lparr>st_vm_id := ?id + 1, heap := h2\<rparr>" "cf_tlb ?conf"] nr by auto
  obtain h3 v where v: "malloc h2 SIZEOF_vcpu_t = Some (h3, v)" "v \<noteq> NULL" "v \<notin> insert tb (insert m L)"
    "heap_inv (insert v (insert tb (insert m L))) h3 (r - 6 - ?x - 179)"
  proof -
    have "unat (units_of SIZEOF_vcpu_t) < r - 6 - ?x" "units_of SIZEOF_vcpu_t \<noteq> 0"
      using room ut(1) by (simp_all add: units_consts CREATE_COST_def)
    from malloc_fresh [OF tb(4) this] that show thesis by (auto simp: units_consts)
  qed
  define vm where "vm = \<lparr>vm_name = cf_vm_name ?conf, vm_id = ?id, base_addr = ram_base ?conf, vm_vcpus = NULL,
    os_type = cf_os_type ?conf, vm_init = 1, vmconf = ?i, ntlbent = ?k, tlbentries = tb\<rparr>"
  define ep where "ep = (if cf_os_type ?conf = BARE_METAL then BARE_METAL_ENTRY_POINT else 0)"
  define vc where "vc = zero_vcpu\<lparr>gprshadowset := ?id, vcpu_id := ?id, vcpu_init := 1, pc := ep, vcpu_vm := m\<rparr>"
  define s4 where "s4 = s\<lparr>heap := h3, st_vm_id := ?id + 1, mach := hm, st_tlbindex := j,
    tlbtabs := (tlbtabs s)(tb \<mapsto> es), vms := (vms s)(m \<mapsto> vm), vcpus := (vcpus s)(v \<mapsto> vc),
    st_vcpu_id := ?id + 1\<rparr>"
  define L4 where "L4 = insert v (insert tb (insert m L))"
  have n4: "dom (nodes s4) \<subseteq> L4" using lv by (auto simp: s4_def L4_def live_def)
  have h4: "heap_inv L4 (heap s4) (r - 6 - ?x - 179)" using v(4) by (simp add: s4_def L4_def)
  have kd': "chain (nodes s) (vcpu_ready_list s) rs" "elems (nodes s) rs = map snd tab"
    "chain (nodes s) (virtual_machines_list s) ms" "elems (nodes s) ms = map fst tab" "set rs \<inter> set ms = {}"
    "\<forall>i<length tab. vm_entry s i (fst (tab ! i)) (snd (tab ! i))"
    using kd by (auto simp: kdata_def)
  have r4: "2 < r - 6 - ?x - 179" using room ut by (simp add: CREATE_COST_def)
  have ch1: "chain (nodes s4) (vcpu_ready_list s) rs" using kd'(1) by (simp add: s4_def)
  obtain h5 t1 nd1 where l1: "list_append (vcpu_ready_list s) v s4
      = Some (0, hd (rs @ [t1]), s4\<lparr>heap := h5, nodes := nd1\<rparr>)"
    "t1 \<notin> L4" "t1 \<noteq> NULL" "chain nd1 (hd (rs @ [t1])) (rs @ [t1])"
    "elems nd1 (rs @ [t1]) = elems (nodes s4) rs @ [v]" "dom nd1 = insert t1 (dom (nodes s4))"
    "\<And>a. a \<notin> set rs \<Longrightarrow> a \<noteq> t1 \<Longrightarrow> nd1 a = nodes s4 a"
    "\<And>a. a \<in> dom (nodes s4) \<Longrightarrow> elem (the (nd1 a)) = elem (the (nodes s4 a))"
    "heap_inv (insert t1 L4) h5 (r - 6 - ?x - 179 - 2)"
    by (rule list_append_chain [OF h4 n4 r4 ch1, of v]) (rule that; assumption)
  define s5 where "s5 = s4\<lparr>heap := h5, nodes := nd1, vcpu_ready_list := hd (rs @ [t1])\<rparr>"
  have mL: "set ms \<subseteq> L" using chain_dom [OF kd'(3)] lv by (auto simp: live_def)
  have eq1: "nodes s a = nd1 a" if "a \<in> set ms" for a
  proof -
    have "a \<notin> set rs" "a \<noteq> t1" using that kd'(5) mL l1(2) by (auto simp: L4_def)
    then show ?thesis using l1(7) [of a] by (simp add: s4_def)
  qed
  have ch2: "chain (nodes s5) (virtual_machines_list s) ms"
    using kd'(3) chain_cong [of ms "nodes s" nd1 "virtual_machines_list s"] eq1 by (auto simp: s5_def)
  have n5: "dom (nodes s5) \<subseteq> insert t1 L4" using l1(6) n4 by (auto simp: s5_def)
  have h5': "heap_inv (insert t1 L4) (heap s5) (r - 6 - ?x - 179 - 2)" using l1(9) by (simp add: s5_def)
  have r5: "2 < r - 6 - ?x - 179 - 2" using room ut by (simp add: CREATE_COST_def)
  obtain h6 t2 nd2 where l2: "list_append (virtual_machines_list s) m s5
      = Some (0, hd (ms @ [t2]), s5\<lparr>heap := h6, nodes := nd2\<rparr>)"
    "t2 \<notin> insert t1 L4" "t2 \<noteq> NULL" "chain nd2 (hd (ms @ [t2])) (ms @ [t2])"
    "elems nd2 (ms @ [t2]) = elems (nodes s5) ms @ [m]" "dom nd2 = insert t2 (dom (nodes s5))"
    "\<And>a. a \<notin> set ms \<Longrightarrow> a \<noteq> t2 \<Longrightarrow> nd2 a = nodes s5 a"
    "\<And>a. a \<in> dom (nodes s5) \<Longrightarrow> elem (the (nd2 a)) = elem (the (nodes s5 a))"
    "heap_inv (insert t2 (insert t1 L4)) h6 (r - 6 - ?x - 179 - 2 - 2)"
    by (rule list_append_chain [OF h5' n5 r5 ch2, of m]) (rule that; assumption)
  define s6 where "s6 = s5\<lparr>heap := h6, nodes := nd2, virtual_machines_list := hd (ms @ [t2])\<rparr>"
  have n6: "dom (nodes s6) \<subseteq> insert t2 (insert t1 L4)" using l2(6) n5 by (auto simp: s6_def)
  have h6': "heap_inv (insert t2 (insert t1 L4)) (heap s6) (r - 6 - ?x - 179 - 2 - 2)"
    using l2(9) by (simp add: s6_def)
  have r6: "2 < r - 6 - ?x - 179 - 2 - 2" using room ut by (simp add: CREATE_COST_def)
  have ch3: "chain (nodes s6) NULL []" by simp
  obtain h7 t3 nd3 where l3': "list_append NULL v s6 = Some (0, hd ([] @ [t3]), s6\<lparr>heap := h7, nodes := nd3\<rparr>)"
    "t3 \<notin> insert t2 (insert t1 L4)" "t3 \<noteq> NULL" "elems nd3 ([] @ [t3]) = elems (nodes s6) [] @ [v]"
    "dom nd3 = insert t3 (dom (nodes s6))" "\<And>a. a \<notin> set [] \<Longrightarrow> a \<noteq> t3 \<Longrightarrow> nd3 a = nodes s6 a"
    "heap_inv (insert t3 (insert t2 (insert t1 L4))) h7 (r - 6 - ?x - 179 - 2 - 2 - 2)"
    by (rule list_append_chain [OF h6' n6 r6 ch3, of v]) (rule that; assumption)
  have l3: "list_append NULL v s6 = Some (0, t3, s6\<lparr>heap := h7, nodes := nd3\<rparr>)"
    "t3 \<notin> insert t2 (insert t1 L4)" "t3 \<noteq> NULL" "elems nd3 [t3] = [v]" "dom nd3 = insert t3 (dom (nodes s6))"
    "\<And>a. a \<noteq> t3 \<Longrightarrow> nd3 a = nodes s6 a"
    "heap_inv (insert t3 (insert t2 (insert t1 L4))) h7 (r - 6 - ?x - 179 - 2 - 2 - 2)"
    using l3' by (simp_all add: elems_def)
  define s7 where "s7 = s6\<lparr>heap := h7, nodes := nd3, vms := (vms s6)(m \<mapsto> vm\<lparr>vm_vcpus := t3\<rparr>)\<rparr>"
  have "create_vm ?i s = Some (m, s7)"
  proof -
    have cv: "create_vcpu m ep (s\<lparr>st_vm_id := ?id + 1, heap := h2, mach := hm, st_tlbindex := j,
        tlbtabs := (tlbtabs s)(tb \<mapsto> es), vms := (vms s)(m \<mapsto> vm)\<rparr>) = Some (v, s4)"
      using v(1,2) ids by (simp add: create_vcpu_def k_malloc_def s4_def vc_def Let_def)
    have "vcpu_ready_list s4 = vcpu_ready_list s" "virtual_machines_list s4 = virtual_machines_list s"
      "vms s4 m = Some vm" "vm_vcpus vm = NULL" by (simp_all add: s4_def vm_def)
    then show ?thesis
      using m(1,2) tb(1,2) ids ft(1) cv [unfolded vm_def] l1(1) l2(1) l3(1)
      by (simp add: create_vm_def k_malloc_def Let_def ep_def [symmetric] s5_def s6_def s7_def)
  qed
  moreover have "boot_inv s7 (insert t3 (insert t2 (insert t1 L4))) (r - 6 - ?x - 179 - 2 - 2 - 2)
      (rs @ [t1]) (ms @ [t2]) (tab @ [(m, v)])"
  proof -
    have rL: "set rs \<subseteq> L" using chain_dom [OF kd'(1)] lv by (auto simp: live_def)
    have LL: "L \<subseteq> L4" by (auto simp: L4_def)
    have old: "a \<in> L4 \<Longrightarrow> a \<noteq> t1 \<and> a \<noteq> t2 \<and>
      a \<noteq> t3" for a using l1(2) l2(2) l3(2) by auto
    have tt: "t1 \<noteq> t2" "t1 \<noteq> t3" "t2 \<noteq> t3" using l2(2) l3(2) by auto
    have e3: "nd3 a = nd1 a" if "a \<notin> set ms" "a \<noteq> t2" "a \<noteq> t3" for a
      using l3(6) [of a] l2(7) [of a] that by (simp add: s6_def s5_def)
    have rsm: "a \<in> set (rs @ [t1]) \<Longrightarrow> nd3 a = nd1 a" for a
      using e3 [of a] kd'(5) rL LL mL old [of a] tt old [of t1] l1(2) by auto
    have msm: "a \<in> set (ms @ [t2]) \<Longrightarrow> nd3 a = nd2 a" for a
      using l3(6) [of a] mL LL old [of a] tt by (auto simp: s6_def)
    have c1: "chain nd3 (hd (rs @ [t1])) (rs @ [t1])" using l1(4) chain_cong [of "rs @ [t1]" nd3 nd1] rsm by blast
    have c2: "chain nd3 (hd (ms @ [t2])) (ms @ [t2])" using l2(4) chain_cong [of "ms @ [t2]" nd3 nd2] msm by blast
    have n4': "nodes s4 = nodes s" by (simp add: s4_def)
    have el1: "elems nd3 (rs @ [t1]) = map snd tab @ [v]"
    proof -
      have "elems nd3 (rs @ [t1]) = elems nd1 (rs @ [t1])" using rsm by (rule elems_cong)
      then show ?thesis using l1(5) kd'(2) by (simp add: n4')
    qed
    have el2: "elems nd3 (ms @ [t2]) = map fst tab @ [m]"
    proof -
      have "elems (nodes s5) ms = elems (nodes s) ms"
        using eq1 by (intro elems_cong) (simp add: s5_def)
      moreover have "elems nd3 (ms @ [t2]) = elems nd2 (ms @ [t2])" using msm by (rule elems_cong)
      ultimately show ?thesis using l2(5) kd'(4) by simp
    qed
    have dj: "set (rs @ [t1]) \<inter> set (ms @ [t2]) = {}"     proof -
      have "t2 \<notin> set rs" "t1 \<notin> set ms" using rL mL LL old by blast+
      then show ?thesis using kd'(5) tt by auto
    qed
    have el: "\<exists>n'. nd3 p = Some n' \<and> elem n' = elem n" if n: "nodes s p = Some n" for p n
    proof -
      have p: "p \<in> dom (nodes s4)" "p \<in> dom (nodes s5)" using n l1(6) by (auto simp: n4' s5_def)
      have pL: "p \<in> L4" using n4 p(1) by auto
      have "p \<in> dom nd2" using p(2) l2(6) by auto
      then obtain n' where n': "nd2 p = Some n'" by auto
      have "elem (the (nd2 p)) = elem (the (nodes s p))" using l1(8) [OF p(1)] l2(8) [OF p(2)] by (simp add: s5_def n4')
      then show ?thesis using n n' l3(6) [of p] old [OF pL] by (simp add: s6_def)
    qed
    have ve: "vm_entry s7 i (fst (tab ! i)) (snd (tab ! i))" if "i < length tab" for i
    proof -
      have "vm_entry s i (fst (tab ! i)) (snd (tab ! i))" using kd'(6) that by blast
      then show ?thesis
      proof (rule vm_entry_mono)
        show "vms s p \<noteq> None \<Longrightarrow> vms s7 p = vms s p" for p
          using m(3) lv by (auto simp: s7_def s6_def s5_def s4_def live_def)
        show "vcpus s p \<noteq> None \<Longrightarrow> vcpus s7 p = vcpus s p" for p
          using v(3) lv by (auto simp: s7_def s6_def s5_def s4_def live_def)
      qed (use el in \<open>auto simp: s7_def s6_def s5_def s4_def\<close>)
    qed
    have vn: "vm_entry s7 ?i m v"
    proof -
      have "t3 \<in> dom nd3" using l3(5) by simp
      then obtain nd where "nd3 t3 = Some nd" "elem nd = v" using l3(4) by (auto simp: elems_def)
      then show ?thesis
        using m(2) v(2) l3(3) zero_message_buffer_ok
        by (simp add: vm_entry_def s7_def s6_def s5_def s4_def vm_def vc_def zero_vcpu_def)
    qed
    have "kdata s7 (rs @ [t1]) (ms @ [t2]) (tab @ [(m, v)])"
      using c1 c2 el1 el2 dj ve vn
      by (auto simp: kdata_def nth_append less_Suc_eq s7_def s6_def s5_def)
    moreover have "live s7 \<subseteq> insert t3 (insert t2 (insert t1 L4))"
      using lv l3(5) n6 by (auto simp: live_def s7_def s6_def s5_def s4_def L4_def)
    ultimately show ?thesis
      using l3(7) ids ft(2) by (simp add: boot_inv_def s7_def s6_def s5_def s4_def)
  qed
  moreover have "r - CREATE_COST \<le> r - 6 - ?x - 179 - 2 - 2 - 2" using ut by (simp add: CREATE_COST_def)
  moreover have "VMCONF s7 = VMCONF s" "last_scheduled s7 = last_scheduled s"
    "vcpu_executing_nd s7 = vcpu_executing_nd s" "next_vcpu s7 = next_vcpu s"
    "hypercall_table s7 = hypercall_table s \<and> tick_count s7 = tick_count s \<and>
      nvm_ctl s7 = nvm_ctl s \<and> interrupt_mapping_sz s7 = interrupt_mapping_sz s \<and>
      vmconf_p s7 = vmconf_p s \<and> interrupt_handlers s7 = interrupt_handlers s"
    by (simp_all add: s7_def s6_def s5_def s4_def)
  ultimately show thesis by (rule that)
qed

subsection \<open>Start-up\<close>

lemma create_vms_ok:
  "boot_inv s L r rs ms tab \<Longrightarrow> length tab + n \<le> 15 \<Longrightarrow> length tab + n = length (VMCONF s) \<Longrightarrow>
   (\<forall>c\<in>set (VMCONF s). length (cf_tlb c) \<le> 16) \<Longrightarrow> CREATE_COST * n < r \<Longrightarrow>
   \<exists>s' L' r' rs' ms' tab'. create_vms [length tab..<length tab + n] s = Some s' \<and>
     boot_inv s' L' r' rs' ms' tab' \<and> length tab' = length tab + n \<and>
      r - CREATE_COST * n \<le> r' \<and>
     VMCONF s' = VMCONF s \<and> last_scheduled s' = last_scheduled s \<and>
     vcpu_executing_nd s' = vcpu_executing_nd s \<and> next_vcpu s' = next_vcpu s \<and>
     hypercall_table s' = hypercall_table s \<and> tick_count s' = tick_count s \<and>
      nvm_ctl s' = nvm_ctl s \<and> interrupt_mapping_sz s' = interrupt_mapping_sz s \<and>
      vmconf_p s' = vmconf_p s \<and> interrupt_handlers s' = interrupt_handlers s"
proof (induction n arbitrary: s L r rs ms tab)
  case 0
  then have "boot_inv s L r rs ms tab \<and> length tab = length (VMCONF s) \<and> r \<le> r" by simp
  then show ?case using 0 by (simp, blast)
next
  case (Suc n)
  have k16: "length (cf_tlb (VMCONF s ! length tab)) \<le> 16"
    using Suc.prems(3,4) by (auto simp: all_set_conv_all_nth)
  obtain m v s1 L1 r1 t1 t2 where c: "create_vm (length tab) s = Some (m, s1)"
    "boot_inv s1 L1 r1 (rs @ [t1]) (ms @ [t2]) (tab @ [(m, v)])" "r - CREATE_COST \<le> r1"
    "VMCONF s1 = VMCONF s" "last_scheduled s1 = last_scheduled s"
    "vcpu_executing_nd s1 = vcpu_executing_nd s" "next_vcpu s1 = next_vcpu s"
    "hypercall_table s1 = hypercall_table s \<and>
      tick_count s1 = tick_count s \<and> nvm_ctl s1 = nvm_ctl s \<and>
      interrupt_mapping_sz s1 = interrupt_mapping_sz s \<and> vmconf_p s1 = vmconf_p s \<and>
      interrupt_handlers s1 = interrupt_handlers s"
    by (rule create_vm_ok [OF Suc.prems(1) _ k16]) (use Suc.prems in \<open>auto simp: CREATE_COST_def\<close>)
  have "CREATE_COST * n < r1" using Suc.prems(5) c(3) by (simp add: CREATE_COST_def)
  then obtain s' L' r' rs' ms' tab' where
    "create_vms [length (tab @ [(m, v)])..<length (tab @ [(m, v)]) + n] s1 = Some s'"
    "boot_inv s' L' r' rs' ms' tab'" "length tab' = length (tab @ [(m, v)]) + n" "r1 - CREATE_COST * n \<le> r'"
    "VMCONF s' = VMCONF s1" "last_scheduled s' = last_scheduled s1"
    "vcpu_executing_nd s' = vcpu_executing_nd s1" "next_vcpu s' = next_vcpu s1"
    "hypercall_table s' = hypercall_table s1 \<and> tick_count s' = tick_count s1 \<and>
      nvm_ctl s' = nvm_ctl s1 \<and> interrupt_mapping_sz s' = interrupt_mapping_sz s1 \<and>
      vmconf_p s' = vmconf_p s1 \<and> interrupt_handlers s' = interrupt_handlers s1"
    using Suc.IH [OF c(2)] Suc.prems c(4) by auto
  moreover have "[length tab..<length tab + Suc n] = length tab # [length (tab @ [(m, v)])..<length (tab @ [(m, v)]) + n]"
    by (simp add: upt_conv_Cons del: upt_Suc)
  moreover from calculation(4) c(3) have "r - CREATE_COST * Suc n \<le> r'" by simp
  ultimately show ?case using c by (simp del: upt_Suc mult_Suc_right) blast
qed

text \<open>The state before \<open>initializeMachines\<close>: a fresh heap, nothing allocated, no TLB entry of the hypervisor.\<close>

definition fresh_kst :: "kst \<Rightarrow> nat \<Rightarrow> bool" where
  "fresh_kst s r \<longleftrightarrow> heap_inv {} (heap s) r \<and> live s = {} \<and> no_root (mach s) \<and>
     st_vm_id s = 1 \<and> st_vcpu_id s = 1 \<and> last_scheduled s = NULL \<and>
      vcpu_executing_nd s = NULL \<and> next_vcpu s = NULL"

lemma initializeMachines_ok:
  assumes "fresh_kst s r" and "length (VMCONF s) \<le> 15" and "\<forall>c\<in>set (VMCONF s). length (cf_tlb c) \<le> 16"
    and "CREATE_COST * length (VMCONF s) < r"
  shows "\<exists>s' L' r' rs ms tab. initializeMachines s = Some s' \<and> boot_inv s' L' r' rs ms tab \<and>
    length tab = length (VMCONF s) \<and> r - CREATE_COST * length (VMCONF s) \<le> r' \<and>
      VMCONF s' = VMCONF s \<and>
    last_scheduled s' = NULL \<and> vcpu_executing_nd s' = NULL \<and> next_vcpu s' = NULL \<and>
    hypercall_table s' = hypercall_table s \<and> tick_count s' = tick_count s \<and>
      nvm_ctl s' = nvm_ctl s \<and> interrupt_mapping_sz s' = interrupt_mapping_sz s \<and>
      vmconf_p s' = vmconf_p s \<and> interrupt_handlers s' = interrupt_handlers s"
proof -
  let ?s = "s\<lparr>vcpu_ready_list := NULL, virtual_machines_list := NULL\<rparr>"
  have "boot_inv ?s {} r [] [] []"
    using assms(1) by (simp add: boot_inv_def kdata_def fresh_kst_def live_def elems_def)
  from create_vms_ok [OF this, of "length (VMCONF s)"] assms
  show ?thesis by (auto simp: initializeMachines_def fresh_kst_def)
qed

end
