(* ===== verification/MsgQueue.thy ===== *)
theory MsgQueue
  imports KInv
begin

text \<open>
  The message queue of a VCPU (\<open>message_buffer_t\<close> of \<^verbatim>\<open>vcpu.h\<close>): the ring buffer operations that
  \<open>intervm_send_msg\<close> and \<open>intervm_recv_msg\<close> of \<^verbatim>\<open>drivers/inter-vm-comm.c\<close> perform in place. An index
  outside the array is \<open>None\<close>. The ring is a first-in first-out queue of capacity \<open>MESSAGELIST_SZ\<close>:
  locale \<open>fifo\<close> states that contract and what follows from it for any interleaving of sends and
  receives, and the ring is an instance of it.
\<close>

text \<open>\<open>memcpy\<close> into the slot, its size and its source, and the new input position.\<close>

definition msg_put :: "u32 \<Rightarrow> u32 \<Rightarrow> u8 list \<Rightarrow> message_buffer_t \<Rightarrow> message_buffer_t option" where
  "msg_put src sz bs b =
     (let i = unat (msg_in b)
      in if i < length (message_list b) \<and> length bs \<le> length (message (message_list b ! i)) then
           (let m = message_list b ! i;
                m = m\<lparr>message := list_splice 0 bs (message m)\<rparr>;
                m = m\<lparr>msg_size := sz\<rparr>;
                m = m\<lparr>source_id := src\<rparr>;
                b = b\<lparr>message_list := (message_list b)[i := m]\<rparr>;
                b = b\<lparr>num_messages := num_messages b + 1\<rparr>
            in Some (b\<lparr>msg_in := (msg_in b + 1) mod MESSAGELIST_SZ\<rparr>))
         else None)"

text \<open>The message at the output position: its source and the bytes \<open>memcpy\<close> takes from the slot.\<close>

definition msg_peek :: "message_buffer_t \<Rightarrow> (u32 \<times> u8 list) option" where
  "msg_peek b =
     (let i = unat (msg_out b)
      in if i < length (message_list b) \<and>
            unat (msg_size (message_list b ! i)) \<le> length (message (message_list b ! i)) then
           Some (source_id (message_list b ! i),
                 take (unat (msg_size (message_list b ! i))) (message (message_list b ! i)))
         else None)"

definition msg_drop :: "message_buffer_t \<Rightarrow> message_buffer_t" where
  "msg_drop b = b\<lparr>num_messages := num_messages b - 1, msg_out := (msg_out b + 1) mod MESSAGELIST_SZ\<rparr>"

subsection \<open>The contract of a bounded queue\<close>

datatype 'm queue_op = Put 'm | Get

locale fifo =
  fixes enq :: "'m \<Rightarrow> 'q \<Rightarrow> 'q option"
    and deq :: "'q \<Rightarrow> ('m \<times> 'q) option"
    and contents :: "'q \<Rightarrow> 'm list"
    and ok :: "'q \<Rightarrow> bool"
    and fits :: "'m \<Rightarrow> bool"
    and cap :: nat
  assumes enq_ok: "ok q \<Longrightarrow> fits m \<Longrightarrow> length (contents q) < cap \<Longrightarrow>
      \<exists>q'. enq m q = Some q' \<and> ok q' \<and> contents q' = contents q @ [m]"
    and deq_ok: "ok q \<Longrightarrow> contents q \<noteq> [] \<Longrightarrow>
      \<exists>q'. deq q = Some (hd (contents q), q') \<and> ok q' \<and> contents q' = tl (contents q)"
begin

text \<open>A history of sends and receives; a send to a full queue and a receive from an empty one change
  nothing. The result: what was accepted, what was received, the queue.\<close>

primrec run_queue :: "'m queue_op list \<Rightarrow> 'q \<Rightarrow> ('m list \<times> 'm list \<times> 'q) option" where
  "run_queue [] q = Some ([], [], q)"
| "run_queue (x # xs) q = (case x of
     Put m \<Rightarrow> if length (contents q) < cap then do {
         q \<leftarrow> enq m q; (acc, rcv, q) \<leftarrow> run_queue xs q; Some (m # acc, rcv, q) }
       else run_queue xs q
   | Get \<Rightarrow> if contents q \<noteq> [] then do {
         (m, q) \<leftarrow> deq q; (acc, rcv, q) \<leftarrow> run_queue xs q; Some (acc, m # rcv, q) }
       else run_queue xs q)"

lemma run_queue_fifo:
  "ok q \<Longrightarrow> (\<forall>m. Put m \<in> set xs \<longrightarrow> fits m) \<Longrightarrow>
   \<exists>acc rcv q'. run_queue xs q = Some (acc, rcv, q') \<and> ok q' \<and> contents q @ acc = rcv @ contents q'"
proof (induction xs arbitrary: q)
  case (Cons x xs)
  show ?case
  proof (cases x)
    case (Put m)
    show ?thesis
    proof (cases "length (contents q) < cap")
      case True
      obtain q1 where q1: "enq m q = Some q1" "ok q1" "contents q1 = contents q @ [m]"
        using enq_ok [OF Cons.prems(1) _ True] Cons.prems(2) Put by auto
      obtain acc rcv q' where "run_queue xs q1 = Some (acc, rcv, q')" "ok q'" "contents q1 @ acc = rcv @ contents q'"
        using Cons.IH [OF q1(2)] Cons.prems(2) by auto
      then show ?thesis using q1 True Put by simp
    next
      case False
      then show ?thesis using Cons.IH [OF Cons.prems(1)] Cons.prems(2) Put by simp
    qed
  next
    case Get
    show ?thesis
    proof (cases "contents q = []")
      case False
      obtain q1 where q1: "deq q = Some (hd (contents q), q1)" "ok q1" "contents q1 = tl (contents q)"
        using deq_ok [OF Cons.prems(1) False] by blast
      obtain acc rcv q' where "run_queue xs q1 = Some (acc, rcv, q')" "ok q'" "contents q1 @ acc = rcv @ contents q'"
        using Cons.IH [OF q1(2)] Cons.prems(2) by auto
      then show ?thesis using q1 False Get by (cases "contents q") auto
    next
      case True
      then show ?thesis using Cons.IH [OF Cons.prems(1)] Cons.prems(2) Get by simp
    qed
  qed
qed simp

end

subsection \<open>The ring is such a queue\<close>

definition slot :: "message_t \<Rightarrow> u32 \<times> u8 list" where
  "slot m = (source_id m, take (unat (msg_size m)) (message m))"

definition msg_contents :: "message_buffer_t \<Rightarrow> (u32 \<times> u8 list) list" where
  "msg_contents b = map (\<lambda>k. slot (message_list b ! ((unat (msg_out b) + k) mod 5))) [0..<unat (num_messages b)]"

definition ring_enq :: "u32 \<times> u8 list \<Rightarrow> message_buffer_t \<Rightarrow> message_buffer_t option" where
  "ring_enq m b = msg_put (fst m) (of_nat (length (snd m))) (snd m) b"

definition ring_deq :: "message_buffer_t \<Rightarrow> ((u32 \<times> u8 list) \<times> message_buffer_t) option" where
  "ring_deq b = do { m \<leftarrow> msg_peek b; Some (m, msg_drop b) }"

definition ring_fits :: "u32 \<times> u8 list \<Rightarrow> bool" where
  "ring_fits m \<longleftrightarrow> length (snd m) \<le> 255"

lemma unat_mod5: "unat (a mod MESSAGELIST_SZ) = unat a mod 5"
  by (simp add: MESSAGELIST_SZ_def unat_mod)

lemma msg_buf_ok_nat:
  "msg_buf_ok b \<longleftrightarrow> unat (msg_in b) < 5 \<and> unat (msg_out b) < 5 \<and> unat (num_messages b) \<le> 5 \<and>
     length (message_list b) = 5 \<and> unat (msg_in b) = (unat (msg_out b) + unat (num_messages b)) mod 5 \<and>
     (\<forall>m\<in>set (message_list b). length (message m) = 255 \<and> unat (msg_size m) \<le> 255)"
proof -
  have "msg_in b = (msg_out b + num_messages b) mod MESSAGELIST_SZ \<longleftrightarrow>
      unat (msg_in b) = (unat (msg_out b) + unat (num_messages b)) mod 5"
    if "unat (msg_out b) < 5" "unat (num_messages b) \<le> 5"
  proof -
    have "unat (msg_out b + num_messages b) = unat (msg_out b) + unat (num_messages b)"
      using that by (intro unat_add_small) simp
    then show ?thesis by (simp only: word_unat_eq_iff unat_mod5)
  qed
  then show ?thesis
    unfolding msg_buf_ok_def
    by (auto simp: MESSAGELIST_SZ_def MESSAGE_SZ_def word_less_nat_alt word_le_nat_alt)
qed

lemma length_msg_contents [simp]: "length (msg_contents b) = unat (num_messages b)"
  by (simp add: msg_contents_def)

lemma ring_indices: "k < n \<Longrightarrow> n < 5 \<Longrightarrow> (p + k) mod 5 \<noteq> (p + n) mod (5 :: nat)"
  using mod_eq_dvd_iff_nat [of "p + k" "p + n" 5] by (auto dest: dvd_imp_le)

lemma ring_put_ok:
  assumes ok: "msg_buf_ok b" and len: "length bs \<le> 255" and room: "unat (num_messages b) < 5"
  shows "\<exists>b'. msg_put src (of_nat (length bs)) bs b = Some b' \<and> msg_buf_ok b' \<and>
    msg_contents b' = msg_contents b @ [(src, bs)]"
proof -
  let ?i = "unat (msg_in b)" and ?p = "unat (msg_out b)" and ?n = "unat (num_messages b)"
  have b: "?i < 5" "?p < 5" "length (message_list b) = 5" "?i = (?p + ?n) mod 5"
    "\<forall>m\<in>set (message_list b). length (message m) = 255 \<and> unat (msg_size m) \<le> 255"
    using ok by (auto simp: msg_buf_ok_nat)
  let ?m = "(message_list b ! ?i)\<lparr>message := list_splice 0 bs (message (message_list b ! ?i)),
     msg_size := of_nat (length bs), source_id := src\<rparr>"
  let ?b = "b\<lparr>message_list := (message_list b)[?i := ?m], num_messages := num_messages b + 1,
     msg_in := (msg_in b + 1) mod MESSAGELIST_SZ\<rparr>"
  have l255: "length (message (message_list b ! ?i)) = 255" using b by (simp add: nth_mem)
  have sz: "unat (of_nat (length bs) :: u32) = length bs" using len by (intro unat_of_nat_small) simp
  have n1: "unat (num_messages b + 1) = ?n + 1" using room by (subst unat_add_small) simp_all
  have i1: "unat ((msg_in b + 1) mod MESSAGELIST_SZ) = (?i + 1) mod 5"
  proof -
    have "unat (msg_in b + 1) = ?i + 1" using b(1) by (subst unat_add_small) simp_all
    then show ?thesis by (simp only: unat_mod5)
  qed
  have put: "msg_put src (of_nat (length bs)) bs b = Some ?b"
    using b(1,3) l255 len by (simp add: msg_put_def Let_def)
  have "slot ?m = (src, bs)" using sz list_splice_take [of bs] by (simp add: slot_def)
  moreover have "(message_list b)[?i := ?m] ! ((?p + k) mod 5) = message_list b ! ((?p + k) mod 5)"
    if "k < ?n" for k
  proof -
    have "?i \<noteq> (?p + k) mod 5" using ring_indices [OF that room, of ?p] b(4) by simp
    then show ?thesis by simp
  qed
  ultimately have "msg_contents ?b = msg_contents b @ [(src, bs)]"
    using n1 b(1,3,4) by (simp add: msg_contents_def)
  moreover have "msg_buf_ok ?b"
  proof -
    have "(?i + 1) mod 5 = (?p + (?n + 1)) mod 5" unfolding b(4) by (simp add: mod_add_left_eq mod_Suc_eq)
    moreover have "length (message ?m) = 255" using l255 len by (simp add: length_list_splice)
    ultimately show ?thesis
      unfolding msg_buf_ok_nat
      using b room sz len n1 i1 set_update_subset_insert [of "message_list b" ?i ?m] by auto
  qed
  ultimately show ?thesis using put by blast
qed

lemma ring_get_ok:
  assumes ok: "msg_buf_ok b" and ne: "num_messages b \<noteq> 0"
  shows "msg_peek b = Some (hd (msg_contents b)) \<and> msg_buf_ok (msg_drop b) \<and>
    msg_contents (msg_drop b) = tl (msg_contents b)"
proof -
  let ?p = "unat (msg_out b)" and ?n = "unat (num_messages b)"
  have b: "?p < 5" "length (message_list b) = 5" "unat (msg_in b) = (?p + ?n) mod 5" "unat (msg_in b) < 5"
    "?n \<le> 5" "\<forall>m\<in>set (message_list b). length (message m) = 255 \<and> unat (msg_size m) \<le> 255"
    using ok by (auto simp: msg_buf_ok_nat)
  obtain j where j: "?n = Suc j" using ne by (metis not0_implies_Suc unat_eq_zero)
  have n1: "unat (num_messages b - 1) = j" using j by (rule unat_pred)
  have p1: "unat ((msg_out b + 1) mod MESSAGELIST_SZ) = (?p + 1) mod 5"
  proof -
    have "unat (msg_out b + 1) = ?p + 1" using b(1) by (subst unat_add_small) simp_all
    then show ?thesis by (simp only: unat_mod5)
  qed
  have c: "msg_contents b = slot (message_list b ! ?p) # map (\<lambda>k. slot (message_list b ! ((?p + Suc k) mod 5))) [0..<j]"
    using b(1) by (simp add: msg_contents_def j upt_conv_Cons map_Suc_upt [symmetric] del: upt_Suc)
  have "message_list b ! ?p \<in> set (message_list b)" using b(1,2) by simp
  then have "msg_peek b = Some (slot (message_list b ! ?p))"
    using b by (simp add: msg_peek_def slot_def Let_def)
  moreover have "msg_contents (msg_drop b) = map (\<lambda>k. slot (message_list b ! ((?p + Suc k) mod 5))) [0..<j]"
    using p1 n1 by (simp add: msg_contents_def msg_drop_def mod_add_left_eq)
  moreover have "msg_buf_ok (msg_drop b)"
  proof -
    have "(?p + ?n) mod 5 = ((?p + 1) mod 5 + j) mod 5" unfolding j by (simp add: mod_add_left_eq)
    then show ?thesis using b p1 n1 j unfolding msg_buf_ok_nat by (simp add: msg_drop_def)
  qed
  ultimately show ?thesis using c by simp
qed

interpretation ring: fifo ring_enq ring_deq msg_contents msg_buf_ok ring_fits "unat MESSAGELIST_SZ"
proof
  fix q m assume "msg_buf_ok q" "ring_fits m" "length (msg_contents q) < unat MESSAGELIST_SZ"
  then show "\<exists>q'. ring_enq m q = Some q' \<and> msg_buf_ok q' \<and> msg_contents q' = msg_contents q @ [m]"
    using ring_put_ok [of q "snd m" "fst m"] by (simp add: ring_enq_def ring_fits_def MESSAGELIST_SZ_def)
next
  fix q assume "msg_buf_ok q" "msg_contents q \<noteq> []"
  moreover from this(2) have "num_messages q \<noteq> 0" by (auto simp: msg_contents_def)
  ultimately show "\<exists>q'. ring_deq q = Some (hd (msg_contents q), q') \<and> msg_buf_ok q' \<and> msg_contents q' = tl (msg_contents q)"
    using ring_get_ok [of q] by (simp add: ring_deq_def)
qed

end
