(* ===== verification/Registry.thy ===== *)
theory Registry
  imports MsgQueue
begin

text \<open>
  The two registries that drivers fill at start-up: the hypercall table (\<open>register_hypercall\<close> of
  \<^verbatim>\<open>sys/kernel/hypercall.c\<close>) and the table of interrupt handlers (\<open>register_interrupt\<close> of
  \<^verbatim>\<open>arch/mips/pic32mz/interrupts.c\<close>), and the configuration of the interrupt controller.
\<close>

definition HCALL_TABLE_SIZE :: u32 where "HCALL_TABLE_SIZE = 30"

abbreviation (input) "HCALL_CODE_INVALID \<equiv> - 1 :: u32"
abbreviation (input) "HCALL_CODE_USED \<equiv> - 2 :: u32"
abbreviation (input) "HCALL_NOT_IMPLEMENTED \<equiv> - 3 :: u32"
abbreviation (input) "HCALL_ADDRESS_NOT_ALLOWED \<equiv> - 4 :: u32"

abbreviation (input) "HCALL_GET_VM_ID \<equiv> 0 :: u32"
abbreviation (input) "HCALL_IPC_RECV_MSG \<equiv> 1 :: u32"
abbreviation (input) "HCALL_IPC_SEND_MSG \<equiv> 2 :: u32"
abbreviation (input) "HCALL_GUEST_UP \<equiv> 3 :: u32"
abbreviation (input) "HCALL_WRITE_ADDRESS \<equiv> 11 :: u32"
abbreviation (input) "HCALL_READ_ADDRESS \<equiv> 12 :: u32"
abbreviation (input) "HCALL_REENABLE_INTERRUPT \<equiv> 13 :: u32"
abbreviation (input) "HCALL_FLASH_READ \<equiv> 14 :: u32"
abbreviation (input) "HCALL_FLASH_WRITE \<equiv> 15 :: u32"
abbreviation (input) "HCALL_UPDATE_VM_ID \<equiv> 16 :: u32"
abbreviation (input) "HCALL_UPDATE_GET_ALLOWED \<equiv> 17 :: u32"
abbreviation (input) "HCALL_GET_OWNED_LIST \<equiv> 18 :: u32"

definition register_hypercall :: "hcall \<Rightarrow> u32 \<Rightarrow> kst \<Rightarrow> u32 \<times> kst" where
  "register_hypercall hyper code s =
     (if HCALL_TABLE_SIZE - 1 < code then (HCALL_CODE_INVALID, s)
      else if hypercall_table s ! unat code \<noteq> None then (HCALL_CODE_USED, s)
      else (code, s\<lparr>hypercall_table := (hypercall_table s)[unat code := Some hyper]\<rparr>))"

definition MAX_NUM_INTERRUPTS :: nat where "MAX_NUM_INTERRUPTS = 10"
definition VECTOR_1_OFFSET :: u32 where "VECTOR_1_OFFSET = 0x220"

function register_interrupt_loop :: "nat \<Rightarrow> handler \<Rightarrow> kst \<Rightarrow> u32 \<times> kst" where
  "register_interrupt_loop i handler s =
     (if MAX_NUM_INTERRUPTS \<le> i then (0, s)
      else if interrupt_handlers s ! i = None then
        (VECTOR_1_OFFSET + of_nat i * 32,
         s\<lparr>interrupt_handlers := (interrupt_handlers s)[i := Some handler]\<rparr>)
      else register_interrupt_loop (Suc i) handler s)"
  by pat_completeness auto
termination
  by (relation "measure (\<lambda>(i, handler, s). MAX_NUM_INTERRUPTS - i)") auto

declare register_interrupt_loop.simps [simp del]

definition register_interrupt :: "handler \<Rightarrow> kst \<Rightarrow> u32 \<times> kst" where
  "register_interrupt handler s = register_interrupt_loop 0 handler s"

abbreviation (input) "INTCON_MVEC \<equiv> 0x1000 :: u32"

definition interrupt_init :: "hw \<Rightarrow> hw" where
  "interrupt_init h =
     (let h = sfr_write PRISS 0 h;
          h = mtc0 CP0_EBASE 1 0x9d000000 h;
          temp_CP0 = mfc0 h CP0_CAUSE 0;
          temp_CP0 = temp_CP0 OR CAUSE_IV;
          h = mtc0 CP0_CAUSE 0 temp_CP0 h;
          h = sfr_set INTCON INTCON_MVEC h;
          temp_CP0 = mfc0 h CP0_STATUS 0;
          temp_CP0 = temp_CP0 AND NOT STATUS_BEV;
          temp_CP0 = temp_CP0 AND NOT STATUS_EXL
      in mtc0 CP0_STATUS 0 temp_CP0 h)"

subsection \<open>Properties of the registries\<close>

lemma register_hypercall_ok:
  assumes "length (hypercall_table s) = 30" and "code < 30" and "hypercall_table s ! unat code = None"
  shows "register_hypercall hy code s = (code, s\<lparr>hypercall_table := (hypercall_table s)[unat code := Some hy]\<rparr>)"
proof -
  have "unat code < 30" using assms(2) by (simp add: word_less_nat_alt)
  then show ?thesis
    using assms(3) by (simp add: register_hypercall_def HCALL_TABLE_SIZE_def word_less_nat_alt)
qed

lemma register_hypercall_keeps:
  "register_hypercall hy code s = (r, s') \<Longrightarrow>
   s' = s\<lparr>hypercall_table := hypercall_table s'\<rparr> \<and> length (hypercall_table s') = length (hypercall_table s) \<and>
   (\<forall>c h. c < length (hypercall_table s) \<longrightarrow> hypercall_table s ! c = Some h \<longrightarrow> hypercall_table s' ! c = Some h)"
  by (auto simp: register_hypercall_def split: if_splits) (metis nth_list_update_neq option.distinct(1))

text \<open>A handler is registered in the first free slot, at the vector that \<^verbatim>\<open>boot.S\<close> dispatches to that slot;
  0 when the table is full.\<close>

lemma register_interrupt_loop_free:
  "i \<le> j \<Longrightarrow> j < MAX_NUM_INTERRUPTS \<Longrightarrow> (\<forall>k. i \<le> k \<longrightarrow> k < j \<longrightarrow> interrupt_handlers s ! k \<noteq> None) \<Longrightarrow>
   interrupt_handlers s ! j = None \<Longrightarrow>
   register_interrupt_loop i ih s =
     (VECTOR_1_OFFSET + of_nat j * 32, s\<lparr>interrupt_handlers := (interrupt_handlers s)[j := Some ih]\<rparr>)"
proof (induction "j - i" arbitrary: i)
  case 0
  then show ?case by (subst register_interrupt_loop.simps) auto
next
  case (Suc n)
  then have "i < j" by simp
  with Suc.prems have "interrupt_handlers s ! i \<noteq> None" by blast
  then show ?case
    using Suc \<open>i < j\<close> by (subst register_interrupt_loop.simps) auto
qed

lemma register_interrupt_loop_full:
  "(\<forall>k. i \<le> k \<longrightarrow> k < MAX_NUM_INTERRUPTS \<longrightarrow> interrupt_handlers s ! k \<noteq> None) \<Longrightarrow>
   register_interrupt_loop i ih s = (0, s)"
proof (induction "MAX_NUM_INTERRUPTS - i" arbitrary: i)
  case 0
  then show ?case by (subst register_interrupt_loop.simps) auto
next
  case (Suc n)
  then show ?case by (subst register_interrupt_loop.simps) auto
qed

end
