(* ===== verification/InterVm.thy ===== *)
theory InterVm
  imports Registry
begin

text \<open>
  Inter-VM communication, \<^verbatim>\<open>drivers/inter-vm-comm.c\<close>: the hypercalls for the id of the caller, the
  state of a guest, and sending and receiving a message. Arguments and results are general registers
  of the calling guest; the message bytes are copied from and to its RAM through a temporary TLB entry.
\<close>

abbreviation (input) "GUEST_TIMER_INT \<equiv> 1 :: u32"
abbreviation (input) "GUEST_INTERVM_INT \<equiv> 2 :: u32"
abbreviation (input) "GUEST_USER_DEFINED_INT_1 \<equiv> 0x10 :: u32"

definition get_vm_id :: "kst \<Rightarrow> kst option" where
  "get_vm_id s = do {
     m \<leftarrow> vm_executing s;
     vm \<leftarrow> vms s m;
     Some (set_V0 (vm_id vm) s) }"

definition guest_is_up :: "kst \<Rightarrow> kst option" where
  "guest_is_up s = do {
     let target_id = guest_reg s REG_A0;
     vcpu \<leftarrow> get_vcpu_from_id s target_id;
     if vcpu = NULL then Some (set_V0 MESSAGE_VCPU_NOT_FOUND s)
     else do {
       vc \<leftarrow> vcpus s vcpu;
       Some (set_V0 (if vcpu_init vc \<noteq> 0 then MESSAGE_VCPU_NOT_INIT else 1) s) } }"

text \<open>The virtual interrupt of a message: \<open>vcpu->guestclt2 |= GUEST_INTERVM_INT << GRIPL_SHIFT\<close>.\<close>

definition post_intervm :: "vcpu_t \<Rightarrow> vcpu_t" where
  "post_intervm vc = vc\<lparr>guestclt2 := guestclt2 vc OR push_bit GUESTCLT2_GRIPL_SHIFT GUEST_INTERVM_INT\<rparr>"

text \<open>\<open>memcpy\<close> from and to a guest buffer: map it, then copy byte by byte.\<close>

definition copy_from_guest :: "u32 \<Rightarrow> u32 \<Rightarrow> u32 \<Rightarrow> u32 \<Rightarrow> kst \<Rightarrow> (u8 list \<times> kst) option" where
  "copy_from_guest address base sz n s = do {
     let (mapped, h) = tlbCreateEntry address base sz 0xf CACHEABLE (mach s);
     bs \<leftarrow> read_bytes h mapped (unat n);
     Some (bs, s\<lparr>mach := h\<rparr>) }"

definition copy_to_guest :: "u32 \<Rightarrow> u32 \<Rightarrow> u32 \<Rightarrow> u8 list \<Rightarrow> kst \<Rightarrow> kst option" where
  "copy_to_guest address base sz bs s = do {
     let (mapped, h) = tlbCreateEntry address base sz 0xf CACHEABLE (mach s);
     h \<leftarrow> write_bytes mapped bs h;
     Some (s\<lparr>mach := h\<rparr>) }"

definition intervm_send_msg :: "kst \<Rightarrow> kst option" where
  "intervm_send_msg s = do {
     let target_id = guest_reg s REG_A0;
     let message_ptr = guest_reg s REG_A1;
     let message_size = guest_reg s REG_A2;
     if MESSAGE_SZ < message_size then Some (set_V0 MESSAGE_TOO_BIG s)
     else do {
       vcpu \<leftarrow> get_vcpu_from_id s target_id;
       if vcpu = NULL then Some (set_V0 MESSAGE_VCPU_NOT_FOUND s)
       else do {
         vc \<leftarrow> vcpus s vcpu;
         if vcpu_init vc \<noteq> 0 then Some (set_V0 MESSAGE_VCPU_NOT_INIT s)
         else if num_messages (messages vc) = MESSAGELIST_SZ then do {
           s \<leftarrow> upd_vcpu vcpu post_intervm s;
           Some (set_V0 MESSAGE_FULL s) }
         else do {
           m \<leftarrow> vm_executing s;
           vm \<leftarrow> vms s m;
           (bs, s) \<leftarrow> copy_from_guest message_ptr (base_addr vm) message_size message_size s;
           vc \<leftarrow> vcpus s vcpu;
           b \<leftarrow> msg_put (vm_id vm) message_size bs (messages vc);
           s \<leftarrow> upd_vcpu vcpu (\<lambda>vc. vc\<lparr>messages := b\<rparr>) s;
           s \<leftarrow> upd_vcpu vcpu post_intervm s;
           Some (set_V0 message_size s) } } } }"

definition intervm_recv_msg :: "kst \<Rightarrow> kst option" where
  "intervm_recv_msg s = do {
     vcpu \<leftarrow> vcpu_executing s;
     vc \<leftarrow> vcpus s vcpu;
     if num_messages (messages vc) = 0 then Some (set_V0 MESSAGE_EMPTY s)
     else do {
       let message_ptr = guest_reg s REG_A0;
       (src, bs) \<leftarrow> msg_peek (messages vc);
       m \<leftarrow> vm_executing s;
       vm \<leftarrow> vms s m;
       let messagesz = of_nat (length bs);
       s \<leftarrow> copy_to_guest message_ptr (base_addr vm) messagesz bs s;
       let s = set_V0 messagesz s;
       let s = upd_mach (MoveToPreviousGuestGPR REG_A0 src) s;
       upd_vcpu vcpu (\<lambda>vc. vc\<lparr>messages := msg_drop (messages vc)\<rparr>) s } }"

text \<open>The driver's initialisation: it stops at the first registration that fails.\<close>

fun register_all :: "(hcall \<times> u32) list \<Rightarrow> kst \<Rightarrow> bool \<times> kst" where
  "register_all [] s = (True, s)"
| "register_all ((h, code) # rest) s =
     (let (r, s) = register_hypercall h code s
      in if r <s 0 then (False, s) else register_all rest s)"

definition intervm_init :: "kst \<Rightarrow> kst" where
  "intervm_init s = snd (register_all [(H_get_vm_id, HCALL_GET_VM_ID), (H_intervm_send_msg, HCALL_IPC_SEND_MSG),
     (H_intervm_recv_msg, HCALL_IPC_RECV_MSG), (H_guest_is_up, HCALL_GUEST_UP)] s)"

end
