(* ===== verification/VirtualIo.thy ===== *)
theory VirtualIo
  imports InterVm
begin

text \<open>
  Virtualised I/O, \<^verbatim>\<open>drivers/virtual-io.c\<close>: reading and writing a device register from a guest, allowed
  inside the ranges of the guest's \<open>device_mapping\<close>. A device register is a word of \<open>sfr\<close>. The
  range test is the code's: the end address is included and its sum may wrap around. The lemmas bound
  what a guest can change and show that the address one past a device's range is accepted.
\<close>

definition addr_allowed :: "device_mapping_t list \<Rightarrow> u32 \<Rightarrow> bool" where
  "addr_allowed ds memory_addr \<longleftrightarrow>
     (\<exists>d\<in>set ds. start_addr d \<le> memory_addr \<and> memory_addr \<le> start_addr d + dev_size d)"

text \<open>\<open>vmconf_p[vcpu_executing->id - 1]\<close>; \<open>None\<close> outside the array and for a null entry.\<close>

definition executing_conf :: "kst \<Rightarrow> vmconf_t option" where
  "executing_conf s = do {
     v \<leftarrow> vcpu_executing s;
     vc \<leftarrow> vcpus s v;
     let vcpu_index = unat (vcpu_id vc - 1);
     if vcpu_index < length (vmconf_p s) then do {
       c \<leftarrow> vmconf_p s ! vcpu_index;
       Some (VMCONF s ! c) }
     else None }"

definition read_address :: "kst \<Rightarrow> kst option" where
  "read_address s = do {
     let memory_addr = guest_reg s REG_A0;
     c \<leftarrow> executing_conf s;
     if addr_allowed (devices c) memory_addr then Some (set_V0 (sfr (mach s) memory_addr) s)
     else Some s }"

definition write_address :: "kst \<Rightarrow> kst option" where
  "write_address s = do {
     let memory_addr = guest_reg s REG_A0;
     let v = guest_reg s REG_A1;
     c \<leftarrow> executing_conf s;
     if addr_allowed (devices c) memory_addr then
       Some (set_V0 0 (upd_mach (sfr_write memory_addr v) s))
     else Some (set_V0 HCALL_ADDRESS_NOT_ALLOWED s) }"

text \<open>\<open>vcpu->vm->vmconf\<close> of VCPU number \<open>i + 1\<close>.\<close>

definition vmconf_of :: "kst \<Rightarrow> nat \<Rightarrow> (ptr \<times> nat) option" where
  "vmconf_of s i = do {
     vcpu \<leftarrow> get_vcpu_from_id s (of_nat (i + 1));
     vc \<leftarrow> vcpus s vcpu;
     vm \<leftarrow> vms s (vcpu_vm vc);
     Some (vcpu, vmconf vm) }"

primrec fill_vmconf_p :: "nat list \<Rightarrow> kst \<Rightarrow> kst option" where
  "fill_vmconf_p [] s = Some s"
| "fill_vmconf_p (i # is) s = do {
     (_, c) \<leftarrow> vmconf_of s i;
     fill_vmconf_p is (s\<lparr>vmconf_p := (vmconf_p s)[i := Some c]\<rparr>) }"

definition virtual_io_init :: "kst \<Rightarrow> kst option" where
  "virtual_io_init s =
     (let (done, s) = register_all [(H_write_address, HCALL_WRITE_ADDRESS),
        (H_read_address, HCALL_READ_ADDRESS)] s
      in if done then fill_vmconf_p [0..<length (VMCONF s)] s else Some s)"

subsection \<open>What a guest can change\<close>

text \<open>A register and its \<open>CLR\<close>, \<open>SET\<close> and \<open>INV\<close> aliases.\<close>

lemma sfr_write_local:
  "sfr (sfr_write a v h) x \<noteq> sfr h x \<Longrightarrow> x = a \<or> x = a AND NOT 0xC"
  by (auto simp: sfr_write_def Let_def split: if_splits)

lemma write_address_confined:
  assumes "write_address s = Some s'" and "executing_conf s = Some c" and "sfr (mach s') x \<noteq> sfr (mach s) x"
  shows "\<exists>d\<in>set (devices c). \<exists>a. start_addr d \<le> a \<and> a \<le> start_addr d + dev_size d \<and> (x = a \<or> x = a AND NOT 0xC)"
proof -
  let ?a = "guest_reg s REG_A0"
  have "addr_allowed (devices c) ?a \<and> sfr (mach s') = sfr (sfr_write ?a (guest_reg s REG_A1) (mach s))"
    using assms by (auto simp: write_address_def upd_mach_def MoveToPreviousGuestGPR_def Let_def split: if_splits)
  then show ?thesis using sfr_write_local assms(3) unfolding addr_allowed_def by metis
qed

lemma write_address_frame:
  assumes "write_address s = Some s'"
  shows "ram (mach s') = ram (mach s) \<and> tlb (mach s') = tlb (mach s) \<and> cp0 (mach s') = cp0 (mach s) \<and>
    gcp0 (mach s') = gcp0 (mach s) \<and> (\<forall>b. b \<noteq> prev_set (mach s) \<longrightarrow> gpr (mach s') b = gpr (mach s) b) \<and>
    s' = s\<lparr>mach := mach s'\<rparr>"
  using assms by (auto simp: write_address_def upd_mach_def MoveToPreviousGuestGPR_def Let_def prev_set_def
    split: if_splits bind_splits)

lemma write_address_end:
  assumes "executing_conf s = Some c" and "d \<in> set (devices c)" and "start_addr d \<le> start_addr d + dev_size d"
    and "guest_reg s REG_A0 = start_addr d + dev_size d"
  shows "write_address s = Some (set_V0 0 (upd_mach (sfr_write (start_addr d + dev_size d) (guest_reg s REG_A1)) s))"
proof -
  have "addr_allowed (devices c) (start_addr d + dev_size d)" using assms(2,3) unfolding addr_allowed_def by blast
  then show ?thesis by (simp add: write_address_def assms(1,4))
qed

end
