(* ===== verification/IntRedirect.thy ===== *)
theory IntRedirect
  imports VirtualIo
begin

text \<open>
  Interrupt redirection, \<^verbatim>\<open>drivers/pic32mz-interrupt-redirect.c\<close>: hardware interrupts configured for a
  guest are disabled when they arrive and turned into virtual interrupts; the guest enables them again
  by a hypercall. The lemmas follow the request and enable bits of every interrupt line through the
  handler and the hypercall, and the virtual interrupts to the guests.
\<close>

definition irq_bit :: "u32 \<Rightarrow> u32" where
  "irq_bit irq = push_bit (unat (irq AND 31)) 1"

definition irq_reg :: "u32 \<Rightarrow> u32" where
  "irq_reg irq = drop_bit 5 irq"

text \<open>One turn of the loop of \<open>interrupt_injection\<close>.\<close>

definition inject_one :: "interrupt_mapping \<Rightarrow> kst \<Rightarrow> kst option" where
  "inject_one im s =
     (let irq = irq_number im
      in if sfr (mach s) (IFS (irq_reg irq)) AND irq_bit irq \<noteq> 0 then do {
           let s = upd_mach (sfr_clr (IEC (irq_reg irq)) (irq_bit irq)) s;
           let s = upd_mach (sfr_clr (IFS (irq_reg irq)) (irq_bit irq)) s;
           v \<leftarrow> vcpu_executing s;
           if irq_vcpu im = v then
             Some (upd_mach (\<lambda>h. setGuestCTL2 (getGuestCTL2 h OR push_bit GUESTCLT2_GRIPL_SHIFT (irq_guest im)) h) s)
           else upd_vcpu (irq_vcpu im)
             (\<lambda>vc. vc\<lparr>guestclt2 := guestclt2 vc OR push_bit GUESTCLT2_GRIPL_SHIFT (irq_guest im)\<rparr>) s }
         else Some s)"

primrec inject_all :: "interrupt_mapping list \<Rightarrow> kst \<Rightarrow> kst option" where
  "inject_all [] s = Some s"
| "inject_all (im # ims) s = do { s \<leftarrow> inject_one im s; inject_all ims s }"

text \<open>The table behind \<open>interrupt_mapping_list\<close>; only read when it has elements.\<close>

definition mapping_table :: "kst \<Rightarrow> interrupt_mapping list option" where
  "mapping_table s =
     (if interrupt_mapping_sz s = 0 then Some []
      else do {
        ims \<leftarrow> imaps s (interrupt_mapping_list s);
        if unat (interrupt_mapping_sz s) \<le> length ims then Some (take (unat (interrupt_mapping_sz s)) ims)
        else None })"

definition interrupt_injection :: "kst \<Rightarrow> kst option" where
  "interrupt_injection s = do { ims \<leftarrow> mapping_table s; inject_all ims s }"

definition reenable_interrupt :: "kst \<Rightarrow> kst option" where
  "reenable_interrupt s = do {
     let interrupt = guest_reg s REG_A0;
     ims \<leftarrow> mapping_table s;
     v \<leftarrow> vcpu_executing s;
     case List.find (\<lambda>im. v = irq_vcpu im \<and> interrupt = irq_guest im) ims of
       Some im \<Rightarrow>
         Some (set_V0 0 (upd_mach (sfr_set (IEC (irq_reg (irq_number im))) (irq_bit (irq_number im))) s))
     | None \<Rightarrow> Some (set_V0 1 s) }"

subsection \<open>Initialisation\<close>

text \<open>The configuration of one redirected interrupt in the controller.\<close>

definition config_irq :: "u32 \<Rightarrow> u32 \<Rightarrow> hw \<Rightarrow> hw" where
  "config_irq irq offset h =
     (let ipc_mask = push_bit (8 * unat (irq AND 3)) 0x1F;
          h = sfr_clr (IPC (drop_bit 2 irq)) ipc_mask h;
          h = sfr_set (IPC (drop_bit 2 irq)) ipc_mask h;
          h = sfr_clr (IFS (irq_reg irq)) (irq_bit irq) h;
          h = sfr_write (OFF irq) offset h
      in sfr_set (IEC (irq_reg irq)) (irq_bit irq) h)"

text \<open>The inner loop, over the interrupts of one guest: \<open>j\<close> counts them, \<open>irq_count\<close> is the next free
  element of the table behind \<open>p\<close>; writing outside that table is \<open>None\<close>.\<close>

primrec redirect_vm :: "ptr \<Rightarrow> u32 \<Rightarrow> ptr \<Rightarrow> nat \<Rightarrow> nat \<Rightarrow> u32 list \<Rightarrow> kst \<Rightarrow> (nat \<times> kst) option" where
  "redirect_vm p offset vcpu j irq_count [] s = Some (irq_count, s)"
| "redirect_vm p offset vcpu j irq_count (irq # irqs) s = do {
     ims \<leftarrow> imaps s p;
     if irq_count < length ims then do {
       let im = \<lparr>irq_number = irq, irq_guest = push_bit j GUEST_USER_DEFINED_INT_1, irq_vcpu = vcpu\<rparr>;
       let s = s\<lparr>imaps := (imaps s)(p \<mapsto> ims[irq_count := im])\<rparr>;
       let s = upd_mach (config_irq irq offset) s;
       redirect_vm p offset vcpu (Suc j) (irq_count + 1) irqs s }
     else None }"

primrec redirect_vms :: "ptr \<Rightarrow> u32 \<Rightarrow> nat \<Rightarrow> nat list \<Rightarrow> kst \<Rightarrow> kst option" where
  "redirect_vms p offset irq_count [] s = Some s"
| "redirect_vms p offset irq_count (i # is) s = do {
     (vcpu, c) \<leftarrow> vmconf_of s i;
     (irq_count, s) \<leftarrow> redirect_vm p offset vcpu 0 irq_count (interrupt_redirect (VMCONF s ! c)) s;
     redirect_vms p offset irq_count is s }"

primrec count_redirects :: "nat list \<Rightarrow> u32 \<Rightarrow> kst \<Rightarrow> u32 option" where
  "count_redirects [] n s = Some n"
| "count_redirects (i # is) n s = do {
     (_, c) \<leftarrow> vmconf_of s i;
     count_redirects is (n + of_nat (length (interrupt_redirect (VMCONF s ! c)))) s }"

text \<open>An element of the table before it is written: the contents of the block \<open>malloc\<close> returned.\<close>

definition blank_mapping :: interrupt_mapping where
  "blank_mapping = \<lparr>irq_number = 0, irq_guest = 0, irq_vcpu = NULL\<rparr>"

definition interrupt_redirect_init :: "kst \<Rightarrow> kst option" where
  "interrupt_redirect_init s = do {
     let n = length (VMCONF s);
     sz \<leftarrow> count_redirects [0..<n] (interrupt_mapping_sz s) s;
     let s = s\<lparr>interrupt_mapping_sz := sz\<rparr>;
     if 0 < sz then do {
       let (offset, s) = register_interrupt I_interrupt_injection s;
       let (r, s) = register_hypercall H_reenable_interrupt HCALL_REENABLE_INTERRUPT s;
       if r <s 0 then Some s
       else do {
         (s, p) \<leftarrow> k_malloc (sz * SIZEOF_interrupt_mapping) s;
         let s = s\<lparr>interrupt_mapping_list := p\<rparr>;
         let s = (if p = NULL then s else s\<lparr>imaps := (imaps s)(p \<mapsto> replicate (unat sz) blank_mapping)\<rparr>);
         redirect_vms p offset 0 [0..<n] s } }
     else Some s }"

subsection \<open>Interrupts\<close>

lemma irq_reg_cases: "irq < 256 \<Longrightarrow> irq_reg irq \<in> {0, 1, 2, 3, 4, 5, 6, 7}"
proof -
  assume "irq < 256"
  then have "unat (irq_reg irq) < 8"
    by (simp add: irq_reg_def drop_bit_eq_div unat_div word_less_nat_alt)
  then show ?thesis by (auto simp: word_unat_eq_iff)
qed

lemma ic_write:
  assumes "n \<in> {0, 1, 2, 3, 4, 5, 6, 7}"
  shows "sfr_clr (IFS n) v h = h\<lparr>sfr := (sfr h)(IFS n := sfr h (IFS n) AND NOT v)\<rparr>"
    and "sfr_clr (IEC n) v h = h\<lparr>sfr := (sfr h)(IEC n := sfr h (IEC n) AND NOT v)\<rparr>"
    and "sfr_set (IEC n) v h = h\<lparr>sfr := (sfr h)(IEC n := sfr h (IEC n) OR v)\<rparr>"
  using assms by (auto simp: sfr_write_def is_off_reg_def is_pin_reg_def OFF_def IFS_def IEC_def SFR_BASE_def)

lemma ic_distinct:
  assumes "n \<in> {0, 1, 2, 3, 4, 5, 6, 7}" and "m \<in> {0, 1, 2, 3, 4, 5, 6, 7}"
  shows "IFS n \<noteq> IEC m" and "IFS n = IFS m \<longleftrightarrow> n = m" and "IEC n = IEC m \<longleftrightarrow> n = m"
  using assms by (auto simp: IFS_def IEC_def SFR_BASE_def)


text \<open>What one turn does to the request and enable bits of any interrupt line \<open>q\<close>.\<close>

definition irq_pending :: "hw \<Rightarrow> u32 \<Rightarrow> bool" where
  "irq_pending h q \<longleftrightarrow> bit (sfr h (IFS (irq_reg q))) (unat (q AND 31))"

definition irq_enabled :: "hw \<Rightarrow> u32 \<Rightarrow> bool" where
  "irq_enabled h q \<longleftrightarrow> bit (sfr h (IEC (irq_reg q))) (unat (q AND 31))"

lemma irq_low: "unat (q AND 31 :: u32) = unat q mod 32"
proof -
  have "q AND 31 = take_bit 5 q" by (simp add: take_bit_eq_mask mask_eq_exp_minus_1)
  then show ?thesis by (simp add: take_bit_eq_mod unat_mod)
qed

lemma irq_line: "irq_reg p = irq_reg q \<and> unat (p AND 31) = unat (q AND 31) \<longleftrightarrow> p = (q :: u32)"
proof
  assume a: "irq_reg p = irq_reg q \<and> unat (p AND 31) = unat (q AND 31)"
  have "unat p div 32 = unat q div 32" 
  proof -
    have "unat (irq_reg x) = unat x div 32" for x by (simp add: irq_reg_def drop_bit_eq_div unat_div)
    with a show ?thesis by metis
  qed
  moreover have "unat p mod 32 = unat q mod 32" using a by (simp add: irq_low)
  ultimately show "p = q" by (metis word_unat_eq_iff div_mult_mod_eq)
qed simp

lemma irq_bit_nth: "bit (irq_bit p) k \<longleftrightarrow> k = unat (p AND 31)"
proof -
  have "unat (p AND 31) < 32" by (simp add: irq_low)
  then show ?thesis by (auto simp: irq_bit_def bit_simps)
qed

lemma irq_pending_test: "sfr h (IFS (irq_reg p)) AND irq_bit p \<noteq> 0 \<longleftrightarrow> irq_pending h p"
  unfolding irq_pending_def
proof
  assume "sfr h (IFS (irq_reg p)) AND irq_bit p \<noteq> 0"
  then obtain k where "bit (sfr h (IFS (irq_reg p)) AND irq_bit p) k" by (metis bit_0_eq bit_eqI bot_apply bot_bool_def)
  then show "bit (sfr h (IFS (irq_reg p))) (unat (p AND 31))" by (auto simp: bit_and_iff irq_bit_nth)
next
  assume "bit (sfr h (IFS (irq_reg p))) (unat (p AND 31))"
  then have "bit (sfr h (IFS (irq_reg p)) AND irq_bit p) (unat (p AND 31))" by (simp add: bit_and_iff irq_bit_nth)
  then show "sfr h (IFS (irq_reg p)) AND irq_bit p \<noteq> 0" by (metis bit_0_eq bot_apply bot_bool_def)
qed

lemma irq_clear:
  assumes "p < 256" and "q < 256"
  shows "irq_pending (sfr_clr (IFS (irq_reg p)) (irq_bit p) h) q \<longleftrightarrow> irq_pending h q \<and> q \<noteq> p"
    and "irq_enabled (sfr_clr (IFS (irq_reg p)) (irq_bit p) h) q \<longleftrightarrow> irq_enabled h q"
    and "irq_pending (sfr_clr (IEC (irq_reg p)) (irq_bit p) h) q \<longleftrightarrow> irq_pending h q"
    and "irq_enabled (sfr_clr (IEC (irq_reg p)) (irq_bit p) h) q \<longleftrightarrow> irq_enabled h q \<and> q \<noteq> p"
    and "irq_enabled (sfr_set (IEC (irq_reg p)) (irq_bit p) h) q \<longleftrightarrow> irq_enabled h q \<or> q = p"
proof -
  note c = irq_reg_cases [OF assms(1)] irq_reg_cases [OF assms(2)]
  have l: "unat (q AND 31) < 32" by (simp add: irq_low)
  note i = irq_line [of p q]
  show "irq_pending (sfr_clr (IFS (irq_reg p)) (irq_bit p) h) q \<longleftrightarrow> irq_pending h q \<and> q \<noteq> p"
    using i l by (auto simp: irq_pending_def ic_write(1) [OF c(1)] ic_distinct(2) [OF c(2,1)] bit_and_iff bit_not_iff irq_bit_nth)
  show "irq_enabled (sfr_clr (IFS (irq_reg p)) (irq_bit p) h) q \<longleftrightarrow> irq_enabled h q"
    using ic_distinct(1) [OF c] by (simp add: irq_enabled_def ic_write(1) [OF c(1)])
  show "irq_pending (sfr_clr (IEC (irq_reg p)) (irq_bit p) h) q \<longleftrightarrow> irq_pending h q"
    using ic_distinct(1) [OF c(2,1)] by (simp add: irq_pending_def ic_write(2) [OF c(1)])
  show "irq_enabled (sfr_clr (IEC (irq_reg p)) (irq_bit p) h) q \<longleftrightarrow> irq_enabled h q \<and> q \<noteq> p"
    using i l by (auto simp: irq_enabled_def ic_write(2) [OF c(1)] ic_distinct(3) [OF c(2,1)] bit_and_iff bit_not_iff irq_bit_nth)
  show "irq_enabled (sfr_set (IEC (irq_reg p)) (irq_bit p) h) q \<longleftrightarrow> irq_enabled h q \<or> q = p"
    using i by (auto simp: irq_enabled_def ic_write(3) [OF c(1)] ic_distinct(3) [OF c(2,1)] bit_or_iff irq_bit_nth)
qed


text \<open>The virtual interrupt of \<open>im\<close> waits in the guest's pending field, in the register if the guest runs, in its
  VCPU otherwise.\<close>

definition delivered :: "kst \<Rightarrow> ptr \<Rightarrow> interrupt_mapping \<Rightarrow> bool" where
  "delivered s v im \<longleftrightarrow> (let b = push_bit GUESTCLT2_GRIPL_SHIFT (irq_guest im) in
     if irq_vcpu im = v then getGuestCTL2 (mach s) AND b = b
     else \<exists>vc. vcpus s (irq_vcpu im) = Some vc \<and> guestclt2 vc AND b = b)"

lemma or_adds: "(x OR b) AND b = (b :: u32)"
  by (rule bit_eqI) (auto simp: bit_simps)

lemma or_keeps:
  assumes "x AND b = (b :: u32)"
  shows "(x OR y) AND b = b"
proof (rule bit_eqI)
  fix n
  have "bit b n \<longrightarrow> bit x n" using assms by (metis bit_and_iff)
  then show "bit ((x OR y) AND b) n = bit b n" by (auto simp: bit_simps)
qed

lemma inject_one_ok:
  assumes v: "vcpu_executing s = Some v" and irq: "irq_number im < 256"
    and vc: "irq_vcpu im = v \<or> irq_vcpu im \<in> dom (vcpus s)"
  shows "\<exists>s'. inject_one im s = Some s' \<and> vcpu_executing s' = Some v \<and> dom (vcpus s') = dom (vcpus s) \<and>
    (\<forall>q<256. irq_pending (mach s') q \<longleftrightarrow> irq_pending (mach s) q \<and> q \<noteq> irq_number im) \<and>
    (\<forall>q<256. irq_enabled (mach s') q \<longleftrightarrow> irq_enabled (mach s) q \<and> \<not> (irq_pending (mach s) q \<and> q = irq_number im)) \<and>
    (irq_pending (mach s) (irq_number im) \<longrightarrow> delivered s' v im) \<and>
    (\<forall>im'. delivered s v im' \<longrightarrow> delivered s' v im')"
proof (cases "irq_pending (mach s) (irq_number im)")
  case False
  then have "inject_one im s = Some s" using irq_pending_test by (simp add: inject_one_def)
  with False v show ?thesis by auto
next
  case True
  let ?p = "irq_number im" and ?b = "push_bit GUESTCLT2_GRIPL_SHIFT (irq_guest im)"
  define h where "h = sfr_clr (IFS (irq_reg ?p)) (irq_bit ?p) (sfr_clr (IEC (irq_reg ?p)) (irq_bit ?p) (mach s))"
  have h: "irq_pending h q \<longleftrightarrow> irq_pending (mach s) q \<and> q \<noteq> ?p" "irq_enabled h q \<longleftrightarrow> irq_enabled (mach s) q \<and> q \<noteq> ?p"
    if "q < 256" for q
    using that irq by (auto simp: h_def irq_clear)
  have g: "getGuestCTL2 h = getGuestCTL2 (mach s)" by (simp add: h_def getGuestCTL2_def mfc0_def)
  have vx: "vcpu_executing (s\<lparr>mach := x\<rparr>) = Some v" "vcpu_executing (s\<lparr>mach := x, vcpus := f\<rparr>) = Some v" for x f
    using v by (simp_all add: vcpu_executing_def)
  show ?thesis
  proof (cases "irq_vcpu im = v")
    case eq: True
    let ?s = "s\<lparr>mach := setGuestCTL2 (getGuestCTL2 h OR ?b) h\<rparr>"
    have "inject_one im s = Some ?s"
      using True irq_pending_test eq vx by (simp add: inject_one_def upd_mach_def h_def Let_def)
    moreover have "irq_pending (mach ?s) q = irq_pending h q" "irq_enabled (mach ?s) q = irq_enabled h q" for q
      by (simp_all add: irq_pending_def irq_enabled_def hal_setters)
    moreover have "getGuestCTL2 (mach ?s) = getGuestCTL2 (mach s) OR ?b"
      by (simp add: g) (simp add: getGuestCTL2_def setGuestCTL2_def mfc0_def mtc0_def)
    ultimately show ?thesis
      using h vx eq True by (auto simp: delivered_def Let_def or_keeps or_adds)
  next
    case ne: False
    then obtain vc where vc': "vcpus s (irq_vcpu im) = Some vc" using vc by auto
    let ?s = "s\<lparr>mach := h, vcpus := (vcpus s)(irq_vcpu im \<mapsto> vc\<lparr>guestclt2 := guestclt2 vc OR ?b\<rparr>)\<rparr>"
    have "inject_one im s = Some ?s"
      using True irq_pending_test ne vx vc' by (simp add: inject_one_def upd_mach_def upd_vcpu_def h_def Let_def)
    then show ?thesis
      using h vx ne True vc' g by (auto simp: delivered_def Let_def or_keeps or_adds)
  qed
qed

lemma inject_all_ok:
  "vcpu_executing s = Some v \<Longrightarrow> \<forall>im\<in>set ims. irq_number im < 256 \<and> (irq_vcpu im = v \<or> irq_vcpu im \<in> dom (vcpus s)) \<Longrightarrow>
   distinct (map irq_number ims) \<Longrightarrow>
   \<exists>s'. inject_all ims s = Some s' \<and> vcpu_executing s' = Some v \<and>
    (\<forall>q<256. irq_pending (mach s') q \<longleftrightarrow> irq_pending (mach s) q \<and> q \<notin> irq_number ` set ims) \<and>
    (\<forall>q<256. irq_enabled (mach s') q \<longleftrightarrow>
       irq_enabled (mach s) q \<and> \<not> (irq_pending (mach s) q \<and> q \<in> irq_number ` set ims)) \<and>
    (\<forall>im\<in>set ims. irq_pending (mach s) (irq_number im) \<longrightarrow> delivered s' v im) \<and>
    (\<forall>im. delivered s v im \<longrightarrow> delivered s' v im)"
proof (induction ims arbitrary: s)
  case (Cons im ims)
  obtain s1 where s1: "inject_one im s = Some s1" "vcpu_executing s1 = Some v" "dom (vcpus s1) = dom (vcpus s)"
    "\<forall>q<256. irq_pending (mach s1) q \<longleftrightarrow> irq_pending (mach s) q \<and> q \<noteq> irq_number im"
    "\<forall>q<256. irq_enabled (mach s1) q \<longleftrightarrow> irq_enabled (mach s) q \<and> \<not> (irq_pending (mach s) q \<and> q = irq_number im)"
    "irq_pending (mach s) (irq_number im) \<longrightarrow> delivered s1 v im" "\<forall>im'. delivered s v im' \<longrightarrow> delivered s1 v im'"
    using inject_one_ok [OF Cons.prems(1), of im] Cons.prems(2) by auto
  obtain s2 where s2: "inject_all ims s1 = Some s2" "vcpu_executing s2 = Some v"
    "\<forall>q<256. irq_pending (mach s2) q \<longleftrightarrow> irq_pending (mach s1) q \<and> q \<notin> irq_number ` set ims"
    "\<forall>q<256. irq_enabled (mach s2) q \<longleftrightarrow>
       irq_enabled (mach s1) q \<and> \<not> (irq_pending (mach s1) q \<and> q \<in> irq_number ` set ims)"
    "\<forall>im\<in>set ims. irq_pending (mach s1) (irq_number im) \<longrightarrow> delivered s2 v im"
    "\<forall>im. delivered s1 v im \<longrightarrow> delivered s2 v im"
    using Cons.IH [OF s1(2)] Cons.prems(2,3) s1(3) by auto
  have n: "irq_number im \<notin> irq_number ` set ims" using Cons.prems(3) by simp
  have "delivered s2 v i" if "i \<in> set (im # ims)" "irq_pending (mach s) (irq_number i)" for i
    using that s1(4,6) s2(5,6) n Cons.prems(2) by (metis image_eqI set_ConsD list.set_intros(2))
  then show ?case using s1 s2 by (intro exI [of _ s2]) auto
qed auto

lemma reenable_ok:
  assumes v: "vcpu_executing s = Some v" and t: "mapping_table s = Some ims" and im: "im \<in> set ims"
    and u: "\<forall>im'\<in>set ims. irq_vcpu im' = v \<and> irq_guest im' = irq_guest im \<longrightarrow> im' = im" and own: "irq_vcpu im = v"
    and a: "guest_reg s REG_A0 = irq_guest im" and irq: "irq_number im < 256"
  shows "\<exists>s'. reenable_interrupt s = Some s' \<and> guest_reg s' REG_V0 = 0 \<and>
    (\<forall>q<256. irq_enabled (mach s') q \<longleftrightarrow> irq_enabled (mach s) q \<or> q = irq_number im)"
proof -
  have "List.find (\<lambda>im'. v = irq_vcpu im' \<and> irq_guest im = irq_guest im') ims = Some im"
    by (rule find_unique [OF im]) (use u own in metis)+
  then have "reenable_interrupt s = Some (set_V0 0 (upd_mach (sfr_set (IEC (irq_reg (irq_number im))) (irq_bit (irq_number im))) s))"
    using v t a by (simp add: reenable_interrupt_def)
  then show ?thesis
    using irq_clear(5) [OF irq]
    by (auto simp: upd_mach_def irq_enabled_def MoveToPreviousGuestGPR_def MoveFromPreviousGuestGPR_def prev_set_def)
qed

end
