(* ===== verification/PufFlash.thy ===== *)
theory PufFlash
  imports IntRedirect
begin

text \<open>
  The PUF driver's access to flash, \<^verbatim>\<open>drivers/pic32mz-puf-flash.c\<close>: two hypercalls that read and write
  1 KB at a fixed flash address, and the programming sequence of the flash controller. Waiting for
  the controller is a loop that polls \<open>NVMCON\<close>; between two polls the controller takes the step
  \<open>nvm_ctl\<close>. It does not return if the controller never finishes. With a controller that erases and
  programs as the manual says, the lemmas give the flash contents after a write: only the first 128 of
  the 1024 bytes lie in the page that is erased.
\<close>

definition pageFlash :: u32 where "pageFlash = 0x9D017F80"

partial_function (option) nvm_wait :: "(hw \<Rightarrow> hw) \<Rightarrow> hw \<Rightarrow> hw option" where
  "nvm_wait ctl h = (if sfr h NVMCON AND 0x8000 \<noteq> 0 then nvm_wait ctl (ctl h) else Some h)"

definition NVMUnlock :: "(hw \<Rightarrow> hw) \<Rightarrow> u32 \<Rightarrow> hw \<Rightarrow> (u32 \<times> hw) option" where
  "NVMUnlock ctl nvmop h = do {
     let status = mfc0 h CP0_STATUS 0;
     let h = clearInterruptMask STATUS_IE h;
     let h = sfr_write NVMCON nvmop h;
     h \<leftarrow> udelay 10 h;
     let h = sfr_write NVMKEY 0 h;
     let h = sfr_write NVMKEY 0xAA996655 h;
     let h = sfr_write NVMKEY 0x556699AA h;
     let h = sfr_set NVMCON 0x8000 h;
     h \<leftarrow> nvm_wait ctl h;
     let h = (if status AND 1 \<noteq> 0 then enableIE h else clearInterruptMask STATUS_IE h);
     let h = sfr_clr NVMCON 0x4000 h;
     Some (sfr h NVMCON AND 0x3000, h) }"

definition NVMErasePage :: "(hw \<Rightarrow> hw) \<Rightarrow> u32 \<Rightarrow> hw \<Rightarrow> (u32 \<times> hw) option" where
  "NVMErasePage ctl address h = do {
     let h = sfr_write NVMADDR (address AND 0x1FFFFFFF) h;
     NVMUnlock ctl 0x4004 h }"

definition NVMWriteQuad :: "(hw \<Rightarrow> hw) \<Rightarrow> u32 \<Rightarrow> u32 \<Rightarrow> hw \<Rightarrow> (u32 \<times> hw) option" where
  "NVMWriteQuad ctl address p h = do {
     let h = sfr_write NVMADDR (address AND 0x1FFFFFFF) h;
     w0 \<leftarrow> read32 h p;
     let h = sfr_write (NVMDATA 0) w0 h;
     w1 \<leftarrow> read32 h (p + 4);
     let h = sfr_write (NVMDATA 1) w1 h;
     w2 \<leftarrow> read32 h (p + 8);
     let h = sfr_write (NVMDATA 2) w2 h;
     w3 \<leftarrow> read32 h (p + 12);
     let h = sfr_write (NVMDATA 3) w3 h;
     NVMUnlock ctl 0x4002 h }"

primrec flash_read_words :: "u32 \<Rightarrow> nat list \<Rightarrow> hw \<Rightarrow> hw option" where
  "flash_read_words buffer [] h = Some h"
| "flash_read_words buffer (i # is) h = do {
     w \<leftarrow> read32 h (pageFlash + 4 * of_nat i);
     h \<leftarrow> write32 (buffer + 4 * of_nat i) w h;
     flash_read_words buffer is h }"

definition flash_read1Kbuffer :: "u32 \<Rightarrow> hw \<Rightarrow> (u32 \<times> hw) option" where
  "flash_read1Kbuffer buffer h = do {
     h \<leftarrow> flash_read_words buffer [0..<256] h;
     Some (1024, h) }"

primrec flash_write_quads :: "(hw \<Rightarrow> hw) \<Rightarrow> u32 \<Rightarrow> nat list \<Rightarrow> hw \<Rightarrow> hw option" where
  "flash_write_quads ctl buffer [] h = Some h"
| "flash_write_quads ctl buffer (q # qs) h = do {
     (_, h) \<leftarrow> NVMWriteQuad ctl (pageFlash + 16 * of_nat q) (buffer + 16 * of_nat q) h;
     flash_write_quads ctl buffer qs h }"

text \<open>\<open>for(i = 0; i < 256; i += 4)\<close>: quad \<open>q\<close> is \<open>i = 4 * q\<close>.\<close>

definition flash_write1Kbuffer :: "(hw \<Rightarrow> hw) \<Rightarrow> u32 \<Rightarrow> hw \<Rightarrow> (u32 \<times> hw) option" where
  "flash_write1Kbuffer ctl buffer h = do {
     (_, h) \<leftarrow> NVMErasePage ctl pageFlash h;
     h \<leftarrow> flash_write_quads ctl buffer [0..<64] h;
     Some (1024, h) }"

definition flash_read :: "kst \<Rightarrow> kst option" where
  "flash_read s = do {
     m \<leftarrow> vm_executing s;
     vm \<leftarrow> vms s m;
     let (dest, h) = tlbCreateEntry (guest_reg s REG_A0) (base_addr vm) 1024 0xf CACHEABLE (mach s);
     (ret, h) \<leftarrow> flash_read1Kbuffer dest h;
     Some (set_V0 ret (s\<lparr>mach := h\<rparr>)) }"

definition flash_write :: "kst \<Rightarrow> kst option" where
  "flash_write s = do {
     m \<leftarrow> vm_executing s;
     vm \<leftarrow> vms s m;
     let (source, h) = tlbCreateEntry (guest_reg s REG_A0) (base_addr vm) 1024 0xf CACHEABLE (mach s);
     (ret, h) \<leftarrow> flash_write1Kbuffer (nvm_ctl s) source h;
     Some (set_V0 ret (s\<lparr>mach := h\<rparr>)) }"

definition flash_puf_init :: "kst \<Rightarrow> kst" where
  "flash_puf_init s = snd (register_all [(H_flash_read, HCALL_FLASH_READ), (H_flash_write, HCALL_FLASH_WRITE)] s)"

subsection \<open>Waiting for the counter\<close>

text \<open>The counter goes round: from any moment it reaches any value, or passes it by less than half its range.\<close>

definition ticking :: "(nat \<Rightarrow> u32) \<Rightarrow> bool" where
  "ticking c \<longleftrightarrow> (\<forall>k f. \<exists>n\<ge>k. 0 \<le>s c n - f)"

lemma udelay_loop_returns:
  "0 \<le>s count_src h (count_reads h + n) - final \<Longrightarrow> \<exists>k. udelay_loop final h = Some (h\<lparr>count_reads := k\<rparr>)"
proof (induction n arbitrary: h)
  case 0
  then show ?case by (subst udelay_loop.simps) (auto simp: mfc0_count_def)
next
  case (Suc n)
  let ?h = "snd (mfc0_count h)"
  have "\<exists>k. udelay_loop final ?h = Some (?h\<lparr>count_reads := k\<rparr>)"
    using Suc.prems by (intro Suc.IH) (simp add: mfc0_count_def)
  then obtain k where "udelay_loop final ?h = Some (h\<lparr>count_reads := k\<rparr>)" by (auto simp: mfc0_count_def)
  then show ?case
    by (subst udelay_loop.simps, cases "0 \<le>s count_src h (count_reads h) - final") (auto simp: mfc0_count_def)
qed

lemma udelay_returns:
  assumes "ticking (count_src h)"
  shows "\<exists>k. udelay us h = Some (h\<lparr>count_reads := k\<rparr>)"
proof -
  let ?h = "snd (mfc0_count h)" and ?f = "fst (mfc0_count h) + us * (CPU_FREQ div 1000000) div 2"
  obtain n where "n \<ge> count_reads ?h" "0 \<le>s count_src ?h n - ?f"
    using assms unfolding ticking_def mfc0_count_def by force
  then have "0 \<le>s count_src ?h (count_reads ?h + (n - count_reads ?h)) - ?f" by simp
  from udelay_loop_returns [OF this] show ?thesis by (auto simp: udelay_def mfc0_count_def)
qed

subsection \<open>The flash controller\<close>

text \<open>The operations of the PIC32MZ flash controller: erasing sets the 16 KB page of \<open>NVMADDR\<close> to ones; writing a
  quad word clears the bits that are clear in \<open>NVMDATA0\<close> to \<open>NVMDATA3\<close>. \<open>flash_controller ctl\<close>: an operation that was
  started is done, and its start bit clear, by the next poll; nothing else changes.\<close>

definition quad_bytes :: "hw \<Rightarrow> u8 list" where
  "quad_bytes h = concat (map (\<lambda>n. le_bytes (sfr h (NVMDATA n))) [0, 1, 2, 3])"

definition nvm_op :: "hw \<Rightarrow> mem" where
  "nvm_op h =
     (let m = ram h; a = sfr h NVMADDR; con = sfr h NVMCON AND 0xF
      in if con = 4 then (\<lambda>x. if drop_bit 14 x = drop_bit 14 a then 0xFF else m x)
         else if con = 2 then store_bytes m a (map (\<lambda>(i, b). m (a + of_nat i) AND b) (enumerate 0 (quad_bytes h)))
         else m)"

definition flash_controller :: "(hw \<Rightarrow> hw) \<Rightarrow> bool" where
  "flash_controller ctl \<longleftrightarrow> (\<forall>h. sfr h NVMCON AND 0x8000 \<noteq> 0 \<longrightarrow>
     ctl h = h\<lparr>sfr := (sfr h)(NVMCON := sfr h NVMCON AND NOT 0x8000), ram := nvm_op h\<rparr>)"

lemmas nvm_regs = NVMCON_def NVMKEY_def NVMADDR_def NVMDATA_def SFR_BASE_def

lemma nvm_sfr_write:
  "sfr_write NVMCON v h = h\<lparr>sfr := (sfr h)(NVMCON := v)\<rparr>"
  "sfr_write NVMKEY v h = h\<lparr>sfr := (sfr h)(NVMKEY := v)\<rparr>"
  "sfr_write NVMADDR v h = h\<lparr>sfr := (sfr h)(NVMADDR := v)\<rparr>"
  "sfr_set NVMCON v h = h\<lparr>sfr := (sfr h)(NVMCON := sfr h NVMCON OR v)\<rparr>"
  "sfr_clr NVMCON v h = h\<lparr>sfr := (sfr h)(NVMCON := sfr h NVMCON AND NOT v)\<rparr>"
  by (simp_all add: sfr_write_def is_off_reg_def is_pin_reg_def OFF_def nvm_regs)

lemma nvm_data_write:
  "n \<in> {0, 1, 2, 3} \<Longrightarrow> sfr_write (NVMDATA n) v h = h\<lparr>sfr := (sfr h)(NVMDATA n := v)\<rparr>"
  by (auto simp: sfr_write_def is_off_reg_def is_pin_reg_def OFF_def nvm_regs)

lemma nvm_distinct:
  "NVMCON \<noteq> NVMKEY" "NVMCON \<noteq> NVMADDR" "NVMCON \<noteq> NVMDATA 0" "NVMCON \<noteq> NVMDATA 1" "NVMCON \<noteq> NVMDATA 2"
  "NVMCON \<noteq> NVMDATA 3" "NVMKEY \<noteq> NVMCON" "NVMKEY \<noteq> NVMADDR" "NVMKEY \<noteq> NVMDATA 0" "NVMKEY \<noteq> NVMDATA 1"
  "NVMKEY \<noteq> NVMDATA 2" "NVMKEY \<noteq> NVMDATA 3" "NVMADDR \<noteq> NVMCON" "NVMADDR \<noteq> NVMKEY" "NVMADDR \<noteq> NVMDATA 0"
  "NVMADDR \<noteq> NVMDATA 1" "NVMADDR \<noteq> NVMDATA 2" "NVMADDR \<noteq> NVMDATA 3" "NVMDATA 0 \<noteq> NVMCON" "NVMDATA 0 \<noteq> NVMKEY"
  "NVMDATA 0 \<noteq> NVMADDR" "NVMDATA 0 \<noteq> NVMDATA 1" "NVMDATA 0 \<noteq> NVMDATA 2" "NVMDATA 0 \<noteq> NVMDATA 3" "NVMDATA 1 \<noteq> NVMCON"
  "NVMDATA 1 \<noteq> NVMKEY" "NVMDATA 1 \<noteq> NVMADDR" "NVMDATA 1 \<noteq> NVMDATA 0" "NVMDATA 1 \<noteq> NVMDATA 2" "NVMDATA 1 \<noteq> NVMDATA 3"
  "NVMDATA 2 \<noteq> NVMCON" "NVMDATA 2 \<noteq> NVMKEY" "NVMDATA 2 \<noteq> NVMADDR" "NVMDATA 2 \<noteq> NVMDATA 0" "NVMDATA 2 \<noteq> NVMDATA 1"
  "NVMDATA 2 \<noteq> NVMDATA 3" "NVMDATA 3 \<noteq> NVMCON" "NVMDATA 3 \<noteq> NVMKEY" "NVMDATA 3 \<noteq> NVMADDR" "NVMDATA 3 \<noteq> NVMDATA 0"
  "NVMDATA 3 \<noteq> NVMDATA 1" "NVMDATA 3 \<noteq> NVMDATA 2"
  by (simp_all add: nvm_regs)

lemma nvm_wait_one:
  assumes "sfr h NVMCON AND 0x8000 \<noteq> 0" and "sfr (ctl h) NVMCON AND 0x8000 = 0"
  shows "nvm_wait ctl h = Some (ctl h)"
proof -
  have "nvm_wait ctl (ctl h) = Some (ctl h)" using assms(2) by (subst nvm_wait.simps) simp
  then show ?thesis using assms(1) by (subst nvm_wait.simps) simp
qed

lemma NVMUnlock_done:
  assumes fc: "flash_controller ctl" and tk: "ticking (count_src h)" and op: "op = 0x4004 \<or> op = 0x4002"
  shows "\<exists>h'. NVMUnlock ctl op h = Some (0, h') \<and>
    ram h' = nvm_op (h\<lparr>sfr := (sfr h)(NVMCON := op)\<rparr>) \<and> tlb h' = tlb h \<and> count_src h' = count_src h"
proof -
  define h1 where "h1 = sfr_write NVMCON op (clearInterruptMask STATUS_IE h)"
  have e1: "sfr h1 = (sfr h)(NVMCON := op)" "ram h1 = ram h" "tlb h1 = tlb h" "count_src h1 = count_src h"
    by (simp_all add: h1_def nvm_sfr_write clearInterruptMask_def mtc0_def)
  then have "ticking (count_src h1)" using tk by simp
  from udelay_returns [OF this] obtain k where k: "udelay 10 h1 = Some (h1\<lparr>count_reads := k\<rparr>)" by blast
  define h3 where "h3 = sfr_set NVMCON 0x8000 (sfr_write NVMKEY 0x556699AA (sfr_write NVMKEY 0xAA996655 (sfr_write NVMKEY 0
    (h1\<lparr>count_reads := k\<rparr>))))"
  have e3: "sfr h3 = (sfr h)(NVMKEY := 0x556699AA, NVMCON := op OR 0x8000)" "ram h3 = ram h" "tlb h3 = tlb h"
    "count_src h3 = count_src h"
    using nvm_distinct by (auto simp: h3_def nvm_sfr_write e1)
  then have busy: "sfr h3 NVMCON AND 0x8000 \<noteq> 0" using op by auto
  then have c: "ctl h3 = h3\<lparr>sfr := (sfr h3)(NVMCON := sfr h3 NVMCON AND NOT 0x8000), ram := nvm_op h3\<rparr>"
    using fc by (simp add: flash_controller_def)
  then have con: "sfr (ctl h3) NVMCON = op" using op by (auto simp: e3)
  have w: "nvm_wait ctl h3 = Some (ctl h3)" using busy con op by (intro nvm_wait_one) auto
  define h4 where "h4 = (if mfc0 h CP0_STATUS 0 AND 1 \<noteq> 0 then enableIE (ctl h3) else clearInterruptMask STATUS_IE (ctl h3))"
  have e4: "sfr h4 NVMCON = op" "ram h4 = nvm_op h3" "tlb h4 = tlb h" "count_src h4 = count_src h"
    using con by (simp_all add: h4_def enableIE_def clearInterruptMask_def mtc0_def c e3)
  have "NVMUnlock ctl op h = Some (0, sfr_clr NVMCON 0x4000 h4)"
    using op unfolding NVMUnlock_def Let_def h1_def [symmetric] k Option.bind.bind_lunit h3_def [symmetric] w h4_def [symmetric]
    by (auto simp: nvm_sfr_write e4)
  moreover have "nvm_op h3 = nvm_op (h\<lparr>sfr := (sfr h)(NVMCON := op)\<rparr>)"
  proof -
    have "quad_bytes h3 = quad_bytes (h\<lparr>sfr := (sfr h)(NVMCON := op)\<rparr>)" "sfr h3 NVMADDR = sfr h NVMADDR" "NVMADDR \<noteq> NVMCON"
      using nvm_distinct by (simp_all add: quad_bytes_def e3)
    moreover have "sfr h3 NVMCON AND 0xF = op AND 0xF" using op by (auto simp: e3)
    ultimately show ?thesis by (simp add: nvm_op_def e3(2) Let_def)
  qed
  ultimately show ?thesis by (auto simp: nvm_sfr_write e4)
qed

lemma NVMErasePage_done:
  assumes "flash_controller ctl" and "ticking (count_src h)"
  shows "\<exists>h'. NVMErasePage ctl a h = Some (0, h') \<and> tlb h' = tlb h \<and> count_src h' = count_src h \<and>
    ram h' = (\<lambda>x. if drop_bit 14 x = drop_bit 14 (a AND 0x1FFFFFFF) then 0xFF else ram h x)"
  using NVMUnlock_done [OF assms(1), of "sfr_write NVMADDR (a AND 0x1FFFFFFF) h" "0x4004"] assms(2)
  by (auto simp: NVMErasePage_def nvm_sfr_write nvm_op_def Let_def nvm_distinct)

lemma translate_cong: "tlb h' = tlb h \<Longrightarrow> translate h' va = translate h va"
  by (simp add: translate_def tlb_lookup_def)

lemma read32_translate:
  assumes "\<And>k. k < 4 \<Longrightarrow> translate h (p + of_nat k) = Some (P + of_nat k)"
  shows "read32 h p = Some (load32 (ram h) P)"
proof -
  have "read_bytes h p 4 = Some (bytes_at (ram h) P 4)" using assms by (rule read_bytes_translate)
  then show ?thesis by (simp add: read32_def load32_def bytes_at_4)
qed

lemma NVMWriteQuad_done:
  fixes a :: u32
  assumes fc: "flash_controller ctl" and tk: "ticking (count_src h)"
    and b: "\<And>k. k < 16 \<Longrightarrow> translate h (p + of_nat k) = Some (P + of_nat k)"
  defines "A \<equiv> a AND 0x1FFFFFFF"
  shows "\<exists>h'. NVMWriteQuad ctl a p h = Some (0, h') \<and> tlb h' = tlb h \<and> count_src h' = count_src h \<and>
    ram h' = store_bytes (ram h) A (map (\<lambda>(i, c). ram h (A + of_nat i) AND c) (enumerate 0 (bytes_at (ram h) P 16)))"
proof -
  have w: "read32 h' (p + of_nat j) = Some (load32 (ram h) (P + of_nat j))"
    if "tlb h' = tlb h" "ram h' = ram h" "j + 4 \<le> 16" for h' j
  proof -
    have "translate h' (p + of_nat j + of_nat k) = Some (P + of_nat j + of_nat k)" if "k < 4" for k
      using b [of "j + k"] that \<open>j + 4 \<le> 16\<close> \<open>tlb h' = tlb h\<close>
      by (simp add: translate_cong [of h' h] algebra_simps)
    then show ?thesis using read32_translate [of h' "p + of_nat j" "P + of_nat j"] that(2) by simp
  qed
  let ?w = "\<lambda>j. load32 (ram h) (P + of_nat j)"
  define h4 where "h4 = h\<lparr>sfr := (sfr h)(NVMADDR := A, NVMDATA 0 := ?w 0, NVMDATA 1 := ?w 4, NVMDATA 2 := ?w 8, NVMDATA 3 := ?w 12)\<rparr>"
  have e: "NVMWriteQuad ctl a p h = NVMUnlock ctl 0x4002 h4"
    using w [of _ 0] w [of _ 4] w [of _ 8] w [of _ 12]
    by (simp add: NVMWriteQuad_def nvm_sfr_write nvm_data_write h4_def A_def)
  have "quad_bytes (h4\<lparr>sfr := (sfr h4)(NVMCON := 0x4002)\<rparr>) = bytes_at (ram h) P 16"
    using bytes_at_add [of "ram h" P 4 12] bytes_at_add [of "ram h" "P + 4" 4 8] bytes_at_add [of "ram h" "P + 8" 4 4]
    by (simp add: quad_bytes_def h4_def nvm_distinct le_bytes_load32 add.commute [of 8 P] add.commute [of 12 P])
  then have "nvm_op (h4\<lparr>sfr := (sfr h4)(NVMCON := 0x4002)\<rparr>) =
      store_bytes (ram h) A (map (\<lambda>(i, c). ram h (A + of_nat i) AND c) (enumerate 0 (bytes_at (ram h) P 16)))"
    by (simp add: nvm_op_def h4_def nvm_distinct Let_def)
  then show ?thesis using NVMUnlock_done [OF fc, of h4 "0x4002"] tk unfolding e by (auto simp: h4_def)
qed

text \<open>Programming the first \<open>n\<close> bytes of the block at \<open>D\<close> with those at \<open>P\<close>.\<close>

definition programmed :: "mem \<Rightarrow> u32 \<Rightarrow> u32 \<Rightarrow> nat \<Rightarrow> mem" where
  "programmed m D P n = (\<lambda>x. if unat (x - D) < n then m x AND m (P + (x - D)) else m x)"

lemma programmed_quad:
  fixes m :: mem and D P :: u32 and n :: nat
  assumes d: "blocks_disjoint D 1024 P 1024" and q: "n + 16 \<le> 1024"
  defines "m' \<equiv> programmed m D P n"
  shows "store_bytes m' (D + of_nat n) (map (\<lambda>(i, c). m' (D + of_nat n + of_nat i) AND c)
    (enumerate 0 (bytes_at m' (P + of_nat n) 16))) = programmed m D P (n + 16)"
proof
  fix x
  let ?k = "unat (x - (D + of_nat n))"
  have src: "m' (P + of_nat i) = m (P + of_nat i)" if "i < 1024" for i
  proof -
    have "in_block P 1024 (P + of_nat i)" using that by (simp add: in_block_def unat_of_nat_small)
    then have "\<not> in_block D 1024 (P + of_nat i)" using d by (auto simp: blocks_disjoint_def)
    then show ?thesis using q by (simp add: m'_def programmed_def in_block_def)
  qed
  have "store_bytes m' (D + of_nat n) (map (\<lambda>(i, c). m' (D + of_nat n + of_nat i) AND c)
    (enumerate 0 (bytes_at m' (P + of_nat n) 16))) x =
    (if ?k < 16 then m' (D + of_nat n + of_nat ?k) AND m' (P + of_nat n + of_nat ?k) else m' x)"
    by (simp add: store_bytes_apply nth_enumerate_eq)
  also have "\<dots> = programmed m D P (n + 16) x"
  proof (cases "?k < 16")
    case True
    have x: "x - D = of_nat (n + ?k)" by simp
    have "unat (of_nat (n + ?k) :: u32) = n + ?k" using True q by (intro unat_of_nat_small) simp
    with arg_cong [OF x, of unat] have u: "unat (x - D) = n + ?k" by (rule trans)
    have xd: "D + of_nat n + of_nat ?k = x" "P + of_nat n + of_nat ?k = P + (x - D)" by simp_all
    have "m' (P + (x - D)) = m (P + (x - D))" using src [of "n + ?k"] True q unfolding x [symmetric] by simp
    then show ?thesis using True u by (simp add: xd programmed_def m'_def)
  next
    case False
    have "unat (x - D) < n" if l: "unat (x - D) < n + 16"
    proof (rule ccontr)
      assume g: "\<not> unat (x - D) < n"
      have un: "unat (of_nat n :: u32) = n" using q by (simp add: unat_of_nat_small)
      have "unat (x - D - of_nat n) = unat (x - D) - n"
        using g un by (metis unat_sub word_le_nat_alt not_less)
      moreover have "x - D - of_nat n = x - (D + of_nat n)" by simp
      ultimately show False using False l g by simp
    qed
    then show ?thesis using False by (auto simp: programmed_def m'_def)
  qed
  finally show "store_bytes m' (D + of_nat n) (map (\<lambda>(i, c). m' (D + of_nat n + of_nat i) AND c)
    (enumerate 0 (bytes_at m' (P + of_nat n) 16))) x = programmed m D P (n + 16) x" .
qed


lemma flash_write_quads_done:
  assumes fc: "flash_controller ctl" and d: "blocks_disjoint 0x1D017F80 1024 P 1024"
    and b: "\<And>k. k < 1024 \<Longrightarrow> translate h0 (buffer + of_nat k) = Some (P + of_nat k)"
  shows "q \<le> 64 \<Longrightarrow> ticking (count_src h) \<Longrightarrow> tlb h = tlb h0 \<Longrightarrow> ram h = programmed m 0x1D017F80 P (16 * q) \<Longrightarrow>
    \<exists>h'. flash_write_quads ctl buffer [q..<64] h = Some h' \<and> ram h' = programmed m 0x1D017F80 P 1024 \<and> tlb h' = tlb h0"
proof (induction "64 - q" arbitrary: q h)
  case 0
  then show ?case by simp
next
  case (Suc n)
  then have q: "q < 64" by simp
  have "translate h (buffer + 16 * of_nat q + of_nat k) = Some (P + 16 * of_nat q + of_nat k)" if "k < 16" for k
    using b [of "16 * q + k"] that q Suc.prems(3) by (simp add: translate_cong [of h h0] algebra_simps)
  from NVMWriteQuad_done [OF fc Suc.prems(2) this, of "pageFlash + 16 * of_nat q"]
  obtain h1 where h1: "NVMWriteQuad ctl (pageFlash + 16 * of_nat q) (buffer + 16 * of_nat q) h = Some (0, h1)"
    "tlb h1 = tlb h" "count_src h1 = count_src h"
    "ram h1 = store_bytes (ram h) (pageFlash + 16 * of_nat q AND 0x1FFFFFFF) (map (\<lambda>(i, c).
       ram h ((pageFlash + 16 * of_nat q AND 0x1FFFFFFF) + of_nat i) AND c)
       (enumerate 0 (bytes_at (ram h) (P + 16 * of_nat q) 16)))"
    by blast
  have a: "pageFlash + 16 * of_nat q AND 0x1FFFFFFF = 0x1D017F80 + of_nat (16 * q)"
  proof -
    have "unat (16 * of_nat q :: u32) = 16 * q" using q unat_of_nat_small [of "16 * q", where 'a = 32] by simp
    then have u: "unat (pageFlash + 16 * of_nat q) = 0x9D017F80 + 16 * q"
      using q by (subst unat_add_small) (simp_all add: pageFlash_def)
    have "unat (pageFlash + 16 * of_nat q AND mask 29) = 0x1D017F80 + 16 * q"
      using q mod_mult_self3 [of 4 536870912 "486637440 + 16 * q"]
      by (simp add: take_bit_eq_mask [symmetric] take_bit_eq_mod unat_mod u)
    moreover have "unat (0x1D017F80 + of_nat (16 * q) :: u32) = 0x1D017F80 + 16 * q"
      using q unat_of_nat_small [of "16 * q", where 'a = 32] by (subst unat_add_small) simp_all
    moreover have "(0x1FFFFFFF :: u32) = mask 29" by (simp add: mask_eq_exp_minus_1)
    ultimately show ?thesis by (metis word_unat_eq_iff)
  qed
  have "ram h1 = programmed m 0x1D017F80 P (16 * q + 16)"
    using programmed_quad [OF d, of "16 * q" m] q unfolding h1(4) a Suc.prems(4) by simp
  then have "\<exists>h'. flash_write_quads ctl buffer [Suc q..<64] h1 = Some h' \<and> ram h' = programmed m 0x1D017F80 P 1024 \<and> tlb h' = tlb h0"
    using Suc.hyps(2) Suc.prems h1 q by (intro Suc.hyps(1)) (simp_all add: algebra_simps)
  then show ?case using h1(1) q by (simp add: upt_conv_Cons)
qed

text \<open>The page that is erased is the one of the first byte; the block's other 896 bytes lie in the next page.\<close>

lemma flash_write1K_done:
  assumes fc: "flash_controller ctl" and tk: "ticking (count_src h)"
    and b: "\<And>k. k < 1024 \<Longrightarrow> translate h (buffer + of_nat k) = Some (P + of_nat k)"
    and d: "blocks_disjoint 0x1D014000 0x4380 P 1024"
  shows "\<exists>h'. flash_write1Kbuffer ctl buffer h = Some (1024, h') \<and> tlb h' = tlb h \<and>
    (\<forall>i<128. ram h' (0x1D017F80 + of_nat i) = ram h (P + of_nat i)) \<and>
    (\<forall>i. 128 \<le> i \<longrightarrow> i < 1024 \<longrightarrow> ram h' (0x1D017F80 + of_nat i) = ram h (0x1D017F80 + of_nat i) AND ram h (P + of_nat i)) \<and>
    (\<forall>i<16256. ram h' (0x1D014000 + of_nat i) = 0xFF)"
proof -
  obtain h1 where h1: "NVMErasePage ctl pageFlash h = Some (0, h1)" "tlb h1 = tlb h" "count_src h1 = count_src h"
    "ram h1 = (\<lambda>x. if drop_bit 14 x = drop_bit 14 (pageFlash AND 0x1FFFFFFF) then 0xFF else ram h x)"
    using NVMErasePage_done [OF fc tk] by blast
  have pg: "drop_bit 14 x = drop_bit 14 (pageFlash AND 0x1FFFFFFF) \<longleftrightarrow> in_block 0x1D014000 0x4000 x" for x
  proof -
    have "drop_bit 14 x = drop_bit 14 (pageFlash AND 0x1FFFFFFF) \<longleftrightarrow> unat (drop_bit 14 x) = 0x7405"
      by (simp add: word_unat_eq_iff pageFlash_def)
    also have "\<dots> \<longleftrightarrow> unat x div 16384 = 0x7405" by (simp add: unat_div drop_bit_eq_div)
    finally show ?thesis by (auto simp: in_block_def unat_sub_if')
  qed
  have d': "blocks_disjoint 0x1D017F80 1024 P 1024"
    using blocks_disjoint_sub [OF d, of "0x3F80" 1024 0 1024] by simp
  have "\<exists>h'. flash_write_quads ctl buffer [0..<64] h1 = Some h' \<and> ram h' = programmed (ram h1) 0x1D017F80 P 1024 \<and> tlb h' = tlb h"
    using flash_write_quads_done [OF fc d' b, of 0 h1 "ram h1"] h1 tk by (simp add: programmed_def)
  then obtain h' where h': "flash_write1Kbuffer ctl buffer h = Some (1024, h')" "ram h' = programmed (ram h1) 0x1D017F80 P 1024"
    "tlb h' = tlb h"
    using h1(1) by (auto simp: flash_write1Kbuffer_def)
  have src: "ram h1 (P + of_nat i) = ram h (P + of_nat i)" if "i < 1024" for i
  proof -
    have "in_block P 1024 (P + of_nat i)" using that by (simp add: in_block_def unat_of_nat_small)
    then have "\<not> in_block 0x1D014000 0x4380 (P + of_nat i)" using d by (auto simp: blocks_disjoint_def)
    then show ?thesis unfolding h1(4) pg by (simp add: in_block_def)
  qed
  have dst: "ram h1 (0x1D017F80 + of_nat i) = (if i < 128 then 0xFF else ram h (0x1D017F80 + of_nat i))" if "i < 1024" for i
  proof -
    have "0x1D017F80 + of_nat i - 0x1D014000 = (of_nat (0x3F80 + i) :: u32)" by simp
    moreover have "unat (of_nat (0x3F80 + i) :: u32) = 0x3F80 + i" using that by (intro unat_of_nat_small) simp
    ultimately show ?thesis unfolding h1(4) pg by (simp add: in_block_def)
  qed
  have "ram h' (0x1D017F80 + of_nat i) = ram h1 (0x1D017F80 + of_nat i) AND ram h (P + of_nat i)" if "i < 1024" for i
    using that src [OF that] by (simp add: h'(2) programmed_def unat_of_nat_small)
  moreover have "ram h' (0x1D014000 + of_nat i) = 0xFF" if "i < 16256" for i
  proof -
    have u: "unat (of_nat i :: u32) = i" using that by (intro unat_of_nat_small) simp
    then have "unat (0x1D014000 + of_nat i :: u32) = 0x1D014000 + i"
      using that by (subst unat_add_small) simp_all
    with u show ?thesis using that unfolding h'(2) programmed_def h1(4) pg by (simp add: in_block_def unat_sub_if')
  qed
  moreover have "255 AND y = y" for y :: u8
  proof -
    have "(255 :: u8) = - 1" by simp
    then show ?thesis by (simp only: and.left_neutral)
  qed
  ultimately show ?thesis using h' dst by auto
qed

end
