(* ===== verification/Sha256.thy ===== *)
theory Sha256
  imports CMem
begin

text \<open>
  SHA-256, \<^verbatim>\<open>cryptography/sha256.c\<close>: the incremental interface (\<open>sha256_init\<close>, \<open>sha256_update\<close>,
  \<open>sha256_final\<close>) that the hypervisor uses to measure the images of the virtual machines.

  The reference it is compared with is the standard's own form: pad the message with a one bit, zeros
  and its length in bits, cut it into 64-byte blocks and fold the compression function over them.
\<close>

record SHA256_CTX =
  ctx_data :: "u8 list"
  datalen :: u32
  bitlen :: u64
  ctx_state :: "u32 list"

abbreviation (input) "SHA256_BLOCK_SIZE \<equiv> 32 :: nat"

definition ROTRIGHT :: "u32 \<Rightarrow> nat \<Rightarrow> u32" where
  "ROTRIGHT a b = (drop_bit b a OR push_bit (32 - b) a)"

definition CH :: "u32 \<Rightarrow> u32 \<Rightarrow> u32 \<Rightarrow> u32" where
  "CH x y z = (x AND y) XOR (NOT x AND z)"

definition MAJ :: "u32 \<Rightarrow> u32 \<Rightarrow> u32 \<Rightarrow> u32" where
  "MAJ x y z = (x AND y) XOR (x AND z) XOR (y AND z)"

definition EP0 :: "u32 \<Rightarrow> u32" where
  "EP0 x = ROTRIGHT x 2 XOR ROTRIGHT x 13 XOR ROTRIGHT x 22"

definition EP1 :: "u32 \<Rightarrow> u32" where
  "EP1 x = ROTRIGHT x 6 XOR ROTRIGHT x 11 XOR ROTRIGHT x 25"

definition SIG0 :: "u32 \<Rightarrow> u32" where
  "SIG0 x = ROTRIGHT x 7 XOR ROTRIGHT x 18 XOR drop_bit 3 x"

definition SIG1 :: "u32 \<Rightarrow> u32" where
  "SIG1 x = ROTRIGHT x 17 XOR ROTRIGHT x 19 XOR drop_bit 10 x"

definition sha_k :: "u32 list" where
  "sha_k = concat [
    [0x428a2f98,0x71374491,0xb5c0fbcf,0xe9b5dba5,0x3956c25b,0x59f111f1,0x923f82a4,0xab1c5ed5],
    [0xd807aa98,0x12835b01,0x243185be,0x550c7dc3,0x72be5d74,0x80deb1fe,0x9bdc06a7,0xc19bf174],
    [0xe49b69c1,0xefbe4786,0x0fc19dc6,0x240ca1cc,0x2de92c6f,0x4a7484aa,0x5cb0a9dc,0x76f988da],
    [0x983e5152,0xa831c66d,0xb00327c8,0xbf597fc7,0xc6e00bf3,0xd5a79147,0x06ca6351,0x14292967],
    [0x27b70a85,0x2e1b2138,0x4d2c6dfc,0x53380d13,0x650a7354,0x766a0abb,0x81c2c92e,0x92722c85],
    [0xa2bfe8a1,0xa81a664b,0xc24b8b70,0xc76c51a3,0xd192e819,0xd6990624,0xf40e3585,0x106aa070],
    [0x19a4c116,0x1e376c08,0x2748774c,0x34b0bcb5,0x391c0cb3,0x4ed8aa4a,0x5b9cca4f,0x682e6ff3],
    [0x748f82ee,0x78a5636f,0x84c87814,0x8cc70208,0x90befffa,0xa4506ceb,0xbef9a3f7,0xc67178f2]]"

text \<open>\<open>data[j] << 24\<close> with \<open>j = 4 * i\<close>: the message words are big-endian.\<close>

definition word_at :: "u8 list \<Rightarrow> nat \<Rightarrow> u32" where
  "word_at d i = push_bit 24 (ucast (d ! (4 * i))) OR push_bit 16 (ucast (d ! (4 * i + 1)))
     OR push_bit 8 (ucast (d ! (4 * i + 2))) OR ucast (d ! (4 * i + 3))"

primrec schedule :: "nat \<Rightarrow> u32 list \<Rightarrow> u32 list" where
  "schedule 0 m = m"
| "schedule (Suc n) m =
     (let i = length m
      in schedule n (m @ [SIG1 (m ! (i - 2)) + m ! (i - 7) + SIG0 (m ! (i - 15)) + m ! (i - 16)]))"

type_synonym sha_regs = "u32 \<times> u32 \<times> u32 \<times> u32 \<times> u32 \<times> u32 \<times> u32 \<times> u32"

definition sha_round :: "u32 list \<Rightarrow> sha_regs \<Rightarrow> nat \<Rightarrow> sha_regs" where
  "sha_round m r i = (case r of (a, b, c, d, e, f, g, h) \<Rightarrow>
     (let t1 = h + EP1 e + CH e f g + sha_k ! i + m ! i;
          t2 = EP0 a + MAJ a b c
      in (t1 + t2, a, b, c, d + t1, e, f, g)))"

definition sha_block :: "u32 list \<Rightarrow> u8 list \<Rightarrow> u32 list" where
  "sha_block st d =
     (let m = schedule 48 (map (word_at d) [0..<16]);
          (a, b, c, d, e, f, g, h) = foldl (sha_round m)
            (st ! 0, st ! 1, st ! 2, st ! 3, st ! 4, st ! 5, st ! 6, st ! 7) [0..<64]
      in [st ! 0 + a, st ! 1 + b, st ! 2 + c, st ! 3 + d, st ! 4 + e, st ! 5 + f, st ! 6 + g, st ! 7 + h])"

definition sha256_transform :: "SHA256_CTX \<Rightarrow> u8 list \<Rightarrow> SHA256_CTX" where
  "sha256_transform ctx d = ctx\<lparr>ctx_state := sha_block (ctx_state ctx) d\<rparr>"

definition sha_init_state :: "u32 list" where
  "sha_init_state = [0x6a09e667, 0xbb67ae85, 0x3c6ef372, 0xa54ff53a,
     0x510e527f, 0x9b05688c, 0x1f83d9ab, 0x5be0cd19]"

definition sha256_init :: "SHA256_CTX \<Rightarrow> SHA256_CTX" where
  "sha256_init ctx = ctx\<lparr>datalen := 0, bitlen := 0, ctx_state := sha_init_state\<rparr>"

text \<open>One byte of \<open>sha256_update\<close>; \<open>ctx->data\<close> has 64 bytes.\<close>

definition sha256_byte :: "SHA256_CTX \<Rightarrow> u8 \<Rightarrow> SHA256_CTX" where
  "sha256_byte ctx b =
     (let ctx = ctx\<lparr>ctx_data := (ctx_data ctx)[unat (datalen ctx) := b]\<rparr>;
          ctx = ctx\<lparr>datalen := datalen ctx + 1\<rparr>
      in if datalen ctx = 64 then
           (let ctx = sha256_transform ctx (ctx_data ctx);
                ctx = ctx\<lparr>bitlen := bitlen ctx + 512\<rparr>
            in ctx\<lparr>datalen := 0\<rparr>)
         else ctx)"

definition sha256_update :: "SHA256_CTX \<Rightarrow> u8 list \<Rightarrow> SHA256_CTX" where
  "sha256_update ctx d = foldl sha256_byte ctx d"

text \<open>\<open>ctx->data[i] = b; ... while (i < n) ctx->data[i++] = 0\<close>\<close>

definition pad_data :: "u8 list \<Rightarrow> nat \<Rightarrow> nat \<Rightarrow> u8 list" where
  "pad_data d i n = foldl (\<lambda>d j. d[j := 0]) (d[i := 0x80]) [Suc i..<n]"

definition put_bitlen :: "u64 \<Rightarrow> u8 list \<Rightarrow> u8 list" where
  "put_bitlen n d = d[63 := ucast n, 62 := ucast (drop_bit 8 n), 61 := ucast (drop_bit 16 n),
     60 := ucast (drop_bit 24 n), 59 := ucast (drop_bit 32 n), 58 := ucast (drop_bit 40 n),
     57 := ucast (drop_bit 48 n), 56 := ucast (drop_bit 56 n)]"

definition be_bytes :: "u32 \<Rightarrow> u8 list" where
  "be_bytes w = map (\<lambda>i. ucast (drop_bit (24 - i * 8) w AND 0xFF)) [0..<4]"

definition sha256_final :: "SHA256_CTX \<Rightarrow> SHA256_CTX \<times> u8 list" where
  "sha256_final ctx =
     (let i = unat (datalen ctx);
          ctx = (if datalen ctx < 56 then ctx\<lparr>ctx_data := pad_data (ctx_data ctx) i 56\<rparr>
                 else (let ctx = ctx\<lparr>ctx_data := pad_data (ctx_data ctx) i 64\<rparr>;
                           ctx = sha256_transform ctx (ctx_data ctx)
                       in ctx\<lparr>ctx_data := replicate 56 0 @ drop 56 (ctx_data ctx)\<rparr>));
          ctx = ctx\<lparr>bitlen := bitlen ctx + ucast (datalen ctx * 8)\<rparr>;
          ctx = ctx\<lparr>ctx_data := put_bitlen (bitlen ctx) (ctx_data ctx)\<rparr>;
          ctx = sha256_transform ctx (ctx_data ctx)
      in (ctx, concat (map be_bytes (ctx_state ctx))))"

subsection \<open>The standard's form\<close>

definition sha_pad :: "u8 list \<Rightarrow> u8 list" where
  "sha_pad msg = msg @ [0x80] @ replicate ((119 - length msg mod 64) mod 64) 0 @
     map (\<lambda>i. ucast (drop_bit (56 - 8 * i) (of_nat (8 * length msg) :: u64))) [0..<8]"

function blocks64 :: "u8 list \<Rightarrow> u8 list list" where
  "blocks64 d = (if length d < 64 then [] else take 64 d # blocks64 (drop 64 d))"
  by pat_completeness auto
termination by (relation "measure length") auto

declare blocks64.simps [simp del]

definition sha256_spec :: "u8 list \<Rightarrow> u8 list" where
  "sha256_spec msg = concat (map be_bytes (foldl sha_block sha_init_state (blocks64 (sha_pad msg))))"

subsection \<open>The incremental interface computes the standard's digest\<close>

lemma blocks64_append:
  "64 dvd length xs \<Longrightarrow> blocks64 (xs @ ys) = blocks64 xs @ blocks64 ys"
proof (induction xs rule: blocks64.induct)
  case (1 d)
  show ?case
  proof (cases "d = []")
    case True
    then show ?thesis by (simp add: blocks64.simps [of "[]"])
  next
    case False
    with 1(2) have len: "64 \<le> length d" by (intro dvd_imp_le) simp_all
    have "64 dvd length (drop 64 d)" using 1(2) len by (simp add: dvd_diff_nat)
    then have "blocks64 (drop 64 d @ ys) = blocks64 (drop 64 d) @ blocks64 ys" using 1(1) len by simp
    then show ?thesis using len by (simp add: blocks64.simps [of "d @ ys"] blocks64.simps [of d])
  qed
qed

lemma blocks64_one: "length d = 64 \<Longrightarrow> blocks64 d = [d]"
  by (simp add: blocks64.simps [of d] blocks64.simps [of "[]"])

text \<open>The context after the message \<open>full @ rest\<close>, of which \<open>full\<close> has been compressed.\<close>

definition sha_inv :: "SHA256_CTX \<Rightarrow> u8 list \<Rightarrow> u8 list \<Rightarrow> bool" where
  "sha_inv ctx full rest \<longleftrightarrow> 64 dvd length full \<and> length rest < 64 \<and> datalen ctx = of_nat (length rest) \<and>
     length (ctx_data ctx) = 64 \<and> take (length rest) (ctx_data ctx) = rest \<and>
     bitlen ctx = of_nat (8 * length full) \<and>
     ctx_state ctx = foldl sha_block sha_init_state (blocks64 full)"

lemma sha_inv_init: "length (ctx_data ctx) = 64 \<Longrightarrow> sha_inv (sha256_init ctx) [] []"
  by (simp add: sha_inv_def sha256_init_def blocks64.simps)

lemma sha_inv_byte:
  assumes "sha_inv ctx full rest"
  shows "sha_inv (sha256_byte ctx b) (if length rest = 63 then full @ rest @ [b] else full)
     (if length rest = 63 then [] else rest @ [b])"
proof -
  let ?r = "length rest"
  have a: "64 dvd length full" "?r < 64" "datalen ctx = of_nat ?r" "length (ctx_data ctx) = 64"
    "take ?r (ctx_data ctx) = rest" "bitlen ctx = of_nat (8 * length full)"
    "ctx_state ctx = foldl sha_block sha_init_state (blocks64 full)" using assms by (auto simp: sha_inv_def)
  have u: "unat (datalen ctx) = ?r" unfolding a(3) using a(2) by (intro unat_of_nat_small) simp
  let ?d = "(ctx_data ctx)[?r := b]"
  have td: "take (Suc ?r) ?d = rest @ [b]"
    using a(2,4,5) by (simp add: take_Suc_conv_app_nth)
  have n64: "datalen ctx + 1 = 64 \<longleftrightarrow> ?r = 63"
  proof -
    have "unat (datalen ctx + 1) = Suc ?r" using u a(2) by (subst unat_add_small) simp_all
    then show ?thesis by (auto simp: word_unat_eq_iff)
  qed
  show ?thesis
  proof (cases "?r = 63")
    case True
    then have dd: "?d = rest @ [b]" using td a(4) by simp
    have "blocks64 (full @ rest @ [b]) = blocks64 full @ [rest @ [b]]"
      using blocks64_append [OF a(1), of "rest @ [b]"] blocks64_one [of "rest @ [b]"] True by simp
    moreover have "64 dvd length (full @ rest @ [b])" using a(1) True by simp
    ultimately show ?thesis
      using True a n64 u dd
      by (simp add: sha_inv_def sha256_byte_def sha256_transform_def Let_def)
  next
    case False
    then show ?thesis
      using a n64 u td by (simp add: sha_inv_def sha256_byte_def Let_def)
  qed
qed

lemma sha_inv_update:
  assumes "length (ctx_data ctx) = 64"
  shows "\<exists>full rest. msg = full @ rest \<and> sha_inv (sha256_update (sha256_init ctx) msg) full rest"
proof (induction msg rule: rev_induct)
  case Nil
  then show ?case using sha_inv_init [OF assms] by (auto simp: sha256_update_def)
next
  case (snoc b msg)
  then obtain full rest where m: "msg = full @ rest" "sha_inv (sha256_update (sha256_init ctx) msg) full rest" by blast
  have up: "sha256_update (sha256_init ctx) (msg @ [b]) = sha256_byte (sha256_update (sha256_init ctx) msg) b"
    by (simp add: sha256_update_def)
  note st = sha_inv_byte [OF m(2), of b]
  show ?case
  proof (cases "length rest = 63")
    case True
    then show ?thesis using st m(1) unfolding up
      by (intro exI [of _ "full @ rest @ [b]"] exI [of _ "[]"]) simp
  next
    case False
    then show ?thesis using st m(1) unfolding up
      by (intro exI [of _ full] exI [of _ "rest @ [b]"]) simp
  qed
qed

lemma zero_fill:
  "a \<le> n \<Longrightarrow> n \<le> length d \<Longrightarrow>
   foldl (\<lambda>d j. d[j := 0]) d [a..<n] = take a d @ replicate (n - a) 0 @ drop n d"
proof (induction n)
  case (Suc n)
  show ?case
  proof (cases "a = Suc n")
    case False
    then have "foldl (\<lambda>d j. d[j := 0]) d [a..<Suc n] = (take a d @ replicate (n - a) 0 @ drop n d)[n := 0]"
      using Suc by simp
    also have "\<dots> = take a d @ replicate (Suc n - a) 0 @ drop (Suc n) d"
      using Suc.prems False
      by (simp add: list_update_append Cons_nth_drop_Suc [symmetric] Suc_diff_le replicate_append_same [symmetric])
    finally show ?thesis .
  qed simp
qed simp

lemma pad_data_eq:
  "i < n \<Longrightarrow> n \<le> length d \<Longrightarrow> pad_data d i n = take i d @ [0x80] @ replicate (n - Suc i) 0 @ drop n d"
  using zero_fill [of "Suc i" n "d[i := 0x80]"] by (simp add: pad_data_def take_Suc_conv_app_nth)

definition len_bytes :: "u64 \<Rightarrow> u8 list" where
  "len_bytes n = map (\<lambda>i. ucast (drop_bit (56 - 8 * i) n)) [0..<8]"

lemma put_bitlen_eq: "length d = 64 \<Longrightarrow> put_bitlen n d = take 56 d @ len_bytes n"
proof -
  assume len: "length d = 64"
  have lb: "len_bytes n = [ucast (drop_bit 56 n), ucast (drop_bit 48 n), ucast (drop_bit 40 n), ucast (drop_bit 32 n),
     ucast (drop_bit 24 n), ucast (drop_bit 16 n), ucast (drop_bit 8 n), ucast n]"
    by (simp add: len_bytes_def upt_rec)
  obtain x0 x1 x2 x3 x4 x5 x6 x7 where x: "drop 56 d = [x0, x1, x2, x3, x4, x5, x6, x7]"
  proof -
    have "\<exists>x0 x1 x2 x3 x4 x5 x6 x7. ys = [x0, x1, x2, x3, x4, x5, x6, x7]" if "length ys = 8" for ys :: "u8 list"
      using that by (auto simp: length_Suc_conv eval_nat_numeral)
    from this [of "drop 56 d"] len that show thesis by auto
  qed
  have "d = take 56 d @ [x0, x1, x2, x3, x4, x5, x6, x7]" using x by (metis append_take_drop_id)
  moreover have "length (take 56 d) = 56" using len by simp
  ultimately obtain t where t: "d = t @ [x0, x1, x2, x3, x4, x5, x6, x7]" "length t = 56" by blast
  then show ?thesis by (simp add: put_bitlen_def lb list_update_append)
qed


text \<open>The padding that \<open>sha256_final\<close> builds is the standard's.\<close>

lemma sha_pad_split:
  assumes "64 dvd length full" and "length rest < 64"
  shows "sha_pad (full @ rest) = full @ rest @ [0x80] @
    replicate (if length rest < 56 then 55 - length rest else 119 - length rest) 0 @
    len_bytes (of_nat (8 * length (full @ rest)))"
proof -
  have "length (full @ rest) mod 64 = length rest" using assms by (auto simp: mod_add_left_eq elim!: dvdE)
  then have "(119 - length (full @ rest) mod 64) mod 64 = (if length rest < 56 then 55 - length rest else 119 - length rest)"
    using assms(2) by (auto simp: mod_if)
  then show ?thesis by (simp add: sha_pad_def len_bytes_def)
qed

lemma length_len_bytes [simp]: "length (len_bytes n) = 8"
  by (simp add: len_bytes_def)

lemma sha256_final_inv:
  assumes "sha_inv ctx full rest"
  shows "snd (sha256_final ctx) = sha256_spec (full @ rest)"
proof -
  let ?r = "length rest" and ?msg = "full @ rest"
  have a: "64 dvd length full" "?r < 64" "datalen ctx = of_nat ?r" "length (ctx_data ctx) = 64"
    "take ?r (ctx_data ctx) = rest" "bitlen ctx = of_nat (8 * length full)"
    "ctx_state ctx = foldl sha_block sha_init_state (blocks64 full)" using assms by (auto simp: sha_inv_def)
  have u: "unat (datalen ctx) = ?r" unfolding a(3) using a(2) by (intro unat_of_nat_small) simp
  have bl: "bitlen ctx + ucast (datalen ctx * 8) = of_nat (8 * length ?msg)"
  proof -
    have "unat (datalen ctx * 8) = ?r * 8" using u a(2) by (simp add: unat_word_ariths)
    then have "ucast (datalen ctx * 8) = (of_nat (?r * 8) :: u64)"
      by (metis of_nat_unat)
    then show ?thesis using a(6) by (simp add: algebra_simps)
  qed
  let ?lb = "len_bytes (of_nat (8 * length ?msg))"
  show ?thesis
  proof (cases "?r < 56")
    case True
    have d: "datalen ctx < 56" using True u by (simp add: word_less_nat_alt)
    let ?d = "rest @ [0x80] @ replicate (55 - ?r) 0 @ ?lb"
    have "put_bitlen (of_nat (8 * length ?msg)) (pad_data (ctx_data ctx) ?r 56) = ?d"
    proof -
      have "56 - ?r = Suc (55 - ?r)" using True by simp
      then show ?thesis using True a(4,5) by (subst put_bitlen_eq) (simp_all add: pad_data_eq)
    qed
    then have "snd (sha256_final ctx) = concat (map be_bytes (sha_block (ctx_state ctx) ?d))"
      using d u bl by (simp add: sha256_final_def sha256_transform_def Let_def)
    moreover have "blocks64 (sha_pad ?msg) = blocks64 full @ [?d]"
      using sha_pad_split [OF a(1,2)] True blocks64_append [OF a(1), of ?d] blocks64_one [of ?d] by simp
    ultimately show ?thesis by (simp add: sha256_spec_def a(7))
  next
    case False
    have d: "\<not> datalen ctx < 56" using False u by (simp add: word_less_nat_alt)
    let ?d1 = "rest @ [0x80] @ replicate (63 - ?r) 0" and ?d2 = "replicate 56 0 @ ?lb"
    have p: "pad_data (ctx_data ctx) ?r 64 = ?d1" using a(2,4,5) by (simp add: pad_data_eq)
    have l1: "length ?d1 = 64" using a(2) by simp
    have "put_bitlen (of_nat (8 * length ?msg)) (replicate 56 0 @ drop 56 ?d1) = ?d2"
      using l1 by (subst put_bitlen_eq) simp_all
    then have "snd (sha256_final ctx) = concat (map be_bytes (sha_block (sha_block (ctx_state ctx) ?d1) ?d2))"
      using d u bl p by (simp add: sha256_final_def sha256_transform_def Let_def)
    moreover have "blocks64 (sha_pad ?msg) = blocks64 full @ [?d1, ?d2]"
    proof -
      have "replicate (119 - ?r) (0 :: u8) = replicate (63 - ?r) 0 @ replicate 56 0"
        using a(2) by (simp add: replicate_add [symmetric])
      then have "sha_pad ?msg = full @ ?d1 @ ?d2" using sha_pad_split [OF a(1,2)] False by simp
      then show ?thesis
        using blocks64_append [OF a(1), of "?d1 @ ?d2"] blocks64_append [of ?d1 ?d2] l1
          blocks64_one [of ?d1] blocks64_one [of ?d2] by simp
    qed
    ultimately show ?thesis by (simp add: sha256_spec_def a(7))
  qed
qed

lemma sha256_correct:
  assumes "length (ctx_data ctx) = 64"
  shows "snd (sha256_final (sha256_update (sha256_init ctx) msg)) = sha256_spec msg"
  using sha_inv_update [OF assms, of msg] sha256_final_inv by metis

lemma length_sha_block: "length (sha_block st d) = 8"
  by (simp add: sha_block_def Let_def split: prod.splits)

lemma length_sha256_spec: "length (sha256_spec m) = 32"
proof -
  have "length (foldl sha_block st ds) = 8" if "length st = 8" for st ds
    using that by (induction ds arbitrary: st) (simp_all add: length_sha_block)
  then have "length (foldl sha_block sha_init_state (blocks64 (sha_pad m))) = 8" by (simp add: sha_init_state_def)
  moreover have "length (concat (map be_bytes ws)) = 4 * length ws" for ws
    by (induction ws) (simp_all add: be_bytes_def)
  ultimately show ?thesis by (simp add: sha256_spec_def)
qed

end
