(* ===== verification/Vli.thy ===== *)
theory Vli
  imports Prelude
begin

text \<open>
  The multi-precision integers of \<^verbatim>\<open>cryptography/uECC.c\<close> (the \<open>uECC_vli_\<close> functions), in the configuration of the
  hypervisor: 32-bit words, no assembly. A \<open>vli\<close> is an array of words, the least significant first. A function that writes
  \<open>num_words\<close> words through \<open>result\<close> returns them (and the carry or borrow, where it has one); that \<open>result\<close> may be one of
  the arguments makes no difference, since each word is read before it is written. \<open>vli_val\<close> is the number an array stands for,
  and the lemmas give each function in terms of it.
\<close>

type_synonym vli = "u32 list"

subsection \<open>Operations\<close>

definition uECC_vli_clear :: "nat \<Rightarrow> vli" where
  "uECC_vli_clear num_words = replicate num_words 0"

definition uECC_vli_set :: "vli \<Rightarrow> nat \<Rightarrow> vli" where
  "uECC_vli_set src num_words = take num_words src"

definition uECC_vli_isZero :: "vli \<Rightarrow> nat \<Rightarrow> bool" where
  "uECC_vli_isZero vli num_words \<longleftrightarrow> fold (\<lambda>w bits. bits OR w) (take num_words vli) 0 = 0"

definition uECC_vli_testBit :: "vli \<Rightarrow> nat \<Rightarrow> u32" where
  "uECC_vli_testBit vli k = vli ! (k div 32) AND push_bit (k mod 32) 1"

primrec vli_numDigits :: "vli \<Rightarrow> nat \<Rightarrow> nat" where
  "vli_numDigits vli 0 = 0"
| "vli_numDigits vli (Suc i) = (if vli ! i = 0 then vli_numDigits vli i else Suc i)"

text \<open>The loop that counts the bits of the highest digit.\<close>

function digit_bits :: "u32 \<Rightarrow> nat" where
  "digit_bits digit = (if digit = 0 then 0 else Suc (digit_bits (drop_bit 1 digit)))"
  by auto

termination
  by (relation "measure unat") (simp_all add: drop_bit_eq_div unat_div unat_gt_0)

definition uECC_vli_numBits :: "vli \<Rightarrow> nat \<Rightarrow> nat" where
  "uECC_vli_numBits vli max_words =
     (let num_digits = vli_numDigits vli max_words
      in if num_digits = 0 then 0 else 32 * (num_digits - 1) + digit_bits (vli ! (num_digits - 1)))"

primrec uECC_vli_cmp_unsafe :: "vli \<Rightarrow> vli \<Rightarrow> nat \<Rightarrow> int" where
  "uECC_vli_cmp_unsafe left right 0 = 0"
| "uECC_vli_cmp_unsafe left right (Suc i) =
     (if right ! i < left ! i then 1 else if left ! i < right ! i then - 1
      else uECC_vli_cmp_unsafe left right i)"

definition uECC_vli_equal :: "vli \<Rightarrow> vli \<Rightarrow> nat \<Rightarrow> bool" where
  "uECC_vli_equal left right num_words \<longleftrightarrow>
     fold (\<lambda>i diff. diff OR (left ! i XOR right ! i)) (rev [0..<num_words]) 0 = 0"

text \<open>The loops of addition and subtraction, from a word and a carry on.\<close>

fun vli_add_loop :: "vli \<Rightarrow> vli \<Rightarrow> u32 \<Rightarrow> vli \<times> u32" where
  "vli_add_loop (l # ls) (r # rs) carry =
     (let sum = l + r + carry;
          carry = (if sum \<noteq> l then (if sum < l then 1 else 0) else carry);
          (result, carry) = vli_add_loop ls rs carry
      in (sum # result, carry))"
| "vli_add_loop _ _ carry = ([], carry)"

definition uECC_vli_add :: "vli \<Rightarrow> vli \<Rightarrow> nat \<Rightarrow> vli \<times> u32" where
  "uECC_vli_add left right num_words = vli_add_loop (take num_words left) (take num_words right) 0"

fun vli_sub_loop :: "vli \<Rightarrow> vli \<Rightarrow> u32 \<Rightarrow> vli \<times> u32" where
  "vli_sub_loop (l # ls) (r # rs) borrow =
     (let diff = l - r - borrow;
          borrow = (if diff \<noteq> l then (if l < diff then 1 else 0) else borrow);
          (result, borrow) = vli_sub_loop ls rs borrow
      in (diff # result, borrow))"
| "vli_sub_loop _ _ borrow = ([], borrow)"

definition uECC_vli_sub :: "vli \<Rightarrow> vli \<Rightarrow> nat \<Rightarrow> vli \<times> u32" where
  "uECC_vli_sub left right num_words = vli_sub_loop (take num_words left) (take num_words right) 0"

definition uECC_vli_cmp :: "vli \<Rightarrow> vli \<Rightarrow> nat \<Rightarrow> int" where
  "uECC_vli_cmp left right num_words =
     (let (tmp, borrow) = uECC_vli_sub left right num_words;
          neg = (if borrow \<noteq> 0 then 1 else 0);
          eq = uECC_vli_isZero tmp num_words
      in (if \<not> eq then 1 else 0) - 2 * neg)"

text \<open>\<open>uECC_vli_rshift1\<close> goes from the most significant word down.\<close>

definition uECC_vli_rshift1 :: "vli \<Rightarrow> nat \<Rightarrow> vli" where
  "uECC_vli_rshift1 vli num_words =
     fst (foldr (\<lambda>temp (out, carry). ((drop_bit 1 temp OR carry) # out, push_bit 31 temp))
       (take num_words vli) ([], 0))"

subsection \<open>The value of an array\<close>

primrec vli_val :: "vli \<Rightarrow> nat" where
  "vli_val [] = 0"
| "vli_val (w # ws) = unat w + 2 ^ 32 * vli_val ws"

lemma vli_val_append: "vli_val (xs @ ys) = vli_val xs + 2 ^ (32 * length xs) * vli_val ys"
  by (induction xs) (simp_all add: algebra_simps power_add)

lemma vli_val_replicate [simp]: "vli_val (replicate n 0) = 0"
  by (induction n) simp_all

lemma vli_val_less: "vli_val ws < 2 ^ (32 * length ws)"
proof (induction ws)
  case (Cons w ws)
  have "unat w + 2 ^ 32 * vli_val ws < 2 ^ 32 * (vli_val ws + 1)" using unat_lt32 [of w] by simp
  also have "\<dots> \<le> 2 ^ 32 * 2 ^ (32 * length ws)" using Cons by (intro mult_left_mono) simp_all
  finally show ?case by (simp add: power_add)
qed simp

lemma vli_val_less': "length ws = n \<Longrightarrow> vli_val ws < 2 ^ (32 * n)"
  using vli_val_less [of ws] by simp

lemma digit_unique:
  fixes a b c d K :: nat
  assumes "a + K * c = b + K * d" and "a < K" and "b < K"
  shows "a = b \<and> c = d"
proof -
  have "a = (a + K * c) mod K" "b = (b + K * d) mod K" using assms(2,3) by simp_all
  then have ab: "a = b" using assms(1) by simp
  then have "K * c = K * d" using assms(1) by simp
  then show ?thesis using assms(2) ab by simp
qed

lemma vli_val_inj: "length xs = length ys \<Longrightarrow> vli_val xs = vli_val ys \<Longrightarrow> xs = ys"
proof (induction xs ys rule: list_induct2)
  case (Cons x xs y ys)
  then have "unat x = unat y \<and> vli_val xs = vli_val ys"
    using digit_unique [of "unat x" "2 ^ 32" "vli_val xs" "unat y" "vli_val ys"] unat_lt32 by auto
  then show ?case using Cons.IH by (simp add: word_unat_eq_iff)
qed simp

lemma vli_val_eq_iff: "length xs = length ys \<Longrightarrow> vli_val xs = vli_val ys \<longleftrightarrow> xs = ys"
  using vli_val_inj by blast

lemma vli_val_0_iff: "vli_val ws = 0 \<longleftrightarrow> (\<forall>w\<in>set ws. w = 0)"
  by (induction ws) (auto simp: unat_eq_zero)

lemma vli_val_mod: "0 < n \<Longrightarrow> n \<le> 32 \<Longrightarrow> ws \<noteq> [] \<Longrightarrow> vli_val ws mod 2 ^ n = unat (hd ws) mod 2 ^ n"
proof (cases ws)
  case (Cons w vs)
  assume n: "n \<le> 32"
  have "(2::nat) ^ n dvd 2 ^ 32" using n by (intro le_imp_power_dvd)
  then have "2 ^ n dvd 2 ^ 32 * vli_val vs" by (rule dvd_mult2)
  then show ?thesis unfolding Cons by (simp del: power_numeral) (metis mod_add_eq mod_0_imp_dvd add.right_neutral mod_mod_trivial dvd_imp_mod_0)
qed simp


subsection \<open>Comparisons\<close>

lemma fold_or_0: "fold (\<lambda>w bits. bits OR w) ws (a :: u32) = 0 \<longleftrightarrow> a = 0 \<and> (\<forall>w\<in>set ws. w = 0)"
  by (induction ws arbitrary: a) (auto simp: or_eq_0_iff)

lemma isZero_iff: "length vli = n \<Longrightarrow> uECC_vli_isZero vli n \<longleftrightarrow> vli_val vli = 0"
  by (simp add: uECC_vli_isZero_def fold_or_0 vli_val_0_iff)

lemma xor_0_iff: "a XOR b = 0 \<longleftrightarrow> a = b" for a b :: u32
  by (auto simp: bit_eq_iff bit_simps)

lemma fold_xor_0:
  "fold (\<lambda>i diff. diff OR (l ! i XOR r ! i)) is (a :: u32) = 0 \<longleftrightarrow> a = 0 \<and> (\<forall>i\<in>set is. l ! i = r ! i)"
  by (induction "is" arbitrary: a) (auto simp: or_eq_0_iff xor_0_iff)

lemma equal_iff: "length l = n \<Longrightarrow> length r = n \<Longrightarrow> uECC_vli_equal l r n \<longleftrightarrow> l = r"
  by (auto simp: uECC_vli_equal_def fold_xor_0 intro: nth_equalityI)

lemma vli_val_take_Suc:
  "i < length ws \<Longrightarrow> vli_val (take (Suc i) ws) = vli_val (take i ws) + 2 ^ (32 * i) * unat (ws ! i)"
  by (simp add: take_Suc_conv_app_nth vli_val_append)

lemma sgn_diff: "sgn (int a - int b) = (if b < a then 1 else if a < b then - 1 else 0)"
  by (simp add: sgn_if)

lemma cmp_unsafe_take:
  "i \<le> length l \<Longrightarrow> i \<le> length r \<Longrightarrow>
   uECC_vli_cmp_unsafe l r i = sgn (int (vli_val (take i l)) - int (vli_val (take i r)))"
proof (induction i)
  case (Suc i)
  let ?K = "2 ^ (32 * i) :: nat"
  have lt: "vli_val (take i l) < ?K" "vli_val (take i r) < ?K" using Suc.prems by (simp_all add: vli_val_less')
  have val: "vli_val (take (Suc i) l) = vli_val (take i l) + ?K * unat (l ! i)"
    "vli_val (take (Suc i) r) = vli_val (take i r) + ?K * unat (r ! i)"
    using Suc.prems by (simp_all add: vli_val_take_Suc)
  have step: "vli_val (take i a) + ?K * unat (a ! i) < vli_val (take i b) + ?K * unat (b ! i)"
    if "vli_val (take i a) < ?K" "a ! i < b ! i" for a b
  proof -
    have "vli_val (take i a) + ?K * unat (a ! i) < ?K * (unat (a ! i) + 1)" using that by simp
    also have "\<dots> \<le> ?K * unat (b ! i)" using that by (intro mult_left_mono) (simp_all add: word_less_nat_alt)
    finally show ?thesis by simp
  qed
  consider "r ! i < l ! i" | "l ! i < r ! i" | "l ! i = r ! i" by force
  then show ?case
  proof cases
    case 1
    with step [OF lt(2) 1] show ?thesis unfolding val sgn_diff by simp
  next
    case 2
    with step [OF lt(1) 2] show ?thesis unfolding val sgn_diff by auto
  next
    case 3
    with Suc show ?thesis unfolding val sgn_diff by simp
  qed
qed simp

lemma cmp_unsafe_sgn:
  "length l = n \<Longrightarrow> length r = n \<Longrightarrow> uECC_vli_cmp_unsafe l r n = sgn (int (vli_val l) - int (vli_val r))"
  using cmp_unsafe_take [of n l r] by simp

lemma cmp_unsafe_iff:
  assumes "length l = n" and "length r = n"
  shows "uECC_vli_cmp_unsafe l r n = 1 \<longleftrightarrow> vli_val r < vli_val l"
    and "0 < uECC_vli_cmp_unsafe l r n \<longleftrightarrow> vli_val r < vli_val l"
    and "uECC_vli_cmp_unsafe l r n < 0 \<longleftrightarrow> vli_val l < vli_val r"
    and "uECC_vli_cmp_unsafe l r n = 0 \<longleftrightarrow> vli_val l = vli_val r"
  by (auto simp: cmp_unsafe_sgn [OF assms] sgn_if)

subsection \<open>Addition, subtraction, shift\<close>

text \<open>One word: the carry out of \<open>l + r + c\<close>, read off by comparing the sum with \<open>l\<close>.\<close>

lemma word_sum_carry:
  fixes l r c :: u32
  assumes "c = 0 \<or> c = 1"
  defines "s \<equiv> l + r + c"
  defines "c' \<equiv> (if s \<noteq> l then (if s < l then 1 else 0) else c) :: u32"
  shows "unat s + 2 ^ 32 * unat c' = unat l + unat r + unat c" and "c' = 0 \<or> c' = 1"
proof -
  have s: "unat s = (unat l + unat r + unat c) mod 2 ^ 32"
    unfolding s_def by (simp add: unat_word_ariths mod_add_left_eq)
  have b: "unat l < 2 ^ 32" "unat r < 2 ^ 32" "unat c \<le> 1" using unat_lt32 assms(1) by auto
  have d: "unat s = (if unat l + unat r + unat c < 2 ^ 32 then unat l + unat r + unat c
    else unat l + unat r + unat c - 2 ^ 32)"
    using b unfolding s by (auto simp: mod_if)
  show "unat s + 2 ^ 32 * unat c' = unat l + unat r + unat c"
    using b d assms(1) unfolding c'_def by (auto simp: word_less_nat_alt word_unat_eq_iff split: if_splits)
  show "c' = 0 \<or> c' = 1" using assms(1) by (simp add: c'_def)
qed

lemma vli_add_loop_val:
  "length ls = length rs \<Longrightarrow> c = 0 \<or> c = 1 \<Longrightarrow> vli_add_loop ls rs c = (s, c') \<Longrightarrow>
   length s = length ls \<and> (c' = 0 \<or> c' = 1) \<and>
   vli_val s + 2 ^ (32 * length ls) * unat c' = vli_val ls + vli_val rs + unat c"
proof (induction ls rs arbitrary: c s c' rule: list_induct2)
  case (Cons l ls r rs)
  define k where "k = (if l + r + c \<noteq> l then (if l + r + c < l then 1 else 0) else c)"
  obtain t where t: "vli_add_loop ls rs k = (t, c')" "s = (l + r + c) # t"
    using Cons.prems(2) by (auto simp: k_def Let_def split: prod.splits)
  have w: "unat (l + r + c) + 2 ^ 32 * unat k = unat l + unat r + unat c" "k = 0 \<or> k = 1"
    using word_sum_carry [OF Cons.prems(1), of l r] by (simp_all add: k_def)
  from Cons.IH [OF w(2) t(1)] w(1) show ?case unfolding t(2) by (simp add: power_add)
qed auto

lemma add_val:
  assumes "uECC_vli_add l r n = (s, c)" and "length l = n" and "length r = n"
  shows "length s = n" and "c = 0 \<or> c = 1" and "vli_val s + 2 ^ (32 * n) * unat c = vli_val l + vli_val r"
  using vli_add_loop_val [of l r 0 s c] assms by (simp_all add: uECC_vli_add_def)

lemma word_diff_borrow:
  fixes l r c :: u32
  assumes "c = 0 \<or> c = 1"
  defines "s \<equiv> l - r - c"
  defines "c' \<equiv> (if s \<noteq> l then (if l < s then 1 else 0) else c) :: u32"
  shows "unat s + unat r + unat c = unat l + 2 ^ 32 * unat c'" and "c' = 0 \<or> c' = 1"
proof -
  have "l = s + r + c" by (simp add: s_def)
  then have s: "unat l = (unat s + unat r + unat c) mod 2 ^ 32"
    by (simp add: unat_word_ariths mod_add_left_eq)
  have b: "unat s < 2 ^ 32" "unat r < 2 ^ 32" "unat c \<le> 1" using unat_lt32 assms(1) by auto
  have d: "unat l = (if unat s + unat r + unat c < 2 ^ 32 then unat s + unat r + unat c
    else unat s + unat r + unat c - 2 ^ 32)"
    using b unfolding s by (auto simp: mod_if)
  show "unat s + unat r + unat c = unat l + 2 ^ 32 * unat c'"
    using b d assms(1) unfolding c'_def by (auto simp: word_less_nat_alt word_unat_eq_iff split: if_splits)
  show "c' = 0 \<or> c' = 1" using assms(1) by (simp add: c'_def)
qed

lemma vli_sub_loop_val:
  "length ls = length rs \<Longrightarrow> c = 0 \<or> c = 1 \<Longrightarrow> vli_sub_loop ls rs c = (s, c') \<Longrightarrow>
   length s = length ls \<and> (c' = 0 \<or> c' = 1) \<and>
   vli_val s + vli_val rs + unat c = vli_val ls + 2 ^ (32 * length ls) * unat c'"
proof (induction ls rs arbitrary: c s c' rule: list_induct2)
  case (Cons l ls r rs)
  define k where "k = (if l - r - c \<noteq> l then (if l < l - r - c then 1 else 0) else c)"
  obtain t where t: "vli_sub_loop ls rs k = (t, c')" "s = (l - r - c) # t"
    using Cons.prems(2) by (auto simp: k_def Let_def split: prod.splits)
  have w: "unat (l - r - c) + unat r + unat c = unat l + 2 ^ 32 * unat k" "k = 0 \<or> k = 1"
    using word_diff_borrow [OF Cons.prems(1), of l r] by (simp_all add: k_def)
  from Cons.IH [OF w(2) t(1)] w(1) show ?case unfolding t(2) by (simp add: power_add)
qed auto

lemma sub_val:
  assumes "uECC_vli_sub l r n = (s, c)" and "length l = n" and "length r = n"
  shows "length s = n" and "c = 0 \<or> c = 1" and "vli_val s + vli_val r = vli_val l + 2 ^ (32 * n) * unat c"
  using vli_sub_loop_val [of l r 0 s c] assms by (simp_all add: uECC_vli_sub_def)

lemma sub_borrow:
  assumes "uECC_vli_sub l r n = (s, c)" and "length l = n" and "length r = n"
  shows "c \<noteq> 0 \<longleftrightarrow> vli_val l < vli_val r"
    and "vli_val r \<le> vli_val l \<Longrightarrow> vli_val s = vli_val l - vli_val r"
    and "vli_val l < vli_val r \<Longrightarrow> vli_val s = vli_val l + 2 ^ (32 * n) - vli_val r"
  using sub_val [OF assms] vli_val_less' [of s n] vli_val_less' [OF assms(2)] vli_val_less' [OF assms(3)]
  by auto

lemma cmp_sgn:
  assumes "length l = n" and "length r = n"
  shows "uECC_vli_cmp l r n = sgn (int (vli_val l) - int (vli_val r))"
proof -
  obtain s c where s: "uECC_vli_sub l r n = (s, c)" by fastforce
  have "length s = n" using sub_val(1) [OF s assms] .
  then show ?thesis
    using sub_borrow [OF s assms] vli_val_less' [OF assms(2)] by (auto simp: uECC_vli_cmp_def s isZero_iff sgn_if)
qed

lemma or_top:
  fixes x c :: u32
  assumes "unat x < 2 ^ 31" and "c = 0 \<or> c = 2 ^ 31"
  shows "unat (x OR c) = unat x + unat c"
proof -
  have "x = take_bit 31 x"
    using assms(1) by (simp add: word_unat_eq_iff unsigned_take_bit_eq take_bit_nat_eq_self)
  then have "\<not> bit x 31" by (metis bit_take_bit_iff less_irrefl)
  then have "x AND 2 ^ 31 = 0" by (simp only: and_exp_eq_0_iff_not_bit not_False_eq_True)
  then have "x AND c = 0" using assms(2) by auto
  then have "x OR c = x + c" using disjunctive_add_eq_or by metis
  moreover have "unat c \<le> 2 ^ 31" using assms(2) by auto
  ultimately show ?thesis using assms(1) by (simp only:) (rule unat_add_small, simp)
qed

lemma push_bit_31: "unat (push_bit 31 (w :: u32)) = 2 ^ 31 * (unat w mod 2)"
proof -
  have "unat (push_bit 31 w) = take_bit 32 (push_bit 31 (unat w))" by (simp only: unsigned_push_bit_eq) simp
  also have "\<dots> = push_bit 31 (take_bit 1 (unat w))" by (simp only: take_bit_push_bit) simp
  finally show ?thesis by (simp only: push_bit_eq_mult take_bit_eq_mod) simp
qed

lemma push_bit_31_cases: "push_bit 31 (w :: u32) = 0 \<or> push_bit 31 w = 2 ^ 31"
  using push_bit_31 [of w] by (cases "even (unat w)") (auto simp: word_unat_eq_iff odd_iff_mod_2_eq_one)

lemma half_step:
  fixes a b :: nat
  shows "(a + 2 ^ 32 * b) div 2 = a div 2 + 2 ^ 31 * (b mod 2) + 2 ^ 32 * (b div 2)"
    and "(a + 2 ^ 32 * b) mod 2 = a mod 2"
proof -
  have e: "2 ^ 32 * b = 2 * (2 ^ 31 * b)" by simp
  moreover have "2 ^ 31 * b = 2 ^ 31 * (b mod 2) + 2 ^ 32 * (b div 2)"
    by (subst mult_div_mod_eq [of 2 b, symmetric]) (simp only: distrib_left, simp)
  ultimately show "(a + 2 ^ 32 * b) div 2 = a div 2 + 2 ^ 31 * (b mod 2) + 2 ^ 32 * (b div 2)" by simp
  show "(a + 2 ^ 32 * b) mod 2 = a mod 2" unfolding e by (rule mod_mult_self2)
qed

lemma rshift1_foldr:
  fixes ws :: vli
  defines "r \<equiv> foldr (\<lambda>temp (out, carry). ((drop_bit 1 temp OR carry) # out, push_bit 31 temp)) ws ([], 0)"
  shows "length (fst r) = length ws \<and> vli_val (fst r) = vli_val ws div 2 \<and>
    unat (snd r) = 2 ^ 31 * (vli_val ws mod 2)"
  unfolding r_def
proof (induction ws)
  case (Cons w ws)
  obtain ot c where oc: "foldr (\<lambda>temp (out, carry). ((drop_bit 1 temp OR carry) # out, push_bit 31 temp)) ws ([], 0) = (ot, c)"
    by fastforce
  have IH: "length ot = length ws" "vli_val ot = vli_val ws div 2" "unat c = 2 ^ 31 * (vli_val ws mod 2)"
    using Cons unfolding oc by simp_all
  have d: "unat (drop_bit 1 w) = unat w div 2" by (simp add: drop_bit_eq_div unat_div)
  have "c = 0 \<or> c = 2 ^ 31"
    using IH(3) by (cases "even (vli_val ws)") (auto simp: word_unat_eq_iff odd_iff_mod_2_eq_one)
  then have "unat (drop_bit 1 w OR c) = unat w div 2 + 2 ^ 31 * (vli_val ws mod 2)"
    using or_top [of "drop_bit 1 w" c] unat_lt32 [of w] unfolding d IH(3) by simp
  moreover have "(unat w + 2 ^ 32 * vli_val ws) div 2 = unat w div 2 + 2 ^ 31 * (vli_val ws mod 2) + 2 ^ 32 * (vli_val ws div 2)"
    and "(unat w + 2 ^ 32 * vli_val ws) mod 2 = unat w mod 2" by (rule half_step)+
  ultimately show ?case using IH push_bit_31 [of w] oc by simp
qed simp

lemma rshift1_val:
  assumes "length ws = n"
  shows "length (uECC_vli_rshift1 ws n) = n" and "vli_val (uECC_vli_rshift1 ws n) = vli_val ws div 2"
  using rshift1_foldr [of ws] assms by (simp_all add: uECC_vli_rshift1_def)


lemma vli_val_update:
  "i < length ws \<Longrightarrow> vli_val (ws[i := x]) + 2 ^ (32 * i) * unat (ws ! i) = vli_val ws + 2 ^ (32 * i) * unat x"
proof (induction ws arbitrary: i)
  case (Cons w ws)
  show ?case
  proof (cases i)
    case (Suc j)
    with Cons.IH [of j] Cons.prems show ?thesis by (simp add: power_add)
  qed simp
qed simp

lemma pow32_step: "0 < n \<Longrightarrow> (2 :: nat) ^ (32 * n) = 2 ^ (32 * (n - 1)) * 2 ^ 32"
  by (cases n) (simp_all only: power_add [symmetric] mult_Suc_right, simp_all)

text \<open>A shift that brings a bit in at the top.\<close>

lemma rshift1_top:
  assumes "length ws = n" and "0 < n" and "c = 0 \<or> c = 2 ^ 31"
  defines "t \<equiv> uECC_vli_rshift1 ws n"
  shows "vli_val (t[n - 1 := t ! (n - 1) OR c]) = vli_val ws div 2 + 2 ^ (32 * (n - 1)) * unat c"
proof -
  have t: "length t = n" "vli_val t = vli_val ws div 2" using rshift1_val [OF assms(1)] by (simp_all add: t_def)
  let ?K = "2 ^ (32 * (n - 1)) :: nat"
  have K: "2 ^ (32 * n) = ?K * 2 ^ 32" using assms(2) by (rule pow32_step)
  have "take n t = t" using t(1) by simp
  then have "?K * unat (t ! (n - 1)) \<le> vli_val t"
    using vli_val_take_Suc [of "n - 1" t] t(1) assms(2) by simp
  also have "vli_val t < ?K * 2 ^ 31" using vli_val_less' [OF assms(1)] unfolding t(2) K by simp
  finally have "unat (t ! (n - 1)) < 2 ^ 31" using mult_less_cancel1 by blast
  then have "unat (t ! (n - 1) OR c) = unat (t ! (n - 1)) + unat c" using or_top assms(3) by blast
  then show ?thesis using vli_val_update [of "n - 1" t "t ! (n - 1) OR c"] t assms(2) by (simp add: distrib_left)
qed

lemma rshift1_carry:
  assumes "length ws = n" and "0 < n" and "c = 0 \<or> c = 1"
  defines "t \<equiv> uECC_vli_rshift1 ws n"
  shows "vli_val (t[n - 1 := t ! (n - 1) OR push_bit 31 c]) = (vli_val ws + 2 ^ (32 * n) * unat c) div 2"
proof -
  have "unat (push_bit 31 c) = 2 ^ 31 * unat c" using assms(3) by (auto simp: push_bit_31)
  then have "2 ^ (32 * n) * unat c = 2 * (2 ^ (32 * (n - 1)) * unat (push_bit 31 c))"
    unfolding pow32_step [OF assms(2)] by simp
  then show ?thesis using rshift1_top [OF assms(1,2) push_bit_31_cases, of c] unfolding t_def by simp
qed

text \<open>The shift of an array in two halves.\<close>

lemma rshift1_halves:
  assumes "length lo = n" and "length hi = n" and "0 < n"
  defines "t \<equiv> uECC_vli_rshift1 lo n"
  shows "vli_val (t[n - 1 := t ! (n - 1) OR push_bit 31 (hi ! 0)] @ uECC_vli_rshift1 hi n) = vli_val (lo @ hi) div 2"
proof -
  have t: "length t = n" using rshift1_val [OF assms(1)] by (simp add: t_def)
  obtain w ws where hi: "hi = w # ws" using assms(2,3) by (cases hi) auto
  let ?K = "2 ^ (32 * (n - 1)) :: nat" let ?h = "vli_val hi div 2" let ?b = "unat w mod 2"
  have "vli_val hi mod 2 = ?b" unfolding hi by (simp add: half_step(2) del: power_numeral)
  then have h: "vli_val hi = 2 * ?h + ?b" by (metis mult_div_mod_eq)
  have "vli_val (lo @ hi) = vli_val lo + 2 * (?K * 2 ^ 31 * vli_val hi)"
    using assms(1) by (simp add: vli_val_append pow32_step [OF assms(3)])
  then have "vli_val (lo @ hi) div 2 = vli_val lo div 2 + ?K * 2 ^ 31 * vli_val hi" by simp
  also have "?K * 2 ^ 31 * vli_val hi = ?K * 2 ^ 32 * ?h + ?K * (2 ^ 31 * ?b)"
    by (subst h) (simp add: algebra_simps)
  finally show ?thesis
    using rshift1_top [OF assms(1,3) push_bit_31_cases, of w] rshift1_val [OF assms(2)] t
    unfolding t_def [symmetric] hi by (simp add: vli_val_append push_bit_31 pow32_step [OF assms(3)])
qed

subsection \<open>Bits\<close>

lemma testBit_iff:
  "k < 32 * length ws \<Longrightarrow> uECC_vli_testBit ws k \<noteq> 0 \<longleftrightarrow> odd (vli_val ws div 2 ^ k)"
proof (induction ws arbitrary: k)
  case (Cons w ws)
  show ?case
  proof (cases "k < 32")
    case True
    have "uECC_vli_testBit (w # ws) k \<noteq> 0 \<longleftrightarrow> bit w k"
      using True by (simp add: uECC_vli_testBit_def and_exp_eq_0_iff_not_bit)
    also have "\<dots> \<longleftrightarrow> odd (unat w div 2 ^ k)"
      using bit_iff_odd [of "unat w" k] by (simp add: bit_unsigned_iff)
    also have "\<dots> \<longleftrightarrow> odd (vli_val (w # ws) div 2 ^ k)"
    proof -
      have "(2::nat) ^ 32 = 2 ^ k * (2 * 2 ^ (31 - k))" using True by (simp flip: power_add power_Suc del: power_numeral)
      then have "vli_val (w # ws) = unat w + 2 ^ k * (2 * (2 ^ (31 - k) * vli_val ws))"
        by (simp only: vli_val.simps mult.assoc)
      then have "vli_val (w # ws) div 2 ^ k = 2 * (2 ^ (31 - k) * vli_val ws) + unat w div 2 ^ k"
        by (simp only:) (rule div_mult_self2, simp)
      then show ?thesis by (simp only: even_add even_mult_iff) simp
    qed
    finally show ?thesis .
  next
    case False
    then have k: "k = 32 + (k - 32)" "k - 32 < 32 * length ws" using Cons.prems by auto
    have "uECC_vli_testBit (w # ws) k = uECC_vli_testBit ws (k - 32)"
      using False by (simp add: uECC_vli_testBit_def le_div_geq le_mod_geq)
    moreover have "vli_val (w # ws) div 2 ^ k = vli_val ws div 2 ^ (k - 32)"
    proof -
      have "vli_val (w # ws) div 2 ^ k = vli_val (w # ws) div 2 ^ 32 div 2 ^ (k - 32)"
        by (subst k(1)) (simp only: power_add div_mult2_eq)
      moreover have "vli_val (w # ws) div 2 ^ 32 = vli_val ws" using unat_lt32 [of w] by simp
      ultimately show ?thesis by (simp only:)
    qed
    ultimately show ?thesis using Cons.IH [OF k(2)] by (simp only:)
  qed
qed simp

lemma digit_bits_bounds:
  "unat d < 2 ^ digit_bits d" "d \<noteq> 0 \<Longrightarrow> 2 ^ (digit_bits d - 1) \<le> unat d" "d \<noteq> 0 \<Longrightarrow> 0 < digit_bits d"
proof (induction d rule: digit_bits.induct)
  case (1 d)
  have h: "unat (drop_bit 1 d) = unat d div 2" by (simp add: drop_bit_eq_div unat_div)
  {
    case 1
    then show ?case using "1.IH"(1) h by (cases "d = 0") (auto simp: digit_bits.simps [of d])
  next
    case 2
    then show ?case using "1.IH"(2,3) h
      by (cases "drop_bit 1 d = 0") (auto simp: digit_bits.simps [of d] unat_eq_zero Suc_le_eq unat_gt_0)
  next
    case 3
    then show ?case by (simp add: digit_bits.simps [of d])
  }
qed

lemma numDigits_bound: "vli_numDigits ws i \<le> i"
  by (induction i) auto

lemma numDigits_take:
  "i \<le> length ws \<Longrightarrow> vli_val (take i ws) = vli_val (take (vli_numDigits ws i) ws)"
  by (induction i) (auto simp: vli_val_take_Suc)

lemma numDigits_nonzero: "0 < vli_numDigits ws i \<Longrightarrow> ws ! (vli_numDigits ws i - 1) \<noteq> 0"
  by (induction i) (auto split: if_splits)

text \<open>\<open>uECC_vli_numBits\<close> is the length in bits.\<close>

lemma numBits_bounds:
  assumes "length ws = n"
  shows "vli_val ws < 2 ^ uECC_vli_numBits ws n"
    and "vli_val ws \<noteq> 0 \<Longrightarrow> 2 ^ (uECC_vli_numBits ws n - 1) \<le> vli_val ws"
    and "uECC_vli_numBits ws n = 0 \<longleftrightarrow> vli_val ws = 0"
proof -
  define d where "d = vli_numDigits ws n"
  have dn: "d \<le> n" by (simp add: d_def numDigits_bound)
  have v: "vli_val ws = vli_val (take d ws)" using numDigits_take [of n ws] assms by (simp add: d_def)
  have "vli_val ws < 2 ^ uECC_vli_numBits ws n \<and>
    (vli_val ws \<noteq> 0 \<longrightarrow> 2 ^ (uECC_vli_numBits ws n - 1) \<le> vli_val ws) \<and>
    (uECC_vli_numBits ws n = 0 \<longleftrightarrow> vli_val ws = 0)"
  proof (cases d)
    case 0
    then show ?thesis using v by (simp_all add: uECC_vli_numBits_def d_def)
  next
    case (Suc e)
    let ?w = "ws ! e" let ?b = "digit_bits ?w" let ?K = "2 ^ (32 * e) :: nat"
    have w: "?w \<noteq> 0" using numDigits_nonzero [of ws n] Suc by (simp add: d_def)
    have nb: "uECC_vli_numBits ws n = 32 * e + ?b" using Suc by (simp add: uECC_vli_numBits_def d_def)
    have ve: "vli_val ws = vli_val (take e ws) + ?K * unat ?w"
      using v Suc dn assms by (simp add: vli_val_take_Suc)
    have lo: "vli_val (take e ws) < ?K" using Suc dn assms by (simp add: vli_val_less')
    note b = digit_bits_bounds(1) [of ?w] digit_bits_bounds(2,3) [OF w]
    have "vli_val ws < ?K * (unat ?w + 1)" using ve lo by simp
    also have "\<dots> \<le> ?K * 2 ^ ?b" using b(1) by (intro mult_left_mono) simp_all
    finally have 1: "vli_val ws < 2 ^ uECC_vli_numBits ws n" unfolding nb by (simp only: power_add)
    have "?K * 2 ^ (?b - 1) \<le> ?K * unat ?w" using b(2) by (rule mult_left_mono) simp
    moreover have "uECC_vli_numBits ws n - 1 = 32 * e + (?b - 1)" using b(3) by (simp add: nb)
    ultimately have 2: "2 ^ (uECC_vli_numBits ws n - 1) \<le> vli_val ws" by (simp only: ve power_add)
    have "0 < unat ?w" using w by (simp add: unat_gt_0)
    then have "vli_val ws \<noteq> 0" unfolding ve by simp
    then show ?thesis using b(3) 1 2 by (simp add: nb)
  qed
  then show "vli_val ws < 2 ^ uECC_vli_numBits ws n"
    and "vli_val ws \<noteq> 0 \<Longrightarrow> 2 ^ (uECC_vli_numBits ws n - 1) \<le> vli_val ws"
    and "uECC_vli_numBits ws n = 0 \<longleftrightarrow> vli_val ws = 0" by blast+
qed

end
