(* ===== verification/VliMod.thy ===== *)
theory VliMod
  imports Vli Complex_Main
begin

text \<open>
  Multiplication, reduction and inversion of the multi-precision integers of \<^verbatim>\<open>uECC.c\<close>. \<open>mult_val\<close>, \<open>mmod_val\<close> and
  \<open>modMult_val\<close> say that they compute the product and the remainder exactly; \<open>modInv_total\<close> that the inversion returns,
  for every odd modulus, and what.
\<close>

subsection \<open>Operations\<close>

definition muladd :: "u32 \<Rightarrow> u32 \<Rightarrow> u32 \<times> u32 \<times> u32 \<Rightarrow> u32 \<times> u32 \<times> u32" where
  "muladd a b r =
     (let (r0, r1, r2) = r;
          p = (ucast a * ucast b :: u64);
          r01 = push_bit 32 (ucast r1) OR ucast r0;
          r01 = r01 + p;
          r2 = r2 + (if r01 < p then 1 else 0)
      in (ucast r01, ucast (drop_bit 32 r01), r2))"

text \<open>One digit of the result: the products \<open>left[i] * right[k - i]\<close> are added, the lowest word stored, and the rest
  carried over.\<close>

definition mult_digit :: "vli \<Rightarrow> vli \<Rightarrow> nat \<Rightarrow> nat list \<Rightarrow> vli \<times> (u32 \<times> u32 \<times> u32) \<Rightarrow> vli \<times> (u32 \<times> u32 \<times> u32)" where
  "mult_digit left right k is = (\<lambda>(result, r).
     let (r0, r1, r2) = fold (\<lambda>i. muladd (left ! i) (right ! (k - i))) is r
     in (result @ [r0], (r1, r2, 0)))"

definition uECC_vli_mult :: "vli \<Rightarrow> vli \<Rightarrow> nat \<Rightarrow> vli" where
  "uECC_vli_mult left right num_words =
     (let st = fold (\<lambda>k. mult_digit left right k [0..<Suc k]) [0..<num_words] ([], (0, 0, 0));
          (result, r) = fold (\<lambda>k. mult_digit left right k [k + 1 - num_words..<num_words])
            [num_words..<num_words * 2 - 1] st
      in result @ [fst r])"

definition uECC_vli_modAdd :: "vli \<Rightarrow> vli \<Rightarrow> vli \<Rightarrow> nat \<Rightarrow> vli" where
  "uECC_vli_modAdd left right md num_words =
     (let (result, carry) = uECC_vli_add left right num_words
      in if carry \<noteq> 0 \<or> uECC_vli_cmp_unsafe md result num_words \<noteq> 1
         then fst (uECC_vli_sub result md num_words) else result)"

definition uECC_vli_modSub :: "vli \<Rightarrow> vli \<Rightarrow> vli \<Rightarrow> nat \<Rightarrow> vli" where
  "uECC_vli_modSub left right md num_words =
     (let (result, l_borrow) = uECC_vli_sub left right num_words
      in if l_borrow \<noteq> 0 then fst (uECC_vli_add result md num_words) else result)"

text \<open>\<open>uECC_vli_mmod\<close>: \<open>mod_multiple\<close>, an array of \<open>2 * num_words\<close> words, starts as \<open>mod\<close> shifted to the top. A shift of more
  than \<open>num_words\<close> words and 31 bits would write behind its end; the model has the words that are inside.\<close>

fun shift_words :: "nat \<Rightarrow> vli \<Rightarrow> u32 \<Rightarrow> vli" where
  "shift_words bit_shift [] carry = []"
| "shift_words bit_shift (w # ws) carry =
     (push_bit bit_shift w OR carry) # shift_words bit_shift ws (drop_bit (32 - bit_shift) w)"

definition mmod_start :: "vli \<Rightarrow> nat \<Rightarrow> nat \<Rightarrow> vli" where
  "mmod_start md num_words shift =
     (let word_shift = shift div 32; bit_shift = shift mod 32
      in uECC_vli_clear word_shift @
         (if 0 < bit_shift then shift_words bit_shift (take num_words md) 0 else uECC_vli_set md num_words))"

definition mmod_shift :: "vli \<Rightarrow> nat \<Rightarrow> vli" where
  "mmod_shift mod_multiple num_words =
     (let lo = uECC_vli_rshift1 (take num_words mod_multiple) num_words;
          lo = lo[num_words - 1 := lo ! (num_words - 1) OR push_bit 31 (mod_multiple ! num_words)]
      in lo @ uECC_vli_rshift1 (drop num_words mod_multiple) num_words)"

text \<open>The loop, for \<open>shift\<close> going down to 0: \<open>v\<close> are the two buffers, the current one is \<open>v ! index\<close>.\<close>

primrec mmod_loop :: "nat \<Rightarrow> nat \<Rightarrow> vli list \<Rightarrow> nat \<Rightarrow> vli \<Rightarrow> vli" where
  "mmod_loop num_words 0 v index mod_multiple = uECC_vli_set (v ! index) num_words"
| "mmod_loop num_words (Suc shift) v index mod_multiple =
     (let (diff, borrow) = uECC_vli_sub (v ! index) mod_multiple (num_words * 2)
      in mmod_loop num_words shift (v[1 - index := diff])
           (if index = (if borrow = 0 then 0 else 1) then 1 else 0) (mmod_shift mod_multiple num_words))"

definition uECC_vli_mmod :: "vli \<Rightarrow> vli \<Rightarrow> nat \<Rightarrow> vli" where
  "uECC_vli_mmod product md num_words =
     (let shift = num_words * 2 * 32 - uECC_vli_numBits md num_words
      in mmod_loop num_words (Suc shift) [uECC_vli_clear (2 * num_words), product] 1 (mmod_start md num_words shift))"

definition uECC_vli_modMult :: "vli \<Rightarrow> vli \<Rightarrow> vli \<Rightarrow> nat \<Rightarrow> vli" where
  "uECC_vli_modMult left right md num_words = uECC_vli_mmod (uECC_vli_mult left right num_words) md num_words"

definition EVEN :: "vli \<Rightarrow> bool" where
  "EVEN vli \<longleftrightarrow> vli ! 0 AND 1 = 0"

definition vli_modInv_update :: "vli \<Rightarrow> vli \<Rightarrow> nat \<Rightarrow> vli" where
  "vli_modInv_update uv md num_words =
     (let (uv, carry) = (if EVEN uv then (uv, 0) else uECC_vli_add uv md num_words);
          uv = uECC_vli_rshift1 uv num_words
      in if carry \<noteq> 0 then uv[num_words - 1 := uv ! (num_words - 1) OR 0x80000000] else uv)"

partial_function (option) modInv_loop :: "vli \<Rightarrow> nat \<Rightarrow> vli \<Rightarrow> vli \<Rightarrow> vli \<Rightarrow> vli \<Rightarrow> vli option" where
  "modInv_loop md n a b u v =
     (let cmpResult = uECC_vli_cmp_unsafe a b n in
      if cmpResult = 0 then Some u
      else if EVEN a then modInv_loop md n (uECC_vli_rshift1 a n) b (vli_modInv_update u md n) v
      else if EVEN b then modInv_loop md n a (uECC_vli_rshift1 b n) u (vli_modInv_update v md n)
      else if 0 < cmpResult then
        (let a = fst (uECC_vli_sub a b n);
             a = uECC_vli_rshift1 a n;
             u = (if uECC_vli_cmp_unsafe u v n < 0 then fst (uECC_vli_add u md n) else u);
             u = fst (uECC_vli_sub u v n)
         in modInv_loop md n a b (vli_modInv_update u md n) v)
      else
        (let b = fst (uECC_vli_sub b a n);
             b = uECC_vli_rshift1 b n;
             v = (if uECC_vli_cmp_unsafe v u n < 0 then fst (uECC_vli_add v md n) else v);
             v = fst (uECC_vli_sub v u n)
         in modInv_loop md n a b u (vli_modInv_update v md n)))"

definition uECC_vli_modInv :: "vli \<Rightarrow> vli \<Rightarrow> nat \<Rightarrow> vli option" where
  "uECC_vli_modInv input md num_words =
     (if uECC_vli_isZero input num_words then Some (uECC_vli_clear num_words)
      else modInv_loop md num_words (uECC_vli_set input num_words) (uECC_vli_set md num_words)
        ((uECC_vli_clear num_words)[0 := 1]) (uECC_vli_clear num_words))"


subsection \<open>Multiplication\<close>

definition acc3 :: "u32 \<times> u32 \<times> u32 \<Rightarrow> nat" where
  "acc3 r = (case r of (r0, r1, r2) \<Rightarrow> unat r0 + 2 ^ 32 * unat r1 + 2 ^ 64 * unat r2)"

lemma unat_ucast_u64: "unat (ucast (a :: u32) :: u64) = unat a"
  using unat_lt32 [of a] by (simp add: unsigned_ucast_eq take_bit_nat_eq_self)

lemma unat_concat_64: "unat (push_bit 32 (ucast (b :: u32)) OR ucast (a :: u32) :: u64) = unat a + 2 ^ 32 * unat b"
proof -
  let ?p = "push_bit 32 (ucast b) :: u64" let ?a = "ucast a :: u64"
  have "unat ?p = take_bit 64 (push_bit 32 (unat b))" by (simp only: unsigned_push_bit_eq unat_ucast_u64) simp
  also have "\<dots> = push_bit 32 (take_bit 32 (unat b))" by (simp only: take_bit_push_bit) simp
  finally have p: "unat ?p = 2 ^ 32 * unat b" using unat_lt32 [of b] by (simp add: push_bit_eq_mult take_bit_nat_eq_self)
  have "?p AND ?a = 0" by (intro bit_word_eqI) (auto simp: bit_simps dest: bit_imp_le_length)
  then have "?p OR ?a = ?p + ?a" using disjunctive_add_eq_or by metis
  then have "unat (?p OR ?a) = unat ?p + unat ?a"
    using unat_lt32 [of a] unat_lt32 [of b] by (simp only:) (rule unat_add_small, simp add: p unat_ucast_u64)
  then show ?thesis by (simp add: p unat_ucast_u64)
qed

lemma split_64:
  "unat (ucast (s :: u64) :: u32) = unat s mod 2 ^ 32" "unat (ucast (drop_bit 32 s) :: u32) = unat s div 2 ^ 32"
proof -
  show "unat (ucast s :: u32) = unat s mod 2 ^ 32" by (simp add: unsigned_ucast_eq take_bit_eq_mod)
  have "unat s < 2 ^ LENGTH(64)" by (rule unsigned_less)
  then have "unat s < 2 ^ 32 * 2 ^ 32" by simp
  then have "unat s div 2 ^ 32 < 2 ^ 32" by (rule less_mult_imp_div_less)
  then show "unat (ucast (drop_bit 32 s) :: u32) = unat s div 2 ^ 32"
    by (simp add: unsigned_ucast_eq drop_bit_eq_div unat_div take_bit_nat_eq_self)
qed

lemma sum_carry_64:
  fixes x p :: u64
  shows "unat (x + p) + 2 ^ 64 * (if x + p < p then 1 else 0) = unat x + unat p"
proof -
  have b: "unat x < 2 ^ 64" "unat p < 2 ^ 64" using unsigned_less [of x] unsigned_less [of p] by simp_all
  have s: "unat (x + p) = (unat x + unat p) mod 2 ^ 64" by (simp add: unat_word_ariths)
  have "unat (x + p) = (if unat x + unat p < 2 ^ 64 then unat x + unat p else unat x + unat p - 2 ^ 64)"
    using b unfolding s by (auto simp: mod_if)
  then show ?thesis using b by (auto simp: word_less_nat_alt split: if_splits)
qed

lemma word_mult_bound: "unat (a :: u32) * unat (b :: u32) \<le> (2 ^ 32 - 1) * (2 ^ 32 - 1)"
  using unat_lt32 [of a] unat_lt32 [of b] by (intro mult_le_mono) simp_all

lemma muladd_acc:
  assumes "acc3 r + unat a * unat b < 2 ^ 96"
  shows "acc3 (muladd a b r) = acc3 r + unat a * unat b"
proof -
  obtain r0 r1 r2 where r: "r = (r0, r1, r2)" by (cases r)
  define p where "p = (ucast a * ucast b :: u64)"
  define x where "x = (push_bit 32 (ucast r1) OR ucast r0 :: u64)"
  define k where "k = (if x + p < p then 1 else 0 :: u32)"
  have p: "unat p = unat a * unat b"
    using word_mult_bound [of a b] unfolding p_def by (subst unat_mult_lem [THEN iffD1]) (simp_all add: unat_ucast_u64)
  have x: "unat x = unat r0 + 2 ^ 32 * unat r1" unfolding x_def by (rule unat_concat_64)
  have s: "unat (x + p) + 2 ^ 64 * unat k = unat x + unat p" using sum_carry_64 [of x p] by (auto simp: k_def)
  have "2 ^ 64 * (unat r2 + unat k) \<le> acc3 r + unat a * unat b"
    using s by (simp add: r acc3_def x p)
  then have "unat r2 + unat k < 2 ^ 32" using assms by simp
  then have r2: "unat (r2 + k) = unat r2 + unat k" by (intro unat_add_small) simp
  have "muladd a b r = (ucast (x + p), ucast (drop_bit 32 (x + p)), r2 + k)"
    by (simp add: muladd_def r p_def x_def k_def Let_def)
  moreover have "unat (x + p) mod 2 ^ 32 + 2 ^ 32 * (unat (x + p) div 2 ^ 32) = unat (x + p)" by (rule mod_mult_div_eq)
  ultimately show ?thesis using s by (simp only: acc3_def split_64 [of "x + p"] r2 r x p prod.case) simp
qed

lemma fold_muladd_acc:
  assumes "acc3 r + length is * 2 ^ 64 \<le> 2 ^ 96"
  shows "acc3 (fold (\<lambda>i. muladd (l ! i) (q ! (k - i))) is r) = acc3 r + (\<Sum>i\<leftarrow>is. unat (l ! i) * unat (q ! (k - i)))"
  using assms
proof (induction "is" arbitrary: r)
  case (Cons i "is")
  let ?m = "unat (l ! i) * unat (q ! (k - i))"
  have "?m < 2 ^ 64" using word_mult_bound [of "l ! i" "q ! (k - i)"] by simp
  then have "acc3 (muladd (l ! i) (q ! (k - i)) r) = acc3 r + ?m"
    and "acc3 r + ?m + length is * 2 ^ 64 \<le> 2 ^ 96" using Cons.prems by (auto intro: muladd_acc)
  with Cons.IH [of "muladd (l ! i) (q ! (k - i)) r"] show ?case by simp
qed simp


lemma mult_digit_val:
  assumes "mult_digit l q k is (res, r) = (res', r')" and "acc3 r + length is * 2 ^ 64 \<le> 2 ^ 96"
  shows "\<exists>w. res' = res @ [w] \<and>
      unat w + 2 ^ 32 * acc3 r' = acc3 r + (\<Sum>i\<leftarrow>is. unat (l ! i) * unat (q ! (k - i))) \<and> acc3 r' < 2 ^ 64"
proof -
  obtain r0 r1 r2 where f: "fold (\<lambda>i. muladd (l ! i) (q ! (k - i))) is r = (r0, r1, r2)"
    using prod_cases3 by blast
  have "acc3 (r0, r1, r2) = acc3 r + (\<Sum>i\<leftarrow>is. unat (l ! i) * unat (q ! (k - i)))"
    using fold_muladd_acc [OF assms(2), of l q k] f by simp
  moreover have "res' = res @ [r0]" "r' = (r1, r2, 0)" using assms(1) f by (simp_all add: mult_digit_def)
  ultimately show ?thesis using unat_lt32 [of r1] unat_lt32 [of r2] by (simp add: acc3_def)
qed

text \<open>A run of digits: the words stored, and the rest, stand for the sum of the columns.\<close>

lemma fold_mult_digit:
  assumes "\<And>k. k \<in> set ks \<Longrightarrow> length (rng k) < 2 ^ 31" and "acc3 r < 2 ^ 64"
    and "fold (\<lambda>k. mult_digit l q k (rng k)) ks (res, r) = (res', r')"
    and "\<And>j. j < length ks \<Longrightarrow> ks ! j = length res + j"
  shows "length res' = length res + length ks \<and> acc3 r' < 2 ^ 64 \<and>
    vli_val res' + 2 ^ (32 * length res') * acc3 r' = vli_val res + 2 ^ (32 * length res) * acc3 r +
      (\<Sum>k\<leftarrow>ks. (\<Sum>i\<leftarrow>rng k. unat (l ! i) * unat (q ! (k - i))) * 2 ^ (32 * k))"
  using assms
proof (induction ks arbitrary: res r)
  case (Cons k ks)
  let ?c = "\<Sum>i\<leftarrow>rng k. unat (l ! i) * unat (q ! (k - i))"
  obtain res1 r1 where st: "mult_digit l q k (rng k) (res, r) = (res1, r1)"
    by (cases "mult_digit l q k (rng k) (res, r)")
  have k: "k = length res" using Cons.prems(4) [of 0] by simp
  have "length (rng k) * 2 ^ 64 \<le> (2 ^ 31 - 1) * 2 ^ 64"
    using Cons.prems(1) [of k] by (intro mult_le_mono1) simp
  then have "acc3 r + length (rng k) * 2 ^ 64 \<le> 2 ^ 96" using Cons.prems(2) by simp
  from mult_digit_val [OF st this] obtain w where w: "res1 = res @ [w]"
    "unat w + 2 ^ 32 * acc3 r1 = acc3 r + ?c" "acc3 r1 < 2 ^ 64" by blast
  have A: "length res' = length res1 + length ks" "acc3 r' < 2 ^ 64"
    "vli_val res' + 2 ^ (32 * length res') * acc3 r' = vli_val res1 + 2 ^ (32 * length res1) * acc3 r1 +
      (\<Sum>k\<leftarrow>ks. (\<Sum>i\<leftarrow>rng k. unat (l ! i) * unat (q ! (k - i))) * 2 ^ (32 * k))"
  proof -
    have "ks ! j = length res1 + j" if "j < length ks" for j using Cons.prems(4) [of "Suc j"] w(1) that by simp
    moreover have "fold (\<lambda>k. mult_digit l q k (rng k)) ks (res1, r1) = (res', r')" using Cons.prems(3) st by simp
    ultimately show "length res' = length res1 + length ks" "acc3 r' < 2 ^ 64"
      "vli_val res' + 2 ^ (32 * length res') * acc3 r' = vli_val res1 + 2 ^ (32 * length res1) * acc3 r1 +
        (\<Sum>k\<leftarrow>ks. (\<Sum>i\<leftarrow>rng k. unat (l ! i) * unat (q ! (k - i))) * 2 ^ (32 * k))"
      using Cons.IH [of r1 res1] Cons.prems(1) w(3) by auto
  qed
  have "vli_val res1 + 2 ^ (32 * length res1) * acc3 r1 = vli_val res + 2 ^ (32 * length res) * (unat w + 2 ^ 32 * acc3 r1)"
    unfolding w(1) by (simp add: vli_val_append power_add distrib_left)
  note A(3) [unfolded this w(2)]
  then show ?case using A(1,2) w(1) by (simp add: k distrib_left mult.commute)
qed simp

lemma vli_val_sum: "vli_val ws = (\<Sum>i<length ws. unat (ws ! i) * (2 ^ 32) ^ i)"
proof (induction ws)
  case (Cons w ws)
  have "(\<Sum>i<length (w # ws). unat ((w # ws) ! i) * (2 ^ 32) ^ i)
      = unat w + (\<Sum>i<length ws. unat (ws ! i) * (2 ^ 32) ^ Suc i)"
    by (simp only: length_Cons sum.lessThan_Suc_shift nth_Cons_0 nth_Cons_Suc power_0 mult_1_right)
  also have "(\<Sum>i<length ws. unat (ws ! i) * (2 ^ 32) ^ Suc i) = 2 ^ 32 * vli_val ws"
    unfolding Cons sum_distrib_left by (intro sum.cong) (simp_all only: power_Suc mult.left_commute)
  finally show ?case by simp
qed simp


text \<open>The product of two numbers, by columns.\<close>

lemma vli_product_columns:
  assumes "length l = n" and "length q = n" and "0 < n"
  shows "vli_val l * vli_val q = (\<Sum>k<2 * n - 1. (\<Sum>i\<in>{k + 1 - n..<min (Suc k) n}. unat (l ! i) * unat (q ! (k - i))) * (2 ^ 32) ^ k)"
proof -
  define a where "a i = (if i < n then unat (l ! i) else 0)" for i
  define b where "b i = (if i < n then unat (q ! i) else 0)" for i
  let ?x = "2 ^ 32 :: nat"
  have n: "{..n - 1} = {..<n}" "{..(n - 1) + (n - 1)} = {..<2 * n - 1}" using assms(3) by auto
  have v: "vli_val l = (\<Sum>i\<le>n - 1. a i * ?x ^ i)" "vli_val q = (\<Sum>i\<le>n - 1. b i * ?x ^ i)"
    unfolding vli_val_sum assms(1,2) n by (auto intro!: sum.cong simp: a_def b_def)
  have "vli_val l * vli_val q = (\<Sum>k\<le>(n - 1) + (n - 1). (\<Sum>i\<le>k. a i * b (k - i)) * ?x ^ k)"
    unfolding v by (rule polynomial_product_nat) (auto simp: a_def b_def)
  also have "\<dots> = (\<Sum>k<2 * n - 1. (\<Sum>i\<in>{k + 1 - n..<min (Suc k) n}. unat (l ! i) * unat (q ! (k - i))) * ?x ^ k)"
    unfolding n(2)
  proof (rule sum.cong [OF refl])
    fix k assume "k \<in> {..<2 * n - 1}"
    have "(\<Sum>i\<le>k. a i * b (k - i)) = (\<Sum>i\<in>{k + 1 - n..<min (Suc k) n}. a i * b (k - i))"
      by (rule sum.mono_neutral_right) (auto simp: a_def b_def)
    also have "\<dots> = (\<Sum>i\<in>{k + 1 - n..<min (Suc k) n}. unat (l ! i) * unat (q ! (k - i)))"
      by (rule sum.cong) (auto simp: a_def b_def)
    finally show "(\<Sum>i\<le>k. a i * b (k - i)) * ?x ^ k =
      (\<Sum>i\<in>{k + 1 - n..<min (Suc k) n}. unat (l ! i) * unat (q ! (k - i))) * ?x ^ k" by (simp only:)
  qed
  finally show ?thesis .
qed

lemma mult_val:
  assumes "length l = n" and "length q = n" and "0 < n" and "n < 2 ^ 30"
  shows "length (uECC_vli_mult l q n) = 2 * n" and "vli_val (uECC_vli_mult l q n) = vli_val l * vli_val q"
proof -
  let ?m = "\<lambda>k i. unat (l ! i) * unat (q ! (k - i))"
  obtain res1 r1 where f1: "fold (\<lambda>k. mult_digit l q k [0..<Suc k]) [0..<n] ([], (0, 0, 0)) = (res1, r1)"
    by (cases "fold (\<lambda>k. mult_digit l q k [0..<Suc k]) [0..<n] ([], (0, 0, 0))")
  obtain res2 r2 where f2: "fold (\<lambda>k. mult_digit l q k [k + 1 - n..<n]) [n..<2 * n - 1] (res1, r1) = (res2, r2)"
    by (cases "fold (\<lambda>k. mult_digit l q k [k + 1 - n..<n]) [n..<2 * n - 1] (res1, r1)")
  have 1: "length res1 = n" "acc3 r1 < 2 ^ 64"
    "vli_val res1 + 2 ^ (32 * n) * acc3 r1 = (\<Sum>k\<leftarrow>[0..<n]. (\<Sum>i\<leftarrow>[0..<Suc k]. ?m k i) * 2 ^ (32 * k))"
    using fold_mult_digit [of "[0..<n]" "\<lambda>k. [0..<Suc k]", OF _ _ f1] assms(4) by (auto simp: acc3_def simp del: upt_Suc)
  have 2: "length res2 = 2 * n - 1" "acc3 r2 < 2 ^ 64"
    "vli_val res2 + 2 ^ (32 * (2 * n - 1)) * acc3 r2 = vli_val res1 + 2 ^ (32 * n) * acc3 r1 +
      (\<Sum>k\<leftarrow>[n..<2 * n - 1]. (\<Sum>i\<leftarrow>[k + 1 - n..<n]. ?m k i) * 2 ^ (32 * k))"
  proof -
    have r: "length [k + 1 - n..<n] < 2 ^ 31" for k using assms(4) by simp
    have "[n..<2 * n - 1] ! j = length res1 + j" if "j < length [n..<2 * n - 1]" for j using that 1(1) by simp
    note f = fold_mult_digit [of "[n..<2 * n - 1]" "\<lambda>k. [k + 1 - n..<n]", OF r 1(2) f2 this]
    moreover have "length res1 + length [n..<2 * n - 1] = 2 * n - 1" using 1(1) assms(3) by simp
    ultimately show l: "length res2 = 2 * n - 1" and "acc3 r2 < 2 ^ 64" by simp_all
    show "vli_val res2 + 2 ^ (32 * (2 * n - 1)) * acc3 r2 = vli_val res1 + 2 ^ (32 * n) * acc3 r1 +
      (\<Sum>k\<leftarrow>[n..<2 * n - 1]. (\<Sum>i\<leftarrow>[k + 1 - n..<n]. ?m k i) * 2 ^ (32 * k))" 
      using f unfolding l 1(1) by blast
  qed
  obtain w0 w1 w2 where r2: "r2 = (w0, w1, w2)" by (cases r2)
  have res: "uECC_vli_mult l q n = res2 @ [w0]"
    using f1 f2 r2 by (simp add: uECC_vli_mult_def mult.commute del: upt_Suc)
  show "length (uECC_vli_mult l q n) = 2 * n" unfolding res using 2(1) assms(3) by simp
  define g where "g k = (\<Sum>i\<in>{k + 1 - n..<min (Suc k) n}. ?m k i) * (2 ^ 32) ^ k" for k
  have "(\<Sum>k\<leftarrow>[0..<n]. (\<Sum>i\<leftarrow>[0..<Suc k]. ?m k i) * 2 ^ (32 * k)) = sum g {..<n}"
    unfolding interv_sum_list_conv_sum_set_nat set_upt g_def
    by (rule sum.cong) (auto simp: power_mult simp del: power_numeral)
  moreover have "(\<Sum>k\<leftarrow>[n..<2 * n - 1]. (\<Sum>i\<leftarrow>[k + 1 - n..<n]. ?m k i) * 2 ^ (32 * k)) = sum g {n..<2 * n - 1}"
    unfolding interv_sum_list_conv_sum_set_nat set_upt g_def
    by (rule sum.cong) (auto simp: power_mult simp del: power_numeral)
  moreover have "sum g {..<n} + sum g {n..<2 * n - 1} = sum g {..<2 * n - 1}"
    using sum.atLeastLessThan_concat [of 0 n "2 * n - 1" g] assms(3) by (simp add: lessThan_atLeast0)
  ultimately have prod: "vli_val res2 + 2 ^ (32 * (2 * n - 1)) * acc3 r2 = vli_val l * vli_val q"
    unfolding 2(3) 1(3) vli_product_columns [OF assms(1-3)] g_def by (simp only:)
  have "2 ^ (32 * (2 * n - 1)) * acc3 r2 \<le> vli_val l * vli_val q" using prod by simp
  also have "\<dots> < 2 ^ (32 * n) * 2 ^ (32 * n)"
    using vli_val_less' [OF assms(1)] vli_val_less' [OF assms(2)] by (intro mult_strict_mono) simp_all
  also have "\<dots> = 2 ^ (32 * (2 * n - 1)) * 2 ^ 32" 
    using pow32_step [of "2 * n"] assms(3) by (simp add: mult_2_right flip: power_add)
  finally have "acc3 r2 < 2 ^ 32" using mult_less_cancel1 by blast
  then have "unat w1 = 0" "unat w2 = 0" by (simp_all add: acc3_def r2)
  then have "acc3 r2 = unat w0" by (simp add: acc3_def r2)
  then show "vli_val (uECC_vli_mult l q n) = vli_val l * vli_val q"
    using prod 2(1) unfolding res by (simp add: vli_val_append)
qed


subsection \<open>Addition and subtraction modulo a number\<close>

lemma modAdd_val:
  assumes "length l = n" and "length r = n" and "length md = n"
    and "vli_val l + vli_val r < vli_val md + 2 ^ (32 * n)"
  shows "length (uECC_vli_modAdd l r md n) = n"
    and "vli_val (uECC_vli_modAdd l r md n) =
      (if vli_val l + vli_val r < vli_val md then vli_val l + vli_val r else vli_val l + vli_val r - vli_val md)"
proof -
  obtain s c where s: "uECC_vli_add l r n = (s, c)" by (cases "uECC_vli_add l r n")
  obtain d e where d: "uECC_vli_sub s md n = (d, e)" by (cases "uECC_vli_sub s md n")
  note a = add_val [OF s assms(1,2)]
  note b = sub_val [OF d a(1) assms(3)]
  have l: "vli_val md < 2 ^ (32 * n)" "vli_val s < 2 ^ (32 * n)" "vli_val d < 2 ^ (32 * n)"
    using a(1) b(1) assms(3) by (simp_all add: vli_val_less')
  have v: "uECC_vli_modAdd l r md n = (if c \<noteq> 0 \<or> vli_val md \<le> vli_val s then d else s)"
    by (auto simp: uECC_vli_modAdd_def s d cmp_unsafe_iff(1) [OF assms(3) a(1)])
  show "length (uECC_vli_modAdd l r md n) = n" using a(1) b(1) by (simp add: v)
  show "vli_val (uECC_vli_modAdd l r md n) =
      (if vli_val l + vli_val r < vli_val md then vli_val l + vli_val r else vli_val l + vli_val r - vli_val md)"
    using a b l assms(4) sub_borrow [OF d a(1) assms(3)] unfolding v by auto
qed

lemma modSub_val:
  assumes "length l = n" and "length r = n" and "length md = n" and "vli_val r \<le> vli_val l + vli_val md"
  shows "length (uECC_vli_modSub l r md n) = n"
    and "vli_val (uECC_vli_modSub l r md n) =
      (if vli_val r \<le> vli_val l then vli_val l - vli_val r else vli_val l + vli_val md - vli_val r)"
proof -
  obtain s c where s: "uECC_vli_sub l r n = (s, c)" by (cases "uECC_vli_sub l r n")
  obtain d e where d: "uECC_vli_add s md n = (d, e)" by (cases "uECC_vli_add s md n")
  note a = sub_val [OF s assms(1,2)]
  note b = add_val [OF d a(1) assms(3)]
  have l: "vli_val md < 2 ^ (32 * n)" "vli_val s < 2 ^ (32 * n)" "vli_val d < 2 ^ (32 * n)"
    using a(1) b(1) assms(3) by (simp_all add: vli_val_less')
  have v: "uECC_vli_modSub l r md n = (if c \<noteq> 0 then d else s)"
    by (auto simp: uECC_vli_modSub_def s d)
  show "length (uECC_vli_modSub l r md n) = n" using a(1) b(1) by (simp add: v)
  show "vli_val (uECC_vli_modSub l r md n) =
      (if vli_val r \<le> vli_val l then vli_val l - vli_val r else vli_val l + vli_val md - vli_val r)"
    using a b l assms(4) sub_borrow [OF s assms(1,2)] unfolding v by auto
qed

lemma modAdd_length: "length l = n \<Longrightarrow> length r = n \<Longrightarrow> length md = n \<Longrightarrow> length (uECC_vli_modAdd l r md n) = n"
  by (cases "uECC_vli_add l r n") (auto simp: uECC_vli_modAdd_def dest: add_val(1) intro: sub_val(1) [OF prod.collapse [symmetric]])

lemma modSub_length: "length l = n \<Longrightarrow> length r = n \<Longrightarrow> length md = n \<Longrightarrow> length (uECC_vli_modSub l r md n) = n"
  by (cases "uECC_vli_sub l r n") (auto simp: uECC_vli_modSub_def dest: sub_val(1) intro: add_val(1) [OF prod.collapse [symmetric]])

subsection \<open>Reduction\<close>

lemma unat_push_bit_32:
  assumes "b \<le> 32"
  shows "unat (push_bit b w :: u32) = 2 ^ b * (unat w mod 2 ^ (32 - b))"
proof -
  have "unat (push_bit b w) = take_bit 32 (push_bit b (unat w))" by (simp only: unsigned_push_bit_eq) simp
  also have "\<dots> = push_bit b (take_bit (32 - b) (unat w))" by (rule take_bit_push_bit)
  finally show ?thesis by (simp only: push_bit_eq_mult take_bit_eq_mod mult.commute)
qed

lemma or_shift:
  assumes "unat c < 2 ^ b" and "b < 32"
  shows "unat (push_bit b w OR c :: u32) = unat (push_bit b w) + unat c"
proof -
  have "c = take_bit b c"
    using assms by (simp add: word_unat_eq_iff unsigned_take_bit_eq take_bit_nat_eq_self)
  then have c: "\<not> bit c k" if "b \<le> k" for k using that by (metis bit_take_bit_iff not_less)
  have "push_bit b w AND c = 0"
  proof (rule bit_word_eqI)
    fix k assume "k < LENGTH(32)"
    show "bit (push_bit b w AND c) k \<longleftrightarrow> bit (0 :: u32) k"
      using c [of k] by (auto simp: bit_and_iff bit_push_bit_iff)
  qed
  then have e: "push_bit b w OR c = push_bit b w + c" using disjunctive_add_eq_or by metis
  have u: "unat (push_bit b w) = 2 ^ b * (unat w mod 2 ^ (32 - b))" using assms(2) by (simp only: unat_push_bit_32 less_imp_le)
  have "unat w mod 2 ^ (32 - b) + 1 \<le> 2 ^ (32 - b)" by (simp add: Suc_le_eq)
  then have "2 ^ b * (unat w mod 2 ^ (32 - b) + 1) \<le> 2 ^ b * 2 ^ (32 - b)" by (rule mult_left_mono) simp
  also have "(2::nat) ^ b * 2 ^ (32 - b) = 2 ^ 32" using assms(2) by (simp flip: power_add del: power_numeral)
  finally have "unat (push_bit b w) + unat c < 2 ^ 32" using assms(1) unfolding u by simp
  then show ?thesis unfolding e by (intro unat_add_small) simp
qed


lemma shift_words_val:
  assumes "0 < b" and "b < 32"
  shows "unat c < 2 ^ b \<Longrightarrow> length (shift_words b ws c) = length ws \<and>
    vli_val (shift_words b ws c) = (2 ^ b * vli_val ws + unat c) mod 2 ^ (32 * length ws)"
proof (induction ws arbitrary: c)
  case (Cons w ws)
  let ?d = "drop_bit (32 - b) w" let ?K = "2 ^ (32 * length ws) :: nat"
  have B: "(2::nat) ^ 32 = 2 ^ b * 2 ^ (32 - b)" using assms(2) by (simp flip: power_add del: power_numeral)
  have d: "unat ?d = unat w div 2 ^ (32 - b)" by (rule trans [OF unat_drop_bit_eq]) (simp only: drop_bit_eq_div)
  have "unat w < 2 ^ b * 2 ^ (32 - b)" using unat_lt32 [of w] B by simp
  then have "unat ?d < 2 ^ b" unfolding d by (rule less_mult_imp_div_less)
  from Cons.IH [OF this] have IH: "length (shift_words b ws ?d) = length ws"
    "vli_val (shift_words b ws ?d) = (2 ^ b * vli_val ws + unat ?d) mod ?K" by simp_all
  let ?lo = "2 ^ b * (unat w mod 2 ^ (32 - b)) + unat c"
  have h: "unat (push_bit b w OR c) = ?lo"
    using or_shift [OF Cons.prems assms(2), of w] assms(2) by (simp add: unat_push_bit_32 del: push_bit_of_1)
  then have lo: "?lo < 2 ^ 32" using unat_lt32 [of "push_bit b w OR c"] by (simp only:)
  have w: "unat w = unat w mod 2 ^ (32 - b) + 2 ^ (32 - b) * unat ?d" unfolding d by (rule mod_mult_div_eq [symmetric])
  have "2 ^ b * unat w = 2 ^ b * (unat w mod 2 ^ (32 - b)) + 2 ^ 32 * unat ?d"
    unfolding B by (subst w) (simp only: distrib_left mult.assoc)
  then have e: "2 ^ b * vli_val (w # ws) + unat c = ?lo + 2 ^ 32 * (2 ^ b * vli_val ws + unat ?d)"
    by (simp add: distrib_left del: power_numeral)
  have "(2 ^ b * vli_val (w # ws) + unat c) mod (2 ^ 32 * ?K) = ?lo + 2 ^ 32 * ((2 ^ b * vli_val ws + unat ?d) mod ?K)"
    unfolding e using lo by (simp add: mod_mult2_eq del: power_numeral)
  moreover have "2 ^ (32 * length (w # ws)) = 2 ^ 32 * ?K" by (simp add: power_add)
  moreover have "vli_val (shift_words b (w # ws) c) = ?lo + 2 ^ 32 * vli_val (shift_words b ws ?d)"
    using h by simp
  ultimately show ?case using IH by (simp del: power_numeral)
qed simp

text \<open>The modulus fills its words: its top word is not 0.\<close>

definition full_size :: "vli \<Rightarrow> nat \<Rightarrow> bool" where
  "full_size md n \<longleftrightarrow> 0 < n \<and> n < 2 ^ 30 \<and> length md = n \<and> 2 ^ (32 * (n - 1)) \<le> vli_val md"

lemma full_size_pos: "full_size md n \<Longrightarrow> 0 < vli_val md"
  unfolding full_size_def by (meson less_le_trans zero_less_power zero_less_numeral)

lemma full_size_bits:
  assumes "full_size md n"
  shows "32 * (n - 1) < uECC_vli_numBits md n" and "uECC_vli_numBits md n \<le> 32 * n"
proof -
  have l: "length md = n" "vli_val md \<noteq> 0" "2 ^ (32 * (n - 1)) \<le> vli_val md"
    using assms full_size_pos [OF assms] by (simp_all add: full_size_def)
  note nb = numBits_bounds [OF l(1)]
  have "(2::nat) ^ (32 * (n - 1)) < 2 ^ uECC_vli_numBits md n" using nb(1) l(3) by linarith
  then show "32 * (n - 1) < uECC_vli_numBits md n" by (rule power_less_imp_less_exp [rotated]) simp
  have "(2::nat) ^ (uECC_vli_numBits md n - 1) < 2 ^ (32 * n)"
    using nb(2) [OF l(2)] vli_val_less' [OF l(1)] by linarith
  then have "uECC_vli_numBits md n - 1 < 32 * n" by (rule power_less_imp_less_exp [rotated]) simp
  then show "uECC_vli_numBits md n \<le> 32 * n" by linarith
qed

lemma mmod_start_val:
  assumes "full_size md n"
  defines "shift \<equiv> n * 2 * 32 - uECC_vli_numBits md n"
  shows "length (mmod_start md n shift) = 2 * n" and "vli_val (mmod_start md n shift) = vli_val md * 2 ^ shift"
    and "2 ^ (64 * n - 1) \<le> vli_val md * 2 ^ shift"
proof -
  have l: "length md = n" "0 < n" "vli_val md \<noteq> 0" using assms full_size_pos [OF assms(1)] by (simp_all add: full_size_def)
  note nb = full_size_bits [OF assms(1)]
  define b where "b = shift mod 32"
  have s: "shift div 32 = n" "shift = 32 * n + b" "b < 32" "b + uECC_vli_numBits md n = 32 * n"
  proof -
    obtain r where r: "32 * n = uECC_vli_numBits md n + r" using nb(2) le_Suc_ex by blast
    then have r': "r < 32" "shift = 32 * n + r" using nb(1) l(2) by (auto simp: shift_def)
    then have b: "b = r" by (simp add: b_def)
    show "shift div 32 = n" "shift = 32 * n + b" "b < 32" "b + uECC_vli_numBits md n = 32 * n"
      using r r' unfolding b by simp_all
  qed
  have "2 ^ b * vli_val md < 2 ^ b * 2 ^ uECC_vli_numBits md n" using numBits_bounds(1) [OF l(1)] by simp
  then have small: "2 ^ b * vli_val md < 2 ^ (32 * n)" using s(4) by (simp flip: power_add)
  have hi: "length (if 0 < b then shift_words b (take n md) 0 else uECC_vli_set md n) = n \<and>
    vli_val (if 0 < b then shift_words b (take n md) 0 else uECC_vli_set md n) = 2 ^ b * vli_val md"
    using shift_words_val [of b 0 md] s(3) small l(1) by (simp add: uECC_vli_set_def)
  have st: "mmod_start md n shift = replicate n 0 @ (if 0 < b then shift_words b (take n md) 0 else uECC_vli_set md n)"
    unfolding mmod_start_def Let_def s(1) b_def [symmetric] uECC_vli_clear_def ..
  show "length (mmod_start md n shift) = 2 * n" using hi unfolding st by simp
  show "vli_val (mmod_start md n shift) = vli_val md * 2 ^ shift"
  proof -
    have "vli_val (mmod_start md n shift) = 2 ^ (32 * n) * (2 ^ b * vli_val md)"
      using hi unfolding st by (simp add: vli_val_append)
    then show ?thesis by (simp add: s(2) power_add)
  qed
  have "(2::nat) ^ (64 * n - 1) = 2 ^ (uECC_vli_numBits md n - 1) * 2 ^ shift"
    using nb l(2) s by (simp flip: power_add)
  then show "2 ^ (64 * n - 1) \<le> vli_val md * 2 ^ shift" using numBits_bounds(2) [OF l(1,3)] by simp
qed

lemma mmod_shift_val:
  assumes "length mm = 2 * n" and "0 < n"
  shows "length (mmod_shift mm n) = 2 * n" and "vli_val (mmod_shift mm n) = vli_val mm div 2"
proof -
  have lo: "length (take n mm) = n" and hi: "length (drop n mm) = n" using assms(1) by simp_all
  show "length (mmod_shift mm n) = 2 * n"
    using rshift1_val(1) [OF lo] rshift1_val(1) [OF hi] by (simp add: mmod_shift_def Let_def)
  show "vli_val (mmod_shift mm n) = vli_val mm div 2"
    using rshift1_halves [OF lo hi assms(2)] assms by (simp add: mmod_shift_def Let_def)
qed

lemma vli_val_take:
  assumes "vli_val ws < 2 ^ (32 * n)" and "n \<le> length ws"
  shows "vli_val (take n ws) = vli_val ws"
proof -
  have "vli_val ws = vli_val (take n ws) + 2 ^ (32 * n) * vli_val (drop n ws)"
    using vli_val_append [of "take n ws" "drop n ws"] assms(2) by simp
  moreover have "vli_val (drop n ws) = 0"
  proof (rule ccontr)
    assume "vli_val (drop n ws) \<noteq> 0"
    then have "2 ^ (32 * n) * 1 \<le> 2 ^ (32 * n) * vli_val (drop n ws)" by (intro mult_left_mono) simp_all
    then show False using assms(1) calculation by linarith
  qed
  ultimately show ?thesis by simp
qed

lemma mmod_step:
  assumes "length v = 2" and "idx < 2" and "length (v ! idx) = k" and "length mm = k"
    and "uECC_vli_sub (v ! idx) mm k = (diff, borrow)" and "vli_val (v ! idx) < 2 * vli_val mm"
  defines "v' \<equiv> v[1 - idx := diff]" and "idx' \<equiv> (if idx = (if borrow = 0 then 0 else 1) then 1 else 0)"
  shows "length v' = 2" and "idx' < 2" and "length (v' ! idx') = k" and "vli_val (v' ! idx') < vli_val mm"
    and "vli_val (v' ! idx') = vli_val (v ! idx) \<or> vli_val (v' ! idx') + vli_val mm = vli_val (v ! idx)"
proof -
  have l: "length diff = k" using sub_val(1) [OF assms(5,3,4)] .
  note b = sub_borrow [OF assms(5,3,4)]
  show "length v' = 2" and "idx' < 2" by (simp_all add: v'_def idx'_def assms(1))
  have sel: "v' ! idx' = (if borrow = 0 then diff else v ! idx)"
    using assms(1,2) by (cases "idx = 0") (auto simp: v'_def idx'_def numeral_2_eq_2 less_Suc_eq)
  show "length (v' ! idx') = k" by (simp add: sel l assms(3))
  show "vli_val (v' ! idx') < vli_val mm"
    and "vli_val (v' ! idx') = vli_val (v ! idx) \<or> vli_val (v' ! idx') + vli_val mm = vli_val (v ! idx)"
    unfolding sel using b assms(6) by (auto simp: not_less)
qed

lemma mmod_loop_val:
  assumes "length md = n" and "0 < n" and "vli_val md \<noteq> 0"
  shows "length v = 2 \<Longrightarrow> idx < 2 \<Longrightarrow> length (v ! idx) = 2 * n \<Longrightarrow> length mm = 2 * n \<Longrightarrow>
    vli_val mm = vli_val md * 2 ^ s \<Longrightarrow> vli_val (v ! idx) < 2 * vli_val mm \<Longrightarrow>
    length (mmod_loop n (Suc s) v idx mm) = n \<and>
    vli_val (mmod_loop n (Suc s) v idx mm) = vli_val (v ! idx) mod vli_val md"
proof (induction s arbitrary: v idx mm)
  case 0
  obtain diff borrow where d: "uECC_vli_sub (v ! idx) mm (2 * n) = (diff, borrow)"
    by (cases "uECC_vli_sub (v ! idx) mm (2 * n)")
  define v' where "v' = v[1 - idx := diff]"
  define idx' where "idx' = (if idx = (if borrow = 0 then 0 else 1) then 1 else 0 :: nat)"
  note st = mmod_step [OF 0(1-4) d 0(6), folded v'_def idx'_def]
  have e: "mmod_loop n (Suc 0) v idx mm = take n (v' ! idx')"
    by (simp add: d [unfolded mult.commute [of 2 n]] v'_def idx'_def uECC_vli_set_def)
  have lt: "vli_val (v' ! idx') < vli_val md" using st(4) 0(5) by simp
  then have "vli_val (take n (v' ! idx')) = vli_val (v' ! idx')"
    using vli_val_less' [OF assms(1)] st(3) by (intro vli_val_take) simp_all
  moreover have "vli_val (v ! idx) mod vli_val md = vli_val (v' ! idx')"
    using st(5) lt 0(5) by (metis mod_add_self2 mod_less power_0 mult_1_right)
  ultimately show ?case unfolding e using st(3) assms(1) by simp
next
  case (Suc s)
  obtain diff borrow where d: "uECC_vli_sub (v ! idx) mm (2 * n) = (diff, borrow)"
    by (cases "uECC_vli_sub (v ! idx) mm (2 * n)")
  define v' where "v' = v[1 - idx := diff]"
  define idx' where "idx' = (if idx = (if borrow = 0 then 0 else 1) then 1 else 0 :: nat)"
  note st = mmod_step [OF Suc.prems(1-4) d Suc.prems(6), folded v'_def idx'_def]
  have e: "mmod_loop n (Suc (Suc s)) v idx mm = mmod_loop n (Suc s) v' idx' (mmod_shift mm n)"
    by (simp add: d [unfolded mult.commute [of 2 n]] v'_def idx'_def)
  note sh = mmod_shift_val [OF Suc.prems(4) assms(2)]
  have sv: "vli_val (mmod_shift mm n) = vli_val md * 2 ^ s" unfolding sh(2) Suc.prems(5) by simp
  have "vli_val (v' ! idx') < 2 * vli_val (mmod_shift mm n)" using st(4) sv Suc.prems(5) by simp
  from Suc.IH [OF st(1-3) sh(1) sv this]
  have IH: "length (mmod_loop n (Suc s) v' idx' (mmod_shift mm n)) = n"
    "vli_val (mmod_loop n (Suc s) v' idx' (mmod_shift mm n)) = vli_val (v' ! idx') mod vli_val md" by simp_all
  have "vli_val (v ! idx) mod vli_val md = vli_val (v' ! idx') mod vli_val md"
    using st(5) Suc.prems(5) by (metis mod_mult_self2)
  then show ?case unfolding e using IH by simp
qed

text \<open>\<open>uECC_vli_mmod\<close> is the remainder.\<close>

lemma mmod_val:
  assumes "full_size md n" and "length product = 2 * n"
  shows "length (uECC_vli_mmod product md n) = n"
    and "vli_val (uECC_vli_mmod product md n) = vli_val product mod vli_val md"
proof -
  have l: "length md = n" "0 < n" "vli_val md \<noteq> 0" using assms full_size_pos [OF assms(1)] by (simp_all add: full_size_def)
  define shift where "shift = n * 2 * 32 - uECC_vli_numBits md n"
  note st = mmod_start_val [OF assms(1), folded shift_def]
  have "vli_val product < 2 ^ (64 * n)" using vli_val_less' [OF assms(2)] by simp
  also have "\<dots> = 2 * 2 ^ (64 * n - 1)" using l(2) by (simp flip: power_Suc)
  finally have lt: "vli_val product < 2 * vli_val (mmod_start md n shift)" using st(2,3) by linarith
  note mmod_loop_val [OF l, of "[uECC_vli_clear (2 * n), product]" 1 "mmod_start md n shift" shift]
  then show "length (uECC_vli_mmod product md n) = n"
    and "vli_val (uECC_vli_mmod product md n) = vli_val product mod vli_val md"
    using st(1,2) lt assms(2) unfolding uECC_vli_mmod_def shift_def [symmetric] Let_def by (auto simp del: mmod_loop.simps)
qed

lemma modMult_val:
  assumes "full_size md n" and "length l = n" and "length r = n"
  shows "length (uECC_vli_modMult l r md n) = n"
    and "vli_val (uECC_vli_modMult l r md n) = vli_val l * vli_val r mod vli_val md"
proof -
  have n: "0 < n" "n < 2 ^ 30" using assms(1) by (simp_all add: full_size_def)
  note m = mult_val [OF assms(2,3) n]
  show "length (uECC_vli_modMult l r md n) = n"
    and "vli_val (uECC_vli_modMult l r md n) = vli_val l * vli_val r mod vli_val md"
    using mmod_val [OF assms(1) m(1)] by (simp_all add: uECC_vli_modMult_def m(2))
qed


subsection \<open>Inversion\<close>

lemma EVEN_iff: "length ws = n \<Longrightarrow> 0 < n \<Longrightarrow> EVEN ws \<longleftrightarrow> even (vli_val ws)"
proof (cases ws)
  case (Cons w vs)
  have "bit (unat w) 0 \<longleftrightarrow> bit w 0" by (simp only: bit_unsigned_iff) simp
  then have "w AND 1 = 0 \<longleftrightarrow> even (unat w)" using and_exp_eq_0_iff_not_bit [of w 0] by (simp add: bit_0)
  then show ?thesis by (simp add: Cons EVEN_def)
qed simp

text \<open>Halving modulo an odd number.\<close>

lemma modInv_update_val:
  assumes "length uv = n" and "length md = n" and "0 < n" and "odd (vli_val md)"
  shows "length (vli_modInv_update uv md n) = n"
    and "vli_val (vli_modInv_update uv md n) =
      (if even (vli_val uv) then vli_val uv else vli_val uv + vli_val md) div 2"
proof -
  obtain s c where s: "uECC_vli_add uv md n = (s, c)" by (cases "uECC_vli_add uv md n")
  note a = add_val [OF s assms(1,2)]
  note e = EVEN_iff [OF assms(1,3)]
  have h: "(0x80000000 :: u32) = push_bit 31 1" by simp
  show "length (vli_modInv_update uv md n) = n"
    using rshift1_val(1) [OF assms(1)] rshift1_val(1) [OF a(1)] by (simp add: vli_modInv_update_def s Let_def)
  show "vli_val (vli_modInv_update uv md n) =
      (if even (vli_val uv) then vli_val uv else vli_val uv + vli_val md) div 2"
  proof (cases "even (vli_val uv)")
    case True
    then show ?thesis using rshift1_val(2) [OF assms(1)] by (simp add: vli_modInv_update_def e Let_def)
  next
    case False
    have "vli_val (vli_modInv_update uv md n) = (vli_val s + 2 ^ (32 * n) * unat c) div 2"
    proof (cases "c = 0")
      case True
      then show ?thesis using rshift1_val(2) [OF a(1)] False by (simp add: vli_modInv_update_def e s Let_def)
    next
      case c: False
      then have c1: "c = 1" using a(2) by simp
      show ?thesis using rshift1_carry [OF a(1) assms(3), of 1] False
        by (simp only: vli_modInv_update_def e s Let_def if_False prod.case c1 h) simp
    qed
    then show ?thesis using a(3) False by simp
  qed
qed

lemma gcd_halve:
  assumes "odd (b :: nat)" and "even a"
  shows "gcd (a div 2) b = gcd a b"
proof -
  have "coprime b 2" using assms(1) by simp
  then have "gcd (2 * (a div 2)) b = gcd (a div 2) b" by (rule gcd_mult_left_left_cancel)
  then show ?thesis using assms(2) by simp
qed

text \<open>What the loop keeps: \<open>u * x\<close> is \<open>a\<close> and \<open>v * x\<close> is \<open>b\<close> modulo the modulus, and \<open>a\<close>, \<open>b\<close> keep their divisor.\<close>

definition inv_cong :: "nat \<Rightarrow> nat \<Rightarrow> nat \<Rightarrow> nat \<Rightarrow> bool" where
  "inv_cong m x a u \<longleftrightarrow> u < m \<and> int m dvd int u * int x - int a"

lemma inv_cong_halve:
  assumes "inv_cong m x a u" and "even a" and "odd m"
  shows "inv_cong m x (a div 2) ((if even u then u else u + m) div 2)"
proof -
  let ?w = "(if even u then u else u + m)"
  have w: "even ?w" using assms(3) by simp
  have "int m dvd int ?w * int x - int a"
  proof -
    have "int ?w * int x - int a = int u * int x - int a + (if even u then 0 else int m * int x)"
      by (simp add: algebra_simps)
    moreover have "int m dvd (if even u then 0 else int m * int x)" by simp
    ultimately show ?thesis using assms(1) by (simp only: inv_cong_def dvd_add)
  qed
  also have "int ?w * int x - int a = 2 * (int (?w div 2) * int x - int (a div 2))"
  proof -
    have "int ?w = 2 * int (?w div 2)" "int a = 2 * int (a div 2)" using w assms(2) by (metis dvd_mult_div_cancel of_nat_mult of_nat_numeral)+
    then show ?thesis by (simp only: right_diff_distrib mult.assoc)
  qed
  finally have "int m dvd 2 * (int (?w div 2) * int x - int (a div 2))" .
  moreover have "coprime (int m) 2" using assms(3) by simp
  ultimately have "int m dvd int (?w div 2) * int x - int (a div 2)" using coprime_dvd_mult_right_iff by blast
  moreover have "?w div 2 < m" using assms(1,3) by (auto simp: inv_cong_def)
  ultimately show ?thesis by (simp add: inv_cong_def)
qed

lemma inv_cong_sub:
  assumes "inv_cong m x a u" and "inv_cong m x b v" and "b \<le> a"
  shows "inv_cong m x (a - b) ((if u < v then u + m else u) - v)"
proof -
  have e: "int ((if u < v then u + m else u) - v) * int x - int (a - b) =
    (int u * int x - int a) - (int v * int x - int b) + (if u < v then int m * int x else 0)"
    using assms by (auto simp: inv_cong_def of_nat_diff algebra_simps)
  have "int m dvd int ((if u < v then u + m else u) - v) * int x - int (a - b)"
    unfolding e using assms(1,2) dvd_add [OF dvd_diff, of "int m"] by (simp add: inv_cong_def)
  then show ?thesis using assms(1,2) by (auto simp: inv_cong_def)
qed


lemma gcd_sub: "b \<le> a \<Longrightarrow> gcd (a - b) b = gcd a (b :: nat)"
  by (metis gcd_diff1_nat)

definition inv_good :: "vli \<Rightarrow> nat \<Rightarrow> nat \<Rightarrow> vli \<Rightarrow> vli \<Rightarrow> vli \<Rightarrow> vli \<Rightarrow> bool" where
  "inv_good md n x a b u v \<longleftrightarrow> length md = n \<and> 0 < n \<and> odd (vli_val md) \<and>
     length a = n \<and> length b = n \<and> length u = n \<and> length v = n \<and> 0 < vli_val a \<and> 0 < vli_val b \<and>
     (odd (vli_val a) \<or> odd (vli_val b)) \<and>
     inv_cong (vli_val md) x (vli_val a) (vli_val u) \<and> inv_cong (vli_val md) x (vli_val b) (vli_val v)"

text \<open>One side of the loop: \<open>a\<close> even is halved; \<open>a\<close> and \<open>b\<close> odd with \<open>b < a\<close> gives \<open>(a - b) div 2\<close>.\<close>

lemma inv_step_half:
  assumes "inv_good md n x a b u v" and "even (vli_val a)"
  shows "inv_good md n x (uECC_vli_rshift1 a n) b (vli_modInv_update u md n) v"
    and "vli_val (uECC_vli_rshift1 a n) = vli_val a div 2"
    and "gcd (vli_val a div 2) (vli_val b) = gcd (vli_val a) (vli_val b)"
proof -
  have l: "length a = n" "length u = n" "length md = n" "0 < n" "odd (vli_val md)" "odd (vli_val b)" "0 < vli_val a"
    using assms by (auto simp: inv_good_def)
  note r = rshift1_val [OF l(1)] modInv_update_val [OF l(2-5)]
  show "vli_val (uECC_vli_rshift1 a n) = vli_val a div 2" by (rule r(2))
  show "gcd (vli_val a div 2) (vli_val b) = gcd (vli_val a) (vli_val b)" using gcd_halve l(6) assms(2) .
  have "0 < vli_val a div 2" using assms(2) l(7) by (auto elim: evenE)
  then show "inv_good md n x (uECC_vli_rshift1 a n) b (vli_modInv_update u md n) v"
    using assms l r inv_cong_halve [of "vli_val md" x "vli_val a" "vli_val u"] by (simp add: inv_good_def)
qed

lemma inv_step_sub:
  assumes "inv_good md n x a b u v" and "odd (vli_val a)" and "odd (vli_val b)" and "vli_val b < vli_val a"
  defines "a' \<equiv> uECC_vli_rshift1 (fst (uECC_vli_sub a b n)) n"
    and "u' \<equiv> (if uECC_vli_cmp_unsafe u v n < 0 then fst (uECC_vli_add u md n) else u)"
  shows "inv_good md n x a' b (vli_modInv_update (fst (uECC_vli_sub u' v n)) md n) v"
    and "vli_val a' = (vli_val a - vli_val b) div 2"
    and "gcd ((vli_val a - vli_val b) div 2) (vli_val b) = gcd (vli_val a) (vli_val b)"
proof -
  have l: "length a = n" "length b = n" "length u = n" "length v = n" "length md = n" "0 < n" "odd (vli_val md)"
    "inv_cong (vli_val md) x (vli_val a) (vli_val u)" "inv_cong (vli_val md) x (vli_val b) (vli_val v)"
    using assms(1) by (auto simp: inv_good_def)
  obtain d e where d: "uECC_vli_sub a b n = (d, e)" by (cases "uECC_vli_sub a b n")
  have dv: "length d = n" "vli_val d = vli_val a - vli_val b"
    using sub_val(1) [OF d l(1,2)] sub_borrow(2) [OF d l(1,2)] assms(4) by simp_all
  note r = rshift1_val [OF dv(1)]
  show av: "vli_val a' = (vli_val a - vli_val b) div 2" unfolding a'_def using r(2) dv(2) d by simp
  have ev: "even (vli_val a - vli_val b)" "0 < vli_val a - vli_val b" using assms(2-4) by simp_all
  show "gcd ((vli_val a - vli_val b) div 2) (vli_val b) = gcd (vli_val a) (vli_val b)"
    using gcd_halve [OF assms(3) ev(1)] gcd_sub [of "vli_val b" "vli_val a"] assms(4) by simp
  obtain t k where t: "uECC_vli_add u md n = (t, k)" by (cases "uECC_vli_add u md n")
  obtain w j where w: "uECC_vli_sub u' v n = (w, j)" by (cases "uECC_vli_sub u' v n")
  note tv = add_val [OF t l(3,5)]
  have u': "u' = (if vli_val u < vli_val v then t else u)" "length u' = n"
    using t tv(1) l(3) cmp_unsafe_iff(3) [OF l(3,4)] by (simp_all add: u'_def)
  note wv = sub_val [OF w u'(2) l(4)]
  have uv: "vli_val u < vli_val md" "vli_val v < vli_val md" "vli_val md < 2 ^ (32 * n)"
    using l(8,9) vli_val_less' [OF l(5)] by (simp_all add: inv_cong_def)
  have wl: "length w = n" "vli_val w < 2 ^ (32 * n)" using wv(1) vli_val_less' [OF wv(1)] by simp_all
  have wval: "vli_val w = (if vli_val u < vli_val v then vli_val u + vli_val md else vli_val u) - vli_val v"
  proof (cases "vli_val u < vli_val v")
    case True
    then show ?thesis using wv tv uv wl u' by auto
  next
    case False
    then show ?thesis using sub_borrow(2) [OF w u'(2) l(4)] u'(1) by simp
  qed
  have c: "inv_cong (vli_val md) x (vli_val a - vli_val b) (vli_val w)"
    unfolding wval using inv_cong_sub [OF l(8,9)] assms(4) by simp
  note m = modInv_update_val [OF wl(1) l(5-7)]
  have "inv_cong (vli_val md) x ((vli_val a - vli_val b) div 2) (vli_val (vli_modInv_update w md n))"
    unfolding m(2) by (rule inv_cong_halve [OF c ev(1) l(7)])
  moreover have "0 < (vli_val a - vli_val b) div 2" using dvd_imp_le [OF ev] by simp
  moreover have "length a' = n" using r(1) d by (simp add: a'_def)
  ultimately show "inv_good md n x a' b (vli_modInv_update (fst (uECC_vli_sub u' v n)) md n) v"
    using assms(1,3) m(1) av w by (simp add: inv_good_def)
qed

lemma inv_good_swap: "inv_good md n x a b u v \<Longrightarrow> inv_good md n x b a v u"
  by (auto simp: inv_good_def)

lemma modInv_loop_returns:
  "inv_good md n x a b u v \<Longrightarrow>
   \<exists>w. modInv_loop md n a b u v = Some w \<and> length w = n \<and> inv_cong (vli_val md) x (gcd (vli_val a) (vli_val b)) (vli_val w)"
proof (induction "vli_val a + vli_val b" arbitrary: a b u v rule: less_induct)
  case less
  have l: "length a = n" "length b = n" "0 < n" "0 < vli_val a" "0 < vli_val b" "length u = n"
    "odd (vli_val a) \<or> odd (vli_val b)" "inv_cong (vli_val md) x (vli_val a) (vli_val u)"
    using less.prems by (auto simp: inv_good_def)
  note cmp = cmp_unsafe_iff [OF l(1,2)] and ea = EVEN_iff [OF l(1,3)] and eb = EVEN_iff [OF l(2,3)]
  consider "vli_val a = vli_val b" | "vli_val a \<noteq> vli_val b" "even (vli_val a)"
    | "vli_val a \<noteq> vli_val b" "odd (vli_val a)" "even (vli_val b)"
    | "odd (vli_val a)" "odd (vli_val b)" "vli_val b < vli_val a"
    | "odd (vli_val a)" "odd (vli_val b)" "vli_val a < vli_val b" by linarith
  then show ?case
  proof cases
    case 1
    then have "modInv_loop md n a b u v = Some u" by (subst modInv_loop.simps) (simp add: cmp)
    then show ?thesis using 1 l by simp
  next
    case 2
    then have "modInv_loop md n a b u v = modInv_loop md n (uECC_vli_rshift1 a n) b (vli_modInv_update u md n) v"
      by (subst modInv_loop.simps) (simp add: cmp ea)
    moreover note st = inv_step_half [OF less.prems 2(2)]
    ultimately show ?thesis using less.hyps [OF _ st(1)] l(4) by (simp add: st(2,3))
  next
    case 3
    then have "modInv_loop md n a b u v = modInv_loop md n a (uECC_vli_rshift1 b n) u (vli_modInv_update v md n)"
      by (subst modInv_loop.simps) (simp add: cmp ea eb)
    moreover note st = inv_step_half [OF inv_good_swap [OF less.prems] 3(3)]
    ultimately show ?thesis using less.hyps [OF _ inv_good_swap [OF st(1)]] l(5) by (simp add: st(2,3) gcd.commute)
  next
    case 4
    then have "modInv_loop md n a b u v = modInv_loop md n (uECC_vli_rshift1 (fst (uECC_vli_sub a b n)) n) b
      (vli_modInv_update (fst (uECC_vli_sub (if uECC_vli_cmp_unsafe u v n < 0 then fst (uECC_vli_add u md n) else u) v n)) md n) v"
      by (subst modInv_loop.simps) (simp add: cmp ea eb Let_def)
    moreover note st = inv_step_sub [OF less.prems 4]
    ultimately show ?thesis using less.hyps [OF _ st(1)] l(4,5) by (simp add: st(2,3))
  next
    case 5
    then have "modInv_loop md n a b u v = modInv_loop md n a (uECC_vli_rshift1 (fst (uECC_vli_sub b a n)) n) u
      (vli_modInv_update (fst (uECC_vli_sub (if uECC_vli_cmp_unsafe v u n < 0 then fst (uECC_vli_add v md n) else v) u n)) md n)"
      by (subst modInv_loop.simps) (simp add: cmp ea eb Let_def)
    moreover note st = inv_step_sub [OF inv_good_swap [OF less.prems] 5(2,1,3)]
    ultimately show ?thesis using less.hyps [OF _ inv_good_swap [OF st(1)]] l(4,5) by (simp add: st(2,3) gcd.commute)
  qed
qed

text \<open>\<open>uECC_vli_modInv\<close> returns for every odd modulus, with the inverse where there is one.\<close>

lemma modInv_total:
  assumes "length x = n" and "length md = n" and "0 < n" and "odd (vli_val md)" and "1 < vli_val md"
  shows "\<exists>u. uECC_vli_modInv x md n = Some u \<and> length u = n \<and> vli_val u < vli_val md \<and>
    (vli_val u * vli_val x) mod vli_val md = gcd (vli_val x) (vli_val md) mod vli_val md"
proof (cases "vli_val x = 0")
  case True
  then show ?thesis using assms by (simp add: uECC_vli_modInv_def isZero_iff uECC_vli_clear_def)
next
  case False
  let ?one = "(uECC_vli_clear n)[0 := 1]"
  have one: "length ?one = n" "vli_val ?one = 1"
    using assms(3) by (simp_all add: uECC_vli_clear_def) (cases n, simp_all)
  have "inv_good md n (vli_val x) x md ?one (uECC_vli_clear n)"
    using assms one False by (simp add: inv_good_def inv_cong_def uECC_vli_clear_def)
  from modInv_loop_returns [OF this] obtain w where w: "modInv_loop md n x md ?one (uECC_vli_clear n) = Some w"
    "length w = n" "inv_cong (vli_val md) (vli_val x) (gcd (vli_val x) (vli_val md)) (vli_val w)" by blast
  have "uECC_vli_modInv x md n = Some w"
    using False assms(1,2) w(1) by (simp add: uECC_vli_modInv_def isZero_iff uECC_vli_set_def)
  moreover have "int (vli_val w * vli_val x) mod int (vli_val md) = int (gcd (vli_val x) (vli_val md)) mod int (vli_val md)"
    using w(3) by (simp add: inv_cong_def mod_eq_dvd_iff)
  then have "(vli_val w * vli_val x) mod vli_val md = gcd (vli_val x) (vli_val md) mod vli_val md"
    by (metis of_nat_eq_iff of_nat_mod)
  ultimately show ?thesis using w(2,3) by (simp add: inv_cong_def)
qed

end
