(* ===== verification/Secp256k1.thy ===== *)
theory Secp256k1
  imports VliMod
begin

text \<open>
  The curve secp256k1 of \<^verbatim>\<open>cryptography/include/curve-specific.inc\<close>: its constants, the multiplication by
  \<open>2^32 + 977\<close> and the reduction that uses it, and the ring \<open>fp\<close> of the residues modulo the field's prime, in which the
  results of the field operations are stated. The reduction is exact (\<open>mmod_fast_exact\<close>) but for the products in
  a small window, for which it loses a carry (\<open>mmod_fast_lost\<close>).
\<close>

subsection \<open>The curve\<close>

text \<open>The structure has function pointers for the doubling, the right-hand side of the equation and the reduction; only
  one curve is configured, and the model calls its functions directly.\<close>

record uECC_Curve =
  num_words :: nat
  num_bytes :: nat
  num_n_bits :: nat
  curve_p :: vli
  curve_n :: vli
  curve_G :: vli
  curve_b :: vli

definition BITS_TO_WORDS :: "nat \<Rightarrow> nat" where
  "BITS_TO_WORDS num_bits = (num_bits + 31) div 32"

definition BITS_TO_BYTES :: "nat \<Rightarrow> nat" where
  "BITS_TO_BYTES num_bits = (num_bits + 7) div 8"

text \<open>\<open>BYTES_TO_WORDS_8\<close> packs eight bytes, the least significant first, into two words.\<close>

definition curve_secp256k1 :: uECC_Curve where
  "curve_secp256k1 = \<lparr>num_words = 8, num_bytes = 32, num_n_bits = 256,
     curve_p = [0xFFFFFC2F, 0xFFFFFFFE, 0xFFFFFFFF, 0xFFFFFFFF, 0xFFFFFFFF, 0xFFFFFFFF, 0xFFFFFFFF, 0xFFFFFFFF],
     curve_n = [0xD0364141, 0xBFD25E8C, 0xAF48A03B, 0xBAAEDCE6, 0xFFFFFFFE, 0xFFFFFFFF, 0xFFFFFFFF, 0xFFFFFFFF],
     curve_G = [0x16F81798, 0x59F2815B, 0x2DCE28D9, 0x029BFCDB, 0xCE870B07, 0x55A06295, 0xF9DCBBAC, 0x79BE667E,
       0xFB10D4B8, 0x9C47D08F, 0xA6855419, 0xFD17B448, 0x0E1108A8, 0x5DA4FBFC, 0x26A3C465, 0x483ADA77],
     curve_b = [7, 0, 0, 0, 0, 0, 0, 0]\<rparr>"

definition uECC_secp256k1 :: uECC_Curve where
  "uECC_secp256k1 = curve_secp256k1"

definition uECC_curve_private_key_size :: "uECC_Curve \<Rightarrow> nat" where
  "uECC_curve_private_key_size curve = BITS_TO_BYTES (num_n_bits curve)"

definition uECC_curve_public_key_size :: "uECC_Curve \<Rightarrow> nat" where
  "uECC_curve_public_key_size curve = 2 * num_bytes curve"

subsection \<open>Reduction modulo the prime\<close>

text \<open>The loop multiplies by \<open>0x3D1\<close>; the rest of \<open>2^32 + 977\<close> is an addition one word further. The ten words written
  are returned.\<close>

fun omega_loop :: "vli \<Rightarrow> u32 \<Rightarrow> vli \<times> u32" where
  "omega_loop [] carry = ([], carry)"
| "omega_loop (w # ws) carry =
     (let p = 0x3D1 * ucast w + ucast carry :: u64;
          (result, carry) = omega_loop ws (ucast (drop_bit 32 p))
      in (ucast p # result, carry))"

definition omega_mult_secp256k1 :: "vli \<Rightarrow> vli" where
  "omega_mult_secp256k1 right =
     (let (result, carry) = omega_loop (take 8 right) 0;
          result = result @ [carry];
          (upper, carry) = uECC_vli_add (drop 1 result) right 8
      in take 1 result @ upper @ [carry])"

primrec sub_p_times :: "nat \<Rightarrow> vli \<Rightarrow> vli" where
  "sub_p_times 0 result = result"
| "sub_p_times (Suc carry) result = sub_p_times carry (fst (uECC_vli_sub result (curve_p curve_secp256k1) 8))"

definition vli_mmod_fast_secp256k1 :: "vli \<Rightarrow> vli" where
  "vli_mmod_fast_secp256k1 product =
     (let tmp = list_splice 0 (omega_mult_secp256k1 (drop 8 product)) (uECC_vli_clear 8 @ uECC_vli_clear 8);
          (result, carry) = uECC_vli_add product tmp 8;
          product = list_splice 0 (uECC_vli_clear 8) product;
          product = list_splice 0 (omega_mult_secp256k1 (drop 8 tmp)) product;
          (result, carry') = uECC_vli_add result product 8;
          carry = carry + carry';
          result = sub_p_times (unat carry) result
      in if 0 < uECC_vli_cmp_unsafe result (curve_p curve_secp256k1) 8
         then fst (uECC_vli_sub result (curve_p curve_secp256k1) 8) else result)"

definition uECC_vli_modMult_fast :: "vli \<Rightarrow> vli \<Rightarrow> uECC_Curve \<Rightarrow> vli" where
  "uECC_vli_modMult_fast left right curve = vli_mmod_fast_secp256k1 (uECC_vli_mult left right (num_words curve))"

definition uECC_vli_modSquare_fast :: "vli \<Rightarrow> uECC_Curve \<Rightarrow> vli" where
  "uECC_vli_modSquare_fast left curve = uECC_vli_modMult_fast left left curve"

subsection \<open>The constants\<close>

definition P_VAL :: nat where
  "P_VAL = 2 ^ 256 - 2 ^ 32 - 977"

definition OMEGA :: nat where
  "OMEGA = 2 ^ 32 + 977"

definition N_VAL :: nat where
  "N_VAL = 0xFFFFFFFFFFFFFFFFFFFFFFFFFFFFFFFEBAAEDCE6AF48A03BBFD25E8CD0364141"

lemma curve_fields [simp]:
  "num_words curve_secp256k1 = 8" "num_bytes curve_secp256k1 = 32" "num_n_bits curve_secp256k1 = 256"
  "length (curve_p curve_secp256k1) = 8" "length (curve_n curve_secp256k1) = 8"
  "length (curve_G curve_secp256k1) = 16" "length (curve_b curve_secp256k1) = 8"
  "BITS_TO_WORDS 256 = 8" "BITS_TO_BYTES 256 = 32"
  by (simp_all add: curve_secp256k1_def BITS_TO_WORDS_def BITS_TO_BYTES_def)

lemma curve_p_val [simp]: "vli_val (curve_p curve_secp256k1) = P_VAL"
  by (simp add: curve_secp256k1_def P_VAL_def)

lemma curve_n_val [simp]: "vli_val (curve_n curve_secp256k1) = N_VAL"
  by (simp add: curve_secp256k1_def N_VAL_def)

lemma curve_b_val [simp]: "vli_val (curve_b curve_secp256k1) = 7"
  by (simp add: curve_secp256k1_def)

lemma P_OMEGA: "P_VAL + OMEGA = 2 ^ 256"
  by (simp add: P_VAL_def OMEGA_def)

lemma full_size_n: "full_size (curve_n curve_secp256k1) 8"
  by (simp add: full_size_def) (simp add: N_VAL_def)

lemma odd_moduli: "odd P_VAL" "odd N_VAL" "1 < P_VAL" "1 < N_VAL" "N_VAL < P_VAL"
  by (simp_all add: P_VAL_def N_VAL_def)


subsection \<open>What the reduction computes\<close>

lemma omega_loop_val:
  "omega_loop ws c = (res, c') \<Longrightarrow> length res = length ws \<and>
   vli_val res + 2 ^ (32 * length ws) * unat c' = 0x3D1 * vli_val ws + unat c"
proof (induction ws arbitrary: c res)
  case (Cons w ws)
  define p where "p = (0x3D1 * ucast w + ucast c :: u64)"
  obtain res1 where r: "omega_loop ws (ucast (drop_bit 32 p)) = (res1, c')" "res = ucast p # res1"
    using Cons.prems by (auto simp: p_def Let_def split: prod.splits)
  have b: "unat w < 2 ^ 32" "unat c < 2 ^ 32" by (rule unat_lt32)+
  have m: "unat (0x3D1 * ucast w :: u64) = 0x3D1 * unat w"
    using b by (subst unat_mult_lem [THEN iffD1]) (simp_all add: unat_ucast_u64)
  have p: "unat p = 0x3D1 * unat w + unat c"
    using b unfolding p_def by (subst unat_add_small) (simp_all only: m unat_ucast_u64, simp)
  have IH: "length res1 = length ws"
    "vli_val res1 + 2 ^ (32 * length ws) * unat c' = 0x3D1 * vli_val ws + unat p div 2 ^ 32"
    using Cons.IH [OF r(1)] by (simp_all only: split_64 [of p])
  have "vli_val res + 2 ^ (32 * length (w # ws)) * unat c' =
    unat p mod 2 ^ 32 + 2 ^ 32 * (vli_val res1 + 2 ^ (32 * length ws) * unat c')"
    unfolding r(2) by (simp only: vli_val.simps split_64 [of p]) (simp add: power_add)
  also have "\<dots> = unat p mod 2 ^ 32 + 2 ^ 32 * (unat p div 2 ^ 32) + 2 ^ 32 * (0x3D1 * vli_val ws)"
    unfolding IH(2) by simp
  also have "\<dots> = 0x3D1 * vli_val (w # ws) + unat c"
    unfolding mod_mult_div_eq by (simp add: p)
  finally show ?case using IH(1) r(2) by simp
qed simp

lemma omega_mult_val:
  assumes "length right = 8"
  shows "length (omega_mult_secp256k1 right) = 10" and "vli_val (omega_mult_secp256k1 right) = OMEGA * vli_val right"
proof -
  obtain res c where l: "omega_loop right 0 = (res, c)" by (cases "omega_loop right 0")
  note lv = omega_loop_val [OF l]
  obtain w ws where res: "res = w # ws" using lv assms by (cases res) auto
  obtain up k where a: "uECC_vli_add (ws @ [c]) right 8 = (up, k)" by (cases "uECC_vli_add (ws @ [c]) right 8")
  have "length (ws @ [c]) = 8" using lv assms res by simp
  note av = add_val [OF a this assms]
  have e: "omega_mult_secp256k1 right = [w] @ up @ [k]"
    using l a assms by (simp add: omega_mult_secp256k1_def res)
  show "length (omega_mult_secp256k1 right) = 10" using av(1) by (simp add: e)
  have "vli_val (omega_mult_secp256k1 right) = unat w + 2 ^ 32 * (vli_val (ws @ [c]) + vli_val right)"
    using av(1,3) unfolding e by (simp add: vli_val_append)
  also have "\<dots> = vli_val res + 2 ^ 256 * unat c + 2 ^ 32 * vli_val right"
    using lv assms by (simp add: res vli_val_append)
  also have "\<dots> = OMEGA * vli_val right" using lv assms by (simp add: OMEGA_def)
  finally show "vli_val (omega_mult_secp256k1 right) = OMEGA * vli_val right" .
qed

lemma wrap_sub:
  fixes s r K :: nat
  assumes "s + p = r + K * b" and "p + w = K"
  shows "s mod K = (r + w) mod K"
proof -
  have "s + K = (r + w) + K * b" using assms by simp
  then show ?thesis by (metis mod_add_self2 mod_mult_self2)
qed

lemma sub_p_times_val:
  "length r = 8 \<Longrightarrow> length (sub_p_times k r) = 8 \<and> vli_val (sub_p_times k r) = (vli_val r + k * OMEGA) mod 2 ^ 256"
proof (induction k arbitrary: r)
  case 0
  then show ?case using vli_val_less' [of r 8] by simp
next
  case (Suc k)
  obtain s c where s: "uECC_vli_sub r (curve_p curve_secp256k1) 8 = (s, c)"
    by (cases "uECC_vli_sub r (curve_p curve_secp256k1) 8")
  note sv = sub_val [OF s Suc.prems curve_fields(4)]
  have m: "vli_val s mod 2 ^ 256 = (vli_val r + OMEGA) mod 2 ^ 256"
    using sv(3) by (intro wrap_sub [OF _ P_OMEGA]) simp
  have "(vli_val s + k * OMEGA) mod 2 ^ 256 = (vli_val r + Suc k * OMEGA) mod 2 ^ 256"
  proof -
    have "(vli_val s + k * OMEGA) mod 2 ^ 256 = (vli_val s mod 2 ^ 256 + k * OMEGA) mod 2 ^ 256" by (simp only: mod_add_left_eq)
    also have "\<dots> = (vli_val r + OMEGA + k * OMEGA) mod 2 ^ 256" by (simp only: m mod_add_left_eq)
    finally show ?thesis by (simp only: mult_Suc add.assoc)
  qed
  then show ?case using Suc.IH [OF sv(1)] by (simp add: s)
qed

lemma add_take_val:
  assumes "uECC_vli_add l r 8 = (s, c)" and "8 \<le> length l" and "8 \<le> length r"
  shows "length s = 8" and "c = 0 \<or> c = 1" and "vli_val s + 2 ^ 256 * unat c = vli_val (take 8 l) + vli_val (take 8 r)"
  using add_val [of "take 8 l" "take 8 r" 8 s c] assms by (simp_all add: uECC_vli_add_def)

lemma mmod_fast_steps:
  assumes "length product = 16"
  shows "\<exists>r k T. length (vli_mmod_fast_secp256k1 product) = 8 \<and> r < 2 ^ 256 \<and> r + 2 ^ 256 * k = T \<and>
    T < 2 ^ 257 + OMEGA * OMEGA \<and> T mod P_VAL = vli_val product mod P_VAL \<and>
    vli_val (vli_mmod_fast_secp256k1 product) =
      (let v = (r + k * OMEGA) mod 2 ^ 256 in if P_VAL < v then v - P_VAL else v)"
proof -
  let ?lo = "take 8 product" let ?hi = "drop 8 product"
  have l: "length ?lo = 8" "length ?hi = 8" using assms by simp_all
  note om = omega_mult_val [OF l(2)]
  define tmp where "tmp = omega_mult_secp256k1 ?hi @ replicate 6 0"
  have tmp: "length tmp = 16" "vli_val tmp = OMEGA * vli_val ?hi"
    "list_splice 0 (omega_mult_secp256k1 ?hi) (uECC_vli_clear 8 @ uECC_vli_clear 8) = tmp"
    using om by (simp_all add: tmp_def vli_val_append list_splice_def uECC_vli_clear_def)
  let ?q = "take 8 tmp" let ?R = "drop 8 tmp"
  have tl: "length ?q = 8" "length ?R = 8" using tmp(1) by simp_all
  have split: "vli_val tmp = vli_val ?q + 2 ^ 256 * vli_val ?R"
    using vli_val_append [of ?q ?R] tl by simp
  have "2 ^ 256 * vli_val ?R \<le> OMEGA * vli_val ?hi" using split tmp(2) by simp
  also have "\<dots> < OMEGA * 2 ^ 256" using vli_val_less' [OF l(2)] by (simp add: OMEGA_def)
  finally have R: "vli_val ?R < OMEGA" by simp
  note om2 = omega_mult_val [OF tl(2)]
  have RO: "OMEGA * vli_val ?R < OMEGA * OMEGA" using R by (simp add: OMEGA_def)
  moreover have "OMEGA * OMEGA < 2 ^ (32 * 8)" by (simp add: OMEGA_def)
  ultimately have "OMEGA * vli_val ?R < 2 ^ (32 * 8)" by (rule less_trans)
  then have t8: "vli_val (take 8 (omega_mult_secp256k1 ?R)) = OMEGA * vli_val ?R"
    using vli_val_take [of "omega_mult_secp256k1 ?R" 8] om2 by simp
  define product2 where "product2 = list_splice 0 (omega_mult_secp256k1 ?R) (list_splice 0 (uECC_vli_clear 8) product)"
  have p2: "8 \<le> length product2" "take 8 product2 = take 8 (omega_mult_secp256k1 ?R)"
    using om2(1) assms by (simp_all add: product2_def list_splice_def uECC_vli_clear_def)
  obtain r1 c1 where a1: "uECC_vli_add product tmp 8 = (r1, c1)" by (cases "uECC_vli_add product tmp 8")
  have v1: "length r1 = 8" "c1 = 0 \<or> c1 = 1" "vli_val r1 + 2 ^ 256 * unat c1 = vli_val ?lo + vli_val ?q"
    using add_take_val [OF a1] assms tmp(1) by simp_all
  obtain r2 c2 where a2: "uECC_vli_add r1 product2 8 = (r2, c2)" by (cases "uECC_vli_add r1 product2 8")
  have v2: "length r2 = 8" "c2 = 0 \<or> c2 = 1" "vli_val r2 + 2 ^ 256 * unat c2 = vli_val r1 + OMEGA * vli_val ?R"
    using add_take_val [OF a2] v1(1) p2 t8 by simp_all
  define k where "k = unat (c1 + c2)"
  have k: "k = unat c1 + unat c2" using v1(2) v2(2) by (auto simp: k_def)
  define f where "f = sub_p_times k r2"
  have f: "length f = 8" "vli_val f = (vli_val r2 + k * OMEGA) mod 2 ^ 256"
    using sub_p_times_val [OF v2(1), of k] by (simp_all add: f_def)
  let ?p = "curve_p curve_secp256k1"
  have e: "vli_mmod_fast_secp256k1 product =
    (if 0 < uECC_vli_cmp_unsafe f ?p 8 then fst (uECC_vli_sub f ?p 8) else f)"
    by (simp add: vli_mmod_fast_secp256k1_def tmp(3) a1 product2_def [symmetric] a2 k_def [symmetric] f_def [symmetric])
  obtain g b where g: "uECC_vli_sub f ?p 8 = (g, b)" by (cases "uECC_vli_sub f ?p 8")
  have len: "length (vli_mmod_fast_secp256k1 product) = 8"
    unfolding e using f(1) sub_val(1) [OF g f(1)] g by simp
  have val: "vli_val (vli_mmod_fast_secp256k1 product) =
      (let v = (vli_val r2 + k * OMEGA) mod 2 ^ 256 in if P_VAL < v then v - P_VAL else v)"
    unfolding e using f sub_borrow(2) [OF g f(1)] g cmp_unsafe_iff(2) [OF f(1), of ?p] by (simp add: Let_def)
  define T where "T = vli_val ?lo + vli_val ?q + OMEGA * vli_val ?R"
  have T: "vli_val r2 + 2 ^ 256 * k = T" using v1(3) v2(3) by (simp add: T_def k distrib_left)
  have "vli_val ?lo < 2 ^ 256" "vli_val ?q < 2 ^ 256" using vli_val_less' [OF l(1)] vli_val_less' [OF tl(1)] by simp_all
  moreover have "(2 :: nat) ^ 257 = 2 ^ 256 + 2 ^ 256" by simp
  ultimately have Tb: "T < 2 ^ 257 + OMEGA * OMEGA" using RO unfolding T_def by linarith
  have N: "vli_val product = vli_val ?lo + 2 ^ 256 * vli_val ?hi" using vli_val_append [of ?lo ?hi] l by simp
  have "2 ^ 256 * vli_val ?hi = P_VAL * vli_val ?hi + OMEGA * vli_val ?hi"
    by (simp only: P_OMEGA [symmetric] distrib_right)
  then have "vli_val product = vli_val ?lo + P_VAL * vli_val ?hi + (vli_val ?q + 2 ^ 256 * vli_val ?R)"
    using N split tmp(2) by linarith
  also have "\<dots> = T + P_VAL * (vli_val ?hi + vli_val ?R)"
    unfolding T_def P_OMEGA [symmetric] by (simp only: distrib_right distrib_left ac_simps)
  finally have "vli_val product = T + P_VAL * (vli_val ?hi + vli_val ?R)" .
  then have "T mod P_VAL = vli_val product mod P_VAL" by (metis mod_mult_self2)
  then show ?thesis using len vli_val_less' [OF v2(1)] T Tb val by fastforce
qed


text \<open>The result is at most the prime, and it is the remainder (up to the prime itself, which stands for 0 when a
  nonzero multiple of the prime is reduced), or the remainder is in the window and comes out too small by \<open>OMEGA\<close>.\<close>

lemma mmod_fast_cases:
  assumes "length product = 16"
  defines "v \<equiv> vli_val (vli_mmod_fast_secp256k1 product)" and "N \<equiv> vli_val product mod P_VAL"
  shows "length (vli_mmod_fast_secp256k1 product) = 8" and "v \<le> P_VAL"
    and "v mod P_VAL = N \<or> (OMEGA \<le> N \<and> N < 2 * OMEGA \<and> v = N - OMEGA)"
proof -
  obtain r k T where st: "length (vli_mmod_fast_secp256k1 product) = 8" "r < 2 ^ 256" "r + 2 ^ 256 * k = T"
    "T < 2 ^ 257 + OMEGA * OMEGA" "T mod P_VAL = N"
    "v = (let v = (r + k * OMEGA) mod 2 ^ 256 in if P_VAL < v then v - P_VAL else v)"
    using mmod_fast_steps [OF assms(1)] unfolding v_def N_def by blast
  show "length (vli_mmod_fast_secp256k1 product) = 8" by (rule st(1))
  have num: "2 ^ 256 < 2 * P_VAL" "OMEGA * OMEGA + 2 * OMEGA < 2 ^ 256" "2 * OMEGA < P_VAL"
    by (simp_all add: P_VAL_def OMEGA_def)
  have "(r + k * OMEGA) mod 2 ^ 256 < 2 ^ 256" by simp
  then show "v \<le> P_VAL" unfolding st(6) Let_def using num(1) by auto
  have "T = (r + k * OMEGA) + P_VAL * k" unfolding st(3) [symmetric] P_OMEGA [symmetric] by (simp add: algebra_simps)
  then have N: "N = (r + k * OMEGA) mod P_VAL" using st(5) by (metis mod_mult_self2)
  have "(2::nat) ^ 257 = 2 ^ 256 * 2" by simp
  then have "2 ^ 256 * k < 2 ^ 256 * 3" using st(3,4) num(2) by linarith
  then have k: "k < 3" by simp
  show "v mod P_VAL = N \<or> (OMEGA \<le> N \<and> N < 2 * OMEGA \<and> v = N - OMEGA)"
  proof (cases "r + k * OMEGA < 2 ^ 256")
    case True
    then have "v = (if P_VAL < r + k * OMEGA then r + k * OMEGA - P_VAL else r + k * OMEGA)"
      unfolding st(6) Let_def by (simp only: mod_less)
    then show ?thesis unfolding N using le_mod_geq [of P_VAL "r + k * OMEGA"] by auto
  next
    case False
    have k1: "k = 1"
    proof -
      have "k \<noteq> 0"
      proof
        assume "k = 0"
        then show False using False st(2) by simp
      qed
      moreover have "k \<noteq> 2"
      proof
        assume "k = 2"
        then have "r < OMEGA * OMEGA" using st(3,4) by simp
        then show False using False num(2) unfolding \<open>k = 2\<close> by linarith
      qed
      ultimately show ?thesis using k by linarith
    qed
    define t where "t = r + OMEGA - 2 ^ 256"
    have t: "r + k * OMEGA = t + 2 ^ 256" "t < OMEGA" using False st(2) by (auto simp: t_def k1)
    have "(r + k * OMEGA) mod 2 ^ 256 = t"
      unfolding t(1) using t(2) num(2) by simp
    then have v: "v = t" unfolding st(6) Let_def using t(2) num(3) by simp
    have e: "r + k * OMEGA = (t + OMEGA) + P_VAL" using P_OMEGA t(1) by linarith
    have "N = t + OMEGA" unfolding N e mod_add_self2 using t(2) num(3) by simp
    then show ?thesis using v t(2) by simp
  qed
qed

text \<open>Outside the window the reduction is exact.\<close>

lemma mmod_fast_exact:
  assumes "length product = 16"
    and "\<not> (OMEGA \<le> vli_val product mod P_VAL \<and> vli_val product mod P_VAL < 2 * OMEGA)"
  shows "vli_val (vli_mmod_fast_secp256k1 product) mod P_VAL = vli_val product mod P_VAL"
  using mmod_fast_cases(3) [OF assms(1)] assms(2) by blast

text \<open>In the window it need not be: the product of these two residues comes out too small by \<open>OMEGA\<close>. The result of the
  last addition with its carry stands for \<open>2^256 + r\<close> with \<open>r + OMEGA \<ge> 2^256\<close>; the loop subtracts the prime once,
  the number of its carry, and the borrow that the subtraction should consume is dropped.\<close>

definition lost_left :: vli where
  "lost_left = [3396425700, 4121469177, 3524413840, 3787615662, 853307631, 3367029004, 512174822, 686]"

definition lost_right :: vli where
  "lost_right = [3741051349, 4092101636, 579324732, 402289659, 1370575934, 2781536509, 2932628614, 6259795]"

definition lost_words :: vli where
  "lost_words = [2111349940, 4294967295, 4294967295, 4294967295, 4294967295, 4294967295, 4294967295, 4294967295, 241691781, 1257030660, 1106524798, 592337830, 3362392675, 954528, 4294966319, 0]"

lemma lost_product:
  "vli_val lost_left * vli_val lost_right = vli_val lost_words"
  by (simp add: lost_left_def lost_right_def lost_words_def)

lemma lost_product_mod: "vli_val lost_left * vli_val lost_right mod P_VAL = 6315987947"
proof -
  have "vli_val lost_left * vli_val lost_right = 6315987947 + P_VAL * 26959940534423639367258949949567626958177063271088932684057008401543"
    by (simp add: lost_left_def lost_right_def P_VAL_def)
  moreover have "6315987947 < P_VAL" by (simp add: P_VAL_def)
  ultimately show ?thesis by (simp only: mod_mult_self2 mod_less)
qed

lemma lost_reduction: "vli_mmod_fast_secp256k1 lost_words = [2021019674, 0, 0, 0, 0, 0, 0, 0]"
  unfolding lost_words_def by code_simp

lemma mmod_fast_lost: "uECC_vli_modMult_fast lost_left lost_right curve_secp256k1 = [2021019674, 0, 0, 0, 0, 0, 0, 0]"
proof -
  have l: "length lost_left = 8" "length lost_right = 8" "length lost_words = 16"
    by (simp_all add: lost_left_def lost_right_def lost_words_def)
  have "uECC_vli_mult lost_left lost_right 8 = lost_words"
    by (rule vli_val_inj) (use mult_val [OF l(1,2)] lost_product l(3) in simp_all)
  then show ?thesis by (simp add: uECC_vli_modMult_fast_def lost_reduction)
qed

subsection \<open>The ring of residues\<close>

lemma P_pos: "0 < P_VAL" "1 < P_VAL" "0 < int P_VAL" "1 < int P_VAL"
  using odd_moduli(3) by simp_all

typedef fp = "{0..<int P_VAL}"
  using P_pos by (intro exI [of _ 0]) simp

setup_lifting type_definition_fp

instantiation fp :: comm_ring_1
begin

lift_definition zero_fp :: fp is 0 using P_pos by simp
lift_definition one_fp :: fp is 1 using P_pos by simp
lift_definition plus_fp :: "fp \<Rightarrow> fp \<Rightarrow> fp" is "\<lambda>a b. (a + b) mod int P_VAL" using P_pos by simp
lift_definition minus_fp :: "fp \<Rightarrow> fp \<Rightarrow> fp" is "\<lambda>a b. (a - b) mod int P_VAL" using P_pos by simp
lift_definition uminus_fp :: "fp \<Rightarrow> fp" is "\<lambda>a. (- a) mod int P_VAL" using P_pos by simp
lift_definition times_fp :: "fp \<Rightarrow> fp \<Rightarrow> fp" is "\<lambda>a b. (a * b) mod int P_VAL" using P_pos by simp

instance
proof
  fix a b c :: fp
  show "a + b + c = a + (b + c)" by transfer (simp add: mod_simps ac_simps)
  show "a + b = b + a" by transfer (simp add: ac_simps)
  show "0 + a = a" by transfer simp
  show "- a + a = 0" by transfer (simp add: mod_simps)
  show "a - b = a + - b" by transfer (simp add: mod_simps)
  show "a * b * c = a * (b * c)" by transfer (simp add: mod_simps ac_simps)
  show "a * b = b * a" by transfer (simp add: ac_simps)
  show "1 * a = a" by transfer simp
  show "(a + b) * c = a * c + b * c" by transfer (simp add: mod_simps distrib_right)
  show "(0::fp) \<noteq> 1" by transfer simp
qed

end

lemma of_nat_fp: "Rep_fp (of_nat n) = int n mod int P_VAL"
proof (induction n)
  case 0
  then show ?case by (simp add: zero_fp.rep_eq)
next
  case (Suc n)
  then show ?case by (simp add: plus_fp.rep_eq one_fp.rep_eq mod_simps add.commute)
qed

definition fp_nat :: "fp \<Rightarrow> nat" where
  "fp_nat a = nat (Rep_fp a)"

lemma fp_nat_of_nat: "fp_nat (of_nat n) = n mod P_VAL"
  by (simp add: fp_nat_def of_nat_fp nat_mod_distrib)

lemma fp_nat_less: "fp_nat a < P_VAL"
  using Rep_fp [of a] by (simp add: fp_nat_def nat_less_iff)

lemma of_nat_fp_nat [simp]: "of_nat (fp_nat a) = a"
proof -
  have "int (fp_nat a) = Rep_fp a" using Rep_fp [of a] by (simp add: fp_nat_def)
  then have "Rep_fp (of_nat (fp_nat a)) = Rep_fp a" using of_nat_fp [of "fp_nat a"] Rep_fp [of a] by simp
  then show ?thesis by (simp add: Rep_fp_inject)
qed

lemma of_nat_fp_eq_iff: "(of_nat a :: fp) = of_nat b \<longleftrightarrow> a mod P_VAL = b mod P_VAL"
  by (metis fp_nat_of_nat of_nat_fp_nat)

lemma of_nat_P [simp]: "(of_nat P_VAL :: fp) = 0"
  using of_nat_fp_eq_iff [of P_VAL 0] by simp


text \<open>What an array stands for, the arrays the field operations work on (at most the prime, which stands for 0), and the
  products that are reduced exactly.\<close>

definition fe :: "vli \<Rightarrow> fp" where
  "fe w = of_nat (vli_val w)"

definition coord :: "vli \<Rightarrow> bool" where
  "coord w \<longleftrightarrow> length w = 8 \<and> vli_val w \<le> P_VAL"

definition safe :: "fp \<Rightarrow> bool" where
  "safe a \<longleftrightarrow> \<not> (OMEGA \<le> fp_nat a \<and> fp_nat a < 2 * OMEGA)"

lemma coord_length [simp]: "coord w \<Longrightarrow> length w = 8"
  by (simp add: coord_def)

lemma fe_eq_iff: "vli_val a < P_VAL \<Longrightarrow> vli_val b < P_VAL \<Longrightarrow> fe a = fe b \<longleftrightarrow> vli_val a = vli_val b"
  by (simp add: fe_def of_nat_fp_eq_iff)

lemma fe_nat: "vli_val a < P_VAL \<Longrightarrow> fp_nat (fe a) = vli_val a"
  by (simp add: fe_def fp_nat_of_nat)

lemma fe_0_iff: "coord a \<Longrightarrow> fe a = 0 \<longleftrightarrow> vli_val a = 0 \<or> vli_val a = P_VAL"
  using of_nat_fp_eq_iff [of "vli_val a" 0] by (auto simp: fe_def coord_def le_less mod_eq_0_iff_dvd)

lemma modMult_fast_coord: "length a = 8 \<Longrightarrow> length b = 8 \<Longrightarrow> coord (uECC_vli_modMult_fast a b curve_secp256k1)"
  using mmod_fast_cases(1,2) [of "uECC_vli_mult a b 8"] mult_val(1) [of a 8 b]
  by (simp add: uECC_vli_modMult_fast_def coord_def)

lemma modMult_fast_fe:
  assumes "length a = 8" and "length b = 8" and "safe (fe a * fe b)"
  shows "fe (uECC_vli_modMult_fast a b curve_secp256k1) = fe a * fe b"
proof -
  let ?m = "uECC_vli_mult a b 8"
  have m: "length ?m = 16" "vli_val ?m = vli_val a * vli_val b" using mult_val [of a 8 b] assms(1,2) by simp_all
  have "fe a * fe b = of_nat (vli_val ?m)" by (simp add: fe_def m(2))
  then have n: "fp_nat (fe a * fe b) = vli_val ?m mod P_VAL" by (simp add: fp_nat_of_nat)
  have "vli_val (vli_mmod_fast_secp256k1 ?m) mod P_VAL = vli_val ?m mod P_VAL"
    using mmod_fast_cases(3) [OF m(1)] assms(3) unfolding safe_def n by blast
  then show ?thesis
    unfolding \<open>fe a * fe b = _\<close> by (simp add: uECC_vli_modMult_fast_def fe_def of_nat_fp_eq_iff)
qed

lemma modSquare_fast_coord: "length a = 8 \<Longrightarrow> coord (uECC_vli_modSquare_fast a curve_secp256k1)"
  by (simp add: uECC_vli_modSquare_fast_def modMult_fast_coord)

lemma modSquare_fast_fe: "length a = 8 \<Longrightarrow> safe (fe a * fe a) \<Longrightarrow> fe (uECC_vli_modSquare_fast a curve_secp256k1) = fe a * fe a"
  by (simp add: uECC_vli_modSquare_fast_def modMult_fast_fe)

lemma modAdd_fe:
  assumes "coord a" and "coord b"
  shows "coord (uECC_vli_modAdd a b (curve_p curve_secp256k1) 8)"
    and "fe (uECC_vli_modAdd a b (curve_p curve_secp256k1) 8) = fe a + fe b"
proof -
  let ?p = "curve_p curve_secp256k1"
  have l: "length a = 8" "length b = 8" "vli_val a \<le> P_VAL" "vli_val b \<le> P_VAL" using assms by (simp_all add: coord_def)
  have "P_VAL < 2 ^ 256" by (simp add: P_VAL_def)
  then have "vli_val a + vli_val b < vli_val ?p + 2 ^ (32 * 8)" using l(3,4) by simp
  note m = modAdd_val [OF l(1,2) curve_fields(4) this]
  show "coord (uECC_vli_modAdd a b ?p 8)" using m l(3,4) by (auto simp: coord_def)
  show "fe (uECC_vli_modAdd a b ?p 8) = fe a + fe b"
    using m(2) by (simp add: fe_def of_nat_fp_eq_iff le_mod_geq flip: of_nat_add)
qed

lemma modSub_fe:
  assumes "coord a" and "coord b"
  shows "coord (uECC_vli_modSub a b (curve_p curve_secp256k1) 8)"
    and "fe (uECC_vli_modSub a b (curve_p curve_secp256k1) 8) = fe a - fe b"
proof -
  let ?p = "curve_p curve_secp256k1"
  have l: "length a = 8" "length b = 8" "vli_val a \<le> P_VAL" "vli_val b \<le> P_VAL" using assms by (simp_all add: coord_def)
  then have "vli_val b \<le> vli_val a + vli_val ?p" by simp
  note m = modSub_val [OF l(1,2) curve_fields(4) this]
  show "coord (uECC_vli_modSub a b ?p 8)" using m l(3,4) by (auto simp: coord_def)
  have "of_nat (vli_val (uECC_vli_modSub a b ?p 8)) + fe b = fe a"
    using m(2) l(3,4) by (simp add: fe_def of_nat_fp_eq_iff flip: of_nat_add)
  then show "fe (uECC_vli_modSub a b ?p 8) = fe a - fe b" unfolding fe_def [of "uECC_vli_modSub a b ?p 8"] by (simp add: eq_diff_eq)
qed

text \<open>Inversion in the ring, for the units.\<close>

lemma modInv_fe:
  assumes "length z = 8"
  shows "\<exists>w. uECC_vli_modInv z (curve_p curve_secp256k1) 8 = Some w \<and> coord w \<and> (fe z dvd 1 \<longrightarrow> fe w * fe z = 1)"
proof -
  obtain w where w: "uECC_vli_modInv z (curve_p curve_secp256k1) 8 = Some w" "length w = 8" "vli_val w < P_VAL"
    "(vli_val w * vli_val z) mod P_VAL = gcd (vli_val z) P_VAL mod P_VAL"
    using modInv_total [OF assms curve_fields(4)] odd_moduli by auto
  have "fe w * fe z = 1" if u: "fe z dvd 1"
  proof -
    obtain b where b: "fe z * b = 1" using u by (metis dvdE)
    have "vli_val z * fp_nat b mod P_VAL = 1"
    proof -
      have "(of_nat (vli_val z * fp_nat b) :: fp) = of_nat 1" using b by (simp add: fe_def)
      then show ?thesis unfolding of_nat_fp_eq_iff using P_pos(2) by simp
    qed
    then have "gcd (vli_val z) P_VAL dvd 1"
      by (metis dvd_mod_iff gcd_dvd1 gcd_dvd2 dvd_mult2)
    then have g: "gcd (vli_val z) P_VAL = 1" by simp
    have "(of_nat (vli_val w * vli_val z) :: fp) = of_nat 1"
      unfolding of_nat_fp_eq_iff using w(4) g by simp
    then show ?thesis by (simp add: fe_def)
  qed
  then show ?thesis using w by (auto simp: coord_def)
qed

end
