(* ===== verification/EccPoint.thy ===== *)
theory EccPoint
  imports Secp256k1
begin

text \<open>
  The point operations of \<^verbatim>\<open>uECC.c\<close> on secp256k1: doubling, the co-Z additions, the change of the common
  coordinate \<open>Z\<close>, the right-hand side of the equation, the check of a public key, and multiplication by a scalar with
  Montgomery's ladder. A point in memory is 16 words, \<open>x\<close> then \<open>y\<close>; a function that works in place on \<open>X1\<close>, \<open>Y1\<close> and so on
  returns their new values.
\<close>

subsection \<open>Operations\<close>

definition EccPoint_isZero :: "vli \<Rightarrow> uECC_Curve \<Rightarrow> bool" where
  "EccPoint_isZero point curve \<longleftrightarrow> uECC_vli_isZero point (num_words curve * 2)"

text \<open>The halving of \<open>t2\<close> in the doubling.\<close>

definition half_mod_p :: "vli \<Rightarrow> uECC_Curve \<Rightarrow> vli" where
  "half_mod_p Y1 curve =
     (if uECC_vli_testBit Y1 0 \<noteq> 0 then
        let (Y1, carry) = uECC_vli_add Y1 (curve_p curve) 8;
            Y1 = uECC_vli_rshift1 Y1 8
        in Y1[7 := Y1 ! 7 OR push_bit 31 carry]
      else uECC_vli_rshift1 Y1 8)"

definition double_jacobian_secp256k1 :: "vli \<Rightarrow> vli \<Rightarrow> vli \<Rightarrow> uECC_Curve \<Rightarrow> vli \<times> vli \<times> vli" where
  "double_jacobian_secp256k1 X1 Y1 Z1 curve =
     (if uECC_vli_isZero Z1 8 then (X1, Y1, Z1)
      else let
        t5 = uECC_vli_modSquare_fast Y1 curve;
        t4 = uECC_vli_modMult_fast X1 t5 curve;
        X1 = uECC_vli_modSquare_fast X1 curve;
        t5 = uECC_vli_modSquare_fast t5 curve;
        Z1 = uECC_vli_modMult_fast Y1 Z1 curve;
        Y1 = uECC_vli_modAdd X1 X1 (curve_p curve) 8;
        Y1 = uECC_vli_modAdd Y1 X1 (curve_p curve) 8;
        Y1 = half_mod_p Y1 curve;
        X1 = uECC_vli_modSquare_fast Y1 curve;
        X1 = uECC_vli_modSub X1 t4 (curve_p curve) 8;
        X1 = uECC_vli_modSub X1 t4 (curve_p curve) 8;
        t4 = uECC_vli_modSub t4 X1 (curve_p curve) 8;
        Y1 = uECC_vli_modMult_fast Y1 t4 curve;
        Y1 = uECC_vli_modSub Y1 t5 (curve_p curve) 8
      in (X1, Y1, Z1))"

definition x_side_secp256k1 :: "vli \<Rightarrow> uECC_Curve \<Rightarrow> vli" where
  "x_side_secp256k1 x curve =
     (let result = uECC_vli_modSquare_fast x curve;
          result = uECC_vli_modMult_fast result x curve
      in uECC_vli_modAdd result (curve_b curve) (curve_p curve) 8)"

definition apply_z :: "vli \<Rightarrow> vli \<Rightarrow> vli \<Rightarrow> uECC_Curve \<Rightarrow> vli \<times> vli" where
  "apply_z X1 Y1 Z curve =
     (let t1 = uECC_vli_modSquare_fast Z curve;
          X1 = uECC_vli_modMult_fast X1 t1 curve;
          t1 = uECC_vli_modMult_fast t1 Z curve;
          Y1 = uECC_vli_modMult_fast Y1 t1 curve
      in (X1, Y1))"

definition XYcZ_initial_double :: "vli \<Rightarrow> vli \<Rightarrow> vli option \<Rightarrow> uECC_Curve \<Rightarrow> (vli \<times> vli) \<times> vli \<times> vli" where
  "XYcZ_initial_double X1 Y1 initial_Z curve =
     (let z = (case initial_Z of Some w \<Rightarrow> uECC_vli_set w (num_words curve)
               | None \<Rightarrow> (uECC_vli_clear (num_words curve))[0 := 1]);
          X2 = uECC_vli_set X1 (num_words curve);
          Y2 = uECC_vli_set Y1 (num_words curve);
          (X1, Y1) = apply_z X1 Y1 z curve;
          (X1, Y1, z) = double_jacobian_secp256k1 X1 Y1 z curve;
          (X2, Y2) = apply_z X2 Y2 z curve
      in ((X1, Y1), (X2, Y2)))"

definition XYcZ_add :: "vli \<Rightarrow> vli \<Rightarrow> vli \<Rightarrow> vli \<Rightarrow> uECC_Curve \<Rightarrow> (vli \<times> vli) \<times> vli \<times> vli" where
  "XYcZ_add X1 Y1 X2 Y2 curve =
     (let p = curve_p curve; n = num_words curve;
          t5 = uECC_vli_modSub X2 X1 p n;
          t5 = uECC_vli_modSquare_fast t5 curve;
          X1 = uECC_vli_modMult_fast X1 t5 curve;
          X2 = uECC_vli_modMult_fast X2 t5 curve;
          Y2 = uECC_vli_modSub Y2 Y1 p n;
          t5 = uECC_vli_modSquare_fast Y2 curve;
          t5 = uECC_vli_modSub t5 X1 p n;
          t5 = uECC_vli_modSub t5 X2 p n;
          X2 = uECC_vli_modSub X2 X1 p n;
          Y1 = uECC_vli_modMult_fast Y1 X2 curve;
          X2 = uECC_vli_modSub X1 t5 p n;
          Y2 = uECC_vli_modMult_fast Y2 X2 curve;
          Y2 = uECC_vli_modSub Y2 Y1 p n;
          X2 = uECC_vli_set t5 n
      in ((X1, Y1), (X2, Y2)))"

definition XYcZ_addC :: "vli \<Rightarrow> vli \<Rightarrow> vli \<Rightarrow> vli \<Rightarrow> uECC_Curve \<Rightarrow> (vli \<times> vli) \<times> vli \<times> vli" where
  "XYcZ_addC X1 Y1 X2 Y2 curve =
     (let p = curve_p curve; n = num_words curve;
          t5 = uECC_vli_modSub X2 X1 p n;
          t5 = uECC_vli_modSquare_fast t5 curve;
          X1 = uECC_vli_modMult_fast X1 t5 curve;
          X2 = uECC_vli_modMult_fast X2 t5 curve;
          t5 = uECC_vli_modAdd Y2 Y1 p n;
          Y2 = uECC_vli_modSub Y2 Y1 p n;
          t6 = uECC_vli_modSub X2 X1 p n;
          Y1 = uECC_vli_modMult_fast Y1 t6 curve;
          t6 = uECC_vli_modAdd X1 X2 p n;
          X2 = uECC_vli_modSquare_fast Y2 curve;
          X2 = uECC_vli_modSub X2 t6 p n;
          t7 = uECC_vli_modSub X1 X2 p n;
          Y2 = uECC_vli_modMult_fast Y2 t7 curve;
          Y2 = uECC_vli_modSub Y2 Y1 p n;
          t7 = uECC_vli_modSquare_fast t5 curve;
          t7 = uECC_vli_modSub t7 t6 p n;
          t6 = uECC_vli_modSub t7 X1 p n;
          t6 = uECC_vli_modMult_fast t6 t5 curve;
          Y1 = uECC_vli_modSub t6 Y1 p n;
          X1 = uECC_vli_set t7 n
      in ((X1, Y1), (X2, Y2)))"

text \<open>The ladder. \<open>R\<close> is the pair of points \<open>(Rx[0], Ry[0])\<close>, \<open>(Rx[1], Ry[1])\<close>; \<open>ladder_pair f nb\<close> is a call with \<open>R[1 - nb]\<close>
  and \<open>R[nb]\<close> as first and second point.\<close>

definition ladder_pair ::
  "(vli \<Rightarrow> vli \<Rightarrow> vli \<Rightarrow> vli \<Rightarrow> uECC_Curve \<Rightarrow> (vli \<times> vli) \<times> vli \<times> vli) \<Rightarrow> nat \<Rightarrow> uECC_Curve \<Rightarrow> (vli \<times> vli) list \<Rightarrow> (vli \<times> vli) list" where
  "ladder_pair f nb curve R =
     (let (X1, Y1) = R ! (1 - nb); (X2, Y2) = R ! nb;
          (P, Q) = f X1 Y1 X2 Y2 curve
      in R[1 - nb := P, nb := Q])"

definition scalar_nb :: "vli \<Rightarrow> nat \<Rightarrow> nat" where
  "scalar_nb scalar i = (if uECC_vli_testBit scalar i = 0 then 1 else 0)"

primrec ladder :: "vli \<Rightarrow> uECC_Curve \<Rightarrow> nat \<Rightarrow> (vli \<times> vli) list \<Rightarrow> (vli \<times> vli) list" where
  "ladder scalar curve 0 R = R"
| "ladder scalar curve (Suc i) R =
     (let nb = scalar_nb scalar (Suc i);
          R = ladder_pair XYcZ_addC nb curve R;
          R = ladder_pair XYcZ_add (1 - nb) curve R
      in ladder scalar curve i R)"

definition EccPoint_mult :: "vli \<Rightarrow> vli \<Rightarrow> vli option \<Rightarrow> nat \<Rightarrow> uECC_Curve \<Rightarrow> vli option" where
  "EccPoint_mult point scalar initial_Z num_bits curve =
     (let n = num_words curve; p = curve_p curve;
          (R1, R0) = XYcZ_initial_double (uECC_vli_set point n) (uECC_vli_set (drop n point) n) initial_Z curve;
          R = ladder scalar curve (num_bits - 2) [R0, R1];
          nb = scalar_nb scalar 0;
          R = ladder_pair XYcZ_addC nb curve R;
          z = uECC_vli_modSub (fst (R ! 1)) (fst (R ! 0)) p n;
          z = uECC_vli_modMult_fast z (snd (R ! (1 - nb))) curve;
          z = uECC_vli_modMult_fast z (take n point) curve
      in do {
        z \<leftarrow> uECC_vli_modInv z p n;
        let z = uECC_vli_modMult_fast z (drop n point) curve;
        let z = uECC_vli_modMult_fast z (fst (R ! (1 - nb))) curve;
        let R = ladder_pair XYcZ_add (1 - nb) curve R;
        let (X, Y) = apply_z (fst (R ! 0)) (snd (R ! 0)) z curve;
        Some (uECC_vli_set X n @ uECC_vli_set Y n) })"

definition regularize_k :: "vli \<Rightarrow> uECC_Curve \<Rightarrow> vli \<times> vli \<times> bool" where
  "regularize_k k curve =
     (let num_n_words = BITS_TO_WORDS (num_n_bits curve);
          (k0, c) = uECC_vli_add k (curve_n curve) num_n_words;
          carry = (c \<noteq> 0 \<or> (num_n_bits curve < num_n_words * 32 \<and> uECC_vli_testBit k0 (num_n_bits curve) \<noteq> 0));
          (k1, _) = uECC_vli_add k0 (curve_n curve) num_n_words
      in (k0, k1, carry))"

definition EccPoint_compute_public_key :: "vli \<Rightarrow> uECC_Curve \<Rightarrow> (vli \<times> bool) option" where
  "EccPoint_compute_public_key private curve =
     (let (tmp1, tmp2, carry) = regularize_k private curve
      in do {
        result \<leftarrow> EccPoint_mult (curve_G curve) (if carry then tmp1 else tmp2) None (num_n_bits curve + 1) curve;
        Some (result, \<not> EccPoint_isZero result curve) })"

subsection \<open>Bytes\<close>

text \<open>Native numbers and big-endian bytes.\<close>

definition uECC_vli_nativeToBytes :: "nat \<Rightarrow> vli \<Rightarrow> u8 list" where
  "uECC_vli_nativeToBytes nbytes native =
     map (\<lambda>i. let b = nbytes - 1 - i in ucast (drop_bit (8 * (b mod 4)) (native ! (b div 4)))) [0..<nbytes]"

definition uECC_vli_bytesToNative :: "u8 list \<Rightarrow> nat \<Rightarrow> vli" where
  "uECC_vli_bytesToNative bytes nbytes =
     fold (\<lambda>i native. let b = nbytes - 1 - i
         in native[b div 4 := native ! (b div 4) OR push_bit (8 * (b mod 4)) (ucast (bytes ! i))])
       [0..<nbytes] (uECC_vli_clear ((nbytes + 3) div 4))"

subsection \<open>Public keys\<close>

definition uECC_valid_point :: "vli \<Rightarrow> uECC_Curve \<Rightarrow> bool" where
  "uECC_valid_point point curve \<longleftrightarrow>
     (let n = num_words curve in
      if EccPoint_isZero point curve then False
      else if uECC_vli_cmp_unsafe (curve_p curve) point n \<noteq> 1 \<or> uECC_vli_cmp_unsafe (curve_p curve) (drop n point) n \<noteq> 1
      then False
      else uECC_vli_equal (uECC_vli_modSquare_fast (drop n point) curve) (x_side_secp256k1 (take n point) curve) n)"

definition uECC_valid_public_key :: "u8 list \<Rightarrow> uECC_Curve \<Rightarrow> bool" where
  "uECC_valid_public_key public_key curve =
     uECC_valid_point (uECC_vli_bytesToNative public_key (num_bytes curve) @
       uECC_vli_bytesToNative (drop (num_bytes curve) public_key) (num_bytes curve)) curve"

definition uECC_compute_public_key :: "u8 list \<Rightarrow> uECC_Curve \<Rightarrow> (u8 list \<times> u32) option" where
  "uECC_compute_public_key private_key curve =
     (let private = uECC_vli_bytesToNative private_key (BITS_TO_BYTES (num_n_bits curve));
          n = BITS_TO_WORDS (num_n_bits curve)
      in if uECC_vli_isZero private n then Some ([], 0)
         else if uECC_vli_cmp (curve_n curve) private n \<noteq> 1 then Some ([], 0)
         else do {
           (public, ok) \<leftarrow> EccPoint_compute_public_key private curve;
           if \<not> ok then Some ([], 0)
           else Some (uECC_vli_nativeToBytes (num_bytes curve) public @
             uECC_vli_nativeToBytes (num_bytes curve) (drop (num_words curve) public), 1) })"


subsection \<open>The operations keep coordinates\<close>

named_theorems coords "the field operations keep coordinates"

lemmas [coords] = modMult_fast_coord modSquare_fast_coord modAdd_fe(1) modSub_fe(1)

lemma set_coord [simp]: "length x = 8 \<Longrightarrow> uECC_vli_set x 8 = x"
  by (simp add: uECC_vli_set_def)

lemma coord_b [coords]: "coord (curve_b curve_secp256k1)"
  by (simp add: coord_def P_VAL_def)

lemma double_half: "even (n :: nat) \<Longrightarrow> n div 2 + n div 2 = n"
  by (metis dvd_mult_div_cancel mult_2)

lemma half_mod_p_fe:
  assumes "coord a"
  shows "coord (half_mod_p a curve_secp256k1)" and "fe (half_mod_p a curve_secp256k1) + fe (half_mod_p a curve_secp256k1) = fe a"
proof -
  let ?p = "curve_p curve_secp256k1" let ?h = "half_mod_p a curve_secp256k1"
  have l: "length a = 8" "vli_val a \<le> P_VAL" using assms by (simp_all add: coord_def)
  have t: "uECC_vli_testBit a 0 \<noteq> 0 \<longleftrightarrow> odd (vli_val a)" using testBit_iff [of 0 a] l(1) by simp
  obtain s c where s: "uECC_vli_add a ?p 8 = (s, c)" by (cases "uECC_vli_add a ?p 8")
  note sv = add_val [OF s l(1) curve_fields(4)]
  have v: "length ?h = 8 \<and> vli_val ?h = (if odd (vli_val a) then vli_val a + P_VAL else vli_val a) div 2"
  proof (cases "odd (vli_val a)")
    case True
    have "vli_val ?h = (vli_val s + 2 ^ (32 * 8) * unat c) div 2"
      using rshift1_carry [OF sv(1) _ sv(2)] True t by (simp add: half_mod_p_def s Let_def)
    moreover have "length ?h = 8" using rshift1_val(1) [OF sv(1)] True t by (simp add: half_mod_p_def s Let_def)
    ultimately show ?thesis using sv(3) True by simp
  next
    case False
    then show ?thesis using rshift1_val [OF l(1)] t by (simp add: half_mod_p_def)
  qed
  show "coord ?h" using v l(2) by (auto simp: coord_def)
  have "vli_val ?h + vli_val ?h = (if odd (vli_val a) then vli_val a + P_VAL else vli_val a)"
    using v odd_moduli(1) by (cases "odd (vli_val a)") (simp_all only: if_True if_False, simp_all add: double_half)
  then have "(of_nat (vli_val ?h + vli_val ?h) :: fp) = of_nat (vli_val a)" by simp
  then show "fe ?h + fe ?h = fe a" by (simp add: fe_def)
qed

lemma apply_z_coord:
  assumes "length X1 = 8" and "length Y1 = 8" and "length Z = 8" and "apply_z X1 Y1 Z curve_secp256k1 = (X, Y)"
  shows "coord X \<and> coord Y"
  using assms by (auto simp: apply_z_def Let_def coords)

lemma double_jacobian_coord:
  assumes "coord X1" and "coord Y1" and "coord Z1"
    and "double_jacobian_secp256k1 X1 Y1 Z1 curve_secp256k1 = (X, Y, Z)"
  shows "coord X \<and> coord Y \<and> coord Z"
  using assms by (auto simp: double_jacobian_secp256k1_def Let_def coords half_mod_p_fe(1) split: if_splits)

lemma XYcZ_add_coord:
  assumes "coord X1" and "coord Y1" and "coord X2" and "coord Y2"
    and "XYcZ_add X1 Y1 X2 Y2 curve_secp256k1 = ((A, B), (C, D))"
  shows "coord A \<and> coord B \<and> coord C \<and> coord D"
  using assms by (auto simp: XYcZ_add_def Let_def coords)

lemma XYcZ_addC_coord:
  assumes "coord X1" and "coord Y1" and "coord X2" and "coord Y2"
    and "XYcZ_addC X1 Y1 X2 Y2 curve_secp256k1 = ((A, B), (C, D))"
  shows "coord A \<and> coord B \<and> coord C \<and> coord D"
  using assms by (auto simp: XYcZ_addC_def Let_def coords)


subsection \<open>The same formulas in the ring\<close>

text \<open>Each function on residues comes with the list of the products it forms: where they are \<open>safe\<close>, the code's
  function computes it.\<close>

definition z_products :: "fp \<Rightarrow> fp \<Rightarrow> fp \<Rightarrow> fp list" where
  "z_products x y z = [z * z, x * (z * z), z * z * z, y * (z * z * z)]"

lemma apply_z_fe:
  assumes "length X1 = 8" and "length Y1 = 8" and "length Z = 8" and "list_all safe (z_products (fe X1) (fe Y1) (fe Z))"
    and "apply_z X1 Y1 Z curve_secp256k1 = (X, Y)"
  shows "fe X = fe X1 * (fe Z * fe Z)" and "fe Y = fe Y1 * (fe Z * fe Z * fe Z)"
  using assms by (auto simp: apply_z_def Let_def z_products_def coords modMult_fast_fe modSquare_fast_fe)

definition half_fp :: "fp \<Rightarrow> fp" where
  "half_fp a = a * of_nat ((P_VAL + 1) div 2)"

lemma half_fp_double: "half_fp a + half_fp a = a"
proof -
  have "(of_nat ((P_VAL + 1) div 2 + (P_VAL + 1) div 2) :: fp) = of_nat (P_VAL + 1)"
    using odd_moduli(1) by (metis even_Suc Suc_eq_plus1 dvd_mult_div_cancel mult_2)
  then have "(of_nat ((P_VAL + 1) div 2) :: fp) + of_nat ((P_VAL + 1) div 2) = 1" by simp
  then show ?thesis by (simp add: half_fp_def flip: distrib_left)
qed

lemma half_unique: "(a :: fp) + a = b + b \<Longrightarrow> a = b"
  by (metis half_fp_double half_fp_def distrib_right)

lemma half_mod_p_half: "coord a \<Longrightarrow> fe (half_mod_p a curve_secp256k1) = half_fp (fe a)"
  by (rule half_unique) (simp add: half_mod_p_fe(2) half_fp_double)

definition dbl_slope :: "fp \<Rightarrow> fp" where
  "dbl_slope x = half_fp (x * x + x * x + x * x)"

definition dbl_x :: "fp \<Rightarrow> fp \<Rightarrow> fp" where
  "dbl_x x y = dbl_slope x * dbl_slope x - x * (y * y) - x * (y * y)"

definition dbl_y :: "fp \<Rightarrow> fp \<Rightarrow> fp" where
  "dbl_y x y = dbl_slope x * (x * (y * y) - dbl_x x y) - y * y * (y * y)"

definition dbl_products :: "fp \<Rightarrow> fp \<Rightarrow> fp \<Rightarrow> fp list" where
  "dbl_products x y z = [y * y, x * (y * y), x * x, y * y * (y * y), y * z, dbl_slope x * dbl_slope x,
     dbl_slope x * (x * (y * y) - dbl_x x y)]"

lemma double_jacobian_fe:
  assumes "coord X1" and "coord Y1" and "coord Z1" and "fe Z1 \<noteq> 0"
    and "list_all safe (dbl_products (fe X1) (fe Y1) (fe Z1))"
    and "double_jacobian_secp256k1 X1 Y1 Z1 curve_secp256k1 = (X, Y, Z)"
  shows "fe X = dbl_x (fe X1) (fe Y1)" and "fe Y = dbl_y (fe X1) (fe Y1)" and "fe Z = fe Y1 * fe Z1"
proof -
  have "vli_val Z1 \<noteq> 0"
  proof
    assume "vli_val Z1 = 0"
    then show False using assms(4) by (simp add: fe_def)
  qed
  then have z: "\<not> uECC_vli_isZero Z1 8" using assms(3) by (simp add: isZero_iff)
  have s: "safe (fe Y1 * fe Y1)" "safe (fe X1 * (fe Y1 * fe Y1))" "safe (fe X1 * fe X1)"
    "safe (fe Y1 * fe Y1 * (fe Y1 * fe Y1))" "safe (fe Y1 * fe Z1)" "safe (dbl_slope (fe X1) * dbl_slope (fe X1))"
    "safe (dbl_slope (fe X1) * (fe X1 * (fe Y1 * fe Y1) - dbl_x (fe X1) (fe Y1)))"
    using assms(5) by (simp_all add: dbl_products_def)
  let ?c = curve_secp256k1 let ?p = "curve_p curve_secp256k1"
  define t5a where "t5a = uECC_vli_modSquare_fast Y1 ?c"
  define t4 where "t4 = uECC_vli_modMult_fast X1 t5a ?c"
  define xx where "xx = uECC_vli_modSquare_fast X1 ?c"
  define t5 where "t5 = uECC_vli_modSquare_fast t5a ?c"
  define B where "B = half_mod_p (uECC_vli_modAdd (uECC_vli_modAdd xx xx ?p 8) xx ?p 8) ?c"
  define x3 where "x3 = uECC_vli_modSub (uECC_vli_modSub (uECC_vli_modSquare_fast B ?c) t4 ?p 8) t4 ?p 8"
  have r: "X = x3" "Y = uECC_vli_modSub (uECC_vli_modMult_fast B (uECC_vli_modSub t4 x3 ?p 8) ?c) t5 ?p 8"
    "Z = uECC_vli_modMult_fast Y1 Z1 ?c"
    using assms(6) z
    by (auto simp: double_jacobian_secp256k1_def Let_def x3_def B_def t5_def xx_def t4_def t5a_def)
  have c: "coord t5a" "coord t4" "coord xx" "coord t5"
    using assms(1-3) by (simp_all add: t5a_def t4_def xx_def t5_def coords)
  have f: "fe t5a = fe Y1 * fe Y1" "fe t4 = fe X1 * (fe Y1 * fe Y1)" "fe xx = fe X1 * fe X1"
    "fe t5 = fe Y1 * fe Y1 * (fe Y1 * fe Y1)"
    using assms(1-3) s c by (simp_all add: t5a_def t4_def xx_def t5_def coords modMult_fast_fe modSquare_fast_fe)
  have B: "coord B" "fe B = dbl_slope (fe X1)"
    using c(3) by (simp_all add: B_def coords half_mod_p_fe(1) half_mod_p_half modAdd_fe(2) f(3) dbl_slope_def)
  have BB: "fe (uECC_vli_modSquare_fast B ?c) = dbl_slope (fe X1) * dbl_slope (fe X1)"
    using B s(6) by (simp add: modSquare_fast_fe)
  have x3: "coord x3" "fe x3 = dbl_x (fe X1) (fe Y1)"
    using B c by (simp_all add: x3_def coords modSub_fe(2) BB f(2) dbl_x_def)
  have "fe (uECC_vli_modMult_fast B (uECC_vli_modSub t4 x3 ?p 8) ?c)
      = dbl_slope (fe X1) * (fe X1 * (fe Y1 * fe Y1) - dbl_x (fe X1) (fe Y1))"
    using modMult_fast_fe [of B "uECC_vli_modSub t4 x3 ?p 8"] c x3 B s(7) modSub_fe [OF c(2) x3(1)] f(2) by simp
  then show "fe Y = dbl_y (fe X1) (fe Y1)" unfolding r(2) using c x3 B by (simp add: modSub_fe(2) coords f(4) dbl_y_def)
  show "fe X = dbl_x (fe X1) (fe Y1)" using r(1) x3 by simp
  show "fe Z = fe Y1 * fe Z1" unfolding r(3) using assms(2,3) s(5) by (simp add: modMult_fast_fe)
qed

definition add_x :: "fp \<Rightarrow> fp \<Rightarrow> fp \<Rightarrow> fp \<Rightarrow> fp" where
  "add_x x1 y1 x2 y2 = (y2 - y1) * (y2 - y1) - x1 * ((x2 - x1) * (x2 - x1)) - x2 * ((x2 - x1) * (x2 - x1))"

definition add_y :: "fp \<Rightarrow> fp \<Rightarrow> fp \<Rightarrow> fp \<Rightarrow> fp" where
  "add_y x1 y1 x2 y2 = (y2 - y1) * (x1 * ((x2 - x1) * (x2 - x1)) - add_x x1 y1 x2 y2)
     - y1 * (x2 * ((x2 - x1) * (x2 - x1)) - x1 * ((x2 - x1) * (x2 - x1)))"

definition add_products :: "fp \<Rightarrow> fp \<Rightarrow> fp \<Rightarrow> fp \<Rightarrow> fp list" where
  "add_products x1 y1 x2 y2 = (let a = (x2 - x1) * (x2 - x1); b = x1 * a; c = x2 * a in
     [a, b, c, (y2 - y1) * (y2 - y1), y1 * (c - b), (y2 - y1) * (b - add_x x1 y1 x2 y2)])"

lemma XYcZ_add_fe:
  assumes "coord X1" and "coord Y1" and "coord X2" and "coord Y2"
    and "list_all safe (add_products (fe X1) (fe Y1) (fe X2) (fe Y2))"
    and "XYcZ_add X1 Y1 X2 Y2 curve_secp256k1 = ((A, B), (C, D))"
  defines "d \<equiv> (fe X2 - fe X1) * (fe X2 - fe X1)"
  shows "fe A = fe X1 * d" and "fe B = fe Y1 * (fe X2 * d - fe X1 * d)"
    and "fe C = add_x (fe X1) (fe Y1) (fe X2) (fe Y2)" and "fe D = add_y (fe X1) (fe Y1) (fe X2) (fe Y2)"
proof -
  let ?x1 = "fe X1" let ?y1 = "fe Y1" let ?x2 = "fe X2" let ?y2 = "fe Y2"
  have s: "safe d" "safe (?x1 * d)" "safe (?x2 * d)" "safe ((?y2 - ?y1) * (?y2 - ?y1))"
    "safe (?y1 * (?x2 * d - ?x1 * d))" "safe ((?y2 - ?y1) * (?x1 * d - add_x ?x1 ?y1 ?x2 ?y2))"
    using assms(5) by (simp_all add: add_products_def Let_def d_def)
  note facts = assms(1-4,6) s [unfolded d_def]
  show "fe A = ?x1 * d" and "fe B = ?y1 * (?x2 * d - ?x1 * d)"
    and "fe C = add_x ?x1 ?y1 ?x2 ?y2" and "fe D = add_y ?x1 ?y1 ?x2 ?y2"
    using facts
    by (auto simp: XYcZ_add_def Let_def coords modMult_fast_fe modSquare_fast_fe modSub_fe(2) add_x_def add_y_def d_def)
qed


definition addC_products :: "fp \<Rightarrow> fp \<Rightarrow> fp \<Rightarrow> fp \<Rightarrow> fp list" where
  "addC_products x1 y1 x2 y2 = (let b = x1 * ((x2 - x1) * (x2 - x1)) in
     add_products x1 y1 x2 y2 @ [(y2 + y1) * (y2 + y1), (add_x x1 (- y1) x2 y2 - b) * (y2 + y1)])"

text \<open>The difference is the sum with the first point negated.\<close>

lemma XYcZ_addC_fe:
  assumes "coord X1" and "coord Y1" and "coord X2" and "coord Y2"
    and "list_all safe (addC_products (fe X1) (fe Y1) (fe X2) (fe Y2))"
    and "XYcZ_addC X1 Y1 X2 Y2 curve_secp256k1 = ((A, B), (C, D))"
  shows "fe A = add_x (fe X1) (- fe Y1) (fe X2) (fe Y2)" and "fe B = - add_y (fe X1) (- fe Y1) (fe X2) (fe Y2)"
    and "fe C = add_x (fe X1) (fe Y1) (fe X2) (fe Y2)" and "fe D = add_y (fe X1) (fe Y1) (fe X2) (fe Y2)"
proof -
  let ?x1 = "fe X1" let ?y1 = "fe Y1" let ?x2 = "fe X2" let ?y2 = "fe Y2"
  define d where "d = (?x2 - ?x1) * (?x2 - ?x1)"
  define m where "m = (?y2 - ?y1) * (?y2 - ?y1) - (?x1 * d + ?x2 * d)"
  define q where "q = (?y2 + ?y1) * (?y2 + ?y1) - (?x1 * d + ?x2 * d)"
  have mq: "add_x ?x1 ?y1 ?x2 ?y2 = m" "add_x ?x1 (- ?y1) ?x2 ?y2 = q"
    by (simp_all add: add_x_def m_def q_def d_def algebra_simps)
  have s: "safe d" "safe (?x1 * d)" "safe (?x2 * d)" "safe ((?y2 - ?y1) * (?y2 - ?y1))"
    "safe (?y1 * (?x2 * d - ?x1 * d))" "safe ((?y2 - ?y1) * (?x1 * d - m))"
    "safe ((?y2 + ?y1) * (?y2 + ?y1))" "safe ((q - ?x1 * d) * (?y2 + ?y1))"
    using assms(5) unfolding mq [symmetric] by (simp_all add: addC_products_def add_products_def Let_def d_def)
  have "fe A = q \<and> fe B = (q - ?x1 * d) * (?y2 + ?y1) - ?y1 * (?x2 * d - ?x1 * d) \<and>
    fe C = m \<and> fe D = (?y2 - ?y1) * (?x1 * d - m) - ?y1 * (?x2 * d - ?x1 * d)"
    using assms(1-4,6) s
    by (auto simp: XYcZ_addC_def Let_def coords modMult_fast_fe modSquare_fast_fe modSub_fe(2) modAdd_fe(2) m_def q_def d_def)
  then show "fe A = add_x ?x1 (- ?y1) ?x2 ?y2" and "fe B = - add_y ?x1 (- ?y1) ?x2 ?y2"
    and "fe C = add_x ?x1 ?y1 ?x2 ?y2" and "fe D = add_y ?x1 ?y1 ?x2 ?y2"
    unfolding add_y_def mq by (simp_all add: d_def algebra_simps)
qed

subsection \<open>Chords and tangents\<close>

text \<open>The group operation on affine points, as lines: \<open>(x3, y3)\<close> is the third intersection, reflected, of the line through
  two points, or of the tangent, with the curve. The residues need not be known to be a field; where the denominator is
  a unit there is exactly one such point.\<close>

definition on_curve :: "fp \<times> fp \<Rightarrow> bool" where
  "on_curve P \<longleftrightarrow> (case P of (x, y) \<Rightarrow> y * y = x * x * x + 7)"

definition chord :: "fp \<times> fp \<Rightarrow> fp \<times> fp \<Rightarrow> fp \<times> fp \<Rightarrow> bool" where
  "chord P Q R \<longleftrightarrow> (case (P, Q, R) of ((x1, y1), (x2, y2), (x3, y3)) \<Rightarrow>
     (x2 - x1) dvd 1 \<and> (\<exists>l. (x2 - x1) * l = y2 - y1 \<and> x3 = l * l - x1 - x2 \<and> y3 = l * (x1 - x3) - y1))"

definition tangent :: "fp \<times> fp \<Rightarrow> fp \<times> fp \<Rightarrow> bool" where
  "tangent P R \<longleftrightarrow> (case (P, R) of ((x, y), (x3, y3)) \<Rightarrow>
     y dvd 1 \<and> (\<exists>l. (y + y) * l = x * x + x * x + x * x \<and> x3 = l * l - x - x \<and> y3 = l * (x - x3) - y))"

lemma unit_cancel:
  assumes "(d :: fp) dvd 1" and "d * a = d * b"
  shows "a = b"
proof -
  obtain e where e: "1 = d * e" using assms(1) by (rule dvdE)
  have "a = e * (d * a)" using e by (metis mult.assoc mult.commute mult_1)
  also have "\<dots> = e * (d * b)" by (simp only: assms(2))
  also have "\<dots> = b" using e by (metis mult.assoc mult.commute mult_1)
  finally show ?thesis .
qed

lemma chord_unique:
  assumes "chord P Q R" and "chord P Q R'"
  shows "R = R'"
proof -
  obtain x1 y1 x2 y2 where p: "P = (x1, y1)" "Q = (x2, y2)" by (cases P; cases Q)
  obtain l where l: "(x2 - x1) dvd 1" "(x2 - x1) * l = y2 - y1" "R = (l * l - x1 - x2, l * (x1 - (l * l - x1 - x2)) - y1)"
    using assms(1) unfolding p chord_def by (cases R) auto
  obtain m where m: "(x2 - x1) * m = y2 - y1" "R' = (m * m - x1 - x2, m * (x1 - (m * m - x1 - x2)) - y1)"
    using assms(2) unfolding p chord_def by (cases R') auto
  have "l = m" by (rule unit_cancel [OF l(1)]) (simp only: l(2) m(1))
  then show ?thesis using l(3) m(2) by simp
qed

lemma unit_double: 
  assumes "(y :: fp) dvd 1" and "(y + y) * a = (y + y) * b"
  shows "a = b"
proof (rule half_unique, rule unit_cancel [OF assms(1)])
  have "y * (a + a) = (y + y) * a" by (simp only: distrib_left distrib_right)
  also have "\<dots> = y * (b + b)" unfolding assms(2) by (simp only: distrib_left distrib_right)
  finally show "y * (a + a) = y * (b + b)" .
qed

lemma tangent_unique:
  assumes "tangent P R" and "tangent P R'"
  shows "R = R'"
proof -
  obtain x y where p: "P = (x, y)" by (cases P)
  obtain l where l: "y dvd 1" "(y + y) * l = x * x + x * x + x * x" "R = (l * l - x - x, l * (x - (l * l - x - x)) - y)"
    using assms(1) unfolding p tangent_def by (cases R) auto
  obtain m where m: "(y + y) * m = x * x + x * x + x * x" "R' = (m * m - x - x, m * (x - (m * m - x - x)) - y)"
    using assms(2) unfolding p tangent_def by (cases R') auto
  have "l = m" by (rule unit_double [OF l(1)]) (simp only: l(2) m(1))
  then show ?thesis using l(3) m(2) by simp
qed

text \<open>Both stay on the curve.\<close>

lemma chord_on_curve:
  assumes "on_curve P" and "on_curve Q" and "chord P Q R"
  shows "on_curve R"
proof -
  obtain x1 y1 x2 y2 x3 y3 where p: "P = (x1, y1)" "Q = (x2, y2)" "R = (x3, y3)" by (cases P; cases Q; cases R)
  obtain l where l: "(x2 - x1) dvd 1" "(x2 - x1) * l = y2 - y1" "x3 = l * l - x1 - x2" "y3 = l * (x1 - x3) - y1"
    using assms(3) unfolding p chord_def by auto
  have c: "y1 * y1 = x1 * x1 * x1 + 7" "y2 * y2 = x2 * x2 * x2 + 7" using assms(1,2) by (simp_all add: p on_curve_def)
  have y2: "y2 = y1 + (x2 - x1) * l" using l(2) by simp
  have "(x2 - x1) * (x2 * x2 + x1 * x2 + x1 * x1) = y2 * y2 - y1 * y1"
    unfolding c by (simp add: algebra_simps)
  also have "\<dots> = (x2 - x1) * (l * y1 + l * y1 + (x2 - x1) * (l * l))"
    unfolding y2 by (simp add: algebra_simps)
  finally have k: "x2 * x2 + x1 * x2 + x1 * x1 = l * y1 + l * y1 + (x2 - x1) * (l * l)"
    using unit_cancel [OF l(1)] by blast
  have ll: "l * l = x3 + x1 + x2" using l(3) by (simp add: algebra_simps)
  have ly: "l * y1 + l * y1 = x2 * x2 + x1 * x2 + x1 * x1 - (x2 - x1) * (x3 + x1 + x2)" using k ll by simp
  have "y3 * y3 = l * l * ((x1 - x3) * (x1 - x3)) - (l * y1 + l * y1) * (x1 - x3) + y1 * y1"
    unfolding l(4) by (simp add: algebra_simps)
  also have "\<dots> = x3 * x3 * x3 + 7" unfolding ll ly c(1) by (simp add: algebra_simps)
  finally show ?thesis by (simp add: p on_curve_def)
qed

lemma tangent_on_curve:
  assumes "on_curve P" and "tangent P R"
  shows "on_curve R"
proof -
  obtain x y x3 y3 where p: "P = (x, y)" "R = (x3, y3)" by (cases P; cases R)
  obtain l where l: "(y + y) * l = x * x + x * x + x * x" "x3 = l * l - x - x" "y3 = l * (x - x3) - y"
    using assms(2) unfolding p tangent_def by auto
  have c: "y * y = x * x * x + 7" using assms(1) by (simp add: p on_curve_def)
  have ll: "l * l = x3 + x + x" using l(2) by (simp add: algebra_simps)
  have "y3 * y3 = l * l * ((x - x3) * (x - x3)) - (y + y) * l * (x - x3) + y * y"
    unfolding l(3) by (simp add: algebra_simps)
  also have "\<dots> = x3 * x3 * x3 + 7" unfolding ll l(1) c by (simp add: algebra_simps)
  finally show ?thesis by (simp add: p on_curve_def)
qed

text \<open>A point with a common denominator: \<open>(X, Y)\<close> with \<open>Z\<close> stands for the affine point.\<close>

definition jac :: "fp \<Rightarrow> fp \<Rightarrow> fp \<Rightarrow> fp \<times> fp \<Rightarrow> bool" where
  "jac X Y Z P \<longleftrightarrow> X = fst P * (Z * Z) \<and> Y = snd P * (Z * Z * Z)"

lemma dbl_jac:
  assumes "jac X Y Z P" and "tangent P R"
  shows "jac (dbl_x X Y) (dbl_y X Y) (Y * Z) R"
proof -
  obtain x y x3 y3 where p: "P = (x, y)" "R = (x3, y3)" by (cases P; cases R)
  obtain l where l: "(y + y) * l = x * x + x * x + x * x" "x3 = l * l - x - x" "y3 = l * (x - x3) - y"
    using assms(2) unfolding p tangent_def by auto
  have X: "X = x * (Z * Z)" and Y: "Y = y * (Z * Z * Z)" using assms(1) by (simp_all add: jac_def p)
  have B: "dbl_slope X = Y * l * Z"
  proof (rule half_unique)
    have "dbl_slope X + dbl_slope X = (x * x + x * x + x * x) * (Z * Z * (Z * Z))"
      unfolding dbl_slope_def half_fp_double X by (simp add: algebra_simps)
    also have "\<dots> = Y * l * Z + Y * l * Z" unfolding l(1) [symmetric] Y by (simp add: algebra_simps)
    finally show "dbl_slope X + dbl_slope X = Y * l * Z + Y * l * Z" .
  qed
  have x: "dbl_x X Y = x3 * (Y * Z * (Y * Z))" unfolding dbl_x_def B l(2) unfolding X by (simp add: algebra_simps)
  have "dbl_y X Y = Y * l * Z * (x * (Z * Z) * (Y * Y) - x3 * (Y * Z * (Y * Z))) - Y * Y * Y * (y * (Z * Z * Z))"
    unfolding dbl_y_def B x unfolding X Y [symmetric] by (simp only: mult.assoc)
  also have "\<dots> = y3 * (Y * Z * (Y * Z) * (Y * Z))" unfolding l(3) by (simp add: algebra_simps)
  finally have "dbl_y X Y = y3 * (Y * Z * (Y * Z) * (Y * Z))" .
  then show ?thesis using x by (simp add: jac_def p)
qed

lemma add_jac:
  assumes "jac X1 Y1 Z P" and "jac X2 Y2 Z Q" and "chord P Q R"
  defines "d \<equiv> (X2 - X1) * (X2 - X1)"
  shows "jac (add_x X1 Y1 X2 Y2) (add_y X1 Y1 X2 Y2) (Z * (X2 - X1)) R"
    and "jac (X1 * d) (Y1 * (X2 * d - X1 * d)) (Z * (X2 - X1)) P"
proof -
  obtain x1 y1 x2 y2 x3 y3 where p: "P = (x1, y1)" "Q = (x2, y2)" "R = (x3, y3)" by (cases P; cases Q; cases R)
  obtain l where l: "(x2 - x1) * l = y2 - y1" "x3 = l * l - x1 - x2" "y3 = l * (x1 - x3) - y1"
    using assms(3) unfolding p chord_def by auto
  have X: "X1 = x1 * (Z * Z)" "Y1 = y1 * (Z * Z * Z)" "X2 = x2 * (Z * Z)" "Y2 = y2 * (Z * Z * Z)"
    using assms(1,2) by (simp_all add: jac_def p)
  define D where "D = X2 - X1"
  have "Y2 - Y1 = (y2 - y1) * (Z * Z * Z)" unfolding X by (simp add: algebra_simps)
  also have "\<dots> = Z * l * D" unfolding l(1) [symmetric] D_def X by (simp add: algebra_simps)
  finally have m: "Y2 - Y1 = Z * l * D" .
  have x: "add_x X1 Y1 X2 Y2 = x3 * (Z * D * (Z * D))"
    unfolding add_x_def m D_def [symmetric] l(2) unfolding X(1,3) by (simp add: algebra_simps)
  have "add_y X1 Y1 X2 Y2 = (Y2 - Y1) * (X1 * (D * D) - add_x X1 Y1 X2 Y2) - Y1 * ((X2 - X1) * (D * D))"
    unfolding add_y_def D_def by (simp only: left_diff_distrib [of X2])
  also have "\<dots> = Z * l * D * (x1 * (Z * Z) * (D * D) - x3 * (Z * D * (Z * D))) - y1 * (Z * Z * Z) * (D * (D * D))"
    unfolding m x D_def [symmetric] unfolding X(1,2) ..
  also have "\<dots> = y3 * (Z * D * (Z * D) * (Z * D))" unfolding l(3) by (simp add: algebra_simps)
  finally have "add_y X1 Y1 X2 Y2 = y3 * (Z * D * (Z * D) * (Z * D))" .
  then show "jac (add_x X1 Y1 X2 Y2) (add_y X1 Y1 X2 Y2) (Z * (X2 - X1)) R" using x by (simp add: jac_def p D_def)
  show "jac (X1 * d) (Y1 * (X2 * d - X1 * d)) (Z * (X2 - X1)) P"
    unfolding jac_def p d_def X(1,2) fst_conv snd_conv by (auto simp: algebra_simps)
qed

end
