(* ===== verification/EccBytes.thy ===== *)
theory EccBytes
  imports EccPoint
begin

text \<open>
  Byte strings and numbers in \<^verbatim>\<open>uECC.c\<close>: keys and signatures are big-endian. \<open>be_val\<close> is the number of a byte string;
  the two conversions are exact and inverse to each other.
\<close>

definition be_val :: "u8 list \<Rightarrow> nat" where
  "be_val bs = fold (\<lambda>b n. 256 * n + unat b) bs 0"

lemma be_val_append: "be_val (xs @ [b]) = 256 * be_val xs + unat b"
  by (simp add: be_val_def)

lemma be_val_Nil [simp]: "be_val [] = 0"
  by (simp add: be_val_def)

lemma unat_lt8: "unat (b :: u8) < 256"
  using unsigned_less [of b] by simp

lemma be_val_less: "be_val bs < 256 ^ length bs"
proof (induction bs rule: rev_induct)
  case (snoc b bs)
  have "256 * be_val bs + unat b < 256 * (be_val bs + 1)" using unat_lt8 [of b] by simp
  also have "\<dots> \<le> 256 * 256 ^ length bs" using snoc by (intro mult_left_mono) simp_all
  finally show ?case by (simp add: be_val_append)
qed simp

lemma be_val_nth:
  "i < length bs \<Longrightarrow> unat (bs ! i) = be_val bs div 256 ^ (length bs - 1 - i) mod 256"
proof (induction bs arbitrary: i rule: rev_induct)
  case (snoc b bs)
  show ?case
  proof (cases "i < length bs")
    case True
    then have "length (bs @ [b]) - 1 - i = Suc (length bs - 1 - i)" by simp
    moreover have "(256 * be_val bs + unat b) div 256 = be_val bs" using unat_lt8 [of b] by simp
    ultimately have "be_val (bs @ [b]) div 256 ^ (length (bs @ [b]) - 1 - i) = be_val bs div 256 ^ (length bs - 1 - i)"
      by (simp only: be_val_append power_Suc div_mult2_eq)
    then show ?thesis using snoc.IH [OF True] True by (simp add: nth_append)
  next
    case False
    then have "i = length bs" using snoc.prems by simp
    then show ?thesis using unat_lt8 [of b] by (simp add: be_val_append)
  qed
qed simp

lemma be_val_inj:
  assumes "length xs = length ys" and "be_val xs = be_val ys"
  shows "xs = ys"
  using assms by (intro nth_equalityI) (simp_all add: word_unat_eq_iff be_val_nth)

lemma vli_nth: "i < length ws \<Longrightarrow> unat (ws ! i) = vli_val ws div 2 ^ (32 * i) mod 2 ^ 32"
proof (induction ws arbitrary: i)
  case (Cons w ws)
  show ?case
  proof (cases i)
    case 0
    then show ?thesis using unat_lt32 [of w] by simp
  next
    case (Suc j)
    have "vli_val (w # ws) div 2 ^ 32 = vli_val ws" using unat_lt32 [of w] by simp
    moreover have "(2::nat) ^ (32 * Suc j) = 2 ^ 32 * 2 ^ (32 * j)" by (simp only: mult_Suc_right power_add)
    ultimately have "vli_val (w # ws) div 2 ^ (32 * Suc j) = vli_val ws div 2 ^ (32 * j)"
      by (simp only: div_mult2_eq)
    then show ?thesis using Cons.IH [of j] Cons.prems Suc by simp
  qed
qed simp

subsection \<open>From bytes\<close>

lemma or_disjoint:
  fixes w c :: u32
  assumes "2 ^ j dvd unat w" and "unat c < 2 ^ j" and "j \<le> 32"
  shows "unat (w OR c) = unat w + unat c"
proof -
  have "unat (take_bit j w) = 0"
    by (subst unsigned_take_bit_eq) (use assms(1) in \<open>simp add: take_bit_eq_mod\<close>)
  then have "take_bit j w = 0" by (simp only: unat_eq_zero)
  then have w: "\<not> bit w i" if "i < j" for i using that by (metis bit_take_bit_iff bit_0_eq bot_apply bot_bool_def)
  have "c = take_bit j c"
    using assms(2) by (simp add: word_unat_eq_iff unsigned_take_bit_eq take_bit_nat_eq_self)
  then have c: "\<not> bit c i" if "j \<le> i" for i using that by (metis bit_take_bit_iff not_less)
  have "w AND c = 0"
    by (rule bit_word_eqI) (use w c not_less in \<open>auto simp: bit_and_iff\<close>)
  then have e: "w OR c = w + c" using disjunctive_add_eq_or by metis
  obtain q where q: "unat w = 2 ^ j * q" using assms(1) by blast
  have B: "(2::nat) ^ 32 = 2 ^ j * 2 ^ (32 - j)" using assms(3) by (simp flip: power_add del: power_numeral)
  have "2 ^ j * q < 2 ^ j * 2 ^ (32 - j)" using unat_lt32 [of w] unfolding q B .
  then have "q < 2 ^ (32 - j)" by simp
  then have "2 ^ j * (q + 1) \<le> 2 ^ j * 2 ^ (32 - j)" by (intro mult_left_mono) simp_all
  then have "unat w + unat c < 2 ^ 32" unfolding q B using assms(2) by simp
  then show ?thesis unfolding e by (intro unat_add_small) simp
qed

lemma unat_push_byte:
  assumes "k + 8 \<le> 32"
  shows "unat (push_bit k (ucast (b :: u8)) :: u32) = 2 ^ k * unat b"
proof -
  have "unat b < 2 ^ 8" using unat_lt8 [of b] by simp
  also have "(2::nat) ^ 8 \<le> 2 ^ (32 - k)" using assms by (intro power_increasing) simp_all
  finally show ?thesis using assms by (simp add: unat_push_bit_32 unat_ucast_u8 del: push_bit_of_1)
qed

lemma bit_position: "8 * k = 32 * (k div 4) + 8 * (k mod 4)" for k :: nat
  by presburger

text \<open>The loop of \<open>uECC_vli_bytesToNative\<close> after \<open>i\<close> bytes: what is stored is the number of those bytes, at its place.\<close>

lemma bytes_step:
  assumes "length ws = (n + 3) div 4" and "i < n" and "vli_val ws = be_val bs * 256 ^ (n - i)"
  defines "k \<equiv> n - 1 - i"
  shows "vli_val (ws[k div 4 := ws ! (k div 4) OR push_bit (8 * (k mod 4)) (ucast b)]) =
    be_val (bs @ [b]) * 256 ^ (n - Suc i)"
proof -
  let ?w = "ws ! (k div 4)" let ?o = "8 * (k mod 4)"
  have kn: "k div 4 < length ws" using assms(1,2) by (simp add: k_def)
  have ko: "?o + 8 \<le> 32" by simp
  have p256: "(256::nat) ^ m = 2 ^ (8 * m)" for m by (simp add: power_mult)
  have nk: "n - i = Suc k" "n - Suc i = k" using assms(2) by (simp_all add: k_def)
  have k8: "8 * k = 32 * (k div 4) + ?o" by (rule bit_position)
  have "2 ^ (?o + 8) dvd unat ?w"
  proof -
    have "vli_val ws = 2 ^ (32 * (k div 4)) * (2 ^ (?o + 8) * be_val bs)"
    proof -
      have "8 * Suc k = 32 * (k div 4) + (?o + 8)" using k8 by simp
      then have "(256::nat) ^ Suc k = 2 ^ (32 * (k div 4)) * 2 ^ (?o + 8)" by (simp only: p256 power_add)
      then show ?thesis unfolding assms(3) nk by (simp only: ac_simps)
    qed
    then have "vli_val ws div 2 ^ (32 * (k div 4)) = 2 ^ (?o + 8) * be_val bs" by simp
    then have "unat ?w = 2 ^ (?o + 8) * be_val bs mod 2 ^ 32" by (simp only: vli_nth [OF kn])
    moreover have "(2::nat) ^ (?o + 8) dvd 2 ^ 32" using ko by (rule le_imp_power_dvd)
    ultimately show ?thesis by (simp only:) (rule dvd_mod, simp_all)
  qed
  moreover have "unat (push_bit ?o (ucast b) :: u32) < 2 ^ (?o + 8)"
    using unat_lt8 [of b] unfolding unat_push_byte [OF ko] by (simp add: power_add)
  ultimately have o: "unat (?w OR push_bit ?o (ucast b)) = unat ?w + 2 ^ ?o * unat b"
    using or_disjoint ko unat_push_byte [OF ko] by metis
  have "vli_val (ws[k div 4 := ?w OR push_bit ?o (ucast b)]) = vli_val ws + 2 ^ (32 * (k div 4)) * (2 ^ ?o * unat b)"
    using vli_val_update [OF kn, of "?w OR push_bit ?o (ucast b)"] unfolding o by (simp add: distrib_left)
  also have "2 ^ (32 * (k div 4)) * (2 ^ ?o * unat b) = 256 ^ k * unat b"
    unfolding p256 k8 power_add by (simp only: mult.assoc)
  finally show ?thesis unfolding assms(3) nk be_val_append by (simp add: algebra_simps)
qed

lemma bytesToNative_val:
  assumes "n \<le> length bs"
  shows "length (uECC_vli_bytesToNative bs n) = (n + 3) div 4" and "vli_val (uECC_vli_bytesToNative bs n) = be_val (take n bs)"
proof -
  let ?f = "\<lambda>i native. let b = n - 1 - i in native[b div 4 := native ! (b div 4) OR push_bit (8 * (b mod 4)) (ucast (bs ! i))]"
  have "i \<le> n \<Longrightarrow> length (fold ?f [0..<i] (uECC_vli_clear ((n + 3) div 4))) = (n + 3) div 4 \<and>
    vli_val (fold ?f [0..<i] (uECC_vli_clear ((n + 3) div 4))) = be_val (take i bs) * 256 ^ (n - i)" for i
  proof (induction i)
    case 0
    then show ?case by (simp add: uECC_vli_clear_def)
  next
    case (Suc i)
    have "take (Suc i) bs = take i bs @ [bs ! i]" using Suc.prems assms by (simp add: take_Suc_conv_app_nth)
    then show ?case using Suc bytes_step [of _ n i "take i bs" "bs ! i"] by (simp add: Let_def)
  qed
  from this [of n] show "length (uECC_vli_bytesToNative bs n) = (n + 3) div 4"
    and "vli_val (uECC_vli_bytesToNative bs n) = be_val (take n bs)" by (simp_all add: uECC_vli_bytesToNative_def)
qed

subsection \<open>To bytes\<close>

lemma nativeToBytes_nth:
  assumes "length v = (n + 3) div 4" and "i < n"
  shows "unat (uECC_vli_nativeToBytes n v ! i) = vli_val v div 256 ^ (n - 1 - i) mod 256"
proof -
  let ?b = "n - 1 - i" let ?o = "8 * (?b mod 4)"
  have b: "?b div 4 < length v" using assms by simp
  have k8: "8 * ?b = 32 * (?b div 4) + ?o" by (rule bit_position)
  have p256: "(256::nat) ^ ?b = 2 ^ (32 * (?b div 4)) * 2 ^ ?o" 
  proof -
    have "(256::nat) ^ ?b = 2 ^ (8 * ?b)" by (simp add: power_mult)
    then show ?thesis unfolding k8 power_add .
  qed
  have "uECC_vli_nativeToBytes n v ! i = ucast (drop_bit ?o (v ! (?b div 4)))"
    using assms(2) by (simp add: uECC_vli_nativeToBytes_def Let_def)
  also have "unat (\<dots> :: u8) = (unat (v ! (?b div 4)) div 2 ^ ?o) mod 2 ^ 8"
  proof -
    have "unat (ucast x :: u8) = unat x mod 2 ^ 8" for x :: u32 by (simp add: unsigned_ucast_eq take_bit_eq_mod)
    moreover have "unat (drop_bit k x) = unat x div 2 ^ k" for k and x :: u32
      by (rule trans [OF unat_drop_bit_eq]) (simp only: drop_bit_eq_div)
    ultimately show ?thesis by (simp only:)
  qed
  also have "unat (v ! (?b div 4)) = vli_val v div 2 ^ (32 * (?b div 4)) mod 2 ^ 32" by (rule vli_nth [OF b])
  also have "(vli_val v div 2 ^ (32 * (?b div 4)) mod 2 ^ 32) div 2 ^ ?o mod 2 ^ 8 =
    vli_val v div 2 ^ (32 * (?b div 4)) div 2 ^ ?o mod 2 ^ 8"
  proof -
    have "drop_bit ?o (take_bit 32 x) = take_bit (32 - ?o) (drop_bit ?o x)" for x :: nat by (rule drop_bit_take_bit)
    then have "take_bit 8 (drop_bit ?o (take_bit 32 x)) = take_bit 8 (drop_bit ?o x)" for x :: nat by simp
    then show ?thesis by (simp only: drop_bit_eq_div take_bit_eq_mod)
  qed
  finally show ?thesis unfolding p256 div_mult2_eq by simp
qed

lemma length_nativeToBytes [simp]: "length (uECC_vli_nativeToBytes n v) = n"
  by (simp add: uECC_vli_nativeToBytes_def)

lemma digits_eq:
  fixes a b :: nat
  shows "a < 256 ^ n \<Longrightarrow> b < 256 ^ n \<Longrightarrow> (\<And>k. k < n \<Longrightarrow> a div 256 ^ k mod 256 = b div 256 ^ k mod 256) \<Longrightarrow> a = b"
proof (induction n arbitrary: a b)
  case (Suc n)
  have "a div 256 = b div 256"
  proof (rule Suc.IH)
    show "a div 256 < 256 ^ n" "b div 256 < 256 ^ n" using Suc.prems(1,2) by (simp_all add: less_mult_imp_div_less mult.commute)
    show "a div 256 div 256 ^ k mod 256 = b div 256 div 256 ^ k mod 256" if "k < n" for k
      using Suc.prems(3) [of "Suc k"] that by (simp add: div_mult2_eq)
  qed
  moreover have "a mod 256 = b mod 256" using Suc.prems(3) [of 0] by simp
  ultimately show ?case by (metis div_mult_mod_eq)
qed simp

lemma nativeToBytes_val:
  assumes "length v = 8"
  shows "be_val (uECC_vli_nativeToBytes 32 v) = vli_val v"
proof (rule digits_eq [of _ 32])
  let ?bs = "uECC_vli_nativeToBytes 32 v"
  show "be_val ?bs < 256 ^ 32" using be_val_less [of ?bs] by simp
  show "vli_val v < 256 ^ 32" using vli_val_less' [OF assms] by simp
  fix k :: nat assume k: "k < 32"
  have "unat (?bs ! (31 - k)) = be_val ?bs div 256 ^ k mod 256" using be_val_nth [of "31 - k" ?bs] k by simp
  moreover have "unat (?bs ! (31 - k)) = vli_val v div 256 ^ k mod 256"
    using nativeToBytes_nth [of v 32 "31 - k"] k assms by simp
  ultimately show "be_val ?bs div 256 ^ k mod 256 = vli_val v div 256 ^ k mod 256" by simp
qed

text \<open>The conversions are inverse to each other.\<close>

lemma bytes_roundtrip:
  assumes "length v = 8"
  shows "uECC_vli_bytesToNative (uECC_vli_nativeToBytes 32 v) 32 = v"
  by (rule vli_val_inj) (simp_all add: bytesToNative_val nativeToBytes_val assms)

lemma native_roundtrip:
  assumes "length bs = 32"
  shows "uECC_vli_nativeToBytes 32 (uECC_vli_bytesToNative bs 32) = bs"
  by (rule be_val_inj) (simp_all add: bytesToNative_val nativeToBytes_val assms)

end
