(* ===== verification/Ecdsa.thy ===== *)
theory Ecdsa
  imports EccBytes
begin

text \<open>
  Signatures and key generation in \<^verbatim>\<open>uECC.c\<close>. Functions that may loop for ever or read outside an array are of type
  \<open>option\<close>; \<open>verify_returns\<close> and the lemmas before it show where they are not \<open>None\<close>. The random number generator is a
  function that the application may set; its state is threaded through.
\<close>

subsection \<open>Operations\<close>

definition bits2int :: "u8 list \<Rightarrow> nat \<Rightarrow> uECC_Curve \<Rightarrow> vli" where
  "bits2int bits bits_size curve =
     (let num_n_bytes = BITS_TO_BYTES (num_n_bits curve); num_n_words = BITS_TO_WORDS (num_n_bits curve);
          bits_size = (if num_n_bytes < bits_size then num_n_bytes else bits_size);
          native = list_splice 0 (uECC_vli_bytesToNative bits bits_size) (uECC_vli_clear num_n_words)
      in if bits_size * 8 \<le> num_n_bits curve then native
         else let shift = bits_size * 8 - num_n_bits curve;
             native = fst (foldr (\<lambda>temp (out, carry). ((drop_bit shift temp OR carry) # out, push_bit (32 - shift) temp))
               native ([], 0))
           in if uECC_vli_cmp_unsafe (curve_n curve) native num_n_words \<noteq> 1
              then fst (uECC_vli_sub native (curve_n curve) num_n_words) else native)"

definition smax :: "nat \<Rightarrow> nat \<Rightarrow> nat" where
  "smax a b = (if b < a then a else b)"

text \<open>Shamir's trick: which of \<open>0\<close>, \<open>G\<close>, the public key and their sum a pair of bits selects, and the loop for \<open>i\<close> from
  \<open>num_bits - 2\<close> down to 0.\<close>

definition verify_index :: "vli \<Rightarrow> vli \<Rightarrow> nat \<Rightarrow> nat" where
  "verify_index u1 u2 i =
     (if uECC_vli_testBit u1 i \<noteq> 0 then 1 else 0) + (if uECC_vli_testBit u2 i \<noteq> 0 then 2 else 0)"

definition verify_step :: "vli option list \<Rightarrow> nat \<Rightarrow> uECC_Curve \<Rightarrow> vli \<times> vli \<times> vli \<Rightarrow> vli \<times> vli \<times> vli" where
  "verify_step points idx curve = (\<lambda>(rx, ry, z).
     let (rx, ry, z) = double_jacobian_secp256k1 rx ry z curve
     in case points ! idx of
          None \<Rightarrow> (rx, ry, z)
        | Some point \<Rightarrow>
            let n = num_words curve;
                tx = uECC_vli_set point n;
                ty = uECC_vli_set (drop n point) n;
                (tx, ty) = apply_z tx ty z curve;
                tz = uECC_vli_modSub rx tx (curve_p curve) n;
                ((tx, ty), (rx, ry)) = XYcZ_add tx ty rx ry curve;
                z = uECC_vli_modMult_fast z tz curve
            in (rx, ry, z))"

primrec verify_loop :: "vli \<Rightarrow> vli \<Rightarrow> vli option list \<Rightarrow> uECC_Curve \<Rightarrow> nat \<Rightarrow> vli \<times> vli \<times> vli \<Rightarrow> vli \<times> vli \<times> vli" where
  "verify_loop u1 u2 points curve 0 st = st"
| "verify_loop u1 u2 points curve (Suc i) st =
     verify_loop u1 u2 points curve i (verify_step points (verify_index u1 u2 i) curve st)"

text \<open>\<open>sum = G + Q\<close>, with the \<open>Z\<close> of the addition divided out.\<close>

definition verify_sum :: "vli \<Rightarrow> uECC_Curve \<Rightarrow> vli option" where
  "verify_sum public curve =
     (let n = num_words curve;
          sx = uECC_vli_set public n; sy = uECC_vli_set (drop n public) n;
          tx = uECC_vli_set (curve_G curve) n; ty = uECC_vli_set (drop n (curve_G curve)) n;
          z = uECC_vli_modSub sx tx (curve_p curve) n;
          (_, (sx, sy)) = XYcZ_add tx ty sx sy curve
      in do {
        z \<leftarrow> uECC_vli_modInv z (curve_p curve) n;
        let (sx, sy) = apply_z sx sy z curve;
        Some (sx @ sy) })"

text \<open>The multiplication \<open>u1 * G + u2 * Q\<close>, up to the affine \<open>x\<close>. With both scalars 0 the code looks at the bit
  with number \<open>-1\<close>, outside the array.\<close>

definition verify_mult :: "vli \<Rightarrow> vli \<Rightarrow> vli option list \<Rightarrow> uECC_Curve \<Rightarrow> vli option" where
  "verify_mult u1 u2 points curve =
     (let n = num_words curve; num_n_words = BITS_TO_WORDS (num_n_bits curve);
          bits = smax (uECC_vli_numBits u1 num_n_words) (uECC_vli_numBits u2 num_n_words)
      in if bits = 0 then None
         else do {
           point \<leftarrow> points ! verify_index u1 u2 (bits - 1);
           let (rx, ry, z) = verify_loop u1 u2 points curve (bits - 1)
             (uECC_vli_set point n, uECC_vli_set (drop n point) n, (uECC_vli_clear n)[0 := 1]);
           z \<leftarrow> uECC_vli_modInv z (curve_p curve) n;
           let (rx, ry) = apply_z rx ry z curve;
           Some rx })"

definition uECC_verify :: "u8 list \<Rightarrow> u8 list \<Rightarrow> nat \<Rightarrow> u8 list \<Rightarrow> uECC_Curve \<Rightarrow> bool option" where
  "uECC_verify public_key message_hash hash_size signature curve =
     (let n = num_words curve; nb = num_bytes curve; num_n_words = BITS_TO_WORDS (num_n_bits curve);
          public = uECC_vli_bytesToNative public_key nb @ uECC_vli_bytesToNative (drop nb public_key) nb;
          r = uECC_vli_bytesToNative signature nb;
          s = uECC_vli_bytesToNative (drop nb signature) nb
      in if uECC_vli_isZero r n \<or> uECC_vli_isZero s n then Some False
         else if uECC_vli_cmp_unsafe (curve_n curve) r num_n_words \<noteq> 1 \<or> uECC_vli_cmp_unsafe (curve_n curve) s num_n_words \<noteq> 1
         then Some False
         else do {
           z \<leftarrow> uECC_vli_modInv s (curve_n curve) num_n_words;
           let u1 = uECC_vli_modMult (bits2int message_hash hash_size curve) z (curve_n curve) num_n_words;
           let u2 = uECC_vli_modMult r z (curve_n curve) num_n_words;
           sum \<leftarrow> verify_sum public curve;
           rx \<leftarrow> verify_mult u1 u2 [None, Some (curve_G curve), Some public, Some sum] curve;
           let rx = (if uECC_vli_cmp_unsafe (curve_n curve) rx num_n_words \<noteq> 1
             then fst (uECC_vli_sub rx (curve_n curve) num_n_words) else rx);
           Some (uECC_vli_equal rx r n) })"

subsection \<open>Random numbers and keys\<close>

text \<open>The generator fills a number of bytes or fails. The words it fills are in the processor's order, little-endian.\<close>

type_synonym 'g rng = "('g \<Rightarrow> nat \<Rightarrow> u8 list option \<times> 'g) option"

fun native_words :: "u8 list \<Rightarrow> vli" where
  "native_words (a # b # c # d # bs) =
     (ucast a OR push_bit 8 (ucast b) OR push_bit 16 (ucast c) OR push_bit 24 (ucast d)) # native_words bs"
| "native_words _ = []"

definition uECC_RNG_MAX_TRIES :: nat where
  "uECC_RNG_MAX_TRIES = 64"

primrec random_int_tries :: "nat \<Rightarrow> ('g \<Rightarrow> nat \<Rightarrow> u8 list option \<times> 'g) \<Rightarrow> vli \<Rightarrow> nat \<Rightarrow> 'g \<Rightarrow> vli option \<times> 'g" where
  "random_int_tries 0 f upper n g = (None, g)"
| "random_int_tries (Suc tries) f upper n g =
     (case f g (n * 4) of
        (None, g) \<Rightarrow> (None, g)
      | (Some bytes, g) \<Rightarrow>
          let random = native_words bytes;
              random = random[n - 1 := random ! (n - 1) AND drop_bit (n * 32 - uECC_vli_numBits upper n) (- 1)]
          in if \<not> uECC_vli_isZero random n \<and> uECC_vli_cmp upper random n = 1 then (Some random, g)
             else random_int_tries tries f upper n g)"

definition uECC_generate_random_int :: "'g rng \<Rightarrow> vli \<Rightarrow> nat \<Rightarrow> 'g \<Rightarrow> vli option \<times> 'g" where
  "uECC_generate_random_int rng upper n g =
     (case rng of None \<Rightarrow> (None, g) | Some f \<Rightarrow> random_int_tries uECC_RNG_MAX_TRIES f upper n g)"

text \<open>\<open>uECC_make_key\<close>: the public and the private key.\<close>

primrec make_key_tries :: "nat \<Rightarrow> 'g rng \<Rightarrow> uECC_Curve \<Rightarrow> 'g \<Rightarrow> ((u8 list \<times> u8 list) option \<times> 'g) option" where
  "make_key_tries 0 rng curve g = Some (None, g)"
| "make_key_tries (Suc tries) rng curve g =
     (case uECC_generate_random_int rng (curve_n curve) (BITS_TO_WORDS (num_n_bits curve)) g of
        (None, g) \<Rightarrow> Some (None, g)
      | (Some private, g) \<Rightarrow> do {
          (public, ok) \<leftarrow> EccPoint_compute_public_key private curve;
          if ok then Some (Some (uECC_vli_nativeToBytes (num_bytes curve) public @
              uECC_vli_nativeToBytes (num_bytes curve) (drop (num_words curve) public),
            uECC_vli_nativeToBytes (BITS_TO_BYTES (num_n_bits curve)) private), g)
          else make_key_tries tries rng curve g })"

definition uECC_make_key :: "'g rng \<Rightarrow> uECC_Curve \<Rightarrow> 'g \<Rightarrow> ((u8 list \<times> u8 list) option \<times> 'g) option" where
  "uECC_make_key = make_key_tries uECC_RNG_MAX_TRIES"

definition uECC_shared_secret :: "'g rng \<Rightarrow> u8 list \<Rightarrow> u8 list \<Rightarrow> uECC_Curve \<Rightarrow> 'g \<Rightarrow> ((u8 list \<times> bool) option \<times> 'g) option" where
  "uECC_shared_secret rng public_key private_key curve g =
     (let n = num_words curve; nb = num_bytes curve;
          private = uECC_vli_bytesToNative private_key (BITS_TO_BYTES (num_n_bits curve));
          public = uECC_vli_bytesToNative public_key nb @ uECC_vli_bytesToNative (drop nb public_key) nb;
          (k0, k1, carry) = regularize_k private curve;
          scalar = (if carry then k0 else k1);
          (initial_Z, failed, g) = (case rng of
             None \<Rightarrow> (None, False, g)
           | Some _ \<Rightarrow> (case uECC_generate_random_int rng (curve_p curve) n g of
               (None, g) \<Rightarrow> (None, True, g) | (Some z, g) \<Rightarrow> (Some z, False, g)))
      in if failed then Some (None, g)
         else do {
           public \<leftarrow> EccPoint_mult public scalar initial_Z (num_n_bits curve + 1) curve;
           Some (Some (uECC_vli_nativeToBytes nb public, \<not> EccPoint_isZero public curve), g) })"

subsection \<open>Signing\<close>

text \<open>The blinding factor of the nonce: 1 without a generator.\<close>

definition sign_blinding :: "'g rng \<Rightarrow> uECC_Curve \<Rightarrow> 'g \<Rightarrow> vli option \<times> 'g" where
  "sign_blinding rng curve g =
     (let num_n_words = BITS_TO_WORDS (num_n_bits curve)
      in case rng of None \<Rightarrow> (Some ((uECC_vli_clear num_n_words)[0 := 1]), g)
         | Some _ \<Rightarrow> uECC_generate_random_int rng (curve_n curve) num_n_words g)"

definition uECC_sign_with_k ::
  "'g rng \<Rightarrow> u8 list \<Rightarrow> u8 list \<Rightarrow> nat \<Rightarrow> vli \<Rightarrow> uECC_Curve \<Rightarrow> 'g \<Rightarrow> (u8 list option \<times> 'g) option" where
  "uECC_sign_with_k rng private_key message_hash hash_size k curve g =
     (let n = num_words curve; nb = num_bytes curve; num_n_words = BITS_TO_WORDS (num_n_bits curve); md = curve_n curve
      in if uECC_vli_isZero k n \<or> uECC_vli_cmp md k num_n_words \<noteq> 1 then Some (None, g)
         else do {
           let (k0, k1, carry) = regularize_k k curve;
           p \<leftarrow> EccPoint_mult (curve_G curve) (if carry then k0 else k1) None (num_n_bits curve + 1) curve;
           if uECC_vli_isZero p n then Some (None, g)
           else case sign_blinding rng curve g of
             (None, g) \<Rightarrow> Some (None, g)
           | (Some tmp, g) \<Rightarrow> do {
               let k = uECC_vli_modMult k tmp md num_n_words;
               k \<leftarrow> uECC_vli_modInv k md num_n_words;
               let k = uECC_vli_modMult k tmp md num_n_words;
               let d = uECC_vli_bytesToNative private_key (BITS_TO_BYTES (num_n_bits curve));
               let s = uECC_vli_modMult d (uECC_vli_set p n) md num_n_words;
               let e = bits2int message_hash hash_size curve;
               let s = uECC_vli_modAdd e s md num_n_words;
               let s = uECC_vli_modMult s k md num_n_words;
               if nb * 8 < uECC_vli_numBits s num_n_words then Some (None, g)
               else Some (Some (uECC_vli_nativeToBytes nb p @ uECC_vli_nativeToBytes nb s), g) } })"

primrec sign_tries :: "nat \<Rightarrow> 'g rng \<Rightarrow> u8 list \<Rightarrow> u8 list \<Rightarrow> nat \<Rightarrow> uECC_Curve \<Rightarrow> 'g \<Rightarrow> (u8 list option \<times> 'g) option" where
  "sign_tries 0 rng private_key message_hash hash_size curve g = Some (None, g)"
| "sign_tries (Suc tries) rng private_key message_hash hash_size curve g =
     (case uECC_generate_random_int rng (curve_n curve) (BITS_TO_WORDS (num_n_bits curve)) g of
        (None, g) \<Rightarrow> Some (None, g)
      | (Some k, g) \<Rightarrow> do {
          (sg, g) \<leftarrow> uECC_sign_with_k rng private_key message_hash hash_size k curve g;
          if sg \<noteq> None then Some (sg, g)
          else sign_tries tries rng private_key message_hash hash_size curve g })"

definition uECC_sign :: "'g rng \<Rightarrow> u8 list \<Rightarrow> u8 list \<Rightarrow> nat \<Rightarrow> uECC_Curve \<Rightarrow> 'g \<Rightarrow> (u8 list option \<times> 'g) option" where
  "uECC_sign = sign_tries uECC_RNG_MAX_TRIES"


subsection \<open>Lengths\<close>

lemmas len8 = modMult_fast_coord [THEN coord_length] modSquare_fast_coord [THEN coord_length] modSub_length modAdd_length

lemma XYcZ_add_length:
  assumes "length X1 = 8" and "length Y1 = 8" and "length X2 = 8" and "length Y2 = 8"
    and "XYcZ_add X1 Y1 X2 Y2 curve_secp256k1 = ((A, B), (C, D))"
  shows "length A = 8 \<and> length B = 8 \<and> length C = 8 \<and> length D = 8"
  using assms by (auto simp: XYcZ_add_def Let_def len8)

lemma half_mod_p_length: "length a = 8 \<Longrightarrow> length (half_mod_p a curve_secp256k1) = 8"
  by (cases "uECC_vli_add a (curve_p curve_secp256k1) 8")
    (auto simp: half_mod_p_def Let_def rshift1_val(1) dest: add_val(1))

lemma double_jacobian_length:
  assumes "length X1 = 8" and "length Y1 = 8" and "length Z1 = 8"
    and "double_jacobian_secp256k1 X1 Y1 Z1 curve_secp256k1 = (X, Y, Z)"
  shows "length X = 8 \<and> length Y = 8 \<and> length Z = 8"
  using assms by (auto simp: double_jacobian_secp256k1_def Let_def len8 half_mod_p_length split: if_splits)

lemma bits2int_val:
  assumes "min 32 k \<le> length bits"
  shows "length (bits2int bits k curve_secp256k1) = 8"
    and "vli_val (bits2int bits k curve_secp256k1) = be_val (take (min 32 k) bits)"
proof -
  define m where "m = min 32 k"
  have b: "bits2int bits k curve_secp256k1 = list_splice 0 (uECC_vli_bytesToNative bits m) (uECC_vli_clear 8)"
    by (simp add: bits2int_def Let_def m_def min_def)
  note v = bytesToNative_val [OF assms [folded m_def]]
  have m: "(m + 3) div 4 \<le> 8" by (simp add: m_def)
  then have "length (uECC_vli_bytesToNative bits m) \<le> 8" using v(1) by simp
  then show "length (bits2int bits k curve_secp256k1) = 8"
    and "vli_val (bits2int bits k curve_secp256k1) = be_val (take (min 32 k) bits)"
    unfolding b by (simp_all add: list_splice_def uECC_vli_clear_def vli_val_append v(2) flip: m_def)
qed

subsection \<open>The verification returns\<close>

text \<open>The highest bit of a number is set.\<close>

lemma top_bit_set:
  assumes "length u = 8" and "uECC_vli_numBits u 8 \<noteq> 0"
  shows "uECC_vli_testBit u (uECC_vli_numBits u 8 - 1) \<noteq> 0"
proof -
  let ?b = "uECC_vli_numBits u 8 - 1"
  note nb = numBits_bounds [OF assms(1)]
  have v: "2 ^ ?b \<le> vli_val u" "vli_val u < 2 ^ ?b * 2"
    using nb assms(2) by (simp_all flip: power_Suc2)
  have "(2::nat) ^ ?b < 2 ^ 256" using v(1) vli_val_less' [OF assms(1)] by simp
  then have "?b < 256" by (rule power_less_imp_less_exp [rotated]) simp
  moreover have "vli_val u div 2 ^ ?b = 1"
    using v by (metis div_nat_eqI mult_1 mult_1_right mult.commute one_add_one add.commute Suc_eq_plus1 numeral_2_eq_2)
  ultimately show ?thesis using testBit_iff [of ?b u] assms(1) by simp
qed

lemma verify_index_top:
  assumes "length u1 = 8" and "length u2 = 8" and "smax (uECC_vli_numBits u1 8) (uECC_vli_numBits u2 8) \<noteq> 0"
  shows "verify_index u1 u2 (smax (uECC_vli_numBits u1 8) (uECC_vli_numBits u2 8) - 1) \<in> {1, 2, 3}"
  using top_bit_set [OF assms(1)] top_bit_set [OF assms(2)] assms(3)
  by (auto simp: verify_index_def smax_def split: if_splits)

lemma verify_index_range: "verify_index u1 u2 i < 4"
  by (simp add: verify_index_def)

definition points_ok :: "vli option list \<Rightarrow> bool" where
  "points_ok points \<longleftrightarrow> length points = 4 \<and> points ! 0 = None \<and> (\<forall>k\<in>{1, 2, 3}. \<exists>p. points ! k = Some p \<and> length p = 16)"

lemma verify_step_length:
  assumes "points_ok points" and "k < 4" and "length rx = 8" and "length ry = 8" and "length z = 8"
    and "verify_step points k curve_secp256k1 (rx, ry, z) = (rx', ry', z')"
  shows "length rx' = 8 \<and> length ry' = 8 \<and> length z' = 8"
proof -
  obtain X Y Z where d: "double_jacobian_secp256k1 rx ry z curve_secp256k1 = (X, Y, Z)"
    by (cases "double_jacobian_secp256k1 rx ry z curve_secp256k1")
  have l: "length X = 8" "length Y = 8" "length Z = 8" using double_jacobian_length [OF assms(3-5) d] by simp_all
  show ?thesis
  proof (cases "points ! k")
    case None
    then show ?thesis using assms(6) d l by (simp add: verify_step_def)
  next
    case (Some p)
    have p: "length p = 16"
    proof -
      have "k \<in> {1, 2, 3}" using assms(1,2) Some by (cases "k = 0") (auto simp: points_ok_def)
      then show ?thesis using assms(1) Some unfolding points_ok_def by fastforce
    qed
    obtain tx ty where a: "apply_z (take 8 p) (drop 8 p) Z curve_secp256k1 = (tx, ty)"
      by (cases "apply_z (take 8 p) (drop 8 p) Z curve_secp256k1")
    have t: "length tx = 8" "length ty = 8" using apply_z_coord [OF _ _ l(3) a] p by simp_all
    obtain A B C D where x: "XYcZ_add tx ty X Y curve_secp256k1 = ((A, B), (C, D))"
      by (metis prod.collapse)
    note xl = XYcZ_add_length [OF t l(1,2) x]
    have "rx' = C" "ry' = D" "z' = uECC_vli_modMult_fast Z (uECC_vli_modSub X tx (curve_p curve_secp256k1) 8) curve_secp256k1"
      using assms(6) d Some a x p by (simp_all add: verify_step_def uECC_vli_set_def)
    then show ?thesis using xl l t by (simp add: len8)
  qed
qed

lemma verify_loop_length:
  assumes "points_ok points"
  shows "length rx = 8 \<Longrightarrow> length ry = 8 \<Longrightarrow> length z = 8 \<Longrightarrow>
    verify_loop u1 u2 points curve_secp256k1 i (rx, ry, z) = (rx', ry', z') \<Longrightarrow> length rx' = 8 \<and> length ry' = 8 \<and> length z' = 8"
proof (induction i arbitrary: rx ry z)
  case (Suc i)
  obtain X Y Z where st: "verify_step points (verify_index u1 u2 i) curve_secp256k1 (rx, ry, z) = (X, Y, Z)"
    by (cases "verify_step points (verify_index u1 u2 i) curve_secp256k1 (rx, ry, z)")
  have "length X = 8 \<and> length Y = 8 \<and> length Z = 8"
    using verify_step_length [OF assms verify_index_range Suc.prems(1-3) st] .
  then show ?case using Suc.IH [of X Y Z] Suc.prems(4) st by simp
qed auto

lemma clear_one: "length ((uECC_vli_clear 8)[0 := 1]) = 8" "vli_val ((uECC_vli_clear 8)[0 := 1]) = 1"
proof -
  have "replicate 8 (0 :: u32) = 0 # replicate 7 0" using replicate_Suc [of 7 "0 :: u32"] by simp
  then show "length ((uECC_vli_clear 8)[0 := 1]) = 8" "vli_val ((uECC_vli_clear 8)[0 := 1]) = 1"
    by (simp_all add: uECC_vli_clear_def)
qed

lemma verify_sum_returns:
  assumes "length public = 16"
  shows "\<exists>sum. verify_sum public curve_secp256k1 = Some sum \<and> length sum = 16"
proof -
  let ?c = curve_secp256k1
  let ?z = "uECC_vli_modSub (take 8 public) (take 8 (curve_G ?c)) (curve_p ?c) 8"
  obtain A B C D where x: "XYcZ_add (take 8 (curve_G ?c)) (drop 8 (curve_G ?c)) (take 8 public) (drop 8 public) ?c = ((A, B), (C, D))"
    by (metis prod.collapse)
  have l: "length C = 8" "length D = 8" using XYcZ_add_length [OF _ _ _ _ x] assms by simp_all
  have "length ?z = 8" using assms by (simp add: len8)
  from modInv_fe [OF this] obtain w where w: "uECC_vli_modInv ?z (curve_p ?c) 8 = Some w" "coord w" by blast
  obtain sx sy where a: "apply_z C D w ?c = (sx, sy)" by (cases "apply_z C D w ?c")
  have "coord sx \<and> coord sy" using apply_z_coord [OF l _ a] w(2) by simp
  then show ?thesis using x w(1) a assms by (simp add: verify_sum_def uECC_vli_set_def)
qed

lemma verify_mult_returns:
  assumes "points_ok points" and "length u1 = 8" and "length u2 = 8" and "vli_val u1 \<noteq> 0 \<or> vli_val u2 \<noteq> 0"
  shows "\<exists>rx. verify_mult u1 u2 points curve_secp256k1 = Some rx \<and> coord rx"
proof -
  let ?c = curve_secp256k1
  let ?bits = "smax (uECC_vli_numBits u1 8) (uECC_vli_numBits u2 8)"
  have b: "?bits \<noteq> 0" using numBits_bounds(3) [OF assms(2)] numBits_bounds(3) [OF assms(3)] assms(4) by (auto simp: smax_def)
  obtain p where p: "points ! verify_index u1 u2 (?bits - 1) = Some p" "length p = 16"
    using verify_index_top [OF assms(2,3) b] assms(1) by (auto simp: points_ok_def)
  obtain rx ry z where v: "verify_loop u1 u2 points ?c (?bits - 1) (take 8 p, drop 8 p, (uECC_vli_clear 8)[0 := 1]) = (rx, ry, z)"
    by (cases "verify_loop u1 u2 points ?c (?bits - 1) (take 8 p, drop 8 p, (uECC_vli_clear 8)[0 := 1])")
  have l: "length rx = 8" "length ry = 8" "length z = 8"
    using verify_loop_length [OF assms(1) _ _ _ v] p(2) clear_one(1) by simp_all
  obtain w where w: "uECC_vli_modInv z (curve_p ?c) 8 = Some w" "coord w" using modInv_fe [OF l(3)] by blast
  obtain x y where a: "apply_z rx ry w ?c = (x, y)" by (cases "apply_z rx ry w ?c")
  have "coord x" using apply_z_coord [OF l(1,2) _ a] w(2) by simp
  then show ?thesis using b p v w(1) a by (simp add: verify_mult_def uECC_vli_set_def)
qed


text \<open>The signature's two numbers and the digest's.\<close>

definition sig_r :: "u8 list \<Rightarrow> nat" where
  "sig_r sg = be_val (take 32 sg)"

definition sig_s :: "u8 list \<Rightarrow> nat" where
  "sig_s sg = be_val (take 32 (drop 32 sg))"

definition digest :: "u8 list \<Rightarrow> nat \<Rightarrow> nat" where
  "digest hash k = be_val (take (min 32 k) hash)"

definition key_words :: "u8 list \<Rightarrow> vli" where
  "key_words key = uECC_vli_bytesToNative key 32 @ uECC_vli_bytesToNative (drop 32 key) 32"

lemma key_words_length: "length key = 64 \<Longrightarrow> length (key_words key) = 16"
  by (simp add: key_words_def bytesToNative_val)

text \<open>A signature out of range is refused, whatever the key.\<close>

lemma verify_out_of_range:
  assumes "length sg = 64" and "sig_r sg = 0 \<or> N_VAL \<le> sig_r sg \<or> sig_s sg = 0 \<or> N_VAL \<le> sig_s sg"
  shows "uECC_verify key hash k sg curve_secp256k1 = Some False"
proof -
  let ?r = "uECC_vli_bytesToNative sg 32" let ?s = "uECC_vli_bytesToNative (drop 32 sg) 32"
  have l: "length ?r = 8" "vli_val ?r = sig_r sg" "length ?s = 8" "vli_val ?s = sig_s sg"
    using assms(1) by (simp_all add: bytesToNative_val sig_r_def sig_s_def)
  show ?thesis using assms(2)
    by (simp add: uECC_verify_def Let_def isZero_iff [OF l(1)] isZero_iff [OF l(3)] l
      cmp_unsafe_iff(1) [OF curve_fields(5) l(1)] cmp_unsafe_iff(1) [OF curve_fields(5) l(3)]) auto
qed

text \<open>What the verification comes down to for a signature in range.\<close>

lemma verify_in_range:
  assumes "length key = 64" and "length sg = 64" and "min 32 k \<le> length hash"
    and "0 < sig_r sg" and "sig_r sg < N_VAL" and "0 < sig_s sg" and "sig_s sg < N_VAL"
  shows "\<exists>u1 u2 sum. length u1 = 8 \<and> length u2 = 8 \<and> vli_val u1 < N_VAL \<and> vli_val u2 < N_VAL \<and>
    (coprime (sig_s sg) N_VAL \<longrightarrow> vli_val u1 * sig_s sg mod N_VAL = digest hash k mod N_VAL \<and>
      vli_val u2 * sig_s sg mod N_VAL = sig_r sg) \<and>
    verify_sum (key_words key) curve_secp256k1 = Some sum \<and> length sum = 16 \<and>
    uECC_verify key hash k sg curve_secp256k1 = do {
      rx \<leftarrow> verify_mult u1 u2 [None, Some (curve_G curve_secp256k1), Some (key_words key), Some sum] curve_secp256k1;
      Some ((if vli_val rx < N_VAL then vli_val rx else vli_val rx - N_VAL) = sig_r sg) }"
proof -
  let ?c = curve_secp256k1 let ?n = "curve_n curve_secp256k1"
  let ?r = "uECC_vli_bytesToNative sg 32" let ?s = "uECC_vli_bytesToNative (drop 32 sg) 32"
  let ?e = "bits2int hash k ?c"
  have l: "length ?r = 8" "vli_val ?r = sig_r sg" "length ?s = 8" "vli_val ?s = sig_s sg"
    using assms(2) by (simp_all add: bytesToNative_val sig_r_def sig_s_def)
  note e = bits2int_val [OF assms(3), folded digest_def]
  obtain z where z: "uECC_vli_modInv ?s ?n 8 = Some z" "length z = 8"
    "vli_val z * sig_s sg mod N_VAL = gcd (sig_s sg) N_VAL mod N_VAL"
    using modInv_total [OF l(3) curve_fields(5)] odd_moduli(2,4) by (auto simp: l(4))
  define u1 where "u1 = uECC_vli_modMult ?e z ?n 8"
  define u2 where "u2 = uECC_vli_modMult ?r z ?n 8"
  have u1: "length u1 = 8" "vli_val u1 = digest hash k * vli_val z mod N_VAL"
    and u2: "length u2 = 8" "vli_val u2 = sig_r sg * vli_val z mod N_VAL"
    using modMult_val [OF full_size_n e(1) z(2)] modMult_val [OF full_size_n l(1) z(2)]
    by (simp_all add: u1_def u2_def e(2) l(2))
  have inv: "(a * vli_val z mod N_VAL) * sig_s sg mod N_VAL = a mod N_VAL" if "coprime (sig_s sg) N_VAL" for a
  proof -
    have "(a * vli_val z mod N_VAL) * sig_s sg mod N_VAL = a * (vli_val z * sig_s sg mod N_VAL) mod N_VAL"
      by (simp only: mod_mult_left_eq mod_mult_right_eq mult.assoc)
    also have "\<dots> = a mod N_VAL" using that odd_moduli(4) by (simp add: z(3))
    finally show ?thesis .
  qed
  have lt: "vli_val u1 < N_VAL" "vli_val u2 < N_VAL" unfolding u1(2) u2(2) using odd_moduli(4) by simp_all
  obtain sum where sum: "verify_sum (key_words key) ?c = Some sum" "length sum = 16"
    using verify_sum_returns key_words_length [OF assms(1)] by blast
  let ?pts = "[None, Some (curve_G ?c), Some (key_words key), Some sum]"
  have pts: "points_ok ?pts"
    using sum(2) key_words_length [OF assms(1)] by (auto simp: points_ok_def)
  have ver: "uECC_verify key hash k sg ?c = do {
      rx \<leftarrow> verify_mult u1 u2 ?pts ?c;
      Some (uECC_vli_equal (if uECC_vli_cmp_unsafe ?n rx 8 \<noteq> 1 then fst (uECC_vli_sub rx ?n 8) else rx) ?r 8) }"
    using assms(4-7) sum(1) z(1)
    by (simp add: uECC_verify_def Let_def isZero_iff [OF l(1)] isZero_iff [OF l(3)] l
      cmp_unsafe_iff(1) [OF curve_fields(5) l(1)] cmp_unsafe_iff(1) [OF curve_fields(5) l(3)]
      key_words_def [symmetric] u1_def [symmetric] u2_def [symmetric])
  have eq: "uECC_vli_equal (if uECC_vli_cmp_unsafe ?n rx 8 \<noteq> 1 then fst (uECC_vli_sub rx ?n 8) else rx) ?r 8 \<longleftrightarrow>
      (if vli_val rx < N_VAL then vli_val rx else vli_val rx - N_VAL) = sig_r sg" if rx: "length rx = 8" for rx
  proof -
    obtain d b where d: "uECC_vli_sub rx ?n 8 = (d, b)" by (cases "uECC_vli_sub rx ?n 8")
    have dl: "length d = 8" using sub_val(1) [OF d rx] by simp
    have "uECC_vli_equal d ?r 8 \<longleftrightarrow> vli_val d = sig_r sg" "uECC_vli_equal rx ?r 8 \<longleftrightarrow> vli_val rx = sig_r sg"
      using equal_iff [OF dl l(1)] equal_iff [OF rx l(1)] vli_val_eq_iff [of d ?r] vli_val_eq_iff [of rx ?r] dl rx l(1,2) by auto
    then show ?thesis
      using cmp_unsafe_iff(1) [OF curve_fields(5) rx] sub_borrow(2) [OF d rx curve_fields(5)] d by auto
  qed
  have "uECC_verify key hash k sg ?c = do {
      rx \<leftarrow> verify_mult u1 u2 ?pts ?c;
      Some ((if vli_val rx < N_VAL then vli_val rx else vli_val rx - N_VAL) = sig_r sg) }"
  proof (cases "verify_mult u1 u2 ?pts ?c")
    case None
    then show ?thesis by (simp add: ver)
  next
    case (Some rx)
    then have "vli_val u1 \<noteq> 0 \<or> vli_val u2 \<noteq> 0"
      using numBits_bounds(3) [OF u1(1)] numBits_bounds(3) [OF u2(1)] by (auto simp: verify_mult_def smax_def)
    then have "length rx = 8" using verify_mult_returns [OF pts u1(1) u2(1)] Some by auto
    then show ?thesis using eq Some by (simp add: ver)
  qed
  moreover have "coprime (sig_s sg) N_VAL \<longrightarrow> vli_val u1 * sig_s sg mod N_VAL = digest hash k mod N_VAL \<and>
      vli_val u2 * sig_s sg mod N_VAL = sig_r sg"
    unfolding u1(2) u2(2) using inv assms(5) by simp
  ultimately show ?thesis using u1(1) u2(1) lt sum by blast
qed

text \<open>The verification always ends with an answer, for a signature number that has an inverse.\<close>

lemma verify_returns:
  assumes "length key = 64" and "length sg = 64" and "min 32 k \<le> length hash" and "coprime (sig_s sg) N_VAL"
  shows "\<exists>b. uECC_verify key hash k sg curve_secp256k1 = Some b"
proof (cases "sig_r sg = 0 \<or> N_VAL \<le> sig_r sg \<or> sig_s sg = 0 \<or> N_VAL \<le> sig_s sg")
  case True
  then show ?thesis using verify_out_of_range [OF assms(2)] by blast
next
  case False
  then have rng: "0 < sig_r sg" "sig_r sg < N_VAL" "0 < sig_s sg" "sig_s sg < N_VAL" by auto
  obtain u1 u2 sum where u: "length u1 = 8" "length u2 = 8"
    "vli_val u2 * sig_s sg mod N_VAL = sig_r sg" "length sum = 16"
    "uECC_verify key hash k sg curve_secp256k1 = do {
      rx \<leftarrow> verify_mult u1 u2 [None, Some (curve_G curve_secp256k1), Some (key_words key), Some sum] curve_secp256k1;
      Some ((if vli_val rx < N_VAL then vli_val rx else vli_val rx - N_VAL) = sig_r sg) }"
    using verify_in_range [OF assms(1-3) rng] assms(4) by blast
  have "vli_val u2 \<noteq> 0" using u(3) False by (metis mult_0 mod_0)
  moreover have "points_ok [None, Some (curve_G curve_secp256k1), Some (key_words key), Some sum]"
    using u(4) key_words_length [OF assms(1)] by (auto simp: points_ok_def)
  ultimately obtain rx where
    "verify_mult u1 u2 [None, Some (curve_G curve_secp256k1), Some (key_words key), Some sum] curve_secp256k1 = Some rx"
    using verify_mult_returns u(1,2) by blast
  then show ?thesis using u(5) by simp
qed


end
