(* ===== verification/Security.thy ===== *)
theory Security
  imports PufFlash Sha256 Ecdsa
begin

text \<open>
  The verification of the virtual machines' images, \<^verbatim>\<open>cryptography/security.c\<close>, and the two drivers that
  repeat it on request of a guest, \<^verbatim>\<open>drivers/pic32mz-vm-update.c\<close> and
  \<^verbatim>\<open>drivers/pic32mz-remote-connection.c\<close>. An image in flash is code, then a 64-byte public key, then a
  64-byte signature of the SHA-256 digest of the code. Key and signature are checked by the functions of
  \<open>EccPoint\<close> and \<open>Ecdsa\<close>; the digest is \<open>Sha256\<close>.
\<close>

subsection \<open>An image in flash\<close>

definition image_key :: "kst \<Rightarrow> vmconf_t \<Rightarrow> u8 list option" where
  "image_key s c = read_bytes (mach s) (flash_base_add c + (flash_size c - 128)) 64"

definition image_sig :: "kst \<Rightarrow> vmconf_t \<Rightarrow> u8 list option" where
  "image_sig s c = read_bytes (mach s) (flash_base_add c + (flash_size c - 64)) 64"

text \<open>A local \<open>SHA256_CTX\<close>; its bytes before \<open>sha256_init\<close> are of no consequence (\<open>sha256_correct\<close>).\<close>

definition local_ctx :: SHA256_CTX where
  "local_ctx = \<lparr>ctx_data = replicate 64 0, datalen = 0, bitlen = 0, ctx_state = []\<rparr>"

definition image_hash :: "kst \<Rightarrow> vmconf_t \<Rightarrow> u8 list option" where
  "image_hash s c = do {
     code \<leftarrow> read_bytes (mach s) (flash_base_add c) (unat (flash_size c - 128));
     Some (snd (sha256_final (sha256_update (sha256_init local_ctx) code))) }"

definition tick_count_reads :: "nat \<Rightarrow> kst \<Rightarrow> kst" where
  "tick_count_reads n = upd_mach ((\<lambda>h. snd (getCounter h)) ^^ n)"

text \<open>\<open>isVmTrust\<close>, from machine \<open>countNumMachines\<close> on; the calls of \<open>getCounter\<close> only measure time.\<close>

primrec isVmTrust_loop :: "vmconf_t list \<Rightarrow> kst \<Rightarrow> (u32 \<times> kst) option" where
  "isVmTrust_loop [] s = Some (1, s)"
| "isVmTrust_loop (c # cs) s = do {
     let s = tick_count_reads 1 s;
     public \<leftarrow> image_key s c;
     let s = tick_count_reads 1 s;
     if \<not> uECC_valid_public_key public uECC_secp256k1 then Some (0, s)
     else do {
       let s = tick_count_reads 1 s;
       sigReceived \<leftarrow> image_sig s c;
       let s = tick_count_reads 1 s;
       buf \<leftarrow> image_hash s c;
       let s = tick_count_reads 2 s;
       verified \<leftarrow> uECC_verify public buf SHA256_BLOCK_SIZE sigReceived uECC_secp256k1;
       if \<not> verified then Some (0, s)
       else isVmTrust_loop cs (tick_count_reads 1 s) } }"

definition isVmTrust :: "kst \<Rightarrow> (u32 \<times> kst) option" where
  "isVmTrust s = isVmTrust_loop (VMCONF s) s"

subsection \<open>Updates\<close>

text \<open>\<open>update_chosen_vm\<close> reads its argument and does nothing.\<close>

definition update_chosen_vm :: "kst \<Rightarrow> kst option" where
  "update_chosen_vm s = Some s"

text \<open>The three variants of the key check in \<^verbatim>\<open>pic32mz-vm-update.c\<close>: \<open>verifyPublicKey\<close> trusts the given
  key, \<open>verifyPublicKey2\<close> compares it with the one in flash, \<open>verifyPublicKey3\<close> does both.\<close>

definition verify_with_key :: "kst \<Rightarrow> vmconf_t \<Rightarrow> u8 list \<Rightarrow> u32 option" where
  "verify_with_key s c key =
     (if \<not> uECC_valid_public_key key uECC_secp256k1 then Some 0
      else do {
        sigReceived \<leftarrow> image_sig s c;
        buf \<leftarrow> image_hash s c;
        verified \<leftarrow> uECC_verify key buf SHA256_BLOCK_SIZE sigReceived uECC_secp256k1;
        Some (of_cond verified) })"

definition verifyPublicKey :: "kst \<Rightarrow> vmconf_t \<Rightarrow> u8 list \<Rightarrow> u32 option" where
  "verifyPublicKey s c public = verify_with_key s c public"

definition verifyPublicKey2 :: "kst \<Rightarrow> vmconf_t \<Rightarrow> u8 list \<Rightarrow> u32 option" where
  "verifyPublicKey2 s c public = do {
     testkey \<leftarrow> image_key s c;
     Some (of_cond (public = testkey)) }"

definition verifyPublicKey3 :: "kst \<Rightarrow> vmconf_t \<Rightarrow> u8 list \<Rightarrow> u32 option" where
  "verifyPublicKey3 s c public = do {
     testkey \<leftarrow> image_key s c;
     if public \<noteq> testkey then Some 0 else verify_with_key s c testkey }"

text \<open>The loop over the list of virtual machines that counts the images with the key.\<close>

partial_function (option) count_vms_with_key :: "kst \<Rightarrow> (vmconf_t \<Rightarrow> u32 option) \<Rightarrow> ptr \<Rightarrow> u32 \<Rightarrow> u32 option" where
  "count_vms_with_key s verify aux ret =
     (if aux = NULL then Some ret
      else Option.bind (nodes s aux) (\<lambda>n.
           Option.bind (vms s (elem n)) (\<lambda>vm.
           Option.bind (verify (VMCONF s ! vmconf vm)) (\<lambda>valid.
           count_vms_with_key s verify (next_nd n) (ret + valid)))))"

text \<open>The guest's key: 64 bytes behind a temporary mapping, printed first, byte by byte.\<close>

definition guest_key :: "kst \<Rightarrow> (u8 list \<times> kst) option" where
  "guest_key s = do {
     m \<leftarrow> vm_executing s;
     vm \<leftarrow> vms s m;
     let (testkey, h) = tlbCreateEntry (guest_reg s REG_A0) (base_addr vm) 64 0xf CACHEABLE (mach s);
     key \<leftarrow> read_bytes h testkey 64;
     Some (key, s\<lparr>mach := h\<rparr>) }"

definition get_allowed_vm :: "kst \<Rightarrow> kst option" where
  "get_allowed_vm s = do {
     (key, s) \<leftarrow> guest_key s;
     ret \<leftarrow> count_vms_with_key s (\<lambda>c. verifyPublicKey3 s c key) (virtual_machines_list s) 0;
     Some (set_V0 ret s) }"

text \<open>\<^verbatim>\<open>pic32mz-remote-connection.c\<close> has a check of its own.\<close>

definition rc_verifyPublicKey :: "kst \<Rightarrow> vmconf_t \<Rightarrow> u8 list \<Rightarrow> u32 option" where
  "rc_verifyPublicKey s c public = do {
     testkey \<leftarrow> image_key s c;
     if public \<noteq> testkey then Some 0
     else if \<not> uECC_valid_public_key testkey uECC_secp256k1 then Some 0
     else do {
       sigReceived \<leftarrow> image_sig s c;
       buf \<leftarrow> image_hash s c;
       verified \<leftarrow> uECC_verify testkey buf SHA256_BLOCK_SIZE sigReceived uECC_secp256k1;
       Some (of_cond verified) } }"

definition get_owned_list :: "kst \<Rightarrow> kst option" where
  "get_owned_list s = do {
     (key, s) \<leftarrow> guest_key s;
     ret \<leftarrow> count_vms_with_key s (\<lambda>c. rc_verifyPublicKey s c key) (virtual_machines_list s) 0;
     Some (set_V0 ret s) }"

definition vm_update_init :: "kst \<Rightarrow> kst" where
  "vm_update_init s = snd (register_all [(H_update_chosen_vm, HCALL_UPDATE_VM_ID),
     (H_get_allowed_vm, HCALL_UPDATE_GET_ALLOWED)] s)"

definition remote_connection_init :: "kst \<Rightarrow> kst" where
  "remote_connection_init s = snd (register_all [(H_get_owned_list, HCALL_GET_OWNED_LIST)] s)"

subsection \<open>What a trusted boot means\<close>

text \<open>The image of a machine: its key is a point of the curve and its signature is one of the SHA-256
  digest of its code under that key.\<close>

definition image_authentic :: "kst \<Rightarrow> vmconf_t \<Rightarrow> bool" where
  "image_authentic s c \<longleftrightarrow> (\<exists>code key sg.
     read_bytes (mach s) (flash_base_add c) (unat (flash_size c - 128)) = Some code \<and>
     image_key s c = Some key \<and> image_sig s c = Some sg \<and>
     uECC_valid_public_key key uECC_secp256k1 \<and>
     uECC_verify key (sha256_spec code) SHA256_BLOCK_SIZE sg uECC_secp256k1 = Some True)"

lemma image_hash_spec:
  "image_hash s c = map_option sha256_spec (read_bytes (mach s) (flash_base_add c) (unat (flash_size c - 128)))"
  using sha256_correct [of local_ctx]
  by (cases "read_bytes (mach s) (flash_base_add c) (unat (flash_size c - 128))")
    (simp_all add: image_hash_def local_ctx_def)

lemma read_bytes_cong: "tlb h' = tlb h \<Longrightarrow> ram h' = ram h \<Longrightarrow> read_bytes h' va n = read_bytes h va n"
proof (induction n arbitrary: va)
  case (Suc n)
  have "read8 h' va = read8 h va"
    using Suc.prems by (simp add: read8_def translate_def tlb_lookup_def)
  with Suc show ?case by simp
qed simp

lemma tick_count_reads_mach:
  "\<exists>h. tick_count_reads n s = s\<lparr>mach := h\<rparr> \<and> tlb h = tlb (mach s) \<and> ram h = ram (mach s)"
proof -
  have "tlb (((\<lambda>h. snd (getCounter h)) ^^ n) h) = tlb h \<and> ram (((\<lambda>h. snd (getCounter h)) ^^ n) h) = ram h" for h
    by (induction n) (simp_all add: getCounter_def mfc0_count_def)
  then show ?thesis by (auto simp: tick_count_reads_def upd_mach_def)
qed

lemma image_mach_cong:
  assumes "tlb h = tlb (mach s)" "ram h = ram (mach s)"
  shows "image_key (s\<lparr>mach := h\<rparr>) c = image_key s c" "image_sig (s\<lparr>mach := h\<rparr>) c = image_sig s c"
    "image_hash (s\<lparr>mach := h\<rparr>) c = image_hash s c"
    "image_authentic (s\<lparr>mach := h\<rparr>) c = image_authentic s c"
proof -
  have rb: "read_bytes h va n = read_bytes (mach s) va n" for va n
    by (rule read_bytes_cong [OF assms])
  show k: "image_key (s\<lparr>mach := h\<rparr>) c = image_key s c"
    and g: "image_sig (s\<lparr>mach := h\<rparr>) c = image_sig s c"
    and "image_hash (s\<lparr>mach := h\<rparr>) c = image_hash s c"
    by (simp_all add: image_key_def image_sig_def image_hash_def rb)
  show "image_authentic (s\<lparr>mach := h\<rparr>) c = image_authentic s c"
    by (simp add: image_authentic_def k g rb)
qed

lemma tick_count_reads_image [simp]:
  "image_key (tick_count_reads n s) c = image_key s c" "image_sig (tick_count_reads n s) c = image_sig s c"
  "image_hash (tick_count_reads n s) c = image_hash s c"
  "image_authentic (tick_count_reads n s) c = image_authentic s c"
proof -
  obtain h where h: "tick_count_reads n s = s\<lparr>mach := h\<rparr>" "tlb h = tlb (mach s)" "ram h = ram (mach s)"
    using tick_count_reads_mach by blast
  show "image_key (tick_count_reads n s) c = image_key s c" "image_sig (tick_count_reads n s) c = image_sig s c"
    "image_hash (tick_count_reads n s) c = image_hash s c"
    "image_authentic (tick_count_reads n s) c = image_authentic s c"
    by (simp_all add: h(1) image_mach_cong [OF h(2,3)])
qed

lemma isVmTrust_loop_authentic:
  "isVmTrust_loop cs s = Some (r, s') \<Longrightarrow>
   (r = 1 \<longleftrightarrow> (\<forall>c\<in>set cs. image_authentic s c)) \<and> (r = 0 \<or> r = 1)"
proof (induction cs arbitrary: s)
  case (Cons c cs)
  from Cons.prems obtain key where k: "image_key s c = Some key" by (auto simp: Let_def)
  show ?case
  proof (cases "uECC_valid_public_key key uECC_secp256k1")
    case False
    then show ?thesis using Cons.prems k by (auto simp: image_authentic_def Let_def)
  next
    case valid: True
    obtain sg hash where sg: "image_sig s c = Some sg" "image_hash s c = Some hash"
      using Cons.prems k valid by (auto simp: Let_def)
    obtain code where code: "read_bytes (mach s) (flash_base_add c) (unat (flash_size c - 128)) = Some code"
      "hash = sha256_spec code" using sg(2) by (auto simp: image_hash_spec)
    obtain v where v: "uECC_verify key hash SHA256_BLOCK_SIZE sg uECC_secp256k1 = Some v"
      using Cons.prems k valid sg by (auto simp: Let_def)
    have au: "image_authentic s c \<longleftrightarrow> v"
      using k sg(1) valid code v by (auto simp: image_authentic_def)
    show ?thesis
    proof (cases v)
      case False
      then show ?thesis using Cons.prems k valid sg v au by (auto simp: Let_def)
    next
      case True
      then obtain s1 where "isVmTrust_loop cs s1 = Some (r, s')" "\<And>d. image_authentic s1 d = image_authentic s d"
        using Cons.prems k valid sg v True by (auto simp: Let_def)
      then show ?thesis using Cons.IH [of s1] au True by (cases "r = 1") simp_all
    qed
  qed
qed simp

end
