(* ===== verification/Board.thy ===== *)
theory Board
  imports Registry
begin

text \<open>
  The PIC32MZ starter kit: \<^verbatim>\<open>board/board.c\<close>, \<^verbatim>\<open>board/uart.c\<close> and \<^verbatim>\<open>board/reset.c\<close> of
  \<^verbatim>\<open>platform/pic32mz_starter_kit\<close>. Waiting for a bit of a device register is a loop; between two
  polls the world takes a step, the parameter \<open>world\<close>.
\<close>

abbreviation (input) "U2MODE \<equiv> SFR_BASE + 0x22200"
abbreviation (input) "U2STA \<equiv> SFR_BASE + 0x22210"
abbreviation (input) "U2TXREG \<equiv> SFR_BASE + 0x22220"
abbreviation (input) "U2RXREG \<equiv> SFR_BASE + 0x22230"
abbreviation (input) "U2BRG \<equiv> SFR_BASE + 0x22240"
abbreviation (input) "U6MODE \<equiv> SFR_BASE + 0x22A00"
abbreviation (input) "U6STA \<equiv> SFR_BASE + 0x22A10"
abbreviation (input) "U6BRG \<equiv> SFR_BASE + 0x22A40"
abbreviation (input) "PORTB \<equiv> SFR_BASE + 0x60120"
abbreviation (input) "RSWRST \<equiv> SFR_BASE + 0x1250"

text \<open>\<open>((int)(((sysclk/2) / (16*baudrate)) - 1)) + 1\<close>; the divisions are unsigned.\<close>

definition uart_brg :: "u32 \<Rightarrow> u32 \<Rightarrow> u32" where
  "uart_brg baudrate sysclk = ((sysclk div 2) div (16 * baudrate) - 1) + 1"

definition init_uart :: "u32 \<Rightarrow> u32 \<Rightarrow> u32 \<Rightarrow> hw \<Rightarrow> hw" where
  "init_uart baudrate_u2 baudrate_u6 sysclk h =
     (let h = sfr_write (SFR_BASE + 0x1470) 1 h;
          h = sfr_write (SFR_BASE + 0x1578) 2 h;
          h = sfr_write U2STA 0 h;
          h = sfr_write U2BRG (uart_brg baudrate_u2 sysclk) h;
          h = sfr_write U2MODE (0x0000 OR 0x8000) h;
          h = sfr_set U2STA (0x1000 OR 0x400) h;
          h = sfr_write (SFR_BASE + 0x1490) 3 h;
          h = sfr_write (SFR_BASE + 0x1648) 4 h;
          h = sfr_write U6STA 0 h;
          h = sfr_write U6BRG (uart_brg baudrate_u6 sysclk) h;
          h = sfr_write U6MODE (0x0000 OR 0x8000) h
      in sfr_set U6STA (0x1000 OR 0x400) h)"

partial_function (option) putchar :: "(hw \<Rightarrow> hw) \<Rightarrow> u8 \<Rightarrow> hw \<Rightarrow> hw option" where
  "putchar world c h =
     (if sfr h U2STA AND 0x200 \<noteq> 0 then putchar world c (world h)
      else Some (sfr_write U2TXREG (ucast c) h))"

partial_function (option) getchar :: "(hw \<Rightarrow> hw) \<Rightarrow> hw \<Rightarrow> u32 option" where
  "getchar world h =
     (if sfr h U2STA AND 1 = 0 then getchar world (world h) else Some (sfr h U2RXREG))"

definition early_platform_init :: "hw \<Rightarrow> hw" where
  "early_platform_init h =
     (let h = init_uart 115200 9600 CPU_FREQ h;
          h = sfr_write (SFR_BASE + 0x60104) 0x0008 h;
          h = sfr_write (SFR_BASE + 0x60114) 0x0008 h;
          h = sfr_write (SFR_BASE + 0x60314) 0x0002 h;
          h = sfr_write (SFR_BASE + 0x60514) 0x0020 h;
          h = sfr_write (SFR_BASE + 0x60518) 0x0010 h;
          h = sfr_write (SFR_BASE + 0x60538) 0x0010 h;
          h = sfr_write (SFR_BASE + 0x149C) 2 h;
          h = sfr_write (SFR_BASE + 0x1654) 5 h;
          h = sfr_write (SFR_BASE + 0x21030) 4 h
      in sfr_write (SFR_BASE + 0x21000) 0x8120 h)"

subsection \<open>Reset\<close>

text \<open>The machine when the reset is triggered; the code after it waits for the reset in an empty loop.\<close>

definition SoftReset :: "hw \<Rightarrow> hw option" where
  "SoftReset h = do {
     h \<leftarrow> udelay 1000000 h;
     let h = sfr_write NVMKEY 0 h;
     let h = sfr_write NVMKEY 0xAA996655 h;
     let h = sfr_write NVMKEY 0x556699AA h;
     Some (sfr_write RSWRST (sfr h RSWRST OR 1) h) }"

partial_function (option) wait_for_reset :: "(hw \<Rightarrow> hw) \<Rightarrow> hw \<Rightarrow> hw option" where
  "wait_for_reset world h =
     (if sfr h PORTB AND push_bit 12 1 = 0 then SoftReset h else wait_for_reset world (world h))"

definition sw1_button_handler :: "hw \<Rightarrow> hw option" where
  "sw1_button_handler h =
     (let h = sfr_clr (IFS 3) (push_bit 23 1) h;
          h = sfr_clr (IEC 3) (push_bit 23 1) h
      in SoftReset h)"

definition sw1_button_interrupt_init :: "kst \<Rightarrow> kst" where
  "sw1_button_interrupt_init s =
     (let s = upd_mach (sfr_write (SFR_BASE + 0x60118) (push_bit 12 1)) s;
          s = upd_mach (sfr_write (SFR_BASE + 0x60158) (push_bit 12 1)) s;
          (offset, s) = register_interrupt I_sw1_button_handler s;
          s = upd_mach (sfr_write (OFF 119) offset) s;
          s = upd_mach (sfr_write (SFR_BASE + 0x60178) 0x8000) s;
          s = upd_mach (sfr_write (SFR_BASE + 0x60188) (push_bit 12 1)) s;
          s = upd_mach (sfr_write (IPC 29) (push_bit 24 0x1f)) s;
          s = upd_mach (sfr_clr (IFS 3) (push_bit 23 1)) s
      in upd_mach (sfr_set (IEC 3) (push_bit 23 1)) s)"

end
