(* ===== verification/Timer.thy ===== *)
theory Timer
  imports Board
begin

text \<open>
  \<^verbatim>\<open>arch/mips/pic32mz/timer.c\<close>: the timer interrupt, which drives the scheduler and raises the virtual
  timer interrupt of the guest in execution, and the start of the timer. The function-static variable
  \<open>past\<close> is \<open>timer_past\<close>.
\<close>

definition MILISECOND :: u32 where "MILISECOND = (CPU_FREQ div 2) div 1000"
definition MICROSECOND :: u32 where "MICROSECOND = (CPU_FREQ div 2) div 1000000"
definition GUEST_QUANTUM_MS :: u32 where "GUEST_QUANTUM_MS = 1"
definition SYSTEM_TICK_INTERVAL :: u32 where "SYSTEM_TICK_INTERVAL = SYSTEM_TICK_US * MICROSECOND"
definition QUEST_TICK_INTERVAL :: u32 where "QUEST_TICK_INTERVAL = GUEST_QUANTUM_MS * MILISECOND"

definition calc_next_timer_interrupt :: "u32 \<Rightarrow> hw \<Rightarrow> hw" where
  "calc_next_timer_interrupt interval h =
     (let (count, h) = mfc0_count h;
          count = count + interval;
          h = mtc0 CP0_COMPARE 0 count h
      in sfr_clr (IFS 0) 1 h)"

text \<open>The ticks from \<open>past\<close> to \<open>now\<close>, one short when the counter has wrapped around.\<close>

definition tick_diff :: "u32 \<Rightarrow> u32 \<Rightarrow> u32" where
  "tick_diff now past = (if past \<le> now then now - past else 0xffffffff - (past - now))"

definition timer_interrupt_handler :: "kst \<Rightarrow> kst option" where
  "timer_interrupt_handler s = do {
     s \<leftarrow> run_scheduler s;
     let (now, h) = mfc0_count (mach s);
     let s = s\<lparr>mach := h\<rparr>;
     let s = (if QUEST_TICK_INTERVAL \<le> tick_diff now (timer_past s) then
          (let h = setGuestCTL2 (getGuestCTL2 (mach s) OR push_bit GUESTCLT2_GRIPL_SHIFT 1) (mach s);
               (past, h) = mfc0_count h
           in s\<lparr>mach := h, timer_past := past\<rparr>)
        else s);
     Some (upd_mach (calc_next_timer_interrupt SYSTEM_TICK_INTERVAL) s) }"

text \<open>The state in which the hypervisor waits, with interrupts enabled, for the first timer interrupt.\<close>

definition start_timer :: "kst \<Rightarrow> kst" where
  "start_timer s =
     (let (offset, s) = register_interrupt I_timer_interrupt_handler s;
          s = upd_mach (sfr_write (OFF 0) offset) s;
          s = upd_mach (sfr_write (IPC 0) 0x1f) s;
          s = upd_mach (sfr_clr (IFS 0) 1) s;
          s = upd_mach (sfr_set (IEC 0) 1) s;
          (temp_CP0, h) = mfc0_count (mach s);
          s = s\<lparr>mach := h\<rparr>;
          temp_CP0 = temp_CP0 + 10000;
          s = upd_mach (mtc0 CP0_COMPARE 0 temp_CP0) s
      in upd_mach enableIE s)"

end
