(* ===== verification/Kernel.thy ===== *)
theory Kernel
  imports Security Timer
begin

text \<open>
  Where control enters the hypervisor: the general exception handler (\<^verbatim>\<open>sys/kernel/exception.c\<close>), the
  dispatch of hypercalls (\<open>hypercall_execution\<close> of \<^verbatim>\<open>sys/kernel/hypercall.c\<close>), the vectors that call the
  registered interrupt handlers (\<^verbatim>\<open>arch/mips/pic32mz/boot.S\<close>), the table of driver initialisers
  (\<^verbatim>\<open>sys/kernel/driver.c\<close>) and \<open>hyper_init\<close> of \<^verbatim>\<open>arch/mips/common/hal.c\<close>. \<open>CRITICAL\<close> prints and waits for a
  reset: it ends in the outcome \<open>Halted\<close>.
\<close>

datatype outcome = Running kst | Halted kst

subsection \<open>Hypercalls and exceptions\<close>

text \<open>The call through the table of function pointers.\<close>

fun run_hcall :: "hcall \<Rightarrow> kst \<Rightarrow> kst option" where
  "run_hcall H_get_vm_id s = get_vm_id s"
| "run_hcall H_intervm_send_msg s = intervm_send_msg s"
| "run_hcall H_intervm_recv_msg s = intervm_recv_msg s"
| "run_hcall H_guest_is_up s = guest_is_up s"
| "run_hcall H_write_address s = write_address s"
| "run_hcall H_read_address s = read_address s"
| "run_hcall H_reenable_interrupt s = reenable_interrupt s"
| "run_hcall H_flash_read s = flash_read s"
| "run_hcall H_flash_write s = flash_write s"
| "run_hcall H_update_chosen_vm s = update_chosen_vm s"
| "run_hcall H_get_allowed_vm s = get_allowed_vm s"
| "run_hcall H_get_owned_list s = get_owned_list s"

definition hypercall_execution :: "kst \<Rightarrow> kst option" where
  "hypercall_execution s =
     (let code = getHypercallCode (mach s)
      in if HCALL_TABLE_SIZE - 1 < code then Some (set_V0 HCALL_NOT_IMPLEMENTED s)
         else case hypercall_table s ! unat code of
           None \<Rightarrow> Some (set_V0 HCALL_NOT_IMPLEMENTED s)
         | Some hc \<Rightarrow> run_hcall hc s)"

definition guest_exit_exception :: "kst \<Rightarrow> kst option" where
  "guest_exit_exception s = do {
     let guestcause = getGCauseCode (mach s);
     let epc = getEPC (mach s);
     s \<leftarrow> (if guestcause = GUEST_INSTRUCTION_EMULATION then Some s
           else if guestcause = GUEST_HYPERCALL then hypercall_execution s
           else Some s);
     v \<leftarrow> vcpu_executing s;
     s \<leftarrow> upd_vcpu v (\<lambda>vc. vc\<lparr>pc := epc + 4\<rparr>) s;
     vc \<leftarrow> vcpus s v;
     Some (upd_mach (setEPC (pc vc)) s) }"

text \<open>The message of \<open>CRITICAL\<close> reads the id of the VCPU.\<close>

definition general_exception_handler :: "kst \<Rightarrow> outcome option" where
  "general_exception_handler s =
     (if getCauseCode (mach s) = GUEST_EXIT_EXCEPTION then map_option Running (guest_exit_exception s)
      else do {
        v \<leftarrow> vcpu_executing s;
        _ \<leftarrow> vcpus s v;
        Some (Halted s) })"

text \<open>Vector \<open>i + 1\<close> calls element \<open>i\<close> of \<open>interrupt_handlers\<close>; a null element is a jump to 0.\<close>

fun run_handler :: "handler \<Rightarrow> kst \<Rightarrow> outcome option" where
  "run_handler I_timer_interrupt_handler s = map_option Running (timer_interrupt_handler s)"
| "run_handler I_interrupt_injection s = map_option Running (interrupt_injection s)"
| "run_handler I_sw1_button_handler s =
     map_option (\<lambda>h. Halted (s\<lparr>mach := h\<rparr>)) (sw1_button_handler (mach s))"

definition interrupt_vector :: "nat \<Rightarrow> kst \<Rightarrow> outcome option" where
  "interrupt_vector i s = (if i < 6 then do {
     ih \<leftarrow> interrupt_handlers s ! i;
     run_handler ih s } else None)"

subsection \<open>Start-up\<close>

text \<open>The functions that \<open>driver_init\<close> places in the table of initialisers; which of them are linked, and in
  which order, is the build's choice.\<close>

datatype initcall =
    D_interrupt_init | D_sw1_button_interrupt_init | D_intervm_init | D_virtual_io_init
  | D_interrupt_redirect_init | D_flash_puf_init | D_vm_update_init | D_remote_connection_init

fun run_initcall :: "initcall \<Rightarrow> kst \<Rightarrow> kst option" where
  "run_initcall D_interrupt_init s = Some (upd_mach interrupt_init s)"
| "run_initcall D_sw1_button_interrupt_init s = Some (sw1_button_interrupt_init s)"
| "run_initcall D_intervm_init s = Some (intervm_init s)"
| "run_initcall D_virtual_io_init s = virtual_io_init s"
| "run_initcall D_interrupt_redirect_init s = interrupt_redirect_init s"
| "run_initcall D_flash_puf_init s = Some (flash_puf_init s)"
| "run_initcall D_vm_update_init s = Some (vm_update_init s)"
| "run_initcall D_remote_connection_init s = Some (remote_connection_init s)"

primrec drivers_initialization :: "initcall list \<Rightarrow> kst \<Rightarrow> kst option" where
  "drivers_initialization [] s = Some s"
| "drivers_initialization (d # ds) s = do { s \<leftarrow> run_initcall d s; drivers_initialization ds s }"

definition hyper_init :: "u32 \<Rightarrow> u32 \<Rightarrow> initcall list \<Rightarrow> kst \<Rightarrow> outcome option" where
  "hyper_init heap_start heap_size drivers s = do {
     let s = upd_mach early_platform_init s;
     let (err, h) = LowLevelProcInit (mach s);
     let s = s\<lparr>mach := h\<rparr>;
     if err \<noteq> 0 then Some (Halted s)
     else do {
       let s = s\<lparr>heap := init_mem (heap s) heap_start heap_size\<rparr>;
       (trusted, s) \<leftarrow> isVmTrust s;
       if trusted = 0 then Some (Halted s)
       else do {
         s \<leftarrow> initializeMachines s;
         s \<leftarrow> drivers_initialization drivers s;
         Some (Running (start_timer s)) } } }"

end
