(* ===== verification/KSteps.thy ===== *)
theory KSteps
  imports Kernel
begin

text \<open>
  What every hypercall keeps. \<open>k_step s s'\<close>: from \<open>s\<close> to \<open>s'\<close> the lists, the virtual machines, the
  tables and the scheduler's variables are the same, every VCPU keeps its identity and, if it had one,
  a well-formed message queue, and the machine keeps the bank and the id of the guest in execution, the
  register banks of every other guest and every TLB entry but the hypervisor's own, number 15, which never
  becomes an entry of a guest. It is reflexive and transitive, so a hypercall is a
  chain of such steps, and it preserves the invariant \<open>kinv\<close> of the running kernel.
\<close>

subsection \<open>Machine steps\<close>

definition m_keep :: "hw \<Rightarrow> hw \<Rightarrow> bool" where
  "m_keep h h' \<longleftrightarrow> prev_set h' = prev_set h \<and> getGuestID h' = getGuestID h \<and>
     (\<forall>b. b \<noteq> prev_set h \<longrightarrow> gpr h' b = gpr h b) \<and> (\<forall>j. j \<noteq> 15 \<longrightarrow> tlb h' j = tlb h j) \<and>
     (\<forall>e. tlb h' 15 = Some e \<longrightarrow> t_gid e \<noteq> 0 \<longrightarrow> tlb h 15 = Some e)"

lemma m_keep_root_free: "m_keep h h' \<Longrightarrow> root_free h 15 \<Longrightarrow> root_free h' 15"
  by (simp add: m_keep_def root_free_def)

lemma m_keep_refl [simp]: "m_keep h h"
  by (simp add: m_keep_def)

lemma m_keep_trans: "m_keep h h' \<Longrightarrow> m_keep h' h'' \<Longrightarrow> m_keep h h''"
  by (simp add: m_keep_def)

lemma m_keep_fields:
  "cp0 h' (CP0_SRSCTL, 2) = cp0 h (CP0_SRSCTL, 2) \<Longrightarrow> cp0 h' (CP0_GUESTCTL1, 4) = cp0 h (CP0_GUESTCTL1, 4) \<Longrightarrow>
   gpr h' = gpr h \<Longrightarrow> tlb h' = tlb h \<Longrightarrow> m_keep h h'"
  by (simp add: m_keep_def prev_set_def getGuestID_def mfc0_def)

lemma m_keep_MoveTo [simp]: "m_keep h (MoveToPreviousGuestGPR r v h)"
  by (simp add: m_keep_def prev_set_def getGuestID_def mfc0_def MoveToPreviousGuestGPR_def)

lemma m_keep_simps [simp]:
  "m_keep h (sfr_write a v h)"
  "m_keep h (setEPC v h)" "m_keep h (setGuestCTL2 v h)" "m_keep h (snd (mfc0_count h))"
  "m_keep h (clearInterruptMask v h)" "m_keep h (enableIE h)" "m_keep h (mtc0 CP0_COMPARE 0 v h)"
  by (intro m_keep_fields; simp add: hal_setters mfc0_count_def
      clearInterruptMask_def enableIE_def)+

lemma write_bytes_keeps:
  "write_bytes va bs h = Some h' \<Longrightarrow> cp0 h' = cp0 h \<and> gpr h' = gpr h \<and> tlb h' = tlb h"
proof (induction bs arbitrary: va h)
  case (Cons b bs)
  then obtain h1 where h1: "write8 va b h = Some h1" "write_bytes (va + 1) bs h1 = Some h'" by auto
  then have "cp0 h1 = cp0 h" "gpr h1 = gpr h" "tlb h1 = tlb h" by (auto simp: write8_def)
  with Cons.IH [OF h1(2)] show ?case by simp
qed simp

lemma m_keep_write_bytes: "write_bytes va bs h = Some h' \<Longrightarrow> m_keep h h'"
  using write_bytes_keeps by (metis m_keep_fields)

lemma m_keep_write32: "write32 va v h = Some h' \<Longrightarrow> m_keep h h'"
  unfolding write32_def by (rule m_keep_write_bytes)

lemma RID_keeps_ID: "((x AND NOT GUESTCTL1_RID) OR push_bit GUESTCTL1_RID_SHIFT (0 :: u32)) AND GUESTCTL1_ID = x AND GUESTCTL1_ID"
proof -
  have m: "GUESTCTL1_RID = push_bit 16 (mask 8)" "(GUESTCTL1_ID :: u32) = mask 8"
    by (simp_all add: mask_eq_exp_minus_1 push_bit_eq_mult)
  show ?thesis unfolding m by (rule bit_word_eqI) (auto simp: bit_simps)
qed

lemma m_keep_tlbCreateEntry:
  assumes "tlbCreateEntry a b n 15 c h = (va, h')"
  shows "m_keep h h'"
proof -
  obtain e where e: "h' = tlbEntryWrite e h" "index e = 15" "guestid e = 0"
    using assms by (auto simp: tlbCreateEntry_def Let_def)
  have "cp0 h' (CP0_GUESTCTL1, 4) = (cp0 h (CP0_GUESTCTL1, 4) AND NOT GUESTCTL1_RID) OR push_bit GUESTCTL1_RID_SHIFT 0"
    by (simp add: e tlbEntryWrite_def tlb_commit_def setGuestRID_def mtc0_def mfc0_def)
  then have "getGuestID h' = getGuestID h"
    using RID_keeps_ID [of "cp0 h (CP0_GUESTCTL1, 4)"] by (simp add: getGuestID_def mfc0_def)
  moreover have "\<forall>j. j \<noteq> 15 \<longrightarrow> tlb h' j = tlb h j"
    using tlbEntryWrite_tlb [of e h] by (simp add: e)
  moreover have "t_gid x = 0" if "tlb h' 15 = Some x" for x
    using that tlbEntryWrite_tlb [of e h] by (auto simp: e)
  ultimately show ?thesis by (auto simp: m_keep_def e(1))
qed

lemma udelay_loop_keeps:
  assumes "udelay_loop final h = Some h'"
  shows "m_keep h h'"
proof (rule udelay_loop.raw_induct [where P = "\<lambda>final h h'. m_keep h h'", OF _ assms])
  fix f :: "u32 \<Rightarrow> hw \<Rightarrow> hw option" and final h y
  assume IH: "\<And>final h y. f final h = Some y \<Longrightarrow> m_keep h y"
    and e: "(let r = mfc0_count h in if 0 \<le>s fst r - final then Some (snd r) else f final (snd r)) = Some y"
  have c: "m_keep h (snd (mfc0_count h))" by simp
  show "m_keep h y"
  proof (cases "0 \<le>s fst (mfc0_count h) - final")
    case True
    then show ?thesis using e c by simp
  next
    case False
    then have "f final (snd (mfc0_count h)) = Some y" using e by simp
    then show ?thesis using m_keep_trans [OF c IH] by blast
  qed
qed

lemma udelay_keeps: "udelay n h = Some h' \<Longrightarrow> m_keep h h'"
  unfolding udelay_def Let_def case_prod_beta
  by (rule m_keep_trans [of _ "snd (mfc0_count h)"]) (simp_all add: udelay_loop_keeps)

lemma nvm_wait_keeps:
  assumes "nvm_wait ctl h = Some h'" and "\<forall>h. m_keep h (ctl h)"
  shows "m_keep h h'"
proof -
  have "(\<forall>h. m_keep h (ctl h)) \<longrightarrow> m_keep h h'"
  proof (rule nvm_wait.raw_induct [where P = "\<lambda>ctl h h'. (\<forall>h. m_keep h (ctl h)) \<longrightarrow> m_keep h h'", OF _ assms(1)])
    fix f :: "(hw \<Rightarrow> hw) \<Rightarrow> hw \<Rightarrow> hw option" and ctl h y
    assume IH: "\<And>ctl h y. f ctl h = Some y \<Longrightarrow> (\<forall>h. m_keep h (ctl h)) \<longrightarrow> m_keep h y"
      and e: "(if sfr h NVMCON AND 0x8000 \<noteq> 0 then f ctl (ctl h) else Some h) = Some y"
    show "(\<forall>h. m_keep h (ctl h)) \<longrightarrow> m_keep h y"
    proof
      assume k: "\<forall>h. m_keep h (ctl h)"
      show "m_keep h y"
      proof (cases "sfr h NVMCON AND 0x8000 = 0")
        case False
        then have "m_keep (ctl h) y" using e IH k by simp
        then show ?thesis using k m_keep_trans by blast
      qed (use e in simp)
    qed
  qed
  then show ?thesis using assms(2) by blast
qed

lemma NVMUnlock_keeps:
  assumes "NVMUnlock ctl op h = Some (r, h')" and k: "\<forall>h. m_keep h (ctl h)"
  shows "m_keep h h'"
proof -
  obtain h1 h2 h3 h4 where e: "h1 = sfr_write NVMCON op (clearInterruptMask STATUS_IE h)"
    "udelay 10 h1 = Some h2"
    "h3 = sfr_set NVMCON 0x8000 (sfr_write NVMKEY 0x556699AA (sfr_write NVMKEY 0xAA996655 (sfr_write NVMKEY 0 h2)))"
    "nvm_wait ctl h3 = Some h4"
    "h' = sfr_clr NVMCON 0x4000 (if mfc0 h CP0_STATUS 0 AND 1 \<noteq> 0 then enableIE h4 else clearInterruptMask STATUS_IE h4)"
    using assms(1) by (auto simp: NVMUnlock_def Let_def)
  have "m_keep h h1" unfolding e(1) by (rule m_keep_fields) (simp_all add: clearInterruptMask_def mtc0_def)
  moreover have "m_keep h1 h2" using e(2) by (rule udelay_keeps)
  moreover have "m_keep h2 h3" unfolding e(3) by (rule m_keep_fields) simp_all
  moreover have "m_keep h3 h4" using e(4) k by (rule nvm_wait_keeps)
  moreover have "m_keep h4 h'" unfolding e(5)
    by (rule m_keep_fields) (simp_all add: enableIE_def clearInterruptMask_def mtc0_def)
  ultimately show ?thesis using m_keep_trans by metis
qed

lemma flash_read_words_keeps: "flash_read_words b is h = Some h' \<Longrightarrow> m_keep h h'"
proof (induction "is" arbitrary: h)
  case (Cons i "is")
  then obtain w h1 where "write32 (b + 4 * of_nat i) w h = Some h1" "flash_read_words b is h1 = Some h'" by auto
  then show ?case using Cons.IH m_keep_write32 m_keep_trans by metis
qed simp

lemma NVMWriteQuad_keeps:
  assumes "NVMWriteQuad ctl a p h = Some (r, h')" and k: "\<forall>h. m_keep h (ctl h)"
  shows "m_keep h h'"
proof -
  obtain w0 w1 w2 w3 where "NVMUnlock ctl 0x4002 (sfr_write (NVMDATA 3) w3 (sfr_write (NVMDATA 2) w2
      (sfr_write (NVMDATA 1) w1 (sfr_write (NVMDATA 0) w0 (sfr_write NVMADDR (a AND 0x1FFFFFFF) h))))) = Some (r, h')"
    using assms(1) by (auto simp: NVMWriteQuad_def Let_def)
  from NVMUnlock_keeps [OF this k] show ?thesis
    by (rule m_keep_trans [rotated]) (rule m_keep_fields, simp_all)
qed

lemma flash_write_quads_keeps:
  "flash_write_quads ctl b qs h = Some h' \<Longrightarrow> \<forall>h. m_keep h (ctl h) \<Longrightarrow> m_keep h h'"
proof (induction qs arbitrary: h)
  case (Cons q qs)
  then obtain r h1 where "NVMWriteQuad ctl (pageFlash + 16 * of_nat q) (b + 16 * of_nat q) h = Some (r, h1)"
    "flash_write_quads ctl b qs h1 = Some h'" by auto
  then show ?case
    using m_keep_trans [OF NVMWriteQuad_keeps [OF _ Cons.prems(2)] Cons.IH [OF _ Cons.prems(2)]] by blast
qed simp

subsection \<open>Kernel steps\<close>

definition vc_keep :: "vcpu_t \<Rightarrow> vcpu_t \<Rightarrow> bool" where
  "vc_keep vc vc' \<longleftrightarrow> vc_ids vc vc' \<and> (msg_buf_ok (messages vc) \<longrightarrow> msg_buf_ok (messages vc'))"

definition k_step :: "kst \<Rightarrow> kst \<Rightarrow> bool" where
  "k_step s s' \<longleftrightarrow> k_frame vc_keep s s' \<and> m_keep (mach s) (mach s') \<and>
     vcpu_executing_nd s' = vcpu_executing_nd s \<and> next_vcpu s' = next_vcpu s \<and>
     last_scheduled s' = last_scheduled s \<and> tick_count s' = tick_count s"

lemma vc_keep_refl [simp]: "vc_keep vc vc"
  by (simp add: vc_keep_def)

lemma transp_vc_keep: "transp vc_keep"
  by (auto intro!: transpI simp: vc_keep_def vc_ids_def)

lemma k_step_refl [simp]: "k_step s s"
  by (simp add: k_step_def k_frame_refl)

lemma k_step_trans: "k_step s s' \<Longrightarrow> k_step s' s'' \<Longrightarrow> k_step s s''"
  unfolding k_step_def using k_frame_trans [OF transp_vc_keep] m_keep_trans by metis

lemma k_step_mach: "m_keep (mach s) h \<Longrightarrow> k_step s (s\<lparr>mach := h\<rparr>)"
  by (simp add: k_step_def k_frame_def option.rel_refl)

lemma k_step_upd_mach: "(\<And>h. m_keep h (f h)) \<Longrightarrow> k_step s (upd_mach f s)"
  unfolding upd_mach_def by (rule k_step_mach) simp

lemma k_step_upd_vcpu:
  assumes "upd_vcpu p f s = Some s'" and "\<And>vc. vcpus s p = Some vc \<Longrightarrow> vc_keep vc (f vc)"
  shows "k_step s s'"
  using assms by (auto simp: upd_vcpu_def k_step_def k_frame_def option.rel_refl)

text \<open>A handler that ends in \<open>set_V0\<close> is a step if what precedes it is.\<close>

lemma k_step_set_V0: "k_step s s' \<Longrightarrow> k_step s (set_V0 v s')"
  by (rule k_step_trans [OF _ k_step_upd_mach]) simp_all

lemma post_intervm_keep [simp]: "vc_keep vc (post_intervm vc)"
  by (simp add: vc_keep_def vc_ids_def post_intervm_def)

lemma copy_from_guest_step:
  "copy_from_guest a b n m s = Some (bs, s') \<Longrightarrow> k_step s s' \<and> vcpus s' = vcpus s \<and> length bs = unat m"
proof -
  assume "copy_from_guest a b n m s = Some (bs, s')"
  then obtain va h where c: "tlbCreateEntry a b n 15 CACHEABLE (mach s) = (va, h)"
    "read_bytes h va (unat m) = Some bs" "s' = s\<lparr>mach := h\<rparr>"
    by (cases "tlbCreateEntry a b n 15 CACHEABLE (mach s)") (auto simp: copy_from_guest_def Let_def)
  have "length bs = n" if "read_bytes h va n = Some bs" for va n bs
    using that by (induction n arbitrary: va bs) auto
  then show ?thesis using c k_step_mach [OF m_keep_tlbCreateEntry [OF c(1)]] by simp
qed

lemma copy_to_guest_step: "copy_to_guest a b n bs s = Some s' \<Longrightarrow> k_step s s' \<and> vcpus s' = vcpus s"
proof -
  assume "copy_to_guest a b n bs s = Some s'"
  then obtain va h h' where c: "tlbCreateEntry a b n 15 CACHEABLE (mach s) = (va, h)"
    "write_bytes va bs h = Some h'" "s' = s\<lparr>mach := h'\<rparr>"
    by (cases "tlbCreateEntry a b n 15 CACHEABLE (mach s)") (auto simp: copy_to_guest_def Let_def)
  have "m_keep (mach s) h'"
    by (rule m_keep_trans [OF m_keep_tlbCreateEntry [OF c(1)] m_keep_write_bytes [OF c(2)]])
  then show ?thesis using c k_step_mach by simp
qed

subsection \<open>Every hypercall and every injected interrupt is a step\<close>

lemma register_moves_step:
  "get_vm_id s = Some s' \<Longrightarrow> k_step s s'" "guest_is_up s = Some s' \<Longrightarrow> k_step s s'"
  "read_address s = Some s' \<Longrightarrow> k_step s s'" "write_address s = Some s' \<Longrightarrow> k_step s s'"
  "reenable_interrupt s = Some s' \<Longrightarrow> k_step s s'" "update_chosen_vm s = Some s' \<Longrightarrow> k_step s s'"
proof -
  have w: "k_step s (set_V0 v (upd_mach (sfr_write a x) s))" for v a x
    by (intro k_step_set_V0 k_step_upd_mach) simp
  have v: "k_step s (set_V0 v s)" for v by (intro k_step_set_V0) simp
  show "get_vm_id s = Some s' \<Longrightarrow> k_step s s'" "guest_is_up s = Some s' \<Longrightarrow> k_step s s'"
    by (auto simp: get_vm_id_def guest_is_up_def Let_def v split: if_splits)
  show "read_address s = Some s' \<Longrightarrow> k_step s s'" "write_address s = Some s' \<Longrightarrow> k_step s s'"
    by (auto simp: read_address_def write_address_def Let_def v w split: if_splits)
  show "reenable_interrupt s = Some s' \<Longrightarrow> k_step s s'"
    by (auto simp: reenable_interrupt_def Let_def v w split: option.splits)
  show "update_chosen_vm s = Some s' \<Longrightarrow> k_step s s'" by (simp add: update_chosen_vm_def)
qed

lemma msg_put_ok:
  assumes "msg_put src n bs b = Some b'" "length bs = unat n" "n \<le> MESSAGE_SZ" "num_messages b \<noteq> MESSAGELIST_SZ"
    and ok: "msg_buf_ok b"
  shows "msg_buf_ok b' \<and> msg_contents b' = msg_contents b @ [(src, bs)]"
proof -
  have n: "n = of_nat (length bs)" using assms(2) by simp
  have "length bs \<le> 255" using assms(2,3) by (simp add: word_le_nat_alt MESSAGE_SZ_def)
  moreover have "unat (num_messages b) < 5"
  proof -
    have "num_messages b \<le> MESSAGELIST_SZ" using ok by (simp add: msg_buf_ok_def)
    with assms(4) have "num_messages b < MESSAGELIST_SZ" by simp
    then show ?thesis by (simp add: word_less_nat_alt MESSAGELIST_SZ_def)
  qed
  ultimately obtain b'' where "msg_put src (of_nat (length bs)) bs b = Some b''" "msg_buf_ok b''"
    "msg_contents b'' = msg_contents b @ [(src, bs)]"
    using ring_put_ok [OF ok, of bs src] by blast
  then show ?thesis using assms(1) n by simp
qed

lemma intervm_send_step:
  assumes a: "intervm_send_msg s = Some s'"
  shows "k_step s s'"
proof (cases "MESSAGE_SZ < guest_reg s REG_A2")
  case True
  then show ?thesis using a by (auto simp: intervm_send_msg_def Let_def intro: k_step_set_V0)
next
  case sz: False
  let ?sz = "guest_reg s REG_A2"
  obtain p where p: "get_vcpu_from_id s (guest_reg s REG_A0) = Some p"
    using a sz by (auto simp: intervm_send_msg_def Let_def)
  show ?thesis
  proof (cases "p = NULL")
    case True
    then show ?thesis using a sz p by (auto simp: intervm_send_msg_def Let_def intro: k_step_set_V0)
  next
    case nn: False
    obtain vc where vc: "vcpus s p = Some vc" using a sz p nn by (auto simp: intervm_send_msg_def Let_def)
    consider "vcpu_init vc \<noteq> 0" | "vcpu_init vc = 0" "num_messages (messages vc) = MESSAGELIST_SZ"
      | "vcpu_init vc = 0" "num_messages (messages vc) \<noteq> MESSAGELIST_SZ" by blast
    then show ?thesis
    proof cases
      case 1
      then show ?thesis using a sz p nn vc by (auto simp: intervm_send_msg_def Let_def intro: k_step_set_V0)
    next
      case 2
      then obtain s1 where "upd_vcpu p post_intervm s = Some s1" "s' = set_V0 MESSAGE_FULL s1"
        using a sz p nn vc by (auto simp: intervm_send_msg_def Let_def)
      then show ?thesis using k_step_upd_vcpu [of p post_intervm s s1] by (simp add: k_step_set_V0)
    next
      case 3
      note a' = a [unfolded intervm_send_msg_def Let_def]
      obtain m vm where m: "vm_executing s = Some m" "vms s m = Some vm"
        using a' sz p nn vc 3 by auto
      obtain bs s1 where snt1: "copy_from_guest (guest_reg s REG_A1) (base_addr vm) ?sz ?sz s = Some (bs, s1)"
        using a' sz p nn vc 3 m by auto
      note c = copy_from_guest_step [OF snt1]
      have vc1: "vcpus s1 p = Some vc" using c vc by simp
      obtain b where put: "msg_put (vm_id vm) ?sz bs (messages vc) = Some b"
        using a' sz p nn vc 3 m snt1 vc1 by auto
      obtain s2 where s2: "upd_vcpu p (\<lambda>vc. vc\<lparr>messages := b\<rparr>) s1 = Some s2"
        using a' sz p nn vc 3 m snt1 vc1 put by auto
      obtain s3 where s3: "upd_vcpu p post_intervm s2 = Some s3" "s' = set_V0 ?sz s3"
        using a' sz p nn vc 3 m snt1 vc1 put s2 by auto
      have "k_step s1 s2"
      proof (rule k_step_upd_vcpu [OF s2])
        fix x assume "vcpus s1 p = Some x"
        then have "x = vc" using c vc by simp
        then show "vc_keep x (x\<lparr>messages := b\<rparr>)"
          using msg_put_ok [OF put _ _ 3(2)] c sz by (auto simp: vc_keep_def vc_ids_def)
      qed
      moreover have "k_step s2 s3" using s3(1) by (rule k_step_upd_vcpu) simp
      ultimately have "k_step s s3" using c k_step_trans by blast
      then show ?thesis unfolding s3(2) by (rule k_step_set_V0)
    qed
  qed
qed

lemma intervm_recv_step:
  assumes "intervm_recv_msg s = Some s'"
  shows "k_step s s'"
proof -
  consider (err) v where "s' = set_V0 v s"
    | (got) p vc a base n bs s1 v src where "vcpus s p = Some vc" "num_messages (messages vc) \<noteq> 0"
        "copy_to_guest a base n bs s = Some s1"
        "upd_vcpu p (\<lambda>vc. vc\<lparr>messages := msg_drop (messages vc)\<rparr>)
           (upd_mach (MoveToPreviousGuestGPR REG_A0 src) (set_V0 v s1)) = Some s'"
    using assms by (auto simp: intervm_recv_msg_def Let_def split: if_splits)
  then show ?thesis
  proof cases
    case err
    then show ?thesis by (simp add: k_step_set_V0)
  next
    case got
    let ?s2 = "upd_mach (MoveToPreviousGuestGPR REG_A0 src) (set_V0 v s1)"
    have "k_step s ?s2"
      using copy_to_guest_step [OF got(3)]
      by (intro k_step_trans [OF _ k_step_upd_mach] k_step_set_V0) simp_all
    moreover have "k_step ?s2 s'"
    proof (rule k_step_upd_vcpu [OF got(4)])
      fix x assume "vcpus ?s2 p = Some x"
      then have "x = vc" using copy_to_guest_step [OF got(3)] got(1) by (simp add: upd_mach_def)
      then show "vc_keep x (x\<lparr>messages := msg_drop (messages x)\<rparr>)"
        using ring_get_ok [OF _ got(2)] by (auto simp: vc_keep_def vc_ids_def)
    qed
    ultimately show ?thesis by (rule k_step_trans)
  qed
qed

lemma m_keep_tlbCreateEntry_snd [simp]: "m_keep h (snd (tlbCreateEntry a b n 15 c h))"
  by (rule m_keep_tlbCreateEntry [OF surjective_pairing])

lemma flash_read_step: "flash_read s = Some s' \<Longrightarrow> k_step s s'"
proof -
  assume "flash_read s = Some s'"
  then obtain a b va h' v where f:
    "flash_read_words va [0..<256] (snd (tlbCreateEntry a b 1024 15 CACHEABLE (mach s))) = Some h'"
    "s' = set_V0 v (s\<lparr>mach := h'\<rparr>)"
    by (auto simp: flash_read_def flash_read1Kbuffer_def Let_def case_prod_beta simp del: upt_rec_numeral)
  have "m_keep (mach s) h'"
    using flash_read_words_keeps [OF f(1)] by (rule m_keep_trans [rotated]) simp
  then show "k_step s s'" unfolding f(2) by (intro k_step_set_V0 k_step_mach)
qed

lemma flash_write_step:
  assumes "flash_write s = Some s'" and k: "\<forall>h. m_keep h (nvm_ctl s h)"
  shows "k_step s s'"
proof -
  obtain a b va h h1 h' v r where f: "h = snd (tlbCreateEntry a b 1024 15 CACHEABLE (mach s))"
    "NVMErasePage (nvm_ctl s) pageFlash h = Some (r, h1)"
    "flash_write_quads (nvm_ctl s) va [0..<64] h1 = Some h'" "s' = set_V0 v (s\<lparr>mach := h'\<rparr>)"
    using assms(1) by (auto simp: flash_write_def flash_write1Kbuffer_def Let_def case_prod_beta
      simp del: upt_rec_numeral)
  have "m_keep (mach s) h" unfolding f(1) by simp
  moreover have "m_keep h h1"
    using NVMUnlock_keeps [OF f(2) [unfolded NVMErasePage_def Let_def] k]
    by (rule m_keep_trans [rotated]) simp
  moreover have "m_keep h1 h'" using f(3) k by (rule flash_write_quads_keeps)
  ultimately have "m_keep (mach s) h'" by (blast intro: m_keep_trans)
  then show "k_step s s'" unfolding f(4) by (intro k_step_set_V0 k_step_mach)
qed

lemma guest_key_step: "guest_key s = Some (key, s') \<Longrightarrow> k_step s s'"
  by (auto simp: guest_key_def case_prod_beta Let_def intro: k_step_mach)

lemma key_hypercalls_step:
  "get_allowed_vm s = Some s' \<Longrightarrow> k_step s s'" "get_owned_list s = Some s' \<Longrightarrow> k_step s s'"
  using guest_key_step k_step_set_V0 by (auto simp: get_allowed_vm_def get_owned_list_def)

lemma run_hcall_step:
  assumes "run_hcall hc s = Some s'" and "\<forall>h. m_keep h (nvm_ctl s h)"
  shows "k_step s s'"
  using assms register_moves_step [of s s'] intervm_send_step [of s s'] intervm_recv_step [of s s']
    flash_read_step [of s s'] flash_write_step [of s s'] key_hypercalls_step [of s s']
  by (cases hc) simp_all

lemma hypercall_execution_step:
  assumes "hypercall_execution s = Some s'" and "\<forall>h. m_keep h (nvm_ctl s h)"
  shows "k_step s s'"
  using assms run_hcall_step [OF _ assms(2)] k_step_set_V0 [OF k_step_refl]
  by (auto simp: hypercall_execution_def Let_def split: if_splits option.splits)

lemma guest_exit_step:
  assumes "guest_exit_exception s = Some s'" and "\<forall>h. m_keep h (nvm_ctl s h)"
  shows "k_step s s'"
proof -
  obtain s1 where s1: "s1 = s \<or> hypercall_execution s = Some s1"
    and g: "Option.bind (vcpu_executing s1) (\<lambda>v. Option.bind (upd_vcpu v (\<lambda>vc. vc\<lparr>pc := getEPC (mach s) + 4\<rparr>) s1)
      (\<lambda>s2. Option.bind (vcpus s2 v) (\<lambda>vc. Some (upd_mach (setEPC (pc vc)) s2)))) = Some s'"
    using assms(1) unfolding guest_exit_exception_def Let_def
    by (cases "getGCauseCode (mach s) = GUEST_HYPERCALL"; cases "getGCauseCode (mach s) = GUEST_INSTRUCTION_EMULATION";
        cases "hypercall_execution s") (simp_all, blast+)
  obtain v s2 x where s2: "upd_vcpu v (\<lambda>vc. vc\<lparr>pc := getEPC (mach s) + 4\<rparr>) s1 = Some s2"
    "s' = upd_mach (setEPC x) s2"
    using g by (auto simp: bind_eq_Some_conv)
  have "k_step s s1" using s1 hypercall_execution_step assms(2) by auto
  moreover have "k_step s1 s2" using s2(1) by (rule k_step_upd_vcpu) (simp add: vc_keep_def vc_ids_def)
  moreover have "k_step s2 s'" unfolding s2(2) by (rule k_step_upd_mach) simp
  ultimately show ?thesis by (blast intro: k_step_trans)
qed

lemma inject_one_step:
  assumes a: "inject_one im s = Some s'"
  shows "k_step s s'"
proof (cases "sfr (mach s) (IFS (irq_reg (irq_number im))) AND irq_bit (irq_number im) = 0")
  case True
  then show ?thesis using a by (simp add: inject_one_def Let_def)
next
  case False
  let ?s1 = "upd_mach (sfr_clr (IFS (irq_reg (irq_number im))) (irq_bit (irq_number im)))
    (upd_mach (sfr_clr (IEC (irq_reg (irq_number im))) (irq_bit (irq_number im))) s)"
  let ?set = "\<lambda>h. setGuestCTL2 (getGuestCTL2 h OR push_bit GUESTCLT2_GRIPL_SHIFT (irq_guest im)) h"
  let ?f = "\<lambda>vc. vc\<lparr>guestclt2 := guestclt2 vc OR push_bit GUESTCLT2_GRIPL_SHIFT (irq_guest im)\<rparr>"
  have s1: "k_step s ?s1" by (intro k_step_trans [OF k_step_upd_mach k_step_upd_mach]) simp_all
  have "s' = upd_mach ?set ?s1 \<or> upd_vcpu (irq_vcpu im) ?f ?s1 = Some s'"
    using a False by (auto simp: inject_one_def Let_def bind_eq_Some_conv split: if_splits)
  then have "k_step ?s1 s'"
  proof
    assume "s' = upd_mach ?set ?s1"
    then show ?thesis by (simp add: k_step_upd_mach)
  next
    assume "upd_vcpu (irq_vcpu im) ?f ?s1 = Some s'"
    then show ?thesis by (rule k_step_upd_vcpu) (simp add: vc_keep_def vc_ids_def)
  qed
  with s1 show ?thesis by (rule k_step_trans)
qed

lemma inject_all_step: "inject_all ims s = Some s' \<Longrightarrow> k_step s s'"
proof (induction ims arbitrary: s)
  case (Cons im ims)
  then obtain s1 where "inject_one im s = Some s1" "inject_all ims s1 = Some s'" by auto
  then show ?case using k_step_trans [OF inject_one_step Cons.IH] by blast
qed simp

lemma interrupt_injection_step: "interrupt_injection s = Some s' \<Longrightarrow> k_step s s'"
  using inject_all_step by (auto simp: interrupt_injection_def)

end
