(* ===== verification/KernelInv.thy ===== *)
theory KernelInv imports KSteps
begin

text \<open>
  The running kernel. \<open>kinv_at rs ms tab s\<close>: the ready list is \<open>rs\<close>, the list of virtual machines is \<open>ms\<close>,
  their virtual machines and VCPUs are \<open>tab\<close>, the scheduler's variables point into them, and the processor
  runs the guest they say. Every entry to the hypervisor (timer, redirected interrupt, hypercall) keeps it,
  so it holds in every state that \<open>kernel_step\<close> reaches.
\<close>

subsection \<open>The invariant\<close>


lemma k_frame_mono:
  assumes "k_frame R s s'" and "\<And>x y. R x y \<Longrightarrow> Q x y"
  shows "k_frame Q s s'"
proof -
  have "rel_option Q a b" if "rel_option R a b" for a b
    using that by (rule option.rel_mono_strong) (rule assms(2))
  then show ?thesis using assms(1) by (simp add: k_frame_def)
qed

definition vcpu_node :: "kst \<Rightarrow> (ptr \<times> ptr) list \<Rightarrow> ptr \<Rightarrow> bool" where
  "vcpu_node s tab p \<longleftrightarrow> (\<exists>n. nodes s p = Some n \<and> elem n \<in> set (map snd tab))"

definition kinv_at :: "ptr list \<Rightarrow> ptr list \<Rightarrow> (ptr \<times> ptr) list \<Rightarrow> kst \<Rightarrow> bool" where
  "kinv_at rs ms tab s \<longleftrightarrow> kdata s rs ms tab \<and> tab \<noteq> [] \<and> length tab = length (VMCONF s) \<and> length tab \<le> 15 \<and>
     (last_scheduled s = NULL \<or> last_scheduled s \<in> set rs) \<and>
     (vcpu_executing_nd s = NULL \<or> vcpu_node s tab (vcpu_executing_nd s)) \<and>
     (next_vcpu s = NULL \<or> vcpu_node s tab (next_vcpu s)) \<and>
     (vcpu_executing_nd s = NULL \<longrightarrow> tick_count s = 0) \<and>
     bank_ok s \<and> root_free (mach s) 15 \<and> length (hypercall_table s) = 30 \<and>
     (\<forall>h. m_keep h (nvm_ctl s h))"

definition kinv :: "kst \<Rightarrow> bool" where
  "kinv s \<longleftrightarrow> (\<exists>rs ms tab. kinv_at rs ms tab s)"

lemma kdata_frame:
  assumes "kdata s rs ms tab" and fr: "k_frame vc_keep s s'"
  shows "kdata s' rs ms tab"
proof -
  have "vm_entry s' i m v" if e: "vm_entry s i m v" for i m v
  proof -
    obtain vc where vc: "vcpus s v = Some vc" using e unfolding vm_entry_def by blast
    have "rel_option vc_keep (vcpus s v) (vcpus s' v)" using fr by (simp add: k_frame_def)
    then obtain vc' where "vcpus s' v = Some vc'" "vc_keep vc vc'" using vc by (auto simp: option_rel_Some1)
    then show ?thesis using e vc fr by (auto simp: vm_entry_def k_frame_def vc_keep_def vc_ids_def)
  qed
  then show ?thesis using assms by (simp add: kdata_def k_frame_def)
qed

lemma bank_ok_step: "bank_ok s \<Longrightarrow> k_step s s' \<Longrightarrow> bank_ok s'"
proof -
  assume b: "bank_ok s" and st: "k_step s s'"
  show "bank_ok s'"
    unfolding bank_ok_def
  proof (intro allI impI)
    fix v vc' assume v: "vcpu_executing_nd s' \<noteq> NULL" "vcpu_executing s' = Some v" "vcpus s' v = Some vc'"
    have "rel_option vc_keep (vcpus s v) (vcpus s' v)" using st by (simp add: k_step_def k_frame_def)
    then obtain vc where vc: "vcpus s v = Some vc" "vc_keep vc vc'" using v(3) by (auto simp: option_rel_Some2)
    have "vcpu_executing s = Some v" "vcpu_executing_nd s \<noteq> NULL"
      using v st by (simp_all add: vcpu_executing_def k_step_def k_frame_def)
    then show "prev_set (mach s') = gprshadowset vc' \<and> getGuestID (mach s') = vcpu_id vc'"
      using b st vc by (auto simp: bank_ok_def k_step_def m_keep_def vc_keep_def vc_ids_def)
  qed
qed

lemma kinv_at_step:
  assumes "kinv_at rs ms tab s" and st: "k_step s s'"
  shows "kinv_at rs ms tab s'"
proof -
  have fr: "k_frame vc_keep s s'" using st by (simp add: k_step_def)
  have "bank_ok s'" using bank_ok_step [OF _ st] assms(1) by (simp add: kinv_at_def)
  moreover have "kdata s' rs ms tab" using kdata_frame [OF _ fr] assms(1) by (simp add: kinv_at_def)
  ultimately show ?thesis
    using assms m_keep_root_free by (auto simp: kinv_at_def k_step_def k_frame_def vcpu_node_def)
qed

lemma vcpu_node_valid:
  assumes "kdata s rs ms tab" and "length tab \<le> 15" and "vcpu_node s tab p"
  shows "valid_nd s p"
proof -
  obtain n where n: "nodes s p = Some n" "elem n \<in> set (map snd tab)" using assms(3) by (auto simp: vcpu_node_def)
  then obtain i where i: "i < length tab" "elem n = snd (tab ! i)" by (auto simp: in_set_conv_nth)
  then have "vm_entry s i (fst (tab ! i)) (elem n)" using assms(1) by (simp add: kdata_def)
  then obtain vc where vc: "elem n \<noteq> NULL" "vcpus s (elem n) = Some vc" "vcpu_id vc = of_nat (i + 1)"
    "gprshadowset vc = of_nat (i + 1)" by (auto simp: vm_entry_def)
  have "unat (of_nat (i + 1) :: u32) = i + 1" using i(1) assms(2) by (intro unat_of_nat_small) simp
  then show ?thesis using n vc i(1) assms(2) by (simp add: valid_nd_def)
qed

lemma ready_vcpu_node:
  assumes "kdata s rs ms tab" and "p \<in> set rs"
  shows "vcpu_node s tab p"
proof -
  have ch: "chain (nodes s) (vcpu_ready_list s) rs" and e: "elems (nodes s) rs = map snd tab"
    using assms(1) by (simp_all add: kdata_def)
  have "p \<in> dom (nodes s)" using chain_dom [OF ch] assms(2) by blast
  then obtain n where n: "nodes s p = Some n" by blast
  have "elem (the (nodes s p)) \<in> set (elems (nodes s) rs)" using assms(2) by (simp add: elems_def)
  then show ?thesis using n unfolding e vcpu_node_def by simp
qed

lemma kinv_at_sched: "kinv_at rs ms tab s \<Longrightarrow> sched_inv rs s"
proof -
  assume k: "kinv_at rs ms tab s"
  then have kd: "kdata s rs ms tab" "length tab \<le> 15" by (simp_all add: kinv_at_def)
  have "length rs = length tab" using kd(1) by (metis elems_def kdata_def length_map)
  then have "rs \<noteq> []" using k by (auto simp: kinv_at_def)
  then show ?thesis
    using k kd vcpu_node_valid [OF kd] ready_vcpu_node [OF kd(1)]
    by (auto simp: kinv_at_def sched_inv_def kdata_def)
qed

lemma kinv_at_run_scheduler:
  assumes k: "kinv_at rs ms tab s"
  shows "\<exists>s'. run_scheduler s = Some s' \<and> kinv_at rs ms tab s' \<and> vcpu_executing_nd s' = next_exec rs s \<and>
    vcpu_executing_nd s' \<noteq> NULL \<and> next_vcpu s' = NULL"
proof -
  note si = kinv_at_sched [OF k]
  obtain s' where s': "run_scheduler s = Some s'" "sched_inv rs s'" "vcpu_executing_nd s' = next_exec rs s"
    "next_vcpu s' = NULL" using run_scheduler_ok [OF si] by blast
  have fr: "k_frame vc_same s s'" "tlb (mach s') = tlb (mach s)" using run_scheduler_frame [OF s'(1)] by auto
  have fk: "k_frame vc_keep s s'"
    using fr(1) by (rule k_frame_mono) (simp add: vc_same_def vc_keep_def)
  have kd: "kdata s rs ms tab" using k by (simp add: kinv_at_def)
  have ch: "chain (nodes s) (vcpu_ready_list s) rs" using kd by (simp add: kdata_def)
  have rr: "rr_succ rs (last_scheduled s) \<in> set rs" "rr_succ rs (last_scheduled s) \<noteq> NULL"
  proof -
    show "rr_succ rs (last_scheduled s) \<in> set rs" using si by (intro round_robin_succ(2) [OF ch]) (auto simp: sched_inv_def)
    then show "rr_succ rs (last_scheduled s) \<noteq> NULL"
      using chain_nth_nonnull [OF ch] by (metis in_set_conv_nth)
  qed
  have ex: "vcpu_node s tab (next_exec rs s)" "next_exec rs s \<noteq> NULL"
    using k rr ready_vcpu_node [OF kd] by (auto simp: kinv_at_def next_exec_def)
  have kk: "tab \<noteq> []" "length tab = length (VMCONF s)" "length tab \<le> 15" "root_free (mach s) 15"
    "length (hypercall_table s) = 30" "\<forall>h. m_keep h (nvm_ctl s h)"
    using k by (simp_all add: kinv_at_def)
  have eqs: "nodes s' = nodes s" "VMCONF s' = VMCONF s" "hypercall_table s' = hypercall_table s" "nvm_ctl s' = nvm_ctl s"
    using fk by (simp_all add: k_frame_def)
  have "last_scheduled s' = NULL \<or> last_scheduled s' \<in> set rs" "bank_ok s'"
    using s'(2) by (simp_all add: sched_inv_def)
  moreover have "vcpu_node s' tab (next_exec rs s)" using ex(1) by (simp add: vcpu_node_def eqs)
  moreover have "root_free (mach s') 15" using kk(4) fr(2) by (simp add: root_free_def)
  ultimately have "kinv_at rs ms tab s'"
    unfolding kinv_at_def eqs s'(3,4)
    by (intro conjI disjI2 [of "_ = NULL" "vcpu_node _ _ _"] kk kdata_frame [OF kd fk])
      (simp_all only: ex(2) simp_thms)
  then show ?thesis using s'(1,3,4) ex(2) by (intro exI [of _ s']) simp
qed


subsection \<open>The timer\<close>

text \<open>What the handler does after the scheduler is a step.\<close>

lemma timer_interrupt_handler_tail:
  assumes "run_scheduler s = Some s1"
  shows "\<exists>s4. timer_interrupt_handler s = Some s4 \<and> k_step s1 s4"
proof -
  let ?s2 = "s1\<lparr>mach := snd (mfc0_count (mach s1))\<rparr>"
  define s3 where "s3 = (if QUEST_TICK_INTERVAL \<le> tick_diff (fst (mfc0_count (mach s1))) (timer_past ?s2) then
          (let h = setGuestCTL2 (getGuestCTL2 (mach ?s2) OR push_bit GUESTCLT2_GRIPL_SHIFT 1) (mach ?s2);
               (past, h) = mfc0_count h
           in ?s2\<lparr>mach := h, timer_past := past\<rparr>)
        else ?s2)"
  let ?s4 = "upd_mach (calc_next_timer_interrupt SYSTEM_TICK_INTERVAL) s3"
  have e: "timer_interrupt_handler s = Some ?s4"
    using assms by (simp add: timer_interrupt_handler_def s3_def Let_def case_prod_beta)
  have past: "k_step x (y\<lparr>timer_past := t\<rparr>) = k_step x y" for x y t
    by (simp add: k_step_def k_frame_def)
  have "k_step s1 ?s2" by (rule k_step_mach) simp
  moreover have "k_step ?s2 s3"
  proof -
    let ?h = "setGuestCTL2 (getGuestCTL2 (mach ?s2) OR push_bit GUESTCLT2_GRIPL_SHIFT 1) (mach ?s2)"
    have "m_keep (mach ?s2) (snd (mfc0_count ?h))" by (rule m_keep_trans [of _ ?h]) simp_all
    then have "k_step ?s2 (?s2\<lparr>mach := snd (mfc0_count ?h)\<rparr>)" by (rule k_step_mach)
    then show ?thesis unfolding s3_def by (simp add: Let_def case_prod_beta past)
  qed
  moreover have "k_step s3 ?s4"
  proof (rule k_step_upd_mach)
    fix h
    have "m_keep (snd (mfc0_count h)) (calc_next_timer_interrupt SYSTEM_TICK_INTERVAL h)"
      unfolding calc_next_timer_interrupt_def Let_def case_prod_beta
      by (rule m_keep_fields) (simp_all add: mtc0_def)
    then show "m_keep h (calc_next_timer_interrupt SYSTEM_TICK_INTERVAL h)"
      by (rule m_keep_trans [rotated]) simp
  qed
  ultimately show ?thesis using e by (blast intro: k_step_trans)
qed

lemma timer_interrupt_handler_ok:
  assumes k: "kinv_at rs ms tab s"
  shows "\<exists>s'. timer_interrupt_handler s = Some s' \<and> kinv_at rs ms tab s' \<and>
    vcpu_executing_nd s' = next_exec rs s \<and> vcpu_executing_nd s' \<noteq> NULL \<and> next_vcpu s' = NULL"
proof -
  obtain s1 where s1: "run_scheduler s = Some s1" "kinv_at rs ms tab s1" "vcpu_executing_nd s1 = next_exec rs s"
    "vcpu_executing_nd s1 \<noteq> NULL" "next_vcpu s1 = NULL"
    using kinv_at_run_scheduler [OF k] by blast
  obtain s4 where e: "timer_interrupt_handler s = Some s4" "k_step s1 s4" using timer_interrupt_handler_tail [OF s1(1)] by blast
  then have "vcpu_executing_nd s4 = vcpu_executing_nd s1" "next_vcpu s4 = next_vcpu s1"
    by (simp_all add: k_step_def)
  then show ?thesis using e(1) kinv_at_step [OF s1(2) e(2)] s1(3,4,5) by (intro exI [of _ s4]) simp
qed

subsection \<open>The running kernel\<close>

text \<open>What happens between two entries to the hypervisor, as far as the processor guarantees it: the guest
  and the devices change anything but the hypervisor's TLB and the fields that say which guest runs.\<close>

definition guest_turn :: "hw \<Rightarrow> hw \<Rightarrow> bool" where
  "guest_turn h h' \<longleftrightarrow> tlb h' = tlb h \<and> cp0 h' (CP0_SRSCTL, 2) = cp0 h (CP0_SRSCTL, 2) \<and>
     cp0 h' (CP0_GUESTCTL1, 4) = cp0 h (CP0_GUESTCTL1, 4) \<and> (\<forall>b. b \<noteq> prev_set h \<longrightarrow> gpr h' b = gpr h b)"

inductive kernel_step :: "outcome \<Rightarrow> outcome \<Rightarrow> bool" where
  guest: "guest_turn (mach s) h \<Longrightarrow> kernel_step (Running s) (Running (s\<lparr>mach := h\<rparr>))"
| interrupt: "interrupt_vector i s = Some r \<Longrightarrow> kernel_step (Running s) r"
| exception: "vcpu_executing_nd s \<noteq> NULL \<Longrightarrow> general_exception_handler s = Some r \<Longrightarrow> kernel_step (Running s) r"

inductive_cases kernel_step_RunningE: "kernel_step (Running s) r"
inductive_simps kernel_step_Halted [simp]: "kernel_step (Halted s) r"

text \<open>The part of a history that one execution of the scheduler leaves alone.\<close>

lemma guest_turn_keep: "guest_turn h h' \<Longrightarrow> m_keep h h'"
  by (auto simp: guest_turn_def m_keep_def prev_set_def getGuestID_def mfc0_def)

fun good :: "ptr list \<Rightarrow> ptr list \<Rightarrow> (ptr \<times> ptr) list \<Rightarrow> outcome \<Rightarrow> bool" where
  "good rs ms tab (Running s) = kinv_at rs ms tab s"
| "good rs ms tab (Halted s) = True"

lemma kernel_step_good: "kernel_step r r' \<Longrightarrow> good rs ms tab r \<Longrightarrow> good rs ms tab r'"
proof (induction rule: kernel_step.induct)
  case (guest s h)
  then show ?case using kinv_at_step [OF _ k_step_mach [OF guest_turn_keep]] by auto
next
  case (interrupt i s r)
  then obtain ih where ih: "run_handler ih s = Some r" by (auto simp: interrupt_vector_def split: if_splits)
  have k: "kinv_at rs ms tab s" using interrupt.prems by simp
  show ?case
  proof (cases ih)
    case I_timer_interrupt_handler
    then show ?thesis using timer_interrupt_handler_ok [OF k] ih by auto
  next
    case I_interrupt_injection
    then show ?thesis using ih kinv_at_step [OF k interrupt_injection_step] by auto
  next
    case I_sw1_button_handler
    then show ?thesis using ih by auto
  qed
next
  case (exception s r)
  have k: "kinv_at rs ms tab s" using exception.prems by simp
  then have ctl: "\<forall>h. m_keep h (nvm_ctl s h)" by (simp add: kinv_at_def)
  show ?case
    using exception.hyps(2) kinv_at_step [OF k guest_exit_step [OF _ ctl]]
    by (auto simp: general_exception_handler_def split: if_splits)
qed

subsection \<open>The guests' entries of the TLB\<close>

text \<open>Every entry but the hypervisor's own is the same, and that one has not become an entry of a guest.\<close>

definition guest_tlb_same :: "hw \<Rightarrow> hw \<Rightarrow> bool" where
  "guest_tlb_same h h' \<longleftrightarrow> (\<forall>j. j \<noteq> 15 \<longrightarrow> tlb h' j = tlb h j) \<and>
     (\<forall>e. tlb h' 15 = Some e \<longrightarrow> t_gid e \<noteq> 0 \<longrightarrow> tlb h 15 = Some e)"

lemma guest_tlb_same_refl [simp]: "guest_tlb_same h h"
  by (simp add: guest_tlb_same_def)

lemma guest_tlb_same_trans: "guest_tlb_same h h' \<Longrightarrow> guest_tlb_same h' h'' \<Longrightarrow> guest_tlb_same h h''"
  by (simp add: guest_tlb_same_def)

lemma k_step_guest_tlb: "k_step s s' \<Longrightarrow> guest_tlb_same (mach s) (mach s')"
  by (simp add: k_step_def m_keep_def guest_tlb_same_def)

lemma kernel_step_guest_tlb:
  assumes "kernel_step (Running s) (Running s')" and k: "kinv_at rs ms tab s"
  shows "guest_tlb_same (mach s) (mach s')"
  using assms(1)
proof (cases rule: kernel_step.cases)
  case (guest h)
  then show ?thesis using k_step_guest_tlb [OF k_step_mach [OF guest_turn_keep]] by simp
next
  case (interrupt i)
  then obtain ih where ih: "run_handler ih s = Some (Running s')" by (auto simp: interrupt_vector_def split: if_splits)
  show ?thesis
  proof (cases ih)
    case I_timer_interrupt_handler
    then have t: "timer_interrupt_handler s = Some s'" using ih by auto
    obtain s1 where s1: "run_scheduler s = Some s1" using kinv_at_run_scheduler [OF k] by blast
    have "guest_tlb_same (mach s) (mach s1)" using run_scheduler_frame [OF s1] by (simp add: guest_tlb_same_def)
    moreover have "k_step s1 s'" using timer_interrupt_handler_tail [OF s1] t by auto
    ultimately show ?thesis using k_step_guest_tlb guest_tlb_same_trans by blast
  next
    case I_interrupt_injection
    then show ?thesis using ih k_step_guest_tlb [OF interrupt_injection_step] by auto
  next
    case I_sw1_button_handler
    then show ?thesis using ih by auto
  qed
next
  case exception
  have ctl: "\<forall>h. m_keep h (nvm_ctl s h)" using k by (simp add: kinv_at_def)
  show ?thesis
    using exception k_step_guest_tlb [OF guest_exit_step [OF _ ctl]]
    by (auto simp: general_exception_handler_def split: if_splits)
qed

lemma kernel_steps_good: "kernel_step\<^sup>*\<^sup>* r r' \<Longrightarrow> good rs ms tab r \<Longrightarrow> good rs ms tab r'"
  by (induction rule: rtranclp_induct) (auto intro: kernel_step_good)

lemma kernel_steps_guest_tlb:
  "kernel_step\<^sup>*\<^sup>* r r' \<Longrightarrow> r = Running s \<Longrightarrow> kinv_at rs ms tab s \<Longrightarrow> r' = Running s' \<Longrightarrow>
   guest_tlb_same (mach s) (mach s')"
proof (induction arbitrary: s' rule: rtranclp_induct)
  case (step r1 r2)
  obtain s1 where s1: "r1 = Running s1" using step.hyps(2) step.prems(3) by (cases r1) auto
  have "kinv_at rs ms tab s1" using kernel_steps_good [OF step.hyps(1), of rs ms tab] step.prems s1 by simp
  then show ?case using step s1 kernel_step_guest_tlb [of s1 s'] guest_tlb_same_trans by blast
qed simp

end
