(* ===== verification/Boot.thy ===== *)
theory Boot
  imports KernelInv
begin

text \<open>
  Start-up, \<open>hyper_init\<close>: no virtual machine is created unless every image is authentic, and, on a
  machine with a fresh heap, the boot of authentic images ends in a running kernel that satisfies
  \<open>kinv_at\<close>.
\<close>

subsection \<open>The initialisers keep the kernel's data\<close>

definition b_step :: "kst \<Rightarrow> kst \<Rightarrow> bool" where
  "b_step s s' \<longleftrightarrow> nodes s' = nodes s \<and> vms s' = vms s \<and> vcpus s' = vcpus s \<and>
     vcpu_ready_list s' = vcpu_ready_list s \<and> virtual_machines_list s' = virtual_machines_list s \<and>
     VMCONF s' = VMCONF s \<and> nvm_ctl s' = nvm_ctl s \<and>
     vcpu_executing_nd s' = vcpu_executing_nd s \<and> next_vcpu s' = next_vcpu s \<and>
     last_scheduled s' = last_scheduled s \<and> tick_count s' = tick_count s \<and>
     tlb (mach s') = tlb (mach s) \<and> length (hypercall_table s') = length (hypercall_table s)"

lemma b_step_refl [simp]: "b_step s s"
  by (simp add: b_step_def)

lemma b_step_trans: "b_step s s' \<Longrightarrow> b_step s' s'' \<Longrightarrow> b_step s s''"
  by (simp add: b_step_def)

lemma b_step_upd_mach: "(\<And>h. tlb (f h) = tlb h) \<Longrightarrow> b_step s (upd_mach f s)"
  by (simp add: b_step_def upd_mach_def)

lemma b_step_register_hypercall: "register_hypercall h code s = (r, s') \<Longrightarrow> b_step s s'"
  by (auto simp: register_hypercall_def b_step_def split: if_splits)

lemma b_step_register_interrupt: "register_interrupt ih s = (off, s') \<Longrightarrow> b_step s s'"
proof -
  have "register_interrupt_loop i ih s = (off, s') \<Longrightarrow> b_step s s'" for i
  proof (induction i ih s rule: register_interrupt_loop.induct)
    case (1 i ih s)
    from "1.prems" show ?case
      by (subst (asm) register_interrupt_loop.simps) (auto simp: b_step_def split: if_splits dest: "1.IH" [rotated 2])
  qed
  then show "register_interrupt ih s = (off, s') \<Longrightarrow> b_step s s'" by (simp add: register_interrupt_def)
qed

lemma b_step_register_all: "register_all hs s = (d, s') \<Longrightarrow> b_step s s'"
proof (induction hs s rule: register_all.induct)
  case (2 h code rest s)
  obtain r s1 where r: "register_hypercall h code s = (r, s1)" by fastforce
  note b = b_step_register_hypercall [OF r]
  show ?case
  proof (cases "r <s 0")
    case True
    then show ?thesis using "2.prems" r b by simp
  next
    case False
    then have "b_step s1 s'" using "2.IH" [OF r [symmetric] refl False] "2.prems" r by simp
    with b show ?thesis by (rule b_step_trans)
  qed
qed simp

lemma b_step_fill: "fill_vmconf_p is s = Some s' \<Longrightarrow> b_step s s'"
proof (induction "is" arbitrary: s)
  case (Cons i "is")
  then obtain c where "fill_vmconf_p is (s\<lparr>vmconf_p := (vmconf_p s)[i := Some c]\<rparr>) = Some s'" by auto
  from Cons.IH [OF this] show ?case by (simp add: b_step_def)
qed simp

lemma config_irq_tlb [simp]: "tlb (config_irq irq offset h) = tlb h"
  by (simp add: config_irq_def Let_def)

lemma b_step_redirect_vm: "redirect_vm p off v j n irqs s = Some (n', s') \<Longrightarrow> b_step s s'"
proof (induction irqs arbitrary: j n s)
  case (Cons irq irqs)
  then obtain s1 x where "redirect_vm p off v (Suc j) (n + 1) irqs (upd_mach (config_irq irq off) (s\<lparr>imaps := x\<rparr>))
      = Some (n', s')"
    by (auto simp: Let_def split: if_splits)
  from Cons.IH [OF this] show ?case by (simp add: b_step_def upd_mach_def)
qed simp

lemma b_step_redirect_vms: "redirect_vms p off n is s = Some s' \<Longrightarrow> b_step s s'"
proof (induction "is" arbitrary: n s)
  case (Cons i "is")
  then obtain v c n1 s1 where "redirect_vm p off v 0 n (interrupt_redirect (VMCONF s ! c)) s = Some (n1, s1)"
    "redirect_vms p off n1 is s1 = Some s'" by auto
  then show ?case using Cons.IH b_step_redirect_vm b_step_trans by blast
qed simp

lemma b_step_redirect_init:
  assumes "interrupt_redirect_init s = Some s'"
  shows "b_step s s'"
proof -
  obtain sz where sz: "count_redirects [0..<length (VMCONF s)] (interrupt_mapping_sz s) s = Some sz"
    using assms by (auto simp: interrupt_redirect_init_def Let_def)
  let ?s0 = "s\<lparr>interrupt_mapping_sz := sz\<rparr>"
  obtain off s1 where r1: "register_interrupt I_interrupt_injection ?s0 = (off, s1)" by fastforce
  obtain r s2 where r2: "register_hypercall H_reenable_interrupt HCALL_REENABLE_INTERRUPT s1 = (r, s2)" by fastforce
  have b: "b_step s ?s0" "b_step ?s0 s1" "b_step s1 s2"
    using b_step_register_interrupt [OF r1] b_step_register_hypercall [OF r2] by (simp_all add: b_step_def)
  then have b2: "b_step s s2" by (blast intro: b_step_trans)
  consider "sz = 0" | "0 < sz" "r <s 0" | "0 < sz" "\<not> r <s 0" using word_gt_0 [of sz] by blast
  then show ?thesis
  proof cases
    case 1
    then show ?thesis using assms sz b by (auto simp: interrupt_redirect_init_def Let_def)
  next
    case 2
    then show ?thesis using assms sz b2 r1 r2 by (auto simp: interrupt_redirect_init_def Let_def)
  next
    case 3
    obtain s3 p where m: "k_malloc (sz * SIZEOF_interrupt_mapping) s2 = Some (s3, p)"
      using 3 assms sz r1 r2 by (auto simp: interrupt_redirect_init_def Let_def)
    obtain n s4 where s4: "redirect_vms p off 0 [0..<n] s4 = Some s'"
      "s4 = (if p = NULL then s3\<lparr>interrupt_mapping_list := p\<rparr>
             else s3\<lparr>interrupt_mapping_list := p, imaps := (imaps s3)(p \<mapsto> replicate (unat sz) blank_mapping)\<rparr>)"
      using 3 assms sz r1 r2 m by (cases "p = NULL") (auto simp: interrupt_redirect_init_def Let_def)
    have "b_step s2 s3" using m by (auto simp: k_malloc_def b_step_def)
    moreover have "b_step s3 s4" using s4(2) by (simp add: b_step_def)
    ultimately show ?thesis using b2 b_step_redirect_vms [OF s4(1)] by (blast intro: b_step_trans)
  qed
qed

lemma b_step_run_initcall:
  assumes "run_initcall d s = Some s'"
  shows "b_step s s'"
proof (cases d)
  case D_interrupt_init
  have "tlb (interrupt_init h) = tlb h" for h by (simp add: interrupt_init_def mtc0_def Let_def)
  then show ?thesis using assms D_interrupt_init b_step_upd_mach [of interrupt_init] by auto
next
  case D_sw1_button_interrupt_init
  obtain off s1 where r: "register_interrupt I_sw1_button_handler (upd_mach (sfr_write (SFR_BASE + 0x60158) (push_bit 12 1))
      (upd_mach (sfr_write (SFR_BASE + 0x60118) (push_bit 12 1)) s)) = (off, s1)" by fastforce
  have "b_step s s1" using b_step_register_interrupt [OF r] by (simp add: b_step_def upd_mach_def)
  then show ?thesis
    using assms D_sw1_button_interrupt_init r
    by (auto simp: sw1_button_interrupt_init_def b_step_def upd_mach_def Let_def)
next
  case D_virtual_io_init
  obtain d s1 where r: "register_all [(H_write_address, HCALL_WRITE_ADDRESS), (H_read_address, HCALL_READ_ADDRESS)] s
    = (d, s1)" by fastforce
  show ?thesis
    using assms D_virtual_io_init r b_step_register_all [OF r] b_step_fill b_step_trans
    by (auto simp: virtual_io_init_def simp del: register_all.simps split: if_splits)
next
  case D_interrupt_redirect_init
  then show ?thesis using assms b_step_redirect_init by simp
qed (use assms b_step_register_all [OF surjective_pairing] in \<open>auto simp: intervm_init_def flash_puf_init_def
    vm_update_init_def remote_connection_init_def simp del: register_all.simps\<close>)

lemma b_step_drivers: "drivers_initialization ds s = Some s' \<Longrightarrow> b_step s s'"
proof (induction ds arbitrary: s)
  case (Cons d ds)
  then obtain s1 where "run_initcall d s = Some s1" "drivers_initialization ds s1 = Some s'" by auto
  then show ?case using Cons.IH b_step_run_initcall b_step_trans by blast
qed simp

lemma b_step_start_timer: "b_step s (start_timer s)"
proof -
  obtain off s1 where r: "register_interrupt I_timer_interrupt_handler s = (off, s1)" by fastforce
  show ?thesis
    using b_step_register_interrupt [OF r] r
    by (simp add: start_timer_def b_step_def upd_mach_def Let_def mtc0_def enableIE_def mfc0_count_def)
qed


subsection \<open>The heap at start-up\<close>

definition heap_room :: "u32 \<Rightarrow> u32 \<Rightarrow> nat \<Rightarrow> bool" where
  "heap_room heap_start heap_size r \<longleftrightarrow>
     (let start = (heap_start + 8) AND 0xFFFFFFFC; len = (heap_size - 8) AND 0xFFFFFFFC
      in start \<noteq> 0 \<and> unat start + unat len + 8 < 2 ^ 32 \<and> r \<le> unat len div 8)"

lemma init_mem_ok:
  assumes "freep h = NULL" and "heap_room hs sz r"
  shows "\<exists>r'. heap_inv {} (init_mem h hs sz) r' \<and> r \<le> r'"
proof -
  let ?start = "(hs + 8) AND 0xFFFFFFFC" and ?len = "(sz - 8) AND 0xFFFFFFFC"
  let ?n = "(?len + HDR_SZ - 1) div HDR_SZ"
  have a: "?start \<noteq> NULL" "unat ?start + unat ?len + 8 < 2 ^ 32" "r \<le> unat ?len div 8"
    using assms(2) by (simp_all add: heap_room_def Let_def)
  have "arena (init_mem h hs sz) ?start ?n"
    unfolding init_mem_def by (rule arena_HeapInit [OF assms(1) a(1)])
  moreover have n: "unat ?n = (unat ?len + 7) div 8"
  proof -
    have e: "?len + HDR_SZ - 1 = ?len + 7" by (simp add: HDR_SZ_def)
    have u: "unat (?len + 7) = unat ?len + 7" using a(2) by (subst unat_add_small) simp_all
    have "unat ?n = unat (?len + 7) div unat HDR_SZ" unfolding e by (rule unat_div)
    also have "\<dots> = (unat ?len + 7) div 8" unfolding u by (simp add: HDR_SZ_def)
    finally show ?thesis .
  qed
  moreover have "unat ?start + 8 * ((unat ?len + 7) div 8) < 2 ^ 32" using a(2) by linarith
  moreover have "(unat ?len + 7) div 8 < 2 ^ 29" using a(2) by (intro less_mult_imp_div_less) simp
  moreover have "r \<le> (unat ?len + 7) div 8"
    using a(3) div_le_mono [of "unat ?len" "unat ?len + 7" 8] by linarith
  ultimately show ?thesis unfolding heap_inv_def by (intro exI [of _ "unat ?n"]) auto
qed

subsection \<open>Verified boot\<close>

text \<open>The state the start-up code leaves: zeroed variables, an empty heap, no TLB entry of the hypervisor;
  between one and fifteen virtual machines, each with at most sixteen TLB entries.\<close>

definition cold :: "kst \<Rightarrow> bool" where
  "cold s \<longleftrightarrow> freep (heap s) = NULL \<and> live s = {} \<and> no_root (mach s) \<and> st_vm_id s = 1 \<and> st_vcpu_id s = 1 \<and>
     last_scheduled s = NULL \<and> vcpu_executing_nd s = NULL \<and> next_vcpu s = NULL \<and> tick_count s = 0 \<and>
     length (hypercall_table s) = 30 \<and> VMCONF s \<noteq> [] \<and> length (VMCONF s) \<le> 15 \<and>
     (\<forall>c\<in>set (VMCONF s). length (cf_tlb c) \<le> 16) \<and> (\<forall>h. m_keep h (nvm_ctl s h))"

text \<open>The check of the image returns; and, what is enough for that: the image can be read, and the second number of its
  signature, if it is in range, has an inverse modulo the order. (The order is prime, so that it always has one.)\<close>

definition image_decided :: "kst \<Rightarrow> vmconf_t \<Rightarrow> bool" where
  "image_decided s c \<longleftrightarrow> (\<exists>key sg hash v. image_key s c = Some key \<and> image_sig s c = Some sg \<and> image_hash s c = Some hash \<and>
     uECC_verify key hash SHA256_BLOCK_SIZE sg uECC_secp256k1 = Some v)"

definition image_readable :: "kst \<Rightarrow> vmconf_t \<Rightarrow> bool" where
  "image_readable s c \<longleftrightarrow> image_key s c \<noteq> None \<and> image_hash s c \<noteq> None \<and>
     (\<exists>sg. image_sig s c = Some sg \<and> (sig_s sg = 0 \<or> N_VAL \<le> sig_s sg \<or> coprime (sig_s sg) N_VAL))"

lemma authentic_decided: "image_authentic s c \<Longrightarrow> image_decided s c"
  by (auto simp: image_authentic_def image_decided_def image_hash_spec)

lemma read_bytes_length: "read_bytes h va n = Some bs \<Longrightarrow> length bs = n"
  by (induction n arbitrary: va bs) (auto split: option.splits bind_splits)

lemma readable_decided:
  assumes "image_readable s c"
  shows "image_decided s c"
proof -
  obtain key hash sg where k: "image_key s c = Some key" "image_hash s c = Some hash" "image_sig s c = Some sg"
    and s: "sig_s sg = 0 \<or> N_VAL \<le> sig_s sg \<or> coprime (sig_s sg) N_VAL" using assms by (auto simp: image_readable_def)
  have l: "length key = 64" "length sg = 64" "length hash = 32"
    using k by (auto simp: image_key_def image_sig_def image_hash_spec length_sha256_spec dest: read_bytes_length)
  have "\<exists>v. uECC_verify key hash 32 sg curve_secp256k1 = Some v"
    using s verify_out_of_range [OF l(2)] verify_returns [OF l(1,2), of 32 hash] l(3) by auto
  then show ?thesis using k by (auto simp: image_decided_def uECC_secp256k1_def)
qed

lemma platform_keeps [simp]:
  "tlb (early_platform_init h) = tlb h" "ram (early_platform_init h) = ram h"
  by (simp_all add: early_platform_init_def init_uart_def Let_def)

lemma LowLevelProcInit_keeps:
  "LowLevelProcInit h = (err, h') \<Longrightarrow> tlb h' = tlb h \<and> ram h' = ram h"
  by (auto simp: LowLevelProcInit_def Disable1KPageSupport_def ConfigureGPRShadow_def setGTOffset_def mtc0_def Let_def
      split: if_splits)

lemma isVmTrust_loop_total:
  "(\<forall>c\<in>set cs. image_decided s c) \<Longrightarrow>
   \<exists>r h. isVmTrust_loop cs s = Some (r, s\<lparr>mach := h\<rparr>) \<and> tlb h = tlb (mach s) \<and> ram h = ram (mach s)"
proof (induction cs arbitrary: s)
  case Nil
  then show ?case by (intro exI [of _ 1] exI [of _ "mach s"]) simp
next
  case (Cons c cs)
  obtain key sg hash v where k: "image_key s c = Some key" "image_sig s c = Some sg" "image_hash s c = Some hash"
    "uECC_verify key hash SHA256_BLOCK_SIZE sg uECC_secp256k1 = Some v"
    using Cons.prems by (auto simp: image_decided_def)
  have tc: "\<exists>h. tick_count_reads n s' = s\<lparr>mach := h\<rparr> \<and> tlb h = tlb (mach s) \<and> ram h = ram (mach s)"
    if "\<exists>h. s' = s\<lparr>mach := h\<rparr> \<and> tlb h = tlb (mach s) \<and> ram h = ram (mach s)" for n s'
    using that tick_count_reads_mach [of n s'] by auto
  have s0: "\<exists>h. s = s\<lparr>mach := h\<rparr> \<and> tlb h = tlb (mach s) \<and> ram h = ram (mach s)"
    by (intro exI [of _ "mach s"]) simp
  let ?s2 = "tick_count_reads 1 (tick_count_reads 1 s)"
  let ?s7 = "tick_count_reads 1 (tick_count_reads 2 (tick_count_reads 1 (tick_count_reads 1 ?s2)))"
  obtain h7 where h7: "?s7 = s\<lparr>mach := h7\<rparr>" "tlb h7 = tlb (mach s)" "ram h7 = ram (mach s)"
    using tc [OF tc [OF tc [OF tc [OF tc [OF tc [OF s0]]]]]] by blast
  have "\<forall>c\<in>set cs. image_decided ?s7 c" using Cons.prems by (simp add: image_decided_def)
  then obtain r h where "isVmTrust_loop cs ?s7 = Some (r, ?s7\<lparr>mach := h\<rparr>)" "tlb h = tlb (mach ?s7)"
    "ram h = ram (mach ?s7)" using Cons.IH by blast
  then have rec: "isVmTrust_loop cs ?s7 = Some (r, s\<lparr>mach := h\<rparr>)" "tlb h = tlb (mach s)" "ram h = ram (mach s)"
    using h7 by simp_all
  show ?case
    using k rec tc [OF tc [OF s0]] tc [OF tc [OF tc [OF tc [OF tc [OF s0]]]]]
    by (auto simp: Let_def)
qed

lemma image_authentic_heap [simp]:
  "image_authentic (s\<lparr>mach := h, heap := k\<rparr>) c = image_authentic (s\<lparr>mach := h\<rparr>) c"
  "image_decided (s\<lparr>mach := h, heap := k\<rparr>) c = image_decided (s\<lparr>mach := h\<rparr>) c"
  by (simp_all add: image_authentic_def image_decided_def image_key_def image_sig_def image_hash_def)

text \<open>\<open>hyper_init\<close> up to the check of the images.\<close>

lemma hyper_init_eq:
  fixes s :: kst and hs sz :: u32
  assumes "LowLevelProcInit (early_platform_init (mach s)) = (0, h)"
  defines "s2 \<equiv> s\<lparr>mach := h, heap := init_mem (heap s) hs sz\<rparr>"
  shows "hyper_init hs sz ds s = do {
     (trusted, s) \<leftarrow> isVmTrust s2;
     if trusted = 0 then Some (Halted s)
     else do {
       s \<leftarrow> initializeMachines s;
       s \<leftarrow> drivers_initialization ds s;
       Some (Running (start_timer s)) } }"
    and "image_authentic s2 c = image_authentic s c" and "image_decided s2 c = image_decided s c"
    and "tlb (mach s2) = tlb (mach s)"
proof -
  have h: "tlb h = tlb (mach s)" "ram h = ram (mach s)"
    using LowLevelProcInit_keeps [OF assms(1)] by simp_all
  note c = image_mach_cong [OF h]
  show "hyper_init hs sz ds s = do {
     (trusted, s) \<leftarrow> isVmTrust s2;
     if trusted = 0 then Some (Halted s)
     else do {
       s \<leftarrow> initializeMachines s;
       s \<leftarrow> drivers_initialization ds s;
       Some (Running (start_timer s)) } }"
    using assms(1) by (simp add: hyper_init_def s2_def upd_mach_def Let_def)
  show "image_authentic s2 c = image_authentic s c" unfolding s2_def image_authentic_heap by (rule c)
  show "image_decided s2 c = image_decided s c" unfolding s2_def image_authentic_heap by (simp add: image_decided_def c)
  show "tlb (mach s2) = tlb (mach s)" by (simp add: s2_def h)
qed

lemma hyper_init_halted:
  assumes "hyper_init hs sz ds s = Some (Running s')"
  obtains h where "LowLevelProcInit (early_platform_init (mach s)) = (0, h)"
proof -
  obtain err h where e: "LowLevelProcInit (early_platform_init (mach s)) = (err, h)" by fastforce
  have "err = 0" using assms e by (auto simp: hyper_init_def upd_mach_def Let_def split: if_splits)
  with e that show thesis by simp
qed

lemma boot_authentic:
  assumes "hyper_init hs sz ds s = Some (Running s')" and "c \<in> set (VMCONF s)"
  shows "image_authentic s c"
proof -
  obtain h where h: "LowLevelProcInit (early_platform_init (mach s)) = (0, h)"
    using hyper_init_halted [OF assms(1)] .
  note eq = hyper_init_eq [OF h, of hs sz]
  let ?s2 = "s\<lparr>mach := h, heap := init_mem (heap s) hs sz\<rparr>"
  obtain r s3 where "isVmTrust ?s2 = Some (r, s3)" "r \<noteq> 0"
    using assms(1) unfolding eq(1) by (auto split: if_splits)
  then have "\<forall>c\<in>set (VMCONF s). image_authentic ?s2 c"
    using isVmTrust_loop_authentic [of "VMCONF s" ?s2 r s3] by (auto simp: isVmTrust_def)
  then show ?thesis using assms(2) eq(2) by blast
qed

lemma boot_rejects:
  assumes h: "LowLevelProcInit (early_platform_init (mach s)) = (0, h)"
    and r: "\<forall>c\<in>set (VMCONF s). image_readable s c" and n: "c \<in> set (VMCONF s)" "\<not> image_authentic s c"
  shows "\<exists>s'. hyper_init hs sz ds s = Some (Halted s') \<and> vms s' = vms s \<and> vcpus s' = vcpus s"
proof -
  note eq = hyper_init_eq [OF h, of hs sz]
  let ?s2 = "s\<lparr>mach := h, heap := init_mem (heap s) hs sz\<rparr>"
  have "\<forall>c\<in>set (VMCONF s). image_decided ?s2 c" using r eq(3) readable_decided by blast
  from isVmTrust_loop_total [OF this] obtain t k where t: "isVmTrust_loop (VMCONF s) ?s2 = Some (t, ?s2\<lparr>mach := k\<rparr>)"
    by blast
  have "t = 0" using isVmTrust_loop_authentic [OF t] n eq(2) [of c] by auto
  then show ?thesis using t unfolding eq(1) by (simp add: isVmTrust_def)
qed

subsection \<open>A running kernel\<close>

lemma kinv_at_boot:
  assumes b: "boot_inv s L r rs ms tab" and "tab \<noteq> []" "length tab = length (VMCONF s)" "length tab \<le> 15"
    "last_scheduled s = NULL" "vcpu_executing_nd s = NULL" "next_vcpu s = NULL" "tick_count s = 0"
    "length (hypercall_table s) = 30" "\<forall>h. m_keep h (nvm_ctl s h)"
  shows "kinv_at rs ms tab s"
proof -
  have "root_free (mach s) 15" using b by (auto simp: boot_inv_def no_root_def root_free_def)
  then show ?thesis using assms by (simp add: kinv_at_def boot_inv_def bank_ok_def)
qed

lemma kinv_at_b_step:
  assumes k: "kinv_at rs ms tab s" and b: "b_step s s'" and "vcpu_executing_nd s = NULL"
  shows "kinv_at rs ms tab s'"
proof -
  have "kdata s' rs ms tab" using k b by (simp add: kinv_at_def kdata_def vm_entry_def b_step_def)
  moreover have "bank_ok s'" using b assms(3) by (simp add: bank_ok_def b_step_def)
  ultimately show ?thesis
    using k b assms(3) by (simp add: kinv_at_def b_step_def vcpu_node_def root_free_def)
qed

lemma boot_kinv:
  assumes c: "cold s" and hp: "heap_room hs sz r" and room: "CREATE_COST * length (VMCONF s) < r"
    and ll: "LowLevelProcInit (early_platform_init (mach s)) = (0, h)"
    and au: "\<forall>c\<in>set (VMCONF s). image_authentic s c"
  shows "\<exists>s3 rs ms tab. kinv_at rs ms tab s3 \<and> length tab = length (VMCONF s) \<and> vcpu_executing_nd s3 = NULL \<and>
    VMCONF s3 = VMCONF s \<and> hypercall_table s3 = hypercall_table s \<and>
    hyper_init hs sz ds s = map_option (\<lambda>s. Running (start_timer s)) (drivers_initialization ds s3)"
proof -
  note eq = hyper_init_eq [OF ll, of hs sz]
  let ?s2 = "s\<lparr>mach := h, heap := init_mem (heap s) hs sz\<rparr>"
  have au2: "\<forall>c\<in>set (VMCONF s). image_authentic ?s2 c" using au eq(2) by blast
  then have "\<forall>c\<in>set (VMCONF s). image_decided ?s2 c" using authentic_decided by blast
  from isVmTrust_loop_total [OF this] obtain t k where t: "isVmTrust_loop (VMCONF s) ?s2 = Some (t, ?s2\<lparr>mach := k\<rparr>)"
    "tlb k = tlb (mach ?s2)" by blast
  have t1: "t = 1" using isVmTrust_loop_authentic [OF t(1)] au2 by simp
  let ?s3 = "?s2\<lparr>mach := k\<rparr>"
  obtain r' where r': "heap_inv {} (heap ?s3) r'" "r \<le> r'"
    using init_mem_ok [OF _ hp, of "heap s"] c by (auto simp: cold_def)
  have fr: "fresh_kst ?s3 r'"
    using c r'(1) t(2) eq(4) by (simp add: fresh_kst_def cold_def live_def no_root_def)
  obtain s4 L r4 rs ms tab where s4: "initializeMachines ?s3 = Some s4" "boot_inv s4 L r4 rs ms tab"
    "length tab = length (VMCONF ?s3)" "VMCONF s4 = VMCONF ?s3" "last_scheduled s4 = NULL"
    "vcpu_executing_nd s4 = NULL" "next_vcpu s4 = NULL" "hypercall_table s4 = hypercall_table ?s3"
    "tick_count s4 = tick_count ?s3" "nvm_ctl s4 = nvm_ctl ?s3"
    using initializeMachines_ok [OF fr] c r'(2) room by (auto simp: cold_def)
  have "kinv_at rs ms tab s4"
    by (rule kinv_at_boot [OF s4(2)]) (use s4 c in \<open>auto simp: cold_def\<close>)
  moreover have "hyper_init hs sz ds s = map_option (\<lambda>s. Running (start_timer s)) (drivers_initialization ds s4)"
    unfolding eq(1) using t(1) t1 s4(1) by (cases "drivers_initialization ds s4") (simp_all add: isVmTrust_def)
  ultimately show ?thesis using s4(3,4,6,8) by (intro exI [of _ s4] exI [of _ rs] exI [of _ ms] exI [of _ tab]) simp
qed

lemma boot_reaches_kinv:
  assumes "cold s" and "heap_room hs sz r" and "CREATE_COST * length (VMCONF s) < r"
    and run: "hyper_init hs sz ds s = Some (Running s')"
  shows "\<exists>rs ms tab. kinv_at rs ms tab s' \<and> length tab = length (VMCONF s)"
proof -
  obtain h where ll: "LowLevelProcInit (early_platform_init (mach s)) = (0, h)"
    using hyper_init_halted [OF run] .
  obtain s3 rs ms tab where s3: "kinv_at rs ms tab s3" "length tab = length (VMCONF s)" "vcpu_executing_nd s3 = NULL"
    "hyper_init hs sz ds s = map_option (\<lambda>s. Running (start_timer s)) (drivers_initialization ds s3)"
    using boot_kinv [OF assms(1-3) ll] boot_authentic [OF run] by blast
  then obtain s4 where s4: "drivers_initialization ds s3 = Some s4" "s' = start_timer s4"
    using run by (cases "drivers_initialization ds s3") auto
  have "b_step s3 s'" unfolding s4(2) by (rule b_step_trans [OF b_step_drivers [OF s4(1)] b_step_start_timer])
  then show ?thesis using kinv_at_b_step [OF s3(1) _ s3(3)] s3(2) by blast
qed

end
