(* ===== verification/Ipc.thy ===== *)
theory Ipc
  imports Boot
begin

text \<open>
  What the inter-VM hypercalls do in the running kernel. \<open>vm_of tab vid\<close> is the VCPU of the virtual machine
  with id \<open>vid\<close>; \<open>runs s i\<close> says that virtual machine number \<open>i\<close> is in execution. A message that is sent
  arrives at the end of the target's queue with the bytes of the sender's RAM; a message that is received
  is the first of the queue and its bytes are stored at the physical address that the receiver chose.
\<close>

subsection \<open>Identities in the running kernel\<close>

definition vm_of :: "(ptr \<times> ptr) list \<Rightarrow> u32 \<Rightarrow> ptr" where
  "vm_of tab vid = (if 1 \<le> unat vid \<and> unat vid \<le> length tab then snd (tab ! (unat vid - 1)) else NULL)"

definition runs :: "kst \<Rightarrow> (ptr \<times> ptr) list \<Rightarrow> nat \<Rightarrow> bool" where
  "runs s tab i \<longleftrightarrow> vcpu_executing_nd s \<noteq> NULL \<and> i < length tab \<and> vcpu_executing s = Some (snd (tab ! i))"

lemma map_of_ids:
  "length xs + k < 2 ^ 32 \<Longrightarrow>
   map_of (zip (map (\<lambda>i. of_nat (i + 1)) [k..<k + length xs]) xs) (vid :: u32) =
     (if k < unat vid \<and> unat vid \<le> k + length xs then Some (xs ! (unat vid - k - 1)) else None)"
proof (induction xs arbitrary: k)
  case (Cons x xs)
  have e: "[k..<k + length (x # xs)] = k # [Suc k..<Suc k + length xs]"
    by (simp add: upt_conv_Cons del: upt_Suc)
  have u: "of_nat (k + 1) = vid \<longleftrightarrow> unat vid = k + 1"
  proof -
    have "unat (of_nat (k + 1) :: u32) = k + 1" using Cons.prems by (intro unat_of_nat_small) simp
    then show ?thesis by (auto simp: word_unat_eq_iff)
  qed
  have IH: "map_of (zip (map (\<lambda>i. of_nat (i + 1)) [Suc k..<Suc k + length xs]) xs) vid =
     (if Suc k < unat vid \<and> unat vid \<le> Suc k + length xs then Some (xs ! (unat vid - Suc k - 1)) else None)"
    using Cons.prems by (intro Cons.IH) simp
  have nt: "Suc k < unat vid \<Longrightarrow> (x # xs) ! (unat vid - k - 1) = xs ! (unat vid - Suc k - 1)"
    by (subst nth_Cons_pos) auto
  show ?case unfolding e using u IH nt by (auto simp: not_less split: if_splits)
qed simp

lemma kdata_get_vcpu:
  assumes kd: "kdata s rs ms tab" and len: "length tab \<le> 15"
  shows "get_vcpu_from_id s vid = Some (vm_of tab vid)"
proof -
  have ch: "chain (nodes s) (virtual_machines_list s) ms" and e: "elems (nodes s) ms = map fst tab"
    and ve: "\<And>i. i < length tab \<Longrightarrow> vm_entry s i (fst (tab ! i)) (snd (tab ! i))"
    using kd by (auto simp: kdata_def)
  let ?ids = "zip (map (\<lambda>i. of_nat (i + 1)) [0..<length tab]) (map snd tab) :: (u32 \<times> ptr) list"
  have l: "length ms = length tab" using e by (metis elems_def length_map)
  have "machines s ms ?ids"
    unfolding machines_def list_all2_conv_all_nth
  proof (intro conjI allI impI)
    fix i assume i: "i < length ms"
    have "ms ! i \<in> dom (nodes s)" using chain_dom [OF ch] i by (meson nth_mem subsetD)
    then obtain n where n: "nodes s (ms ! i) = Some n" by blast
    have "elems (nodes s) ms ! i = fst (tab ! i)" using e i l by simp
    then have "elem n = fst (tab ! i)" using i n by (simp add: elems_def)
    then show "case ?ids ! i of (vid, v) \<Rightarrow> \<exists>n vm m. nodes s (ms ! i) = Some n \<and> vms s (elem n) = Some vm \<and>
     vm_id vm = vid \<and> nodes s (vm_vcpus vm) = Some m \<and> elem m = v"
      using ve [of i] i l n by (auto simp: vm_entry_def)
  qed (simp add: l)
  from get_vcpu_from_id_machines [OF ch this]
  have "get_vcpu_from_id s vid = Some (case map_of ?ids vid of Some v \<Rightarrow> v | None \<Rightarrow> NULL)" .
  then show ?thesis
    using map_of_ids [of "map snd tab" 0 vid] len by (auto simp: vm_of_def)
qed

lemma vm_of_entry:
  assumes "kdata s rs ms tab" and "i < length tab" and "length tab \<le> 15"
  obtains vm vc where "vms s (fst (tab ! i)) = Some vm" "vcpus s (snd (tab ! i)) = Some vc" "snd (tab ! i) \<noteq> NULL"
    "vm_id vm = of_nat (i + 1)" "base_addr vm = ram_base (VMCONF s ! i)" "vcpu_id vc = of_nat (i + 1)"
    "vmconf vm = i" "vcpu_vm vc = fst (tab ! i)" "msg_buf_ok (messages vc)" "vm_of tab (of_nat (i + 1)) = snd (tab ! i)"
proof -
  have "vm_entry s i (fst (tab ! i)) (snd (tab ! i))" using assms(1,2) by (auto simp: kdata_def)
  moreover have "vm_of tab (of_nat (i + 1)) = snd (tab ! i)"
  proof -
    have "unat (of_nat (i + 1) :: u32) = i + 1" using assms(2,3) by (intro unat_of_nat_small) simp
    then show ?thesis using assms(2) by (simp add: vm_of_def del: of_nat_add of_nat_Suc)
  qed
  ultimately show thesis using that unfolding vm_entry_def by blast
qed

lemma runs_vm:
  assumes "kinv_at rs ms tab s" and "runs s tab i"
  shows "vm_executing s = Some (fst (tab ! i))" and "vcpu_executing s = Some (snd (tab ! i))"
proof -
  have "kdata s rs ms tab" "i < length tab" "length tab \<le> 15" using assms by (auto simp: kinv_at_def runs_def)
  from vm_of_entry [OF this] obtain vc where "vcpus s (snd (tab ! i)) = Some vc" "vcpu_vm vc = fst (tab ! i)" by blast
  then show "vm_executing s = Some (fst (tab ! i))" and "vcpu_executing s = Some (snd (tab ! i))"
    using assms(2) by (simp_all add: vm_executing_def runs_def)
qed

lemma kinv_at_runs: "kinv_at rs ms tab s \<Longrightarrow> vcpu_executing_nd s \<noteq> NULL \<Longrightarrow> \<exists>i. runs s tab i"
proof -
  assume "kinv_at rs ms tab s" "vcpu_executing_nd s \<noteq> NULL"
  then obtain n where n: "nodes s (vcpu_executing_nd s) = Some n" "elem n \<in> set (map snd tab)"
    "vcpu_executing_nd s \<noteq> NULL"
    by (auto simp: kinv_at_def vcpu_node_def)
  then obtain i where "i < length tab" "elem n = snd (tab ! i)" by (auto simp: in_set_conv_nth)
  with n show ?thesis by (auto simp: runs_def vcpu_executing_def)
qed

subsection \<open>Buffers of a guest\<close>

lemma copy_from_guest_ok:
  assumes rf: "root_free (mach s) 15" and mp: "mappable base a n"
  shows "\<exists>h. copy_from_guest a base n n s = Some (bytes_at (ram (mach s)) (guest_phys base a) (unat n), s\<lparr>mach := h\<rparr>)
    \<and> m_keep (mach s) h \<and> ram h = ram (mach s)"
proof -
  obtain va h where ce: "tlbCreateEntry a base n 15 CACHEABLE (mach s) = (va, h)" by fastforce
  have r: "ram h = ram (mach s)" using ce by (auto simp: tlbCreateEntry_def Let_def)
  have "read_bytes h va (unat n) = Some (bytes_at (ram h) (guest_phys base a) (unat n))"
    by (rule read_bytes_translate) (rule create_entry_translates [OF mp _ rf _ ce], simp_all)
  then show ?thesis using ce r m_keep_tlbCreateEntry [OF ce]
    by (intro exI [of _ h]) (simp add: copy_from_guest_def)
qed

lemma copy_to_guest_ok:
  assumes rf: "root_free (mach s) 15" and mp: "mappable base a (of_nat (length bs))" and len: "length bs < 2 ^ 32"
  shows "\<exists>h. copy_to_guest a base (of_nat (length bs)) bs s = Some (s\<lparr>mach := h\<rparr>)
    \<and> m_keep (mach s) h \<and> gpr h = gpr (mach s) \<and> ram h = store_bytes (ram (mach s)) (guest_phys base a) bs"
proof -
  let ?n = "of_nat (length bs) :: u32"
  have n: "unat ?n = length bs" using len by (intro unat_of_nat_small) simp
  obtain va h where ce: "tlbCreateEntry a base ?n 15 CACHEABLE (mach s) = (va, h)" by fastforce
  have r: "ram h = ram (mach s)" "gpr h = gpr (mach s)" using ce by (auto simp: tlbCreateEntry_def Let_def)
  let ?h = "h\<lparr>ram := store_bytes (ram h) (guest_phys base a) bs\<rparr>"
  have w: "write_bytes va bs h = Some ?h"
    by (rule write_bytes_translate) (rule create_entry_translates [OF mp _ rf _ ce], simp_all only: n, simp_all)
  have "m_keep (mach s) ?h"
    by (rule m_keep_trans [OF m_keep_tlbCreateEntry [OF ce] m_keep_write_bytes [OF w]])
  then show ?thesis using ce w r by (intro exI [of _ ?h]) (simp add: copy_to_guest_def)
qed


subsection \<open>Sending and receiving\<close>

lemma intervm_send_ok:
  assumes k: "kinv_at rs ms tab s" and i: "runs s tab i" and j: "j < length tab"
    and to: "guest_reg s REG_A0 = of_nat (j + 1)" and sz: "guest_reg s REG_A2 \<le> MESSAGE_SZ"
    and up: "\<forall>vc. vcpus s (snd (tab ! j)) = Some vc \<longrightarrow> vcpu_init vc = 0 \<and> num_messages (messages vc) < MESSAGELIST_SZ"
    and mp: "mappable (ram_base (VMCONF s ! i)) (guest_reg s REG_A1) (guest_reg s REG_A2)"
  shows "\<exists>s' vc vc'. intervm_send_msg s = Some s' \<and> kinv_at rs ms tab s' \<and>
    vcpus s (snd (tab ! j)) = Some vc \<and> vcpus s' = (vcpus s)(snd (tab ! j) \<mapsto> vc') \<and>
    msg_contents (messages vc') = msg_contents (messages vc) @
      [(of_nat (i + 1), bytes_at (ram (mach s)) (guest_phys (ram_base (VMCONF s ! i)) (guest_reg s REG_A1))
        (unat (guest_reg s REG_A2)))] \<and>
    guestclt2 vc' = guestclt2 vc OR push_bit GUESTCLT2_GRIPL_SHIFT GUEST_INTERVM_INT \<and>
    guest_reg s' REG_V0 = guest_reg s REG_A2"
proof -
  let ?sz = "guest_reg s REG_A2" and ?v = "snd (tab ! j)" and ?base = "ram_base (VMCONF s ! i)"
  have kd: "kdata s rs ms tab" "length tab \<le> 15" "root_free (mach s) 15"
    "\<forall>h. m_keep h (nvm_ctl s h)" using k by (simp_all add: kinv_at_def)
  have il: "i < length tab" using i by (simp add: runs_def)
  obtain vm where vm: "vms s (fst (tab ! i)) = Some vm" "vm_id vm = of_nat (i + 1)" "base_addr vm = ?base"
    using vm_of_entry [OF kd(1) il kd(2)] by metis
  obtain vc where vc: "vcpus s ?v = Some vc" "?v \<noteq> NULL" "msg_buf_ok (messages vc)" "vm_of tab (of_nat (j + 1)) = ?v"
    using vm_of_entry [OF kd(1) j kd(2)] by metis
  have u: "vcpu_init vc = 0" "num_messages (messages vc) < MESSAGELIST_SZ" using up vc(1) by auto
  let ?bs = "bytes_at (ram (mach s)) (guest_phys ?base (guest_reg s REG_A1)) (unat ?sz)"
  obtain h where c: "copy_from_guest (guest_reg s REG_A1) ?base ?sz ?sz s = Some (?bs, s\<lparr>mach := h\<rparr>)"
    using copy_from_guest_ok [OF kd(3) mp] by blast
  have len: "length ?bs = unat ?sz" "unat ?sz \<le> 255" "unat (num_messages (messages vc)) < 5"
    using sz u(2) by (simp_all add: word_le_nat_alt word_less_nat_alt MESSAGE_SZ_def MESSAGELIST_SZ_def)
  obtain b where b: "msg_put (of_nat (i + 1)) ?sz ?bs (messages vc) = Some b"
    "msg_contents b = msg_contents (messages vc) @ [(of_nat (i + 1), ?bs)]"
    using ring_put_ok [OF vc(3), of ?bs "of_nat (i + 1)"] len by (simp only: len(1)) (auto simp: )
  let ?vc = "post_intervm (vc\<lparr>messages := b\<rparr>)"
  let ?s = "set_V0 ?sz (s\<lparr>mach := h, vcpus := (vcpus s)(?v \<mapsto> ?vc)\<rparr>)"
  have nf: "num_messages (messages vc) \<noteq> MESSAGELIST_SZ" using u(2) by auto
  have "get_vcpu_from_id s (guest_reg s REG_A0) = Some ?v" using kdata_get_vcpu [OF kd(1,2)] to vc(4) by simp
  then have run: "intervm_send_msg s = Some ?s"
    using sz vc u(1) nf runs_vm(1) [OF k i] vm c b(1)
    by (simp add: intervm_send_msg_def upd_vcpu_def Let_def)
  then have "kinv_at rs ms tab ?s" using kinv_at_step [OF k intervm_send_step] by blast
  moreover have "guest_reg ?s REG_V0 = ?sz"
    by (simp add: upd_mach_def MoveFromPreviousGuestGPR_def MoveToPreviousGuestGPR_def prev_set_def)
  ultimately show ?thesis using run vc(1) b(2)
    by (intro exI [of _ ?s] exI [of _ vc] exI [of _ ?vc]) (simp add: upd_mach_def post_intervm_def)
qed

lemma intervm_recv_ok:
  assumes k: "kinv_at rs ms tab s" and i: "runs s tab i" and vc: "vcpus s (snd (tab ! i)) = Some vc"
    and q: "msg_contents (messages vc) = (src, bs) # rest"
    and mp: "mappable (ram_base (VMCONF s ! i)) (guest_reg s REG_A0) (of_nat (length bs))"
  shows "\<exists>s' vc'. intervm_recv_msg s = Some s' \<and> kinv_at rs ms tab s' \<and>
    vcpus s' = (vcpus s)(snd (tab ! i) \<mapsto> vc') \<and> msg_contents (messages vc') = rest \<and>
    ram (mach s') = store_bytes (ram (mach s)) (guest_phys (ram_base (VMCONF s ! i)) (guest_reg s REG_A0)) bs \<and>
    guest_reg s' REG_V0 = of_nat (length bs) \<and> guest_reg s' REG_A0 = src"
proof -
  let ?v = "snd (tab ! i)" and ?base = "ram_base (VMCONF s ! i)"
  have kd: "kdata s rs ms tab" "length tab \<le> 15" "root_free (mach s) 15" using k by (simp_all add: kinv_at_def)
  have il: "i < length tab" using i by (simp add: runs_def)
  obtain vm where vm: "vms s (fst (tab ! i)) = Some vm" "base_addr vm = ?base" "msg_buf_ok (messages vc)"
    using vm_of_entry [OF kd(1) il kd(2)] vc by (metis option.inject)
  have ne: "num_messages (messages vc) \<noteq> 0" using q length_msg_contents [of "messages vc"] by auto
  note g = ring_get_ok [OF vm(3) ne]
  have pk: "msg_peek (messages vc) = Some (src, bs)" using g q by simp
  have len: "length bs < 2 ^ 32"
  proof -
    have "unat (msg_size (message_list (messages vc) ! unat (msg_out (messages vc)))) < 2 ^ 32" by (rule unat_lt32)
    then show ?thesis using pk by (auto simp: msg_peek_def Let_def split: if_splits)
  qed
  obtain h where h: "copy_to_guest (guest_reg s REG_A0) ?base (of_nat (length bs)) bs s = Some (s\<lparr>mach := h\<rparr>)"
    "ram h = store_bytes (ram (mach s)) (guest_phys ?base (guest_reg s REG_A0)) bs"
    using copy_to_guest_ok [OF kd(3) mp len] by blast
  let ?vc = "vc\<lparr>messages := msg_drop (messages vc)\<rparr>"
  let ?s = "upd_mach (MoveToPreviousGuestGPR REG_A0 src) (set_V0 (of_nat (length bs)) (s\<lparr>mach := h\<rparr>))"
  let ?s' = "?s\<lparr>vcpus := (vcpus s)(?v \<mapsto> ?vc)\<rparr>"
  have run: "intervm_recv_msg s = Some ?s'"
    using runs_vm [OF k i] vc ne pk vm h(1)
    by (simp add: intervm_recv_msg_def upd_vcpu_def upd_mach_def Let_def)
  then have "kinv_at rs ms tab ?s'" using kinv_at_step [OF k intervm_recv_step] by blast
  moreover have "guest_reg ?s' REG_V0 = of_nat (length bs)" "guest_reg ?s' REG_A0 = src" "ram (mach ?s') = ram h"
    by (simp_all add: upd_mach_def MoveFromPreviousGuestGPR_def MoveToPreviousGuestGPR_def prev_set_def)
  ultimately show ?thesis using run g q h(2) by (intro exI [of _ ?s'] exI [of _ ?vc]) simp
qed

text \<open>The result codes of a send that stores nothing.\<close>

lemma intervm_send_refused:
  assumes k: "kinv_at rs ms tab s"
  defines "v \<equiv> vm_of tab (guest_reg s REG_A0)"
  shows "MESSAGE_SZ < guest_reg s REG_A2 \<Longrightarrow> intervm_send_msg s = Some (set_V0 MESSAGE_TOO_BIG s)"
    and "guest_reg s REG_A2 \<le> MESSAGE_SZ \<Longrightarrow> v = NULL \<Longrightarrow>
      intervm_send_msg s = Some (set_V0 MESSAGE_VCPU_NOT_FOUND s)"
    and "guest_reg s REG_A2 \<le> MESSAGE_SZ \<Longrightarrow> v \<noteq> NULL \<Longrightarrow> vcpus s v = Some vc \<Longrightarrow> vcpu_init vc \<noteq> 0 \<Longrightarrow>
      intervm_send_msg s = Some (set_V0 MESSAGE_VCPU_NOT_INIT s)"
    and "guest_reg s REG_A2 \<le> MESSAGE_SZ \<Longrightarrow> v \<noteq> NULL \<Longrightarrow> vcpus s v = Some vc \<Longrightarrow> vcpu_init vc = 0 \<Longrightarrow>
      num_messages (messages vc) = MESSAGELIST_SZ \<Longrightarrow>
      intervm_send_msg s = Some (set_V0 MESSAGE_FULL (s\<lparr>vcpus := (vcpus s)(v \<mapsto> post_intervm vc)\<rparr>))"
proof -
  have kd: "kdata s rs ms tab" "length tab \<le> 15" using k by (simp_all add: kinv_at_def)
  have g: "get_vcpu_from_id s (guest_reg s REG_A0) = Some v" unfolding v_def by (rule kdata_get_vcpu [OF kd])
  show "MESSAGE_SZ < guest_reg s REG_A2 \<Longrightarrow> intervm_send_msg s = Some (set_V0 MESSAGE_TOO_BIG s)"
    by (simp add: intervm_send_msg_def Let_def)
  show "guest_reg s REG_A2 \<le> MESSAGE_SZ \<Longrightarrow> v = NULL \<Longrightarrow>
      intervm_send_msg s = Some (set_V0 MESSAGE_VCPU_NOT_FOUND s)"
    using g by (simp add: intervm_send_msg_def Let_def)
  show "guest_reg s REG_A2 \<le> MESSAGE_SZ \<Longrightarrow> v \<noteq> NULL \<Longrightarrow> vcpus s v = Some vc \<Longrightarrow> vcpu_init vc \<noteq> 0 \<Longrightarrow>
      intervm_send_msg s = Some (set_V0 MESSAGE_VCPU_NOT_INIT s)"
    using g by (simp add: intervm_send_msg_def Let_def)
  show "guest_reg s REG_A2 \<le> MESSAGE_SZ \<Longrightarrow> v \<noteq> NULL \<Longrightarrow> vcpus s v = Some vc \<Longrightarrow> vcpu_init vc = 0 \<Longrightarrow>
      num_messages (messages vc) = MESSAGELIST_SZ \<Longrightarrow>
      intervm_send_msg s = Some (set_V0 MESSAGE_FULL (s\<lparr>vcpus := (vcpus s)(v \<mapsto> post_intervm vc)\<rparr>))"
    using g by (simp add: intervm_send_msg_def upd_vcpu_def Let_def)
qed

text \<open>A receiver that asks for its message at \<open>P - base\<close> has it stored at the physical address \<open>P\<close>.\<close>

lemma guest_phys_any: "guest_phys base (P - base) = P"
  by (simp add: guest_phys_def)

end
