(* ===== verification/DigestVector.thy ===== *)
theory DigestVector
  imports Sha256
begin

text \<open>
  The digest of a message of one block, computed step by step: \<open>schedule_chain\<close> and \<open>rounds_chain\<close> check the words of a
  schedule and the registers of consecutive rounds that they are given, and \<open>ex_digest\<close> is the digest of the image that
  the examples boot, one instruction of four bytes.
\<close>

subsection \<open>Chains\<close>

fun schedule_chain :: "u32 list \<Rightarrow> u32 list \<Rightarrow> bool" where
  "schedule_chain m [] \<longleftrightarrow> True"
| "schedule_chain m (x # xs) \<longleftrightarrow>
     (let i = length m in SIG1 (m ! (i - 2)) + m ! (i - 7) + SIG0 (m ! (i - 15)) + m ! (i - 16) = x) \<and>
     schedule_chain (m @ [x]) xs"

lemma schedule_chain: "schedule_chain m xs \<Longrightarrow> schedule (length xs) m = m @ xs"
  by (induction m xs rule: schedule_chain.induct) (simp_all add: Let_def)

text \<open>The registers that a round fills are the first and the fifth; the others move on.\<close>

fun rounds_chain :: "u32 list \<Rightarrow> u32 list \<Rightarrow> sha_regs \<Rightarrow> (u32 \<times> u32) list \<Rightarrow> sha_regs \<Rightarrow> bool" where
  "rounds_chain (k # ks) (w # ws) (a, b, c, d, e, f, g, h) ((x, y) # xs) r \<longleftrightarrow>
     h + EP1 e + CH e f g + k + w + (EP0 a + MAJ a b c) = x \<and> d + (h + EP1 e + CH e f g + k + w) = y \<and>
     rounds_chain ks ws (x, a, b, c, y, e, f, g) xs r"
| "rounds_chain [] [] r xs r' \<longleftrightarrow> xs = [] \<and> r = r'"
| "rounds_chain _ _ _ _ _ \<longleftrightarrow> False"

lemma rounds_chain:
  "rounds_chain ks ws r xs r' \<Longrightarrow> take (length ks) (drop n sha_k) = ks \<Longrightarrow> take (length ws) (drop n m) = ws \<Longrightarrow>
   n + length ks = l \<Longrightarrow> foldl (sha_round m) r [n..<l] = r'"
proof (induction ks ws r xs r' arbitrary: n rule: rounds_chain.induct)
  case (1 k ks w ws a b c d e f g h x y xs r)
  have k: "sha_k ! n = k" "take (length ks) (drop (Suc n) sha_k) = ks"
    using 1(3) by (cases "drop n sha_k"; auto simp: drop_Suc tl_drop [symmetric] nth_via_drop)+
  have w: "m ! n = w" "take (length ws) (drop (Suc n) m) = ws"
    using 1(4) by (cases "drop n m"; auto simp: drop_Suc tl_drop [symmetric] nth_via_drop)+
  have x: "sha_round m (a, b, c, d, e, f, g, h) n = (x, a, b, c, y, e, f, g)"
    using 1(2) by (simp add: sha_round_def Let_def k(1) w(1))
  have "[n..<l] = n # [Suc n..<l]" using 1(5) by (simp add: upt_conv_Cons)
  then show ?case using 1(1) [OF _ k(2) w(2)] 1(2,5) x by simp
qed simp_all

subsection \<open>The image\<close>

definition ex_code :: "u8 list" where
  "ex_code = [0, 0, 2, 36]"

definition ex_hash :: "u8 list" where
  "ex_hash =
    [83, 252, 17, 197, 19, 111, 75, 43, 155, 170, 188, 139, 80, 25, 30, 228, 199, 125, 208, 164, 209, 97, 148, 78,
    23, 224, 151, 129, 2, 48, 67, 98]"

lemma ex_block: "blocks64 (sha_pad ex_code) = [ex_code @ [0x80] @ replicate 58 0 @ [32]]"
  by code_simp

definition ex_words :: "u32 list" where
  "ex_words = [548, 2147483648, 0, 0, 0, 0, 0, 0, 0, 0, 0, 0, 0, 0, 0, 32]"

lemma ex_words: "map (word_at (ex_code @ [0x80] @ replicate 58 0 @ [32])) [0..<16] = ex_words"
  by code_simp

definition ex_schedule :: "u32 list" where
  "ex_schedule =
    [285221412, 2148794368, 357747368, 2149602568, 1006918833, 537221121, 2780936373, 403232632, 1803097654,
    2259146712, 703036318, 1295734563, 1924923410, 1730689700, 3626545029, 3357772821, 3937328955, 1105251112,
    722775939, 3801248326, 3047732937, 2170547748, 2187647065, 836929638, 4170243747, 2927155655, 472605781,
    2777362270, 491086954, 391064161, 4200306896, 243032622, 3270145549, 1144127440, 1402901662, 1749493871,
    140527506, 2184839671, 610316312, 2768143002, 933948952, 66528493, 291725110, 3009410128, 1851275126,
    2563403119, 33652594, 1606371524]"

lemma ex_schedule: "schedule 48 ex_words = ex_words @ ex_schedule"
proof -
  have "schedule_chain ex_words ex_schedule"
    by (simp add: ex_words_def ex_schedule_def SIG0_def SIG1_def ROTRIGHT_def)
  moreover have "length ex_schedule = 48" by (simp add: ex_schedule_def)
  ultimately show ?thesis using schedule_chain [of ex_words ex_schedule] by (simp only:)
qed

lemmas round_defs = EP1_def EP0_def CH_def MAJ_def ROTRIGHT_def

definition ex_registers :: "sha_regs list" where
  "ex_registers =
    [(1779033703, 3144134277, 1013904242, 2773480762, 1359893119, 2600822924, 528734635, 1541459225), (2059051335,
    691749721, 3349450361, 3517253334, 2994412231, 1929544608, 3210985296, 2129770183), (668184019, 4235957120,
    3696222041, 90211054, 1849143223, 2014369111, 1777155939, 76061164), (2688216513, 1236185159, 2161551037,
    402982824, 1227799328, 2584160559, 3881249661, 1746894904), (3924962142, 1476893862, 1597753625, 2865310122,
    1987018277, 912010178, 4166827478, 2790225481)]"

lemma ex_rounds_0: "foldl (sha_round (ex_words @ ex_schedule)) (ex_registers ! 0) [0..<16] = ex_registers ! 1"
proof (rule rounds_chain)
  show "rounds_chain
      [1116352408, 1899447441, 3049323471, 3921009573, 961987163, 1508970993, 2453635748, 2870763221, 3624381080,
      310598401, 607225278, 1426881987, 1925078388, 2162078206, 2614888103, 3248222580]
      [548, 2147483648, 0, 0, 0, 0, 0, 0, 0, 0, 0, 0, 0, 0, 0, 32]
      (ex_registers ! 0)
      [(4228418161, 2563237062), (229735994, 1098038815), (2350316662, 607117909), (2226973102, 1198902281),
      (2714531902, 4045562067), (2183149941, 2999833734), (1157963207, 615372715), (2672870122, 2013069524),
      (2654256045, 3312826819), (3223590214, 991971734), (2978629820, 3455103780), (3069214081, 2239183364),
      (3517253334, 2129770183), (3349450361, 3210985296), (691749721, 1929544608), (2059051335, 2994412231)]
      (ex_registers ! 1)" by (simp add: round_defs ex_registers_def)
qed code_simp+

lemma ex_rounds_1: "foldl (sha_round (ex_words @ ex_schedule)) (ex_registers ! 1) [16..<32] = ex_registers ! 2"
proof (rule rounds_chain)
  show "rounds_chain
      [3835390401, 4022224774, 264347078, 604807628, 770255983, 1249150122, 1555081692, 1996064986, 2554220882,
      2821834349, 2952996808, 3210313671, 3336571891, 3584528711, 113926993, 338241895]
      [285221412, 2148794368, 357747368, 2149602568, 1006918833, 537221121, 2780936373, 403232632, 1803097654,
      2259146712, 703036318, 1295734563, 1924923410, 1730689700, 3626545029, 3357772821]
      (ex_registers ! 1)
      [(3641544404, 15184355), (1450117468, 771300291), (4041556601, 3700751368), (387918674, 3329069510),
      (1742517091, 1182858350), (2469605526, 1101231837), (683896382, 365915509), (1350810806, 1297502363),
      (3044571041, 2373008348), (2716179997, 3536330495), (2191281961, 3935428742), (1881578105, 3050723044),
      (90211054, 76061164), (3696222041, 1777155939), (4235957120, 2014369111), (668184019, 1849143223)]
      (ex_registers ! 2)" by (simp add: round_defs ex_registers_def)
qed code_simp+

lemma ex_rounds_2: "foldl (sha_round (ex_words @ ex_schedule)) (ex_registers ! 2) [32..<48] = ex_registers ! 3"
proof (rule rounds_chain)
  show "rounds_chain
      [666307205, 773529912, 1294757372, 1396182291, 1695183700, 1986661051, 2177026350, 2456956037, 2730485921,
      2820302411, 3259730800, 3345764771, 3516065817, 3600352804, 4094571909, 275423344]
      [3937328955, 1105251112, 722775939, 3801248326, 3047732937, 2170547748, 2187647065, 836929638, 4170243747,
      2927155655, 472605781, 2777362270, 491086954, 391064161, 4200306896, 243032622]
      (ex_registers ! 2)
      [(2541753926, 3064618989), (901808634, 1118774722), (3192092572, 39329437), (1019105227, 237406395),
      (2165268003, 2474889629), (2837385392, 4138262825), (4097513781, 903799742), (3813283469, 639868386),
      (242544342, 3380712390), (836966158, 3455187198), (4154652845, 270960952), (2617995342, 336384875),
      (402982824, 1746894904), (2161551037, 3881249661), (1236185159, 2584160559), (2688216513, 1227799328)]
      (ex_registers ! 3)" by (simp add: round_defs ex_registers_def)
qed code_simp+

lemma ex_rounds_3: "foldl (sha_round (ex_words @ ex_schedule)) (ex_registers ! 3) [48..<64] = ex_registers ! 4"
proof (rule rounds_chain)
  show "rounds_chain
      [430227734, 506948616, 659060556, 883997877, 958139571, 1322822218, 1537002063, 1747873779, 1955562222,
      2024104815, 2227730452, 2361852424, 2428436474, 2756734187, 3204031479, 3329325298]
      [3270145549, 1144127440, 1402901662, 1749493871, 140527506, 2184839671, 610316312, 2768143002, 933948952,
      66528493, 291725110, 3009410128, 1851275126, 2563403119, 33652594, 1606371524]
      (ex_registers ! 3)
      [(3555283171, 2105210783), (3768849075, 3374875760), (373412479, 2169201621), (2422648956, 211751042),
      (2780819300, 2886193245), (1758940362, 119285841), (273044301, 3829038389), (2047349149, 576933933),
      (1752991023, 2747695351), (2267756271, 1984271262), (708872106, 3589372490), (1405786854, 3985262989),
      (2865310122, 2790225481), (1597753625, 4166827478), (1476893862, 912010178), (3924962142, 1987018277)]
      (ex_registers ! 4)" by (simp add: round_defs ex_registers_def)
qed code_simp+

lemma ex_digest: "sha256_spec ex_code = ex_hash"
proof -
  have u: "[0..<64] = [0..<16] @ [16..<32] @ [32..<48] @ [48..<64]"
    using upt_add_eq_append [of 0 16 48] upt_add_eq_append [of 16 32 32] upt_add_eq_append [of 32 48 16] by simp
  have i: "(sha_init_state ! 0, sha_init_state ! 1, sha_init_state ! 2, sha_init_state ! 3, sha_init_state ! 4,
    sha_init_state ! 5, sha_init_state ! 6, sha_init_state ! 7) = ex_registers ! 0"
    by (simp add: sha_init_state_def ex_registers_def)
  have "foldl (sha_round (ex_words @ ex_schedule)) (ex_registers ! 0) [0..<64] = ex_registers ! 4"
    by (simp only: u foldl_append ex_rounds_0 ex_rounds_1 ex_rounds_2 ex_rounds_3)
  then have "sha_block sha_init_state (ex_code @ [0x80] @ replicate 58 0 @ [32]) =
      [1409028549, 326060843, 2611657867, 1343823588, 3346911396, 3512833102, 400594817, 36717410]"
    by (simp only: sha_block_def ex_words ex_schedule i Let_def) (simp add: ex_registers_def sha_init_state_def)
  then have "sha256_spec ex_code = concat (map be_bytes [1409028549, 326060843, 2611657867, 1343823588, 3346911396, 3512833102, 400594817, 36717410])"
    by (simp add: sha256_spec_def ex_block)
  also have "\<dots> = ex_hash" unfolding ex_hash_def by code_simp
  finally show ?thesis .
qed

end
