(* ===== verification/EcdsaSpec.thy ===== *)
theory EcdsaSpec
  imports Ecdsa
begin

text \<open>
  What the verification of a signature computes: a combination of the base point and the public key, by chords and
  tangents on affine points (\<open>shamir\<close>). The loop of the code works on coordinates with a common denominator; \<open>f_step\<close> is
  one round of it on residues, and \<open>step_products\<close> lists the products formed. Where these are reduced exactly,
  \<open>verify_decides\<close> says that a signature is accepted exactly if the \<open>x\<close> coordinate of the combination is \<open>r\<close>.
\<close>

subsection \<open>The combination on affine points\<close>

definition pick :: "fp \<times> fp \<Rightarrow> fp \<times> fp \<Rightarrow> fp \<times> fp \<Rightarrow> nat \<Rightarrow> nat \<Rightarrow> nat \<Rightarrow> (fp \<times> fp) option" where
  "pick G Q S u1 u2 i =
     (if odd (u1 div 2 ^ i) then (if odd (u2 div 2 ^ i) then Some S else Some G)
      else (if odd (u2 div 2 ^ i) then Some Q else None))"

text \<open>\<open>shamir T i A R\<close>: from \<open>A\<close>, for the bits below \<open>i\<close> downwards, double and add the point that \<open>T\<close> has for the bit.\<close>

primrec shamir :: "(nat \<Rightarrow> (fp \<times> fp) option) \<Rightarrow> nat \<Rightarrow> fp \<times> fp \<Rightarrow> fp \<times> fp \<Rightarrow> bool" where
  "shamir T 0 A R \<longleftrightarrow> R = A"
| "shamir T (Suc i) A R \<longleftrightarrow> (\<exists>D A'. tangent A D \<and>
     (case T i of None \<Rightarrow> A' = D | Some P \<Rightarrow> chord P D A') \<and> shamir T i A' R)"

text \<open>The combination is determined by the points and the bits.\<close>

lemma shamir_unique: "shamir T i A R \<Longrightarrow> shamir T i A R' \<Longrightarrow> R = R'"
proof (induction i arbitrary: A)
  case (Suc i)
  obtain D A' where 1: "tangent A D" "case T i of None \<Rightarrow> A' = D | Some P \<Rightarrow> chord P D A'" "shamir T i A' R"
    using Suc.prems(1) by auto
  obtain D2 A2 where 2: "tangent A D2" "case T i of None \<Rightarrow> A2 = D2 | Some P \<Rightarrow> chord P D2 A2" "shamir T i A2 R'"
    using Suc.prems(2) by auto
  have "D2 = D" using tangent_unique 1(1) 2(1) by blast
  then have "A2 = A'" using 1(2) 2(2) chord_unique by (auto split: option.splits)
  then show ?case using Suc.IH 1(3) 2(3) by blast
qed simp

lemma shamir_on_curve:
  assumes "\<And>i P. T i = Some P \<Longrightarrow> on_curve P"
  shows "on_curve A \<Longrightarrow> shamir T i A R \<Longrightarrow> on_curve R"
proof (induction i arbitrary: A)
  case (Suc i)
  obtain D A' where 1: "tangent A D" "case T i of None \<Rightarrow> A' = D | Some P \<Rightarrow> chord P D A'" "shamir T i A' R"
    using Suc.prems(2) by auto
  have "on_curve D" using tangent_on_curve Suc.prems(1) 1(1) .
  then have "on_curve A'"
  proof (cases "T i")
    case (Some P)
    then show ?thesis using chord_on_curve [OF assms [OF Some] \<open>on_curve D\<close>] 1(2) by simp
  qed (use 1(2) in simp)
  then show ?case using Suc.IH 1(3) by blast
qed simp

subsection \<open>The loop on residues\<close>

definition f_step :: "(fp \<times> fp) option \<Rightarrow> fp \<times> fp \<times> fp \<Rightarrow> fp \<times> fp \<times> fp" where
  "f_step T = (\<lambda>(X, Y, Z).
     let (X, Y, Z) = (dbl_x X Y, dbl_y X Y, Y * Z)
     in case T of None \<Rightarrow> (X, Y, Z)
        | Some (px, py) \<Rightarrow> let tx = px * (Z * Z); ty = py * (Z * Z * Z)
            in (add_x tx ty X Y, add_y tx ty X Y, Z * (X - tx)))"

definition step_products :: "(fp \<times> fp) option \<Rightarrow> fp \<times> fp \<times> fp \<Rightarrow> fp list" where
  "step_products T = (\<lambda>(X, Y, Z). dbl_products X Y Z @
     (let (X, Y, Z) = (dbl_x X Y, dbl_y X Y, Y * Z)
      in case T of None \<Rightarrow> []
        | Some (px, py) \<Rightarrow> let tx = px * (Z * Z); ty = py * (Z * Z * Z)
            in z_products px py Z @ add_products tx ty X Y @ [Z * (X - tx)]))"

primrec f_loop :: "(nat \<Rightarrow> (fp \<times> fp) option) \<Rightarrow> nat \<Rightarrow> fp \<times> fp \<times> fp \<Rightarrow> fp \<times> fp \<times> fp" where
  "f_loop T 0 st = st"
| "f_loop T (Suc i) st = f_loop T i (f_step (T i) st)"

primrec loop_products :: "(nat \<Rightarrow> (fp \<times> fp) option) \<Rightarrow> nat \<Rightarrow> fp \<times> fp \<times> fp \<Rightarrow> fp list" where
  "loop_products T 0 st = []"
| "loop_products T (Suc i) st = step_products (T i) st @ loop_products T i (f_step (T i) st)"

definition jac3 :: "fp \<times> fp \<times> fp \<Rightarrow> fp \<times> fp \<Rightarrow> bool" where
  "jac3 st P \<longleftrightarrow> (case st of (X, Y, Z) \<Rightarrow> jac X Y Z P \<and> Z dvd 1)"

lemma unit_mult: "(a :: fp) dvd 1 \<Longrightarrow> b dvd 1 \<Longrightarrow> a * b dvd 1"
  by (metis mult_dvd_mono mult_1)

lemma unit_nonzero: "(a :: fp) dvd 1 \<Longrightarrow> a \<noteq> 0"
  by auto

text \<open>A round takes the common denominator to a unit again, and does a tangent and a chord.\<close>

lemma f_step_jac:
  assumes "jac3 st A" and "tangent A D" and "case T of None \<Rightarrow> A' = D | Some P \<Rightarrow> chord P D A'"
  shows "jac3 (f_step T st) A'"
proof -
  obtain X Y Z where st: "st = (X, Y, Z)" by (cases st)
  have j: "jac X Y Z A" "Z dvd 1" using assms(1) by (simp_all add: jac3_def st)
  have "snd A dvd 1" using assms(2) by (cases A; cases D) (simp add: tangent_def)
  then have "Y dvd 1" using j by (simp add: jac_def unit_mult)
  then have z: "Y * Z dvd 1" using j(2) by (rule unit_mult)
  note d = dbl_jac [OF j(1) assms(2)]
  show ?thesis
  proof (cases T)
    case None
    then show ?thesis using assms(3) d z by (simp add: f_step_def st jac3_def)
  next
    case (Some P)
    obtain px py where P: "P = (px, py)" by (cases P)
    let ?z = "Y * Z" let ?tx = "px * (?z * ?z)" let ?ty = "py * (?z * ?z * ?z)"
    have t: "jac ?tx ?ty ?z P" by (simp add: jac_def P)
    have c: "chord P D A'" using assms(3) Some by simp
    have "fst D - px dvd 1" using c by (cases D; cases A') (simp add: chord_def P)
    then have "(fst D - px) * (?z * ?z) dvd 1" by (rule unit_mult) (rule unit_mult [OF z z])
    moreover have "dbl_x X Y - ?tx = (fst D - px) * (?z * ?z)" using d by (simp add: jac_def left_diff_distrib)
    ultimately have "dbl_x X Y - ?tx dvd 1" by (simp only:)
    then show ?thesis using add_jac(1) [OF t d c] unit_mult [OF z] by (simp add: f_step_def st jac3_def Some P Let_def)
  qed
qed

lemma f_loop_jac: "jac3 st A \<Longrightarrow> shamir T i A R \<Longrightarrow> jac3 (f_loop T i st) R"
proof (induction i arbitrary: st A)
  case (Suc i)
  then obtain D A' where t: "tangent A D" "case T i of None \<Rightarrow> A' = D | Some P \<Rightarrow> chord P D A'" and s: "shamir T i A' R" by auto
  show ?case using Suc.IH [OF f_step_jac [OF Suc.prems(1) t] s] by simp
qed simp

subsection \<open>The code's loop\<close>

definition fe3 :: "vli \<times> vli \<times> vli \<Rightarrow> fp \<times> fp \<times> fp" where
  "fe3 st = (case st of (X, Y, Z) \<Rightarrow> (fe X, fe Y, fe Z))"

definition coord3 :: "vli \<times> vli \<times> vli \<Rightarrow> bool" where
  "coord3 st \<longleftrightarrow> (case st of (X, Y, Z) \<Rightarrow> coord X \<and> coord Y \<and> coord Z)"

definition fe_point :: "vli \<Rightarrow> fp \<times> fp" where
  "fe_point p = (fe (take 8 p), fe (drop 8 p))"

definition coord_point :: "vli \<Rightarrow> bool" where
  "coord_point p \<longleftrightarrow> length p = 16 \<and> coord (take 8 p) \<and> coord (drop 8 p)"

lemma verify_step_fe:
  assumes "coord3 st" and "snd (snd (fe3 st)) \<noteq> 0"
    and "\<And>p. points ! k = Some p \<Longrightarrow> coord_point p"
    and "list_all safe (step_products (map_option fe_point (points ! k)) (fe3 st))"
  shows "coord3 (verify_step points k curve_secp256k1 st)"
    and "fe3 (verify_step points k curve_secp256k1 st) = f_step (map_option fe_point (points ! k)) (fe3 st)"
proof -
  obtain rx ry z where st: "st = (rx, ry, z)" by (cases st)
  have c: "coord rx" "coord ry" "coord z" "fe z \<noteq> 0" using assms(1,2) by (simp_all add: coord3_def fe3_def st)
  obtain X Y Z where d: "double_jacobian_secp256k1 rx ry z curve_secp256k1 = (X, Y, Z)"
    by (cases "double_jacobian_secp256k1 rx ry z curve_secp256k1")
  have ds: "list_all safe (dbl_products (fe rx) (fe ry) (fe z))"
    using assms(4) by (simp add: step_products_def fe3_def st)
  note dc = double_jacobian_coord [OF c(1-3) d] and df = double_jacobian_fe [OF c ds d]
  have "coord3 (verify_step points k curve_secp256k1 st) \<and>
    fe3 (verify_step points k curve_secp256k1 st) = f_step (map_option fe_point (points ! k)) (fe3 st)"
  proof (cases "points ! k")
    case None
    then show ?thesis using d dc df by (simp add: verify_step_def st coord3_def fe3_def f_step_def)
  next
    case (Some p)
    have p: "length p = 16" "coord (take 8 p)" "coord (drop 8 p)" using assms(3) [OF Some] by (simp_all add: coord_point_def)
    let ?px = "fe (take 8 p)" let ?py = "fe (drop 8 p)"
    obtain tx ty where a: "apply_z (take 8 p) (drop 8 p) Z curve_secp256k1 = (tx, ty)"
      by (cases "apply_z (take 8 p) (drop 8 p) Z curve_secp256k1")
    have s: "list_all safe (z_products ?px ?py (fe Z))"
      "list_all safe (add_products (?px * (fe Z * fe Z)) (?py * (fe Z * fe Z * fe Z)) (fe X) (fe Y))"
      "safe (fe Z * (fe X - ?px * (fe Z * fe Z)))"
      using assms(4) by (simp_all add: step_products_def fe3_def st Some fe_point_def Let_def df)
    note ac = apply_z_coord [OF _ _ _ a] and af = apply_z_fe [OF _ _ _ s(1) a]
    have t: "coord tx" "coord ty" "fe tx = ?px * (fe Z * fe Z)" "fe ty = ?py * (fe Z * fe Z * fe Z)"
      using ac af p dc by simp_all
    obtain A B C D where x: "XYcZ_add tx ty X Y curve_secp256k1 = ((A, B), (C, D))" by (metis prod.collapse)
    have dc': "coord X" "coord Y" "coord Z" using dc by simp_all
    note xc = XYcZ_add_coord [OF t(1,2) dc'(1,2) x]
      and xf = XYcZ_add_fe [OF t(1,2) dc'(1,2) s(2) [folded t(3,4)] x]
    let ?tz = "uECC_vli_modSub X tx (curve_p curve_secp256k1) 8"
    have r: "verify_step points k curve_secp256k1 st = (C, D, uECC_vli_modMult_fast Z ?tz curve_secp256k1)"
      using d Some a x p by (simp add: verify_step_def st uECC_vli_set_def)
    have tz: "coord ?tz" "fe ?tz = fe X - fe tx" using modSub_fe [OF dc'(1) t(1)] by simp_all
    have "fe (uECC_vli_modMult_fast Z ?tz curve_secp256k1) = fe Z * (fe X - fe tx)"
      using modMult_fast_fe [of Z ?tz] dc'(3) tz s(3) by (simp add: t(3))
    then show ?thesis
      unfolding r using xc xf dc' tz
      by (simp add: coord3_def fe3_def f_step_def st Some fe_point_def Let_def df [symmetric] t(3,4) coords)
  qed
  then show "coord3 (verify_step points k curve_secp256k1 st)"
    and "fe3 (verify_step points k curve_secp256k1 st) = f_step (map_option fe_point (points ! k)) (fe3 st)" by simp_all
qed


lemma verify_loop_fe:
  shows "coord3 st \<Longrightarrow> jac3 (fe3 st) A \<Longrightarrow>
    (\<And>j p. j < i \<Longrightarrow> points ! verify_index u1 u2 j = Some p \<Longrightarrow> coord_point p) \<Longrightarrow>
    (\<And>j. j < i \<Longrightarrow> T j = map_option fe_point (points ! verify_index u1 u2 j)) \<Longrightarrow>
    shamir T i A R \<Longrightarrow> list_all safe (loop_products T i (fe3 st)) \<Longrightarrow>
    coord3 (verify_loop u1 u2 points curve_secp256k1 i st) \<and>
    fe3 (verify_loop u1 u2 points curve_secp256k1 i st) = f_loop T i (fe3 st)"
proof (induction i arbitrary: st A)
  case (Suc i)
  obtain D A' where t: "tangent A D" "case T i of None \<Rightarrow> A' = D | Some P \<Rightarrow> chord P D A'" and s: "shamir T i A' R"
    using Suc.prems(5) by auto
  let ?k = "verify_index u1 u2 i" let ?st = "verify_step points ?k curve_secp256k1 st"
  have nz: "snd (snd (fe3 st)) \<noteq> 0"
    using Suc.prems(2) unit_nonzero by (cases st) (auto simp: jac3_def fe3_def)
  have T: "T i = map_option fe_point (points ! ?k)" using Suc.prems(4) by simp
  have sp: "list_all safe (step_products (map_option fe_point (points ! ?k)) (fe3 st))"
    "list_all safe (loop_products T i (f_step (T i) (fe3 st)))"
    using Suc.prems(6) unfolding T [symmetric] by simp_all
  have pc: "coord_point p" if "points ! ?k = Some p" for p using Suc.prems(3) [of i p] that by simp
  note st = verify_step_fe [OF Suc.prems(1) nz pc sp(1)]
  have "coord3 (verify_loop u1 u2 points curve_secp256k1 i ?st) \<and>
    fe3 (verify_loop u1 u2 points curve_secp256k1 i ?st) = f_loop T i (fe3 ?st)"
  proof (rule Suc.IH [OF st(1), of A'])
    show "jac3 (fe3 ?st) A'" using f_step_jac [OF Suc.prems(2) t] by (simp add: st(2) T)
    show "coord_point p" if "j < i" "points ! verify_index u1 u2 j = Some p" for j p
      using Suc.prems(3) that by (meson less_Suc_eq)
    show "T j = map_option fe_point (points ! verify_index u1 u2 j)" if "j < i" for j
      using Suc.prems(4) that by simp
    show "shamir T i A' R" by (rule s)
    show "list_all safe (loop_products T i (fe3 ?st))" using sp(2) by (simp add: st(2) T)
  qed
  then show ?case by (simp add: st(2) T)
qed simp

text \<open>Products of the last change of coordinates: with the inverse of the common denominator.\<close>

definition final_safe :: "fp \<times> fp \<times> fp \<Rightarrow> bool" where
  "final_safe st \<longleftrightarrow> (case st of (X, Y, Z) \<Rightarrow> \<forall>w. w * Z = 1 \<longrightarrow> list_all safe (z_products X Y w))"

lemma final_z:
  assumes "coord3 (X, Y, Z)" and "jac3 (fe3 (X, Y, Z)) R" and "final_safe (fe3 (X, Y, Z))"
  shows "\<exists>w x y. uECC_vli_modInv Z (curve_p curve_secp256k1) 8 = Some w \<and> apply_z X Y w curve_secp256k1 = (x, y) \<and>
    coord x \<and> coord y \<and> (fe x, fe y) = R"
proof -
  have c: "coord X" "coord Y" "coord Z" using assms(1) by (simp_all add: coord3_def)
  have j: "jac (fe X) (fe Y) (fe Z) R" "fe Z dvd 1" using assms(2) by (simp_all add: jac3_def fe3_def)
  obtain w where w: "uECC_vli_modInv Z (curve_p curve_secp256k1) 8 = Some w" "coord w" "fe w * fe Z = 1"
    using modInv_fe [of Z] c(3) j(2) by auto
  obtain x y where a: "apply_z X Y w curve_secp256k1 = (x, y)" by (cases "apply_z X Y w curve_secp256k1")
  have "list_all safe (z_products (fe X) (fe Y) (fe w))" using assms(3) w(3) by (simp add: final_safe_def fe3_def)
  note f = apply_z_fe [OF _ _ _ this a]
  have "fe x = fst R * ((fe w * fe Z) * (fe w * fe Z))" "fe y = snd R * ((fe w * fe Z) * (fe w * fe Z) * (fe w * fe Z))"
    using f c w(2) j(1) by (simp_all add: jac_def algebra_simps)
  then have "(fe x, fe y) = R" by (simp add: w(3))
  then show ?thesis using w(1) a apply_z_coord [OF _ _ _ a] c w(2) by auto
qed


subsection \<open>The verification\<close>

definition G_point :: "fp \<times> fp" where
  "G_point = fe_point (curve_G curve_secp256k1)"

lemma G_coord: "coord_point (curve_G curve_secp256k1)"
  by (simp add: coord_point_def coord_def curve_secp256k1_def P_VAL_def)

definition sum_safe :: "fp \<times> fp \<Rightarrow> bool" where
  "sum_safe Q \<longleftrightarrow> (case (G_point, Q) of ((gx, gy), (qx, qy)) \<Rightarrow>
     list_all safe (add_products gx gy qx qy) \<and> final_safe (add_x gx gy qx qy, add_y gx gy qx qy, qx - gx))"

lemma verify_sum_fe:
  assumes "coord_point public" and "chord G_point (fe_point public) S" and "sum_safe (fe_point public)"
  shows "\<exists>sm. verify_sum public curve_secp256k1 = Some sm \<and> coord_point sm \<and> fe_point sm = S"
proof -
  let ?c = curve_secp256k1 let ?G = "curve_G curve_secp256k1"
  let ?gx = "fe (take 8 ?G)" let ?gy = "fe (drop 8 ?G)"
  let ?qx = "fe (take 8 public)" let ?qy = "fe (drop 8 public)"
  let ?z = "uECC_vli_modSub (take 8 public) (take 8 ?G) (curve_p ?c) 8"
  have g: "coord (take 8 ?G)" "coord (drop 8 ?G)" using G_coord by (simp_all add: coord_point_def)
  have q: "coord (take 8 public)" "coord (drop 8 public)" "length public = 16" using assms(1) by (simp_all add: coord_point_def)
  obtain A B C D where x: "XYcZ_add (take 8 ?G) (drop 8 ?G) (take 8 public) (drop 8 public) ?c = ((A, B), (C, D))"
    by (metis prod.collapse)
  have s: "list_all safe (add_products ?gx ?gy ?qx ?qy)" "final_safe (add_x ?gx ?gy ?qx ?qy, add_y ?gx ?gy ?qx ?qy, ?qx - ?gx)"
    using assms(3) by (simp_all add: sum_safe_def G_point_def fe_point_def)
  note xc = XYcZ_add_coord [OF g q(1,2) x] and xf = XYcZ_add_fe [OF g q(1,2) s(1) x]
  have z: "coord ?z" "fe ?z = ?qx - ?gx" using modSub_fe [OF q(1) g(1)] by simp_all
  have j: "jac ?gx ?gy 1 G_point" "jac ?qx ?qy 1 (fe_point public)" by (simp_all add: jac_def G_point_def fe_point_def)
  have "?qx - ?gx dvd 1" using assms(2) by (cases S) (simp add: chord_def G_point_def fe_point_def)
  then have "jac3 (fe3 (C, D, ?z)) S"
    using add_jac(1) [OF j assms(2)] xf z by (simp add: jac3_def fe3_def)
  moreover have "coord3 (C, D, ?z)" using xc z by (simp add: coord3_def)
  moreover have "final_safe (fe3 (C, D, ?z))" using s(2) xf z by (simp add: fe3_def)
  ultimately obtain w sx sy where w: "uECC_vli_modInv ?z (curve_p ?c) 8 = Some w" "apply_z C D w ?c = (sx, sy)"
    "coord sx" "coord sy" "(fe sx, fe sy) = S" using final_z by blast
  have "verify_sum public ?c = Some (sx @ sy)" using x w(1,2) q(3) by (simp add: verify_sum_def uECC_vli_set_def)
  then show ?thesis using w(3-5) by (simp add: coord_point_def fe_point_def)
qed

lemma verify_index_pick:
  assumes "length u1 = 8" and "length u2 = 8" and "j < 256"
    and "odd (vli_val u1 div 2 ^ j) \<and> odd (vli_val u2 div 2 ^ j) \<Longrightarrow> fe_point sm = S"
  shows "map_option fe_point ([None, Some (curve_G curve_secp256k1), Some public, Some sm] ! verify_index u1 u2 j) =
    pick G_point (fe_point public) S (vli_val u1) (vli_val u2) j"
  using testBit_iff [of j u1] testBit_iff [of j u2] assms
  by (auto simp: verify_index_def pick_def G_point_def)

lemma numBits_top:
  assumes "length u = 8" and "vli_val u < 2 ^ Suc b"
  shows "uECC_vli_numBits u 8 \<le> Suc b" and "odd (vli_val u div 2 ^ b) \<Longrightarrow> uECC_vli_numBits u 8 = Suc b"
proof -
  note nb = numBits_bounds [OF assms(1)]
  show le: "uECC_vli_numBits u 8 \<le> Suc b"
  proof (cases "vli_val u = 0")
    case False
    then have "(2::nat) ^ (uECC_vli_numBits u 8 - 1) < 2 ^ Suc b" using nb(2) assms(2) by linarith
    then have "uECC_vli_numBits u 8 - 1 < Suc b" by (rule power_less_imp_less_exp [rotated]) simp
    then show ?thesis by simp
  qed (use nb(3) in simp)
  assume "odd (vli_val u div 2 ^ b)"
  then have "2 ^ b \<le> vli_val u" by (metis div_less even_zero linorder_not_less)
  then have "(2::nat) ^ b < 2 ^ uECC_vli_numBits u 8" using nb(1) by linarith
  then have "b < uECC_vli_numBits u 8" by (rule power_less_imp_less_exp [rotated]) simp
  then show "uECC_vli_numBits u 8 = Suc b" using le by simp
qed

lemma some_map:
  assumes "map_option f x = Some y"
  obtains z where "x = Some z" and "f z = y"
  using assms by (cases x) auto

lemma verify_mult_fe:
  fixes S :: "fp \<times> fp" and public sm :: vli
  assumes "length u1 = 8" and "length u2 = 8" and "vli_val u1 < 2 ^ Suc b" and "vli_val u2 < 2 ^ Suc b" and "b < 256"
  defines "T \<equiv> pick G_point (fe_point public) S (vli_val u1) (vli_val u2)"
  assumes "T b = Some A" and "shamir T b A R"
    and "coord_point public"
    and "\<And>j. odd (vli_val u1 div 2 ^ j) \<and> odd (vli_val u2 div 2 ^ j) \<Longrightarrow> coord_point sm \<and> fe_point sm = S"
    and "list_all safe (loop_products T b (fst A, snd A, 1))" and "final_safe (f_loop T b (fst A, snd A, 1))"
  shows "\<exists>rx. verify_mult u1 u2 [None, Some (curve_G curve_secp256k1), Some public, Some sm] curve_secp256k1 = Some rx \<and>
    coord rx \<and> fe rx = fst R"
proof -
  let ?c = curve_secp256k1 let ?pts = "[None, Some (curve_G curve_secp256k1), Some public, Some sm]"
  have T: "T j = map_option fe_point (?pts ! verify_index u1 u2 j)" if "j < 256" for j
    unfolding T_def using verify_index_pick [OF assms(1,2) that, of sm S public] assms(10) [of j] by simp
  have pc: "coord_point p" if "?pts ! verify_index u1 u2 j = Some p" "j < 256" for j p
  proof -
    have "verify_index u1 u2 j = 3 \<Longrightarrow> coord_point sm"
      using testBit_iff [of j u1] testBit_iff [of j u2] assms(1,2) that(2) assms(10) [of j]
      by (auto simp: verify_index_def split: if_splits)
    moreover have "verify_index u1 u2 j \<in> {0, 1, 2, 3}" by (auto simp: verify_index_def)
    ultimately show ?thesis using that(1) G_coord assms(9) by auto
  qed
  have "map_option fe_point (?pts ! verify_index u1 u2 b) = Some A" using T [OF assms(5)] assms(7) by (simp only:)
  then obtain p where p: "?pts ! verify_index u1 u2 b = Some p" "fe_point p = A" by (rule some_map)
  have pcb: "coord_point p" using pc [OF p(1) assms(5)] .
  have odd: "odd (vli_val u1 div 2 ^ b) \<or> odd (vli_val u2 div 2 ^ b)" using assms(7) by (auto simp: T_def pick_def split: if_splits)
  have bits: "smax (uECC_vli_numBits u1 8) (uECC_vli_numBits u2 8) = Suc b"
    using numBits_top [OF assms(1,3)] numBits_top [OF assms(2,4)] odd by (auto simp: smax_def)
  let ?one = "(uECC_vli_clear 8)[0 := 1]"
  let ?st = "(take 8 p, drop 8 p, ?one)"
  have one: "coord ?one" "fe ?one = 1" using clear_one P_pos(2) by (simp_all add: coord_def fe_def)
  have st: "coord3 ?st" "fe3 ?st = (fst A, snd A, 1)" using pcb one p(2) by (auto simp: coord3_def coord_point_def fe3_def fe_point_def)
  have j: "jac3 (fe3 ?st) A" unfolding st(2) by (simp add: jac3_def jac_def)
  have ok: "coord_point p'" if "j < b" "?pts ! verify_index u1 u2 j = Some p'" for j p'
    using pc [OF that(2)] that(1) assms(5) by simp
  have Tb: "T j = map_option fe_point (?pts ! verify_index u1 u2 j)" if "j < b" for j using T that assms(5) by simp
  have lp: "list_all safe (loop_products T b (fe3 ?st))" unfolding st(2) by (rule assms(11))
  note loop = verify_loop_fe [of ?st A b ?pts u1 u2 T R, OF st(1) j ok Tb assms(8) lp]
  obtain X Y Z where v: "verify_loop u1 u2 ?pts ?c b ?st = (X, Y, Z)" by (cases "verify_loop u1 u2 ?pts ?c b ?st")
  have l: "coord3 (X, Y, Z)" "fe3 (X, Y, Z) = f_loop T b (fst A, snd A, 1)" using loop unfolding v st(2) by simp_all
  have "jac3 (fe3 (X, Y, Z)) R" unfolding l(2) using f_loop_jac [OF j assms(8)] st(2) by simp
  from final_z [OF l(1) this] obtain w x y where w: "uECC_vli_modInv Z (curve_p ?c) 8 = Some w"
    "apply_z X Y w ?c = (x, y)" "coord x" "(fe x, fe y) = R" using assms(12) l(2) by auto
  have "length p = 16" using pcb by (simp add: coord_point_def)
  then have "verify_mult u1 u2 ?pts ?c = Some x"
    using bits p(1) v w(1,2) by (simp add: verify_mult_def uECC_vli_set_def)
  then show ?thesis using w(3,4) by auto
qed

text \<open>The \<open>x\<close> coordinate, subtracted once if it is not below the order, is the remainder: the order is more than half of the modulus.\<close>

lemma reduce_once: "(x :: nat) < P_VAL \<Longrightarrow> (if x < N_VAL then x else x - N_VAL) = x mod N_VAL"
  by (auto simp: P_VAL_def N_VAL_def mod_if)

lemma mult_unit_cancel:
  assumes c: "coprime s n" and a: "a < n" and b: "b < (n :: nat)" and e: "a * s mod n = b * s mod n"
  shows "a = b"
proof -
  have le: "x = y" if "x \<le> y" "y < n" "x * s mod n = y * s mod n" for x y
  proof -
    have "n dvd y * s - x * s" using that(1,3) by (simp add: mod_eq_dvd_iff_nat [symmetric])
    then have "n dvd y - x" using c by (simp add: diff_mult_distrib [symmetric] coprime_dvd_mult_left_iff coprime_commute)
    then show ?thesis using that(1,2) by (metis diff_is_0_eq dvd_imp_le le_antisym less_imp_diff_less linorder_not_less not_gr_zero)
  qed
  show ?thesis using le [of a b] le [of b a] a b e by linarith
qed

definition combination :: "fp \<times> fp \<Rightarrow> nat \<Rightarrow> nat \<Rightarrow> fp \<times> fp \<Rightarrow> bool" where
  "combination Q u1 u2 R \<longleftrightarrow> (\<exists>S b A. let T = pick G_point Q S u1 u2 in
     b < 256 \<and> u1 < 2 ^ Suc b \<and> u2 < 2 ^ Suc b \<and>
     ((\<forall>j. \<not> (odd (u1 div 2 ^ j) \<and> odd (u2 div 2 ^ j))) \<or> chord G_point Q S \<and> sum_safe Q) \<and>
     T b = Some A \<and> shamir T b A R \<and>
     list_all safe (loop_products T b (fst A, snd A, 1)) \<and> final_safe (f_loop T b (fst A, snd A, 1)))"

text \<open>
  A signature in range is accepted exactly if the \<open>x\<close> coordinate of the combination of the base point by
  digest/s and of the public key by r/s is congruent to r: the equation of the standard.
\<close>

lemma verify_decides:
  assumes "length key = 64" and "length sg = 64" and "min 32 k \<le> length hash" and "coord_point (key_words key)"
    and "0 < sig_r sg" and "sig_r sg < N_VAL" and "0 < sig_s sg" and "sig_s sg < N_VAL" and "coprime (sig_s sg) N_VAL"
    and "u1 < N_VAL" and "u1 * sig_s sg mod N_VAL = digest hash k mod N_VAL"
    and "u2 < N_VAL" and "u2 * sig_s sg mod N_VAL = sig_r sg"
    and "combination (fe_point (key_words key)) u1 u2 R" and "fst R \<noteq> 0"
  shows "uECC_verify key hash k sg curve_secp256k1 = Some (fp_nat (fst R) mod N_VAL = sig_r sg)"
proof -
  obtain S b A where c: "b < 256" "u1 < 2 ^ Suc b" "u2 < 2 ^ Suc b"
    and sum: "(\<forall>j. \<not> (odd (u1 div 2 ^ j) \<and> odd (u2 div 2 ^ j))) \<or> chord G_point (fe_point (key_words key)) S \<and> sum_safe (fe_point (key_words key))"
    and T: "pick G_point (fe_point (key_words key)) S u1 u2 b = Some A"
      "shamir (pick G_point (fe_point (key_words key)) S u1 u2) b A R"
      "list_all safe (loop_products (pick G_point (fe_point (key_words key)) S u1 u2) b (fst A, snd A, 1))"
      "final_safe (f_loop (pick G_point (fe_point (key_words key)) S u1 u2) b (fst A, snd A, 1))"
    using assms(14) unfolding combination_def Let_def by blast
  obtain v1 v2 sm where v: "length v1 = 8" "length v2 = 8" "vli_val v1 < N_VAL" "vli_val v2 < N_VAL"
    "vli_val v1 * sig_s sg mod N_VAL = digest hash k mod N_VAL" "vli_val v2 * sig_s sg mod N_VAL = sig_r sg"
    "verify_sum (key_words key) curve_secp256k1 = Some sm"
    "uECC_verify key hash k sg curve_secp256k1 = do {
      rx \<leftarrow> verify_mult v1 v2 [None, Some (curve_G curve_secp256k1), Some (key_words key), Some sm] curve_secp256k1;
      Some ((if vli_val rx < N_VAL then vli_val rx else vli_val rx - N_VAL) = sig_r sg) }"
    using verify_in_range [OF assms(1-3,5-8)] assms(9) by blast
  have e: "vli_val v1 = u1" "vli_val v2 = u2"
    using mult_unit_cancel [OF assms(9) v(3) assms(10)] mult_unit_cancel [OF assms(9) v(4) assms(12)]
      v(5,6) assms(11,13) by simp_all
  have sm: "coord_point sm \<and> fe_point sm = S" if "odd (u1 div 2 ^ j) \<and> odd (u2 div 2 ^ j)" for j
    using sum that verify_sum_fe [OF assms(4), of S] v(7) by auto
  obtain rx where rx: "verify_mult v1 v2 [None, Some (curve_G curve_secp256k1), Some (key_words key), Some sm]
      curve_secp256k1 = Some rx" "coord rx" "fe rx = fst R"
    using verify_mult_fe [OF v(1,2), where b = b and S = S and public = "key_words key" and A = A and R = R and sm = sm] assms(4) c T sm unfolding e by blast
  have "vli_val rx < P_VAL" using rx(2,3) assms(15) P_pos by (cases "vli_val rx = P_VAL") (auto simp: coord_def fe_def)
  moreover from this have "vli_val rx = fp_nat (fst R)" using fe_nat rx(3) by metis
  ultimately show ?thesis using v(8) rx(1) reduce_once [of "vli_val rx"] by simp
qed

subsection \<open>The check of a public key\<close>

lemma valid_point_iff:
  assumes "length w = 16"
  shows "uECC_valid_point w curve_secp256k1 \<longleftrightarrow>
    (vli_val (take 8 w) \<noteq> 0 \<or> vli_val (drop 8 w) \<noteq> 0) \<and> vli_val (take 8 w) < P_VAL \<and> vli_val (drop 8 w) < P_VAL \<and>
    uECC_vli_modSquare_fast (drop 8 w) curve_secp256k1 = x_side_secp256k1 (take 8 w) curve_secp256k1"
proof -
  let ?c = curve_secp256k1
  have l: "length (take 8 w) = 8" "length (drop 8 w) = 8" using assms by simp_all
  have z: "EccPoint_isZero w ?c \<longleftrightarrow> vli_val (take 8 w) = 0 \<and> vli_val (drop 8 w) = 0"
    using isZero_iff [OF assms] vli_val_append [of "take 8 w" "drop 8 w"] by (simp add: EccPoint_isZero_def)
  have t: "uECC_vli_cmp_unsafe p w 8 = uECC_vli_cmp_unsafe p (take 8 w) 8" if "8 \<le> length p" for p
    using cmp_unsafe_take [of 8 p w] cmp_unsafe_take [of 8 p "take 8 w"] assms that by simp
  have s: "length (uECC_vli_modSquare_fast (drop 8 w) ?c) = 8" "length (x_side_secp256k1 (take 8 w) ?c) = 8"
    using l by (simp_all add: x_side_secp256k1_def Let_def coords)
  show ?thesis
    using equal_iff [OF s] cmp_unsafe_iff(1) [OF curve_fields(4) l(1)] cmp_unsafe_iff(1) [OF curve_fields(4) l(2)]
    by (auto simp: uECC_valid_point_def z t)
qed

definition key_x :: "u8 list \<Rightarrow> nat" where
  "key_x key = be_val (take 32 key)"

definition key_y :: "u8 list \<Rightarrow> nat" where
  "key_y key = be_val (take 32 (drop 32 key))"

lemma key_words_val:
  assumes "length key = 64"
  shows "length (take 8 (key_words key)) = 8" and "length (drop 8 (key_words key)) = 8"
    and "vli_val (take 8 (key_words key)) = key_x key" and "vli_val (drop 8 (key_words key)) = key_y key"
  using assms by (simp_all add: key_words_def key_x_def key_y_def bytesToNative_val)

lemma coord_key: "length key = 64 \<Longrightarrow> coord_point (key_words key) \<longleftrightarrow> key_x key \<le> P_VAL \<and> key_y key \<le> P_VAL"
  using key_words_length [of key] by (simp add: coord_point_def coord_def key_words_val)

lemma fe_point_key: "length key = 64 \<Longrightarrow> fe_point (key_words key) = (of_nat (key_x key), of_nat (key_y key))"
  by (simp add: fe_point_def fe_def key_words_val)

lemma coord_val: "coord w \<Longrightarrow> fe w \<noteq> 0 \<Longrightarrow> vli_val w = fp_nat (fe w)"
  using fe_0_iff [of w] fe_nat [of w] by (auto simp: coord_def le_less)

text \<open>A key is accepted exactly if it is a point of the curve with both coordinates below the prime, provided that
  the three products the check forms are reduced exactly. The point at infinity, all zeros, is not on the curve.\<close>

lemma valid_public_key_iff:
  assumes "length key = 64"
  defines "x \<equiv> of_nat (key_x key) :: fp" and "y \<equiv> of_nat (key_y key)"
  assumes "safe (y * y)" and "safe (x * x)" and "safe (x * x * x)" and "y * y \<noteq> 0"
  shows "uECC_valid_public_key key curve_secp256k1 \<longleftrightarrow> key_x key < P_VAL \<and> key_y key < P_VAL \<and> on_curve (x, y)"
proof -
  let ?c = curve_secp256k1 let ?X = "take 8 (key_words key)" let ?Y = "drop 8 (key_words key)"
  note kw = key_words_val [OF assms(1)]
  have f: "fe ?X = x" "fe ?Y = y" by (simp_all add: fe_def kw x_def y_def)
  define l where "l = uECC_vli_modSquare_fast ?Y ?c"
  define r where "r = x_side_secp256k1 ?X ?c"
  have l: "coord l" "fe l = y * y" using kw f assms(4) by (simp_all add: l_def coords modSquare_fast_fe)
  have s: "coord (uECC_vli_modSquare_fast ?X ?c)" "fe (uECC_vli_modSquare_fast ?X ?c) = x * x"
    using kw f assms(5) by (simp_all add: coords modSquare_fast_fe)
  have m: "coord (uECC_vli_modMult_fast (uECC_vli_modSquare_fast ?X ?c) ?X ?c)"
    "fe (uECC_vli_modMult_fast (uECC_vli_modSquare_fast ?X ?c) ?X ?c) = x * x * x"
    using kw f s assms(6) by (simp_all add: coords modMult_fast_fe)
  have b: "fe (curve_b ?c) = 7" by (simp add: fe_def curve_secp256k1_def)
  have r: "coord r" "fe r = x * x * x + 7"
    using m modAdd_fe [OF m(1) coord_b] by (simp_all add: r_def x_side_secp256k1_def Let_def b)
  have "l = r \<longleftrightarrow> on_curve (x, y)"
  proof
    assume "on_curve (x, y)"
    then have "fe l = fe r" by (simp add: on_curve_def l(2) r(2))
    moreover from this have "vli_val l = vli_val r" using coord_val [OF l(1)] coord_val [OF r(1)] l(2) assms(7) by simp
    ultimately show "l = r" using l(1) r(1) by (simp add: vli_val_inj)
  qed (use l(2) r(2) in \<open>simp add: on_curve_def\<close>)
  moreover have "key_x key \<noteq> 0 \<or> key_y key \<noteq> 0" using assms(7) by (auto simp: y_def)
  ultimately show ?thesis
    using valid_point_iff [OF key_words_length [OF assms(1)]] kw
    by (auto simp: uECC_valid_public_key_def key_words_def [symmetric] l_def r_def)
qed

text \<open>An accepted key has coordinates below the prime, whatever the reduction does.\<close>

lemma valid_public_key_range:
  assumes "length key = 64" and "uECC_valid_public_key key curve_secp256k1"
  shows "key_x key < P_VAL" and "key_y key < P_VAL" and "key_x key \<noteq> 0 \<or> key_y key \<noteq> 0"
  using assms valid_point_iff [OF key_words_length [OF assms(1)]] key_words_val [OF assms(1)]
  by (simp_all add: uECC_valid_public_key_def key_words_def [symmetric])

subsection \<open>Small residues\<close>

lemma fp_nat_numeral: "fp_nat (numeral k) = numeral k mod P_VAL"
  using fp_nat_of_nat [of "numeral k"] by simp

lemma safe_0: "safe 0" and safe_1: "safe 1"
  using fp_nat_of_nat [of 0] fp_nat_of_nat [of 1] P_pos(2) by (simp_all add: safe_def OMEGA_def)

lemma safe_numeral: "(numeral k :: nat) < OMEGA \<Longrightarrow> safe (numeral k)"
proof -
  assume "(numeral k :: nat) < OMEGA"
  moreover have "OMEGA < P_VAL" by (simp add: OMEGA_def P_VAL_def)
  ultimately show "safe (numeral k)" by (simp add: safe_def fp_nat_numeral)
qed

lemma safe_neg_numeral:
  assumes "(numeral k :: nat) < OMEGA"
  shows "safe (- numeral k)"
proof -
  have p: "3 * OMEGA < P_VAL" by (simp add: OMEGA_def P_VAL_def)
  have "(of_nat (P_VAL - numeral k) :: fp) + numeral k = of_nat (P_VAL - numeral k + numeral k)"
    by (simp only: of_nat_add of_nat_numeral)
  also have "\<dots> = 0" using p assms by simp
  finally have e: "- numeral k = (of_nat (P_VAL - numeral k) :: fp)" by (simp add: eq_neg_iff_add_eq_0 eq_commute [of "- numeral k"])
  have "fp_nat (- numeral k) = P_VAL - numeral k" unfolding e fp_nat_of_nat using p by simp
  then show ?thesis using p assms unfolding safe_def by linarith
qed

lemma numeral_fp_nonzero: "(numeral k :: nat) < P_VAL \<Longrightarrow> (numeral k :: fp) \<noteq> 0"
  using fp_nat_numeral [of k] fp_nat_of_nat [of 0] by auto

lemmas safe_small = safe_0 safe_1 safe_numeral safe_neg_numeral

subsection \<open>An accepted signature\<close>

text \<open>A key and a signature with small numbers: twice the point (2, 1) is (32, -181), r is 32 and s is 16.\<close>

definition small_key :: "u8 list" where
  "small_key = replicate 31 0 @ [2] @ replicate 31 0 @ [1]"

definition small_signature :: "u8 list" where
  "small_signature = replicate 31 0 @ [32] @ replicate 31 0 @ [16]"

lemma be_val_zeros: "be_val (replicate n 0 @ bs) = be_val bs"
  by (induction n) (simp_all add: be_val_def)

lemma dbl_slope_2: "dbl_slope 2 = 6"
  by (rule half_unique) (simp add: dbl_slope_def half_fp_double)

lemma tangent_small: "tangent (2, 1) (32, - 181)"
  unfolding tangent_def by (auto intro!: exI [of _ 6])

lemma small_values:
  "length small_key = 64" "key_x small_key = 2" "key_y small_key = 1"
  "length small_signature = 64" "sig_r small_signature = 32" "sig_s small_signature = 16"
  "digest (replicate 32 0) 32 = 0"
proof -
  show "length small_key = 64" "key_x small_key = 2" "key_y small_key = 1"
    by (simp_all add: small_key_def key_x_def key_y_def take_append drop_append be_val_zeros) (simp_all add: be_val_def)
  show "length small_signature = 64" "sig_r small_signature = 32" "sig_s small_signature = 16"
    by (simp_all add: small_signature_def sig_r_def sig_s_def be_val_zeros) (simp_all add: be_val_def)
  show "digest (replicate 32 0) 32 = 0" using be_val_zeros [of 32 "[]"] by (simp add: digest_def)
qed

lemma small_order: "coprime 16 N_VAL" "32 < N_VAL" "(2::nat) * 16 mod N_VAL = 32" "2 < N_VAL"
  using odd_moduli(2) coprime_power_left_iff [of 2 4 N_VAL] by (simp_all add: N_VAL_def)

lemma small_point: "fe_point (key_words small_key) = (2, 1)" "coord_point (key_words small_key)"
  using fe_point_key [of small_key] coord_key [of small_key] P_pos(2) by (simp_all add: small_values)

lemma small_combination: "combination (2, 1) 0 2 (32, - 181)"
proof -
  let ?Q = "(2, 1) :: fp \<times> fp" let ?T = "pick G_point ?Q ?Q 0 2"
  have b: "\<not> (odd ((0::nat) div 2 ^ j) \<and> odd ((2::nat) div 2 ^ j))" for j by simp
  have T: "?T 1 = Some ?Q" "?T 0 = None" by (simp_all add: pick_def)
  have lp: "list_all safe (loop_products ?T 1 (2, 1, 1))"
    by (simp add: step_products_def T dbl_products_def dbl_slope_2 dbl_x_def safe_small OMEGA_def)
  have fl: "f_loop ?T 1 (2, 1, 1) = (32, - 181, 1)"
    by (simp add: f_step_def T dbl_slope_2 dbl_x_def dbl_y_def)
  have fs: "final_safe (f_loop ?T 1 (2, 1, 1))"
    unfolding fl by (simp add: final_safe_def z_products_def safe_small OMEGA_def)
  show ?thesis
    unfolding combination_def Let_def
    by (intro exI [of _ ?Q] exI [of _ 1] conjI) (use b T lp fs tangent_small in simp_all)
qed

end
