(* ===== verification/SignedImage.thy ===== *)
theory SignedImage
  imports DigestVector EcdsaSpec
begin

text \<open>
  A signed image: the key \<open>ex_key\<close> is a point of the curve, and \<open>ex_signature\<close> is a signature under it of the digest of
  \<open>ex_code\<close>. Both numbers of the signature are the digest e, so that the code multiplies the base point and the key by 1
  and adds them: the key is the difference of the point with first coordinate e and the base point. The constants \<open>s_\<dots>\<close> are
  the values the checks compute on the way; each product comes with its quotient by the prime.
\<close>

subsection \<open>Residues with certificates\<close>

lemma fp_times:
  assumes "a * b = c + P_VAL * q"
  shows "(of_nat a :: fp) * of_nat b = of_nat c"
proof -
  have "(of_nat (a * b) :: fp) = of_nat (c + P_VAL * q)" by (simp only: assms)
  then show ?thesis by simp
qed

lemma fp_minus:
  assumes "a + P_VAL * k = b + c"
  shows "(of_nat a :: fp) - of_nat b = of_nat c"
proof -
  have "(of_nat (a + P_VAL * k) :: fp) = of_nat (b + c)" by (simp only: assms)
  then show ?thesis by simp
qed

lemma safe_of_nat: "2 * OMEGA \<le> n \<Longrightarrow> n < P_VAL \<Longrightarrow> safe (of_nat n)"
  by (simp add: safe_def fp_nat_of_nat)

subsection \<open>The values\<close>

definition s_gx :: nat where "s_gx = 0x79be667ef9dcbbac55a06295ce870b07029bfcdb2dce28d959f2815b16f81798"
definition s_gy :: nat where "s_gy = 0x483ada7726a3c4655da4fbfc0e1108a8fd17b448a68554199c47d08ffb10d4b8"
definition s_qx :: nat where "s_qx = 0x1a6572e5a483b76c9ec62da060039e30d76a6405c34e9229937036beec83ba9d"
definition s_qy :: nat where "s_qy = 0xe54d7c4a2982120071fa8893b37177d2668101e162919644e3f339e28f030740"
definition s_rx :: nat where "s_rx = 0x53fc11c5136f4b2b9baabc8b50191ee4c77dd0a4d161944e17e0978102304362"
definition s_ry :: nat where "s_ry = 0xd3d647ee19b5cc72caaa707a20e38cd5934c7054f738c5d7ef0076b412f92c9"
definition s_d :: nat where "s_d = 0xa0a70c66aaa6fbc04925cb0a917c9329d4ce672a95806950397db562d58b9f34"
definition s_i :: nat where "s_i = 0xe509a6edfa8f9ad59635915fcb873c6b282134f5de716d917ba6c84f4314a2e5"
definition s_m :: nat where "s_m = 0x9d12a1d302de4d9b14558c97a5606f2969694d98bc0c422b47ab695293f23288"
definition s_l :: nat where "s_l = 0xcfc632d559964d7003dc71a2137af926efbe55d6605b7a35a16cbcc2e3e2ee7c"
definition s_ll :: nat where "s_ll = 0xe81feb29b1cfbe4490114cc17ea3c81ca1843185c27e4f5105434f9b05ac1597"
definition s_lg :: nat where "s_lg = 0x6e6184aab7f302983a70ea2bb01cbd159ee834aa94b02677ab50ce3feeb3fdff"
definition s_t :: nat where "s_t = 0x25c254b9e66d7080b9f5a60a7e6dec223b1e2c365c6c948b4211e9da14c7d436"
definition s_lt :: nat where "s_lt = 0x55783ef6083f212c8a4fa303b01f4176564c7b4df5f8e0771b37d7fb3c406781"
definition s_a :: nat where "s_a = 0x17999a806d535620b1b4b0f23cd668f67d64789da0f1fb2a995dd5b31d28af8e"
definition s_b :: nat where "s_b = 0xbd35387987106b1161306746834cf815f48667cd155abb84c14d474b06b34eca"
definition s_c :: nat where "s_c = 0x68396c29044eb741ff36c7c492e59dd90b52709690682c95ddb2cf9b7578844f"
definition s_mm :: nat where "s_mm = 0x5bdd987369d9e40d80009e854ec9d96dcad253ea2af518f263f2a689c8972481"
definition s_mb :: nat where "s_mb = 0x9ea85ff9e2c978fc1ed0373ecb7ce157d64bec1d159a5d6da2a55f3dc1e3d1e6"
definition s_x :: nat where "s_x = 0x366ef3d0de7ac1ba1f996f7a3897437ecaf97b86853230d7c4f28fa24c6b4d97"
definition s_cb :: nat where "s_cb = 0xab0433af7d3e4c309e06607e0f98a5c316cc08c97b0d71111c65884f6ec531b4"
definition s_w :: nat where "s_w = 0xf14621e33d4ed546fed45b206ff2dd20013fa18d2eb305978242f10e7ccab916"
definition s_bx :: nat where "s_bx = 0x86c644a8a895a9574196f7cc4ab5b497298cec4690288aacfc5ab7a8ba480133"
definition s_v :: nat where "s_v = 0x851b1d708045fe16794074738775788aa7615b2facadb697f08bf1b50466170d"
definition s_y :: nat where "s_y = 0x93d4fb8d42f728cf7a6c195317829b6aa621b9a27dfab1006e4900a5879b5a26"
definition s_ii :: nat where "s_ii = 0x76011f2668a1f4070d9d4b9f0a8aa33c04f05aa9337118bdda02a636c61d704a"
definition s_iii :: nat where "s_iii = 0x7fed0fbca3bd46e6908c50bd73f7060996c3ccb3b4304bfd615548b0821db15e"
definition s_qyy :: nat where "s_qyy = 0xe20262227c34de07e9cc34525d471e152f6a988aebc682e69f936c80a02d03f1"
definition s_qxx :: nat where "s_qxx = 0xa19bbf3c5441061db3825da7ab5efcf4555f8b064d15b8867a425f28fe591459"
definition s_qxxx :: nat where "s_qxxx = 0xe20262227c34de07e9cc34525d471e152f6a988aebc682e69f936c80a02d03ea"

lemmas s_defs = s_gx_def s_gy_def s_qx_def s_qy_def s_rx_def s_ry_def s_d_def s_i_def s_m_def s_l_def s_ll_def
  s_lg_def s_t_def s_lt_def s_a_def s_b_def s_c_def s_mm_def s_mb_def s_x_def s_cb_def s_w_def s_bx_def s_v_def
  s_y_def s_ii_def s_iii_def s_qyy_def s_qxx_def s_qxxx_def

text \<open>Differences and products, in the order in which they are used below.\<close>

lemma s_minus_qx_gx: "(of_nat s_qx :: fp) - of_nat s_gx = of_nat s_d"
  by (rule fp_minus [where k = 1]) (simp add: s_qx_def s_gx_def s_d_def P_VAL_def)
lemma s_minus_qy_gy: "(of_nat s_qy :: fp) - of_nat s_gy = of_nat s_m"
  by (rule fp_minus [where k = 0]) (simp add: s_qy_def s_gy_def s_m_def P_VAL_def)
lemma s_minus_ll_gx: "(of_nat s_ll :: fp) - of_nat s_gx = of_nat s_lg"
  by (rule fp_minus [where k = 0]) (simp add: s_ll_def s_gx_def s_lg_def P_VAL_def)
lemma s_minus_lg_qx: "(of_nat s_lg :: fp) - of_nat s_qx = of_nat s_rx"
  by (rule fp_minus [where k = 0]) (simp add: s_lg_def s_qx_def s_rx_def P_VAL_def)
lemma s_minus_gx_rx: "(of_nat s_gx :: fp) - of_nat s_rx = of_nat s_t"
  by (rule fp_minus [where k = 0]) (simp add: s_gx_def s_rx_def s_t_def P_VAL_def)
lemma s_minus_lt_gy: "(of_nat s_lt :: fp) - of_nat s_gy = of_nat s_ry"
  by (rule fp_minus [where k = 0]) (simp add: s_lt_def s_gy_def s_ry_def P_VAL_def)
lemma s_minus_mm_b: "(of_nat s_mm :: fp) - of_nat s_b = of_nat s_mb"
  by (rule fp_minus [where k = 1]) (simp add: s_mm_def s_b_def s_mb_def P_VAL_def)
lemma s_minus_mb_c: "(of_nat s_mb :: fp) - of_nat s_c = of_nat s_x"
  by (rule fp_minus [where k = 0]) (simp add: s_mb_def s_c_def s_x_def P_VAL_def)
lemma s_minus_c_b: "(of_nat s_c :: fp) - of_nat s_b = of_nat s_cb"
  by (rule fp_minus [where k = 1]) (simp add: s_c_def s_b_def s_cb_def P_VAL_def)
lemma s_minus_b_x: "(of_nat s_b :: fp) - of_nat s_x = of_nat s_bx"
  by (rule fp_minus [where k = 0]) (simp add: s_b_def s_x_def s_bx_def P_VAL_def)
lemma s_minus_v_w: "(of_nat s_v :: fp) - of_nat s_w = of_nat s_y"
  by (rule fp_minus [where k = 1]) (simp add: s_v_def s_w_def s_y_def P_VAL_def)
lemma s_times_d_i: "(of_nat s_d :: fp) * of_nat s_i = 1"
  using fp_times [where q = "0x8fbb7cb8f031ad5cd5be19b01e5e893570c1e9c1f61f6dc6a737a09b9ead46ed" and a = s_d and b = s_i and c = 1] by (simp add: s_d_def s_i_def P_VAL_def)
lemma s_times_d_l: "(of_nat s_d :: fp) * of_nat s_l = of_nat s_m"
  by (rule fp_times [where q = "0x826374211f06c7414bb1cd4e616d940bc8fefab51ec1c9da0ad66a65349575d8"]) (simp add: s_d_def s_l_def s_m_def P_VAL_def)
lemma s_times_l_l: "(of_nat s_l :: fp) * of_nat s_l = of_nat s_ll"
  by (rule fp_times [where q = "0xa8a21fa7b2ffae87d93af0c324cfc924acaea50e22f9238c23fe2b9efa8b05d7"]) (simp add: s_l_def s_ll_def P_VAL_def)
lemma s_times_l_t: "(of_nat s_l :: fp) * of_nat s_t = of_nat s_lt"
  by (rule fp_times [where q = "0x1ea55e4f458e3f0972110b4fafa9b5a86866e70b3131ee46a11e6964bf0f9709"]) (simp add: s_l_def s_lt_def s_t_def P_VAL_def)
lemma s_times_d_d: "(of_nat s_d :: fp) * of_nat s_d = of_nat s_a"
  by (rule fp_times [where q = "0x64d13c8183dd29b8e6bb8478c8e401172c52d51007f984facfafb219bae8129e"]) (simp add: s_a_def s_d_def P_VAL_def)
lemma s_times_gx_a: "(of_nat s_gx :: fp) * of_nat s_a = of_nat s_b"
  by (rule fp_times [where q = "0xb39277a472f7ee92b4020903dfa75002040d42019234d5d7b41f431427fa95a"]) (simp add: s_a_def s_b_def s_gx_def P_VAL_def)
lemma s_times_qx_a: "(of_nat s_qx :: fp) * of_nat s_a = of_nat s_c"
  by (rule fp_times [where q = "0x26ef3e2922489ae5b7c7428194b651841e0bfe7d12a96f67e1075db7a2d25e9"]) (simp add: s_a_def s_c_def s_qx_def P_VAL_def)
lemma s_times_m_m: "(of_nat s_m :: fp) * of_nat s_m = of_nat s_mm"
  by (rule fp_times [where q = "0x605fdbd7f97c29fc78d901f202d74ca5a34899808a3098b6079c5af89c6f7d71"]) (simp add: s_m_def s_mm_def P_VAL_def)
lemma s_times_gy_cb: "(of_nat s_gy :: fp) * of_nat s_cb = of_nat s_w"
  by (rule fp_times [where q = "0x30407f6e3dc363511869e5a76788eda8ee3a3d7b5e11d00e206ec0f145b18fd6"]) (simp add: s_cb_def s_gy_def s_w_def P_VAL_def)
lemma s_times_m_bx: "(of_nat s_m :: fp) * of_nat s_bx = of_nat s_v"
  by (rule fp_times [where q = "0x52b1673e0b5ae1bda130d6e592ea34086909b036f02de2923ff523986bd7d4e5"]) (simp add: s_bx_def s_m_def s_v_def P_VAL_def)
lemma s_times_i_i: "(of_nat s_i :: fp) * of_nat s_i = of_nat s_ii"
  by (rule fp_times [where q = "0xccea4502ebda074721aedf16b437c39f72cc9078ebf90e0f89b421614bbd19a1"]) (simp add: s_i_def s_ii_def P_VAL_def)
lemma s_times_x_ii: "(of_nat s_x :: fp) * of_nat s_ii = of_nat s_rx"
  by (rule fp_times [where q = "0x19176170d49b726fe107c19c08b54ec2b25077377d3e6254fddbeba885ffc4fc"]) (simp add: s_ii_def s_rx_def s_x_def P_VAL_def)
lemma s_times_ii_i: "(of_nat s_ii :: fp) * of_nat s_i = of_nat s_iii"
  by (rule fp_times [where q = "0x699373d9e0ae95cecf24a6b3f4991de95878b9f3791bcf3c5ed0997602c19f6c"]) (simp add: s_i_def s_ii_def s_iii_def P_VAL_def)
lemma s_times_y_iii: "(of_nat s_y :: fp) * of_nat s_iii = of_nat s_ry"
  by (rule fp_times [where q = "0x49df8e0e5fb38813693f5c75df89778c40e848cd4868a753abc8fdcc8a3ad3c5"]) (simp add: s_iii_def s_ry_def s_y_def P_VAL_def)
lemma s_times_qy_qy: "(of_nat s_qy :: fp) * of_nat s_qy = of_nat s_qyy"
  by (rule fp_times [where q = "0xcd63b7d0af379a25a78c8b956f4310139d120e8511761d85d093726a2ee41621"]) (simp add: s_qy_def s_qyy_def P_VAL_def)
lemma s_times_qx_qx: "(of_nat s_qx :: fp) * of_nat s_qx = of_nat s_qxx"
  by (rule fp_times [where q = "0x2b8c38a822fe5b5d8b176298b41d7c999ba02357992fd41340102a5ea40e310"]) (simp add: s_qx_def s_qxx_def P_VAL_def)
lemma s_times_qxx_qx: "(of_nat s_qxx :: fp) * of_nat s_qx = of_nat s_qxxx"
  by (rule fp_times [where q = "0x10a9dc66e6b1b3c32a53909d8e1c0002713626a6111bbc63bbb4334d02375845"]) (simp add: s_qx_def s_qxx_def s_qxxx_def P_VAL_def)

lemmas s_minus = s_minus_qx_gx s_minus_qy_gy s_minus_ll_gx s_minus_lg_qx s_minus_gx_rx s_minus_lt_gy s_minus_mm_b
  s_minus_mb_c s_minus_c_b s_minus_b_x s_minus_v_w
lemmas s_times = s_times_d_i s_times_d_l s_times_l_l s_times_l_t s_times_d_d s_times_gx_a s_times_qx_a
  s_times_m_m s_times_gy_cb s_times_m_bx s_times_i_i s_times_x_ii s_times_ii_i s_times_y_iii s_times_qy_qy
  s_times_qx_qx s_times_qxx_qx

lemma s_safe:
  "safe (of_nat s_a)" "safe (of_nat s_b)" "safe (of_nat s_c)" "safe (of_nat s_ii)" "safe (of_nat s_iii)" "safe
  (of_nat s_ll)" "safe (of_nat s_lt)" "safe (of_nat s_m)" "safe (of_nat s_mm)" "safe (of_nat s_qxx)" "safe (of_nat
  s_qxxx)" "safe (of_nat s_qyy)" "safe (of_nat s_rx)" "safe (of_nat s_ry)" "safe (of_nat s_v)" "safe (of_nat s_w)"
  by (rule safe_of_nat; simp add: s_defs OMEGA_def P_VAL_def)+

subsection \<open>The key and the signature\<close>

definition ex_key :: "u8 list" where
  "ex_key =
    [26, 101, 114, 229, 164, 131, 183, 108, 158, 198, 45, 160, 96, 3, 158, 48, 215, 106, 100, 5, 195, 78, 146, 41,
    147, 112, 54, 190, 236, 131, 186, 157, 229, 77, 124, 74, 41, 130, 18, 0, 113, 250, 136, 147, 179, 113, 119,
    210, 102, 129, 1, 225, 98, 145, 150, 68, 227, 243, 57, 226, 143, 3, 7, 64]"

definition ex_signature :: "u8 list" where
  "ex_signature = ex_hash @ ex_hash"

lemma ex_lengths: "length ex_key = 64" "length ex_hash = 32" "length ex_signature = 64"
  by (simp_all add: ex_key_def ex_hash_def ex_signature_def)

lemma ex_hash_val: "be_val ex_hash = s_rx"
  by (simp add: be_val_def ex_hash_def s_rx_def)

lemma ex_values: "key_x ex_key = s_qx" "key_y ex_key = s_qy" "sig_r ex_signature = s_rx" "sig_s ex_signature = s_rx"
  "digest ex_hash 32 = s_rx"
proof -
  show "key_x ex_key = s_qx" "key_y ex_key = s_qy"
    by (simp_all add: key_x_def key_y_def be_val_def ex_key_def s_qx_def s_qy_def)
  show "sig_r ex_signature = s_rx" "sig_s ex_signature = s_rx" "digest ex_hash 32 = s_rx"
    using ex_lengths by (simp_all add: sig_r_def sig_s_def digest_def ex_signature_def ex_hash_val)
qed

lemma ex_fe_points: "fe_point (key_words ex_key) = (of_nat s_qx, of_nat s_qy)" "G_point = (of_nat s_gx, of_nat s_gy)"
proof -
  show "fe_point (key_words ex_key) = (of_nat s_qx, of_nat s_qy)"
    using fe_point_key [OF ex_lengths(1)] by (simp add: ex_values)
  have "vli_val (take 8 (curve_G curve_secp256k1)) = s_gx" "vli_val (drop 8 (curve_G curve_secp256k1)) = s_gy"
    by (simp_all add: curve_secp256k1_def s_gx_def s_gy_def)
  then show "G_point = (of_nat s_gx, of_nat s_gy)" by (simp add: G_point_def fe_point_def fe_def)
qed

lemma ex_key_valid: "uECC_valid_public_key ex_key curve_secp256k1"
proof -
  have "(of_nat s_qyy :: fp) = of_nat (s_qxxx + 7)" by (simp only: s_qyy_def s_qxxx_def) simp
  then have c: "(of_nat s_qyy :: fp) = of_nat s_qxxx + 7" by simp
  have "(of_nat s_qyy :: fp) \<noteq> of_nat 0" unfolding of_nat_fp_eq_iff by (simp add: s_qyy_def P_VAL_def)
  then have nz: "(of_nat s_qyy :: fp) \<noteq> 0" by simp
  have "s_qx < P_VAL" "s_qy < P_VAL" by (simp_all add: s_qx_def s_qy_def P_VAL_def)
  then show ?thesis
    using valid_public_key_iff [OF ex_lengths(1)] s_safe c nz by (simp add: ex_values s_times on_curve_def)
qed

lemma coprime_certificate:
  assumes "a * b = 1 + n * (q :: nat)"
  shows "coprime a n"
proof (rule coprimeI)
  fix c assume c: "c dvd a" "c dvd n"
  then have "c dvd 1 + n * q" unfolding assms [symmetric] by simp
  then show "is_unit c" using c(2) by (metis dvd_add_left_iff dvd_mult2)
qed

lemma ex_chord: "chord G_point (fe_point (key_words ex_key)) (of_nat s_rx, of_nat s_ry)"
  unfolding ex_fe_points chord_def
  by (auto simp: s_minus s_times intro!: exI [of _ "of_nat s_l"] dvdI [of _ _ "of_nat s_i"])

lemma ex_sum_safe: "sum_safe (fe_point (key_words ex_key))"
proof -
  have x: "add_x (of_nat s_gx) (of_nat s_gy) (of_nat s_qx) (of_nat s_qy) = of_nat s_x"
    by (simp only: add_x_def s_minus s_times)
  have y: "add_y (of_nat s_gx) (of_nat s_gy) (of_nat s_qx) (of_nat s_qy) = of_nat s_y"
    by (simp only: add_y_def x s_minus s_times)
  have "final_safe (of_nat s_x, of_nat s_y, of_nat s_d)"
    unfolding final_safe_def
  proof (simp only: prod.case, intro allI impI)
    fix w :: fp assume "w * of_nat s_d = 1"
    moreover have "w = w * of_nat s_d * of_nat s_i" using s_times_d_i by (simp only: mult.assoc mult_1_right)
    ultimately have "w = of_nat s_i" by (simp only: mult_1)
    then show "list_all safe (z_products (of_nat s_x) (of_nat s_y) w)"
      by (simp only: z_products_def list.pred_inject s_times s_safe simp_thms)
  qed
  then show ?thesis
    unfolding ex_fe_points sum_safe_def prod.case
    by (simp only: add_products_def Let_def x y s_minus s_times list.pred_inject s_safe simp_thms)
qed

lemma ex_signature_coprime: "coprime s_rx N_VAL"
  by (rule coprime_certificate [where b = "0xa5f4bc5cc8b89e283967f23a7d6ac6e56365f5228fe81edd88db4938c293f086" and q = "0x3671c18082d9dd90fa1d019826a4917cd2b2322eadccd760fa6dd96ef6caf78b"]) (simp add: s_rx_def N_VAL_def)

lemma ex_combination: "combination (fe_point (key_words ex_key)) 1 1 (of_nat s_rx, of_nat s_ry)"
proof -
  let ?Q = "fe_point (key_words ex_key)" let ?S = "(of_nat s_rx, of_nat s_ry) :: fp \<times> fp"
  have "final_safe (f_loop T 0 (fst ?S, snd ?S, 1))" for T
    by (simp add: final_safe_def z_products_def s_safe safe_1)
  then show ?thesis
    unfolding combination_def Let_def
    by (intro exI [of _ ?S] exI [of _ 0] conjI) (use ex_chord ex_sum_safe in \<open>simp_all add: pick_def\<close>)
qed

lemma ex_verified: "uECC_verify ex_key ex_hash 32 ex_signature curve_secp256k1 = Some True"
proof -
  have n: "0 < s_rx" "s_rx < N_VAL" by (simp_all add: s_rx_def N_VAL_def)
  have nz: "(of_nat s_rx :: fp) \<noteq> 0"
    using of_nat_fp_eq_iff [of s_rx 0] by (simp add: s_rx_def P_VAL_def)
  have coord: "coord_point (key_words ex_key)"
    using coord_key [OF ex_lengths(1)] by (simp add: ex_values s_qx_def s_qy_def P_VAL_def)
  have "uECC_verify ex_key ex_hash 32 ex_signature curve_secp256k1 =
      Some (fp_nat (fst (of_nat s_rx :: fp, of_nat s_ry :: fp)) mod N_VAL = sig_r ex_signature)"
    by (rule verify_decides [OF _ _ _ coord _ _ _ _ _ _ _ _ _ ex_combination])
      (use n ex_signature_coprime nz odd_moduli(4) in \<open>simp_all add: ex_lengths ex_values\<close>)
  also have "fp_nat (fst (of_nat s_rx :: fp, of_nat s_ry :: fp)) mod N_VAL = s_rx"
    using n(2) odd_moduli(5) by (simp add: fp_nat_of_nat)
  finally show ?thesis by (simp add: ex_values)
qed

end
