(* ===== verification/Examples.thy ===== *)
theory Examples
  imports Ipc SignedImage
begin

text \<open>
  Two concrete machines at which the properties are exercised: \<open>ex_cold\<close>, which has not booted and has one
  virtual machine in flash, and \<open>ex_run\<close>, a running kernel with two virtual machines, of which the first is
  in execution.
\<close>

text \<open>The flash of the machine holds one image of 132 bytes: code, key and signature.\<close>

definition ex_image :: "u8 list" where
  "ex_image = ex_code @ ex_key @ ex_signature"

definition flash_with :: "u8 list \<Rightarrow> u32 \<Rightarrow> u8" where
  "flash_with img a = (if unat (a - 0x1D020000) < length img then img ! unat (a - 0x1D020000) else 0)"

definition ex_hw :: hw where
  "ex_hw = \<lparr>cp0 = (\<lambda>_. 0)((CP0_CONFIG3, 3) := CONFIG3_VZ, (CP0_GUESTCTL0, 6) := GUESTCTL0_G1,
       (CP0_SRSCTL, 2) := 0x3C000040, (CP0_GUESTCTL1, 4) := 1),
     gcp0 = \<lambda>_. 0, gpr = \<lambda>_ _. 0, tlb = \<lambda>_. None, ram = flash_with ex_image, sfr = \<lambda>_. 0, count_src = of_nat, count_reads = 0\<rparr>"

definition ex_conf :: vmconf_t where
  "ex_conf = \<lparr>cf_vm_name = ''guest'', ram_base = 0x80010000, flash_size = 0x84, flash_base_add = 0x9D020000,
     cf_os_type = 2, fast_interrupts = [], interrupt_redirect = [44], cf_tlb = [],
     devices = [\<lparr>start_addr = 0xBF860700, dev_size = 4\<rparr>]\<rparr>"

definition ex_cold :: kst where
  "ex_cold = \<lparr>mach = ex_hw,
     heap = \<lparr>hdr = \<lambda>_. \<lparr>hptr = 0, hsize = 0\<rparr>, freep = 0, sfreep = 0, sfree = \<lparr>hptr = 0, hsize = 0\<rparr>\<rparr>,
     nodes = Map.empty, vms = Map.empty, vcpus = Map.empty, tlbtabs = Map.empty, imaps = Map.empty,
     vcpu_ready_list = 0, virtual_machines_list = 0, vcpu_executing_nd = 0, next_vcpu = 0, tick_count = 0,
     last_scheduled = 0, st_vm_id = 1, st_tlbindex = 0, st_vcpu_id = 1, hypercall_table = replicate 30 None,
     interrupt_handlers = replicate 10 None, interrupt_mapping_sz = 0, interrupt_mapping_list = 0,
     vmconf_p = [None], timer_past = 0, VMCONF = [ex_conf],
     nvm_ctl = sfr_clr NVMCON 0x8000\<rparr>"

definition ex_vm :: "u32 \<Rightarrow> ptr \<Rightarrow> nat \<Rightarrow> u32 \<Rightarrow> vm_t" where
  "ex_vm vid vl c base = \<lparr>vm_name = ''guest'', vm_id = vid, base_addr = base, vm_vcpus = vl, os_type = 2,
     vm_init = 1, vmconf = c, ntlbent = 0, tlbentries = 0\<rparr>"

definition ex_vcpu :: "u32 \<Rightarrow> ptr \<Rightarrow> vcpu_t" where
  "ex_vcpu vid m = zero_vcpu\<lparr>vcpu_id := vid, gprshadowset := vid, vcpu_vm := m\<rparr>"

definition ex_run :: kst where
  "ex_run = ex_cold\<lparr>
     nodes := [0x1000 \<mapsto> \<lparr>elem = 0x2000, next_nd = 0x1008\<rparr>, 0x1008 \<mapsto> \<lparr>elem = 0x2800, next_nd = 0\<rparr>,
       0x1010 \<mapsto> \<lparr>elem = 0x3000, next_nd = 0x1018\<rparr>, 0x1018 \<mapsto> \<lparr>elem = 0x3040, next_nd = 0\<rparr>,
       0x1020 \<mapsto> \<lparr>elem = 0x2000, next_nd = 0\<rparr>, 0x1028 \<mapsto> \<lparr>elem = 0x2800, next_nd = 0\<rparr>],
     vms := [0x3000 \<mapsto> ex_vm 1 0x1020 0 0x80010000, 0x3040 \<mapsto> ex_vm 2 0x1028 1 0x80020000],
     vcpus := [0x2000 \<mapsto> ex_vcpu 1 0x3000, 0x2800 \<mapsto> ex_vcpu 2 0x3040],
     vcpu_ready_list := 0x1000, virtual_machines_list := 0x1010, vcpu_executing_nd := 0x1000,
     last_scheduled := 0x1000, tick_count := 1, vmconf_p := [Some 0, Some 1],
     VMCONF := [ex_conf, ex_conf\<lparr>ram_base := 0x80020000\<rparr>]\<rparr>"

definition ex_rs :: "ptr list" where "ex_rs = [0x1000, 0x1008]"
definition ex_ms :: "ptr list" where "ex_ms = [0x1010, 0x1018]"
definition ex_tab :: "(ptr \<times> ptr) list" where "ex_tab = [(0x3000, 0x2000), (0x3040, 0x2800)]"

lemmas ex_defs = ex_run_def ex_cold_def ex_hw_def ex_conf_def ex_vm_def ex_vcpu_def ex_rs_def ex_ms_def ex_tab_def

lemma ex_kdata: "kdata ex_run ex_rs ex_ms ex_tab"
proof -
  have "vm_entry ex_run i (fst (ex_tab ! i)) (snd (ex_tab ! i))" if "i < 2" for i
    using that zero_message_buffer_ok
    by (auto simp: less_2_cases_iff vm_entry_def ex_defs zero_vcpu_def)
  then show ?thesis by (simp add: kdata_def ex_defs elems_def)
qed

lemma ex_root_free: "root_free (mach ex_run) 15"
  by (simp add: root_free_def ex_defs)

lemma ex_kinv: "kinv_at ex_rs ex_ms ex_tab ex_run"
proof -
  have "bank_ok ex_run"
    by (simp add: bank_ok_def ex_defs vcpu_executing_def zero_vcpu_def prev_set_def getGuestID_def mfc0_def)
  then show ?thesis
    unfolding kinv_at_def using ex_kdata ex_root_free by (simp add: ex_defs vcpu_node_def)
qed

lemma ex_runs: "runs ex_run ex_tab 0"
  by (simp add: runs_def vcpu_executing_def ex_defs)

lemma ex_is_cold: "cold ex_cold"
  by (simp add: cold_def ex_defs live_def no_root_def)

lemma ex_heap_room: "heap_room 0x80002000 0x10000 1000"
  by (simp add: heap_room_def)

lemma ex_LowLevel_ram: "\<exists>h. LowLevelProcInit (early_platform_init (ex_hw\<lparr>ram := m\<rparr>)) = (0, h)"
proof -
  have c: "cp0 (early_platform_init h) = cp0 h" for h
    by (simp add: early_platform_init_def init_uart_def Let_def)
  show ?thesis
    by (simp add: LowLevelProcInit_def hasVZ_def isRootMode_def isRootASID_def hasGuestID_def has1KPageSupport_def
      ConfigureGPRShadow_def mfc0_def mtc0_def c ex_defs)
qed

lemma ex_LowLevel: "\<exists>h. LowLevelProcInit (early_platform_init (mach ex_cold)) = (0, h)"
  using ex_LowLevel_ram [of "ram ex_hw"] by (simp add: ex_cold_def)

lemma read_bytes_kseg:
  "(\<And>k. k < n \<Longrightarrow> in_kseg01 (va + of_nat k)) \<Longrightarrow>
   read_bytes h va n = Some (map (\<lambda>k. ram h ((va + of_nat k) AND 0x1FFFFFFF)) [0..<n])"
proof (induction n arbitrary: va)
  case (Suc n)
  have "read_bytes h (va + 1) n = Some (map (\<lambda>k. ram h ((va + 1 + of_nat k) AND 0x1FFFFFFF)) [0..<n])"
  proof (rule Suc.IH)
    fix k assume "k < n"
    then show "in_kseg01 (va + 1 + of_nat k)" using Suc.prems [of "Suc k"] by (simp add: algebra_simps)
  qed
  moreover have "in_kseg01 va" using Suc.prems [of 0] by simp
  ultimately show ?case by (simp add: read8_def translate_def upt_conv_Cons map_Suc_upt [symmetric] algebra_simps del: upt_Suc)
qed simp

lemma flash_address:
  assumes "i < 0x1000"
  shows "in_kseg01 (0x9D020000 + of_nat i)" and "unat ((0x9D020000 + of_nat i AND 0x1FFFFFFF) - (0x1D020000 :: u32)) = i"
proof -
  let ?a = "0x9D020000 + of_nat i :: u32"
  have "unat (of_nat i :: u32) = i" using assms by (intro unat_of_nat_small) simp
  then have a: "unat ?a = 0x9D020000 + i" using assms by (subst unat_add_small) simp_all
  show "in_kseg01 ?a" using a assms by (simp add: in_kseg01_def word_le_nat_alt word_less_nat_alt)
  have "?a AND 0x1FFFFFFF = take_bit 29 ?a" using take_bit_eq_mask [of 29 ?a] by (simp add: mask_eq_exp_minus_1)
  then have b: "unat (?a AND 0x1FFFFFFF) = 0x1D020000 + i"
    using a assms mod_mult_self2 [of "0x1D020000 + i" "0x20000000" 4] by (simp add: unsigned_take_bit_eq unat_mod take_bit_eq_mod)
  then have "(0x1D020000 :: u32) \<le> ?a AND 0x1FFFFFFF" by (simp add: word_le_nat_alt)
  then show "unat ((?a AND 0x1FFFFFFF) - (0x1D020000 :: u32)) = i" using b by (simp add: unat_sub)
qed

lemma read_image:
  assumes "ram h = flash_with img" and "i + n \<le> length img" and "i + n \<le> 0x1000"
  shows "read_bytes h (0x9D020000 + of_nat i) n = Some (take n (drop i img))"
proof -
  have a: "0x9D020000 + of_nat i + of_nat k = (0x9D020000 + of_nat (i + k) :: u32)" for k by simp
  have "map (\<lambda>k. ram h ((0x9D020000 + of_nat i + of_nat k) AND 0x1FFFFFFF)) [0..<n] = take n (drop i img)"
  proof (rule nth_equalityI)
    fix k assume "k < length (map (\<lambda>k. ram h ((0x9D020000 + of_nat i + of_nat k) AND 0x1FFFFFFF)) [0..<n])"
    then have k: "k < n" by simp
    have "unat ((0x9D020000 + of_nat (i + k) AND 0x1FFFFFFF) - (0x1D020000 :: u32)) = i + k"
      by (rule flash_address) (use k assms(3) in simp)
    then show "map (\<lambda>k. ram h ((0x9D020000 + of_nat i + of_nat k) AND 0x1FFFFFFF)) [0..<n] ! k = take n (drop i img) ! k"
      using k assms(1,2) by (simp only: a nth_map length_upt nth_upt) (simp add: flash_with_def)
  qed (use assms(2) in simp)
  moreover have "in_kseg01 (0x9D020000 + of_nat i + of_nat k)" if "k < n" for k
    unfolding a by (rule flash_address) (use that assms(3) in simp)
  ultimately show ?thesis using read_bytes_kseg [of n "0x9D020000 + of_nat i" h] by simp
qed

text \<open>The parts of the image in the flash of a machine.\<close>

lemma image_parts:
  assumes "ram (mach s) = flash_with (code @ key @ sg)" and "length code = 4" and "length key = 64" and "length sg = 64"
  shows "read_bytes (mach s) (flash_base_add ex_conf) (unat (flash_size ex_conf - 128)) = Some code"
    and "image_key s ex_conf = Some key" and "image_sig s ex_conf = Some sg"
  using read_image [OF assms(1), of 0 4] read_image [OF assms(1), of 4 64] read_image [OF assms(1), of 68 64] assms(2-4)
  by (simp_all add: image_key_def image_sig_def ex_conf_def)

lemma ex_parts:
  "read_bytes (mach ex_cold) (flash_base_add ex_conf) (unat (flash_size ex_conf - 128)) = Some ex_code"
  "image_key ex_cold ex_conf = Some ex_key" "image_sig ex_cold ex_conf = Some ex_signature"
  using image_parts [of ex_cold ex_code ex_key ex_signature] ex_lengths
  by (simp_all add: ex_cold_def ex_hw_def ex_image_def ex_code_def)

lemma ex_authentic: "\<forall>c\<in>set (VMCONF ex_cold). image_authentic ex_cold c"
proof -
  have "image_authentic ex_cold ex_conf"
    using ex_parts ex_key_valid ex_verified by (simp add: image_authentic_def uECC_secp256k1_def ex_digest)
  then show ?thesis by (simp add: ex_cold_def)
qed

lemma ex_booted: "\<exists>s. hyper_init 0x80002000 0x10000 [] ex_cold = Some (Running s)"
proof -
  obtain h where "LowLevelProcInit (early_platform_init (mach ex_cold)) = (0, h)" using ex_LowLevel by blast
  from boot_kinv [OF ex_is_cold ex_heap_room _ this ex_authentic, where ds = "[]"]
  show ?thesis by (auto simp: CREATE_COST_def ex_defs)
qed


subsection \<open>Calls of the first guest\<close>

text \<open>\<open>ex_run\<close> with argument registers set, with another image in flash, and with a message waiting.\<close>

definition ex_call :: "u32 \<Rightarrow> u32 \<Rightarrow> u32 \<Rightarrow> kst" where
  "ex_call a0 a1 a2 = ex_run\<lparr>mach := ex_hw\<lparr>gpr := (\<lambda>_ _. 0)(1 := (\<lambda>_. 0)(4 := a0, 5 := a1, 6 := a2))\<rparr>\<rparr>"

definition ex_mail :: "u32 \<Rightarrow> kst" where
  "ex_mail a0 = (ex_call a0 0 0)\<lparr>vcpus := [0x2000 \<mapsto> (ex_vcpu 1 0x3000)\<lparr>messages := zero_message_buffer\<lparr>
       msg_in := 1, num_messages := 1, message_list := [\<lparr>source_id = 2, msg_size = 2, message = [7, 8] @ replicate 253 0\<rparr>,
         zero_message, zero_message, zero_message, zero_message]\<rparr>\<rparr>, 0x2800 \<mapsto> ex_vcpu 2 0x3040]\<rparr>"

definition ex_tampered :: kst where
  "ex_tampered = ex_cold\<lparr>mach := ex_hw\<lparr>ram := flash_with (ex_code @ replicate 64 0 @ ex_signature)\<rparr>\<rparr>"

lemma ex_call_step: "k_step ex_run (ex_call a0 a1 a2)"
  unfolding ex_call_def
  by (rule k_step_mach) (simp add: m_keep_def ex_defs prev_set_def getGuestID_def mfc0_def)

lemma ex_call_kinv: "kinv_at ex_rs ex_ms ex_tab (ex_call a0 a1 a2)"
  by (rule kinv_at_step [OF ex_kinv ex_call_step])

lemma ex_call_regs:
  "guest_reg (ex_call a0 a1 a2) REG_A0 = a0" "guest_reg (ex_call a0 a1 a2) REG_A1 = a1"
  "guest_reg (ex_call a0 a1 a2) REG_A2 = a2"
  by (simp_all add: ex_call_def ex_defs MoveFromPreviousGuestGPR_def prev_set_def)

lemma ex_call_runs: "runs (ex_call a0 a1 a2) ex_tab 0"
  using ex_runs by (simp add: runs_def ex_call_def vcpu_executing_def)

lemma ex_mail_contents:
  "msg_contents (messages (the (vcpus (ex_mail a0) 0x2000))) = [(2, [7, 8])]"
  by (simp add: ex_mail_def msg_contents_def slot_def zero_message_buffer_def ex_vcpu_def)

lemma ex_mail_kinv: "kinv_at ex_rs ex_ms ex_tab (ex_mail a0)" and ex_mail_runs: "runs (ex_mail a0) ex_tab 0"
proof -
  have "k_step (ex_call a0 0 0) (ex_mail a0)"
    by (simp add: k_step_def k_frame_def ex_mail_def ex_call_def ex_defs option.rel_refl vc_keep_def vc_ids_def
      zero_vcpu_def zero_message_buffer_def zero_message_def msg_buf_ok_def MESSAGELIST_SZ_def MESSAGE_SZ_def)
  then show "kinv_at ex_rs ex_ms ex_tab (ex_mail a0)" by (rule kinv_at_step [OF ex_call_kinv])
  show "runs (ex_mail a0) ex_tab 0"
    using ex_call_runs by (simp add: runs_def ex_mail_def vcpu_executing_def ex_call_def)
qed

text \<open>The image with a key of zeros, the point at infinity, which the check of the key refuses.\<close>

lemma ex_tampered_parts:
  "read_bytes (mach ex_tampered) (flash_base_add ex_conf) (unat (flash_size ex_conf - 128)) = Some ex_code"
  "image_key ex_tampered ex_conf = Some (replicate 64 0)" "image_sig ex_tampered ex_conf = Some ex_signature"
  using image_parts [of ex_tampered ex_code "replicate 64 0" ex_signature] ex_lengths
  by (simp_all add: ex_tampered_def ex_hw_def ex_code_def)

lemma ex_tampered_LowLevel: "\<exists>h. LowLevelProcInit (early_platform_init (mach ex_tampered)) = (0, h)"
  using ex_LowLevel_ram by (simp add: ex_tampered_def)

lemma ex_tampered_readable: "\<forall>c\<in>set (VMCONF ex_tampered). image_readable ex_tampered c"
  using ex_tampered_parts ex_signature_coprime
  by (simp add: image_readable_def image_hash_spec ex_values ex_tampered_def ex_cold_def)

lemma ex_tampered_refused: "\<not> image_authentic ex_tampered ex_conf"
  using valid_public_key_range(3) [of "replicate 64 0"] ex_tampered_parts be_val_zeros [of 32 "[]"]
  by (auto simp: image_authentic_def uECC_secp256k1_def key_x_def key_y_def)

lemma ex_mail_facts:
  "VMCONF (ex_mail a0) ! 0 = ex_conf" "ex_tab ! 0 = (0x3000, 0x2000)" "guest_reg (ex_mail a0) REG_A0 = a0"
  "\<exists>vc. vcpus (ex_mail a0) 0x2000 = Some vc \<and> msg_contents (messages vc) = [(2, [7, 8])]"
  using ex_mail_contents [of a0]
  by (simp_all add: ex_mail_def ex_call_def ex_defs MoveFromPreviousGuestGPR_def prev_set_def)

text \<open>A device interrupt of the second virtual machine, requested while the first one runs.\<close>

definition ex_irq :: kst where
  "ex_irq = ex_run\<lparr>imaps := [0x4000 \<mapsto> [\<lparr>irq_number = 44, irq_guest = 4, irq_vcpu = 0x2800\<rparr>]],
     interrupt_mapping_sz := 1, interrupt_mapping_list := 0x4000,
     mach := (mach ex_run)\<lparr>sfr := (\<lambda>_. 0)(IFS 1 := 0x1000)\<rparr>\<rparr>"

end
