(* ===== verification/Usb.thy ===== *)
theory Usb
  imports Timer InterVm
begin

text \<open>
  The USB host driver, \<^verbatim>\<open>drivers/pic32mz-usb.c\<close>: the detection of a device, the reading of its descriptor and a
  fixed three-byte transfer, driven by the polling hypercall and by the controller's interrupt.

  \<open>usb_t\<close> holds the driver's static variables. What a call reads from the controller, the pins and the Count
  register is \<open>usb_in\<close>, arbitrary in every call; what it writes to them is appended to \<open>u_out\<close>. The accesses to
  the guest's registers and memory go through the kernel state.

  The lemmas show the invariant of the state machines, the progress of a transfer, the assembly of a descriptor
  from its packets and what an over-long packet does.
\<close>

subsection \<open>State\<close>

datatype usb_device_state = IDLE | DEBOUNCE | USB_RESET | AFTER_RESET_DELAY | HANDSHAKE | REQUEST_DESCRIPTOR
  | WAIT_TX_INT | WAIT_DESCRIPTOR | READ_DESCRIPTOR | RUNNING | VBUSERROR | GENERALERROR

datatype usb_transfer_state = TRANSFER_INT_VM | TRANSFER_IDLE | TRANSFER_START | TRANSFER_SENDING
  | TRANSFER_WAIT_TX_INT | TRANSFER_DONE

datatype usb_speed = FULL_SPEED | HIGH_SPEED | LOW_SPEED

record descriptor_receive =
  descr :: "u8 list"
  received :: u32
  descr_sz :: u32
  tranfer_sz :: u32

record usb_setup_packet_t =
  bmRequestType :: u8
  bRequest :: u8
  wValue :: u16
  wIndex :: u16
  wLength :: u16

text \<open>Writes to the controller, the power pin and the console.\<close>

datatype usb_out = O_reset bool | O_speed u32 | O_fifo u8 | O_control_or u32 | O_control_byte2 u8 | O_rxpktrdy_clear
  | O_session bool | O_power bool | O_ie u32 u32 u32 | O_usbie | O_sofrst u32 | O_hsen u32 | O_idov | O_phyid
  | O_idval u32 | O_pins | O_irq_clear nat | O_irq_enable nat | O_off u32 | O_puts string

record usb_t =
  u_state :: usb_device_state
  descriptor_available :: u32
  connected :: u32
  wait_debounce :: u32
  u_speed :: usb_speed
  descriptor_data :: descriptor_receive
  setup_packet :: usb_setup_packet_t
  descriptor :: "u8 list"
  t_state :: usb_transfer_state
  sent_sz :: u32
  buffer_tx :: "u8 list"
  request_count :: u32
  u_out :: "usb_out list"

text \<open>\<open>usb_now\<close> is the Count that \<open>calc_wait_time\<close> reads, \<open>usb_now2\<close> the next one. \<open>usb_bdev\<close> is the one-bit field
  \<open>USBOTG.BDEV\<close>; \<open>usb_fifo i\<close> is the \<open>i\<close>-th byte read from the queue of endpoint 0.\<close>

record usb_in =
  usb_interrupts :: u8
  usb_ep0if :: bool
  usb_now :: u32
  usb_now2 :: u32
  usb_fsdev :: bool
  usb_lsdev :: bool
  usb_bdev :: bool
  usb_vbus :: u32
  usb_portb :: u32
  usb_rxcnt :: u32
  usb_fifo :: "nat \<Rightarrow> u8"

definition DEBOUNCE_MS :: u32 where "DEBOUNCE_MS = 500"
definition RESET_MS :: u32 where "RESET_MS = 100"
definition POST_RESET_DELAY_MS :: u32 where "POST_RESET_DELAY_MS = 100"
definition USB_DEVCONN_INT :: u8 where "USB_DEVCONN_INT = 0x10"
definition USB_DEVDISCONN_INT :: u8 where "USB_DEVDISCONN_INT = 0x20"
definition USB_VBUSERR_INT :: u8 where "USB_VBUSERR_INT = 0x80"

definition IS_OVERCURRENT :: "usb_in \<Rightarrow> bool" where
  "IS_OVERCURRENT i \<longleftrightarrow> usb_portb i AND 4 = 0"

text \<open>The field is one bit wide, the mask selects bit 7.\<close>

definition IS_B_MODE :: "usb_in \<Rightarrow> bool" where
  "IS_B_MODE i \<longleftrightarrow> of_cond (usb_bdev i) AND 0x80 \<noteq> 0"

definition IS_VALID_VBUS :: "usb_in \<Rightarrow> bool" where
  "IS_VALID_VBUS i \<longleftrightarrow> usb_vbus i = 3"

definition usb_emit :: "usb_out list \<Rightarrow> usb_t \<Rightarrow> usb_t" where
  "usb_emit os u = u\<lparr>u_out := u_out u @ os\<rparr>"

subsection \<open>Endpoint 0\<close>

definition calc_wait_time :: "u32 \<Rightarrow> u32 \<Rightarrow> u32 \<Rightarrow> u32" where
  "calc_wait_time now time ms_delay = (if ms_delay * MILISECOND < now - time then 1 else 0)"

definition usb_fill_setup_packet :: "u8 \<Rightarrow> u8 \<Rightarrow> u16 \<Rightarrow> u16 \<Rightarrow> u16 \<Rightarrow> usb_setup_packet_t" where
  "usb_fill_setup_packet requestType request val idx len =
     \<lparr>bmRequestType = requestType, bRequest = request, wValue = val, wIndex = idx, wLength = len\<rparr>"

text \<open>The bytes of the structure, little-endian.\<close>

definition setup_bytes :: "usb_setup_packet_t \<Rightarrow> u8 list" where
  "setup_bytes p = [bmRequestType p, bRequest p, ucast (wValue p), ucast (drop_bit 8 (wValue p)),
     ucast (wIndex p), ucast (drop_bit 8 (wIndex p)), ucast (wLength p), ucast (drop_bit 8 (wLength p))]"

definition ep0SetSpeed :: "usb_speed \<Rightarrow> usb_t \<Rightarrow> usb_t" where
  "ep0SetSpeed speed = usb_emit [O_speed (case speed of LOW_SPEED \<Rightarrow> 3 | FULL_SPEED \<Rightarrow> 2 | HIGH_SPEED \<Rightarrow> 1)]"

definition setup_packet_send :: "u8 list \<Rightarrow> usb_t \<Rightarrow> usb_t" where
  "setup_packet_send dat u =
     (let u = ep0SetSpeed (u_speed u) u;
          u = usb_emit (map O_fifo dat) u
      in usb_emit [O_control_or 0xA0000] u)"

text \<open>The loop of \<open>data_packet_sent\<close>: \<open>k\<close> iterations are left.\<close>

fun data_packet_loop :: "nat \<Rightarrow> u32 \<Rightarrow> usb_t \<Rightarrow> usb_t" where
  "data_packet_loop 0 sz u = u"
| "data_packet_loop (Suc k) sz u =
     (if sent_sz u < sz then
        data_packet_loop k sz ((usb_emit [O_fifo (buffer_tx u ! unat (sent_sz u))] u)\<lparr>sent_sz := sent_sz u + 1\<rparr>)
      else u)"

definition data_packet_sent :: "u32 \<Rightarrow> usb_t \<Rightarrow> usb_t" where
  "data_packet_sent sz u =
     (let u = ep0SetSpeed (u_speed u) u; u = data_packet_loop 8 sz u in usb_emit [O_control_byte2 2] u)"

text \<open>\<open>read_descriptor\<close>: byte \<open>i\<close> comes from byte \<open>i & 3\<close> of the queue's register. A store past the 18 bytes of
  the array is undefined.\<close>

fun read_descriptor_loop :: "(nat \<Rightarrow> u8) \<Rightarrow> nat \<Rightarrow> nat \<Rightarrow> descriptor_receive \<Rightarrow> descriptor_receive option" where
  "read_descriptor_loop q i 0 d = Some d"
| "read_descriptor_loop q i (Suc k) d =
     (if unat (received d) < length (descr d) then
        read_descriptor_loop q (i + 1) k
          (d\<lparr>descr := (descr d)[unat (received d) := q i], received := received d + 1\<rparr>)
      else None)"

definition read_descriptor :: "usb_in \<Rightarrow> usb_t \<Rightarrow> usb_t option" where
  "read_descriptor i u = do {
     let rxsz = usb_rxcnt i;
     d \<leftarrow> read_descriptor_loop (usb_fifo i) 0 (unat rxsz) (descriptor_data u);
     let d = (if descr_sz d = 0 then d\<lparr>descr_sz := ucast (descr d ! 0), tranfer_sz := ucast (descr d ! 7)\<rparr> else d);
     let u = usb_emit [O_rxpktrdy_clear] u;
     let d = (if rxsz < tranfer_sz d \<or> received d = descr_sz d then d\<lparr>descr_sz := received d\<rparr> else d);
     Some (u\<lparr>descriptor_data := d\<rparr>) }"

subsection \<open>The state machines\<close>

abbreviation (input) dev_request :: usb_setup_packet_t where
  "dev_request \<equiv> usb_fill_setup_packet 0x80 6 0x100 0 18"

abbreviation (input) vendor_request :: usb_setup_packet_t where
  "vendor_request \<equiv> usb_fill_setup_packet 0x40 6 256 0 3"

definition zero_descriptor_receive :: descriptor_receive where
  "zero_descriptor_receive = \<lparr>descr = replicate 18 0, received = 0, descr_sz = 0, tranfer_sz = 0\<rparr>"

text \<open>The switch of \<open>update_state_machine\<close>.\<close>

definition update_state_switch :: "usb_in \<Rightarrow> usb_t \<Rightarrow> usb_t option" where
  "update_state_switch i u = (case u_state u of
     DEBOUNCE \<Rightarrow> Some (if calc_wait_time (usb_now i) (wait_debounce u) DEBOUNCE_MS \<noteq> 0
       then usb_emit [O_reset True] (u\<lparr>u_state := USB_RESET\<rparr>) else u)
   | USB_RESET \<Rightarrow> Some (if calc_wait_time (usb_now i) (wait_debounce u) RESET_MS \<noteq> 0
       then (usb_emit [O_reset False] (u\<lparr>u_state := AFTER_RESET_DELAY\<rparr>))
         \<lparr>u_speed := (if usb_fsdev i then FULL_SPEED else if usb_lsdev i then LOW_SPEED else LOW_SPEED), wait_debounce := usb_now2 i\<rparr> else u)
   | AFTER_RESET_DELAY \<Rightarrow> Some (if calc_wait_time (usb_now i) (wait_debounce u) POST_RESET_DELAY_MS \<noteq> 0
       then u\<lparr>u_state := REQUEST_DESCRIPTOR\<rparr> else u)
   | REQUEST_DESCRIPTOR \<Rightarrow>
       (let u = u\<lparr>descriptor_data := zero_descriptor_receive, setup_packet := dev_request\<rparr>;
            u = setup_packet_send (setup_bytes (setup_packet u)) u
        in Some (u\<lparr>u_state := WAIT_TX_INT, wait_debounce := usb_now i\<rparr>))
   | WAIT_TX_INT \<Rightarrow> Some u
   | HANDSHAKE \<Rightarrow> Some ((usb_emit [O_control_or 0x600000] u)\<lparr>u_state := WAIT_DESCRIPTOR, wait_debounce := usb_now i\<rparr>)
   | WAIT_DESCRIPTOR \<Rightarrow> Some (if calc_wait_time (usb_now i) (wait_debounce u) 500 \<noteq> 0 then
        (if request_count u < 5 then u\<lparr>request_count := request_count u + 1, u_state := REQUEST_DESCRIPTOR\<rparr>
         else u\<lparr>u_state := GENERALERROR\<rparr>) else u)
   | READ_DESCRIPTOR \<Rightarrow> do {
       u \<leftarrow> read_descriptor i u;
       let d = descriptor_data u;
       Some (if received d < descr_sz d
         then usb_emit [O_control_byte2 0x20] (u\<lparr>u_state := WAIT_DESCRIPTOR, wait_debounce := usb_now i\<rparr>)
         else u\<lparr>u_state := RUNNING, descriptor := take 18 (descr d), descriptor_available := 1\<rparr>) }
   | RUNNING \<Rightarrow> Some u
   | IDLE \<Rightarrow> Some (if IS_B_MODE i \<and> IS_VALID_VBUS i then usb_emit [O_session False, O_session True] u else u)
   | VBUSERROR \<Rightarrow> Some u
   | GENERALERROR \<Rightarrow> Some (usb_emit [O_puts (CHR 0x0A # ''Failed'')] (u\<lparr>request_count := 0\<rparr>)))"

definition update_state_machine :: "usb_in \<Rightarrow> usb_t \<Rightarrow> usb_t option" where
  "update_state_machine i u = do {
     u \<leftarrow> update_state_switch i u;
     Some (if IS_OVERCURRENT i then (usb_emit [O_power False] u)\<lparr>u_state := GENERALERROR, connected := 0\<rparr> else u) }"

definition update_transfer_state_machine :: "usb_in \<Rightarrow> usb_t \<Rightarrow> usb_t" where
  "update_transfer_state_machine i u = (case t_state u of
     TRANSFER_INT_VM \<Rightarrow> u
   | TRANSFER_IDLE \<Rightarrow> u
   | TRANSFER_START \<Rightarrow>
       (let u = u\<lparr>setup_packet := vendor_request, t_state := TRANSFER_SENDING, sent_sz := 0\<rparr>
        in setup_packet_send (setup_bytes (setup_packet u)) u)
   | TRANSFER_SENDING \<Rightarrow>
       (let u = data_packet_sent 3 u
        in if 2 < sent_sz u then u\<lparr>wait_debounce := usb_now i, t_state := TRANSFER_DONE\<rparr>
           else u\<lparr>t_state := TRANSFER_WAIT_TX_INT\<rparr>)
   | TRANSFER_WAIT_TX_INT \<Rightarrow> u
   | TRANSFER_DONE \<Rightarrow> u\<lparr>t_state := TRANSFER_IDLE\<rparr>)"

subsection \<open>Interrupt\<close>

definition usb_int_handler :: "usb_in \<Rightarrow> usb_t \<Rightarrow> usb_t" where
  "usb_int_handler i u =
     (let u = usb_emit [O_irq_clear 4] u;
          interrupts = usb_interrupts i;
          u = (if interrupts AND USB_DEVCONN_INT \<noteq> 0
            then u\<lparr>connected := 1, u_state := DEBOUNCE, wait_debounce := usb_now i\<rparr> else u);
          u = (if interrupts AND USB_DEVDISCONN_INT \<noteq> 0
            then u\<lparr>u_state := IDLE, t_state := TRANSFER_IDLE, connected := 0, descriptor_available := 0\<rparr> else u);
          u = (if interrupts AND USB_VBUSERR_INT \<noteq> 0
            then u\<lparr>u_state := VBUSERROR, connected := 0, descriptor_available := 0\<rparr> else u)
      in if usb_ep0if i then
           (if u_state u = WAIT_TX_INT then u\<lparr>u_state := HANDSHAKE\<rparr>
            else if u_state u = WAIT_DESCRIPTOR then u\<lparr>u_state := READ_DESCRIPTOR\<rparr>
            else if t_state u = TRANSFER_WAIT_TX_INT then u\<lparr>t_state := TRANSFER_SENDING\<rparr>
            else u)
         else u)"

subsection \<open>Hypercalls\<close>

text \<open>Without a \<open>return\<close> after the answer \<open>HCALL_USB_BUSY\<close>, the transfer is started all the same. A size above 64
  overruns \<open>buffer_tx\<close>.\<close>

definition usb_send_data :: "usb_t \<times> kst \<Rightarrow> (usb_t \<times> kst) option" where
  "usb_send_data = (\<lambda>(u, s). do {
     let buf = guest_reg s REG_A0;
     let sz = guest_reg s REG_A1;
     let s = (if t_state u \<noteq> TRANSFER_IDLE then set_V0 (- 5) s else s);
     m \<leftarrow> vm_executing s;
     vm \<leftarrow> vms s m;
     (bs, s) \<leftarrow> copy_from_guest buf (base_addr vm) sz sz s;
     if length (buffer_tx u) < length bs then None
     else Some (u\<lparr>buffer_tx := list_splice 0 bs (buffer_tx u), t_state := TRANSFER_START\<rparr>, set_V0 sz s) })"

text \<open>The 32 bytes of the structure, two of padding after the array.\<close>

definition descriptor_bytes :: "descriptor_receive \<Rightarrow> u8 list" where
  "descriptor_bytes d = descr d @ [0, 0] @ le_bytes (received d) @ le_bytes (descr_sz d) @ le_bytes (tranfer_sz d)"

definition get_descriptor :: "usb_t \<times> kst \<Rightarrow> (usb_t \<times> kst) option" where
  "get_descriptor = (\<lambda>(u, s). do {
     let buf = guest_reg s REG_A0;
     let sz = guest_reg s REG_A1;
     m \<leftarrow> vm_executing s;
     vm \<leftarrow> vms s m;
     s \<leftarrow> copy_to_guest buf (base_addr vm) sz (descriptor_bytes (descriptor_data u)) s;
     Some (u, set_V0 sz s) })"

definition usb_polling :: "usb_in \<Rightarrow> usb_t \<times> kst \<Rightarrow> (usb_t \<times> kst) option" where
  "usb_polling i = (\<lambda>(u, s). do {
     u \<leftarrow> (if u_state u = RUNNING then Some (update_transfer_state_machine i u) else update_state_machine i u);
     Some (u, set_V0 (descriptor_available u) s) })"

subsection \<open>Initialisation\<close>

definition usb_interrupt_enable :: "u32 \<Rightarrow> u32 \<Rightarrow> u32 \<Rightarrow> usb_t \<Rightarrow> usb_t" where
  "usb_interrupt_enable gen transmit receive = usb_emit [O_ie gen transmit receive]"

text \<open>The wait for a valid VBUS: the values read, one per iteration; it goes on for ever when none is valid.\<close>

fun usb_wait_vbus :: "usb_in list \<Rightarrow> bool" where
  "usb_wait_vbus [] = False"
| "usb_wait_vbus (i # is) = (IS_VALID_VBUS i \<or> usb_wait_vbus is)"

text \<open>\<open>offset\<close> is the vector that \<open>register_interrupt\<close> returns, \<open>reg_ok\<close> whether all three hypercalls were
  registered.\<close>

definition usb_start :: "u32 \<Rightarrow> bool \<Rightarrow> usb_in list \<Rightarrow> usb_t \<Rightarrow> usb_t option" where
  "usb_start offset reg_ok is u =
     (let u = usb_emit [O_off offset] u
      in if \<not> reg_ok then Some u
         else (let u = u\<lparr>u_state := IDLE, t_state := TRANSFER_IDLE\<rparr>;
                   u = usb_emit [O_pins, O_usbie, O_sofrst 3, O_sofrst 0] u;
                   u = usb_interrupt_enable 0 0 0 u;
                   u = usb_emit [O_hsen 0, O_idov, O_phyid, O_idval 0, O_idval 0] u;
                   u = usb_emit [O_irq_clear 4, O_irq_enable 4, O_irq_clear 5, O_irq_enable 5, O_power True] u;
                   u = usb_interrupt_enable 0xb0 1 0 u
               in if usb_wait_vbus is then Some (usb_emit [O_session True] u) else None))"

subsection \<open>Invariant, descriptors, transfers\<close>

text \<open>The field is one bit wide, so that the session is never restarted.\<close>

lemma never_B_mode: "\<not> IS_B_MODE i"
  by (simp add: IS_B_MODE_def of_cond_def)

lemma usb_emit_simps [simp]:
  "u_state (usb_emit os u) = u_state u" "descriptor_available (usb_emit os u) = descriptor_available u"
  "connected (usb_emit os u) = connected u" "wait_debounce (usb_emit os u) = wait_debounce u"
  "u_speed (usb_emit os u) = u_speed u" "descriptor_data (usb_emit os u) = descriptor_data u"
  "t_state (usb_emit os u) = t_state u" "sent_sz (usb_emit os u) = sent_sz u" "buffer_tx (usb_emit os u) = buffer_tx u"
  "request_count (usb_emit os u) = request_count u" "setup_packet (usb_emit os u) = setup_packet u"
  "descriptor (usb_emit os u) = descriptor u" "u_out (usb_emit os u) = u_out u @ os"
  by (simp_all add: usb_emit_def)

lemma setup_packet_send_eq:
  "setup_packet_send dat u = usb_emit (O_speed (case u_speed u of LOW_SPEED \<Rightarrow> 3 | FULL_SPEED \<Rightarrow> 2 | HIGH_SPEED \<Rightarrow> 1)
     # map O_fifo dat @ [O_control_or 0xA0000]) u"
  by (simp add: setup_packet_send_def ep0SetSpeed_def Let_def usb_emit_def)

text \<open>A data packet sends all three bytes at once.\<close>

lemma data_packet_three:
  assumes "sent_sz u = 0"
  shows "data_packet_sent 3 u = (usb_emit ([O_speed (case u_speed u of LOW_SPEED \<Rightarrow> 3 | FULL_SPEED \<Rightarrow> 2 | HIGH_SPEED \<Rightarrow> 1),
     O_fifo (buffer_tx u ! 0), O_fifo (buffer_tx u ! 1), O_fifo (buffer_tx u ! 2), O_control_byte2 2]) u)\<lparr>sent_sz := 3\<rparr>"
proof -
  have loop: "data_packet_loop (Suc (Suc (Suc (Suc k)))) 3 v
      = (usb_emit [O_fifo (buffer_tx v ! 0), O_fifo (buffer_tx v ! 1), O_fifo (buffer_tx v ! 2)] v)\<lparr>sent_sz := 3\<rparr>"
    if "sent_sz v = 0" for v k
    using that by (simp add: usb_emit_def)
  have e: "data_packet_loop 8 = data_packet_loop (Suc (Suc (Suc (Suc 4))))" by (simp add: numeral_eq_Suc)
  have "data_packet_loop 8 3 v
      = (usb_emit [O_fifo (buffer_tx v ! 0), O_fifo (buffer_tx v ! 1), O_fifo (buffer_tx v ! 2)] v)\<lparr>sent_sz := 3\<rparr>"
    if "sent_sz v = 0" for v
    unfolding e by (rule loop [OF that])
  then show ?thesis using assms by (simp add: data_packet_sent_def ep0SetSpeed_def Let_def usb_emit_def)
qed

text \<open>The descriptor read so far and one packet.\<close>

lemma read_descriptor_loop_eq:
  "length (descr d) = 18 \<Longrightarrow> unat (received d) \<le> 18 \<Longrightarrow>
   read_descriptor_loop q i k d =
     (if unat (received d) + k \<le> 18 then
        Some (d\<lparr>descr := list_splice (unat (received d)) (map q [i..<i + k]) (descr d), received := received d + of_nat k\<rparr>)
      else None)"
proof (induction q i k d rule: read_descriptor_loop.induct)
  case (1 q i d)
  then show ?case by (simp add: list_splice_def)
next
  case (2 q i k d)
  let ?n = "unat (received d)"
  let ?d = "d\<lparr>descr := (descr d)[?n := q i], received := received d + 1\<rparr>"
  show ?case
  proof (cases "?n < 18")
    case True
    then have r: "unat (received d + 1) = ?n + 1" by (subst unat_add_small) simp_all
    have "read_descriptor_loop q i (Suc k) d = read_descriptor_loop q (i + 1) k ?d" using True 2 by simp
    also have "\<dots> = (if ?n + 1 + k \<le> 18 then
        Some (?d\<lparr>descr := list_splice (?n + 1) (map q [i + 1..<i + 1 + k]) ((descr d)[?n := q i]),
          received := received d + 1 + of_nat k\<rparr>) else None)"
      using 2 True r by simp
    also have "list_splice (?n + 1) (map q [i + 1..<i + 1 + k]) ((descr d)[?n := q i])
        = list_splice ?n (map q [i..<i + Suc k]) (descr d)"
      using True 2 by (simp add: list_splice_def upt_conv_Cons take_Suc_conv_app_nth del: upt_Suc)
    finally show ?thesis using True by (simp add: algebra_simps del: upt_Suc)
  qed (use 2 in auto)
qed

definition usb_ok :: "usb_t \<Rightarrow> bool" where
  "usb_ok u \<longleftrightarrow> length (descr (descriptor_data u)) = 18 \<and> unat (received (descriptor_data u)) \<le> 18 \<and>
     length (buffer_tx u) = 64 \<and> request_count u \<le> 5 \<and>
     (u_state u \<in> {IDLE, VBUSERROR, GENERALERROR} \<or> connected u = 1) \<and>
     (u_state u = RUNNING \<longrightarrow> descriptor_available u = 1) \<and>
     t_state u \<noteq> TRANSFER_WAIT_TX_INT \<and> (t_state u = TRANSFER_SENDING \<longrightarrow> sent_sz u = 0)"

lemma received_small: "unat (a :: u32) + unat b \<le> 18 \<Longrightarrow> unat (a + b) = unat a + unat b"
  by (subst unat_add_small) simp_all

lemma read_descriptor_some:
  assumes "usb_ok u" "read_descriptor i u = Some u'"
  shows "\<exists>d os. u' = (usb_emit os u)\<lparr>descriptor_data := d\<rparr> \<and> length (descr d) = 18 \<and> unat (received d) \<le> 18"
proof -
  let ?d = "descriptor_data u"
  have l: "length (descr ?d) = 18" "unat (received ?d) \<le> 18" using assms(1) by (simp_all add: usb_ok_def)
  obtain d where d: "read_descriptor_loop (usb_fifo i) 0 (unat (usb_rxcnt i)) ?d = Some d"
    using assms(2) by (auto simp: read_descriptor_def Let_def)
  from d have "length (descr d) = 18" "unat (received d) \<le> 18"
    using received_small [of "received ?d" "usb_rxcnt i"] l
    by (auto simp: read_descriptor_loop_eq [OF l] length_list_splice split: if_splits)
  then show ?thesis using assms(2) d by (auto simp: read_descriptor_def Let_def split: if_splits)
qed

lemma request_count_less: "x < 5 \<Longrightarrow> x + 1 \<le> (5 :: u32)"
  by unat_arith

lemma update_state_switch_ok:
  assumes "usb_ok u" "update_state_switch i u = Some u'"
  shows "usb_ok u'"
proof (cases "u_state u = READ_DESCRIPTOR")
  case True
  then obtain v where v: "read_descriptor i u = Some v" using assms(2) by (auto simp: update_state_switch_def)
  with read_descriptor_some [OF assms(1) v] True assms show ?thesis
    by (auto simp: update_state_switch_def usb_ok_def Let_def split: if_splits)
next
  case False
  then show ?thesis using assms request_count_less [of "request_count u"]
    by (cases "u_state u") (auto simp: update_state_switch_def usb_ok_def Let_def never_B_mode setup_packet_send_eq
      zero_descriptor_receive_def split: if_splits)
qed

lemma update_state_machine_ok: "usb_ok u \<Longrightarrow> update_state_machine i u = Some u' \<Longrightarrow> usb_ok u'"
proof -
  assume "usb_ok u" "update_state_machine i u = Some u'"
  then obtain v where "usb_ok v" "u' = (if IS_OVERCURRENT i then (usb_emit [O_power False] v)\<lparr>u_state := GENERALERROR, connected := 0\<rparr> else v)"
    using update_state_switch_ok [of u i] by (auto simp: update_state_machine_def)
  then show ?thesis by (simp add: usb_ok_def)
qed

lemma update_transfer_ok: "usb_ok u \<Longrightarrow> usb_ok (update_transfer_state_machine i u)"
  by (cases "t_state u") (auto simp: update_transfer_state_machine_def usb_ok_def Let_def setup_packet_send_eq data_packet_three)

lemma usb_int_handler_ok: "usb_ok u \<Longrightarrow> usb_ok (usb_int_handler i u)"
  by (cases "u_state u") (simp_all add: usb_int_handler_def Let_def usb_ok_def)

inductive usb_step :: "usb_t \<times> kst \<Rightarrow> usb_t \<times> kst \<Rightarrow> bool" where
  poll: "usb_polling i p = Some p' \<Longrightarrow> usb_step p p'"
| irq: "usb_step (u, s) (usb_int_handler i u, s)"
| send: "usb_send_data p = Some p' \<Longrightarrow> usb_step p p'"
| get: "get_descriptor p = Some p' \<Longrightarrow> usb_step p p'"
| kernel: "usb_step (u, s) (u, s')"

lemma usb_step_ok: "usb_step p p' \<Longrightarrow> usb_ok (fst p) \<Longrightarrow> usb_ok (fst p')"
proof (induction rule: usb_step.induct)
  case (poll i p p')
  then show ?case using update_transfer_ok update_state_machine_ok
    by (auto simp: usb_polling_def split_beta split: if_splits)
next
  case (send p p')
  then show ?case by (auto simp: usb_send_data_def split_beta Let_def usb_ok_def length_list_splice split: if_splits)
next
  case (get p p')
  then show ?case by (auto simp: get_descriptor_def split_beta Let_def)
qed (simp_all add: usb_int_handler_ok)

lemma usb_steps_ok: "usb_step\<^sup>*\<^sup>* p p' \<Longrightarrow> usb_ok (fst p) \<Longrightarrow> usb_ok (fst p')"
  by (induction rule: rtranclp_induct) (auto dest: usb_step_ok)

text \<open>The driver's state before \<open>usb_start\<close>: static storage, zero.\<close>

definition usb_zero :: "usb_t \<Rightarrow> bool" where
  "usb_zero u \<longleftrightarrow> u_state u = IDLE \<and> descriptor_available u = 0 \<and> connected u = 0 \<and>
     descriptor_data u = zero_descriptor_receive \<and> t_state u = TRANSFER_INT_VM \<and> sent_sz u = 0 \<and>
     buffer_tx u = replicate 64 0 \<and> request_count u = 0"

lemma usb_zero_ok: "usb_zero u \<Longrightarrow> usb_ok u"
  by (simp add: usb_zero_def usb_ok_def zero_descriptor_receive_def)

lemma usb_start_ok: "usb_zero u \<Longrightarrow> usb_start offset reg_ok is u = Some u' \<Longrightarrow> usb_ok u'"
  by (auto simp: usb_start_def usb_interrupt_enable_def usb_zero_def usb_ok_def zero_descriptor_receive_def Let_def split: if_splits)

text \<open>A packet that fits is appended to the descriptor; one that does not overruns the array.\<close>

lemma read_descriptor_overrun:
  assumes "usb_ok u"
  shows "read_descriptor i u = None \<longleftrightarrow> 18 < unat (received (descriptor_data u)) + unat (usb_rxcnt i)"
proof -
  have l: "length (descr (descriptor_data u)) = 18" "unat (received (descriptor_data u)) \<le> 18"
    using assms by (simp_all add: usb_ok_def)
  show ?thesis by (auto simp: read_descriptor_def Let_def read_descriptor_loop_eq [OF l])
qed

lemma read_descriptor_appends:
  assumes "usb_ok u" "read_descriptor i u = Some u'"
  defines "n \<equiv> unat (received (descriptor_data u))" and "k \<equiv> unat (usb_rxcnt i)"
  shows "unat (received (descriptor_data u')) = n + k \<and>
    descr (descriptor_data u') = list_splice n (map (usb_fifo i) [0..<k]) (descr (descriptor_data u))"
proof -
  have l: "length (descr (descriptor_data u)) = 18" "unat (received (descriptor_data u)) \<le> 18"
    using assms(1) by (simp_all add: usb_ok_def)
  have b: "n + k \<le> 18" using assms(2) by (auto simp: read_descriptor_def Let_def read_descriptor_loop_eq [OF l] n_def k_def split: if_splits)
  then have "unat (received (descriptor_data u) + usb_rxcnt i) = n + k" by (simp add: received_small n_def k_def)
  then show ?thesis using assms(2) b
    by (auto simp: read_descriptor_def Let_def read_descriptor_loop_eq [OF l] n_def k_def split: if_splits)
qed

text \<open>A transfer from the request of the guest to idle takes three polls and sends the setup packet and the first
  three bytes.\<close>

fun sent_bytes :: "usb_out list \<Rightarrow> u8 list" where
  "sent_bytes [] = []"
| "sent_bytes (O_fifo b # os) = b # sent_bytes os"
| "sent_bytes (_ # os) = sent_bytes os"

lemma sent_bytes_append: "sent_bytes (xs @ ys) = sent_bytes xs @ sent_bytes ys"
  by (induction xs rule: sent_bytes.induct) simp_all

lemma sent_bytes_fifo: "sent_bytes (map O_fifo bs) = bs"
  by (induction bs) simp_all

lemma transfer_start_poll:
  assumes "t_state u = TRANSFER_START"
  shows "update_transfer_state_machine i u =
    setup_packet_send (setup_bytes vendor_request) (u\<lparr>setup_packet := vendor_request, t_state := TRANSFER_SENDING, sent_sz := 0\<rparr>)"
  using assms by (simp add: update_transfer_state_machine_def Let_def)

lemma transfer_send_poll:
  assumes "t_state u = TRANSFER_SENDING" "sent_sz u = 0"
  shows "update_transfer_state_machine i u = (data_packet_sent 3 u)\<lparr>wait_debounce := usb_now i, t_state := TRANSFER_DONE\<rparr>"
  using assms by (simp add: update_transfer_state_machine_def Let_def data_packet_three)

lemma usb_transfer_three_polls:
  assumes "t_state u = TRANSFER_START" "length (buffer_tx u) = 64"
    and u'_def: "u' = update_transfer_state_machine i3 (update_transfer_state_machine i2 (update_transfer_state_machine i1 u))"
  shows "t_state u' = TRANSFER_IDLE \<and> sent_bytes (u_out u') = sent_bytes (u_out u) @ setup_bytes vendor_request @ take 3 (buffer_tx u)"
proof -
  define u1 where "u1 = update_transfer_state_machine i1 u"
  have u1: "t_state u1 = TRANSFER_SENDING" "sent_sz u1 = 0" "buffer_tx u1 = buffer_tx u"
    "sent_bytes (u_out u1) = sent_bytes (u_out u) @ setup_bytes vendor_request"
    unfolding u1_def transfer_start_poll [OF assms(1)] setup_packet_send_eq
    by (simp_all add: sent_bytes_append sent_bytes_fifo)
  define u2 where "u2 = update_transfer_state_machine i2 u1"
  have "take 3 (buffer_tx u) = [buffer_tx u ! 0, buffer_tx u ! 1, buffer_tx u ! 2]"
    using assms(2) by (simp add: take_Suc_conv_app_nth numeral_3_eq_3 numeral_2_eq_2)
  then have u2: "t_state u2 = TRANSFER_DONE" "sent_bytes (u_out u2) = sent_bytes (u_out u1) @ take 3 (buffer_tx u)"
    unfolding u2_def transfer_send_poll [OF u1(1,2)] data_packet_three [OF u1(2)]
    by (simp_all add: sent_bytes_append u1(3))
  show ?thesis using u1 u2 by (simp add: u'_def u1_def [symmetric] u2_def [symmetric])
    (simp add: update_transfer_state_machine_def)
qed

text \<open>A send during a transfer is not refused.\<close>

lemma usb_send_busy:
  assumes "usb_send_data (u, s) = Some (u', s')" 
  shows "t_state u' = TRANSFER_START \<and> guest_reg s' REG_V0 = guest_reg s REG_A1"
proof -
  have r: "guest_reg (set_V0 v z) REG_V0 = v" for v z
    by (simp add: upd_mach_def MoveToPreviousGuestGPR_def MoveFromPreviousGuestGPR_def prev_set_def)
  show ?thesis using assms
    by (auto simp: usb_send_data_def Let_def r simp del: One_nat_def split: if_splits)
qed

end
