(* ===== verification/Eth.thy ===== *)
theory Eth
  imports Usb
begin

text \<open>
  The network driver, \<^verbatim>\<open>drivers/pic32mz-ethernet.c\<close>: the transceiver behind the management interface, the
  controller's set-up, the rings of descriptors and the hypercalls that move frames.

  \<open>eth_t\<close> is the structure \<open>eth_port\<close> with the driver's static variables; the descriptors are lists. What the
  controller does between two reads of a register in a waiting loop is \<open>ctl\<close>, an arbitrary function on the
  machine. The variables \<open>read_index\<close>, \<open>desc_offset\<close>, \<open>frame_size\<close> and \<open>read_nbytes\<close>, static in the source, are
  set at the start of every \<open>en_ll_input\<close> and are arguments of its loop here.

  The lemmas show which bytes of a frame reach the guest, that the waiting loops return when the counter runs,
  and that the check for exhausted memory never fires.
\<close>

subsection \<open>Registers and constants\<close>

definition ETHCON1 :: u32 where "ETHCON1 = SFR_BASE + 0x82000"
definition ETHCON2 :: u32 where "ETHCON2 = SFR_BASE + 0x82010"
definition ETHTXST :: u32 where "ETHTXST = SFR_BASE + 0x82020"
definition ETHRXST :: u32 where "ETHRXST = SFR_BASE + 0x82030"
definition ETHHT0 :: u32 where "ETHHT0 = SFR_BASE + 0x82040"
definition ETHHT1 :: u32 where "ETHHT1 = SFR_BASE + 0x82050"
definition ETHPMM0 :: u32 where "ETHPMM0 = SFR_BASE + 0x82060"
definition ETHPMM1 :: u32 where "ETHPMM1 = SFR_BASE + 0x82070"
definition ETHPMCS :: u32 where "ETHPMCS = SFR_BASE + 0x82080"
definition ETHRXFC :: u32 where "ETHRXFC = SFR_BASE + 0x820a0"
definition ETHRXWM :: u32 where "ETHRXWM = SFR_BASE + 0x820b0"
definition ETHIEN :: u32 where "ETHIEN = SFR_BASE + 0x820c0"
definition ETHIRQ :: u32 where "ETHIRQ = SFR_BASE + 0x820d0"
definition ETHSTAT :: u32 where "ETHSTAT = SFR_BASE + 0x820e0"
definition EMAC1CFG1 :: u32 where "EMAC1CFG1 = SFR_BASE + 0x82200"
definition EMAC1CFG2 :: u32 where "EMAC1CFG2 = SFR_BASE + 0x82210"
definition EMAC1IPGT :: u32 where "EMAC1IPGT = SFR_BASE + 0x82220"
definition EMAC1IPGR :: u32 where "EMAC1IPGR = SFR_BASE + 0x82230"
definition EMAC1CLRT :: u32 where "EMAC1CLRT = SFR_BASE + 0x82240"
definition EMAC1MAXF :: u32 where "EMAC1MAXF = SFR_BASE + 0x82250"
definition EMAC1SUPP :: u32 where "EMAC1SUPP = SFR_BASE + 0x82260"
definition EMAC1MCFG :: u32 where "EMAC1MCFG = SFR_BASE + 0x82280"
definition EMAC1MCMD :: u32 where "EMAC1MCMD = SFR_BASE + 0x82290"
definition EMAC1MADR :: u32 where "EMAC1MADR = SFR_BASE + 0x822a0"
definition EMAC1MWTD :: u32 where "EMAC1MWTD = SFR_BASE + 0x822b0"
definition EMAC1MRDD :: u32 where "EMAC1MRDD = SFR_BASE + 0x822c0"
definition EMAC1MIND :: u32 where "EMAC1MIND = SFR_BASE + 0x822d0"
definition EMAC1SA0 :: u32 where "EMAC1SA0 = SFR_BASE + 0x82300"
definition EMAC1SA1 :: u32 where "EMAC1SA1 = SFR_BASE + 0x82310"
definition EMAC1SA2 :: u32 where "EMAC1SA2 = SFR_BASE + 0x82320"
definition DEVID :: u32 where "DEVID = SFR_BASE + 0x20"

abbreviation (input) "IRQ_ETH \<equiv> 153 :: u32"
abbreviation (input) "ETHCON1_ON \<equiv> 0x8000 :: u32"
abbreviation (input) "ETHCON1_TXRTS \<equiv> 0x200 :: u32"
abbreviation (input) "ETHCON1_RXEN \<equiv> 0x100 :: u32"
abbreviation (input) "ETHCON1_BUFCDEC \<equiv> 1 :: u32"
abbreviation (input) "MIIMBUSY \<equiv> 1 :: u32"
abbreviation (input) "NOTVALID \<equiv> 4 :: u32"
abbreviation (input) "PHY_CONTROL \<equiv> 0 :: u32"
abbreviation (input) "PHY_STATUS \<equiv> 1 :: u32"
abbreviation (input) "PHY_ADVRT \<equiv> 4 :: u32"
abbreviation (input) "ADVERTISE_ALL \<equiv> 0x1E0 :: u32"

definition MTU :: u32 where "MTU = 1536"
definition RX_BYTES_PER_DESC :: u32 where "RX_BYTES_PER_DESC = 128"
definition RX_BYTES :: u32 where "RX_BYTES = 4 * MTU"
definition RX_DESCRIPTORS :: u32 where "RX_DESCRIPTORS = RX_BYTES div RX_BYTES_PER_DESC"
definition TX_DESCRIPTORS :: u32 where "TX_DESCRIPTORS = 6"

record eth_desc_t =
  d_hdr :: u32
  d_paddr :: u32
  d_ctl :: u32
  d_status :: u32

record eth_t =
  macaddr :: "u8 list"
  is_up :: u32
  phy_addr :: u32
  phy_id :: u32
  rx_buf :: u32
  rx_desc :: "eth_desc_t list"
  rx_desc_p :: u32
  tx_desc :: "eth_desc_t list"
  tx_desc_p :: u32
  receive_index :: nat
  eth_vcpu :: ptr
  tx_buf :: u32

definition DESC_EOP :: "eth_desc_t \<Rightarrow> bool" where "DESC_EOP d \<longleftrightarrow> d_hdr d AND 0x40000000 \<noteq> 0"
definition DESC_EOWN :: "eth_desc_t \<Rightarrow> bool" where "DESC_EOWN d \<longleftrightarrow> d_hdr d AND 0x80 \<noteq> 0"
definition DESC_SET_EOWN :: "eth_desc_t \<Rightarrow> eth_desc_t" where "DESC_SET_EOWN d = d\<lparr>d_hdr := d_hdr d OR 0x80\<rparr>"
definition DESC_BYTECNT :: "eth_desc_t \<Rightarrow> u32" where "DESC_BYTECNT d = drop_bit 16 (d_hdr d) AND 0x7ff"
definition DESC_FRAMESZ :: "eth_desc_t \<Rightarrow> u32" where "DESC_FRAMESZ d = d_status d AND 0xffff"
definition DESC_SET_NPV :: "eth_desc_t \<Rightarrow> eth_desc_t" where "DESC_SET_NPV d = d\<lparr>d_hdr := d_hdr d OR 0x100\<rparr>"
definition DESC_CLEAR_NPV :: "eth_desc_t \<Rightarrow> eth_desc_t" where "DESC_CLEAR_NPV d = d\<lparr>d_hdr := d_hdr d AND NOT 0x100\<rparr>"
definition MACH_VIRT_TO_PHYS :: "u32 \<Rightarrow> u32" where "MACH_VIRT_TO_PHYS x = x AND 0x1fffffff"
definition MACH_PHYS_TO_VIRT :: "u32 \<Rightarrow> u32" where "MACH_PHYS_TO_VIRT x = x OR 0xa0000000"
definition INCR_RX_INDEX :: "nat \<Rightarrow> nat" where "INCR_RX_INDEX i = (i + 1) mod unat RX_DESCRIPTORS"

definition zero_desc :: eth_desc_t where
  "zero_desc = \<lparr>d_hdr = 0, d_paddr = 0, d_ctl = 0, d_status = 0\<rparr>"

definition delay_ms :: "u32 \<Rightarrow> hw \<Rightarrow> hw option" where
  "delay_ms x = udelay (x * 1000)"

subsection \<open>The transceiver\<close>

text \<open>The waiting loop \<open>while (cond) if (now - time_start > timeout) return -1;\<close>: whether it timed out.\<close>

partial_function (option) phy_wait :: "(hw \<Rightarrow> hw) \<Rightarrow> (hw \<Rightarrow> bool) \<Rightarrow> u32 \<Rightarrow> u32 \<Rightarrow> hw \<Rightarrow> (bool \<times> hw) option" where
  "phy_wait ctl busy time_start timeout h =
     (if busy h then
        (if timeout < fst (mfc0_count h) - time_start then Some (True, snd (mfc0_count h))
         else phy_wait ctl busy time_start timeout (ctl (snd (mfc0_count h))))
      else Some (False, h))"

definition miim_busy :: "hw \<Rightarrow> bool" where
  "miim_busy h \<longleftrightarrow> sfr h EMAC1MIND AND MIIMBUSY \<noteq> 0"

definition wait_from_now :: "(hw \<Rightarrow> hw) \<Rightarrow> (hw \<Rightarrow> bool) \<Rightarrow> u32 \<Rightarrow> hw \<Rightarrow> (bool \<times> hw) option" where
  "wait_from_now ctl busy timeout h = (let (time_start, h) = mfc0_count h in phy_wait ctl busy time_start timeout h)"

definition phy_timeout :: "u32 \<Rightarrow> u32" where
  "phy_timeout msec = msec * (CPU_FREQ div 2000)"

definition phy_read :: "(hw \<Rightarrow> hw) \<Rightarrow> u32 \<Rightarrow> u32 \<Rightarrow> u32 \<Rightarrow> hw \<Rightarrow> (u32 \<times> hw) option" where
  "phy_read ctl phy reg_num msec h = do {
     let (time_start, h) = mfc0_count h;
     let timeout = phy_timeout msec;
     let h = sfr_write EMAC1MCMD 0 h;
     (late, h) \<leftarrow> phy_wait ctl miim_busy time_start timeout h;
     if late then Some (- 1, h)
     else do {
       let h = sfr_write EMAC1MADR (push_bit 8 phy OR reg_num) h;
       let h = sfr_set EMAC1MCMD 1 h;
       h \<leftarrow> delay_ms 1 h;
       (late, h) \<leftarrow> wait_from_now ctl miim_busy timeout h;
       let h = sfr_write EMAC1MCMD 0 h;
       if late then Some (- 1, h) else Some (sfr h EMAC1MRDD AND 0xffff, h) } }"

text \<open>\<open>expected\<close> is 0 or 1, compared with the truth value of the test.\<close>

definition phy_scan :: "(hw \<Rightarrow> hw) \<Rightarrow> u32 \<Rightarrow> u32 \<Rightarrow> u32 \<Rightarrow> u32 \<Rightarrow> u32 \<Rightarrow> hw \<Rightarrow> (u32 \<times> hw) option" where
  "phy_scan ctl phy reg_num scan_mask expected msec h = do {
     let (time_start, h) = mfc0_count h;
     let timeout = phy_timeout msec;
     let h = sfr_write EMAC1MCMD 0 h;
     (late, h) \<leftarrow> phy_wait ctl miim_busy time_start timeout h;
     if late then Some (- 1, h)
     else do {
       let h = sfr_write EMAC1MADR (push_bit 8 phy OR reg_num) h;
       let h = sfr_set EMAC1MCMD 2 h;
       h \<leftarrow> delay_ms 1 h;
       (late, h) \<leftarrow> wait_from_now ctl (\<lambda>h. sfr h EMAC1MIND AND NOTVALID \<noteq> 0) timeout h;
       if late then Some (- 1, h)
       else do {
         (late, h) \<leftarrow> wait_from_now ctl
           (\<lambda>h. of_cond (sfr h EMAC1MRDD AND scan_mask = scan_mask) \<noteq> expected) timeout h;
         if late then Some (- 1, h)
         else do {
           let h = sfr_write EMAC1MCMD 0 h;
           h \<leftarrow> delay_ms 1 h;
           (late, h) \<leftarrow> wait_from_now ctl miim_busy timeout h;
           Some (if late then - 1 else 0, h) } } } }"

definition phy_write :: "(hw \<Rightarrow> hw) \<Rightarrow> u32 \<Rightarrow> u32 \<Rightarrow> u32 \<Rightarrow> u32 \<Rightarrow> hw \<Rightarrow> (u32 \<times> hw) option" where
  "phy_write ctl phy reg_num val msec h = do {
     let (time_start, h) = mfc0_count h;
     let timeout = phy_timeout msec;
     let h = sfr_write EMAC1MCMD 0 h;
     (late, h) \<leftarrow> phy_wait ctl miim_busy time_start timeout h;
     if late then Some (- 1, h)
     else do {
       let h = sfr_write EMAC1MADR (push_bit 8 phy OR reg_num) h;
       let h = sfr_write EMAC1MWTD val h;
       h \<leftarrow> delay_ms 1 h;
       (late, h) \<leftarrow> wait_from_now ctl miim_busy timeout h;
       Some (if late then - 1 else 0, h) } }"

definition phy_reset :: "(hw \<Rightarrow> hw) \<Rightarrow> u32 \<Rightarrow> hw \<Rightarrow> (u32 \<times> hw) option" where
  "phy_reset ctl phy h = do {
     (_, h) \<leftarrow> phy_write ctl phy PHY_ADVRT 0 100 h;
     (advrt, h) \<leftarrow> phy_read ctl phy PHY_ADVRT 1 h;
     if advrt AND ADVERTISE_ALL \<noteq> 0 then Some (- 1, h)
     else do {
       (_, h) \<leftarrow> phy_write ctl phy PHY_ADVRT (1 OR ADVERTISE_ALL) 100 h;
       (advrt, h) \<leftarrow> phy_read ctl phy PHY_ADVRT 1 h;
       if advrt AND ADVERTISE_ALL \<noteq> ADVERTISE_ALL then Some (- 1, h)
       else do {
         (r, h) \<leftarrow> phy_write ctl phy PHY_CONTROL 0x8000 100 h;
         if r <s 0 then Some (- 1, h)
         else do {
           (r, h) \<leftarrow> phy_scan ctl phy PHY_CONTROL 0x8000 0 500 h;
           if r <s 0 then Some (- 1, h)
           else do {
             (_, h) \<leftarrow> phy_write ctl phy PHY_ADVRT (1 OR ADVERTISE_ALL) 100 h;
             (_, h) \<leftarrow> phy_write ctl phy PHY_CONTROL (0x1000 OR 0x200) 100 h;
             Some (0, h) } } } } }"

text \<open>The pair is speed and duplex; a failed read, - 1, has all bits set.\<close>

definition phy_lan87x0a_poll :: "(hw \<Rightarrow> hw) \<Rightarrow> u32 \<Rightarrow> u32 \<times> u32 \<Rightarrow> hw \<Rightarrow> ((u32 \<times> u32) \<times> hw) option" where
  "phy_lan87x0a_poll ctl phy sd h = do {
     (special, h) \<leftarrow> phy_read ctl phy 31 1 h;
     Some (if special AND 0x1000 \<noteq> 0 then (of_cond (special AND 8 \<noteq> 0), of_cond (special AND 0x10 \<noteq> 0)) else sd, h) }"

definition is_phy_linked :: "(hw \<Rightarrow> hw) \<Rightarrow> u32 \<Rightarrow> u32 \<times> u32 \<Rightarrow> hw \<Rightarrow> (u32 \<times> (u32 \<times> u32) \<times> hw) option" where
  "is_phy_linked ctl phy sd h = do {
     (status, h) \<leftarrow> phy_read ctl phy PHY_STATUS 1 h;
     if status <s 0 then Some (0, sd, h)
     else if status AND 4 = 0 then Some (0, sd, h)
     else if status AND 0x20 = 0 then Some (0, sd, h)
     else do {
       (sd, h) \<leftarrow> phy_lan87x0a_poll ctl phy sd h;
       Some (1, sd, h) } }"

subsection \<open>The controller\<close>

text \<open>\<open>while (reg & mask);\<close>\<close>

partial_function (option) wait_clear :: "(hw \<Rightarrow> hw) \<Rightarrow> u32 \<Rightarrow> u32 \<Rightarrow> hw \<Rightarrow> hw option" where
  "wait_clear ctl reg m h = (if sfr h reg AND m \<noteq> 0 then wait_clear ctl reg m (ctl h) else Some h)"

definition en_setup :: "(hw \<Rightarrow> hw) \<Rightarrow> hw \<Rightarrow> hw option" where
  "en_setup ctl h = do {
     let h = sfr_clr (IEC (drop_bit 5 IRQ_ETH)) (push_bit (unat (IRQ_ETH AND 31)) 1) h;
     let h = sfr_clr ETHCON1 (ETHCON1_ON OR ETHCON1_RXEN OR ETHCON1_TXRTS) h;
     h \<leftarrow> wait_clear ctl ETHSTAT 0x80 h;
     let h = sfr_clr (IFS (drop_bit 5 IRQ_ETH)) (push_bit (unat (IRQ_ETH AND 31)) 1) h;
     let h = sfr_write ETHIEN 0 h;
     let h = sfr_write ETHIRQ 0 h;
     let h = sfr_write ETHTXST 0 h;
     let h = sfr_write ETHRXST 0 h;
     let empty_watermark = MTU div RX_BYTES_PER_DESC;
     let full_watermark = RX_DESCRIPTORS - (MTU * 2) div RX_BYTES_PER_DESC;
     let h = sfr_write ETHRXWM (push_bit 16 full_watermark OR empty_watermark) h;
     let h = sfr_write ETHCON2 RX_BYTES_PER_DESC h;
     let h = sfr_write ETHRXFC (0x40 OR 0x10 OR 8 OR 1) h;
     let h = sfr_write ETHHT0 0 h;
     let h = sfr_write ETHHT1 0 h;
     let h = sfr_write ETHPMM0 0 h;
     let h = sfr_write ETHPMM1 0 h;
     let h = sfr_write ETHPMCS 0 h;
     Some (sfr_write ETHCON1 ETHCON1_ON h) }"

definition en_setup_mac :: "hw \<Rightarrow> hw option" where
  "en_setup_mac h = do {
     let h = sfr_write EMAC1CFG1 0x8000 h;
     h \<leftarrow> delay_ms 1 h;
     let h = sfr_write EMAC1CFG1 0 h;
     h \<leftarrow> delay_ms 1 h;
     let h = sfr_write EMAC1CFG1 (1 OR 8 OR 4) h;
     let h = sfr_write EMAC1CFG2 (0x20 OR 0x10 OR 0x4000 OR 0x80 OR 2) h;
     let h = sfr_write EMAC1MAXF 1518 h;
     let h = sfr_write EMAC1IPGR (push_bit 8 12 OR 18) h;
     Some (sfr_write EMAC1CLRT (push_bit 8 55 OR 15) h) }"

definition en_setup_rmii :: "hw \<Rightarrow> hw option" where
  "en_setup_rmii h = do {
     let h = sfr_write EMAC1SUPP 0x800 h;
     h \<leftarrow> delay_ms 1 h;
     let h = sfr_write EMAC1SUPP 0 h;
     let h = sfr_write EMAC1MCFG 0x8000 h;
     h \<leftarrow> delay_ms 1 h;
     let h = sfr_write EMAC1MCFG 0 h;
     Some (sfr_write EMAC1MCFG 0x20 h) }"

text \<open>\<open>offset\<close> is the vector \<open>register_interrupt\<close> returns. \<open>ETHIRQCLR = ETHIRQ\<close> clears what is pending.\<close>

definition en_enable_interrupts :: "u32 \<Rightarrow> hw \<Rightarrow> hw" where
  "en_enable_interrupts offset h =
     (let h = sfr_write (OFF IRQ_ETH) offset h;
          h = sfr_set ETHIEN 0x80 h;
          h = sfr_set (IPC 38) 0x1f00 h;
          h = sfr_clr (IFS (drop_bit 5 IRQ_ETH)) (push_bit 25 1) h;
          h = sfr_clr ETHIRQ (sfr h ETHIRQ) h
      in sfr_set (IEC (drop_bit 5 IRQ_ETH)) (push_bit 25 1) h)"

text \<open>The descriptors: the last one, past the ring, points back to the first.\<close>

definition en_setup_dma :: "eth_t \<times> hw \<Rightarrow> eth_t \<times> hw" where
  "en_setup_dma = (\<lambda>(e, h).
     (let n = unat RX_DESCRIPTORS;
          fresh = (\<lambda>i. (DESC_CLEAR_NPV (DESC_SET_EOWN zero_desc))
            \<lparr>d_paddr := MACH_VIRT_TO_PHYS (rx_buf e + of_nat i * RX_BYTES_PER_DESC)\<rparr>);
          ring = map fresh [0..<n] @ [zero_desc\<lparr>d_hdr := MACH_VIRT_TO_PHYS (rx_desc_p e)\<rparr>];
          ring = ring[n - 1 := DESC_SET_NPV (ring ! (n - 1))];
          e = e\<lparr>rx_desc := ring, receive_index := 0\<rparr>;
          h = sfr_write ETHRXST (MACH_VIRT_TO_PHYS (rx_desc_p e)) h;
          e = e\<lparr>tx_desc := replicate (unat TX_DESCRIPTORS + 1) zero_desc\<rparr>
      in (e, sfr_write ETHTXST (MACH_VIRT_TO_PHYS (tx_desc_p e)) h)))"

subsection \<open>Frames\<close>

text \<open>The copying loop of \<open>en_ll_input\<close>.\<close>

partial_function (option) rx_copy :: "eth_desc_t list \<Rightarrow> nat \<Rightarrow> u32 \<Rightarrow> u32 \<Rightarrow> u32 \<Rightarrow> u32 \<Rightarrow> hw \<Rightarrow> hw option" where
  "rx_copy ring read_index desc_offset frame_size read_nbytes buf h =
     (if frame_size = 0 then Some h
      else if length ring \<le> read_index then None
      else if DESC_EOWN (ring ! read_index) then Some h
      else (let d = ring ! read_index;
                nbytes = DESC_BYTECNT d;
                cb = min (nbytes - desc_offset) frame_size
            in Option.bind (read_bytes h (MACH_PHYS_TO_VIRT (d_paddr d + desc_offset)) (unat cb)) (\<lambda>bs.
               Option.bind (write_bytes buf bs h) (\<lambda>h.
               (let desc_offset = desc_offset + cb; read_nbytes = read_nbytes + cb; frame_size = frame_size - cb
                in if desc_offset = nbytes then
                     (if DESC_EOP d \<or> read_nbytes = frame_size then Some h
                      else rx_copy ring (INCR_RX_INDEX read_index) 0 frame_size read_nbytes (buf + cb) h)
                   else rx_copy ring read_index desc_offset frame_size read_nbytes (buf + cb) h)))))"

text \<open>Giving the descriptors of a packet back to the controller.\<close>

partial_function (option) rx_free :: "eth_desc_t list \<Rightarrow> nat \<Rightarrow> hw \<Rightarrow> (eth_desc_t list \<times> nat \<times> hw) option" where
  "rx_free ring i h =
     (if length ring \<le> i then None
      else if DESC_EOWN (ring ! i) then Some (ring, i, h)
      else (let eop = DESC_EOP (ring ! i);
                ring = ring[i := DESC_SET_EOWN (ring ! i)];
                h = sfr_set ETHCON1 ETHCON1_BUFCDEC h;
                i = INCR_RX_INDEX i
            in if eop then Some (ring, i, h) else rx_free ring i h))"

definition en_ll_input :: "u32 \<Rightarrow> eth_t \<times> hw \<Rightarrow> (u32 \<times> eth_t \<times> hw) option" where
  "en_ll_input frame = (\<lambda>(e, h).
     (if is_up e = 0 then Some (0, e, h)
      else if length (rx_desc e) \<le> receive_index e then None
      else if DESC_EOWN (rx_desc e ! receive_index e) then Some (0, e, h)
      else (let frame_size = DESC_FRAMESZ (rx_desc e ! receive_index e)
            in if frame_size = 0 then Some (0, e, h)
               else do {
                 h \<leftarrow> rx_copy (rx_desc e) (receive_index e) 0 frame_size 0 frame h;
                 (ring, i, h) \<leftarrow> rx_free (rx_desc e) (receive_index e) h;
                 Some (frame_size, e\<lparr>rx_desc := ring, receive_index := i\<rparr>, h) })))"

definition en_ll_output :: "(hw \<Rightarrow> hw) \<Rightarrow> u32 \<Rightarrow> u16 \<Rightarrow> eth_t \<times> hw \<Rightarrow> (eth_t \<times> hw) option" where
  "en_ll_output ctl frame sz = (\<lambda>(e, h).
     (if 0 < sz \<and> ucast sz \<le> MTU then do {
        h \<leftarrow> wait_clear ctl ETHCON1 ETHCON1_TXRTS h;
        let hdr = push_bit 16 (ucast sz) OR 0x80000000 OR 0x80 OR 0x40000000;
        let d = (tx_desc e ! 0)\<lparr>d_hdr := hdr, d_paddr := MACH_VIRT_TO_PHYS frame\<rparr>;
        let h = sfr_write ETHTXST (MACH_VIRT_TO_PHYS (tx_desc_p e)) h;
        Some (e\<lparr>tx_desc := (tx_desc e)[0 := d]\<rparr>, sfr_set ETHCON1 ETHCON1_TXRTS h) }
      else Some (e, h)))"

subsection \<open>Hypercalls and the interrupt\<close>

text \<open>\<open>fast_interrupt_delivery\<close> is the scheduler's.\<close>

definition ethernet_interrupt_handler :: "eth_t \<times> kst \<Rightarrow> (eth_t \<times> kst) option" where
  "ethernet_interrupt_handler = (\<lambda>(e, s). do {
     let s = fast_interrupt_delivery (eth_vcpu e) s;
     let s = upd_mach (sfr_clr (IFS (drop_bit 5 IRQ_ETH)) (push_bit 25 1)) s;
     Some (e, upd_mach (\<lambda>h. sfr_clr ETHIRQ (sfr h ETHIRQ) h) s) })"

definition executing_base :: "kst \<Rightarrow> u32 option" where
  "executing_base s = do { m \<leftarrow> vm_executing s; vm \<leftarrow> vms s m; Some (base_addr vm) }"

definition en_get_mac :: "eth_t \<times> kst \<Rightarrow> (eth_t \<times> kst) option" where
  "en_get_mac = (\<lambda>(e, s). do {
     base \<leftarrow> executing_base s;
     s \<leftarrow> copy_to_guest (guest_reg s REG_A0) base 6 (macaddr e) s;
     Some (e, s) })"

definition receive_frame :: "eth_t \<times> kst \<Rightarrow> (eth_t \<times> kst) option" where
  "receive_frame = (\<lambda>(e, s). do {
     let frame_ptr = guest_reg s REG_A0;
     base \<leftarrow> executing_base s;
     let (mapped, h) = tlbCreateEntry frame_ptr base MTU 0xf CACHEABLE (mach s);
     (framesz, e, h) \<leftarrow> en_ll_input mapped (e, h);
     Some (e, set_V0 framesz (s\<lparr>mach := h\<rparr>)) })"

text \<open>The size is not compared with the size of \<open>tx_buf\<close>; the copy goes on past its end.\<close>

definition send_frame :: "(hw \<Rightarrow> hw) \<Rightarrow> eth_t \<times> kst \<Rightarrow> (eth_t \<times> kst) option" where
  "send_frame ctl = (\<lambda>(e, s). do {
     let frame = guest_reg s REG_A0;
     let sz = guest_reg s REG_A1;
     base \<leftarrow> executing_base s;
     (bs, s) \<leftarrow> copy_from_guest frame base sz sz s;
     let buf = MACH_PHYS_TO_VIRT (MACH_VIRT_TO_PHYS (tx_buf e));
     h \<leftarrow> write_bytes buf bs (mach s);
     let s = set_V0 sz (s\<lparr>mach := h\<rparr>);
     (e, h) \<leftarrow> en_ll_output ctl buf (ucast sz) (e, mach s);
     Some (e, s\<lparr>mach := h\<rparr>) })"

definition en_watchdog :: "(hw \<Rightarrow> hw) \<Rightarrow> eth_t \<times> kst \<Rightarrow> (eth_t \<times> kst) option" where
  "en_watchdog ctl = (\<lambda>(e, s). do {
     let receiver_enabled = sfr (mach s) ETHCON1 AND ETHCON1_RXEN \<noteq> 0;
     (up, (speed_100, full_duplex), h) \<leftarrow> is_phy_linked ctl (phy_addr e) (1, 1) (mach s);
     let e = e\<lparr>is_up := up\<rparr>;
     let s = set_V0 up (s\<lparr>mach := h\<rparr>);
     let h = mach s;
     if up \<noteq> 0 \<and> \<not> receiver_enabled then do {
       let h = (if speed_100 \<noteq> 0 then sfr_set EMAC1SUPP 0x100 h else sfr_clr EMAC1SUPP 0x100 h);
       let h = (if full_duplex \<noteq> 0 then sfr_set EMAC1CFG2 1 h else sfr_clr EMAC1CFG2 1 h);
       let h = sfr_write EMAC1IPGT (if full_duplex \<noteq> 0 then 21 else 18) h;
       let (e, h) = en_setup_dma (e, h);
       Some (e, s\<lparr>mach := sfr_set ETHCON1 ETHCON1_RXEN h\<rparr>) }
     else if up = 0 \<and> receiver_enabled then do {
       let h = sfr_clr ETHCON1 ETHCON1_RXEN h;
       h \<leftarrow> wait_clear ctl ETHSTAT 0x20 h;
       Some (e, s\<lparr>mach := h\<rparr>) }
     else Some (e, s\<lparr>mach := h\<rparr>) })"

subsection \<open>Pins\<close>

text \<open>The registers of port \<open>p\<close> (0 for A; the letter I is not used): analog selection, direction, latch.\<close>

definition ANSEL :: "u32 \<Rightarrow> u32" where "ANSEL p = SFR_BASE + 0x60000 + push_bit 8 p"
definition TRIS :: "u32 \<Rightarrow> u32" where "TRIS p = SFR_BASE + 0x60010 + push_bit 8 p"
definition LAT :: "u32 \<Rightarrow> u32" where "LAT p = SFR_BASE + 0x60030 + push_bit 8 p"

abbreviation (input) "PORT_A \<equiv> 0 :: u32"
abbreviation (input) "PORT_B \<equiv> 1 :: u32"
abbreviation (input) "PORT_D \<equiv> 3 :: u32"
abbreviation (input) "PORT_E \<equiv> 4 :: u32"
abbreviation (input) "PORT_F \<equiv> 5 :: u32"
abbreviation (input) "PORT_G \<equiv> 6 :: u32"
abbreviation (input) "PORT_H \<equiv> 7 :: u32"
abbreviation (input) "PORT_J \<equiv> 8 :: u32"

definition pin_digital :: "u32 \<times> nat \<Rightarrow> hw \<Rightarrow> hw" where
  "pin_digital = (\<lambda>(p, n). sfr_clr (ANSEL p) (push_bit n 1))"

definition pin_output :: "u32 \<times> nat \<Rightarrow> hw \<Rightarrow> hw" where
  "pin_output = (\<lambda>(p, n) h. sfr_clr (TRIS p) (push_bit n 1) (sfr_clr (LAT p) (push_bit n 1) h))"

definition set_pins :: "(u32 \<times> nat) list \<Rightarrow> (u32 \<times> nat) list \<Rightarrow> hw \<Rightarrow> hw" where
  "set_pins digital outs h = fold pin_output outs (fold pin_digital digital h)"

text \<open>\<open>_DEVCFG3\<close> is already the register's value, which \<open>*(uint32_t* )_DEVCFG3\<close> takes for an address.\<close>

definition fethio :: "hw \<Rightarrow> bool option" where
  "fethio h = do { w \<leftarrow> read32 h (sfr h 0xBFC0FFC0); Some (w AND 0x02000000 \<noteq> 0) }"

definition setup_signals :: "hw \<Rightarrow> hw option" where
  "setup_signals h =
     (let devid = sfr h DEVID AND 0x0fffffff
      in if devid \<in> set [0x05104053, 0x05109053, 0x05131053, 0x07203053, 0x07204053, 0x07208053, 0x07209053,
             0x07230053, 0x07231053] then do {
           f \<leftarrow> fethio h;
           Some (if f then set_pins [(PORT_E, 4), (PORT_E, 6), (PORT_E, 7), (PORT_E, 5), (PORT_B, 15)]
               [(PORT_E, 6), (PORT_E, 7), (PORT_E, 5)] h
             else set_pins [(PORT_B, 15)] [(PORT_F, 1), (PORT_F, 0), (PORT_D, 2)] h) }
         else if devid \<in> set [0x0510E053, 0x05113053, 0x0513B053, 0x0720D053, 0x0720E053, 0x07212053, 0x07213053,
             0x0723A053, 0x0723B053] then do {
           f \<leftarrow> fethio h;
           Some (if f then set_pins [(PORT_G, 9), (PORT_B, 12), (PORT_B, 13), (PORT_G, 8), (PORT_B, 11)]
               [(PORT_F, 1), (PORT_F, 0), (PORT_D, 2)] h
             else set_pins [(PORT_G, 9), (PORT_E, 8), (PORT_E, 9), (PORT_G, 8), (PORT_G, 15), (PORT_D, 14), (PORT_D, 15)]
               [(PORT_D, 14), (PORT_D, 15), (PORT_A, 15)] h) }
         else if devid \<in> set [0x05122053, 0x05127053, 0x0514F053, 0x07221053, 0x07222053, 0x07226053, 0x07227053,
             0x0724E053, 0x0724F053]
           then Some (set_pins [(PORT_J, 11), (PORT_H, 5), (PORT_H, 4), (PORT_J, 8), (PORT_J, 9)]
             [(PORT_J, 8), (PORT_J, 9), (PORT_D, 6)] h)
         else Some h)"

subsection \<open>Initialisation\<close>

text \<open>The search for the transceiver, from address \<open>a\<close>, with \<open>k\<close> addresses left.\<close>

fun find_phy :: "(hw \<Rightarrow> hw) \<Rightarrow> nat \<Rightarrow> u32 \<Rightarrow> hw \<Rightarrow> (u32 \<times> hw) option" where
  "find_phy ctl 0 a h = Some (a, h)"
| "find_phy ctl (Suc k) a h = do {
     (r, h) \<leftarrow> phy_reset ctl a h;
     if 0 \<le>s r then Some (a, h) else find_phy ctl k (a + 1) h }"

text \<open>The three buffers; a null pointer becomes the start of kseg1.\<close>

definition uncached :: "u32 \<Rightarrow> u32" where
  "uncached p = MACH_PHYS_TO_VIRT (MACH_VIRT_TO_PHYS p)"

definition alloc_buffers :: "eth_t \<times> kst \<Rightarrow> (eth_t \<times> kst) option" where
  "alloc_buffers = (\<lambda>(e, s). do {
     (s, p) \<leftarrow> k_malloc RX_BYTES s;
     let e = e\<lparr>rx_buf := uncached p\<rparr>;
     (s, p) \<leftarrow> k_malloc ((RX_DESCRIPTORS + 1) * 16) s;
     let e = e\<lparr>rx_desc_p := uncached p\<rparr>;
     (s, p) \<leftarrow> k_malloc ((TX_DESCRIPTORS + 1) * 16) s;
     Some (e\<lparr>tx_desc_p := uncached p\<rparr>, s) })"

datatype en_outcome = En_no_phy | En_out_of_memory | En_ready

text \<open>\<open>en_init\<close> up to the registration of its hypercalls, which a ready driver goes on to.\<close>

definition en_init :: "(hw \<Rightarrow> hw) \<Rightarrow> eth_t \<times> kst \<Rightarrow> (en_outcome \<times> eth_t \<times> kst) option" where
  "en_init ctl = (\<lambda>(e, s). do {
     h \<leftarrow> setup_signals (mach s);
     let e = e\<lparr>is_up := 0\<rparr>;
     h \<leftarrow> en_setup ctl h;
     h \<leftarrow> en_setup_mac h;
     h \<leftarrow> en_setup_rmii h;
     (a, h) \<leftarrow> find_phy ctl 32 0 h;
     let e = e\<lparr>phy_addr := a\<rparr>;
     if 32 \<le> a then Some (En_no_phy, e, s\<lparr>mach := sfr_write ETHCON1 0 h\<rparr>)
     else do {
       let e = e\<lparr>macaddr := [ucast (sfr h EMAC1SA2), ucast (drop_bit 8 (sfr h EMAC1SA2)),
         ucast (sfr h EMAC1SA1), ucast (drop_bit 8 (sfr h EMAC1SA1)),
         ucast (sfr h EMAC1SA0), ucast (drop_bit 8 (sfr h EMAC1SA0))]\<rparr>;
       (id1, h) \<leftarrow> phy_read ctl a 2 1 h;
       (id2, h) \<leftarrow> phy_read ctl a 3 1 h;
       let e = e\<lparr>phy_id := (push_bit 16 id1 OR id2) AND 0xfffffff0\<rparr>;
       (e, s) \<leftarrow> alloc_buffers (e, s\<lparr>mach := h\<rparr>);
       if rx_buf e = NULL \<or> rx_desc_p e = NULL \<or> tx_desc_p e = NULL then Some (En_out_of_memory, e, s)
       else Some (En_ready, e, s) } })"

text \<open>The rest, after the hypercalls: the VCPU that the interrupt is for, if the configuration names one, and its
  vector.\<close>

definition en_attach :: "u32 \<Rightarrow> eth_t \<times> kst \<Rightarrow> (eth_t \<times> kst) option" where
  "en_attach offset = (\<lambda>(e, s). do {
     v \<leftarrow> get_fast_int_vcpu_node s IRQ_ETH;
     let e = e\<lparr>eth_vcpu := v\<rparr>;
     Some (e, if v \<noteq> NULL then upd_mach (en_enable_interrupts offset) s else s) })"

subsection \<open>Waiting loops\<close>

text \<open>A waiting loop returns as soon as the condition clears or the counter passes the timeout.\<close>

lemma phy_wait_returns:
  assumes ctl: "\<And>h. count_src (ctl h) = count_src h \<and> count_reads (ctl h) = count_reads h"
    and late: "timeout < count_src h (count_reads h + n) - time_start"
  shows "\<exists>b h'. phy_wait ctl busy time_start timeout h = Some (b, h')"
  using late
proof (induction n arbitrary: h)
  case 0
  then show ?case by (subst phy_wait.simps, cases "busy h") (auto simp: mfc0_count_def)
next
  case (Suc n)
  let ?h = "ctl (snd (mfc0_count h))"
  have "timeout < count_src ?h (count_reads ?h + n) - time_start"
    using Suc.prems by (simp add: ctl mfc0_count_def)
  then have "\<exists>b h'. phy_wait ctl busy time_start timeout ?h = Some (b, h')" by (rule Suc.IH)
  then show ?case by (subst phy_wait.simps, cases "busy h") auto
qed

lemma phy_wait_verdict:
  assumes "phy_wait ctl busy time_start timeout h = Some r"
  shows "\<not> fst r \<longrightarrow> \<not> busy (snd r)"
proof (rule phy_wait.raw_induct [where P = "\<lambda>_ b _ _ _ r. \<not> fst r \<longrightarrow> \<not> b (snd r)"], goal_cases)
  case (1 f c b t0 t h r)
  have "\<not> fst r \<longrightarrow> \<not> b (snd r)" if "f c b t0 t (c (snd (mfc0_count h))) = Some r"
    using 1(1) [OF that] .
  then show ?case using 1(2) by (auto split: if_splits)
qed (rule assms)

lemma uncached_nonzero: "uncached p \<noteq> 0"
proof
  assume "uncached p = 0"
  then have "bit (uncached p) 31 = bit (0::u32) 31" by simp
  then show False by (simp add: uncached_def MACH_PHYS_TO_VIRT_def bit_or_iff) 
qed

lemma kseg1_bits:
  assumes "unat x < 2 ^ 29"
  shows "unat (MACH_PHYS_TO_VIRT x) = unat x + 0xa0000000" and "MACH_PHYS_TO_VIRT x AND 0x1fffffff = x"
proof -
  have x: "take_bit 29 x = x" 
    using assms by (simp add: word_unat_eq_iff unsigned_take_bit_eq take_bit_nat_eq_self)
  have c: "(0xa0000000::u32) = push_bit 29 5" "(0x1fffffff::u32) = mask 29"
    by (simp_all add: push_bit_eq_mult mask_eq_exp_minus_1)
  show "MACH_PHYS_TO_VIRT x AND 0x1fffffff = x"
    unfolding MACH_PHYS_TO_VIRT_def c by (simp add: x flip: take_bit_eq_mask)
  have "take_bit 29 y AND push_bit 29 z = 0" for y z :: u32
    by (rule bit_eqI) (simp add: bit_simps)
  from this [of x 5] have "x AND 0xa0000000 = 0" by (simp only: x c)
  then have "MACH_PHYS_TO_VIRT x = x + 0xa0000000"
    unfolding MACH_PHYS_TO_VIRT_def by (simp add: disjunctive_add_eq_or)
  then show "unat (MACH_PHYS_TO_VIRT x) = unat x + 0xa0000000"
    using assms by (simp add: unat_word_ariths)
qed

lemma translate_kseg1: "unat x < 2 ^ 29 \<Longrightarrow> translate h (MACH_PHYS_TO_VIRT x) = Some x"
  using kseg1_bits [of x] by (simp add: translate_def in_kseg01_def word_le_nat_alt word_less_nat_alt)


text \<open>The memory a kernel allocation returns is always an address of kseg1, null or not.\<close>

lemma alloc_buffers_nonzero:
  "alloc_buffers (e, s) = Some (e', s') \<Longrightarrow> rx_buf e' \<noteq> NULL \<and> rx_desc_p e' \<noteq> NULL \<and> tx_desc_p e' \<noteq> NULL"
  by (auto simp: alloc_buffers_def uncached_nonzero Let_def split: bind_splits prod.splits)

lemma en_init_never_out_of_memory:
  "en_init ctl (e, s) = Some (r, es) \<Longrightarrow> r \<noteq> En_out_of_memory"
  by (auto simp: en_init_def Let_def dest!: alloc_buffers_nonzero split: bind_splits if_splits prod.splits)

subsection \<open>Reception\<close>

text \<open>\<open>rx_parts ring i n\<close>: a frame of \<open>n\<close> bytes lies in the descriptors from \<open>i\<close> on, each full but the last, which
  alone ends the packet; none is the controller's.\<close>

definition rx_count :: "nat \<Rightarrow> nat" where "rx_count n = (n + 127) div 128"

definition rx_at :: "eth_desc_t list \<Rightarrow> nat \<Rightarrow> nat \<Rightarrow> eth_desc_t" where
  "rx_at ring i j = ring ! ((i + j) mod 48)"

definition rx_len :: "nat \<Rightarrow> nat \<Rightarrow> nat" where "rx_len n j = min 128 (n - 128 * j)"

definition rx_parts :: "eth_desc_t list \<Rightarrow> nat \<Rightarrow> nat \<Rightarrow> bool" where
  "rx_parts ring i n \<longleftrightarrow> 0 < n \<and> n \<le> 6144 \<and> i < 48 \<and> length ring = 49 \<and>
     (\<forall>j<rx_count n. let d = rx_at ring i j in \<not> DESC_EOWN d \<and> unat (DESC_BYTECNT d) = rx_len n j \<and>
        unat (d_paddr d) + 128 \<le> 2 ^ 29 \<and> (DESC_EOP d \<longleftrightarrow> Suc j = rx_count n))"

text \<open>The bytes of the frame, and how many of its descriptors are copied.\<close>

definition rx_bytes :: "mem \<Rightarrow> eth_desc_t list \<Rightarrow> nat \<Rightarrow> nat \<Rightarrow> nat \<Rightarrow> u8 list" where
  "rx_bytes m ring i n k = concat (map (\<lambda>j. bytes_at m (d_paddr (rx_at ring i j)) (rx_len n j)) [0..<k])"

definition rx_copied :: "nat \<Rightarrow> nat" where
  "rx_copied n = (if n mod 256 = 0 then n div 256 else rx_count n)"

lemma RX_DESCRIPTORS_48: "unat RX_DESCRIPTORS = 48"
  by (simp add: RX_DESCRIPTORS_def RX_BYTES_def RX_BYTES_PER_DESC_def MTU_def)

lemma INCR_RX_mod: "INCR_RX_INDEX ((i + j) mod 48) = (i + Suc j) mod 48"
  by (simp add: INCR_RX_INDEX_def RX_DESCRIPTORS_48 mod_Suc_eq)

lemma rx_bytes_Suc: "rx_bytes m ring i n (Suc k) =
    rx_bytes m ring i n k @ bytes_at m (d_paddr (rx_at ring i k)) (rx_len n k)"
  by (simp add: rx_bytes_def)

lemma length_rx_bytes: "128 * k \<le> n \<Longrightarrow> length (rx_bytes m ring i n k) = 128 * k"
  by (induction k) (simp_all add: rx_bytes_def rx_len_def)

lemma rx_copy_descriptor:
  assumes "fs \<noteq> 0" and "i < length ring" and "\<not> DESC_EOWN (ring ! i)"
    and c: "unat (DESC_BYTECNT (ring ! i)) = c" "0 < c" "c \<le> 128" "c \<le> unat fs"
    and p: "unat (d_paddr (ring ! i)) + 128 \<le> 2 ^ 29"
    and b: "\<And>k. k < c \<Longrightarrow> translate h (buf + of_nat k) = Some (B + of_nat k)"
  defines "h' \<equiv> h\<lparr>ram := store_bytes (ram h) B (bytes_at (ram h) (d_paddr (ring ! i)) c)\<rparr>"
  shows "rx_copy ring i 0 fs rn buf h =
    (if DESC_EOP (ring ! i) \<or> rn + of_nat c = fs - of_nat c then Some h'
     else rx_copy ring (INCR_RX_INDEX i) 0 (fs - of_nat c) (rn + of_nat c) (buf + of_nat c) h')"
proof -
  let ?d = "ring ! i"
  have cnt: "DESC_BYTECNT ?d = of_nat c" using c(1) by (metis of_nat_unat ucast_id)
  have "of_nat c \<le> fs" using c by (simp add: word_le_nat_alt unat_of_nat_small)
  then have m: "min (of_nat c) fs = of_nat c" by (simp add: min_def)
  have u: "unat (of_nat c :: u32) = c" using c by (simp add: unat_of_nat_small)
  have "translate h (MACH_PHYS_TO_VIRT (d_paddr ?d + 0) + of_nat k) = Some (d_paddr ?d + of_nat k)" if k: "k < c" for k
  proof -
    have u: "unat (d_paddr ?d + of_nat k) = unat (d_paddr ?d) + k"
      using k c p by (simp add: unat_add_small unat_of_nat_small)
    then have "unat (MACH_PHYS_TO_VIRT (d_paddr ?d) + of_nat k) = unat (MACH_PHYS_TO_VIRT (d_paddr ?d + of_nat k))"
      using k c p by (simp add: kseg1_bits unat_add_small unat_of_nat_small)
    then have "MACH_PHYS_TO_VIRT (d_paddr ?d) + of_nat k = MACH_PHYS_TO_VIRT (d_paddr ?d + of_nat k)"
      by (simp only: word_unat_eq_iff)
    then show ?thesis using translate_kseg1 [of "d_paddr ?d + of_nat k"] u k c p by simp
  qed
  then have "read_bytes h (MACH_PHYS_TO_VIRT (d_paddr ?d + 0)) c = Some (bytes_at (ram h) (d_paddr ?d) c)"
    by (rule read_bytes_translate)
  moreover have "write_bytes buf (bytes_at (ram h) (d_paddr ?d) c) h = Some h'"
    unfolding h'_def by (rule write_bytes_translate) (simp add: b)
  ultimately show ?thesis
    using assms(1-3) by (subst rx_copy.simps) (simp add: m u cnt Let_def)
qed


lemma rx_count_le: "k < rx_count n \<Longrightarrow> 128 * k < n"
  by (simp add: rx_count_def)

lemma rx_copied_le: "0 < n \<Longrightarrow> rx_copied n \<le> rx_count n \<and> 0 < rx_copied n"
  by (auto simp: rx_copied_def rx_count_def)

text \<open>The loop copies the descriptors up to \<open>rx_copied\<close>: it also stops where what is copied is as long as what is
  left, that is, half-way through a frame whose length is a multiple of 256.\<close>

lemma rx_copy_from:
  assumes r: "rx_parts ring i n" and k: "k < rx_copied n"
    and b: "\<And>j. j < n \<Longrightarrow> translate h (buf + of_nat j) = Some (B + of_nat j)"
    and dis: "\<And>j. j < rx_count n \<Longrightarrow> blocks_disjoint B n (d_paddr (rx_at ring i j)) 128"
  shows "rx_copy ring ((i + k) mod 48) 0 (of_nat (n - 128 * k)) (of_nat (128 * k)) (buf + of_nat (128 * k))
     (h\<lparr>ram := store_bytes (ram h) B (rx_bytes (ram h) ring i n k)\<rparr>) =
   Some (h\<lparr>ram := store_bytes (ram h) B (rx_bytes (ram h) ring i n (rx_copied n))\<rparr>)"
  using k
proof (induction "rx_copied n - k" arbitrary: k)
  case 0
  then show ?case by simp
next
  case (Suc m)
  let ?m = "\<lambda>k. h\<lparr>ram := store_bytes (ram h) B (rx_bytes (ram h) ring i n k)\<rparr>"
  let ?d = "rx_at ring i k" and ?c = "rx_len n k"
  have n: "0 < n" "n \<le> 6144" "length ring = 49" using r by (simp_all add: rx_parts_def)
  have kc: "k < rx_count n" using Suc.prems rx_copied_le [OF n(1)] by simp
  then have kn: "128 * k < n" by (rule rx_count_le)
  have d: "\<not> DESC_EOWN ?d" "unat (DESC_BYTECNT ?d) = ?c" "unat (d_paddr ?d) + 128 \<le> 2 ^ 29"
    "DESC_EOP ?d \<longleftrightarrow> Suc k = rx_count n"
    using r kc by (auto simp: rx_parts_def Let_def)
  have c: "0 < ?c" "?c \<le> 128" "?c \<le> n - 128 * k" using kn by (auto simp: rx_len_def)
  have L: "length (rx_bytes (ram h) ring i n k) = 128 * k" using kn by (simp add: length_rx_bytes)
  have rd: "bytes_at (ram (?m k)) (d_paddr ?d) ?c = bytes_at (ram h) (d_paddr ?d) ?c"
  proof -
    have "blocks_disjoint (B + of_nat 0) (length (rx_bytes (ram h) ring i n k)) (d_paddr ?d + of_nat 0) ?c"
      using dis [OF kc] kn c(2) L n by (intro blocks_disjoint_sub [of B n _ 128]) auto
    then show ?thesis using L kn c(2) n by (simp add: bytes_at_frame)
  qed
  have st: "(?m k)\<lparr>ram := store_bytes (ram (?m k)) (B + of_nat (128 * k)) (bytes_at (ram (?m k)) (d_paddr ?d) ?c)\<rparr>
      = ?m (Suc k)"
    unfolding rd by (simp add: rx_bytes_Suc store_bytes_append L)
  have tr: "translate (?m k) (buf + of_nat (128 * k) + of_nat j) = Some (B + of_nat (128 * k) + of_nat j)"
    if "j < ?c" for j
    using b [of "128 * k + j"] that c by (simp add: algebra_simps)
  have fs: "of_nat (n - 128 * k) - of_nat ?c = (of_nat (n - 128 * k - ?c) :: u32)"
    using c by (simp add: of_nat_diff)
  have stop: "of_nat (128 * k) + of_nat ?c = (of_nat (n - 128 * k - ?c) :: u32) \<longleftrightarrow> n = 2 * (128 * k + ?c)"
  proof -
    have "of_nat (128 * k) + of_nat ?c = (of_nat (n - 128 * k - ?c) :: u32) \<longleftrightarrow> 128 * k + ?c = n - 128 * k - ?c"
      using word32_of_nat_inj [of "128 * k + ?c" "n - 128 * k - ?c"] n kn c by auto
    then show ?thesis using c kn by auto
  qed
  have ix: "(i + k) mod 48 < length ring" using n(3) by (simp add: less_SucI)
  have step: "rx_copy ring ((i + k) mod 48) 0 (of_nat (n - 128 * k)) (of_nat (128 * k)) (buf + of_nat (128 * k)) (?m k) =
      (if Suc k = rx_count n \<or> n = 2 * (128 * k + ?c) then Some (?m (Suc k))
       else rx_copy ring ((i + Suc k) mod 48) 0 (of_nat (n - 128 * k - ?c)) (of_nat (128 * k) + of_nat ?c)
         (buf + of_nat (128 * k) + of_nat ?c) (?m (Suc k)))"
  proof -
    have u: "unat (of_nat (n - 128 * k) :: u32) = n - 128 * k" using n by (intro unat_of_nat_small) simp
    then have ne: "(of_nat (n - 128 * k) :: u32) \<noteq> 0" using kn by (metis unat_0 zero_less_diff less_irrefl)
    have cu: "?c \<le> unat (of_nat (n - 128 * k) :: u32)" using c u by simp
    note D = rx_copy_descriptor [where fs = "of_nat (n - 128 * k)" and i = "(i + k) mod 48" and c = ?c and
      buf = "buf + of_nat (128 * k)" and B = "B + of_nat (128 * k)" and h = "?m k" and ring = ring and
      rn = "of_nat (128 * k)", OF ne ix d(1,2) [unfolded rx_at_def] c(1,2) cu d(3) [unfolded rx_at_def]]
    show ?thesis using D [OF tr] unfolding rx_at_def [symmetric] INCR_RX_mod st fs stop d(4) by simp
  qed
  show ?case
  proof (cases "Suc k = rx_copied n")
    case True
    then have "Suc k = rx_count n \<or> n = 2 * (128 * k + ?c)"
      using c by (auto simp: rx_copied_def rx_len_def split: if_splits)
    then show ?thesis using step True by simp
  next
    case False
    then have m: "m = rx_copied n - Suc k" "Suc k < rx_copied n" using Suc.hyps(2) Suc.prems by auto
    have more: "?c = 128" "\<not> (Suc k = rx_count n \<or> n = 2 * (128 * k + ?c))"
      using m(2) kn n by (auto simp: rx_copied_def rx_len_def rx_count_def split: if_splits)
    have "of_nat (128 * k) + 128 = (of_nat (128 * Suc k) :: u32)" "n - 128 * k - 128 = n - 128 * Suc k" by simp_all
    then show ?thesis using Suc.hyps(1) [OF m] more step by (simp add: algebra_simps)
  qed
qed

text \<open>Giving back: the descriptors of the packet, in order, belong to the controller again.\<close>

definition rx_given :: "eth_desc_t list \<Rightarrow> nat \<Rightarrow> nat \<Rightarrow> eth_desc_t list" where
  "rx_given ring i m = fold (\<lambda>j ring. ring[(i + j) mod 48 := DESC_SET_EOWN (ring ! ((i + j) mod 48))]) [0..<m] ring"

lemma rx_given_Suc: "rx_given ring i (Suc m) =
   (rx_given ring i m)[(i + m) mod 48 := DESC_SET_EOWN (rx_given ring i m ! ((i + m) mod 48))]"
  by (simp add: rx_given_def)

lemma length_rx_given [simp]: "length (rx_given ring i m) = length ring"
  by (induction m) (simp_all add: rx_given_Suc rx_given_def)

lemma rx_given_later:
  "m \<le> j \<Longrightarrow> j < 48 \<Longrightarrow> rx_given ring i m ! ((i + j) mod 48) = ring ! ((i + j) mod 48)"
proof (induction m)
  case (Suc m)
  have "(i + m) mod 48 \<noteq> (i + j) mod 48"
  proof
    assume "(i + m) mod 48 = (i + j) mod 48"
    then have "48 dvd (i + j) - (i + m)" using Suc.prems by (metis mod_eq_dvd_iff_nat add_le_cancel_left Suc_leD)
    then have "48 dvd j - m" by simp
    then show False using Suc.prems by (auto dest: dvd_imp_le)
  qed
  then show ?case using Suc by (simp add: rx_given_Suc)
qed (simp add: rx_given_def)

lemma rx_free_step:
  assumes r: "rx_parts ring i n" and k: "k < rx_count n"
  shows "rx_free (rx_given ring i k) ((i + k) mod 48) h =
    (if Suc k = rx_count n then Some (rx_given ring i (Suc k), (i + Suc k) mod 48, sfr_set ETHCON1 ETHCON1_BUFCDEC h)
     else rx_free (rx_given ring i (Suc k)) ((i + Suc k) mod 48) (sfr_set ETHCON1 ETHCON1_BUFCDEC h))"
proof -
  have n: "n \<le> 6144" "length ring = 49" using r by (simp_all add: rx_parts_def)
  then have "k < 48" using k by (simp add: rx_count_def)
  then have at: "rx_given ring i k ! ((i + k) mod 48) = rx_at ring i k" by (simp add: rx_given_later rx_at_def)
  have d: "\<not> DESC_EOWN (rx_at ring i k)" "DESC_EOP (rx_at ring i k) \<longleftrightarrow> Suc k = rx_count n"
    using r k by (auto simp: rx_parts_def Let_def)
  have ix: "\<not> length (rx_given ring i k) \<le> (i + k) mod 48"
    using n(2) mod_less_divisor [of 48 "i + k"] by simp
  show ?thesis
    by (subst rx_free.simps) (simp only: ix at d INCR_RX_mod rx_given_Suc Let_def if_False)
qed

lemma rx_free_packet:
  assumes r: "rx_parts ring i n" and k: "k < rx_count n"
  shows "rx_free (rx_given ring i k) ((i + k) mod 48) h =
    Some (rx_given ring i (rx_count n), (i + rx_count n) mod 48, (sfr_set ETHCON1 ETHCON1_BUFCDEC ^^ (rx_count n - k)) h)"
  using k
proof (induction "rx_count n - Suc k" arbitrary: k h)
  case 0
  then have last: "Suc k = rx_count n" by simp
  then have "rx_count n - k = 1" by simp
  then show ?case using rx_free_step [OF r 0(2)] by (simp add: last)
next
  case (Suc m)
  then have m: "m = rx_count n - Suc (Suc k)" "Suc k < rx_count n" by simp_all
  have "rx_count n - k = Suc (rx_count n - Suc k)" using m(2) by simp
  then have e: "(sfr_set ETHCON1 ETHCON1_BUFCDEC ^^ (rx_count n - k)) h =
      (sfr_set ETHCON1 ETHCON1_BUFCDEC ^^ (rx_count n - Suc k)) (sfr_set ETHCON1 ETHCON1_BUFCDEC h)"
    by (simp only: funpow_Suc_right comp_apply)
  show ?case unfolding rx_free_step [OF r Suc.prems] e using m Suc.hyps(1) [OF m] by simp
qed

lemma en_ll_input_frame:
  assumes r: "rx_parts (rx_desc e) (receive_index e) n" and up: "is_up e \<noteq> 0"
    and fs: "DESC_FRAMESZ (rx_desc e ! receive_index e) = of_nat n"
    and b: "\<And>j. j < n \<Longrightarrow> translate h (frame + of_nat j) = Some (B + of_nat j)"
    and dis: "\<And>j. j < rx_count n \<Longrightarrow> blocks_disjoint B n (d_paddr (rx_at (rx_desc e) (receive_index e) j)) 128"
  shows "\<exists>h'. en_ll_input frame (e, h) = Some (of_nat n, e\<lparr>rx_desc := rx_given (rx_desc e) (receive_index e) (rx_count n),
      receive_index := (receive_index e + rx_count n) mod 48\<rparr>, h') \<and>
    ram h' = store_bytes (ram h) B (rx_bytes (ram h) (rx_desc e) (receive_index e) n (rx_copied n))"
proof -
  let ?ring = "rx_desc e" and ?i = "receive_index e"
  let ?h = "h\<lparr>ram := store_bytes (ram h) B (rx_bytes (ram h) ?ring ?i n (rx_copied n))\<rparr>"
  have n: "0 < n" "n \<le> 6144" "?i < 48" "length ?ring = 49" using r by (simp_all add: rx_parts_def)
  have z: "0 < rx_copied n" "0 < rx_count n" using rx_copied_le [OF n(1)] by auto
  then have "\<not> DESC_EOWN (rx_at ?ring ?i 0)" using r by (auto simp: rx_parts_def Let_def)
  then have own: "\<not> DESC_EOWN (?ring ! ?i)" using n(3) by (simp add: rx_at_def)
  have c: "rx_copy ?ring ?i 0 (of_nat n) 0 frame h = Some ?h"
    using rx_copy_from [OF r z(1), of h frame B] b dis n by (simp add: rx_bytes_def)
  have f: "rx_free ?ring ?i ?h = Some (rx_given ?ring ?i (rx_count n), (?i + rx_count n) mod 48,
      (sfr_set ETHCON1 ETHCON1_BUFCDEC ^^ rx_count n) ?h)"
    using rx_free_packet [OF r z(2), of ?h] n by (simp add: rx_given_def)
  have keep: "ram ((sfr_set ETHCON1 ETHCON1_BUFCDEC ^^ k) x) = ram x" for k x
    by (induction k) simp_all
  have "unat (of_nat n :: u32) = n" using n by (intro unat_of_nat_small) simp
  then have "(of_nat n :: u32) \<noteq> 0" using n by (metis unat_0 less_irrefl)
  then show ?thesis using up own n fs c f by (simp add: en_ll_input_def keep)
qed

end
