(* ===== verification/DriverProps.thy ===== *)
theory DriverProps
  imports Examples Eth
begin

text \<open>
  The properties of the USB and network drivers, C33 among them, with a controller's state at which each is exercised.
\<close>

section \<open>USB\<close>

definition ex_usb :: usb_t where
  "ex_usb = \<lparr>u_state = IDLE, descriptor_available = 0, connected = 0, wait_debounce = 0, u_speed = FULL_SPEED,
     descriptor_data = zero_descriptor_receive, setup_packet = vendor_request, descriptor = replicate 18 0,
     t_state = TRANSFER_INT_VM, sent_sz = 0, buffer_tx = replicate 64 0, request_count = 0, u_out = []\<rparr>"

definition ex_usb_in :: usb_in where
  "ex_usb_in = \<lparr>usb_interrupts = 0, usb_ep0if = False, usb_now = 0, usb_now2 = 0, usb_fsdev = False, usb_lsdev = False,
     usb_bdev = False, usb_vbus = 3, usb_portb = 0, usb_rxcnt = 19, usb_fifo = (\<lambda>_. 0)\<rparr>"



text \<open>A guest's transfer completes: three polls after it was requested the driver is idle again and has sent the
  setup packet and the first three bytes of the guest's buffer, in order, whatever the controller reports.\<close>

theorem usb_transfer_completes:
  assumes "t_state u = TRANSFER_START" and "length (buffer_tx u) = 64"
    and "u' = update_transfer_state_machine i3 (update_transfer_state_machine i2 (update_transfer_state_machine i1 u))"
  shows "t_state u' = TRANSFER_IDLE \<and>
    sent_bytes (u_out u') = sent_bytes (u_out u) @ setup_bytes vendor_request @ take 3 (buffer_tx u)"
  by (rule usb_transfer_three_polls [OF assms])

theorem usb_transfer_completes_witness:
  "sent_bytes (u_out (update_transfer_state_machine ex_usb_in (update_transfer_state_machine ex_usb_in
     (update_transfer_state_machine ex_usb_in (ex_usb\<lparr>t_state := TRANSFER_START, buffer_tx := [1, 2, 3] @ replicate 61 0\<rparr>)))))
   = setup_bytes vendor_request @ [1, 2, 3]"
  using usb_transfer_completes [of "ex_usb\<lparr>t_state := TRANSFER_START, buffer_tx := [1, 2, 3] @ replicate 61 0\<rparr>" _
    ex_usb_in ex_usb_in ex_usb_in] by (simp add: ex_usb_def)

text \<open>A device can overrun the driver's memory: the packet it answers with is copied behind the bytes received so
  far without a bound, so the copy leaves the array of 18 bytes as soon as both together are longer; a packet that fits
  is appended.\<close>

theorem usb_descriptor_overrun:
  assumes "usb_ok u"
  shows "(read_descriptor i u = None \<longleftrightarrow> 18 < unat (received (descriptor_data u)) + unat (usb_rxcnt i)) \<and>
    (\<forall>u'. read_descriptor i u = Some u' \<longrightarrow> descr (descriptor_data u') =
      list_splice (unat (received (descriptor_data u))) (map (usb_fifo i) [0..<unat (usb_rxcnt i)]) (descr (descriptor_data u)))"
  using read_descriptor_overrun [OF assms] read_descriptor_appends [OF assms] by blast


theorem usb_descriptor_overrun_witness: "read_descriptor ex_usb_in ex_usb = None"
proof -
  have "usb_ok ex_usb" by (simp add: usb_ok_def ex_usb_def zero_descriptor_receive_def)
  from usb_descriptor_overrun [OF this, of ex_usb_in] show ?thesis by (simp add: ex_usb_def ex_usb_in_def zero_descriptor_receive_def)
qed

section \<open>Ethernet\<close>

lemma length_rx_copied:
  assumes "0 < n"
  shows "length (rx_bytes m ring i n (rx_copied n)) = (if n mod 256 = 0 then n div 2 else n)"
proof -
  have "length (rx_bytes m ring i n k) = min n (128 * k)" if "k \<le> rx_count n" for k
    using that by (induction k) (auto simp: rx_bytes_def rx_len_def rx_count_def)
  then show ?thesis using rx_copied_le [OF assms] by (auto simp: rx_copied_def rx_count_def)
qed

text \<open>Long frames are truncated: a received frame is returned with its size and its descriptors go back to the
  controller, but where the size is a multiple of 256 only its first half is copied to the guest; otherwise all of it
  is, in order.\<close>

theorem frame_received:
  assumes "rx_parts (rx_desc e) (receive_index e) n" and "is_up e \<noteq> 0"
    and "DESC_FRAMESZ (rx_desc e ! receive_index e) = of_nat n"
    and "\<forall>j<n. translate h (frame + of_nat j) = Some (B + of_nat j)"
    and "\<forall>j<rx_count n. blocks_disjoint B n (d_paddr (rx_at (rx_desc e) (receive_index e) j)) 128"
    and "k = (if n mod 256 = 0 then n div 256 else (n + 127) div 128)"
  shows "\<exists>h'. en_ll_input frame (e, h) = Some (of_nat n, e\<lparr>rx_desc := rx_given (rx_desc e) (receive_index e) (rx_count n),
      receive_index := (receive_index e + rx_count n) mod 48\<rparr>, h') \<and>
    ram h' = store_bytes (ram h) B (rx_bytes (ram h) (rx_desc e) (receive_index e) n k) \<and>
    length (rx_bytes (ram h) (rx_desc e) (receive_index e) n k) = (if n mod 256 = 0 then n div 2 else n)"
proof -
  have k: "k = rx_copied n" using assms(6) by (simp add: rx_copied_def rx_count_def)
  have n: "0 < n" using assms(1) by (simp add: rx_parts_def)
  have "length (rx_bytes (ram h) (rx_desc e) (receive_index e) n k) = (if n mod 256 = 0 then n div 2 else n)"
    using length_rx_copied [OF n] by (simp add: k)
  then show ?thesis using en_ll_input_frame [OF assms(1-3), of h frame B] assms(4,5) by (simp add: k)
qed


definition ex_rx_desc :: "u32 \<Rightarrow> u32 \<Rightarrow> eth_desc_t" where
  "ex_rx_desc w p = \<lparr>d_hdr = w, d_paddr = p, d_ctl = 0, d_status = 256\<rparr>"

definition ex_eth :: eth_t where
  "ex_eth = \<lparr>macaddr = [0, 4, 0xA3, 1, 2, 3], is_up = 1, phy_addr = 0, phy_id = 0, rx_buf = 0xA0040000,
     rx_desc = ex_rx_desc 0x800000 0x40000 # ex_rx_desc 0x40800000 0x40080 # replicate 47 (ex_rx_desc 0x80 0),
     rx_desc_p = 0xA0042000, tx_desc = replicate 7 (ex_rx_desc 0 0), tx_desc_p = 0xA0043000, receive_index = 0,
     eth_vcpu = 0, tx_buf = 0x80044000\<rparr>"

text \<open>A frame of 256 bytes: 128 of them are copied.\<close>

theorem frame_received_witness:
  "\<exists>e h. en_ll_input 0x80010000 (ex_eth, ex_hw\<lparr>ram := \<lambda>x. if x < 0x40000 then 0 else 1\<rparr>) = Some (256, e, h) \<and>
     ram h 0x1007F = 1 \<and> ram h 0x10080 = 0"
proof -
  let ?h = "ex_hw\<lparr>ram := \<lambda>x. if x < 0x40000 then 0 else 1\<rparr>"
  have cnt: "rx_count 256 = 2" by (simp add: rx_count_def)
  have parts: "rx_parts (rx_desc ex_eth) (receive_index ex_eth) 256"
    by (auto simp: rx_parts_def cnt rx_len_def rx_at_def ex_eth_def ex_rx_desc_def DESC_EOWN_def DESC_EOP_def
      DESC_BYTECNT_def less_2_cases_iff)
  have tr: "\<forall>j<256. translate ?h (0x80010000 + of_nat j) = Some (0x10000 + of_nat j)"
  proof (intro allI impI)
    fix j :: nat assume j: "j < 256"
    then have "unat (0x10000 + of_nat j :: u32) = 0x10000 + j" by (subst unat_add_small) (simp_all add: unat_of_nat_small)
    then show "translate ?h (0x80010000 + of_nat j) = Some (0x10000 + of_nat j)"
      using translate_kseg0 [of "0x10000 + of_nat j" ?h] j by simp
  qed
  have dj: "\<forall>j<rx_count 256. blocks_disjoint 0x10000 256 (d_paddr (rx_at (rx_desc ex_eth) (receive_index ex_eth) j)) 128"
    by (auto simp: cnt rx_at_def ex_eth_def ex_rx_desc_def less_2_cases_iff blocks_disjoint_def in_block_def unat_sub_if'
      split: if_splits)
  have b: "rx_bytes (ram ?h) (rx_desc ex_eth) (receive_index ex_eth) 256 1 = replicate 128 1"
  proof -
    have "ram ?h (0x40000 + of_nat j) = 1" if "j < 128" for j
    proof -
      have "unat (0x40000 + of_nat j :: u32) = 0x40000 + j" using that by (subst unat_add_small) (simp_all add: unat_of_nat_small)
      then show ?thesis by (simp add: word_less_nat_alt)
    qed
    then have "bytes_at (ram ?h) 0x40000 128 = replicate 128 1" by (intro nth_equalityI) simp_all
    then show ?thesis by (simp add: rx_bytes_def rx_at_def rx_len_def ex_eth_def ex_rx_desc_def)
  qed
  have "is_up ex_eth \<noteq> 0" "DESC_FRAMESZ (rx_desc ex_eth ! receive_index ex_eth) = of_nat 256"
    by (simp_all add: ex_eth_def ex_rx_desc_def DESC_FRAMESZ_def)
  from frame_received [OF parts this tr dj, of 1] obtain h' where
    h': "\<exists>e'. en_ll_input 0x80010000 (ex_eth, ?h) = Some (256, e', h')" "ram h' = store_bytes (ram ?h) 0x10000 (replicate 128 1)"
    unfolding b by auto
  have "ram h' 0x1007F = 1" "ram h' 0x10080 = 0" unfolding h'(2) by (simp_all add: store_bytes_apply)
  then show ?thesis using h'(1) by blast
qed

text \<open>The driver cannot notice that memory is exhausted: it moves every pointer to the uncached segment before its
  check, so a null pointer passes it, and with a heap that grants nothing the buffers and the rings of descriptors all
  end up at physical address 0.\<close>

theorem ethernet_oom_unnoticed:
  assumes "arena (heap s) p n" and "n < 15"
  shows "alloc_buffers (e, s) = Some (e\<lparr>rx_buf := 0xA0000000, rx_desc_p := 0xA0000000, tx_desc_p := 0xA0000000\<rparr>, s) \<and>
    (\<forall>q. uncached q \<noteq> NULL)"
proof -
  have "k_malloc sz s = Some (s, NULL)" if "15 \<le> units_of sz" for sz
    using arena_malloc_full [OF assms(1), of sz] that assms(2) by (simp add: k_malloc_def)
  then show ?thesis
    by (simp add: alloc_buffers_def RX_BYTES_def RX_DESCRIPTORS_def TX_DESCRIPTORS_def RX_BYTES_PER_DESC_def MTU_def
      units_of_def HDR_SZ_def uncached_nonzero) (simp add: uncached_def MACH_PHYS_TO_VIRT_def MACH_VIRT_TO_PHYS_def)
qed

theorem ethernet_oom_unnoticed_witness:
  "\<exists>e. alloc_buffers (ex_eth, ex_cold\<lparr>heap := HeapInit (heap ex_cold) 0x80002008 0x40\<rparr>)
     = Some (e, ex_cold\<lparr>heap := HeapInit (heap ex_cold) 0x80002008 0x40\<rparr>) \<and> rx_buf e = 0xA0000000"
proof -
  have "arena (HeapInit (heap ex_cold) 0x80002008 0x40) 0x80002008 8"
    using arena_HeapInit [of "heap ex_cold" "0x80002008" "0x40"] by (simp add: ex_cold_def HDR_SZ_def)
  then show ?thesis
    using ethernet_oom_unnoticed [of "ex_cold\<lparr>heap := HeapInit (heap ex_cold) 0x80002008 0x40\<rparr>" "0x80002008" 8 ex_eth] by simp
qed

text \<open>The driver's waiting loops end: if the counter passes the timeout at some later reading, the loop returns,
  and it reports success only when the condition it waited for had cleared.\<close>

theorem ethernet_waits_end:
  assumes "\<forall>h. count_src (ctl h) = count_src h \<and> count_reads (ctl h) = count_reads h"
    and "timeout < count_src h (count_reads h + n) - time_start"
  shows "\<exists>late h'. phy_wait ctl busy time_start timeout h = Some (late, h') \<and> (\<not> late \<longrightarrow> \<not> busy h')"
  using phy_wait_returns [of ctl timeout h n time_start busy] phy_wait_verdict [of ctl busy time_start timeout h] assms
  by fastforce

theorem ethernet_waits_end_witness:
  "\<exists>late h'. phy_wait id (\<lambda>_. True) 0 100 ex_hw = Some (late, h') \<and> late"
  using ethernet_waits_end [of id 100 ex_hw 101 0 "\<lambda>_. True"] by (auto simp: ex_hw_def)

end
