(* ===== verification/GuestArith.thy ===== *)
theory GuestArith
  imports Prelude "HOL-Library.Signed_Division"
begin

text \<open>
  Software multiplication, division and 64-bit shifts for guests, from \<^verbatim>\<open>bare-metal-apps/lib/libc.c\<close> (the
  compiler's run-time routines, here without their leading underscores). The union \<open>dwords\<close> overlays a
  64-bit value with two members, in an order that the preprocessor symbol \<open>LITTLE_ENDIAN\<close> selects; \<open>le\<close> is
  that choice, on a little-endian processor. An undefined shift or a division by zero is \<open>None\<close>.

  The lemmas show that the routines compute the product, quotient, remainder and shift they are named
  after, for \<open>le = True\<close> where the choice matters.
\<close>

subsection \<open>The union \<open>dwords\<close>\<close>

definition dw_all :: "bool \<Rightarrow> u32 \<Rightarrow> u32 \<Rightarrow> u64" where
  "dw_all le low high =
     (if le then push_bit 32 (ucast high) OR ucast low else push_bit 32 (ucast low) OR ucast high)"

definition dw_low :: "bool \<Rightarrow> u64 \<Rightarrow> u32" where
  "dw_low le x = (if le then ucast x else ucast (drop_bit 32 x))"

definition dw_high :: "bool \<Rightarrow> u64 \<Rightarrow> u32" where
  "dw_high le x = (if le then ucast (drop_bit 32 x) else ucast x)"

subsection \<open>Multiplication\<close>

function mulsi3_loop :: "u32 \<Rightarrow> u32 \<Rightarrow> u32 \<Rightarrow> u32" where
  "mulsi3_loop a b answer =
     (if b \<noteq> 0 then mulsi3_loop (push_bit 1 a) (drop_bit 1 b) (if b AND 1 \<noteq> 0 then answer + a else answer)
      else answer)"
  by pat_completeness auto
termination
  by (relation "measure (\<lambda>(a, b, answer). unat b)")
    (auto simp: drop_bit_eq_div unat_div unat_gt_0)

declare mulsi3_loop.simps [simp del]

definition mulsi3 :: "u32 \<Rightarrow> u32 \<Rightarrow> u32" where
  "mulsi3 a b = mulsi3_loop a b 0"

definition muldsi3 :: "bool \<Rightarrow> u32 \<Rightarrow> u32 \<Rightarrow> u64" where
  "muldsi3 le a b =
     (let lower_mask = drop_bit 16 (NOT 0);
          low = (a AND lower_mask) * (b AND lower_mask);
          t = drop_bit 16 low;
          low = low AND lower_mask;
          t = t + drop_bit 16 a * (b AND lower_mask);
          low = low + push_bit 16 (t AND lower_mask);
          high = drop_bit 16 t;
          t = drop_bit 16 low;
          low = low AND lower_mask;
          t = t + drop_bit 16 b * (a AND lower_mask);
          low = low + push_bit 16 (t AND lower_mask);
          high = high + drop_bit 16 t;
          high = high + drop_bit 16 a * drop_bit 16 b
      in dw_all le low high)"

definition muldi3 :: "bool \<Rightarrow> u64 \<Rightarrow> u64 \<Rightarrow> u64" where
  "muldi3 le a b =
     (let r = muldsi3 le (dw_low le a) (dw_low le b);
          high = dw_high le r + (mulsi3 (dw_high le a) (dw_low le b) + mulsi3 (dw_low le a) (dw_high le b))
      in dw_all le (dw_low le r) high)"

subsection \<open>Division\<close>

text \<open>The first loop aligns the divisor; it ends because \<open>bit\<close> is shifted out.\<close>

lemma shift_out_less: "x \<noteq> 0 \<Longrightarrow> (LEAST n. push_bit n (push_bit 1 x) = 0) < (LEAST n. push_bit n (x :: 'a::len word) = 0)"
proof -
  assume nz: "x \<noteq> 0"
  have z: "push_bit LENGTH('a) x = 0" by (rule bit_word_eqI) (simp add: bit_simps)
  have "(LEAST n. push_bit n x = 0) = Suc (LEAST n. push_bit (Suc n) x = 0)"
    by (rule Least_Suc [of "\<lambda>n. push_bit n x = 0", OF z]) (simp add: nz)
  then show ?thesis by (simp add: push_bit_push_bit)
qed

function udiv_align :: "u32 \<Rightarrow> u32 \<Rightarrow> u32 \<Rightarrow> u32 \<times> u32" where
  "udiv_align num den bt =
     (if den < num \<and> bt \<noteq> 0 \<and> den AND 0x80000000 = 0 then udiv_align num (push_bit 1 den) (push_bit 1 bt)
      else (den, bt))"
  by pat_completeness auto
termination
  by (relation "measure (\<lambda>(num, den, bt). LEAST n. push_bit n bt = 0)") (use shift_out_less in auto)

declare udiv_align.simps [simp del]

function udiv_sub :: "u32 \<Rightarrow> u32 \<Rightarrow> u32 \<Rightarrow> u32 \<Rightarrow> u32 \<times> u32" where
  "udiv_sub num den res bt =
     (if bt \<noteq> 0 then
        (if den \<le> num then udiv_sub (num - den) (drop_bit 1 den) (res OR bt) (drop_bit 1 bt)
         else udiv_sub num (drop_bit 1 den) res (drop_bit 1 bt))
      else (res, num))"
  by pat_completeness auto
termination
  by (relation "measure (\<lambda>(num, den, res, bt). unat bt)") (auto simp: drop_bit_eq_div unat_div unat_gt_0)

declare udiv_sub.simps [simp del]

definition udivmodsi4 :: "u32 \<Rightarrow> u32 \<Rightarrow> u32 \<Rightarrow> u32" where
  "udivmodsi4 num den modwanted =
     (let (den, bt) = udiv_align num den 1;
          (res, num) = udiv_sub num den 0 bt
      in if modwanted \<noteq> 0 then num else res)"

definition divsi3 :: "u32 \<Rightarrow> u32 \<Rightarrow> u32" where
  "divsi3 a b =
     (let neg = False;
          (a, neg) = (if a <s 0 then (- a, \<not> neg) else (a, neg));
          (b, neg) = (if b <s 0 then (- b, \<not> neg) else (b, neg));
          res = udivmodsi4 a b 0
      in if neg then - res else res)"

definition modsi3 :: "u32 \<Rightarrow> u32 \<Rightarrow> u32" where
  "modsi3 a b =
     (let (a, neg) = (if a <s 0 then (- a, True) else (a, False));
          b = (if b <s 0 then - b else b);
          res = udivmodsi4 a b 1
      in if neg then - res else res)"

definition udivsi3 :: "u32 \<Rightarrow> u32 \<Rightarrow> u32" where
  "udivsi3 a b = udivmodsi4 a b 0"

definition umodsi3 :: "u32 \<Rightarrow> u32 \<Rightarrow> u32" where
  "umodsi3 a b = udivmodsi4 a b 1"

subsection \<open>Shifts of 64-bit values\<close>

definition ashldi3 :: "bool \<Rightarrow> u64 \<Rightarrow> u32 \<Rightarrow> u64 option" where
  "ashldi3 le u b =
     (if b = 0 then Some u
      else (let low = dw_low le u; high = dw_high le u; bm = 32 - b
            in if bm \<le> 0 then Some (dw_all le 0 (push_bit (unat (- bm)) low))
               else if 32 \<le> bm \<or> 32 \<le> b then None
               else (let carries = drop_bit (unat bm) low
                     in Some (dw_all le (push_bit (unat b) low) (push_bit (unat b) high OR carries)))))"

definition ashrdi3 :: "bool \<Rightarrow> u64 \<Rightarrow> u32 \<Rightarrow> u64 option" where
  "ashrdi3 le u b =
     (if b = 0 then Some u
      else (let low = dw_low le u; high = dw_high le u; bm = 32 - b
            in if bm \<le> 0 then Some (dw_all le (drop_bit (unat (- bm)) low) (signed_drop_bit 31 high))
               else if 32 \<le> bm \<or> 32 \<le> b then None
               else (let carries = push_bit (unat bm) high
                     in Some (dw_all le (drop_bit (unat b) low OR carries) (signed_drop_bit (unat b) high)))))"

definition lshrdi3 :: "bool \<Rightarrow> u64 \<Rightarrow> u32 \<Rightarrow> u64 option" where
  "lshrdi3 le u b =
     (if b = 0 then Some u
      else (let low = dw_low le u; high = dw_high le u; bm = 32 - b
            in if bm \<le> 0 then Some (dw_all le (drop_bit (unat (- bm)) high) 0)
               else if 32 \<le> bm \<or> 32 \<le> b then None
               else (let carries = push_bit (unat bm) high
                     in Some (dw_all le (drop_bit (unat b) low OR carries) (drop_bit (unat b) high)))))"

subsection \<open>Division of 64-bit values\<close>

text \<open>The loop runs until the top bit of \<open>den\<close> is set; every call has \<open>den\<close> not 0, for which it would not end.\<close>

function udivdi_align :: "u64 \<Rightarrow> u64 \<Rightarrow> u64 \<times> u64" where
  "udivdi_align den qbit =
     (if den \<noteq> 0 \<and> 0 \<le>s den then udivdi_align (push_bit 1 den) (push_bit 1 qbit) else (den, qbit))"
  by pat_completeness auto
termination
  by (relation "measure (\<lambda>(den, qbit). LEAST n. push_bit n den = 0)") (use shift_out_less in auto)

declare udivdi_align.simps [simp del]

function udivdi_sub :: "u64 \<Rightarrow> u64 \<Rightarrow> u64 \<Rightarrow> u64 \<Rightarrow> u64 \<times> u64" where
  "udivdi_sub num den quot qbit =
     (if qbit \<noteq> 0 then
        (if den \<le> num then udivdi_sub (num - den) (drop_bit 1 den) (quot + qbit) (drop_bit 1 qbit)
         else udivdi_sub num (drop_bit 1 den) quot (drop_bit 1 qbit))
      else (quot, num))"
  by pat_completeness auto
termination
  by (relation "measure (\<lambda>(num, den, quot, qbit). unat qbit)") (auto simp: drop_bit_eq_div unat_div unat_gt_0)

declare udivdi_sub.simps [simp del]

text \<open>Quotient and remainder; \<open>None\<close> is the trap of \<open>1 / 0\<close>.\<close>

definition udivmoddi4 :: "u64 \<Rightarrow> u64 \<Rightarrow> (u64 \<times> u64) option" where
  "udivmoddi4 num den =
     (if den = 0 then None
      else (let (den, qbit) = udivdi_align den 1 in Some (udivdi_sub num den 0 qbit)))"

definition umoddi3 :: "u64 \<Rightarrow> u64 \<Rightarrow> u64 option" where
  "umoddi3 num den = map_option snd (udivmoddi4 num den)"

definition udivdi3 :: "u64 \<Rightarrow> u64 \<Rightarrow> u64 option" where
  "udivdi3 num den = map_option fst (udivmoddi4 num den)"

definition moddi3 :: "u64 \<Rightarrow> u64 \<Rightarrow> u64 option" where
  "moddi3 num den =
     (let (num, minus) = (if num <s 0 then (- num, True) else (num, False));
          (den, minus) = (if den <s 0 then (- den, \<not> minus) else (den, minus))
      in do {
        (_, v) \<leftarrow> udivmoddi4 num den;
        Some (if minus then - v else v) })"

definition divdi3 :: "u64 \<Rightarrow> u64 \<Rightarrow> u64 option" where
  "divdi3 num den =
     (let (num, minus) = (if num <s 0 then (- num, True) else (num, False));
          (den, minus) = (if den <s 0 then (- den, \<not> minus) else (den, minus))
      in do {
        (v, _) \<leftarrow> udivmoddi4 num den;
        Some (if minus then - v else v) })"

subsection \<open>Correctness of the multiplications\<close>

lemma mulsi3_loop_eq: "mulsi3_loop a b r = r + a * b"
proof (induction a b r rule: mulsi3_loop.induct)
  case (1 a b r)
  show ?case
  proof (cases "b = 0")
    case False
    have e: "b = 2 * drop_bit 1 b + (b AND 1)" using div_mult_mod_eq [of b 2]
      by (simp add: drop_bit_eq_div and_one_eq mult.commute)
    have "mulsi3_loop a b r = (if b AND 1 \<noteq> 0 then r + a else r) + push_bit 1 a * drop_bit 1 b"
      using 1 [OF False] False by (subst mulsi3_loop.simps) simp
    also have "\<dots> = r + a * (2 * drop_bit 1 b + (b AND 1))"
      by (auto simp: push_bit_eq_mult and_one_eq mod2_eq_if algebra_simps)
    finally show ?thesis using e by simp
  qed (simp add: mulsi3_loop.simps)
qed

lemma mulsi3_eq: "mulsi3 a b = a * b"
  by (simp add: mulsi3_def mulsi3_loop_eq)

lemma dw_parts:
  "dw_low True (dw_all True l h) = l" "dw_high True (dw_all True l h) = h"
  "dw_all True (dw_low True x) (dw_high True x) = x"
  by (rule bit_word_eqI; auto simp: dw_all_def dw_low_def dw_high_def bit_simps dest: bit_imp_le_length)+

lemma unat_ucast_64: "unat (ucast (x :: u32) :: u64) = unat x"
  using unat_lt32 [of x] by (simp add: unsigned_ucast_eq take_bit_nat_eq_self)

lemma unat_dw_all: "unat (dw_all True l h) = unat l + 2 ^ 32 * unat h"
proof -
  have "dw_all True l h = push_bit 32 (ucast h) + ucast l"
    unfolding dw_all_def if_True by (subst disjunctive_add) (auto simp: bit_simps dest: bit_imp_le_length)
  moreover have "unat (ucast l :: u64) = unat l" "unat (ucast h :: u64) = unat h"
    by (rule unat_ucast_64)+
  moreover have "unat (push_bit 32 (ucast h) :: u64) = 2 ^ 32 * unat h"
    using unat_lt32 [of h] calculation(3)
    by (simp add: push_bit_eq_mult unat_word_ariths)
  ultimately show ?thesis
    using unat_lt32 [of h] unat_lt32 [of l] by (subst \<open>dw_all True l h = _\<close>, subst unat_add_lem [THEN iffD1]) simp_all
qed

lemma carry_sum:
  fixes p q r t1 t3 u v w z X Y Z :: nat
  assumes "65536 * q + r = p" "65536 * u + v = t1" "65536 * w + z = t3" "t1 = q + X" "t3 = v + Y"
  shows "r + 65536 * z + 4294967296 * (u + w + Z) = 4294967296 * Z + 65536 * X + 65536 * Y + p"
proof -
  have "65536 * t3 = 4294967296 * w + 65536 * z" using assms(3) by (simp flip: assms(3))
  moreover have "65536 * t3 = 65536 * v + 65536 * Y" using assms(5) by simp
  moreover have "65536 * (65536 * u + v) = 65536 * q + 65536 * X" using assms(2,4) by simp
  ultimately show ?thesis unfolding assms(1)[symmetric] by (simp add: distrib_left)
qed

lemma mul_split:
  fixes a0 a1 b0 b1 :: nat
  defines "p \<equiv> a0 * b0"
  defines "t1 \<equiv> p div 65536 + a1 * b0"
  defines "t3 \<equiv> t1 mod 65536 + b1 * a0"
  shows "p mod 65536 + 65536 * (t3 mod 65536) + 4294967296 * (t1 div 65536 + t3 div 65536 + a1 * b1)
    = (65536 * a1 + a0) * (65536 * b1 + b0)"
proof -
  have "p mod 65536 + 65536 * (t3 mod 65536) + 4294967296 * (t1 div 65536 + t3 div 65536 + a1 * b1)
    = 4294967296 * (a1 * b1) + 65536 * (a1 * b0) + 65536 * (b1 * a0) + p"
    by (rule carry_sum [OF mult_div_mod_eq mult_div_mod_eq mult_div_mod_eq]) (simp_all add: t1_def t3_def)
  then show ?thesis by (simp add: p_def algebra_simps)
qed

lemma unat_mask16: "unat (x AND 0xFFFF :: u32) = unat x mod 65536"
proof -
  have "x AND 0xFFFF = take_bit 16 x" by (simp add: take_bit_eq_mask mask_eq_exp_minus_1)
  then show ?thesis by (simp add: unat_mod take_bit_eq_mod)
qed

lemma unat_shift16: "unat (drop_bit 16 x :: u32) = unat x div 65536"
  by (simp add: drop_bit_eq_div unat_div)

lemma unat_push16: "unat x < 65536 \<Longrightarrow> unat (push_bit 16 x :: u32) = 65536 * unat x"
  by (simp add: push_bit_eq_mult unat_word_ariths)

lemma unat_push_mask16: "unat (push_bit 16 (x AND 0xFFFF) :: u32) = 65536 * (unat x mod 65536)"
proof -
  have "unat (x AND 0xFFFF) < 65536" unfolding unat_mask16 by simp
  then show ?thesis by (simp only: unat_push16 unat_mask16)
qed

lemma unat_mul_eq: "unat x = m \<Longrightarrow> unat y = n \<Longrightarrow> m * n < 4294967296 \<Longrightarrow> unat (x * y :: u32) = m * n"
  by (simp add: unat_word_ariths)

lemma unat_add_eq: "unat x = m \<Longrightarrow> unat y = n \<Longrightarrow> m + n < 4294967296 \<Longrightarrow> unat (x + y :: u32) = m + n"
  by (simp add: unat_word_ariths)

lemma split16_lt: "x mod 65536 + 65536 * (y mod 65536) < (4294967296 :: nat)"
proof -
  have "x mod 65536 \<le> 65535" "y mod 65536 \<le> 65535" by (simp_all add: less_Suc_eq_le [symmetric])
  then show ?thesis by simp
qed

lemma split16: "(x mod 65536 + 65536 * (y mod 65536)) mod 65536 = x mod (65536 :: nat)"
  "(x mod 65536 + 65536 * (y mod 65536)) div 65536 = y mod (65536 :: nat)"
  by simp_all

text \<open>Schoolbook multiplication of 16-bit halves: no carry is lost.\<close>

lemma muldsi3_eq: "unat (muldsi3 True a b) = unat a * unat b"
proof -
  define a0 a1 b0 b1 where h: "a0 = unat a mod 65536" "a1 = unat a div 65536" "b0 = unat b mod 65536" "b1 = unat b div 65536"
  define p t1 t3 where d: "p = a0 * b0" "t1 = p div 65536 + a1 * b0" "t3 = t1 mod 65536 + b1 * a0"
  have bd: "a0 \<le> 65535" "b0 \<le> 65535" "a1 \<le> 65535" "b1 \<le> 65535"
    using unat_lt32 [of a] unat_lt32 [of b] by (auto simp: h)
  have m: "a0 * b0 \<le> 65535 * 65535" "a1 * b0 \<le> 65535 * 65535" "b1 * a0 \<le> 65535 * 65535"
    by (rule mult_le_mono [OF bd(1,2)] mult_le_mono [OF bd(3,2)] mult_le_mono [OF bd(4,1)])+
  have A: "unat a = 65536 * a1 + a0" "unat b = 65536 * b1 + b0" unfolding h by (simp_all only: mult_div_mod_eq)
  have k: "drop_bit 16 (NOT 0) = (0xFFFF :: u32)" by code_simp
  let ?m = "0xFFFF :: u32"
  let ?p = "(a AND ?m) * (b AND ?m)"
  note lo = unat_mask16 [of a, folded h] unat_mask16 [of b, folded h]
  note hi = unat_shift16 [of a, folded h] unat_shift16 [of b, folded h]
  have p: "unat ?p = p" using m(1) unfolding d(1) by (intro unat_mul_eq lo) simp
  let ?t1 = "drop_bit 16 ?p + drop_bit 16 a * (b AND ?m)"
  have t1: "unat ?t1 = t1" using m unfolding d(2)
    by (intro unat_add_eq unat_mul_eq lo hi) (simp_all add: unat_shift16 p, simp add: d(1))
  let ?l1 = "(?p AND ?m) + push_bit 16 (?t1 AND ?m)"
  have l1: "unat ?l1 = p mod 65536 + 65536 * (t1 mod 65536)"
    by (intro unat_add_eq split16_lt) (simp_all only: unat_mask16 unat_push_mask16 p t1)
  let ?t3 = "drop_bit 16 ?l1 + drop_bit 16 b * (a AND ?m)"
  have s: "unat (drop_bit 16 ?l1) = t1 mod 65536" "unat (?l1 AND ?m) = p mod 65536"
    unfolding unat_shift16 unat_mask16 l1 split16 by (rule refl)+
  have "t1 mod 65536 \<le> 65535" by (simp add: less_Suc_eq_le [symmetric])
  then have t3: "unat ?t3 = t3" using m(3) unfolding d(3)
    by (intro unat_add_eq unat_mul_eq lo hi s) simp_all
  let ?l3 = "(?l1 AND ?m) + push_bit 16 (?t3 AND ?m)"
  have l3: "unat ?l3 = p mod 65536 + 65536 * (t3 mod 65536)"
    by (intro unat_add_eq split16_lt s) (simp only: unat_push_mask16 t3)
  let ?H = "t1 div 65536 + t3 div 65536 + a1 * b1"
  have tot: "p mod 65536 + 65536 * (t3 mod 65536) + 4294967296 * ?H = unat a * unat b"
    unfolding A d by (rule mul_split)
  let ?h = "drop_bit 16 ?t1 + drop_bit 16 ?t3 + drop_bit 16 a * drop_bit 16 b"
  have "unat a * unat b < 2 ^ 32 * 2 ^ 32" by (intro mult_strict_mono unat_lt32) simp_all
  then have lt: "?H < 4294967296" using tot by simp
  have lt2: "t1 div 65536 + t3 div 65536 < 4294967296" "a1 * b1 < 4294967296"
    by (rule order.strict_trans1 [OF _ lt], simp)+
  have H: "unat ?h = ?H"
    by (intro unat_add_eq unat_mul_eq hi lt lt2) (simp_all only: unat_shift16 t1 t3)
  have "muldsi3 True a b = dw_all True ?l3 ?h" unfolding muldsi3_def Let_def k ..
  then show ?thesis using tot unfolding unat_dw_all by (simp only: unat_dw_all l3 H) simp
qed

text \<open>The high word only counts modulo its width.\<close>

lemma high_high: "4294967296 * (4294967296 * x) = (0 :: u64)"
proof -
  have "4294967296 * (4294967296 :: u64) = 0" by simp
  then show ?thesis by (simp only: mult.assoc [symmetric] mult_zero_left)
qed

lemma high_mod: "4294967296 * (of_nat (m mod 4294967296) :: u64) = 4294967296 * of_nat m"
proof -
  have "(of_nat m :: u64) = of_nat (4294967296 * (m div 4294967296) + m mod 4294967296)"
    by (simp only: mult_div_mod_eq)
  also have "\<dots> = 4294967296 * of_nat (m div 4294967296) + of_nat (m mod 4294967296)"
    by (simp only: of_nat_add of_nat_mult of_nat_numeral)
  finally show ?thesis by (simp only: distrib_left high_high add_0)
qed

lemma two_digits: "(A + c * B) * (C + c * D) = A * C + c * (B * C + A * D) + c * (c * (B * D))" for c :: "'a::comm_ring"
  by (simp add: algebra_simps)

lemma dw_all_sum: "dw_all True l h = of_nat (unat l) + 4294967296 * of_nat (unat h)"
proof -
  have "dw_all True l h = of_nat (unat (dw_all True l h))" by simp
  then show ?thesis unfolding unat_dw_all by simp
qed

lemma dw_sum: "x = of_nat (unat (dw_low True x)) + 4294967296 * of_nat (unat (dw_high True x))"
  by (subst (1) dw_parts(3) [symmetric]) (rule dw_all_sum)

lemma muldi3_eq: "muldi3 True a b = a * b"
proof -
  let ?al = "unat (dw_low True a)" and ?ah = "unat (dw_high True a)"
  let ?bl = "unat (dw_low True b)" and ?bh = "unat (dw_high True b)"
  let ?r = "muldsi3 True (dw_low True a) (dw_low True b)"
  have r: "of_nat (unat (dw_low True ?r)) + 4294967296 * of_nat (unat (dw_high True ?r)) = (of_nat ?al * of_nat ?bl :: u64)"
  proof -
    have "of_nat (unat ?r) = (of_nat ?al * of_nat ?bl :: u64)" unfolding muldsi3_eq by simp
    then show ?thesis using dw_sum [of ?r] by simp
  qed
  have w32: "(2 :: nat) ^ LENGTH(32) = 4294967296" by simp
  have "muldi3 True a b = of_nat (unat (dw_low True ?r))
      + 4294967296 * of_nat (unat (dw_high True ?r) + (?ah * ?bl + ?al * ?bh))"
    unfolding muldi3_def Let_def dw_all_sum mulsi3_eq
    by (simp only: unat_word_ariths w32 mod_simps high_mod)
  also have "\<dots> = of_nat ?al * of_nat ?bl + 4294967296 * (of_nat ?ah * of_nat ?bl + of_nat ?al * of_nat ?bh)"
    unfolding r [symmetric] by (simp add: algebra_simps)
  also have "\<dots> = (of_nat ?al + 4294967296 * of_nat ?ah) * (of_nat ?bl + 4294967296 * of_nat ?bh)"
    by (simp only: two_digits high_high add_0_right)
  also have "\<dots> = a * b" by (simp only: dw_sum [symmetric])
  finally show ?thesis .
qed

subsection \<open>Correctness of the divisions\<close>

text \<open>Restoring division of \<open>n\<close> by \<open>D\<close> on natural numbers, from the multiple \<open>D * 2 ^ k\<close> down: the
  reference for both subtraction loops.\<close>

fun long_div :: "nat \<Rightarrow> nat \<Rightarrow> nat \<Rightarrow> nat \<Rightarrow> nat \<times> nat" where
  "long_div n D 0 q = (if D \<le> n then (q + 1, n - D) else (q, n))"
| "long_div n D (Suc k) q =
     (if D * 2 ^ Suc k \<le> n then long_div (n - D * 2 ^ Suc k) D k (q + 2 ^ Suc k) else long_div n D k q)"

lemma long_div_eq: "0 < D \<Longrightarrow> n < 2 * (D * 2 ^ k) \<Longrightarrow> long_div n D k q = (q + n div D, n mod D)"
proof (induction n D k q rule: long_div.induct)
  case (1 n D q)
  then show ?case by (auto simp: not_le le_div_geq le_mod_geq)
next
  case (2 n D k q)
  show ?case
  proof (cases "D * 2 ^ Suc k \<le> n")
    case True
    have "n - D * 2 ^ Suc k < 2 * (D * 2 ^ k)" using 2(4) True by simp
    then have "long_div n D (Suc k) q = (q + 2 ^ Suc k + (n - D * 2 ^ Suc k) div D, (n - D * 2 ^ Suc k) mod D)"
      using 2(1) [OF True 2(3)] True by simp
    moreover have "n = (n - D * 2 ^ Suc k) + 2 ^ Suc k * D" using True by simp
    then have "n div D = 2 ^ Suc k + (n - D * 2 ^ Suc k) div D" "n mod D = (n - D * 2 ^ Suc k) mod D"
      using 2(3) by (metis add.commute div_mult_self1 less_not_refl2, metis mod_mult_self1)
    ultimately show ?thesis by simp
  next
    case False
    then show ?thesis using 2 by simp
  qed
qed

text \<open>A quotient bit below all those already set: setting it is adding it.\<close>

lemma new_quotient_bit:
  fixes res bt :: "'a::len word"
  assumes "2 ^ Suc k dvd unat res" "unat bt = 2 ^ k"
  shows "unat (res OR bt) = unat res + 2 ^ k" "res + bt = res OR bt"
proof -
  obtain c where c: "unat res = 2 ^ Suc k * c" using assms(1) by blast
  have low: "\<not> bit (unat res) i" if i: "i \<le> k" for i
  proof -
    have "unat res = 2 ^ i * (2 * (2 ^ (k - i) * c))" using i by (simp add: c flip: power_add mult.assoc)
    then show ?thesis by (simp add: bit_iff_odd)
  qed
  have b: "bit (unat bt) i \<longleftrightarrow> i = k" for i by (simp add: assms(2) bit_simps)
  have d: "\<not> bit (unat res) i \<or> \<not> bit (unat bt) i" for i using low [of k] b by auto
  have "unat (res OR bt) = unat res OR unat bt" by (rule unsigned_or_eq)
  then show "unat (res OR bt) = unat res + 2 ^ k" using disjunctive_add [OF d] by (simp add: assms(2))
  show "res + bt = res OR bt"
    by (rule disjunctive_add) (use d in \<open>auto simp: bit_unsigned_iff dest: bit_imp_le_length\<close>)
qed

lemma unat_halve: "unat x = D * 2 ^ Suc k \<Longrightarrow> unat (drop_bit 1 x :: 'a::len word) = D * 2 ^ k"
  by (simp only: unat_drop_bit_eq) (simp add: drop_bit_eq_div)

lemma unat_bit_halve: "unat x = 2 ^ Suc k \<Longrightarrow> unat (drop_bit 1 x :: 'a::len word) = 2 ^ k"
  using unat_halve [of x 1] by simp

lemma dvd_next: "2 ^ Suc (Suc k) dvd n \<Longrightarrow> 2 ^ Suc k dvd (n + 2 ^ Suc k :: nat)" "2 ^ Suc (Suc k) dvd n \<Longrightarrow> 2 ^ Suc k dvd (n :: nat)"
  by (auto intro: dvd_add power_le_dvd [of 2 "Suc (Suc k)"])

lemma unat_one_halve: "unat x = 1 \<Longrightarrow> drop_bit 1 x = (0 :: 'a::len word)"
  by (rule word_unat_eq_iff [THEN iffD2]) (simp add: drop_bit_eq_div unat_div)

lemma unat_nonzero: "unat x = 2 ^ k \<Longrightarrow> x \<noteq> 0"
  by auto

lemma udiv_sub_long_div:
  assumes "unat den = D * 2 ^ k" "unat bt = 2 ^ k" "2 ^ Suc k dvd unat res"
  shows "map_prod unat unat (udiv_sub num den res bt) = long_div (unat num) D k (unat res)"
  using assms
proof (induction k arbitrary: num den res bt)
  case 0
  note q = new_quotient_bit [OF 0(3), of bt]
  show ?case using 0 q unat_one_halve [of bt]
    by (subst udiv_sub.simps) (auto simp: udiv_sub.simps [of _ _ _ 0] word_le_nat_alt unat_sub)
next
  case (Suc k)
  note q = new_quotient_bit [OF Suc(4,3)]
  note ih = Suc.IH [OF unat_halve [OF Suc(2)] unat_bit_halve [OF Suc(3)]]
  show ?case using Suc(2-4) q unat_nonzero [OF Suc(3)] ih [of "res OR bt" "num - den"] ih [of res num] dvd_next [OF Suc(4)]
    by (subst udiv_sub.simps) (auto simp: word_le_nat_alt unat_sub)
qed

lemma udivdi_sub_long_div:
  assumes "unat den = D * 2 ^ k" "unat qbit = 2 ^ k" "2 ^ Suc k dvd unat quot"
  shows "map_prod unat unat (udivdi_sub num den quot qbit) = long_div (unat num) D k (unat quot)"
  using assms
proof (induction k arbitrary: num den quot qbit)
  case 0
  note q = new_quotient_bit [OF 0(3), of qbit]
  show ?case using 0 q unat_one_halve [of qbit]
    by (subst udivdi_sub.simps) (auto simp: udivdi_sub.simps [of _ _ _ 0] word_le_nat_alt unat_sub)
next
  case (Suc k)
  note q = new_quotient_bit [OF Suc(4,3)]
  note ih = Suc.IH [OF unat_halve [OF Suc(2)] unat_bit_halve [OF Suc(3)]]
  show ?case using Suc(2-4) q unat_nonzero [OF Suc(3)] ih [of "quot OR qbit" "num - den"] ih [of quot num] dvd_next [OF Suc(4)]
    by (subst udivdi_sub.simps) (auto simp: word_le_nat_alt unat_sub)
qed

lemma top_bit: "bit x (LENGTH('a) - 1) \<longleftrightarrow> 2 ^ (LENGTH('a) - 1) \<le> unat (x :: 'a::len word)"
proof -
  have b: "bit x (LENGTH('a) - 1) \<longleftrightarrow> odd (unat x div 2 ^ (LENGTH('a) - 1))"
    by (simp only: bit_iff_odd [of "unat x", symmetric]) (simp add: bit_unsigned_iff)
  have "unat x < 2 * 2 ^ (LENGTH('a) - 1)" using unsigned_less [of x] by (simp flip: power_Suc)
  then have "unat x div 2 ^ (LENGTH('a) - 1) < 2" by (simp add: less_mult_imp_div_less)
  then have "odd (unat x div 2 ^ (LENGTH('a) - 1)) \<longleftrightarrow> 0 < unat x div 2 ^ (LENGTH('a) - 1)"
    by (cases "unat x div 2 ^ (LENGTH('a) - 1)") (auto simp: less_Suc_eq)
  then show ?thesis unfolding b by (simp add: div_greater_zero_iff)
qed

lemma top_bit32: "x AND 0x80000000 = 0 \<longleftrightarrow> unat (x :: u32) < 2147483648"
  using top_bit [of x] and_exp_eq_0_iff_not_bit [of x 31] by auto

lemma top_bit64: "0 \<le>s x \<longleftrightarrow> unat (x :: u64) < 9223372036854775808"
  using top_bit [of x] bit_last_iff [of x] by (auto simp: word_sle_eq)

lemma unat_double: "unat x < 2 ^ (LENGTH('a) - 1) \<Longrightarrow> unat (push_bit 1 x :: 'a::len word) = 2 * unat x"
proof -
  assume "unat x < 2 ^ (LENGTH('a) - 1)"
  then have "2 * unat x < 2 ^ LENGTH('a)" by (cases "LENGTH('a)") simp_all
  then show ?thesis by (simp only: unsigned_push_bit_eq) (simp add: take_bit_nat_eq_self push_bit_eq_mult mult.commute)
qed

lemma udiv_align_bound:
  assumes "0 < D" "unat den = D * 2 ^ k" "unat bt = 2 ^ k"
  shows "\<exists>j. unat (fst (udiv_align num den bt)) = D * 2 ^ j \<and> unat (snd (udiv_align num den bt)) = 2 ^ j
    \<and> unat num < 2 * (D * 2 ^ j)"
  using assms
proof (induction num den bt arbitrary: k rule: udiv_align.induct)
  case (1 num den bt)
  show ?case
  proof (cases "den < num \<and> unat den < 2147483648")
    case True
    have "unat bt \<le> unat den" using 1(2) unfolding 1(3,4) by simp
    then have lt: "unat bt < 2147483648" using True by linarith
    have "unat (push_bit 1 den) = D * 2 ^ Suc k" "unat (push_bit 1 bt) = 2 ^ Suc k"
      using unat_double [of den] unat_double [of bt] True lt 1(3,4) by simp_all
    then show ?thesis using 1(1) [of "Suc k"] 1(2,4) True unat_nonzero [OF 1(4)]
      by (subst (1 2) udiv_align.simps) (auto simp: top_bit32)
  next
    case False
    moreover have "0 < unat den" using 1(2) unfolding 1(3) by simp
    ultimately have "unat num < 2 * unat den" using unat_lt32 [of num] by (auto simp: word_less_nat_alt)
    then show ?thesis using False 1(3,4)
      by (intro exI [of _ k], subst (1 2) udiv_align.simps) (auto simp: top_bit32)
  qed
qed

lemma udivdi_align_bound:
  assumes "0 < D" "unat den = D * 2 ^ k" "unat qbit = 2 ^ k"
  shows "\<exists>j. unat (fst (udivdi_align den qbit)) = D * 2 ^ j \<and> unat (snd (udivdi_align den qbit)) = 2 ^ j
    \<and> 18446744073709551616 \<le> 2 * (D * 2 ^ j)"
  using assms
proof (induction den qbit arbitrary: k rule: udivdi_align.induct)
  case (1 den qbit)
  show ?case
  proof (cases "unat den < 9223372036854775808")
    case True
    have "unat qbit \<le> unat den" using 1(2) unfolding 1(3,4) by simp
    then have lt: "unat qbit < 9223372036854775808" using True by linarith
    have "unat (push_bit 1 den) = D * 2 ^ Suc k" "unat (push_bit 1 qbit) = 2 ^ Suc k"
      using unat_double [of den] unat_double [of qbit] True lt 1(3,4) by simp_all
    moreover have "den \<noteq> 0" using 1(2,3) by auto
    ultimately show ?thesis using 1(1) [of "Suc k"] 1(2) True
      by (subst (1 2) udivdi_align.simps) (auto simp: top_bit64)
  next
    case False
    then show ?thesis using 1(3,4)
      by (intro exI [of _ k], subst (1 2) udivdi_align.simps) (auto simp: top_bit64)
  qed
qed

lemma map_prod_fst_snd: "map_prod f g p = (a, b) \<Longrightarrow> f (fst p) = a \<and> g (snd p) = b"
  by (cases p) simp

lemma udivmodsi4_eq:
  assumes "den \<noteq> 0"
  shows "udivmodsi4 num den modwanted = (if modwanted \<noteq> 0 then num mod den else num div den)"
proof -
  have D: "0 < unat den" using assms by (simp add: unat_gt_0)
  obtain j where j: "unat (fst (udiv_align num den 1)) = unat den * 2 ^ j" "unat (snd (udiv_align num den 1)) = 2 ^ j"
    "unat num < 2 * (unat den * 2 ^ j)"
    using udiv_align_bound [OF D, of den 0 1 num] by auto
  have "map_prod unat unat (udiv_sub num (fst (udiv_align num den 1)) 0 (snd (udiv_align num den 1)))
      = (unat num div unat den, unat num mod unat den)"
    using udiv_sub_long_div [OF j(1,2), of 0 num] long_div_eq [OF D j(3), of 0] by simp
  from map_prod_fst_snd [OF this] show ?thesis
    by (simp add: udivmodsi4_def case_prod_beta word_unat_eq_iff unat_div unat_mod)
qed

lemma udivmoddi4_eq: "udivmoddi4 num den = (if den = 0 then None else Some (num div den, num mod den))"
proof (cases "den = 0")
  case False
  then have D: "0 < unat den" by (simp add: unat_gt_0)
  obtain j where j: "unat (fst (udivdi_align den 1)) = unat den * 2 ^ j" "unat (snd (udivdi_align den 1)) = 2 ^ j"
    "18446744073709551616 \<le> 2 * (unat den * 2 ^ j)"
    using udivdi_align_bound [OF D, of den 0 1] by auto
  have "unat num < 18446744073709551616" by (rule order.strict_trans2 [OF unsigned_less]) simp
  then have lt: "unat num < 2 * (unat den * 2 ^ j)" using j(3) by simp
  have "map_prod unat unat (udivdi_sub num (fst (udivdi_align den 1)) 0 (snd (udivdi_align den 1)))
      = (unat num div unat den, unat num mod unat den)"
    using udivdi_sub_long_div [OF j(1,2), of 0 num] long_div_eq [OF D lt, of 0] by simp
  from map_prod_fst_snd [OF this] False show ?thesis
    by (simp add: udivmoddi4_def case_prod_beta word_unat_eq_iff unat_div unat_mod prod_eq_iff)
qed (simp add: udivmoddi4_def)

text \<open>The signed routines divide absolute values; for the most negative number that is the word itself.\<close>

lemma sless_zero: "a <s 0 \<longleftrightarrow> sint (a :: 'a::len word) < 0"
  by (simp add: word_sless_alt)

lemma uint_abs: "uint (if a <s 0 then - a else a) = \<bar>sint (a :: 'a::len word)\<bar>"
proof -
  have b: "- (2 ^ (LENGTH('a) - 1)) \<le> sint a" "sint a < 2 ^ (LENGTH('a) - 1)"
    by (rule sint_ge sint_lt)+
  have p: "(2 :: int) ^ (LENGTH('a) - 1) < 2 ^ LENGTH('a)" by simp
  have w: "(if a <s 0 then - a else a) = word_of_int \<bar>sint a\<bar>"
    by (simp add: sless_zero wi_hom_neg [symmetric])
  have "\<bar>sint a\<bar> < 2 ^ LENGTH('a)" using b p by linarith
  then show ?thesis unfolding w by (simp add: uint_word_of_int_eq take_bit_int_eq_self)
qed

lemma abs_quotient: "x = word_of_int X \<Longrightarrow> (if n then - x else x) = (word_of_int (if n then - X else X) :: 'a::len word)"
  by simp

lemma uint_div_mod: "x div y = word_of_int (uint x div uint y)" "x mod y = (word_of_int (uint x mod uint y) :: 'a::len word)"
  by (rule word_div_def word_mod_def)+

lemma abs_eq_0: "(if b <s 0 then - b else b) = 0 \<longleftrightarrow> b = (0 :: 'a::len word)"
  by auto

lemma sdiv_abs: "(a :: int) sdiv b = (if (a < 0) \<noteq> (b < 0) then - (\<bar>a\<bar> div \<bar>b\<bar>) else \<bar>a\<bar> div \<bar>b\<bar>)"
  by (auto simp: signed_divide_int_def sgn_if)

lemma smod_abs: "(a :: int) smod b = (if a < 0 then - (\<bar>a\<bar> mod \<bar>b\<bar>) else \<bar>a\<bar> mod \<bar>b\<bar>)"
  by (auto simp: signed_modulo_int_def sgn_if)

lemma divsi3_eq: "b \<noteq> 0 \<Longrightarrow> divsi3 a b = word_of_int (sint a sdiv sint b)"
proof -
  assume nz: "b \<noteq> 0"
  let ?a = "if a <s 0 then - a else a" and ?b = "if b <s 0 then - b else b"
  have "divsi3 a b = (if (a <s 0) \<noteq> (b <s 0) then - (?a div ?b) else ?a div ?b)"
    using nz by (auto simp: divsi3_def udivmodsi4_eq)
  also have "\<dots> = word_of_int (if (a <s 0) \<noteq> (b <s 0) then - (\<bar>sint a\<bar> div \<bar>sint b\<bar>) else \<bar>sint a\<bar> div \<bar>sint b\<bar>)"
    by (rule abs_quotient) (simp only: uint_div_mod uint_abs)
  also have "\<dots> = word_of_int (sint a sdiv sint b)" by (simp only: sdiv_abs sless_zero)
  finally show ?thesis .
qed

lemma modsi3_eq: "b \<noteq> 0 \<Longrightarrow> modsi3 a b = word_of_int (sint a smod sint b)"
proof -
  assume nz: "b \<noteq> 0"
  let ?a = "if a <s 0 then - a else a" and ?b = "if b <s 0 then - b else b"
  have "modsi3 a b = (if a <s 0 then - (?a mod ?b) else ?a mod ?b)"
    using nz by (auto simp: modsi3_def udivmodsi4_eq)
  also have "\<dots> = word_of_int (if a <s 0 then - (\<bar>sint a\<bar> mod \<bar>sint b\<bar>) else \<bar>sint a\<bar> mod \<bar>sint b\<bar>)"
    by (rule abs_quotient) (simp only: uint_div_mod uint_abs)
  also have "\<dots> = word_of_int (sint a smod sint b)" by (simp only: smod_abs sless_zero)
  finally show ?thesis .
qed

lemma divdi3_eq: "b \<noteq> 0 \<Longrightarrow> divdi3 a b = Some (word_of_int (sint a sdiv sint b))"
proof -
  assume nz: "b \<noteq> 0"
  let ?a = "if a <s 0 then - a else a" and ?b = "if b <s 0 then - b else b"
  have "divdi3 a b = Some (if (a <s 0) \<noteq> (b <s 0) then - (?a div ?b) else ?a div ?b)"
    using nz by (auto simp: divdi3_def udivmoddi4_eq)
  also have "\<dots> = Some (word_of_int (if (a <s 0) \<noteq> (b <s 0) then - (\<bar>sint a\<bar> div \<bar>sint b\<bar>) else \<bar>sint a\<bar> div \<bar>sint b\<bar>))"
    by (rule arg_cong [of _ _ Some], rule abs_quotient) (simp only: uint_div_mod uint_abs)
  also have "\<dots> = Some (word_of_int (sint a sdiv sint b))" by (simp only: sdiv_abs sless_zero)
  finally show ?thesis .
qed

text \<open>\<open>__moddi3\<close> also flips the sign of the remainder for a negative divisor.\<close>

lemma moddi3_eq: "b \<noteq> 0 \<Longrightarrow> moddi3 a b = Some (word_of_int (if b <s 0 then - (sint a smod sint b) else sint a smod sint b))"
proof -
  assume nz: "b \<noteq> 0"
  let ?a = "if a <s 0 then - a else a" and ?b = "if b <s 0 then - b else b"
  have "moddi3 a b = Some (if (a <s 0) \<noteq> (b <s 0) then - (?a mod ?b) else ?a mod ?b)"
    using nz by (auto simp: moddi3_def udivmoddi4_eq)
  also have "\<dots> = Some (word_of_int (if (a <s 0) \<noteq> (b <s 0) then - (\<bar>sint a\<bar> mod \<bar>sint b\<bar>) else \<bar>sint a\<bar> mod \<bar>sint b\<bar>))"
    by (rule arg_cong [of _ _ Some], rule abs_quotient) (simp only: uint_div_mod uint_abs)
  finally show ?thesis by (auto simp: smod_abs sless_zero)
qed

lemma udivdi3_eq: "den \<noteq> 0 \<Longrightarrow> udivdi3 num den = Some (num div den) \<and> umoddi3 num den = Some (num mod den)"
  by (simp add: udivdi3_def umoddi3_def udivmoddi4_eq)

subsection \<open>Correctness of the shifts\<close>

lemma shift_split: "0 < b \<Longrightarrow> b < 32 \<Longrightarrow> unat (32 - b :: u32) = 32 - unat b \<and> 32 - b \<noteq> 0 \<and> \<not> 32 \<le> 32 - b"
proof -
  assume b: "0 < b" "b < 32"
  then have "unat (32 - b :: u32) = 32 - unat b" by (subst unat_sub) (auto simp: word_less_nat_alt word_le_nat_alt)
  moreover have "0 < unat b" "unat b < 32" using b by (simp_all add: word_less_nat_alt unat_gt_0)
  ultimately show ?thesis by (auto simp: word_le_nat_alt word_unat_eq_iff)
qed

lemma shift_beyond: "32 < b \<Longrightarrow> 32 \<le> (32 - b :: u32) \<or> 32 \<le> b"
  by auto

lemma ashldi3_eq: "ashldi3 True u b = (if b \<le> 32 then Some (push_bit (unat b) u) else None)"
proof (cases "b = 0 \<or> 32 \<le> b")
  case True
  then show ?thesis
    by (auto simp: ashldi3_def Let_def dw_all_def dw_low_def bit_simps intro!: bit_word_eqI dest: bit_imp_le_length)
next
  case False
  then have b: "0 < b" "b < 32" by (simp_all add: word_gt_0 not_le)
  note s = shift_split [OF b]
  have n: "unat b < 32" "b \<le> 32" using b by (simp add: word_less_nat_alt, simp only: less_imp_le)
  have "dw_all True (push_bit (unat b) (dw_low True u)) (push_bit (unat b) (dw_high True u) OR drop_bit (32 - unat b) (dw_low True u))
      = push_bit (unat b) u"
    using n(1) by (intro bit_word_eqI) (auto simp: dw_all_def dw_low_def dw_high_def bit_simps dest: bit_imp_le_length)
  then show ?thesis using False s n by (simp add: ashldi3_def Let_def)
qed

lemma lshr_halves:
  assumes "0 < k" "k < 32"
  shows "dw_all True (drop_bit k (dw_low True u) OR push_bit (32 - k) (dw_high True u)) (drop_bit k (dw_high True u))
    = drop_bit k u"
proof (rule bit_word_eqI)
  fix n assume n: "n < LENGTH(64)"
  consider "n + k < 32" | "n < 32" "32 \<le> n + k" | "32 \<le> n" by linarith
  then show "bit (dw_all True (drop_bit k (dw_low True u) OR push_bit (32 - k) (dw_high True u)) (drop_bit k (dw_high True u))) n
    = bit (drop_bit k u) n"
  proof cases
    case 1
    then have "\<not> 64 - k \<le> n" "\<not> 32 - k \<le> n" using assms by arith+
    with 1 show ?thesis using assms n by (simp add: dw_all_def dw_low_def dw_high_def bit_simps)
  next
    case 2
    then have "\<not> 64 - k \<le> n" "32 - k \<le> n" "n + k - 32 < 32" using assms by arith+
    moreover have "bit u (n + k) = bit u (k + n)" by (simp add: add.commute)
    ultimately show ?thesis using 2 assms n by (simp add: dw_all_def dw_low_def dw_high_def bit_simps)
  next
    case 3
    then show ?thesis using assms n by (auto simp: dw_all_def dw_low_def dw_high_def bit_simps dest: bit_imp_le_length)
  qed
qed

lemma lshrdi3_eq: "lshrdi3 True u b = (if b \<le> 32 then Some (drop_bit (unat b) u) else None)"
proof (cases "b = 0 \<or> 32 \<le> b")
  case True
  then show ?thesis
    by (auto simp: lshrdi3_def Let_def dw_all_def dw_high_def bit_simps intro!: bit_word_eqI dest: bit_imp_le_length)
      (auto dest: bit_imp_le_length)
next
  case False
  then have b: "0 < b" "b < 32" by (simp_all add: word_gt_0 not_le)
  note s = shift_split [OF b]
  have n: "unat b < 32" "b \<le> 32" using b by (simp add: word_less_nat_alt, simp only: less_imp_le)
  have "0 < unat b" using b(1) by (simp add: unat_gt_0)
  then show ?thesis using False s n lshr_halves [of "unat b" u] by (simp add: lshrdi3_def Let_def)
qed

text \<open>\<open>__ashrdi3\<close> is wrong for a shift by 32: it keeps the low word.\<close>

lemma ashr_halves:
  assumes "0 < k" "k < 32"
  shows "dw_all True (drop_bit k (dw_low True u) OR push_bit (32 - k) (dw_high True u)) (signed_drop_bit k (dw_high True u))
    = signed_drop_bit k u"
proof (rule bit_word_eqI)
  fix n assume n: "n < LENGTH(64)"
  consider "n + k < 32" | "n < 32" "32 \<le> n + k" | "32 \<le> n" by linarith
  then show "bit (dw_all True (drop_bit k (dw_low True u) OR push_bit (32 - k) (dw_high True u)) (signed_drop_bit k (dw_high True u))) n
    = bit (signed_drop_bit k u) n"
  proof cases
    case 1
    then have "\<not> 64 - k \<le> n" "\<not> 32 - k \<le> n" using assms by arith+
    with 1 show ?thesis using assms n by (simp add: dw_all_def dw_low_def dw_high_def bit_simps)
  next
    case 2
    then have "\<not> 64 - k \<le> n" "32 - k \<le> n" "n + k - 32 < 32" using assms by arith+
    moreover have "bit u (n + k) = bit u (k + n)" by (simp add: add.commute)
    ultimately show ?thesis using 2 assms n by (simp add: dw_all_def dw_low_def dw_high_def bit_simps)
  next
    case 3
    then show ?thesis using assms n by (auto simp: dw_all_def dw_low_def dw_high_def bit_simps dest: bit_imp_le_length)
  qed
qed

lemma ashrdi3_eq: "b < 32 \<Longrightarrow> ashrdi3 True u b = Some (signed_drop_bit (unat b) u)"
proof (cases "b = 0")
  case False
  assume "b < 32"
  then have b: "0 < b" "b < 32" using False by (simp_all add: word_gt_0)
  have s: "unat (32 - b) = 32 - unat b" "32 - b \<noteq> 0" "\<not> 32 \<le> 32 - b" using shift_split [OF b] by simp_all
  have n: "unat b < 32" "\<not> 32 \<le> b" using b by (simp add: word_less_nat_alt, simp only: not_le)
  have "0 < unat b" using b(1) by (simp add: unat_gt_0)
  then show ?thesis using False s n ashr_halves [of "unat b" u] by (simp add: ashrdi3_def Let_def)
qed (simp add: ashrdi3_def)

lemma ashrdi3_32: "ashrdi3 True u 32 = Some (dw_all True (dw_low True u) (signed_drop_bit 31 (dw_high True u)))"
  by (simp add: ashrdi3_def Let_def)

subsection \<open>The other word order\<close>

definition swap_halves :: "u64 \<Rightarrow> u64" where
  "swap_halves x = push_bit 32 x OR drop_bit 32 x"

lemma dw_swapped:
  "dw_low False x = dw_low True (swap_halves x)" "dw_high False x = dw_high True (swap_halves x)"
  "dw_all False l h = swap_halves (dw_all True l h)" "swap_halves (swap_halves x) = x"
  by (rule bit_word_eqI; auto simp: dw_low_def dw_high_def dw_all_def swap_halves_def bit_simps dest: bit_imp_le_length)+

lemma muldi3_swapped: "muldi3 False a b = swap_halves (muldi3 True (swap_halves a) (swap_halves b))"
proof -
  have "muldsi3 False x y = swap_halves (muldsi3 True x y)" for x y by (simp add: muldsi3_def Let_def dw_swapped(3))
  then show ?thesis by (simp add: muldi3_def Let_def dw_swapped)
qed

end
