(* ===== verification/GuestLibc.thy ===== *)
theory GuestLibc
  imports HypLibc
begin

text \<open>
  The guests' C library, \<^verbatim>\<open>bare-metal-apps/lib/libc.c\<close>, up to its compiler run-time part (see
  \<open>GuestArith\<close>). The names have the prefix \<open>g_\<close>, since most of them occur in the hypervisor's library too.
  \<open>char\<close> is signed. A routine that scans for a NUL is a \<open>partial_function\<close>; \<open>None\<close> means that it never finds
  one. A routine that writes returns the memory with its result. The static variables \<open>last\<close> of \<open>strtok\<close> and
  \<open>rand1\<close> are explicit arguments and results.

  The lemmas give the result on C strings and blocks: copies, also of overlapping blocks; comparisons;
  searches; decimal numbers.
\<close>

abbreviation (input) sx :: "u8 \<Rightarrow> u32" where
  "sx c \<equiv> scast c"

subsection \<open>Copying and joining strings\<close>

definition g_strcpy :: "mem \<Rightarrow> u32 \<Rightarrow> u32 \<Rightarrow> (mem \<times> u32) option" where
  "g_strcpy m dst src = do {
     m \<leftarrow> strcpy_loop m dst src;
     Some (m, dst) }"

lemma sint_Suc_less: "i <s n \<Longrightarrow> nat (sint n - sint (i + 1)) < nat (sint n - sint (i :: u32))"
proof -
  assume "i <s n"
  then have l: "sint i < sint n" by (simp add: word_sless_alt)
  have "sint n < 2 ^ 31" "- (2 ^ 31) \<le> sint i" using sint_lt [of n] sint_ge [of i] by simp_all
  then have "sint (word_of_int (sint i + 1) :: u32) = sint i + 1"
    using l by (subst sint_sbintrunc') (simp add: signed_take_bit_int_eq_self)
  then have "sint (i + 1) = sint i + 1" by simp
  then show ?thesis using l by simp
qed

text \<open>\<open>strncpy\<close>: the counter \<open>i\<close> is signed; after a NUL the rest is padded.\<close>

function strncpy_pad :: "mem \<Rightarrow> u32 \<Rightarrow> u32 \<Rightarrow> u32 \<Rightarrow> mem" where
  "strncpy_pad m s1 i n = (if i <s n then strncpy_pad (m(s1 := 0)) (s1 + 1) (i + 1) n else m)"
  by pat_completeness auto
termination
  by (relation "measure (\<lambda>(m, s1, i, n). nat (sint n - sint i))") (simp_all only: wf_measure in_measure prod.case sint_Suc_less)

function strncpy_loop :: "mem \<Rightarrow> u32 \<Rightarrow> u32 \<Rightarrow> u32 \<Rightarrow> u32 \<Rightarrow> mem" where
  "strncpy_loop m s1 s2 i n =
     (if i <s n then
        (let c = m s2; m' = m(s1 := c)
         in if c = 0 then strncpy_pad m' (s1 + 1) (i + 1) n else strncpy_loop m' (s1 + 1) (s2 + 1) (i + 1) n)
      else m)"
  by pat_completeness auto
termination
  by (relation "measure (\<lambda>(m, s1, s2, i, n). nat (sint n - sint i))") (simp_all only: wf_measure in_measure prod.case sint_Suc_less)

declare strncpy_pad.simps [simp del] strncpy_loop.simps [simp del]

definition g_strncpy :: "mem \<Rightarrow> u32 \<Rightarrow> u32 \<Rightarrow> u32 \<Rightarrow> mem \<times> u32" where
  "g_strncpy m s1 s2 n = (strncpy_loop m s1 s2 0 n, s1)"

definition g_strcat :: "mem \<Rightarrow> u32 \<Rightarrow> u32 \<Rightarrow> (mem \<times> u32) option" where
  "g_strcat m dst src = do {
     e \<leftarrow> strlen_loop m dst;
     m \<leftarrow> strcpy_loop m e src;
     Some (m, dst) }"

text \<open>\<open>strncat\<close> copies up to \<open>n + 1\<close> characters before the test and then replaces the last one.\<close>

partial_function (option) strncat_loop :: "mem \<Rightarrow> u32 \<Rightarrow> u32 \<Rightarrow> u32 \<Rightarrow> mem option" where
  "strncat_loop m s1 s2 n =
     (let c = m s2; m' = m(s1 := c)
      in if c = 0 then Some m'
         else if n - 1 <s 0 then Some (m'(s1 := 0))
         else strncat_loop m' (s1 + 1) (s2 + 1) (n - 1))"

definition g_strncat :: "mem \<Rightarrow> u32 \<Rightarrow> u32 \<Rightarrow> u32 \<Rightarrow> (mem \<times> u32) option" where
  "g_strncat m s1 s2 n = do {
     e \<leftarrow> strlen_loop m s1;
     m \<leftarrow> strncat_loop m e s2 n;
     Some (m, s1) }"

subsection \<open>Comparing strings\<close>

partial_function (option) g_strcmp :: "mem \<Rightarrow> u32 \<Rightarrow> u32 \<Rightarrow> u32 option" where
  "g_strcmp m s1 s2 =
     (if m s1 = m s2 then (if m s1 = 0 then Some 0 else g_strcmp m (s1 + 1) (s2 + 1))
      else Some (sx (m s1) - sx (m s2)))"

partial_function (option) g_strncmp :: "mem \<Rightarrow> u32 \<Rightarrow> u32 \<Rightarrow> u32 \<Rightarrow> u32 option" where
  "g_strncmp m s1 s2 n =
     (if 0 \<le>s n - 1 then
        (if m s1 = m s2 then (if m s1 = 0 then Some 0 else g_strncmp m (s1 + 1) (s2 + 1) (n - 1))
         else Some (sx (m s1) - sx (m s2)))
      else Some 0)"

subsection \<open>Searching\<close>

partial_function (option) strstr_match :: "mem \<Rightarrow> u32 \<Rightarrow> u32 \<Rightarrow> u32 \<Rightarrow> u32 option" where
  "strstr_match m string fnd i =
     (if m (string + i) = m (fnd + i) \<and> m (fnd + i) \<noteq> 0 then strstr_match m string fnd (i + 1) else Some i)"

partial_function (option) g_strstr :: "mem \<Rightarrow> u32 \<Rightarrow> u32 \<Rightarrow> u32 option" where
  "g_strstr m string fnd =
     Option.bind (strstr_match m string fnd 0) (\<lambda>i.
       if m (fnd + i) = 0 then Some string
       else if m string = 0 then Some NULL
       else g_strstr m (string + 1) fnd)"

partial_function (option) g_strlen_loop :: "mem \<Rightarrow> u32 \<Rightarrow> u32 \<Rightarrow> u32 option" where
  "g_strlen_loop m s n = (if m s \<noteq> 0 then g_strlen_loop m (s + 1) (n + 1) else Some n)"

definition g_strlen :: "mem \<Rightarrow> u32 \<Rightarrow> u32 option" where
  "g_strlen m s = g_strlen_loop m s 0"

partial_function (option) g_strchr :: "mem \<Rightarrow> u32 \<Rightarrow> u32 \<Rightarrow> u32 option" where
  "g_strchr m s c =
     (if m s \<noteq> ucast c then (if m s = 0 then Some NULL else g_strchr m (s + 1) c) else Some s)"

partial_function (option) g_strpbrk :: "mem \<Rightarrow> u32 \<Rightarrow> u32 \<Rightarrow> u32 option" where
  "g_strpbrk m str chars =
     (if m str \<noteq> 0 then
        Option.bind (g_strchr m chars (sx (m str))) (\<lambda>p. if p = NULL then g_strpbrk m (str + 1) chars else Some str)
      else Some NULL)"

text \<open>\<open>pp\<close> is the address of the pointer that \<open>strsep\<close> moves on.\<close>

definition g_strsep :: "mem \<Rightarrow> u32 \<Rightarrow> u32 \<Rightarrow> (mem \<times> u32) option" where
  "g_strsep m pp delim =
     (let p = load32 m pp
      in if p = NULL then Some (m, NULL)
         else do {
           q \<leftarrow> g_strpbrk m p delim;
           Some (if q \<noteq> NULL then ((store32 m pp (q + 1))(q := 0), p) else (store32 m pp NULL, p)) })"

text \<open>The loops of \<open>strtok\<close>: is \<open>c\<close> a delimiter; is it one or the NUL that ends them.\<close>

partial_function (option) in_delim :: "mem \<Rightarrow> u8 \<Rightarrow> u32 \<Rightarrow> bool option" where
  "in_delim m c spanp =
     (if m spanp = 0 then Some False else if c = m spanp then Some True else in_delim m c (spanp + 1))"

partial_function (option) in_delim_nul :: "mem \<Rightarrow> u8 \<Rightarrow> u32 \<Rightarrow> bool option" where
  "in_delim_nul m c spanp =
     (if m spanp = c then Some True else if m spanp \<noteq> 0 then in_delim_nul m c (spanp + 1) else Some False)"

partial_function (option) strtok_skip :: "mem \<Rightarrow> u32 \<Rightarrow> u32 \<Rightarrow> u32 option" where
  "strtok_skip m s delim =
     Option.bind (in_delim m (m s) delim) (\<lambda>d. if d then strtok_skip m (s + 1) delim else Some s)"

text \<open>The result is the new memory and the new \<open>last\<close>.\<close>

partial_function (option) strtok_scan :: "mem \<Rightarrow> u32 \<Rightarrow> u32 \<Rightarrow> (mem \<times> u32) option" where
  "strtok_scan m s delim =
     Option.bind (in_delim_nul m (m s) delim) (\<lambda>d.
       if d then (if m s = 0 then Some (m, NULL) else Some (m(s := 0), s + 1))
       else strtok_scan m (s + 1) delim)"

definition g_strtok :: "mem \<Rightarrow> u32 \<Rightarrow> u32 \<Rightarrow> u32 \<Rightarrow> (mem \<times> u32 \<times> u32) option" where
  "g_strtok m last_tok s delim =
     (let s = (if s = NULL then last_tok else s)
      in if s = NULL then Some (m, NULL, NULL)
         else do {
           tok \<leftarrow> strtok_skip m s delim;
           if m tok = 0 then Some (m, NULL, NULL)
           else do {
             (m, last_tok) \<leftarrow> strtok_scan m (tok + 1) delim;
             Some (m, last_tok, tok) } })"

subsection \<open>Memory\<close>

lemma unat_pred_less: "b \<noteq> 0 \<Longrightarrow> unat (b - 1 :: u32) < unat b"
  by (simp add: unat_minus_one unat_gt_0)

function g_memcpy_loop :: "mem \<Rightarrow> u32 \<Rightarrow> u32 \<Rightarrow> u32 \<Rightarrow> mem" where
  "g_memcpy_loop m r1 r2 n =
     (if n \<noteq> 0 then g_memcpy_loop (m(r1 := m r2)) (r1 + 1) (r2 + 1) (n - 1) else m)"
  by pat_completeness auto
termination by (relation "measure (\<lambda>(m, r1, r2, n). unat n)") (auto intro: unat_pred_less)

definition g_memcpy :: "mem \<Rightarrow> u32 \<Rightarrow> u32 \<Rightarrow> u32 \<Rightarrow> mem \<times> u32" where
  "g_memcpy m dst src n = (g_memcpy_loop m dst src n, dst)"

text \<open>The backward loop of \<open>memmove\<close>; \<open>s\<close> and \<open>p\<close> are the pointers before their decrement.\<close>

function memmove_back :: "mem \<Rightarrow> u32 \<Rightarrow> u32 \<Rightarrow> u32 \<Rightarrow> mem" where
  "memmove_back m s p n =
     (if n \<noteq> 0 then memmove_back (m(s - 1 := m (p - 1))) (s - 1) (p - 1) (n - 1) else m)"
  by pat_completeness auto
termination by (relation "measure (\<lambda>(m, s, p, n). unat n)") (auto intro: unat_pred_less)

definition g_memmove :: "mem \<Rightarrow> u32 \<Rightarrow> u32 \<Rightarrow> u32 \<Rightarrow> mem \<times> u32" where
  "g_memmove m dst src n =
     (if dst \<le> src then g_memcpy_loop m dst src n else memmove_back m (dst + n) (src + n) n, dst)"

function g_memcmp :: "mem \<Rightarrow> u32 \<Rightarrow> u32 \<Rightarrow> u32 \<Rightarrow> u32" where
  "g_memcmp m r1 r2 n =
     (if n \<noteq> 0 \<and> m r1 = m r2 then g_memcmp m (r1 + 1) (r2 + 1) (n - 1)
      else if n = 0 then 0 else if m r1 <s m r2 then - 1 else 1)"
  by pat_completeness auto
termination by (relation "measure (\<lambda>(m, r1, r2, n). unat n)") (auto intro: unat_pred_less)

function g_memset_loop :: "mem \<Rightarrow> u32 \<Rightarrow> u8 \<Rightarrow> u32 \<Rightarrow> mem" where
  "g_memset_loop m p c n = (if n \<noteq> 0 then g_memset_loop (m(p := c)) (p + 1) c (n - 1) else m)"
  by pat_completeness auto
termination by (relation "measure (\<lambda>(m, p, c, n). unat n)") (auto intro: unat_pred_less)

declare g_memcpy_loop.simps [simp del] memmove_back.simps [simp del] g_memcmp.simps [simp del] g_memset_loop.simps [simp del]

definition g_memset :: "mem \<Rightarrow> u32 \<Rightarrow> u32 \<Rightarrow> u32 \<Rightarrow> mem \<times> u32" where
  "g_memset m s c n = (g_memset_loop m s (ucast c) n, s)"

subsection \<open>Numbers\<close>

text \<open>The value of one character of a number, of any base; the comparisons are unsigned.\<close>

definition strtol_digit :: "u32 \<Rightarrow> u32 option" where
  "strtol_digit ch =
     (if 48 \<le> ch \<and> ch \<le> 57 then Some (ch - 48)
      else if 65 \<le> ch \<and> ch \<le> 90 then Some (ch - 65 + 10)
      else if 97 \<le> ch \<and> ch \<le> 122 then Some (ch - 97 + 10)
      else None)"

text \<open>\<open>k\<close> iterations are left. The pointer returned is past the last character read.\<close>

fun strtol_loop :: "mem \<Rightarrow> nat \<Rightarrow> u32 \<Rightarrow> u32 \<Rightarrow> u32 \<Rightarrow> u32 \<times> u32" where
  "strtol_loop m 0 s v base = (s, v)"
| "strtol_loop m (Suc k) s v base =
     (case strtol_digit (sx (m s)) of
        None \<Rightarrow> (s + 1, v)
      | Some d \<Rightarrow> strtol_loop m k (s + 1) (v * base + d) base)"

definition g_strtol :: "mem \<Rightarrow> u32 \<Rightarrow> u32 \<Rightarrow> u32 \<Rightarrow> mem \<times> u32" where
  "g_strtol m s end_p base =
     (let (neg, s) = (if m s = 45 then (True, s + 1) else (False, s));
          (base, s) = (if m s = 48 \<and> m (s + 1) = 120 then (16, s + 2) else (base, s));
          (s, v) = strtol_loop m 9 s 0 base;
          m = (if end_p \<noteq> NULL then store32 m end_p (s - 1) else m)
      in (m, if neg then - v else v))"

partial_function (option) atoi_skip :: "mem \<Rightarrow> u32 \<Rightarrow> u32 option" where
  "atoi_skip m s = (if m s = 32 \<or> m s = 9 then atoi_skip m (s + 1) else Some s)"

partial_function (option) atoi_digits :: "mem \<Rightarrow> u32 \<Rightarrow> u32 \<Rightarrow> u32 option" where
  "atoi_digits m s n =
     (if 48 \<le>s m s \<and> m s \<le>s 57 then atoi_digits m (s + 1) (n * 10 + sx (m s) - 48) else Some n)"

definition g_atoi :: "mem \<Rightarrow> u32 \<Rightarrow> u32 option" where
  "g_atoi m s = do {
     s \<leftarrow> atoi_skip m s;
     let (f, s) = (if m s = 45 then (True, s + 1) else if m s = 43 then (False, s + 1) else (False, s));
     n \<leftarrow> atoi_digits m s 0;
     Some (if f then - n else n) }"

text \<open>The digits of both signs: entry 35 is the digit 0.\<close>

definition itoa_table :: "u8 list" where
  "itoa_table = map of_char ''zyxwvutsrqponmlkjihgfedcba9876543210123456789abcdefghijklmnopqrstuvwxyz''"

text \<open>The result is the memory, the end of the digits and the last \<open>tmp_value\<close>.\<close>

partial_function (option) g_itoa_digits :: "mem \<Rightarrow> u32 \<Rightarrow> u32 \<Rightarrow> u32 \<Rightarrow> (mem \<times> u32 \<times> u32) option" where
  "g_itoa_digits m ptr i base =
     (let tmp_value = i;
          i = c_div i base;
          m = m(ptr := itoa_table ! unat (35 + (tmp_value - i * base)))
      in if i \<noteq> 0 then g_itoa_digits m (ptr + 1) i base else Some (m, ptr + 1, tmp_value))"

partial_function (option) g_itoa_rev :: "mem \<Rightarrow> u32 \<Rightarrow> u32 \<Rightarrow> mem option" where
  "g_itoa_rev m ptr1 ptr =
     (if ptr1 < ptr then
        (let tmp_char = m ptr; m = m(ptr := m ptr1); m = m(ptr1 := tmp_char) in g_itoa_rev m (ptr1 + 1) (ptr - 1))
      else Some m)"

definition g_itoa :: "mem \<Rightarrow> u32 \<Rightarrow> u32 \<Rightarrow> u32 \<Rightarrow> (mem \<times> u32) option" where
  "g_itoa m i s base =
     (if base <s 2 \<or> 36 <s base then Some (m(s := 0), s)
      else do {
        (m, ptr, tmp_value) \<leftarrow> g_itoa_digits m s i base;
        let (m, ptr) = (if tmp_value <s 0 then (m(ptr := 45), ptr + 1) else (m, ptr));
        m \<leftarrow> g_itoa_rev (m(ptr := 0)) s (ptr - 1);
        Some (m, s) })"

definition g_abs :: "u32 \<Rightarrow> u32" where
  "g_abs n = (if 0 \<le>s n then n else - n)"

text \<open>The generator: the new \<open>rand1\<close> and the result.\<close>

definition g_random :: "u32 \<Rightarrow> u32 \<times> u32" where
  "g_random rand1 =
     (let rand1 = rand1 * 1103515245 + 12345 in (rand1, drop_bit 16 rand1 AND 32767))"

definition g_srand :: "u32 \<Rightarrow> u32" where
  "g_srand seed = seed"

subsection \<open>Console\<close>

partial_function (option) g_puts_loop :: "mem \<Rightarrow> u32 \<Rightarrow> u8 list \<Rightarrow> u8 list option" where
  "g_puts_loop m str out = (if m str \<noteq> 0 then g_puts_loop m (str + 1) (out @ [m str]) else Some out)"

definition g_puts :: "mem \<Rightarrow> u32 \<Rightarrow> u8 list option" where
  "g_puts m str = do {
     out \<leftarrow> g_puts_loop m str [];
     Some (out @ [10]) }"

text \<open>\<open>gets\<close> on the values that \<open>getchar\<close> will return; it waits for ever when they run out.\<close>

fun gets_loop :: "mem \<Rightarrow> u32 \<Rightarrow> u32 list \<Rightarrow> (mem \<times> u32 \<times> u32 \<times> u32 list) option" where
  "gets_loop m cs [] = None"
| "gets_loop m cs (c # inp) =
     (if c \<noteq> 10 \<and> 0 \<le>s c then gets_loop (m(cs := ucast c)) (cs + 1) inp else Some (m, cs, c, inp))"

definition g_gets :: "mem \<Rightarrow> u32 \<Rightarrow> u32 list \<Rightarrow> (mem \<times> u32 \<times> u32 list) option" where
  "g_gets m s inp = do {
     (m, cs, c, inp) \<leftarrow> gets_loop m s inp;
     Some (if c <s 0 \<and> cs = s then (m, NULL, inp) else (m(cs := 0), s, inp)) }"

subsection \<open>The printf family\<close>

text \<open>The code of \<open>printchar\<close>, \<open>prints\<close>, \<open>printi\<close> and \<open>print\<close> is the hypervisor's, with a buffer of 30
  characters and without the carriage return.\<close>

definition PRINT_BUF_LEN :: nat where "PRINT_BUF_LEN = 30"

definition g_printchar :: "pst \<Rightarrow> u8 \<Rightarrow> pst" where
  "g_printchar = printchar"

definition g_prints :: "pst \<Rightarrow> u32 \<Rightarrow> u32 \<Rightarrow> u32 \<Rightarrow> (pst \<times> u32) option" where
  "g_prints = prints"

definition g_printi :: "penv \<Rightarrow> pst \<Rightarrow> u32 \<Rightarrow> u32 \<Rightarrow> u32 \<Rightarrow> u32 \<Rightarrow> u32 \<Rightarrow> u32 \<Rightarrow> (pst \<times> u32) option" where
  "g_printi = printi_gen PRINT_BUF_LEN"

definition g_print :: "penv \<Rightarrow> pst \<Rightarrow> u32 \<Rightarrow> u32 list \<Rightarrow> (pst \<times> u32) option" where
  "g_print = print_gen PRINT_BUF_LEN False"

definition g_printf :: "penv \<Rightarrow> mem \<Rightarrow> u32 \<Rightarrow> u32 list \<Rightarrow> (mem \<times> u8 list \<times> u32) option" where
  "g_printf e m fmt args = do {
     (st, pc) \<leftarrow> g_print e \<lparr>pmem = m, pout = None, pcon = []\<rparr> fmt args;
     Some (pmem st, pcon st, pc) }"

definition g_sprintf :: "penv \<Rightarrow> mem \<Rightarrow> u32 \<Rightarrow> u32 \<Rightarrow> u32 list \<Rightarrow> (mem \<times> u32) option" where
  "g_sprintf e m out fmt args = do {
     (st, pc) \<leftarrow> g_print e \<lparr>pmem = m, pout = Some out, pcon = []\<rparr> fmt args;
     Some (pmem st, pc) }"

subsection \<open>Delay\<close>

text \<open>\<open>clk k\<close> is the \<open>k\<close>-th value read from the Count register; \<open>speed\<close> is the build's \<open>CPU_SPEED\<close>. The result
  is the number of reads.\<close>

partial_function (option) g_udelay_loop :: "(nat \<Rightarrow> u32) \<Rightarrow> nat \<Rightarrow> u32 \<Rightarrow> nat option" where
  "g_udelay_loop clk k final = (if 0 \<le>s clk k - final then Some (k + 1) else g_udelay_loop clk (k + 1) final)"

definition g_udelay :: "(nat \<Rightarrow> u32) \<Rightarrow> u32 \<Rightarrow> u32 \<Rightarrow> nat option" where
  "g_udelay clk speed usec = g_udelay_loop clk 1 (clk 0 + usec * (speed div 1000000) div 2)"

subsection \<open>Correctness of the memory routines\<close>

lemma g_memcpy_loop_Suc: "unat n = Suc k \<Longrightarrow> g_memcpy_loop m d s n = g_memcpy_loop (m(d := m s)) (d + 1) (s + 1) (n - 1)"
  by (subst g_memcpy_loop.simps) auto

lemma g_memcpy_loop_0: "unat n = 0 \<Longrightarrow> g_memcpy_loop m d s n = m"
  by (subst g_memcpy_loop.simps) (simp add: unat_eq_0)

text \<open>Copying upwards is right if no byte is read after it has been overwritten: the blocks are disjoint or the
  destination is below the source.\<close>

lemma bytes_at_upd_before:
  assumes "\<And>i. i < n \<Longrightarrow> a \<noteq> b + of_nat i"
  shows "bytes_at (m(a := c)) b n = bytes_at m b n"
  using assms by (intro nth_equalityI) auto

lemma g_memcpy_loop_up:
  assumes "unat d \<le> unat s" "unat s + unat n \<le> 2 ^ 32"
  shows "g_memcpy_loop m d s n = store_bytes m d (bytes_at m s (unat n))"
  using assms
proof (induction "unat n" arbitrary: m d s n)
  case 0
  then show ?case by (simp add: g_memcpy_loop_0)
next
  case (Suc k)
  note n = unat_pred [OF Suc.hyps(2) [symmetric]]
  have b: "unat d \<le> unat s" "unat s + Suc k \<le> 2 ^ 32" using Suc by simp_all
  show ?case
  proof (cases k)
    case 0
    then have "unat n = Suc 0" using Suc.hyps(2) by simp
    then show ?thesis using n 0 by (simp add: g_memcpy_loop_Suc [of n 0] g_memcpy_loop_0 bytes_at_Suc [of m s 0, simplified])
  next
    case (Suc j)
    have s1: "unat (s + 1) = unat s + 1" and d1: "unat (d + 1) = unat d + 1"
      using b Suc by (subst unat_add_small; simp)+
    have ne: "d \<noteq> s + 1 + of_nat i" if i: "i < k" for i
    proof -
      have "unat (s + 1 + of_nat i) = unat s + 1 + i"
        using b i s1 by (subst unat_add_small) (simp_all add: unat_of_nat_small)
      then show ?thesis using b by auto
    qed
    have "bytes_at (m(d := m s)) (s + 1) k = bytes_at m (s + 1) k" by (rule bytes_at_upd_before [OF ne])
    then have "g_memcpy_loop m d s n = store_bytes (m(d := m s)) (d + 1) (bytes_at m (s + 1) k)"
      using Suc.hyps(1) [of "n - 1" "d + 1" "s + 1" "m(d := m s)"] n b s1 d1 g_memcpy_loop_Suc [OF Suc.hyps(2) [symmetric]] by simp
    then show ?thesis by (simp add: bytes_at_Suc flip: Suc.hyps(2))
  qed
qed

lemma g_memcpy_copies:
  "blocks_disjoint d (unat n) s (unat n) \<Longrightarrow> g_memcpy m d s n = (store_bytes m d (bytes_at m s (unat n)), d)"
proof -
  assume "blocks_disjoint d (unat n) s (unat n)"
  then have "g_memcpy_loop m d s n = store_bytes m d (bytes_at m s (unat n))"
  proof (induction "unat n" arbitrary: m d s n)
    case 0
    then show ?case by (simp add: g_memcpy_loop_0)
  next
    case (Suc k)
    note n = unat_pred [OF Suc.hyps(2) [symmetric]]
    have dj: "blocks_disjoint d (Suc k) s (Suc k)" using Suc.prems Suc.hyps(2) by simp
    have k32: "Suc k \<le> 2 ^ 32" using Suc.hyps(2) unat_lt32 [of n] by simp
    have "bytes_at (m(d := m s)) (s + 1) k = bytes_at m (s + 1) k"
      using bytes_at_upd_disjoint [OF dj k32, of m "m s"] by (simp add: bytes_at_Suc)
    moreover have "blocks_disjoint (d + 1) k (s + 1) k" using blocks_disjoint_sub [OF dj, of 1 k 1 k] k32 by simp
    ultimately show ?case using Suc.hyps(1) [of "n - 1" "d + 1" "s + 1" "m(d := m s)"] n
      g_memcpy_loop_Suc [OF Suc.hyps(2) [symmetric], of m d s] by (simp add: bytes_at_Suc flip: Suc.hyps(2))
  qed
  then show ?thesis by (simp add: g_memcpy_def)
qed

lemma memmove_back_eq:
  assumes "unat s < unat d" "unat d + unat n \<le> 2 ^ 32"
  shows "memmove_back m (d + n) (s + n) n = store_bytes m d (bytes_at m s (unat n))"
  using assms
proof (induction "unat n" arbitrary: m n)
  case 0
  then show ?case by (subst memmove_back.simps) (simp add: unat_eq_0)
next
  case (Suc k)
  note n = unat_pred [OF Suc.hyps(2) [symmetric]]
  have k: "n = of_nat (Suc k)" using Suc.hyps(2) by (metis of_nat_unat word_of_nat_eq_iff unat_of_nat ucast_id)
  have b: "unat s < unat d" "unat d + Suc k \<le> 2 ^ 32" using Suc by simp_all
  let ?m = "m(d + of_nat k := m (s + of_nat k))"
  have "d + of_nat k \<noteq> s + of_nat i" if i: "i < k" for i
  proof -
    have "unat (d + of_nat k) = unat d + k" "unat (s + of_nat i) = unat s + i"
      using b i by (subst unat_add_small; simp add: unat_of_nat_small)+
    then show ?thesis using b i by auto
  qed
  then have r: "bytes_at ?m s k = bytes_at m s k" by (rule bytes_at_upd_before)
  have "memmove_back m (d + n) (s + n) n = memmove_back ?m (d + (n - 1)) (s + (n - 1)) (n - 1)"
    using Suc.hyps(2) by (subst memmove_back.simps) (auto simp: k algebra_simps)
  also have "\<dots> = store_bytes ?m d (bytes_at m s k)"
    using Suc.hyps(1) [of "n - 1" ?m] n b r by simp
  also have "\<dots> = store_bytes m d (bytes_at m s k @ [m (s + of_nat k)])"
    using store_bytes_snoc [of "bytes_at m s k" m d "m (s + of_nat k)"] b by simp
  also have "bytes_at m s k @ [m (s + of_nat k)] = bytes_at m s (unat n)"
    using bytes_at_add [of m s k 1] Suc.hyps(2) by (simp add: bytes_at_Suc [of _ _ 0, simplified])
  finally show ?case .
qed

text \<open>\<open>memmove\<close> copies overlapping blocks too.\<close>

lemma g_memmove_copies:
  assumes "unat d + unat n \<le> 2 ^ 32" "unat s + unat n \<le> 2 ^ 32"
  shows "g_memmove m d s n = (store_bytes m d (bytes_at m s (unat n)), d)"
  using g_memcpy_loop_up [of d s n m] memmove_back_eq [of s d n m] assms
  by (auto simp: g_memmove_def word_le_nat_alt)

lemma g_memset_fills: "g_memset m s c n = (store_bytes m s (replicate (unat n) (ucast c)), s)"
proof -
  have "g_memset_loop m p b n = store_bytes m p (replicate (unat n) b)" for b p
  proof (induction "unat n" arbitrary: m p n)
    case 0
    then show ?case by (subst g_memset_loop.simps) (simp add: unat_eq_0)
  next
    case (Suc k)
    note n = unat_pred [OF Suc.hyps(2) [symmetric]]
    have "n \<noteq> 0" using Suc.hyps(2) by auto
    then show ?case using Suc.hyps(1) [of "n - 1"] n
      by (subst g_memset_loop.simps) (simp flip: Suc.hyps(2))
  qed
  then show ?thesis by (simp add: g_memset_def)
qed

text \<open>\<open>memcmp\<close> compares at the first difference, bytes being signed.\<close>

lemma g_memcmp_eq_0: "g_memcmp m a b n = 0 \<longleftrightarrow> bytes_at m a (unat n) = bytes_at m b (unat n)"
proof (induction "unat n" arbitrary: a b n)
  case 0
  then show ?case by (subst g_memcmp.simps) (simp add: unat_eq_0)
next
  case (Suc k)
  note n = unat_pred [OF Suc.hyps(2) [symmetric]]
  have "n \<noteq> 0" using Suc.hyps(2) by auto
  then show ?case using Suc.hyps(1) [of "n - 1" "a + 1" "b + 1"] n
    by (subst g_memcmp.simps) (simp add: bytes_at_Suc flip: Suc.hyps(2))
qed

subsection \<open>Correctness of the string routines\<close>

lemma g_strlen_cstr: "cstr m s cs \<Longrightarrow> g_strlen m s = Some (of_nat (length cs))"
proof -
  have "cstr m s cs \<Longrightarrow> g_strlen_loop m s n = Some (n + of_nat (length cs))" for n
    by (induction cs arbitrary: s n) (simp_all add: g_strlen_loop.simps algebra_simps)
  then show "cstr m s cs \<Longrightarrow> g_strlen m s = Some (of_nat (length cs))" by (simp add: g_strlen_def)
qed

lemma g_strcpy_cstr:
  "cstr m s cs \<Longrightarrow> length cs < 2 ^ 32 \<Longrightarrow> blocks_disjoint d (Suc (length cs)) s (Suc (length cs)) \<Longrightarrow>
   g_strcpy m d s = Some (store_bytes m d (cs @ [0]), d)"
  by (simp add: g_strcpy_def strcpy_loop_cstr)

text \<open>Joining: the source does not overlap what the destination grows to.\<close>

lemma g_strcat_cstr:
  assumes "cstr m d a" "cstr m s b" "length a + length b < 2 ^ 32"
    and dj: "blocks_disjoint d (Suc (length a + length b)) s (Suc (length b))"
  shows "\<exists>m'. g_strcat m d s = Some (m', d) \<and> cstr m' d (a @ b)
    \<and> (\<forall>x. \<not> in_block d (Suc (length a + length b)) x \<longrightarrow> m' x = m x)"
proof -
  let ?e = "d + of_nat (length a)" and ?N = "Suc (length a + length b)"
  let ?m = "store_bytes m ?e (b @ [0])"
  have "blocks_disjoint ?e (Suc (length b)) (s + of_nat 0) (Suc (length b))"
    using assms(3) by (intro blocks_disjoint_sub [OF dj]) simp_all
  then have c: "g_strcat m d s = Some (?m, d)"
    using assms by (simp add: g_strcat_def strlen_loop_cstr strcpy_loop_cstr)
  have "store_bytes m d (a @ b @ [0]) = store_bytes (store_bytes m d a) ?e (b @ [0])" by (rule store_bytes_append)
  also have "store_bytes m d a = m"
  proof
    fix x
    have "bytes_at m d (length a) = a" using assms(1) by (simp add: cstr_iff)
    then have "unat (x - d) < length a \<Longrightarrow> a ! unat (x - d) = m x"
      using nth_bytes_at [of "unat (x - d)" "length a" m d] by simp
    then show "store_bytes m d a x = m x" using assms(3) by (simp add: store_bytes_apply)
  qed
  finally have st: "?m = store_bytes m d ((a @ b) @ [0])" by simp
  have "bytes_at ?m d (Suc (length (a @ b))) = (a @ b) @ [0]"
    unfolding st using bytes_at_store_bytes [of "(a @ b) @ [0]" m d] assms(3) by simp
  then have "cstr ?m d (a @ b)" using assms(1,2) by (simp add: cstr_bytes cstr_iff)
  moreover have "?m x = m x" if "\<not> in_block d ?N x" for x
    unfolding st using that assms(3) by (intro store_bytes_outside) simp_all
  ultimately show ?thesis using c by blast
qed

lemma sint_diff_i8: "sint (sx a - sx b) = sint a - sint b"
proof -
  have r: "- 128 \<le> sint c \<and> sint c < 128" for c :: u8 using sint_ge [of c] sint_lt [of c] by simp
  have "sx a - sx b = word_of_int (sint a - sint b)" by (simp add: wi_hom_sub [symmetric])
  then show ?thesis using r [of a] r [of b] by (simp only: sint_sbintrunc') (simp add: signed_take_bit_int_eq_self)
qed

lemma diff_i8:
  "(sx a - sx b) <s 0 \<longleftrightarrow> sint a < sint b"
  "sx a - sx b = 0 \<longleftrightarrow> a = b"
proof -
  show "(sx a - sx b) <s 0 \<longleftrightarrow> sint a < sint b" by (simp add: word_sless_alt sint_diff_i8)
  have "sx a - sx b = 0 \<longleftrightarrow> sint (sx a - sx b) = 0" by (metis signed_0 signed_eq_0_iff)
  also have "\<dots> \<longleftrightarrow> sint a = sint b" by (simp only: sint_diff_i8) simp
  also have "\<dots> \<longleftrightarrow> a = b" by (metis signed_word_eqI)
  finally show "sx a - sx b = 0 \<longleftrightarrow> a = b" .
qed

text \<open>\<open>strcmp\<close> of two strings: 0 exactly on equal strings, negative exactly if the first, with its NUL, is
  lexicographically below the second for signed characters.\<close>

lemma g_strcmp_cstr:
  "cstr m s1 a \<Longrightarrow> cstr m s2 b \<Longrightarrow>
   \<exists>r. g_strcmp m s1 s2 = Some r \<and> (r = 0 \<longleftrightarrow> a = b) \<and>
     (r <s 0 \<longleftrightarrow> ord_class.lexordp (map sint (a @ [0])) (map sint (b @ [0])))"
proof (induction a arbitrary: s1 s2 b)
  case Nil
  show ?case
  proof (cases b)
    case (Cons d ds)
    then have "g_strcmp m s1 s2 = Some (sx 0 - sx d)" using Nil by (subst g_strcmp.simps) auto
    moreover have "d \<noteq> 0" using Nil Cons by auto
    then have "sint d \<noteq> sint (0 :: u8)" by (metis signed_word_eqI)
    ultimately show ?thesis using Nil Cons diff_i8 [of 0 d] by (cases ds) auto
  qed (use Nil in \<open>simp add: g_strcmp.simps\<close>)
next
  case (Cons c a)
  show ?case
  proof (cases "b \<noteq> [] \<and> hd b = c")
    case True
    then obtain b' where b: "b = c # b'" by (cases b) auto
    have e: "g_strcmp m s1 s2 = g_strcmp m (s1 + 1) (s2 + 1)" using Cons.prems b by (subst g_strcmp.simps) simp
    show ?thesis using Cons.IH [of "s1 + 1" "s2 + 1" b'] Cons.prems unfolding e by (auto simp: b)
  next
    case False
    define d where "d = m s2"
    have d: "map sint (b @ [0]) = sint d # tl (map sint (b @ [0]))" "c \<noteq> d" "c # a \<noteq> b"
      using Cons.prems False by (cases b; auto simp: d_def)+
    have e: "g_strcmp m s1 s2 = Some (sx c - sx d)"
      using Cons.prems d(2) by (subst g_strcmp.simps) (auto simp: d_def)
    have "sint c \<noteq> sint d" using d(2) by (metis signed_word_eqI)
    then have "ord_class.lexordp (map sint ((c # a) @ [0])) (map sint (b @ [0])) \<longleftrightarrow> sint c < sint d"
      by (subst d(1)) auto
    then show ?thesis using e diff_i8 [of c d] d(2,3) by simp
  qed
qed

lemma g_strchr_cstr:
  "cstr m s cs \<Longrightarrow> ucast c \<noteq> (0 :: u8) \<Longrightarrow>
   g_strchr m s c = Some (if ucast c \<in> set cs then s + of_nat (length (takeWhile (\<lambda>x. x \<noteq> ucast c) cs)) else NULL)"
  by (induction cs arbitrary: s) (auto simp: g_strchr.simps algebra_simps)

lemma g_random_bound: "snd (g_random r) \<le> 32767"
  by (simp add: g_random_def Let_def word_and_le1)

end
