(* ===== verification/GuestDecimal.thy ===== *)
theory GuestDecimal
  imports GuestLibc "HOL-Library.Signed_Division"
begin

text \<open>
  Decimal numbers in the guests' C library: what \<open>itoa\<close> writes for every 32-bit integer and that \<open>atoi\<close>
  reads it back. The digits are generated from the least significant one, the sign is appended and the whole
  is reversed in place.
\<close>

lemma itoa_table_digit: "- 10 < r \<Longrightarrow> r < 10 \<Longrightarrow> itoa_table ! nat (35 + r) = of_nat (48 + nat \<bar>r\<bar>)"
proof -
  assume "- 10 < r" "r < 10"
  then have "r \<in> set [- 9, - 8, - 7, - 6, - 5, - 4, - 3, - 2, - 1, 0, 1, 2, 3, 4, 5, 6, 7, 8, 9]" by (simp, presburger)
  moreover have "\<forall>r\<in>set [- 9, - 8, - 7, - 6, - 5, - 4, - 3, - 2, - 1, 0, 1, 2, 3, 4, 5, 6, 7, 8, 9].
    itoa_table ! nat (35 + r) = of_nat (48 + nat \<bar>r\<bar>)"
    by (simp add: itoa_table_def)
  ultimately show ?thesis by blast
qed

lemma c_div_sdiv: "c_div a b = word_of_int (sint a sdiv sint b)"
  by (simp add: c_div_def signed_divide_int_def)

lemma sint_in_range: "- (2 ^ 31) \<le> z \<Longrightarrow> z < 2 ^ 31 \<Longrightarrow> sint (word_of_int z :: u32) = z"
  by (subst sint_sbintrunc') (simp add: signed_take_bit_int_eq_self)

definition dec_char :: "nat \<Rightarrow> u8" where
  "dec_char d = of_nat (48 + d)"

lemma itoa_step:
  fixes i :: u32
  defines "z \<equiv> sint i"
  shows "sint (c_div i 10) = z sdiv 10" "itoa_table ! unat (35 + (i - c_div i 10 * 10)) = dec_char (nat \<bar>z\<bar> mod 10)"
proof -
  have z: "- (2 ^ 31) \<le> z" "z < 2 ^ 31" using sint_ge [of i] sint_lt [of i] by (simp_all add: z_def)
  have "\<bar>z sdiv 10\<bar> = \<bar>z\<bar> div 10" by (auto simp: signed_divide_int_def sgn_if)
  then have "z sdiv 10 < 2 ^ 31" "- (2 ^ 31) \<le> z sdiv 10" using z by linarith+
  then show s: "sint (c_div i 10) = z sdiv 10" by (simp add: c_div_sdiv z_def [symmetric] sint_in_range)
  define r where "r = z smod 10"
  have r: "- 10 < r" "r < 10" "\<bar>r\<bar> = \<bar>z\<bar> mod 10" by (auto simp: r_def signed_modulo_int_def abs_mult sgn_if)
  have "i - c_div i 10 * 10 = word_of_int (sint i) - word_of_int (sint (c_div i 10)) * word_of_int 10" by simp
  also have "\<dots> = word_of_int (z - z sdiv 10 * 10)" unfolding s by (simp add: z_def)
  also have "z - z sdiv 10 * 10 = r" by (simp add: r_def minus_sdiv_mult_eq_smod)
  finally have "35 + (i - c_div i 10 * 10) = word_of_int (35 + r)" by simp
  then have "unat (35 + (i - c_div i 10 * 10)) = nat (35 + r)"
    using r by (simp add: uint_word_of_int_eq take_bit_int_eq_self del: of_int_add flip: nat_uint_eq)
  moreover have "nat \<bar>r\<bar> = nat \<bar>z\<bar> mod 10" using r(3) by (simp add: nat_mod_distrib)
  ultimately show "itoa_table ! unat (35 + (i - c_div i 10 * 10)) = dec_char (nat \<bar>z\<bar> mod 10)"
    using itoa_table_digit [OF r(1,2)] by (simp add: dec_char_def)
qed

definition decimal :: "nat \<Rightarrow> u8 list" where
  "decimal n = map dec_char (if n = 0 then [0] else udigits 10 n)"

lemma decimal_step: "decimal n = (if n < 10 then [dec_char n] else decimal (n div 10) @ [dec_char (n mod 10)])"
  by (auto simp: decimal_def udigits.simps [of 10 n] udigits.simps [of 10 "n div 10"])

lemma sdiv_10: "nat \<bar>z sdiv 10\<bar> = nat \<bar>z\<bar> div 10" "z sdiv 10 < 0 \<Longrightarrow> z < 0" "z < 0 \<Longrightarrow> z sdiv 10 \<noteq> 0 \<Longrightarrow> z sdiv 10 < 0"
  "z sdiv 10 = 0 \<longleftrightarrow> nat \<bar>z\<bar> < 10"
proof -
  have a: "\<bar>z sdiv 10\<bar> = \<bar>z\<bar> div 10" by (auto simp: signed_divide_int_def sgn_if)
  then show "nat \<bar>z sdiv 10\<bar> = nat \<bar>z\<bar> div 10" by (simp add: nat_div_distrib)
  show "z sdiv 10 < 0 \<Longrightarrow> z < 0" by (auto simp: signed_divide_int_def sgn_if split: if_splits)
  have "0 \<le> - z div 10" if "z < 0" using that by simp
  then show "z < 0 \<Longrightarrow> z sdiv 10 \<noteq> 0 \<Longrightarrow> z sdiv 10 < 0" by (auto simp: signed_divide_int_def sgn_if)
  have "z sdiv 10 = 0 \<longleftrightarrow> \<bar>z\<bar> div 10 = 0" using a by linarith
  then show "z sdiv 10 = 0 \<longleftrightarrow> nat \<bar>z\<bar> < 10" by auto
qed

lemma itoa_digits_eq:
  "n = nat \<bar>sint i\<bar> \<Longrightarrow> \<exists>t. g_itoa_digits m p i 10
     = Some (store_bytes m p (rev (decimal n)), p + of_nat (length (decimal n)), t) \<and> (t <s 0 \<longleftrightarrow> i <s 0)"
proof (induction n arbitrary: i m p rule: less_induct)
  case (less n)
  let ?c = "dec_char (n mod 10)"
  note st = itoa_step [of i, folded less.prems]
  show ?case
  proof (cases "n < 10")
    case True
    then have "c_div i 10 = 0" using st(1) sdiv_10(4) [of "sint i"] less.prems by (metis signed_eq_0_iff)
    then show ?thesis using st(2) True by (subst g_itoa_digits.simps) (simp add: Let_def decimal_step [of n])
  next
    case False
    let ?j = "c_div i 10"
    have j: "?j \<noteq> 0" using st(1) sdiv_10(4) [of "sint i"] less.prems False by (metis signed_0)
    have nj: "n div 10 = nat \<bar>sint ?j\<bar>" unfolding st(1) sdiv_10(1) less.prems ..
    have "n div 10 < n" using False by simp
    from less.IH [OF this nj, of "m(p := ?c)" "p + 1"] obtain t where
      t: "g_itoa_digits (m(p := ?c)) (p + 1) ?j 10 = Some (store_bytes (m(p := ?c)) (p + 1) (rev (decimal (n div 10))),
        p + 1 + of_nat (length (decimal (n div 10))), t)" "t <s 0 \<longleftrightarrow> ?j <s 0" by blast
    have "?j <s 0 \<longleftrightarrow> i <s 0"
      using st(1) sdiv_10(2,3) [of "sint i"] sdiv_10(4) [of "sint i"] less.prems False by (auto simp: word_sless_alt)
    then show ?thesis using t j st(2) False
      by (subst g_itoa_digits.simps) (simp add: Let_def decimal_step [of n] algebra_simps)
  qed
qed


lemma store_bytes_same: "length xs \<le> 2 ^ 32 \<Longrightarrow> bytes_at m p (length xs) = xs \<Longrightarrow> store_bytes m p xs = m"
proof
  fix x assume a: "length xs \<le> 2 ^ 32" "bytes_at m p (length xs) = xs"
  have "unat (x - p) < length xs \<Longrightarrow> xs ! unat (x - p) = m x"
    using nth_bytes_at [of "unat (x - p)" "length xs" m p] a(2) by simp
  then show "store_bytes m p xs x = m x" using a(1) by (simp add: store_bytes_apply)
qed

lemma store_ends:
  assumes "length ys < 2 ^ 32 - 1"
  shows "store_bytes m p (b # ys @ [a]) = store_bytes (m(p + of_nat (Suc (length ys)) := a, p := b)) (p + 1) ys"
  using store_bytes_snoc [of "b # ys" m p a] assms by simp

lemma itoa_rev_eq:
  "unat p + length xs \<le> 2 ^ 32 \<Longrightarrow> xs \<noteq> [] \<or> p \<noteq> 0 \<Longrightarrow>
   g_itoa_rev (store_bytes m p xs) p (p + of_nat (length xs) - 1) = Some (store_bytes m p (rev xs))"
proof (induction "length xs" arbitrary: m p xs rule: less_induct)
  case less
  show ?case
  proof (cases "length xs \<le> 1")
    case True
    then consider "xs = []" | c where "xs = [c]" by (cases xs) auto
    then have "\<not> p < p + of_nat (length xs) - 1"
    proof cases
      case 1
      have "p \<noteq> 0" using 1 less.prems(2) by simp
      from unat_pred_less [OF this] have "unat (p - 1) < unat p" .
      then show ?thesis using 1 by (simp add: word_less_nat_alt)
    qed simp
    moreover have "rev xs = xs" using \<open>length xs \<le> 1\<close> by (cases xs) auto
    ultimately show ?thesis by (subst g_itoa_rev.simps) simp
  next
    case False
    obtain a zs where a: "xs = a # zs" using False by (cases xs) auto
    obtain ys b where b: "zs = ys @ [b]" using False a by (cases zs rule: rev_cases) auto
    let ?n = "length ys"
    let ?q = "p + of_nat (Suc ?n)"
    let ?m = "store_bytes m p xs"
    have len: "length xs = ?n + 2" "unat p + ?n + 2 \<le> 2 ^ 32" using less.prems a b by simp_all
    have q: "p + of_nat (length xs) - 1 = ?q" using len by simp
    have e: "bytes_at ?m p (length xs) = xs" using len by (intro bytes_at_store_bytes) simp
    have at: "?m (p + of_nat i) = xs ! i" if i: "i < length xs" for i
      using nth_bytes_at [OF i, of ?m p] unfolding e by simp
    have m: "?m p = a" "?m ?q = b" using at [of 0] at [of "Suc ?n"] by (simp_all add: a b nth_append)
    have un: "unat (of_nat (Suc ?n) :: u32) = Suc ?n" using len by (intro unat_of_nat_small) simp
    have uq: "unat ?q = unat p + Suc ?n" using len by (subst unat_add_small) (simp_all only: un, simp)
    then have lt: "p < ?q" by (simp add: word_less_nat_alt)
    have p1: "unat (p + 1) = unat p + 1" using len by (subst unat_add_small) simp_all
    let ?m' = "store_bytes m p ((b # ys) @ [a])"
    have sw: "(?m(?q := a))(p := b) = ?m'"
    proof
      fix x
      have rhs: "?m' x = (if unat (x - p) < Suc (Suc ?n) then ((b # ys) @ [a]) ! unat (x - p) else m x)"
        using len by (subst store_bytes_apply) simp_all
      have lhs: "?m x = (if unat (x - p) < Suc (Suc ?n) then (a # ys @ [b]) ! unat (x - p) else m x)"
        using len by (subst store_bytes_apply) (simp_all add: a b)
      show "((?m(?q := a))(p := b)) x = ?m' x"
      proof (cases "x = p \<or> x = ?q")
        case True
        then consider "x = p" | "x = ?q" "?q \<noteq> p" by metis
        then show ?thesis
        proof cases
          case 2
          then have "unat (x - p) = Suc ?n" using un by (simp only: add_diff_cancel_left')
          then show ?thesis using 2 unfolding rhs by (simp only: fun_upd_apply if_False if_True) (simp add: nth_append)
        next
          case 1
          then show ?thesis unfolding rhs by simp
        qed
      next
        case False
        have "unat (x - p) \<noteq> 0" using False by (simp add: unat_eq_0)
        moreover have "unat (x - p) \<noteq> Suc ?n"
        proof
          assume "unat (x - p) = Suc ?n"
          then have "x - p = of_nat (Suc ?n)" by (metis of_nat_unat ucast_id)
          then show False using False by (auto simp: algebra_simps)
        qed
        ultimately show ?thesis using False unfolding fun_upd_apply lhs rhs
          by (cases "unat (x - p)") (auto simp: nth_append less_Suc_eq)
      qed
    qed
    let ?m2 = "m(?q := a, p := b)"
    have l: "length ys < 2 ^ 32 - 1" using len by simp
    have IH: "g_itoa_rev (store_bytes ?m2 (p + 1) ys) (p + 1) (p + 1 + of_nat (length ys) - 1)
        = Some (store_bytes ?m2 (p + 1) (rev ys))"
      using p1 len by (intro less.hyps) (auto simp: unat_eq_0 simp flip: unat_gt_0)
    have "g_itoa_rev ?m p ?q = g_itoa_rev ?m' (p + 1) (?q - 1)"
      using lt m sw by (subst g_itoa_rev.simps) (simp add: Let_def del: of_nat_Suc)
    also have "\<dots> = Some (store_bytes ?m2 (p + 1) (rev ys))"
      using IH unfolding append_Cons store_ends [OF l, of m p b a] by (simp del: fun_upd_apply)
    also have "store_bytes ?m2 (p + 1) (rev ys) = store_bytes m p (b # rev ys @ [a])"
      using store_ends [of "rev ys" m p b a] l by (simp del: fun_upd_apply)
    finally show ?thesis unfolding q by (simp add: a b)
  qed
qed


definition int_chars :: "int \<Rightarrow> u8 list" where
  "int_chars z = (if z < 0 then [45] else []) @ decimal (nat \<bar>z\<bar>)"

lemma abs_sint_bound: "nat \<bar>sint (i :: u32)\<bar> \<le> 2147483648"
  using sint_ge [of i] sint_lt [of i] by simp

lemma length_int_chars: "length (int_chars (sint (i :: u32))) \<le> 11"
proof -
  have "length (decimal (nat \<bar>sint i\<bar>)) \<le> 10"
    using abs_sint_bound [of i] by (auto simp: decimal_def intro!: udigits_length)
  then show ?thesis unfolding int_chars_def by (cases "sint i < 0") (simp_all only: if_True if_False length_append list.size append_Nil)
qed

lemma decimal_not_Nil: "decimal n \<noteq> []"
  by (auto simp: decimal_def udigits.simps [of 10 n])

lemma g_itoa_stores:
  assumes "unat s + 12 \<le> 2 ^ 32"
  shows "g_itoa m i s 10 = Some (store_bytes m s (int_chars (sint i) @ [0]), s)"
proof -
  define ds where "ds = decimal (nat \<bar>sint i\<bar>)"
  define cs where "cs = rev (int_chars (sint i))"
  obtain t where t: "g_itoa_digits m s i 10 = Some (store_bytes m s (rev ds), s + of_nat (length ds), t)" "t <s 0 \<longleftrightarrow> i <s 0"
    using itoa_digits_eq [OF refl, where i = i and m = m and p = s] unfolding ds_def by blast
  have len: "length cs \<le> 11" "cs \<noteq> []" using length_int_chars [of i] decimal_not_Nil by (auto simp: cs_def int_chars_def)
  have cs: "cs = rev ds @ (if i <s 0 then [45] else [])" by (simp add: cs_def int_chars_def ds_def word_sless_alt)
  have "g_itoa m i s 10 = do { m \<leftarrow> g_itoa_rev (store_bytes m s (cs @ [0])) s (s + of_nat (length cs) - 1); Some (m, s) }"
    using t by (auto simp: g_itoa_def word_sless_alt cs store_bytes_append algebra_simps)
  also have "store_bytes m s (cs @ [0]) = store_bytes (m(s + of_nat (length cs) := 0)) s cs"
    using store_bytes_snoc [of cs m s 0] len by simp
  also have "g_itoa_rev \<dots> s (s + of_nat (length cs) - 1) = Some (store_bytes (m(s + of_nat (length cs) := 0)) s (rev cs))"
    using assms len by (intro itoa_rev_eq) auto
  also have "store_bytes (m(s + of_nat (length cs) := 0)) s (rev cs) = store_bytes m s (rev cs @ [0])"
    using store_bytes_snoc [of "rev cs" m s 0] len by simp
  finally show ?thesis by (simp add: cs_def)
qed

lemma decimal_chars: "c \<in> set (decimal n) \<Longrightarrow> \<exists>d<10. c = dec_char d"
  using udigits_lt [of _ 10 n] by (cases "n = 0") (auto simp: decimal_def intro: exI [of _ 0])

lemma dec_char_facts:
  assumes "d < 10"
  shows "48 \<le>s dec_char d" "dec_char d \<le>s 57" "sx (dec_char d) = 48 + of_nat d" "dec_char d \<notin> {0, 9, 32, 43, 45}"
proof -
  have "d \<in> set [0, 1, 2, 3, 4, 5, 6, 7, 8, 9]" using assms by (simp, presburger)
  then show "48 \<le>s dec_char d" "dec_char d \<le>s 57" "sx (dec_char d) = 48 + of_nat d" "dec_char d \<notin> {0, 9, 32, 43, 45}"
    by (auto simp: dec_char_def)
qed

lemma atoi_digits_cstr:
  "\<forall>d\<in>set ds. d < 10 \<Longrightarrow> cstr m s (map dec_char ds) \<Longrightarrow>
   atoi_digits m s n = Some (foldl (\<lambda>a d. a * 10 + of_nat d) n ds)"
proof (induction ds arbitrary: s n)
  case (Cons d ds)
  have "d < 10" using Cons.prems by simp
  note f = dec_char_facts [OF this]
  have "m s = dec_char d" using Cons.prems by simp
  then have "atoi_digits m s n = atoi_digits m (s + 1) (n * 10 + of_nat d)"
    using f by (subst atoi_digits.simps) simp
  then show ?case using Cons by simp
next
  case Nil
  then have "\<not> 48 \<le>s m s" by (simp add: word_sle_eq)
  then show ?case by (subst atoi_digits.simps) simp
qed

lemma foldl_of_nat: "foldl (\<lambda>a d. a * 10 + of_nat d) (of_nat n) ds = (of_nat (foldl (\<lambda>a d. a * 10 + d) n ds) :: u32)"
proof (induction ds arbitrary: n)
  case (Cons d ds)
  show ?case using Cons.IH [of "n * 10 + d"] by simp
qed simp

lemma atoi_decimal: "cstr m s (decimal n) \<Longrightarrow> atoi_digits m s 0 = Some (of_nat n)"
proof -
  assume c: "cstr m s (decimal n)"
  let ?ds = "if n = 0 then [0] else udigits 10 n"
  have "\<forall>d\<in>set ?ds. d < 10" using udigits_lt [of _ 10 n] by auto
  from atoi_digits_cstr [OF this c [unfolded decimal_def], of 0] show ?thesis
    using foldl_of_nat [of 0 ?ds] udigits_value [of 10 n] by (auto simp: mult.commute)
qed

lemma atoi_int_chars:
  assumes "cstr m s (int_chars z)"
  shows "g_atoi m s = Some (word_of_int z)"
proof -
  obtain c cs where d: "decimal (nat \<bar>z\<bar>) = c # cs" using decimal_not_Nil by (cases "decimal (nat \<bar>z\<bar>)") auto
  then obtain k where k: "k < 10" "c = dec_char k" using decimal_chars [of c "nat \<bar>z\<bar>"] by auto
  then have c: "c \<notin> {0, 9, 32, 43, 45}" using dec_char_facts(4) by simp
  show ?thesis
  proof (cases "z < 0")
    case True
    then have "m s = 45" "cstr m (s + 1) (decimal (nat \<bar>z\<bar>))" using assms by (simp_all add: int_chars_def)
    then show ?thesis using atoi_decimal [of m "s + 1" "nat \<bar>z\<bar>"] True
      by (simp add: g_atoi_def atoi_skip.simps)
  next
    case False
    then have "m s = c" "cstr m s (decimal (nat \<bar>z\<bar>))" using assms d by (simp_all add: int_chars_def)
    then show ?thesis using atoi_decimal [of m s "nat \<bar>z\<bar>"] False c
      by (simp add: g_atoi_def atoi_skip.simps)
  qed
qed

lemma cstr_store: "0 \<notin> set cs \<Longrightarrow> length cs < 2 ^ 32 \<Longrightarrow> cstr (store_bytes m s (cs @ [0])) s cs"
  using bytes_at_store_bytes [of "cs @ [0]" m s] by (simp add: cstr_bytes)

lemma int_chars_no_nul: "0 \<notin> set (int_chars z)"
proof
  assume "0 \<in> set (int_chars z)"
  then have "0 \<in> set (decimal (nat \<bar>z\<bar>))" by (auto simp: int_chars_def split: if_splits)
  then obtain d where "d < 10" "0 = dec_char d" using decimal_chars by blast
  then show False using dec_char_facts(4) [of d] by auto
qed

text \<open>\<open>atoi\<close> reads back what \<open>itoa\<close> writes.\<close>

lemma atoi_itoa:
  assumes "unat s + 12 \<le> 2 ^ 32"
  shows "\<exists>m'. g_itoa m i s 10 = Some (m', s) \<and> cstr m' s (int_chars (sint i)) \<and> g_atoi m' s = Some i"
proof -
  let ?m = "store_bytes m s (int_chars (sint i) @ [0])"
  have "cstr ?m s (int_chars (sint i))" using int_chars_no_nul length_int_chars [of i] by (intro cstr_store) simp_all
  then show ?thesis using g_itoa_stores [OF assms, of m i] atoi_int_chars [of ?m s "sint i"] by simp
qed

end
