(* ===== verification/LibProps.thy ===== *)
theory LibProps
  imports HypLibc GuestArith GuestDecimal
begin

text \<open>
  The properties of the two C libraries, the hypervisor's and the guests', C39 among them: memory and strings, numbers
  and their digits, and the arithmetic routines that the compiler calls.
\<close>

section \<open>The hypervisor's C library\<close>

text \<open>\<open>memcpy\<close>, which copies words where both addresses are aligned and bytes elsewhere, is the plain copy of the
  block for disjoint blocks.\<close>

theorem memcpy_is_block_copy:
  assumes "unat n < 2 ^ 31" and "blocks_disjoint dst (unat n) src (unat n)"
  shows "memcpy m dst src n = store_bytes m dst (bytes_at m src (unat n))"
  by (rule memcpy_copies [OF assms])

theorem memcpy_is_block_copy_witness:
  "memcpy ((\<lambda>_. 9)(0x2000 := 7)) 0x1001 0x2000 3 = store_bytes ((\<lambda>_. 9)(0x2000 := 7)) 0x1001 [7, 9, 9]"
proof -
  have "blocks_disjoint 0x1001 (unat (3 :: u32)) 0x2000 (unat (3 :: u32))"
    by (auto simp: blocks_disjoint_def in_block_def unat_sub_if' split: if_splits)
  from memcpy_is_block_copy [OF _ this, of "(\<lambda>_. 9)(0x2000 := 7)"] show ?thesis by (simp add: bytes_at_def upt_rec)
qed

text \<open>\<open>strcmp\<close> decides the lexicographic order of two strings: 0 for equal ones, else - 1 or 1.\<close>

theorem strcmp_orders:
  assumes "cstr m p a" and "cstr m q b"
  shows "strcmp m p q = Some (if a = b then 0 else if ord_class.lexordp a b then - 1 else 1)"
  by (rule strcmp_cstr [OF assms])

theorem strcmp_orders_witness:
  "strcmp ((\<lambda>_. 0)(0x100 := 65, 0x101 := 66, 0x200 := 65, 0x201 := 67)) 0x100 0x200 = Some (- 1)"
  using strcmp_orders [of "(\<lambda>_. 0)(0x100 := 65, 0x101 := 66, 0x200 := 65, 0x201 := 67)" "0x100" "[65, 66]" "0x200" "[65, 67]"]
  by simp

text \<open>Numbers on the console: without padding, \<open>printi\<close> prints the number's digits in base 10 or 16, with a minus
  sign for a negative number printed as signed, returns their count, and writes no memory but its buffer.\<close>

theorem printi_prints_number:
  assumes "pout st = None" and "b = 10 \<or> b = 16" and "letbase = 97 \<or> letbase = 65"
    and "neg \<longleftrightarrow> sg \<noteq> 0 \<and> b = 10 \<and> i <s 0"
    and "txt = (if neg then [45] else []) @ hexdec letbase (unat b) (unat (if neg then - i else i))"
  shows "\<exists>m'. printi e st i b sg 0 pad letbase
      = Some (st\<lparr>pmem := m', pcon := pcon st @ txt\<rparr>, of_nat (length txt)) \<and>
    (\<forall>x. \<not> in_block (print_buf e) 12 x \<longrightarrow> m' x = pmem st x)"
  unfolding assms(5,4) by (rule printi_console [OF assms(1-3)])

theorem printi_prints_number_witness:
  "\<exists>st. printi \<lparr>print_buf = 0x1000, scr = 0, null_str = 0\<rparr> \<lparr>pmem = \<lambda>_. 0, pout = None, pcon = []\<rparr> (- 42) 10 1 0 0 97
     = Some (st, 3) \<and> pcon st = [45, 52, 50]"
proof -
  have d: "hexdec 97 10 42 = [52, 50]" by (simp add: hexdec_def udigits.simps digit_char_def)
  have n: "True \<longleftrightarrow> (1 :: u32) \<noteq> 0 \<and> (10 :: u32) = 10 \<and> - 42 <s (0 :: u32)" by (simp add: sless_neg_iff)
  show ?thesis
    using printi_prints_number [of "\<lparr>pmem = \<lambda>_. 0, pout = None, pcon = []\<rparr>" 10 97 True 1 "- 42" "[45, 52, 50]"
      "\<lparr>print_buf = 0x1000, scr = 0, null_str = 0\<rparr>" 0] n d by auto
qed

section \<open>The guests' C library\<close>

text \<open>\<open>memmove\<close> copies overlapping blocks, in either direction, as if through a buffer.\<close>

theorem memmove_copies_overlapping:
  assumes "unat d + unat n \<le> 2 ^ 32" and "unat s + unat n \<le> 2 ^ 32"
  shows "g_memmove m d s n = (store_bytes m d (bytes_at m s (unat n)), d)"
  by (rule g_memmove_copies [OF assms])

theorem memmove_copies_overlapping_witness:
  "g_memmove ((\<lambda>_. 9)(0x1000 := 7)) 0x1001 0x1000 3 = (store_bytes ((\<lambda>_. 9)(0x1000 := 7)) 0x1001 [7, 9, 9], 0x1001)"
  using memmove_copies_overlapping [of "0x1001" 3 "0x1000" "(\<lambda>_. 9)(0x1000 := 7)"] by (simp add: bytes_at_def upt_rec)

text \<open>\<open>strcat\<close> appends: with room behind the first string, the result is the string of both, and nothing outside
  it changes.\<close>

theorem strcat_appends:
  assumes "cstr m d a" and "cstr m s b" and "length a + length b < 2 ^ 32"
    and "blocks_disjoint d (Suc (length a + length b)) s (Suc (length b))"
  shows "\<exists>m'. g_strcat m d s = Some (m', d) \<and> cstr m' d (a @ b) \<and>
    (\<forall>x. \<not> in_block d (Suc (length a + length b)) x \<longrightarrow> m' x = m x)"
  by (rule g_strcat_cstr [OF assms])

theorem strcat_appends_witness:
  "\<exists>m'. g_strcat ((\<lambda>_. 0)(0x100 := 65, 0x200 := 66)) 0x100 0x200 = Some (m', 0x100) \<and> cstr m' 0x100 [65, 66]"
proof -
  have "blocks_disjoint 0x100 (Suc (length [65 :: u8] + length [66 :: u8])) 0x200 (Suc (length [66 :: u8]))"
    by (auto simp: blocks_disjoint_def in_block_def unat_sub_if' split: if_splits)
  from strcat_appends [OF _ _ _ this, of "(\<lambda>_. 0)(0x100 := 65, 0x200 := 66)"] show ?thesis by auto
qed

text \<open>\<open>atoi\<close> reads back what \<open>itoa\<close> writes in base 10: for every integer, the smallest included, the string is
  its decimal numeral and reading it gives the integer.\<close>

theorem atoi_reads_itoa:
  assumes "unat s + 12 \<le> 2 ^ 32"
  shows "\<exists>m'. g_itoa m i s 10 = Some (m', s) \<and> cstr m' s (int_chars (sint i)) \<and> g_atoi m' s = Some i"
  by (rule atoi_itoa [OF assms])

theorem atoi_reads_itoa_witness:
  "\<exists>m'. g_itoa (\<lambda>_. 0) 0x80000000 0x1000 10 = Some (m', 0x1000) \<and> g_atoi m' 0x1000 = Some 0x80000000"
  using atoi_reads_itoa [of "0x1000" "\<lambda>_. 0" "0x80000000"] by auto

section \<open>The guests' arithmetic\<close>

text \<open>32-bit division: the shift-and-subtract routines compute the quotient and the remainder, unsigned and
  signed, truncating toward zero.\<close>

theorem division32_correct:
  assumes "b \<noteq> 0"
  shows "udivsi3 a b = a div b \<and> umodsi3 a b = a mod b \<and>
    divsi3 a b = word_of_int (sint a sdiv sint b) \<and> modsi3 a b = word_of_int (sint a smod sint b)"
  using assms by (simp add: udivsi3_def umodsi3_def udivmodsi4_eq divsi3_eq modsi3_eq)

theorem division32_correct_witness: "divsi3 (- 7) 2 = - 3 \<and> modsi3 (- 7) 2 = - 1 \<and> udivsi3 7 2 = 3"
proof -
  have "sint (- 7 :: u32) = - 7" "sint (2 :: u32) = 2" by simp_all
  then show ?thesis using division32_correct [of 2 "- 7"] division32_correct [of 2 7]
    by (simp add: signed_divide_int_def signed_modulo_int_def)
qed



text \<open>The 64-bit signed remainder has the wrong sign for a negative divisor: it is the negated remainder, so
  quotient times divisor plus remainder is not the dividend.\<close>

theorem remainder64_sign:
  assumes "b <s 0"
  shows "moddi3 a b = Some (word_of_int (- (sint a smod sint b)))"
proof -
  have "b \<noteq> 0" using assms by auto
  then show ?thesis using assms by (simp add: moddi3_eq)
qed

theorem remainder64_sign_witness: "moddi3 7 (- 2) = Some (- 1)"
proof -
  have "sint (- 2 :: u64) = - 2" "sint (7 :: u64) = 7" by simp_all
  then show ?thesis using remainder64_sign [of "- 2" 7] by (simp add: signed_modulo_int_def word_sless_alt)
qed

text \<open>As it is built, without a definition of \<open>LITTLE_ENDIAN\<close>, the union has its halves in the wrong order: the
  64-bit product is the product of the swapped operands, swapped, and 1 times 1 is 0.\<close>

theorem halves_confused:
  "muldi3 False a b = swap_halves (swap_halves a * swap_halves b) \<and> muldi3 False 1 1 = 0"
proof -
  have "swap_halves 1 * swap_halves 1 = 0" "swap_halves 0 = 0" by (simp_all add: swap_halves_def)
  then show ?thesis by (simp add: muldi3_swapped muldi3_eq)
qed

end
