(* ===== verification/GuestNet.thy ===== *)
theory GuestNet
  imports Ipc
begin

text \<open>
  The guests' run-time for interrupts and messages: \<^verbatim>\<open>bare-metal-apps/arch/mips/pic32mz/platform.c\<close>
  (registration and dispatch of virtual interrupts, \<open>wait_time\<close>), \<^verbatim>\<open>bare-metal-apps/lib/network.c\<close> (the
  guest's own ring of received messages) and the polling of \<^verbatim>\<open>bare-metal-apps/arch/mips/pic32mz/eth.c\<close>.
  Function pointers are addresses; \<open>call\<close> runs the code at one. The hypercalls of
  \<^verbatim>\<open>bare-metal-apps/lib/include/hypercalls.h\<close> are arguments; locale \<open>mailbox\<close> states what the driver relies on for
  \<open>ipc_recv\<close>, and the hypervisor's \<open>intervm_recv_msg\<close> is the instance of it.
\<close>

subsection \<open>Virtual interrupts of a guest\<close>

definition NUM_GUEST_INTERRUPTS :: nat where "NUM_GUEST_INTERRUPTS = 10"

function interrupt_register_loop :: "nat \<Rightarrow> ptr \<Rightarrow> u32 \<Rightarrow> ptr list \<Rightarrow> u32 \<times> ptr list" where
  "interrupt_register_loop i code interrupt tab =
     (if i < NUM_GUEST_INTERRUPTS then
        if interrupt AND push_bit i 1 \<noteq> 0 \<and> tab ! i = NULL then (code, tab[i := code])
        else interrupt_register_loop (Suc i) code interrupt tab
      else (0, tab))"
  by pat_completeness auto
termination
  by (relation "measure (\<lambda>(i, code, interrupt, tab). NUM_GUEST_INTERRUPTS - i)") auto

declare interrupt_register_loop.simps [simp del]

definition interrupt_register :: "ptr \<Rightarrow> u32 \<Rightarrow> ptr list \<Rightarrow> u32 \<times> ptr list" where
  "interrupt_register code interrupt tab = interrupt_register_loop 0 code interrupt tab"

lemma unat_drop_bit1_less: "drop_bit 1 (w :: u32) \<noteq> 0 \<Longrightarrow> unat (drop_bit 1 w) < unat w"
proof -
  assume "drop_bit 1 w \<noteq> 0"
  then have "w \<noteq> 0" by auto
  then have "0 < unat w" by (simp add: unat_gt_0)
  then show ?thesis by (simp add: drop_bit_eq_div unat_div)
qed

text \<open>\<open>_irq_handler\<close>: the do-while loop over the bits of the RIPL field. \<open>handlers\<close> reads the table in the
  guest's state, since a handler may change it; an index past its end is \<open>None\<close>.\<close>

function irq_handler_loop :: "('s \<Rightarrow> ptr list) \<Rightarrow> (ptr \<Rightarrow> 's \<Rightarrow> 's option) \<Rightarrow> nat \<Rightarrow> u32 \<Rightarrow> 's \<Rightarrow> 's option" where
  "irq_handler_loop handlers call i ripl s = do {
     s \<leftarrow> (if ripl AND 1 \<noteq> 0 then
             if i < length (handlers s) then
               if handlers s ! i \<noteq> NULL then call (handlers s ! i) s else Some s
             else None
           else Some s);
     if drop_bit 1 ripl \<noteq> 0 then irq_handler_loop handlers call (Suc i) (drop_bit 1 ripl) s else Some s }"
  by pat_completeness auto

termination
  by (relation "measure (\<lambda>(handlers, call, i, ripl, s). unat ripl)")
    (simp_all only: wf_measure in_measure prod.case not_False_eq_True unat_drop_bit1_less)

declare irq_handler_loop.simps [simp del]

definition irq_handler :: "('s \<Rightarrow> ptr list) \<Rightarrow> (ptr \<Rightarrow> 's \<Rightarrow> 's option) \<Rightarrow> u32 \<Rightarrow> 's \<Rightarrow> 's option" where
  "irq_handler handlers call cause s =
     irq_handler_loop handlers call 0 (drop_bit 10 (cause AND 0x3FC00)) s"

text \<open>\<open>init_proc\<close>, on the guest's own coprocessor registers: \<open>di\<close> and \<open>ei\<close> clear and set \<open>IE\<close> of \<open>Status\<close>.\<close>

definition init_proc :: "(nat \<times> nat \<Rightarrow> u32) \<Rightarrow> ptr list \<Rightarrow> (nat \<times> nat \<Rightarrow> u32) \<times> ptr list" where
  "init_proc c tab =
     (let c = c((CP0_STATUS, 0) := c (CP0_STATUS, 0) AND NOT 1);
          c = c((CP0_EBASE, 1) := 0x9d000000);
          c = c((CP0_CAUSE, 0) := c (CP0_CAUSE, 0) OR CAUSE_IV);
          c = c((CP0_STATUS, 0) := c (CP0_STATUS, 0) AND NOT STATUS_BEV);
          c = c((12, 1) := c (12, 1) OR push_bit 5 8);
          tab = replicate (length tab) NULL
      in (c((CP0_STATUS, 0) := c (CP0_STATUS, 0) OR 1), tab))"

definition wait_time :: "u32 \<Rightarrow> u32 \<Rightarrow> u32 \<Rightarrow> u32" where
  "wait_time now old_time ms_delay =
     (let diff_time = if old_time \<le> now then now - old_time else 0xffffffff - (old_time - now)
      in if ms_delay * MILISECOND < diff_time then 1 else 0)"

subsection \<open>The ring of received messages\<close>

record g_message_t =
  g_source_id :: u32
  g_size :: u32
  g_message :: "u8 list"

record message_list_t =
  ml_in :: u32
  ml_out :: u32
  ml_num_messages :: u32
  ml_messages :: "g_message_t list"

text \<open>What the driver works on: the ring, the guest's memory for the buffers of its callers, and the
  hypervisor behind the hypercalls.\<close>

record 'h guest =
  ml :: message_list_t
  g_mem :: mem
  hyp :: 'h

text \<open>\<open>message_list.messages[in].message\<close>, for \<open>message_list\<close> at \<open>a\<close>: a message takes 264 bytes.\<close>

definition slot_addr :: "u32 \<Rightarrow> u32 \<Rightarrow> u32" where
  "slot_addr a i = a + 12 + 264 * i + 8"

text \<open>What a receive hypercall leaves in the slot at the input position, and the step to the next one.\<close>

definition slot_store :: "u32 \<Rightarrow> u32 \<Rightarrow> u32 \<Rightarrow> u8 list \<Rightarrow> message_list_t \<Rightarrow> message_list_t option" where
  "slot_store i ret src bs l =
     (if unat i < length (ml_messages l) \<and> length bs \<le> length (g_message (ml_messages l ! unat i)) then
        (let m = ml_messages l ! unat i;
             m = m\<lparr>g_message := list_splice 0 bs (g_message m)\<rparr>;
             m = m\<lparr>g_source_id := src\<rparr>;
             m = m\<lparr>g_size := ret\<rparr>
         in Some (l\<lparr>ml_messages := (ml_messages l)[unat i := m]\<rparr>))
      else None)"

definition slot_next :: "u32 \<Rightarrow> message_list_t \<Rightarrow> message_list_t" where
  "slot_next i l = l\<lparr>ml_in := (i + 1) mod MESSAGELIST_SZ, ml_num_messages := ml_num_messages l + 1\<rparr>"

lemma slot_store_num: "slot_store i ret src bs l = Some l' \<Longrightarrow> ml_num_messages l' = ml_num_messages l"
  by (auto simp: slot_store_def Let_def split: if_splits)

lemma ring_room_decreases: "(n :: u32) < MESSAGELIST_SZ \<Longrightarrow> 5 - unat (n + 1) < 5 - unat n"
proof -
  assume "n < MESSAGELIST_SZ"
  then have "unat n < 5" by (simp add: word_less_nat_alt MESSAGELIST_SZ_def)
  moreover from this have "unat (n + 1) = unat n + 1" by (subst unat_add_small) simp_all
  ultimately show ?thesis by simp
qed

function irq_network_loop ::
  "u32 \<Rightarrow> (u32 \<Rightarrow> 'h \<Rightarrow> (u32 \<times> u32 \<times> u8 list \<times> 'h) option) \<Rightarrow> u32 \<Rightarrow> u32 \<Rightarrow> 'h guest \<Rightarrow> 'h guest option" where
  "irq_network_loop a ipc_recv ret i g =
     (if ret \<noteq> 0 \<and> ml_num_messages (ml g) < MESSAGELIST_SZ then
        case ipc_recv (slot_addr a i) (hyp g) of
          None \<Rightarrow> None
        | Some (ret, src, bs, h) \<Rightarrow>
           (case slot_store i ret src bs (ml g) of
              None \<Rightarrow> None
            | Some l \<Rightarrow>
                if ret = MESSAGE_EMPTY then Some (g\<lparr>ml := l, hyp := h\<rparr>)
                else irq_network_loop a ipc_recv ret ((i + 1) mod MESSAGELIST_SZ) (g\<lparr>ml := slot_next i l, hyp := h\<rparr>))
      else Some g)"
  by pat_completeness auto

termination
  by (relation "measure (\<lambda>(a, ipc_recv, ret, i, g). 5 - unat (ml_num_messages (ml g)))")
    (auto simp: slot_next_def slot_store_num ring_room_decreases simp del: unat_add_small)

declare irq_network_loop.simps [simp del]

definition irq_network ::
  "u32 \<Rightarrow> (u32 \<Rightarrow> 'h \<Rightarrow> (u32 \<times> u32 \<times> u8 list \<times> 'h) option) \<Rightarrow> 'h guest \<Rightarrow> 'h guest option" where
  "irq_network a ipc_recv g =
     (if ml_num_messages (ml g) = MESSAGELIST_SZ then Some g
      else irq_network_loop a ipc_recv 1 (ml_in (ml g)) g)"

text \<open>The part of \<open>ReceiveMessage\<close> that runs with interrupts disabled once there is a message.\<close>

definition take_message :: "u32 \<Rightarrow> u32 \<Rightarrow> u32 \<Rightarrow> 'h guest \<Rightarrow> (u32 \<times> 'h guest) option" where
  "take_message source buf bufsz g =
     (let out = ml_out (ml g)
      in if unat out < length (ml_messages (ml g)) then
           (let m = ml_messages (ml g) ! unat out;
                sz = g_size m;
                sz = (if bufsz < sz then bufsz else sz)
            in if unat sz \<le> length (g_message m) then
                 (let mem = store_bytes (g_mem g) buf (take (unat sz) (g_message m));
                      mem = store32 mem source (g_source_id m);
                      l = (ml g)\<lparr>ml_out := (out + 1) mod MESSAGELIST_SZ,
                                ml_num_messages := ml_num_messages (ml g) - 1\<rparr>
                  in Some (sz, g\<lparr>ml := l, g_mem := mem\<rparr>))
               else None)
         else None)"

text \<open>\<open>while(!message_list.num_messages);\<close> with interrupts enabled: \<open>irqs\<close> is what the interrupts of an
  iteration do.\<close>

partial_function (option) wait_message :: "('h guest \<Rightarrow> 'h guest option) \<Rightarrow> 'h guest \<Rightarrow> 'h guest option" where
  "wait_message irqs g =
     (if ml_num_messages (ml g) = 0 then do { g \<leftarrow> irqs g; wait_message irqs g } else Some g)"

definition ReceiveMessage ::
  "('h guest \<Rightarrow> 'h guest option) \<Rightarrow> u32 \<Rightarrow> u32 \<Rightarrow> u32 \<Rightarrow> u32 \<Rightarrow> 'h guest \<Rightarrow> (u32 \<times> 'h guest) option" where
  "ReceiveMessage irqs source buf bufsz block g =
     (if ml_num_messages (ml g) = 0 \<and> block \<noteq> 0 then do {
        g \<leftarrow> wait_message irqs g;
        take_message source buf bufsz g }
      else if ml_num_messages (ml g) = 0 then Some (0, g)
      else take_message source buf bufsz g)"

definition SendMessage :: "(u32 \<Rightarrow> u32 \<Rightarrow> u32 \<Rightarrow> 'h \<Rightarrow> u32 \<times> 'h) \<Rightarrow> u32 \<Rightarrow> u32 \<Rightarrow> u32 \<Rightarrow> 'h guest \<Rightarrow> u32 \<times> 'h guest" where
  "SendMessage ipc_send target_id buf sz g =
     (let (ret, h) = ipc_send target_id buf sz (hyp g) in (ret, g\<lparr>hyp := h\<rparr>))"

definition init_network :: "ptr \<Rightarrow> ptr list \<Rightarrow> 'h guest \<Rightarrow> ptr list \<times> 'h guest" where
  "init_network irq_network_code tab g =
     (let tab = snd (interrupt_register irq_network_code GUEST_INTERVM_INT tab)
      in (tab, g\<lparr>ml := \<lparr>ml_in = 0, ml_out = 0, ml_num_messages = 0,
           ml_messages = replicate (unat MESSAGELIST_SZ)
             \<lparr>g_source_id = 0, g_size = 0, g_message = replicate (unat MESSAGE_SZ) 0\<rparr>\<rparr>\<rparr>))"

subsection \<open>Polling of the virtual Ethernet\<close>

text \<open>The hypercalls and the TCP/IP stack are arguments: \<open>eth_recv_frame\<close> fills the driver's buffer and returns the size of
  the frame, \<open>pico_stack_recv\<close> takes it from there. The two readings of the counter of \<open>eth_watchdog\<close> are \<open>now\<close> and
  \<open>later\<close>.\<close>

definition eth_watchdog :: "u32 \<Rightarrow> u32 \<Rightarrow> ('h \<Rightarrow> u32 \<times> 'h) \<Rightarrow> u32 \<Rightarrow> u32 \<Rightarrow> u32 \<times> 'h \<Rightarrow> u32 \<times> u32 \<times> 'h" where
  "eth_watchdog now later eth_watch time ms_delay st =
     (let (link_state, h) = st
      in if wait_time now time ms_delay \<noteq> 0 then (let (link_state, h) = eth_watch h in (later, link_state, h))
         else (time, link_state, h))"

lemma score_decreases: "0 <s (b :: u32) \<Longrightarrow> unat (b - 1) < unat b"
proof -
  assume "0 <s b"
  then have "0 < unat b" by (simp only: sless_pos_iff)
  then have "b \<noteq> 0" by (simp add: unat_gt_0)
  then show ?thesis using \<open>0 < unat b\<close> by (simp add: unat_minus_one)
qed

function eth_poll :: "('h \<Rightarrow> u32 \<times> 'h) \<Rightarrow> (u32 \<Rightarrow> 'h \<Rightarrow> 'h) \<Rightarrow> u32 \<Rightarrow> 'h \<Rightarrow> u32 \<times> 'h" where
  "eth_poll eth_recv_frame pico_stack_recv loop_score h =
     (if 0 <s loop_score then
        case eth_recv_frame h of (sz, h) \<Rightarrow>
          if sz \<le>s 0 then (loop_score, h)
          else eth_poll eth_recv_frame pico_stack_recv (loop_score - 1) (pico_stack_recv sz h)
      else (loop_score, h))"
  by pat_completeness auto

termination
  by (relation "measure (\<lambda>(eth_recv_frame, pico_stack_recv, loop_score, h). unat loop_score)")
    (simp_all only: wf_measure in_measure prod.case score_decreases)

declare eth_poll.simps [simp del]

text \<open>With \<open>n\<close> frames waiting, the stack is given the first \<open>min n loop_score\<close> of them, in order.\<close>

lemma eth_poll_delivers:
  assumes recv: "\<And>f fs acc. eth_recv_frame (f # fs, acc) = (of_nat (length f), (fs, acc @ [f]))"
    and none: "\<And>acc. eth_recv_frame ([], acc) = (0, ([], acc))"
    and stack: "\<And>sz h. pico_stack_recv sz h = h"
    and sizes: "\<forall>f\<in>set fs. 0 < length f \<and> length f < 2 ^ 31" and n: "unat loop_score < 2 ^ 31"
  shows "eth_poll eth_recv_frame pico_stack_recv loop_score (fs, acc) =
    (loop_score - of_nat (min (length fs) (unat loop_score)),
     (drop (unat loop_score) fs, acc @ take (unat loop_score) fs))"
  using sizes n
proof (induction fs arbitrary: loop_score acc)
  case Nil
  then show ?case by (subst eth_poll.simps) (simp add: none)
next
  case (Cons f fs)
  show ?case
  proof (cases "unat loop_score")
    case 0
    then show ?thesis by (subst eth_poll.simps) (simp add: sless_pos_iff)
  next
    case (Suc k)
    have u: "unat (loop_score - 1) = k" using Suc by (rule unat_pred)
    have "unat (of_nat (length f) :: u32) = length f" using Cons.prems by (intro unat_of_nat_small) simp
    then have "\<not> (of_nat (length f) :: u32) \<le>s 0" "0 <s loop_score"
      using Cons.prems Suc by (simp_all add: slesseq_small sless_pos_iff del: of_nat_eq_0_iff)
    then have "eth_poll eth_recv_frame pico_stack_recv loop_score (f # fs, acc) =
        eth_poll eth_recv_frame pico_stack_recv (loop_score - 1) (fs, acc @ [f])"
      by (subst eth_poll.simps) (simp add: recv stack)
    also have "\<dots> = (loop_score - 1 - of_nat (min (length fs) k), (drop k fs, (acc @ [f]) @ take k fs))"
      using Cons.IH [of "loop_score - 1" "acc @ [f]"] Cons.prems Suc u by simp
    finally show ?thesis using Suc by simp
  qed
qed


subsection \<open>Registration and dispatch\<close>

lemma interrupt_register_loop_bit:
  "interrupt_register_loop i code interrupt tab =
     (if i < NUM_GUEST_INTERRUPTS then
        if bit interrupt i \<and> tab ! i = NULL then (code, tab[i := code])
        else interrupt_register_loop (Suc i) code interrupt tab
      else (0, tab))"
  by (subst interrupt_register_loop.simps) (simp only: bit_iff_and_push_bit_not_eq_0)

lemma interrupt_register_loop_found:
  assumes "i \<le> j" and "j < NUM_GUEST_INTERRUPTS" and "bit interrupt j" and "tab ! j = NULL"
    and "\<forall>k. i \<le> k \<longrightarrow> k < j \<longrightarrow> bit interrupt k \<longrightarrow> tab ! k \<noteq> NULL"
  shows "interrupt_register_loop i code interrupt tab = (code, tab[j := code])"
  using assms
proof (induction "j - i" arbitrary: i)
  case 0
  then show ?case by (subst interrupt_register_loop_bit) simp
next
  case (Suc n)
  then have "i < j" by simp
  with Suc.prems have "\<not> (bit interrupt i \<and> tab ! i = NULL)" by blast
  then show ?case
    using Suc \<open>i < j\<close> by (subst interrupt_register_loop_bit) auto
qed

lemma interrupt_register_loop_none:
  assumes "\<forall>k. i \<le> k \<longrightarrow> k < NUM_GUEST_INTERRUPTS \<longrightarrow> bit interrupt k \<longrightarrow> tab ! k \<noteq> NULL"
  shows "interrupt_register_loop i code interrupt tab = (0, tab)"
  using assms
proof (induction "NUM_GUEST_INTERRUPTS - i" arbitrary: i)
  case 0
  then show ?case by (subst interrupt_register_loop_bit) auto
next
  case (Suc n)
  then have "i < NUM_GUEST_INTERRUPTS" by simp
  with Suc.prems have "\<not> (bit interrupt i \<and> tab ! i = NULL)" by blast
  then show ?case
    using Suc by (subst interrupt_register_loop_bit) auto
qed

text \<open>The registered handlers of the pending interrupts, in the order of their numbers, and running them.\<close>

definition pending_handlers :: "ptr list \<Rightarrow> nat \<Rightarrow> nat \<Rightarrow> u32 \<Rightarrow> ptr list" where
  "pending_handlers tab i n ripl = [tab ! (i + k). k \<leftarrow> [0..<n], bit ripl k \<and> tab ! (i + k) \<noteq> NULL]"

primrec run_handlers :: "(ptr \<Rightarrow> 's \<Rightarrow> 's option) \<Rightarrow> ptr list \<Rightarrow> 's \<Rightarrow> 's option" where
  "run_handlers call [] s = Some s"
| "run_handlers call (p # ps) s = do { s \<leftarrow> call p s; run_handlers call ps s }"

lemma pending_handlers_Suc:
  "pending_handlers tab i (Suc n) ripl =
     (if bit ripl 0 \<and> tab ! i \<noteq> NULL then [tab ! i] else []) @ pending_handlers tab (Suc i) n (drop_bit 1 ripl)"
proof -
  have "[0..<Suc n] = 0 # map Suc [0..<n]" by (simp add: upt_conv_Cons map_Suc_upt del: upt_Suc)
  then show ?thesis
    by (simp only: pending_handlers_def) (simp add: bit_drop_bit_eq o_def cong: if_cong)
qed

lemma irq_handler_loop_runs:
  assumes "\<forall>p s s'. call p s = Some s' \<longrightarrow> handlers s' = handlers s"
    and "i + n \<le> length (handlers s)" and "\<forall>k\<ge>n. \<not> bit ripl k" and "0 < n"
  shows "irq_handler_loop handlers call i ripl s = run_handlers call (pending_handlers (handlers s) i n ripl) s"
  using assms
proof (induction n arbitrary: i ripl s)
  case 0
  from 0(4) show ?case by simp
next
  case (Suc n)
  have b0: "ripl AND 1 \<noteq> 0 \<longleftrightarrow> bit ripl 0" by (simp add: bit_iff_and_push_bit_not_eq_0)
  have z: "drop_bit 1 ripl = 0" if "n = 0"
    using Suc.prems(3) that by (intro bit_word_eqI) (simp add: bit_drop_bit_eq)
  have p0: "pending_handlers tab j m 0 = []" for tab j m by (simp add: pending_handlers_def)
  have rest: "(if drop_bit 1 ripl \<noteq> 0 then irq_handler_loop handlers call (Suc i) (drop_bit 1 ripl) s1 else Some s1) =
      run_handlers call (pending_handlers (handlers s) (Suc i) n (drop_bit 1 ripl)) s1"
    if "handlers s1 = handlers s" for s1
  proof (cases "drop_bit 1 ripl = 0")
    case False
    with z have "0 < n" by auto
    with False Suc.prems that show ?thesis
      using Suc.IH [of "Suc i" s1 "drop_bit 1 ripl"] by (simp add: bit_drop_bit_eq)
  qed (simp add: p0)
  have l: "i < length (handlers s)" using Suc.prems(2) by simp
  have step: "irq_handler_loop handlers call i ripl s =
      Option.bind (if bit ripl 0 \<and> handlers s ! i \<noteq> NULL then call (handlers s ! i) s else Some s)
        (\<lambda>s. if drop_bit 1 ripl \<noteq> 0 then irq_handler_loop handlers call (Suc i) (drop_bit 1 ripl) s else Some s)"
    using l by (subst irq_handler_loop.simps) (simp only: b0 if_True, cases "bit ripl 0", simp_all only: if_True if_False simp_thms)
  show ?case
  proof (cases "bit ripl 0 \<and> handlers s ! i \<noteq> NULL")
    case True
    show ?thesis
    proof (cases "call (handlers s ! i) s")
      case None
      with True show ?thesis unfolding step pending_handlers_Suc by simp
    next
      case (Some s1)
      with Suc.prems(1) have "handlers s1 = handlers s" by blast
      from rest [OF this] Some True show ?thesis unfolding step pending_handlers_Suc by simp
    qed
  next
    case False
    then show ?thesis unfolding step pending_handlers_Suc using rest [OF refl] by (simp only: if_False bind.bind_lunit append_Nil)
  qed
qed

subsection \<open>The ring is a bounded queue\<close>

definition g_slot :: "g_message_t \<Rightarrow> u32 \<times> u8 list" where
  "g_slot m = (g_source_id m, take (unat (g_size m)) (g_message m))"

text \<open>The messages in a ring of five from position \<open>p\<close> on.\<close>

definition ring_from :: "g_message_t list \<Rightarrow> nat \<Rightarrow> nat \<Rightarrow> g_message_t list" where
  "ring_from xs p n = map (\<lambda>k. xs ! ((p + k) mod 5)) [0..<n]"

definition g_contents :: "message_list_t \<Rightarrow> (u32 \<times> u8 list) list" where
  "g_contents l = map g_slot (ring_from (ml_messages l) (unat (ml_out l)) (unat (ml_num_messages l)))"

text \<open>The slots in use hold messages that fit; a free slot may hold anything, an error code as its size included.\<close>

definition g_ring_ok :: "message_list_t \<Rightarrow> bool" where
  "g_ring_ok l \<longleftrightarrow> unat (ml_out l) < 5 \<and> unat (ml_num_messages l) \<le> 5 \<and> length (ml_messages l) = 5 \<and>
     unat (ml_in l) = (unat (ml_out l) + unat (ml_num_messages l)) mod 5 \<and>
     (\<forall>m\<in>set (ml_messages l). length (g_message m) = 255) \<and>
     (\<forall>m\<in>set (ring_from (ml_messages l) (unat (ml_out l)) (unat (ml_num_messages l))). unat (g_size m) \<le> 255)"

definition g_enq :: "u32 \<times> u8 list \<Rightarrow> message_list_t \<Rightarrow> message_list_t option" where
  "g_enq m l = map_option (slot_next (ml_in l)) (slot_store (ml_in l) (of_nat (length (snd m))) (fst m) (snd m) l)"

definition g_drop :: "message_list_t \<Rightarrow> message_list_t" where
  "g_drop l = l\<lparr>ml_out := (ml_out l + 1) mod MESSAGELIST_SZ, ml_num_messages := ml_num_messages l - 1\<rparr>"

definition g_deq :: "message_list_t \<Rightarrow> ((u32 \<times> u8 list) \<times> message_list_t) option" where
  "g_deq l = (if unat (ml_out l) < length (ml_messages l) then
     Some (g_slot (ml_messages l ! unat (ml_out l)), g_drop l) else None)"

lemma length_ring_from [simp]: "length (ring_from xs p n) = n"
  by (simp add: ring_from_def)

lemma ring_from_0 [simp]: "ring_from xs p 0 = []"
  by (simp add: ring_from_def)

lemma ring_from_update: "n < 5 \<Longrightarrow> ring_from (xs[(p + n) mod 5 := x]) p n = ring_from xs p n"
  unfolding ring_from_def by (rule map_upt_cong) (metis nth_list_update_neq ring_indices)

lemma ring_from_snoc: "length xs = 5 \<Longrightarrow> n < 5 \<Longrightarrow>
    ring_from (xs[(p + n) mod 5 := x]) p (Suc n) = ring_from xs p n @ [x]"
proof -
  assume l: "length xs = 5" and n: "n < 5"
  have "ring_from (xs[(p + n) mod 5 := x]) p (Suc n) =
      ring_from (xs[(p + n) mod 5 := x]) p n @ [xs[(p + n) mod 5 := x] ! ((p + n) mod 5)]"
    by (simp add: ring_from_def)
  then show ?thesis using l by (simp add: ring_from_update [OF n])
qed

lemma ring_from_Suc: "ring_from xs p (Suc n) = xs ! (p mod 5) # ring_from xs ((p + 1) mod 5) n"
  by (simp add: ring_from_def upt_conv_Cons map_Suc_upt [symmetric] mod_add_left_eq o_def del: upt_Suc)

lemma length_g_contents [simp]: "length (g_contents l) = unat (ml_num_messages l)"
  by (simp add: g_contents_def)

text \<open>What a receive leaves in the free slot, whatever it returned, does not touch the messages of the ring.\<close>

lemma slot_store_ok:
  assumes ok: "g_ring_ok l" and room: "unat (ml_num_messages l) < 5" and len: "length bs \<le> 255"
  shows "\<exists>l'. slot_store (ml_in l) ret src bs l = Some l' \<and> g_ring_ok l' \<and> g_contents l' = g_contents l \<and>
    ml_in l' = ml_in l \<and> ml_num_messages l' = ml_num_messages l \<and>
    (unat ret = length bs \<longrightarrow> g_ring_ok (slot_next (ml_in l) l') \<and>
       g_contents (slot_next (ml_in l) l') = g_contents l @ [(src, bs)])"
proof -
  let ?i = "unat (ml_in l)" and ?p = "unat (ml_out l)" and ?n = "unat (ml_num_messages l)"
  let ?m = "(ml_messages l ! ?i)\<lparr>g_message := list_splice 0 bs (g_message (ml_messages l ! ?i)),
     g_source_id := src, g_size := ret\<rparr>"
  let ?l = "l\<lparr>ml_messages := (ml_messages l)[?i := ?m]\<rparr>"
  have l: "?p < 5" "length (ml_messages l) = 5" "?i = (?p + ?n) mod 5" "?i < 5"
    "\<forall>m\<in>set (ml_messages l). length (g_message m) = 255"
    "\<forall>m\<in>set (ring_from (ml_messages l) ?p ?n). unat (g_size m) \<le> 255"
    using ok by (auto simp: g_ring_ok_def)
  have l255: "length (g_message (ml_messages l ! ?i)) = 255" using l by (simp add: nth_mem)
  have st: "slot_store (ml_in l) ret src bs l = Some ?l" using l(2,4) l255 len by (simp add: slot_store_def Let_def)
  have m255: "\<forall>m\<in>set ((ml_messages l)[?i := ?m]). length (g_message m) = 255"
    using l(5) l255 len set_update_subset_insert [of "ml_messages l" ?i ?m] by (auto simp: length_list_splice)
  have same: "ring_from ((ml_messages l)[?i := ?m]) ?p ?n = ring_from (ml_messages l) ?p ?n"
    unfolding l(3) by (rule ring_from_update [OF room])
  have "g_ring_ok ?l" using ok m255 same by (simp add: g_ring_ok_def)
  moreover have "g_contents ?l = g_contents l" using same by (simp add: g_contents_def)
  moreover have "g_ring_ok (slot_next (ml_in l) ?l) \<and> g_contents (slot_next (ml_in l) ?l) = g_contents l @ [(src, bs)]"
    if r: "unat ret = length bs"
  proof -
    have n1: "unat (ml_num_messages l + 1) = Suc ?n" using room by (subst unat_add_small) simp_all
    have "unat (ml_in l + 1) = ?i + 1" using l(4) by (subst unat_add_small) simp_all
    then have i1: "unat ((ml_in l + 1) mod MESSAGELIST_SZ) = (?p + Suc ?n) mod 5"
      by (simp only: unat_mod5 l(3)) (simp add: mod_Suc_eq)
    have rf: "ring_from ((ml_messages l)[?i := ?m]) ?p (Suc ?n) = ring_from (ml_messages l) ?p ?n @ [?m]"
      unfolding l(3) by (rule ring_from_snoc [OF l(2) room])
    have "g_slot ?m = (src, bs)" using r list_splice_take [of bs] by (simp add: g_slot_def)
    then show ?thesis
      using l m255 rf n1 i1 r len room by (simp add: slot_next_def g_ring_ok_def g_contents_def)
  qed
  ultimately show ?thesis using st by simp
qed

lemma g_drop_ok:
  assumes ok: "g_ring_ok l" and ne: "ml_num_messages l \<noteq> 0"
  shows "unat (ml_out l) < length (ml_messages l) \<and> g_slot (ml_messages l ! unat (ml_out l)) = hd (g_contents l) \<and>
    g_size (ml_messages l ! unat (ml_out l)) = of_nat (length (snd (hd (g_contents l)))) \<and>
    length (g_message (ml_messages l ! unat (ml_out l))) = 255 \<and> length (snd (hd (g_contents l))) \<le> 255 \<and>
    g_ring_ok (g_drop l) \<and> g_contents (g_drop l) = tl (g_contents l)"
proof -
  let ?p = "unat (ml_out l)" and ?n = "unat (ml_num_messages l)"
  have l: "?p < 5" "length (ml_messages l) = 5" "unat (ml_in l) = (?p + ?n) mod 5" "?n \<le> 5"
    "\<forall>m\<in>set (ml_messages l). length (g_message m) = 255"
    "\<forall>m\<in>set (ring_from (ml_messages l) ?p ?n). unat (g_size m) \<le> 255"
    using ok by (auto simp: g_ring_ok_def)
  obtain j where j: "?n = Suc j" using ne by (metis not0_implies_Suc unat_eq_zero)
  have n1: "unat (ml_num_messages l - 1) = j" using j by (rule unat_pred)
  have "unat (ml_out l + 1) = ?p + 1" using l(1) by (subst unat_add_small) simp_all
  then have p1: "unat ((ml_out l + 1) mod MESSAGELIST_SZ) = (?p + 1) mod 5" by (simp only: unat_mod5)
  have rf: "ring_from (ml_messages l) ?p ?n = ml_messages l ! ?p # ring_from (ml_messages l) ((?p + 1) mod 5) j"
    using l(1) unfolding j ring_from_Suc by simp
  have in1: "(?p + ?n) mod 5 = ((?p + 1) mod 5 + j) mod 5" unfolding j by (simp add: mod_add_left_eq)
  have "g_ring_ok (g_drop l)"
    using l p1 n1 j rf in1 by (simp add: g_ring_ok_def g_drop_def)
  moreover have "g_contents (g_drop l) = tl (g_contents l)" "hd (g_contents l) = g_slot (ml_messages l ! ?p)"
    using p1 n1 rf by (simp_all add: g_contents_def g_drop_def)
  moreover have "length (g_message (ml_messages l ! ?p)) = 255" "unat (g_size (ml_messages l ! ?p)) \<le> 255"
    using l rf by (simp_all add: nth_mem)
  ultimately show ?thesis using l(1,2) by (simp add: g_slot_def)
qed

interpretation guest_ring: fifo g_enq g_deq g_contents g_ring_ok ring_fits "unat MESSAGELIST_SZ"
proof
  fix q :: message_list_t and m :: "u32 \<times> u8 list"
  assume q: "g_ring_ok q" "ring_fits m" "length (g_contents q) < unat MESSAGELIST_SZ"
  have "unat (of_nat (length (snd m)) :: u32) = length (snd m)"
    using q(2) by (intro unat_of_nat_small) (simp add: ring_fits_def)
  then show "\<exists>q'. g_enq m q = Some q' \<and> g_ring_ok q' \<and> g_contents q' = g_contents q @ [m]"
    using slot_store_ok [OF q(1), of "snd m" "of_nat (length (snd m))" "fst m"] q(2,3)
    by (auto simp: g_enq_def ring_fits_def MESSAGELIST_SZ_def)
next
  fix q assume "g_ring_ok q" "g_contents q \<noteq> []"
  moreover from this(2) have "ml_num_messages q \<noteq> 0" by (auto simp: g_contents_def)
  ultimately show "\<exists>q'. g_deq q = Some (hd (g_contents q), q') \<and> g_ring_ok q' \<and> g_contents q' = tl (g_contents q)"
    using g_drop_ok [of q] by (simp add: g_deq_def)
qed

text \<open>A receive of the guest's program: the message goes to the caller's buffer, cut to its size.\<close>

lemma take_message_ok:
  assumes ok: "g_ring_ok (ml g)" and c: "g_contents (ml g) = (src, bs) # rest"
  shows "take_message source buf bufsz g = Some (of_nat (min (unat bufsz) (length bs)),
    g\<lparr>ml := g_drop (ml g), g_mem := store32 (store_bytes (g_mem g) buf (take (unat bufsz) bs)) source src\<rparr>)"
proof -
  let ?m = "ml_messages (ml g) ! unat (ml_out (ml g))"
  have "ml_num_messages (ml g) \<noteq> 0" using c by (auto simp: g_contents_def)
  note d = g_drop_ok [OF ok this]
  have s: "g_source_id ?m = src" "take (unat (g_size ?m)) (g_message ?m) = bs"
    using d c by (auto simp: g_slot_def)
  have len: "length bs \<le> 255" and gs: "g_size ?m = of_nat (length bs)" using d c by simp_all
  have sz: "unat (g_size ?m) = length bs" unfolding gs using len by (intro unat_of_nat_small) simp
  have n: "(if bufsz < g_size ?m then bufsz else g_size ?m) = of_nat (min (unat bufsz) (length bs))"
    using sz gs by (simp add: word_less_nat_alt min_def)
  have u: "unat (of_nat (min (unat bufsz) (length bs)) :: u32) = min (unat bufsz) (length bs)"
    using len by (intro unat_of_nat_small) simp
  have t: "take (min (unat bufsz) (length bs)) (g_message ?m) = take (unat bufsz) bs"
    using s(2) sz by (metis take_take min.commute)
  show ?thesis
    using d len unfolding take_message_def Let_def n u t s(1) by (simp add: g_drop_def)
qed

lemma init_network_ring:
  "g_ring_ok (ml (snd (init_network code tab g)))" "g_contents (ml (snd (init_network code tab g))) = []"
  by (simp_all add: init_network_def g_ring_ok_def g_contents_def MESSAGELIST_SZ_def MESSAGE_SZ_def)

end
