(* ===== verification/GuestMail.thy ===== *)
theory GuestMail
  imports GuestNet
begin

text \<open>
  Messages from end to end: the guest's driver (\<open>GuestNet\<close>) on top of the hypervisor's hypercall. Locale \<open>mailbox\<close> is the
  contract of \<open>ipc_recv\<close>: it takes the oldest message, or answers \<open>MESSAGE_EMPTY\<close>. Inside it, the interrupt of the driver and
  the guest's receives keep the messages in order over any history; \<open>intervm_recv_msg\<close> in a state of the running kernel
  is the instance.
\<close>

subsection \<open>The mailbox behind the hypercall\<close>

text \<open>A history of the driver: other guests run, and messages may arrive in the mailbox; the virtual interrupt is taken;
  the guest asks for a message without blocking. The result: the messages that arrived, the messages the guest
  received, as it finds them in its memory, and the state.\<close>

datatype 'h net_event = Others "'h \<Rightarrow> 'h" | Interrupt | Receive u32 u32 u32

primrec net_run :: "u32 \<Rightarrow> (u32 \<Rightarrow> 'h \<Rightarrow> (u32 \<times> u32 \<times> u8 list \<times> 'h) option) \<Rightarrow> ('h \<Rightarrow> (u32 \<times> u8 list) list) \<Rightarrow>
    'h net_event list \<Rightarrow> 'h guest \<Rightarrow> ((u32 \<times> u8 list) list \<times> (u32 \<times> u8 list) list \<times> 'h guest) option" where
  "net_run a ipc_recv queued [] g = Some ([], [], g)"
| "net_run a ipc_recv queued (e # es) g = (case e of
     Others f \<Rightarrow> do {
       (arr, rcv, g') \<leftarrow> net_run a ipc_recv queued es (g\<lparr>hyp := f (hyp g)\<rparr>);
       Some (drop (length (queued (hyp g))) (queued (f (hyp g))) @ arr, rcv, g') }
   | Interrupt \<Rightarrow> do { g \<leftarrow> irq_network a ipc_recv g; net_run a ipc_recv queued es g }
   | Receive source buf bufsz \<Rightarrow> do {
       (n, g') \<leftarrow> ReceiveMessage (irq_network a ipc_recv) source buf bufsz 0 g;
       (arr, rcv, g'') \<leftarrow> net_run a ipc_recv queued es g';
       Some (arr, if ml_num_messages (ml g) = 0 then rcv
             else (load32 (g_mem g') source, bytes_at (g_mem g') buf (unat n)) # rcv, g'') })"

text \<open>Buffers with room for a whole message, and apart from the variable for the sender.\<close>

definition good_buffer :: "'h net_event \<Rightarrow> bool" where
  "good_buffer e = (case e of Receive source buf bufsz \<Rightarrow> 255 \<le> bufsz \<and> blocks_disjoint source 4 buf 255 | _ \<Rightarrow> True)"

locale mailbox =
  fixes ipc_recv :: "u32 \<Rightarrow> 'h \<Rightarrow> (u32 \<times> u32 \<times> u8 list \<times> 'h) option"
    and a :: u32
    and queued :: "'h \<Rightarrow> (u32 \<times> u8 list) list"
    and up :: "'h \<Rightarrow> bool"
  assumes recv_none: "up h \<Longrightarrow> unat i < 5 \<Longrightarrow> queued h = [] \<Longrightarrow>
      \<exists>src h'. ipc_recv (slot_addr a i) h = Some (MESSAGE_EMPTY, src, [], h') \<and> up h' \<and> queued h' = []"
    and recv_some: "up h \<Longrightarrow> unat i < 5 \<Longrightarrow> queued h = (src, bs) # rest \<Longrightarrow>
      \<exists>h'. ipc_recv (slot_addr a i) h = Some (of_nat (length bs), src, bs, h') \<and> up h' \<and> queued h' = rest"
    and queued_short: "up h \<Longrightarrow> m \<in> set (queued h) \<Longrightarrow> length (snd m) \<le> 255"
begin

text \<open>The interrupt moves messages from the mailbox to the ring, in order, until the mailbox is empty, the ring is
  full or a message of no bytes has been moved.\<close>

lemma irq_network_loop_moves:
  assumes "g_ring_ok (ml g)" and "up (hyp g)" and "i = ml_in (ml g)"
  shows "\<exists>g'. irq_network_loop a ipc_recv ret i g = Some g' \<and> g_ring_ok (ml g') \<and> up (hyp g') \<and> g_mem g' = g_mem g \<and>
    g_contents (ml g') @ queued (hyp g') = g_contents (ml g) @ queued (hyp g) \<and>
    (ret \<noteq> 0 \<and> (\<forall>m\<in>set (queued (hyp g)). snd m \<noteq> []) \<longrightarrow>
       queued (hyp g') = [] \<or> ml_num_messages (ml g') = MESSAGELIST_SZ) \<and>
    length (queued (hyp g')) \<le> length (queued (hyp g)) \<and>
    (ret \<noteq> 0 \<and> ml_num_messages (ml g) < MESSAGELIST_SZ \<and> queued (hyp g) \<noteq> [] \<longrightarrow> ml_num_messages (ml g') \<noteq> 0)"
  using assms
proof (induction "5 - unat (ml_num_messages (ml g))" arbitrary: g i ret rule: less_induct)
  case less
  show ?case
  proof (cases "ret \<noteq> 0 \<and> ml_num_messages (ml g) < MESSAGELIST_SZ")
    case False
    moreover have "ml_num_messages (ml g) \<le> MESSAGELIST_SZ"
      using less.prems(1) by (simp add: g_ring_ok_def MESSAGELIST_SZ_def word_le_nat_alt)
    ultimately show ?thesis using less.prems by (subst irq_network_loop.simps) auto
  next
    case True
    then have room: "unat (ml_num_messages (ml g)) < 5" by (simp add: word_less_nat_alt MESSAGELIST_SZ_def)
    have i5: "unat i < 5" using less.prems(1,3) by (simp add: g_ring_ok_def)
    show ?thesis
    proof (cases "queued (hyp g)")
      case Nil
      obtain src h' where r: "ipc_recv (slot_addr a i) (hyp g) = Some (MESSAGE_EMPTY, src, [], h')" "up h'" "queued h' = []"
        using recv_none [OF less.prems(2) i5 Nil] by blast
      obtain l where l: "slot_store i MESSAGE_EMPTY src [] (ml g) = Some l" "g_ring_ok l" "g_contents l = g_contents (ml g)"
        using slot_store_ok [OF less.prems(1) room, of "[]" MESSAGE_EMPTY src] less.prems(3) by auto
      have "irq_network_loop a ipc_recv ret i g = Some (g\<lparr>ml := l, hyp := h'\<rparr>)"
        using True r(1) l(1) by (subst irq_network_loop.simps) simp
      then show ?thesis using l r Nil by simp
    next
      case (Cons m rest)
      obtain src bs where m: "m = (src, bs)" by fastforce
      obtain h' where r: "ipc_recv (slot_addr a i) (hyp g) = Some (of_nat (length bs), src, bs, h')" "up h'" "queued h' = rest"
        using recv_some [OF less.prems(2) i5] Cons m by blast
      have len: "length bs \<le> 255" using queued_short [OF less.prems(2)] Cons m by fastforce
      have n: "unat (of_nat (length bs) :: u32) = length bs" using len by (intro unat_of_nat_small) simp
      then have ne: "(of_nat (length bs) :: u32) \<noteq> MESSAGE_EMPTY"
      proof -
        have "unat MESSAGE_EMPTY = 4294967292" by simp
        then show ?thesis using n len by force
      qed
      obtain l where l: "slot_store i (of_nat (length bs)) src bs (ml g) = Some l" "ml_in l = ml_in (ml g)"
        "ml_num_messages l = ml_num_messages (ml g)" "g_ring_ok (slot_next i l)"
        "g_contents (slot_next i l) = g_contents (ml g) @ [(src, bs)]"
        using slot_store_ok [OF less.prems(1) room len, of "of_nat (length bs)" src] less.prems(3) n by auto
      let ?g = "g\<lparr>ml := slot_next i l, hyp := h'\<rparr>" and ?ret = "of_nat (length bs) :: u32"
      have step: "irq_network_loop a ipc_recv ret i g = irq_network_loop a ipc_recv ?ret ((i + 1) mod MESSAGELIST_SZ) ?g"
        using True r(1) l(1) ne by (subst irq_network_loop.simps) simp
      have n1: "ml_num_messages (ml ?g) = ml_num_messages (ml g) + 1" using l(3) by (simp add: slot_next_def)
      have dec: "5 - unat (ml_num_messages (ml ?g)) < 5 - unat (ml_num_messages (ml g))"
        unfolding n1 using True ring_room_decreases by blast
      have ok1: "g_ring_ok (ml ?g)" "up (hyp ?g)" "(i + 1) mod MESSAGELIST_SZ = ml_in (ml ?g)"
        using l(4) r(2) by (simp_all add: slot_next_def)
      obtain g' where g': "irq_network_loop a ipc_recv ?ret ((i + 1) mod MESSAGELIST_SZ) ?g = Some g'" "g_ring_ok (ml g')"
        "up (hyp g')" "g_mem g' = g_mem ?g"
        "g_contents (ml g') @ queued (hyp g') = g_contents (ml ?g) @ queued (hyp ?g)"
        "?ret \<noteq> 0 \<and> (\<forall>m\<in>set (queued (hyp ?g)). snd m \<noteq> []) \<longrightarrow>
           queued (hyp g') = [] \<or> ml_num_messages (ml g') = MESSAGELIST_SZ"
        "length (queued (hyp g')) \<le> length (queued (hyp ?g))"
        using less.hyps [OF dec ok1, of ?ret] by blast
      have nz: "ml_num_messages (ml g') \<noteq> 0"
      proof
        assume "ml_num_messages (ml g') = 0"
        then have "g_contents (ml g') = []" by (simp add: g_contents_def)
        with g'(5) l(5) have "queued (hyp g') = g_contents (ml g) @ (src, bs) # rest" using r(3) by simp
        with g'(7) r(3) show False by simp
      qed
      have "?ret \<noteq> 0 \<and> (\<forall>m\<in>set rest. snd m \<noteq> [])" if "\<forall>m\<in>set (queued (hyp g)). snd m \<noteq> []"
      proof -
        have "0 < unat ?ret" unfolding n using that Cons m by simp
        then have "?ret \<noteq> 0" using unat_gt_0 by blast
        then show ?thesis using that Cons by simp
      qed
      then show ?thesis using g' step r(3) l(5) Cons m nz by auto
    qed
  qed
qed

lemma irq_network_moves:
  assumes "g_ring_ok (ml g)" and "up (hyp g)"
  shows "\<exists>g'. irq_network a ipc_recv g = Some g' \<and> g_ring_ok (ml g') \<and> up (hyp g') \<and> g_mem g' = g_mem g \<and>
    g_contents (ml g') @ queued (hyp g') = g_contents (ml g) @ queued (hyp g) \<and>
    ((\<forall>m\<in>set (queued (hyp g)). snd m \<noteq> []) \<longrightarrow> queued (hyp g') = [] \<or> ml_num_messages (ml g') = MESSAGELIST_SZ) \<and>
    (queued (hyp g) \<noteq> [] \<longrightarrow> ml_num_messages (ml g') \<noteq> 0)"
proof (cases "ml_num_messages (ml g) = MESSAGELIST_SZ")
  case True
  moreover have "MESSAGELIST_SZ \<noteq> 0" by (simp add: MESSAGELIST_SZ_def)
  ultimately show ?thesis using assms by (simp add: irq_network_def)
next
  case False
  moreover have "ml_num_messages (ml g) \<le> MESSAGELIST_SZ"
    using assms(1) by (simp add: g_ring_ok_def MESSAGELIST_SZ_def word_le_nat_alt)
  ultimately have lt: "ml_num_messages (ml g) < MESSAGELIST_SZ" by simp
  have run: "irq_network a ipc_recv g = irq_network_loop a ipc_recv 1 (ml_in (ml g)) g"
    using False by (simp add: irq_network_def)
  show ?thesis
    unfolding run using irq_network_loop_moves [OF assms refl, of 1] lt by auto
qed

text \<open>A blocking receive with a message in the mailbox: the first interrupt brings it.\<close>

lemma wait_message_returns:
  assumes "g_ring_ok (ml g)" and "up (hyp g)" and "queued (hyp g) \<noteq> []"
  shows "\<exists>g'. wait_message (irq_network a ipc_recv) g = Some g' \<and> ml_num_messages (ml g') \<noteq> 0"
proof (cases "ml_num_messages (ml g) = 0")
  case True
  obtain g' where g': "irq_network a ipc_recv g = Some g'" "ml_num_messages (ml g') \<noteq> 0"
    using irq_network_moves [OF assms(1,2)] assms(3) by blast
  have "wait_message (irq_network a ipc_recv) g' = Some g'" using g'(2) by (subst wait_message.simps) simp
  then show ?thesis using True g' by (subst wait_message.simps) simp
next
  case False
  then show ?thesis by (subst wait_message.simps) simp
qed

lemma receive_in_order:
  assumes ok: "g_ring_ok (ml g)" and ne: "ml_num_messages (ml g) \<noteq> 0" and gb: "good_buffer (Receive source buf bufsz)"
  shows "\<exists>n g'. ReceiveMessage irqs source buf bufsz 0 g = Some (n, g') \<and> ml g' = g_drop (ml g) \<and> hyp g' = hyp g \<and>
    g_ring_ok (ml g') \<and>
    g_contents (ml g) = (load32 (g_mem g') source, bytes_at (g_mem g') buf (unat n)) # g_contents (ml g')"
proof -
  note d = g_drop_ok [OF ok ne]
  obtain src bs rest where c: "g_contents (ml g) = (src, bs) # rest"
    using ne length_g_contents [of "ml g"] by (cases "g_contents (ml g)") (auto simp: unat_eq_zero)
  have len: "length bs \<le> 255" using d c by simp
  have b: "255 \<le> unat bufsz" "blocks_disjoint source 4 buf 255"
    using gb by (simp_all add: good_buffer_def word_le_nat_alt)
  have m: "min (unat bufsz) (length bs) = length bs" "take (unat bufsz) bs = bs" using len b(1) by simp_all
  let ?mem = "store32 (store_bytes (g_mem g) buf bs) source src"
  have dj: "blocks_disjoint source (length (le_bytes src)) buf (length bs)"
  proof -
    have "length (le_bytes src) = 4" by (simp add: le_bytes_def)
    then show ?thesis using b(2) len less_le_trans unfolding blocks_disjoint_def in_block_def by metis
  qed
  have "bytes_at ?mem buf (length bs) = bytes_at (store_bytes (g_mem g) buf bs) buf (length bs)"
    unfolding store32_def using len by (intro bytes_at_frame [OF _ _ dj]) (simp_all add: le_bytes_def)
  also have "\<dots> = bs" using len by (intro bytes_at_store_bytes) simp
  finally have "bytes_at ?mem buf (length bs) = bs" .
  moreover have "unat (of_nat (length bs) :: u32) = length bs" using len by (intro unat_of_nat_small) simp
  moreover have "load32 ?mem source = src" by (simp add: load32_store32)
  ultimately show ?thesis
    using take_message_ok [OF ok c, of source buf bufsz] ne d c by (simp add: ReceiveMessage_def m)
qed

lemma messages_in_order:
  assumes "g_ring_ok (ml g)" and "up (hyp g)" and "\<forall>e\<in>set es. good_buffer e"
    and "\<forall>f. Others f \<in> set es \<longrightarrow> (\<forall>h. up h \<longrightarrow> up (f h) \<and> (\<exists>new. queued (f h) = queued h @ new))"
  shows "\<exists>arr rcv g'. net_run a ipc_recv queued es g = Some (arr, rcv, g') \<and> g_ring_ok (ml g') \<and> up (hyp g') \<and>
    rcv @ g_contents (ml g') @ queued (hyp g') = g_contents (ml g) @ queued (hyp g) @ arr"
  using assms
proof (induction es arbitrary: g)
  case (Cons e es)
  show ?case
  proof (cases e)
    case (Others f)
    then obtain new where f: "up (f (hyp g))" "queued (f (hyp g)) = queued (hyp g) @ new"
      using Cons.prems(2,4) by (meson list.set_intros(1))
    show ?thesis
      using Cons.IH [of "g\<lparr>hyp := f (hyp g)\<rparr>"] Cons.prems f Others by auto
  next
    case Interrupt
    obtain g1 where g1: "irq_network a ipc_recv g = Some g1" "g_ring_ok (ml g1)" "up (hyp g1)"
      "g_contents (ml g1) @ queued (hyp g1) = g_contents (ml g) @ queued (hyp g)"
      using irq_network_moves [OF Cons.prems(1,2)] by blast
    obtain arr rcv g' where r: "net_run a ipc_recv queued es g1 = Some (arr, rcv, g')" "g_ring_ok (ml g')" "up (hyp g')"
      "rcv @ g_contents (ml g') @ queued (hyp g') = g_contents (ml g1) @ queued (hyp g1) @ arr"
      using Cons.IH [OF g1(2,3)] Cons.prems(3,4) by auto
    have "rcv @ g_contents (ml g') @ queued (hyp g') = g_contents (ml g) @ queued (hyp g) @ arr"
      using r(4) g1(4) by (metis append_assoc)
    then show ?thesis using r g1(1) Interrupt by simp
  next
    case (Receive source buf bufsz)
    show ?thesis
    proof (cases "ml_num_messages (ml g) = 0")
      case True
      then show ?thesis using Cons.IH [OF Cons.prems(1,2)] Cons.prems(3,4) Receive by (auto simp: ReceiveMessage_def)
    next
      case False
      have gb: "good_buffer (Receive source buf bufsz :: 'h net_event)" using Cons.prems(3) Receive by simp
      obtain n g1 where g1: "ReceiveMessage (irq_network a ipc_recv) source buf bufsz 0 g = Some (n, g1)"
        "hyp g1 = hyp g" "g_ring_ok (ml g1)"
        "g_contents (ml g) = (load32 (g_mem g1) source, bytes_at (g_mem g1) buf (unat n)) # g_contents (ml g1)"
        using receive_in_order [OF Cons.prems(1) False gb] by blast
      show ?thesis
        using Cons.IH [of g1] Cons.prems g1 Receive False by auto
    qed
  qed
qed simp

end

subsection \<open>The hypervisor's mailbox\<close>

text \<open>\<open>ipc_recv\<close> of a guest whose memory starts at \<open>base\<close>: the buffer's address in A0, the hypercall, the result from V0 and the
  sender from A0; the message has been stored in the guest's memory.\<close>

definition kernel_ipc_recv :: "u32 \<Rightarrow> u32 \<Rightarrow> kst \<Rightarrow> (u32 \<times> u32 \<times> u8 list \<times> kst) option" where
  "kernel_ipc_recv base msg s = do {
     s \<leftarrow> intervm_recv_msg (upd_mach (MoveToPreviousGuestGPR REG_A0 msg) s);
     let ret = guest_reg s REG_V0;
     Some (ret, guest_reg s REG_A0,
       if ret = MESSAGE_EMPTY then [] else bytes_at (ram (mach s)) (guest_phys base msg) (unat ret), s) }"

definition kernel_queued :: "(ptr \<times> ptr) list \<Rightarrow> nat \<Rightarrow> kst \<Rightarrow> (u32 \<times> u8 list) list" where
  "kernel_queued tab i s = (case vcpus s (snd (tab ! i)) of Some vc \<Rightarrow> msg_contents (messages vc) | None \<Rightarrow> [])"

text \<open>The guest \<open>i\<close> runs, and the slots of its ring, the list at \<open>a\<close>, are within reach of a TLB entry.\<close>

definition kernel_up :: "ptr list \<Rightarrow> ptr list \<Rightarrow> (ptr \<times> ptr) list \<Rightarrow> nat \<Rightarrow> u32 \<Rightarrow> u32 \<Rightarrow> kst \<Rightarrow> bool" where
  "kernel_up rs ms tab i base a s \<longleftrightarrow> kinv_at rs ms tab s \<and> runs s tab i \<and> base = ram_base (VMCONF s ! i) \<and>
     (\<forall>k. unat k < 5 \<longrightarrow> mappable base (slot_addr a k) 255)"

lemma mappable_less: "mappable base a n \<Longrightarrow> unat k \<le> unat n \<Longrightarrow> mappable base a k"
  by (simp add: mappable_def)

lemma kernel_up_step: "kernel_up rs ms tab i base a s \<Longrightarrow> k_step s s' \<Longrightarrow> kernel_up rs ms tab i base a s'"
proof -
  assume k: "kernel_up rs ms tab i base a s" and st: "k_step s s'"
  have fr: "k_frame vc_keep s s'" using st by (simp add: k_step_def)
  then have "runs s' tab i" "VMCONF s' = VMCONF s"
    using k st by (simp_all add: kernel_up_def runs_def vcpu_executing_def k_frame_def k_step_def)
  moreover from this(2) k have "base = ram_base (VMCONF s' ! i)" by (simp add: kernel_up_def)
  ultimately show ?thesis using k kinv_at_step [OF _ st] unfolding kernel_up_def by blast
qed

lemma kernel_up_vcpu:
  assumes "kernel_up rs ms tab i base a s"
  obtains vc where "vcpus s (snd (tab ! i)) = Some vc" "msg_buf_ok (messages vc)" "kernel_queued tab i s = msg_contents (messages vc)"
proof -
  have "kdata s rs ms tab" "i < length tab" "length tab \<le> 15"
    using assms by (simp_all add: kernel_up_def kinv_at_def runs_def)
  from vm_of_entry [OF this] obtain vc where "vcpus s (snd (tab ! i)) = Some vc" "msg_buf_ok (messages vc)" by metis
  then show thesis by (intro that) (simp_all add: kernel_queued_def)
qed

interpretation kernel_mailbox: mailbox "kernel_ipc_recv base" a "kernel_queued tab i" "kernel_up rs ms tab i base a"
  for rs ms tab i base a
proof
  fix s :: kst and k :: u32
  assume up: "kernel_up rs ms tab i base a s" and k: "unat k < 5"
  let ?s = "upd_mach (MoveToPreviousGuestGPR REG_A0 (slot_addr a k)) s"
  have st: "k_step s ?s" by (rule k_step_upd_mach) simp
  have up1: "kernel_up rs ms tab i base a ?s" by (rule kernel_up_step [OF up st])
  have ki: "kinv_at rs ms tab ?s" and ru: "runs ?s tab i" and mp: "mappable base (slot_addr a k) 255"
    and b: "base = ram_base (VMCONF ?s ! i)"
    using up1 k unfolding kernel_up_def by blast+
  have a0: "guest_reg ?s REG_A0 = slot_addr a k"
    by (simp add: upd_mach_def MoveFromPreviousGuestGPR_def MoveToPreviousGuestGPR_def prev_set_def)
  obtain vc where vc: "vcpus ?s (snd (tab ! i)) = Some vc" "msg_buf_ok (messages vc)" "kernel_queued tab i ?s = msg_contents (messages vc)"
    by (rule kernel_up_vcpu [OF up1])
  have q: "kernel_queued tab i s = msg_contents (messages vc)" using vc(1) by (simp add: kernel_queued_def upd_mach_def)
  {
    assume "kernel_queued tab i s = []"
    then have "msg_contents (messages vc) = []" using q by simp
    then have z: "num_messages (messages vc) = 0" using length_msg_contents [of "messages vc"] by (simp add: unat_eq_zero)
    have run: "intervm_recv_msg ?s = Some (set_V0 MESSAGE_EMPTY ?s)"
      using runs_vm(2) [OF ki ru] vc(1) z by (simp add: intervm_recv_msg_def)
    have "kernel_up rs ms tab i base a (set_V0 MESSAGE_EMPTY ?s)"
      by (rule kernel_up_step [OF up1 k_step_set_V0 [OF k_step_refl]])
    moreover have "kernel_queued tab i (set_V0 MESSAGE_EMPTY ?s) = []"
      using \<open>msg_contents (messages vc) = []\<close> vc(1) by (simp add: kernel_queued_def upd_mach_def)
    moreover have "guest_reg (set_V0 MESSAGE_EMPTY ?s) REG_V0 = MESSAGE_EMPTY"
      by (simp add: upd_mach_def MoveFromPreviousGuestGPR_def MoveToPreviousGuestGPR_def prev_set_def)
    ultimately show "\<exists>src h'. kernel_ipc_recv base (slot_addr a k) s = Some (MESSAGE_EMPTY, src, [], h') \<and>
        kernel_up rs ms tab i base a h' \<and> kernel_queued tab i h' = []"
      unfolding kernel_ipc_recv_def Let_def run by simp
  }
  {
    fix src bs rest assume qs: "kernel_queued tab i s = (src, bs) # rest"
    then have c: "msg_contents (messages vc) = (src, bs) # rest" using q by simp
    then have ne: "num_messages (messages vc) \<noteq> 0" using length_msg_contents [of "messages vc"] by auto
    have len: "length bs \<le> 255"
      using vc(2) c by (auto simp: msg_buf_ok_nat msg_contents_def slot_def)
    have n: "unat (of_nat (length bs) :: u32) = length bs" using len by (intro unat_of_nat_small) simp
    have "mappable (ram_base (VMCONF ?s ! i)) (guest_reg ?s REG_A0) (of_nat (length bs))"
      unfolding a0 b [symmetric] using mappable_less [OF mp] n len by simp
    from intervm_recv_ok [OF ki ru vc(1) c this] obtain s' vc' where s': "intervm_recv_msg ?s = Some s'" "kinv_at rs ms tab s'"
      "vcpus s' = (vcpus ?s)(snd (tab ! i) \<mapsto> vc')" "msg_contents (messages vc') = rest"
      "ram (mach s') = store_bytes (ram (mach ?s)) (guest_phys (ram_base (VMCONF ?s ! i)) (guest_reg ?s REG_A0)) bs"
      "guest_reg s' REG_V0 = of_nat (length bs)" "guest_reg s' REG_A0 = src" by blast
    have "kernel_up rs ms tab i base a s'" by (rule kernel_up_step [OF up1 intervm_recv_step [OF s'(1)]])
    moreover have "kernel_queued tab i s' = rest" using s'(3,4) by (simp add: kernel_queued_def)
    moreover have "(of_nat (length bs) :: u32) \<noteq> MESSAGE_EMPTY"
    proof -
      have "unat MESSAGE_EMPTY = 4294967292" by simp
      then show ?thesis using n len by force
    qed
    moreover have "bytes_at (ram (mach s')) (guest_phys base (slot_addr a k)) (length bs) = bs"
      unfolding s'(5) a0 b [symmetric] using len by (intro bytes_at_store_bytes) simp
    ultimately show "\<exists>h'. kernel_ipc_recv base (slot_addr a k) s = Some (of_nat (length bs), src, bs, h') \<and>
        kernel_up rs ms tab i base a h' \<and> kernel_queued tab i h' = rest"
      unfolding kernel_ipc_recv_def Let_def using s'(1,6,7) n by simp
  }
next
  fix s m assume up: "kernel_up rs ms tab i base a s" and m: "m \<in> set (kernel_queued tab i s)"
  obtain vc where "vcpus s (snd (tab ! i)) = Some vc" "msg_buf_ok (messages vc)"
      "kernel_queued tab i s = msg_contents (messages vc)"
    by (rule kernel_up_vcpu [OF up])
  then show "length (snd m) \<le> 255"
    using m by (auto simp: msg_buf_ok_nat msg_contents_def slot_def)
qed

text \<open>What a send by another guest does to the mailbox.\<close>

definition kernel_post :: "(ptr \<times> ptr) list \<Rightarrow> nat \<Rightarrow> u32 \<times> u8 list \<Rightarrow> kst \<Rightarrow> kst" where
  "kernel_post tab i m s = (case vcpus s (snd (tab ! i)) of
     None \<Rightarrow> s
   | Some vc \<Rightarrow>
       if num_messages (messages vc) < MESSAGELIST_SZ \<and> length (snd m) \<le> 255 then
         (case ring_enq m (messages vc) of
            None \<Rightarrow> s
          | Some b \<Rightarrow> s\<lparr>vcpus := (vcpus s)(snd (tab ! i) \<mapsto> post_intervm (vc\<lparr>messages := b\<rparr>))\<rparr>)
       else s)"

lemma kernel_post_up:
  assumes up: "kernel_up rs ms tab i base a s"
  shows "kernel_up rs ms tab i base a (kernel_post tab i m s) \<and>
    (\<exists>new. kernel_queued tab i (kernel_post tab i m s) = kernel_queued tab i s @ new)"
proof -
  obtain vc where vc: "vcpus s (snd (tab ! i)) = Some vc" "msg_buf_ok (messages vc)"
      "kernel_queued tab i s = msg_contents (messages vc)"
    by (rule kernel_up_vcpu [OF up])
  show ?thesis
  proof (cases "num_messages (messages vc) < MESSAGELIST_SZ \<and> length (snd m) \<le> 255")
    case False
    have "kernel_post tab i m s = s"
      unfolding kernel_post_def vc(1) option.case if_not_P [OF False] by (rule refl)
    then show ?thesis using up by simp
  next
    case True
    then obtain b where b: "ring_enq m (messages vc) = Some b" "msg_buf_ok b" "msg_contents b = msg_contents (messages vc) @ [m]"
      using ring.enq_ok [OF vc(2), of m] by (auto simp: ring_fits_def word_less_nat_alt)
    let ?vc = "post_intervm (vc\<lparr>messages := b\<rparr>)"
    have p: "kernel_post tab i m s = s\<lparr>vcpus := (vcpus s)(snd (tab ! i) \<mapsto> ?vc)\<rparr>"
      using True vc(1) b(1) by (simp add: kernel_post_def)
    have "k_step s (s\<lparr>vcpus := (vcpus s)(snd (tab ! i) \<mapsto> ?vc)\<rparr>)"
      by (rule k_step_upd_vcpu [of "snd (tab ! i)" "\<lambda>_. ?vc"])
        (use vc b(2) in \<open>auto simp: upd_vcpu_def vc_keep_def vc_ids_def post_intervm_def\<close>)
    then show ?thesis using kernel_up_step [OF up] b(3) vc(3) unfolding p
      by (simp add: kernel_queued_def post_intervm_def)
  qed
qed

end
