(* ===== verification/GuestHeap.thy ===== *)
theory GuestHeap
  imports GuestLibc
begin

text \<open>
  The guests' allocator, \<^verbatim>\<open>bare-metal-apps/lib/malloc.c\<close>: first fit over a list of adjacent blocks, each with a header of
  a \<open>next\<close> pointer and a \<open>size\<close> whose lowest bit marks a used block; free neighbours are joined while searching. The headers
  live in the byte memory. Following a null pointer is \<open>None\<close>, and so is a search that does not end.

  The lemmas show what \<open>init_mem\<close> really leaves behind: the terminator of the list is laid over the first header. From there the
  allocator hands out adjacent blocks without ever looking at the end of the heap, and freeing the block that follows
  the first one sends the next \<open>malloc\<close> into an endless loop.
\<close>

record gheap =
  gmem :: mem
  krnl_free :: u32
  krnl_heap :: ptr

definition align4 :: "u32 \<Rightarrow> u32" where
  "align4 x = push_bit 2 (drop_bit 2 (x + 3))"

text \<open>\<open>struct mem_block\<close>: \<open>next\<close> at offset 0, \<open>size\<close> at offset 4.\<close>

abbreviation (input) block_next :: "mem \<Rightarrow> u32 \<Rightarrow> u32" where "block_next m p \<equiv> load32 m p"
abbreviation (input) block_size :: "mem \<Rightarrow> u32 \<Rightarrow> u32" where "block_size m p \<equiv> load32 m (p + 4)"

definition g_free :: "u32 \<Rightarrow> gheap \<Rightarrow> gheap" where
  "g_free ptr g =
     (let p = ptr - 8;
          m = store32 (gmem g) (p + 4) (block_size (gmem g) p AND NOT 1)
      in g\<lparr>gmem := m, krnl_free := krnl_free g + (block_size m p + 8)\<rparr>)"

text \<open>The two inner loops: over the used blocks, \<open>q\<close> following \<open>p\<close>, then over the free ones.\<close>

partial_function (option) skip_used :: "mem \<Rightarrow> u32 \<Rightarrow> u32 \<Rightarrow> (u32 \<times> u32) option" where
  "skip_used m p q =
     (if p = NULL then None
      else if block_size m p AND 1 \<noteq> 0 then skip_used m (block_next m p) (block_next m p)
      else Some (p, q))"

partial_function (option) skip_free :: "mem \<Rightarrow> u32 \<Rightarrow> u32 option" where
  "skip_free m p =
     (if p = NULL then None
      else if block_size m p AND 1 = 0 \<and> block_next m p \<noteq> 0 then skip_free m (block_next m p)
      else Some p)"

text \<open>The search: the memory, and the block found; \<open>NULL\<close> for the early return.\<close>

partial_function (option) malloc_search :: "u32 \<Rightarrow> mem \<Rightarrow> u32 \<Rightarrow> u32 \<Rightarrow> (mem \<times> u32) option" where
  "malloc_search sz m p q =
     (if p = NULL then None
      else if block_next m p \<noteq> 0 then do {
        (p, q) \<leftarrow> skip_used m p q;
        p \<leftarrow> skip_free m p;
        let m = store32 m (q + 4) (p - q - 8);
        let m = store32 m q p;
        if block_next m p = 0 \<and> block_size m q < sz + 8 then Some (m, NULL)
        else if sz + 8 \<le> block_size m q then Some (m, q)
        else malloc_search sz m p q }
      else Some (m, p))"

definition g_malloc :: "u32 \<Rightarrow> gheap \<Rightarrow> (u32 \<times> gheap) option" where
  "g_malloc n g = do {
     let n = align4 n;
     (m, p) \<leftarrow> malloc_search n (gmem g) (krnl_heap g) (krnl_heap g);
     if p = NULL then Some (0, g\<lparr>gmem := m\<rparr>)
     else do {
       let psize = (block_size m p AND NOT 1) - n - 8;
       let r = block_next m p;
       let m = store32 m p (p + n + 8);
       let m = store32 m (p + 4) (n OR 1);
       let e = block_next m p;
       let m = store32 m e r;
       let m = store32 m (e + 4) psize;
       Some (p + 8, g\<lparr>gmem := m, krnl_free := krnl_free g - (n + 8)\<rparr>) } }"

definition g_calloc :: "u32 \<Rightarrow> u32 \<Rightarrow> gheap \<Rightarrow> (u32 \<times> gheap) option" where
  "g_calloc qty type_size g = do {
     (buf, g) \<leftarrow> g_malloc (qty * type_size) g;
     if buf \<noteq> NULL then Some (buf, g\<lparr>gmem := fst (g_memset (gmem g) buf 0 (qty * type_size))\<rparr>)
     else Some (buf, g) }"

definition g_realloc :: "u32 \<Rightarrow> u32 \<Rightarrow> gheap \<Rightarrow> (u32 \<times> gheap) option" where
  "g_realloc ptr n g =
     (if n <s 0 then Some (NULL, g)
      else if ptr = NULL then g_malloc n g
      else do {
        (buf, g) \<leftarrow> g_malloc n g;
        if buf \<noteq> NULL then
          Some (buf, g_free ptr (g\<lparr>gmem := fst (g_memcpy (gmem g) buf ptr n)\<rparr>))
        else Some (buf, g) })"

text \<open>\<open>init_mem\<close>, for the linker's symbols \<open>_heap_start\<close> and \<open>_heap_size\<close>. The end block is placed with
  \<open>sizeof(krnl_heap)\<close>, the size of a pointer.\<close>

definition g_init_mem :: "u32 \<Rightarrow> u32 \<Rightarrow> gheap \<Rightarrow> gheap" where
  "g_init_mem heap_start heap_size g =
     (let hp = (heap_start + 8) AND 0xFFFFFFFC;
          len = (heap_size - 8) AND 0xFFFFFFFC;
          p = hp;
          q = hp + 4 - 8;
          len = align4 len;
          m = store32 (gmem g) p q;
          m = store32 m (p + 4) (len - 8 - 8);
          m = store32 m q 0;
          m = store32 m (q + 4) 0
      in g\<lparr>gmem := m, krnl_heap := hp, krnl_free := block_size m p\<rparr>)"


subsection \<open>Headers at known addresses\<close>

lemma load32_store32_other:
  assumes "4 \<le> unat (b - a)" and "4 \<le> unat (a - b)"
  shows "load32 (store32 m a v) b = load32 m b"
proof -
  have len: "length (le_bytes v) = 4" by (simp add: le_bytes_def)
  have "blocks_disjoint a 4 b 4"
    unfolding blocks_disjoint_def in_block_def
  proof (intro allI notI)
    fix x assume x: "unat (x - a) < 4 \<and> unat (x - b) < 4"
    show False
    proof (cases "unat (x - a) \<le> unat (x - b)")
      case True
      have "a - b = (x - b) - (x - a)" by simp
      then have "unat (a - b) = unat (x - b) - unat (x - a)" using True by (simp only: unat_sub_if' if_True)
      then show False using x assms(2) by linarith
    next
      case False
      have "b - a = (x - a) - (x - b)" by simp
      then have "unat (b - a) = unat (x - a) - unat (x - b)" using False by (simp only: unat_sub_if' if_True) simp
      then show False using x assms(1) by linarith
    qed
  qed
  then have "bytes_at (store32 m a v) b 4 = bytes_at m b 4"
    unfolding store32_def by (intro bytes_at_frame) (simp_all add: len)
  then show ?thesis by (metis bytes_at_4 load32_def list.inject)
qed

text \<open>Addresses below \<open>2 ^ 32\<close>, as numbers.\<close>

lemma load_other:
  assumes "x + 4 \<le> y \<or> y + 4 \<le> x" and "x + 4 \<le> 2 ^ 32" and "y + 4 \<le> 2 ^ 32"
  shows "load32 (store32 m (of_nat x) v) (of_nat y) = load32 m (of_nat y)"
proof (rule load32_store32_other)
  have d: "4 \<le> unat (of_nat j - of_nat i :: u32) \<and> 4 \<le> unat (of_nat i - of_nat j :: u32)"
    if "i + 4 \<le> j" "j + 4 \<le> 2 ^ 32" for i j :: nat
  proof -
    have u: "unat (of_nat i :: u32) = i" "unat (of_nat j :: u32) = j"
      using that by (auto intro: unat_of_nat_small)
    show ?thesis using that by (simp only: unat_sub_if' u) (simp; linarith)
  qed
  show "4 \<le> unat (of_nat y - of_nat x :: u32)" "4 \<le> unat (of_nat x - of_nat y :: u32)"
    using assms d by blast+
qed

lemma word_and_1: "(w :: u32) AND 1 = 0 \<longleftrightarrow> even w"
  by (simp add: and_one_eq mod_2_eq_odd)

lemma even_and_not_1: "even ((w :: u32) AND NOT 1)"
  by (simp add: even_and_iff)

subsection \<open>A heap that has only grown\<close>

text \<open>The used blocks of sizes \<open>ss\<close> stand one after the other from \<open>h\<close> on.\<close>

primrec used_blocks :: "mem \<Rightarrow> nat \<Rightarrow> nat list \<Rightarrow> bool" where
  "used_blocks m h [] \<longleftrightarrow> True"
| "used_blocks m h (s # ss) \<longleftrightarrow> load32 m (of_nat (h + 4)) = of_nat s OR 1 \<and>
     load32 m (of_nat h) = of_nat (h + s + 8) \<and> used_blocks m (h + s + 8) ss"

primrec end_of :: "nat \<Rightarrow> nat list \<Rightarrow> nat" where
  "end_of h [] = h"
| "end_of h (s # ss) = end_of (h + s + 8) ss"

lemma end_of_ge: "h + 8 * length ss \<le> end_of h ss"
proof (induction ss arbitrary: h)
  case (Cons s ss)
  from Cons.IH [of "h + s + 8"] show ?case by simp
qed simp

lemma end_of_append: "end_of h (ss @ [s]) = end_of h ss + s + 8"
  by (induction ss arbitrary: h) auto

lemma used_blocks_append:
  "used_blocks m h (ss @ [s]) \<longleftrightarrow> used_blocks m h ss \<and>
     load32 m (of_nat (end_of h ss + 4)) = of_nat s OR 1 \<and> load32 m (of_nat (end_of h ss)) = of_nat (end_of h ss + s + 8)"
  by (induction ss arbitrary: h) auto

lemma used_blocks_store:
  "used_blocks m h ss \<Longrightarrow> end_of h ss \<le> x \<Longrightarrow> x + 4 \<le> 2 ^ 32 \<Longrightarrow> used_blocks (store32 m (of_nat x) v) h ss"
proof (induction ss arbitrary: h)
  case (Cons s ss)
  have "h + s + 8 \<le> end_of (h + s + 8) ss" using end_of_ge [of "h + s + 8" ss] by linarith
  then have e: "h + s + 8 \<le> x" using Cons.prems by simp
  have "load32 (store32 m (of_nat x) v) (of_nat h) = load32 m (of_nat h)"
    "load32 (store32 m (of_nat x) v) (of_nat (h + 4)) = load32 m (of_nat (h + 4))"
    using e Cons.prems(3) by (intro load_other; linarith)+
  then show ?case using Cons by simp
qed simp

lemma of_nat_nz: "0 < n \<Longrightarrow> n < 2 ^ 32 \<Longrightarrow> (of_nat n :: u32) \<noteq> 0"
  by (simp add: word_of_nat_eq_0_iff nat_dvd_not_less)

lemma skip_used_to_end:
  "used_blocks m h ss \<Longrightarrow> even (load32 m (of_nat (end_of h ss + 4))) \<Longrightarrow> 0 < h \<Longrightarrow> end_of h ss < 2 ^ 32 \<Longrightarrow>
   skip_used m (of_nat h) q = Some (of_nat (end_of h ss), if ss = [] then q else of_nat (end_of h ss))"
proof (induction ss arbitrary: h q)
  case Nil
  then show ?case
    by (subst skip_used.simps) (simp add: word_and_1 of_nat_nz)
next
  case (Cons s ss)
  have "h < end_of h (s # ss)" using end_of_ge [of h "s # ss"] by simp
  then have "(of_nat h :: u32) \<noteq> 0" using Cons.prems(3,4) by (intro of_nat_nz) auto
  moreover have "odd (load32 m (of_nat h + 4))" using Cons.prems(1) by (simp add: even_or_iff)
  moreover have "load32 m (of_nat h) = of_nat (h + s + 8)" using Cons.prems(1) by simp
  ultimately have "skip_used m (of_nat h) q = skip_used m (of_nat (h + s + 8)) (of_nat (h + s + 8))"
    by (subst skip_used.simps) (simp add: word_and_1)
  also have "\<dots> = Some (of_nat (end_of (h + s + 8) ss),
      if ss = [] then of_nat (h + s + 8) else of_nat (end_of (h + s + 8) ss))"
    using Cons.prems by (intro Cons.IH) auto
  finally show ?case by simp
qed

text \<open>The heap after the requests \<open>ss\<close> and no release: behind the used blocks one free block, with a \<open>next\<close> that is null at
  first and then leads back to the second block.\<close>

definition grown :: "nat \<Rightarrow> nat list \<Rightarrow> gheap \<Rightarrow> bool" where
  "grown h ss g \<longleftrightarrow> krnl_heap g = of_nat h \<and> 0 < h \<and> used_blocks (gmem g) h ss \<and>
     even (load32 (gmem g) (of_nat (end_of h ss + 4))) \<and>
     load32 (gmem g) (of_nat (end_of h ss)) = (if length ss \<le> 1 then 0 else of_nat (h + hd ss + 8)) \<and>
     (\<forall>s\<in>set ss. even s)"

lemma even_align4: "even (align4 x)"
  unfolding align4_def by (simp add: push_bit_eq_mult)

lemma init_grown:
  assumes x: "x = unat ((heap_start + 8) AND 0xFFFFFFFC)" and b: "8 \<le> x" "x + 8 \<le> 2 ^ 32"
  shows "grown x [] (g_init_mem heap_start heap_size g)"
    and "krnl_free (g_init_mem heap_start heap_size g) = align4 ((heap_size - 8) AND 0xFFFFFFFC) - 16"
proof -
  have p: "(heap_start + 8) AND 0xFFFFFFFC = of_nat x" by (simp add: x)
  have q: "(of_nat x :: u32) + 4 - 8 = of_nat (x - 4)" "(of_nat (x - 4) :: u32) + 4 = of_nat x"
    "(of_nat x :: u32) + 4 = of_nat (x + 4)"
    using b(1) by (simp_all add: of_nat_diff)
  let ?sz = "align4 ((heap_size - 8) AND 0xFFFFFFFC) - 8 - 8"
  let ?m1 = "store32 (gmem g) (of_nat x) (of_nat (x - 4))"
  let ?m = "store32 (store32 (store32 ?m1 (of_nat (x + 4)) ?sz) (of_nat (x - 4)) 0) (of_nat x) 0"
  have i: "g_init_mem heap_start heap_size g = g\<lparr>gmem := ?m, krnl_heap := of_nat x, krnl_free := load32 ?m (of_nat (x + 4))\<rparr>"
    unfolding g_init_mem_def Let_def p q(1) unfolding q(2,3) by (rule refl)
  have l: "load32 ?m (of_nat (x + 4)) = ?sz" "load32 ?m (of_nat x) = 0"
  proof -
    have "load32 ?m (of_nat (x + 4)) = load32 (store32 (store32 ?m1 (of_nat (x + 4)) ?sz) (of_nat (x - 4)) 0) (of_nat (x + 4))"
      using b by (intro load_other) auto
    also have "\<dots> = load32 (store32 ?m1 (of_nat (x + 4)) ?sz) (of_nat (x + 4))"
      using b by (intro load_other) auto
    finally show "load32 ?m (of_nat (x + 4)) = ?sz" by (simp only: load32_store32)
    show "load32 ?m (of_nat x) = 0" by (simp only: load32_store32)
  qed
  have "even ?sz" using even_align4 by simp
  then show "grown x [] (g_init_mem heap_start heap_size g)"
    unfolding i grown_def using l b by simp
  show "krnl_free (g_init_mem heap_start heap_size g) = align4 ((heap_size - 8) AND 0xFFFFFFFC) - 16"
    unfolding i by (simp only: l(1)) simp
qed

lemma hd_end_le: "ss \<noteq> [] \<Longrightarrow> h + hd ss + 8 + 8 * (length ss - 1) \<le> end_of h ss"
  using end_of_ge by (cases ss) auto

text \<open>The search on such a heap ends at the free block, and leaves its size so large that any request fits.\<close>

lemma search_grown:
  assumes g: "grown h ss g" and b: "end_of h ss + n + 16 \<le> 2 ^ 32"
  shows "\<exists>m. malloc_search (of_nat n) (gmem g) (of_nat h) (of_nat h) = Some (m, of_nat (end_of h ss)) \<and>
    used_blocks m h ss \<and> even (load32 m (of_nat (end_of h ss + 4))) \<and>
    load32 m (of_nat (end_of h ss)) = (if ss = [] then 0 else of_nat (h + hd ss + 8))"
proof (cases ss)
  case Nil
  have "(of_nat h :: u32) \<noteq> 0" using g b Nil by (intro of_nat_nz) (auto simp: grown_def)
  then show ?thesis
    using g Nil by (intro exI [of _ "gmem g"]) (simp add: grown_def malloc_search.simps)
next
  case (Cons s ss')
  let ?t = "end_of h ss" and ?m = "gmem g" and ?t1 = "h + s + 8"
  have h: "0 < h" and ub: "used_blocks ?m h ss" and ev: "even (load32 ?m (of_nat (?t + 4)))"
    and nx: "load32 ?m (of_nat ?t) = (if ss' = [] then 0 else of_nat ?t1)"
    using g Cons by (simp_all add: grown_def Suc_le_eq)
  have t1: "?t1 \<le> ?t" using hd_end_le [of ss h] Cons by simp
  have nz: "(of_nat h :: u32) \<noteq> 0" "(of_nat ?t1 :: u32) \<noteq> 0" "(of_nat ?t :: u32) \<noteq> 0"
    using h t1 b by (intro of_nat_nz; linarith)+
  have n0: "load32 ?m (of_nat h) = of_nat ?t1" using ub Cons by simp
  have su: "skip_used ?m (of_nat h) (of_nat h) = Some (of_nat ?t, of_nat ?t)"
    using skip_used_to_end [OF ub ev h] b Cons by simp
  have sf: "skip_free ?m (of_nat ?t) = Some (of_nat ?t1)"
  proof (cases ss')
    case Nil
    then show ?thesis using nx nz Cons by (subst skip_free.simps) simp
  next
    case (Cons s2 ss2)
    have "odd (load32 ?m (of_nat ?t1 + 4))" using ub \<open>ss = s # ss'\<close> Cons by (simp add: even_or_iff add.assoc)
    then have "skip_free ?m (of_nat ?t1) = Some (of_nat ?t1)"
      using nz by (subst skip_free.simps) (simp add: word_and_1)
    moreover have "skip_free ?m (of_nat ?t) = skip_free ?m (of_nat ?t1)"
      using nx nz ev Cons by (subst skip_free.simps) (simp add: word_and_1 add.commute)
    ultimately show ?thesis by simp
  qed
  let ?m1 = "store32 ?m (of_nat (?t + 4)) (of_nat ?t1 - of_nat ?t - 8)"
  let ?m2 = "store32 ?m1 (of_nat ?t) (of_nat ?t1)"
  have hd: "load32 ?m2 (of_nat ?t) = of_nat ?t1" by (rule load32_store32)
  have sz: "load32 ?m2 (of_nat (?t + 4)) = of_nat ?t1 - of_nat ?t - 8"
    using b by (subst load_other) (simp_all only: load32_store32, linarith+)
  have fits: "of_nat n + 8 \<le> (of_nat ?t1 - of_nat ?t - 8 :: u32)"
  proof -
    have e: "(of_nat ?t1 - of_nat ?t - 8 :: u32) = of_nat (2 ^ 32 - (?t - ?t1) - 8)"
      using t1 b by (simp add: of_nat_diff)
    have "unat (of_nat (2 ^ 32 - (?t - ?t1) - 8) :: u32) = 2 ^ 32 - (?t - ?t1) - 8"
      using t1 by (intro unat_of_nat_small) simp
    moreover have "unat (of_nat (n + 8) :: u32) = n + 8" using b by (intro unat_of_nat_small) simp
    ultimately show ?thesis using b t1 h unfolding e by (simp add: word_le_nat_alt)
  qed
  have n1: "load32 ?m2 (of_nat ?t1) \<noteq> 0"
  proof (cases ss')
    case Nil
    then show ?thesis using hd nz Cons by simp
  next
    case (Cons s2 ss2)
    have le: "?t1 + s2 + 8 \<le> ?t" using end_of_ge [of "?t1 + s2 + 8" ss2] \<open>ss = s # ss'\<close> Cons by simp
    have "load32 ?m2 (of_nat ?t1) = load32 ?m1 (of_nat ?t1)" using le b by (intro load_other) auto
    also have "\<dots> = load32 ?m (of_nat ?t1)" using le b by (intro load_other) auto
    also have "\<dots> = of_nat (?t1 + s2 + 8)" using ub \<open>ss = s # ss'\<close> Cons by simp
    finally show ?thesis using le b h of_nat_nz [of "?t1 + s2 + 8"] by simp
  qed
  have q4: "(of_nat ?t :: u32) + 4 = of_nat (?t + 4)" by simp
  have "malloc_search (of_nat n) ?m (of_nat h) (of_nat h) = Some (?m2, of_nat ?t)"
    using nz(1,2) n1 fits
    by (subst malloc_search.simps) (simp only: n0 su sf q4 sz Let_def bind.bind_lunit prod.case if_False if_True simp_thms)
  moreover have "used_blocks ?m2 h ss"
    using b by (intro used_blocks_store ub) auto
  moreover have "even (load32 ?m2 (of_nat (?t + 4)))"
  proof -
    have "even (end_of h' xs) = even h'" if "\<forall>x\<in>set xs. even x" for h' xs
      using that by (induction xs arbitrary: h') auto
    then have "even ?t = even ?t1" using g Cons by (simp add: grown_def)
    then show ?thesis unfolding sz by simp blast
  qed
  ultimately show ?thesis using hd Cons by (intro exI [of _ ?m2]) simp
qed

lemma even_unat: "even (unat (w :: u32)) \<longleftrightarrow> even w"
  using bit_unsigned_iff [of w 0, where ?'a = nat] by (simp add: bit_0)

lemma malloc_grown:
  assumes g: "grown h ss g" and n: "n = unat (align4 sz)" and b: "end_of h ss + n + 16 \<le> 2 ^ 32"
  shows "\<exists>g'. g_malloc sz g = Some (of_nat (end_of h ss + 8), g') \<and> grown h (ss @ [n]) g'"
proof -
  let ?t = "end_of h ss"
  obtain m where m: "malloc_search (of_nat n) (gmem g) (of_nat h) (of_nat h) = Some (m, of_nat ?t)" "used_blocks m h ss"
    "load32 m (of_nat ?t) = (if ss = [] then 0 else of_nat (h + hd ss + 8))"
    using search_grown [OF g b] by blast
  have h: "0 < h" "krnl_heap g = of_nat h" "\<forall>s\<in>set ss. even s" using g by (simp_all add: grown_def)
  have a: "align4 sz = of_nat n" by (simp add: n)
  have tz: "(of_nat ?t :: u32) \<noteq> 0" using end_of_ge [of h ss] h b by (intro of_nat_nz) linarith+
  have q: "(of_nat ?t :: u32) + of_nat n + 8 = of_nat (?t + n + 8)" "(of_nat ?t :: u32) + 4 = of_nat (?t + 4)"
    "(of_nat (?t + n + 8) :: u32) + 4 = of_nat (?t + n + 8 + 4)" "(of_nat ?t :: u32) + 8 = of_nat (?t + 8)"
    by simp_all
  let ?e = "of_nat (?t + n + 8) :: u32" and ?r = "load32 m (of_nat ?t)"
  let ?psize = "(load32 m (of_nat (?t + 4)) AND NOT 1) - of_nat n - 8"
  let ?m1 = "store32 (store32 m (of_nat ?t) ?e) (of_nat (?t + 4)) (of_nat n OR 1)"
  let ?m = "store32 (store32 ?m1 ?e ?r) (of_nat (?t + n + 8 + 4)) ?psize"
  have e: "load32 ?m1 (of_nat ?t) = ?e"
    using b by (subst load_other) (simp_all only: load32_store32, linarith+)
  have run: "g_malloc sz g = Some (of_nat (?t + 8), g\<lparr>gmem := ?m, krnl_free := krnl_free g - (of_nat n + 8)\<rparr>)"
    unfolding g_malloc_def Let_def a h(2) using tz
    by (simp only: m(1) bind.bind_lunit prod.case if_False q e)
  have "load32 ?m (of_nat ?t) = ?e" "load32 ?m (of_nat (?t + 4)) = of_nat n OR 1"
  proof -
    have "load32 ?m (of_nat ?t) = load32 ?m1 (of_nat ?t)" "load32 ?m (of_nat (?t + 4)) = load32 ?m1 (of_nat (?t + 4))"
      using b by (intro trans [OF load_other load_other]; linarith)+
    then show "load32 ?m (of_nat ?t) = ?e" "load32 ?m (of_nat (?t + 4)) = of_nat n OR 1"
      by (simp_all only: e load32_store32)
  qed
  moreover have "load32 ?m ?e = ?r"
    using b by (subst load_other, linarith+) (rule load32_store32)
  moreover have "load32 ?m (of_nat (?t + n + 8 + 4)) = ?psize" by (rule load32_store32)
  moreover have "used_blocks ?m h ss"
    using b by (intro used_blocks_store m(2)) auto
  moreover have "even n" "even ?psize"
  proof -
    show "even n" unfolding n even_unat by (rule even_align4)
    then have "even (of_nat n :: u32)" by (metis a even_align4)
    moreover have "even (load32 m (of_nat (?t + 4)) AND NOT 1)" by (rule even_and_not_1)
    ultimately show "even ?psize" by simp
  qed
  ultimately have "grown h (ss @ [n]) (g\<lparr>gmem := ?m, krnl_free := krnl_free g - (of_nat n + 8)\<rparr>)"
    unfolding grown_def used_blocks_append end_of_append using h m(3) by (cases ss) simp_all
  with run show ?thesis by blast
qed

text \<open>A series of requests without a release.\<close>

fun g_mallocs :: "u32 list \<Rightarrow> gheap \<Rightarrow> (u32 list \<times> gheap) option" where
  "g_mallocs [] g = Some ([], g)"
| "g_mallocs (sz # szs) g = do {
     (p, g) \<leftarrow> g_malloc sz g;
     (ps, g) \<leftarrow> g_mallocs szs g;
     Some (p # ps, g) }"

primrec adjacent :: "nat \<Rightarrow> nat list \<Rightarrow> u32 list" where
  "adjacent h [] = []"
| "adjacent h (s # ss) = of_nat (h + 8) # adjacent (h + s + 8) ss"

lemma end_of_append_list: "end_of h (ss @ ts) = end_of (end_of h ss) ts"
  by (induction ss arbitrary: h) auto

lemma g_mallocs_grown:
  "grown h ss g \<Longrightarrow> end_of (end_of h ss) (map (\<lambda>sz. unat (align4 sz)) szs) + 8 \<le> 2 ^ 32 \<Longrightarrow>
   \<exists>g'. g_mallocs szs g = Some (adjacent (end_of h ss) (map (\<lambda>sz. unat (align4 sz)) szs), g') \<and>
     grown h (ss @ map (\<lambda>sz. unat (align4 sz)) szs) g'"
proof (induction szs arbitrary: ss g)
  case (Cons sz szs)
  let ?n = "unat (align4 sz)"
  have "end_of h ss + ?n + 8 \<le> end_of (end_of h ss + ?n + 8) (map (\<lambda>sz. unat (align4 sz)) szs)"
    using end_of_ge [of "end_of h ss + ?n + 8"] by (rule add_leD1)
  then have "end_of h ss + ?n + 16 \<le> 2 ^ 32" using Cons.prems(2) by simp
  from malloc_grown [OF Cons.prems(1) refl this] obtain g1
    where g1: "g_malloc sz g = Some (of_nat (end_of h ss + 8), g1)" "grown h (ss @ [?n]) g1" by blast
  from Cons.IH [OF g1(2)] Cons.prems(2) obtain g' where
    "g_mallocs szs g1 = Some (adjacent (end_of h ss + ?n + 8) (map (\<lambda>sz. unat (align4 sz)) szs), g')"
    "grown h (ss @ ?n # map (\<lambda>sz. unat (align4 sz)) szs) g'"
    by (auto simp: end_of_append)
  then show ?case using g1(1) by simp
qed simp

text \<open>Two free blocks that lead to each other, and nothing else: the loop over the free blocks does not end.\<close>

lemma skip_free_cycle:
  assumes "even (block_size m p)" "even (block_size m q)" "block_next m p = q" "block_next m q = p" "p \<noteq> 0" "q \<noteq> 0"
  shows "skip_free m p = None"
proof (rule ccontr)
  assume "skip_free m p \<noteq> None"
  then obtain r where r: "skip_free m p = Some r" by blast
  have "x \<notin> {p, q}" if "skip_free m x = Some r" for x
  proof (rule skip_free.raw_induct [where P = "\<lambda>m' x r. m' = m \<longrightarrow> x \<notin> {p, q}", OF _ that, THEN mp, OF _ refl])
    fix f m' x r
    assume IH: "\<And>m' x r. f m' x = Some r \<Longrightarrow> m' = m \<longrightarrow> x \<notin> {p, q}"
      and x: "(if x = NULL then None else if block_size m' x AND 1 = 0 \<and> block_next m' x \<noteq> 0 then f m' (block_next m' x)
        else Some x) = Some r"
    show "m' = m \<longrightarrow> x \<notin> {p, q}"
    proof (intro impI notI)
      assume m': "m' = m" and xin: "x \<in> {p, q}"
      then have "f m (block_next m x) = Some r" "block_next m x \<in> {p, q}"
        using x assms by (auto simp: word_and_1)
      with IH show False by blast
    qed
  qed
  with r show False by blast
qed

lemma free_second_hangs:
  assumes g: "grown h [s1, s2] g" and b: "h + s1 + s2 + 24 \<le> 2 ^ 32"
  shows "g_malloc sz (g_free (of_nat (h + s1 + 16)) g) = None"
proof -
  let ?p = "h + s1 + 8" and ?q = "h + s1 + 8 + s2 + 8" and ?m = "gmem g"
  have l: "load32 ?m (of_nat (h + 4)) = of_nat s1 OR 1" "load32 ?m (of_nat h) = of_nat ?p"
    "load32 ?m (of_nat (?p + 4)) = of_nat s2 OR 1" "load32 ?m (of_nat ?p) = of_nat ?q"
    "even (load32 ?m (of_nat (?q + 4)))" "load32 ?m (of_nat ?q) = of_nat ?p" "0 < h" "krnl_heap g = of_nat h"
    using g unfolding grown_def by simp_all
  let ?m' = "store32 ?m (of_nat (?p + 4)) (load32 ?m (of_nat (?p + 4)) AND NOT 1)"
  have f: "gmem (g_free (of_nat (h + s1 + 16)) g) = ?m'" "krnl_heap (g_free (of_nat (h + s1 + 16)) g) = of_nat h"
  proof -
    have "(of_nat (h + s1 + 16) :: u32) - 8 = of_nat ?p" "(of_nat ?p :: u32) + 4 = of_nat (?p + 4)" by simp_all
    then show "gmem (g_free (of_nat (h + s1 + 16)) g) = ?m'" "krnl_heap (g_free (of_nat (h + s1 + 16)) g) = of_nat h"
      unfolding g_free_def Let_def by (simp_all add: l(8) del: of_nat_add)
  qed
  have k: "load32 ?m' (of_nat h) = of_nat ?p" "load32 ?m' (of_nat (h + 4)) = of_nat s1 OR 1"
    "load32 ?m' (of_nat ?p) = of_nat ?q" "load32 ?m' (of_nat ?q) = of_nat ?p"
    "even (load32 ?m' (of_nat (?q + 4)))" "even (load32 ?m' (of_nat (?p + 4)))"
    using b l by (subst load_other, linarith+; simp only:)+ (simp only: load32_store32 even_and_not_1)
  have nz: "(of_nat h :: u32) \<noteq> 0" "(of_nat ?p :: u32) \<noteq> 0" "(of_nat ?q :: u32) \<noteq> 0"
    using l(7) b by (intro of_nat_nz; linarith)+
  have a4: "(of_nat x :: u32) + 4 = of_nat (x + 4)" for x by simp
  have "skip_used ?m' (of_nat h) (of_nat h) = skip_used ?m' (of_nat ?p) (of_nat ?p)"
    using nz(1) k(2) by (subst skip_used.simps) (simp only: a4 k(1) word_and_1 even_or_iff if_True if_False, simp)
  also have "\<dots> = Some (of_nat ?p, of_nat ?p)"
    using nz(2) k(6) by (subst skip_used.simps) (simp only: a4 word_and_1 if_True if_False simp_thms)
  finally have su: "skip_used ?m' (of_nat h) (of_nat h) = Some (of_nat ?p, of_nat ?p)" .
  have sf: "skip_free ?m' (of_nat ?p) = None"
    by (rule skip_free_cycle [of _ _ "of_nat ?q"]) (use k nz in \<open>simp_all only: a4 simp_thms\<close>)
  have "malloc_search (align4 sz) ?m' (of_nat h) (of_nat h) = None"
    using nz by (subst malloc_search.simps) (simp only: k(1) su sf bind.bind_lunit bind.bind_lzero prod.case if_True if_False simp_thms)
  then show ?thesis unfolding g_malloc_def Let_def f by (simp only: bind.bind_lzero)
qed

end
