(* ===== verification/HcallTable.thy ===== *)
theory HcallTable
  imports Boot
begin

text \<open>
  The hypercall table from start-up on. Each call has one code (\<^verbatim>\<open>include/hypercall_defines.h\<close>), and each
  driver registers its own calls, so after any boot an entry holds the call of that code or nothing, and the calls that
  are served are those of the drivers that were linked. Nothing that the running kernel does changes the table.
\<close>

fun hcall_code :: "hcall \<Rightarrow> u32" where
  "hcall_code H_get_vm_id = HCALL_GET_VM_ID"
| "hcall_code H_intervm_recv_msg = HCALL_IPC_RECV_MSG"
| "hcall_code H_intervm_send_msg = HCALL_IPC_SEND_MSG"
| "hcall_code H_guest_is_up = HCALL_GUEST_UP"
| "hcall_code H_write_address = HCALL_WRITE_ADDRESS"
| "hcall_code H_read_address = HCALL_READ_ADDRESS"
| "hcall_code H_reenable_interrupt = HCALL_REENABLE_INTERRUPT"
| "hcall_code H_flash_read = HCALL_FLASH_READ"
| "hcall_code H_flash_write = HCALL_FLASH_WRITE"
| "hcall_code H_update_chosen_vm = HCALL_UPDATE_VM_ID"
| "hcall_code H_get_allowed_vm = HCALL_UPDATE_GET_ALLOWED"
| "hcall_code H_get_owned_list = HCALL_GET_OWNED_LIST"

text \<open>The calls a driver registers. Interrupt redirection registers its call only if the configuration redirects
  an interrupt.\<close>

fun provides :: "initcall \<Rightarrow> hcall list" where
  "provides D_intervm_init = [H_get_vm_id, H_intervm_send_msg, H_intervm_recv_msg, H_guest_is_up]"
| "provides D_virtual_io_init = [H_write_address, H_read_address]"
| "provides D_interrupt_redirect_init = [H_reenable_interrupt]"
| "provides D_flash_puf_init = [H_flash_read, H_flash_write]"
| "provides D_vm_update_init = [H_update_chosen_vm, H_get_allowed_vm]"
| "provides D_remote_connection_init = [H_get_owned_list]"
| "provides D_interrupt_init = []"
| "provides D_sw1_button_interrupt_init = []"

definition typed_table :: "hcall option list \<Rightarrow> bool" where
  "typed_table tab \<longleftrightarrow> length tab = 30 \<and> (\<forall>k<30. \<forall>hc. tab ! k = Some hc \<longrightarrow> unat (hcall_code hc) = k)"

definition registered :: "hcall option list \<Rightarrow> hcall set" where
  "registered tab = {hc. tab ! unat (hcall_code hc) = Some hc}"

lemma hcall_code_less: "unat (hcall_code hc) < 30"
  by (cases hc) simp_all

lemma hcall_code_inj: "hcall_code a = hcall_code b \<Longrightarrow> a = b"
  by (cases a; cases b) simp_all

lemma hcall_code_unat_inj: "unat (hcall_code a) = unat (hcall_code b) \<Longrightarrow> a = b"
  by (metis hcall_code_inj unsigned_word_eqI)

lemma provides_disjoint: "d \<noteq> d' \<Longrightarrow> set (provides d) \<inter> set (provides d') = {}"
  by (cases d; cases d') simp_all

lemma typed_free:
  assumes "typed_table tab"
  shows "tab ! unat (hcall_code hc) = None \<longleftrightarrow> hc \<notin> registered tab"
proof (cases "tab ! unat (hcall_code hc)")
  case (Some h)
  then have "unat (hcall_code h) = unat (hcall_code hc)"
    using assms hcall_code_less by (simp add: typed_table_def)
  then show ?thesis using Some hcall_code_unat_inj by (auto simp: registered_def)
qed (simp add: registered_def)

lemma register_hypercall_table:
  assumes t: "typed_table (hypercall_table s)" and r: "register_hypercall hc (hcall_code hc) s = (v, s')"
  shows "typed_table (hypercall_table s') \<and> registered (hypercall_table s') = insert hc (registered (hypercall_table s)) \<and>
    (v <s 0 \<longleftrightarrow> hc \<in> registered (hypercall_table s))"
proof -
  let ?k = "unat (hcall_code hc)" and ?T = "hypercall_table s"
  have lt: "\<not> HCALL_TABLE_SIZE - 1 < hcall_code hc" by (cases hc) (simp_all add: HCALL_TABLE_SIZE_def)
  show ?thesis
  proof (cases "?T ! ?k")
    case None
    then have e: "v = hcall_code hc" "hypercall_table s' = ?T[?k := Some hc]"
      using r lt by (auto simp: register_hypercall_def)
    have "\<not> hcall_code hc <s 0" by (cases hc) (simp_all add: sless_neg_iff)
    moreover have "registered (?T[?k := Some hc]) = insert hc (registered ?T)"
      using t hcall_code_less [of hc] hcall_code_unat_inj None
      by (auto simp: registered_def typed_table_def nth_list_update split: if_splits)
    moreover have "typed_table (?T[?k := Some hc])"
      using t hcall_code_less [of hc] by (auto simp: typed_table_def nth_list_update)
    ultimately show ?thesis using e typed_free [OF t] None by simp
  next
    case (Some h)
    then have e: "v = HCALL_CODE_USED" "s' = s" using r lt by (auto simp: register_hypercall_def)
    have "hc \<in> registered ?T" using typed_free [OF t, of hc] Some by simp
    moreover have "HCALL_CODE_USED <s (0 :: u32)" by (simp add: sless_neg_iff)
    ultimately show ?thesis using e t by (simp add: insert_absorb)
  qed
qed

lemma register_all_table:
  "register_all hs s = (d, s') \<Longrightarrow> typed_table (hypercall_table s) \<Longrightarrow> \<forall>(h, c)\<in>set hs. c = hcall_code h \<Longrightarrow>
   typed_table (hypercall_table s') \<and> registered (hypercall_table s) \<subseteq> registered (hypercall_table s') \<and>
   registered (hypercall_table s') \<subseteq> registered (hypercall_table s) \<union> fst ` set hs \<and>
   (distinct (map fst hs) \<and> fst ` set hs \<inter> registered (hypercall_table s) = {} \<longrightarrow>
     d \<and> registered (hypercall_table s') = registered (hypercall_table s) \<union> fst ` set hs)"
proof (induction hs s rule: register_all.induct)
  case (2 h code rest s)
  obtain v s1 where r: "register_hypercall h code s = (v, s1)" by fastforce
  have code: "code = hcall_code h" and rest: "\<forall>(h, c)\<in>set rest. c = hcall_code h" using "2.prems"(3) by simp_all
  note t = register_hypercall_table [OF "2.prems"(2) r [unfolded code]]
  show ?case
  proof (cases "v <s 0")
    case True
    then show ?thesis using "2.prems"(1) r t by auto
  next
    case False
    then have s': "register_all rest s1 = (d, s')" using "2.prems"(1) r by simp
    from "2.IH" [OF r [symmetric] refl False s' _ rest] t show ?thesis by auto
  qed
qed auto

lemma register_interrupt_table: "register_interrupt ih s = (off, s') \<Longrightarrow> hypercall_table s' = hypercall_table s"
proof -
  have "register_interrupt_loop i ih s = (off, s') \<Longrightarrow> hypercall_table s' = hypercall_table s" for i
  proof (induction i ih s rule: register_interrupt_loop.induct)
    case (1 i ih s)
    from "1.prems" show ?case
      by (subst (asm) register_interrupt_loop.simps) (auto split: if_splits dest: "1.IH" [rotated 2])
  qed
  then show "register_interrupt ih s = (off, s') \<Longrightarrow> hypercall_table s' = hypercall_table s"
    by (simp add: register_interrupt_def)
qed

lemma fill_table: "fill_vmconf_p is s = Some s' \<Longrightarrow> hypercall_table s' = hypercall_table s"
proof (induction "is" arbitrary: s)
  case (Cons i "is")
  then obtain c where "fill_vmconf_p is (s\<lparr>vmconf_p := (vmconf_p s)[i := Some c]\<rparr>) = Some s'" by auto
  from Cons.IH [OF this] show ?case by simp
qed simp

lemma redirect_vm_table: "redirect_vm p off v j n irqs s = Some (n', s') \<Longrightarrow> hypercall_table s' = hypercall_table s"
proof (induction irqs arbitrary: j n s)
  case (Cons irq irqs)
  then obtain s1 x where "redirect_vm p off v (Suc j) (n + 1) irqs (upd_mach (config_irq irq off) (s\<lparr>imaps := x\<rparr>))
      = Some (n', s')"
    by (auto simp: Let_def split: if_splits)
  from Cons.IH [OF this] show ?case by (simp add: upd_mach_def)
qed simp

lemma redirect_vms_table: "redirect_vms p off n is s = Some s' \<Longrightarrow> hypercall_table s' = hypercall_table s"
proof (induction "is" arbitrary: n s)
  case (Cons i "is")
  then obtain v c n1 s1 where "redirect_vm p off v 0 n (interrupt_redirect (VMCONF s ! c)) s = Some (n1, s1)"
    "redirect_vms p off n1 is s1 = Some s'" by auto
  then show ?case using Cons.IH redirect_vm_table by metis
qed simp

text \<open>What an initialiser adds to the table.\<close>

definition adds :: "hcall list \<Rightarrow> hcall option list \<Rightarrow> hcall option list \<Rightarrow> bool" where
  "adds hs tab tab' \<longleftrightarrow> typed_table tab' \<and> registered tab \<subseteq> registered tab' \<and>
     registered tab' \<subseteq> registered tab \<union> set hs"

lemma redirect_init_table:
  assumes run: "interrupt_redirect_init s = Some s'" and t: "typed_table (hypercall_table s)"
  shows "adds [H_reenable_interrupt] (hypercall_table s) (hypercall_table s')"
proof -
  obtain sz where sz: "count_redirects [0..<length (VMCONF s)] (interrupt_mapping_sz s) s = Some sz"
    using run by (auto simp: interrupt_redirect_init_def Let_def)
  let ?s0 = "s\<lparr>interrupt_mapping_sz := sz\<rparr>"
  obtain off s1 where r1: "register_interrupt I_interrupt_injection ?s0 = (off, s1)" by fastforce
  obtain r s2 where r2: "register_hypercall H_reenable_interrupt HCALL_REENABLE_INTERRUPT s1 = (r, s2)" by fastforce
  have t1: "hypercall_table s1 = hypercall_table s" using register_interrupt_table [OF r1] by simp
  have "typed_table (hypercall_table s1)" "register_hypercall H_reenable_interrupt (hcall_code H_reenable_interrupt) s1 = (r, s2)"
    using t t1 r2 by simp_all
  from register_hypercall_table [OF this] t1
  have a: "adds [H_reenable_interrupt] (hypercall_table s) (hypercall_table s2)" by (auto simp: adds_def)
  have z: "adds [H_reenable_interrupt] (hypercall_table s) (hypercall_table s)" using t by (auto simp: adds_def)
  consider "sz = 0" | "0 < sz" "r <s 0" | "0 < sz" "\<not> r <s 0" using word_gt_0 [of sz] by blast
  then show ?thesis
  proof cases
    case 1
    then show ?thesis using run sz z by (auto simp: interrupt_redirect_init_def Let_def)
  next
    case 2
    then show ?thesis using run sz a r1 r2 by (auto simp: interrupt_redirect_init_def Let_def)
  next
    case 3
    obtain s3 p where m: "k_malloc (sz * SIZEOF_interrupt_mapping) s2 = Some (s3, p)"
      using 3 run sz r1 r2 by (auto simp: interrupt_redirect_init_def Let_def)
    obtain n s4 where s4: "redirect_vms p off 0 [0..<n] s4 = Some s'"
      "s4 = (if p = NULL then s3\<lparr>interrupt_mapping_list := p\<rparr>
             else s3\<lparr>interrupt_mapping_list := p, imaps := (imaps s3)(p \<mapsto> replicate (unat sz) blank_mapping)\<rparr>)"
      using 3 run sz r1 r2 m by (cases "p = NULL") (auto simp: interrupt_redirect_init_def Let_def)
    have "hypercall_table s3 = hypercall_table s2" using m by (auto simp: k_malloc_def)
    then have "hypercall_table s' = hypercall_table s2" using redirect_vms_table [OF s4(1)] s4(2) by simp
    then show ?thesis using a by simp
  qed
qed

lemma run_initcall_table:
  assumes run: "run_initcall d s = Some s'" and t: "typed_table (hypercall_table s)"
  shows "adds (provides d) (hypercall_table s) (hypercall_table s') \<and>
    (d \<noteq> D_interrupt_redirect_init \<and> set (provides d) \<inter> registered (hypercall_table s) = {} \<longrightarrow>
       registered (hypercall_table s') = registered (hypercall_table s) \<union> set (provides d))"
proof -
  have same: ?thesis if "provides d = []" "hypercall_table s' = hypercall_table s"
    using that t by (simp add: adds_def)
  have all: ?thesis if "register_all hs s = (b, s1)" "\<forall>(h, c)\<in>set hs. c = hcall_code h" "map fst hs = provides d"
      "hypercall_table s' = hypercall_table s1" "distinct (provides d)" for hs b s1
    using register_all_table [OF that(1) t that(2)] that(3-5) by (auto simp: adds_def simp flip: set_map)
  show ?thesis
  proof (cases d)
    case D_interrupt_init
    then show ?thesis using run by (intro same) (auto simp: upd_mach_def)
  next
    case D_sw1_button_interrupt_init
    obtain off s1 where r: "register_interrupt I_sw1_button_handler (upd_mach (sfr_write (SFR_BASE + 0x60158) (push_bit 12 1))
        (upd_mach (sfr_write (SFR_BASE + 0x60118) (push_bit 12 1)) s)) = (off, s1)" by fastforce
    then have "hypercall_table s1 = hypercall_table s" using register_interrupt_table [OF r] by (simp add: upd_mach_def)
    then show ?thesis
      using run D_sw1_button_interrupt_init r
      by (intro same) (auto simp: sw1_button_interrupt_init_def upd_mach_def Let_def)
  next
    case D_intervm_init
    obtain b s1 where r: "register_all [(H_get_vm_id, HCALL_GET_VM_ID), (H_intervm_send_msg, HCALL_IPC_SEND_MSG),
     (H_intervm_recv_msg, HCALL_IPC_RECV_MSG), (H_guest_is_up, HCALL_GUEST_UP)] s = (b, s1)" by fastforce
    show ?thesis
      using run D_intervm_init r by (intro all [OF r]) (auto simp: intervm_init_def simp del: register_all.simps)
  next
    case D_virtual_io_init
    obtain b s1 where r: "register_all [(H_write_address, HCALL_WRITE_ADDRESS), (H_read_address, HCALL_READ_ADDRESS)] s
      = (b, s1)" by fastforce
    show ?thesis
      using run D_virtual_io_init r fill_table
      by (intro all [OF r]) (auto simp: virtual_io_init_def simp del: register_all.simps split: if_splits)
  next
    case D_interrupt_redirect_init
    then show ?thesis using redirect_init_table [OF _ t] run by simp
  next
    case D_flash_puf_init
    obtain b s1 where r: "register_all [(H_flash_read, HCALL_FLASH_READ), (H_flash_write, HCALL_FLASH_WRITE)] s = (b, s1)"
      by fastforce
    show ?thesis
      using run D_flash_puf_init r by (intro all [OF r]) (auto simp: flash_puf_init_def simp del: register_all.simps)
  next
    case D_vm_update_init
    obtain b s1 where r: "register_all [(H_update_chosen_vm, HCALL_UPDATE_VM_ID),
     (H_get_allowed_vm, HCALL_UPDATE_GET_ALLOWED)] s = (b, s1)" by fastforce
    show ?thesis
      using run D_vm_update_init r by (intro all [OF r]) (auto simp: vm_update_init_def simp del: register_all.simps)
  next
    case D_remote_connection_init
    obtain b s1 where r: "register_all [(H_get_owned_list, HCALL_GET_OWNED_LIST)] s = (b, s1)" by fastforce
    show ?thesis
      using run D_remote_connection_init r
      by (intro all [OF r]) (auto simp: remote_connection_init_def simp del: register_all.simps)
  qed
qed

lemma drivers_table:
  "drivers_initialization ds s = Some s' \<Longrightarrow> typed_table (hypercall_table s) \<Longrightarrow> distinct ds \<Longrightarrow>
   (\<forall>d\<in>set ds. set (provides d) \<inter> registered (hypercall_table s) = {}) \<Longrightarrow>
   typed_table (hypercall_table s') \<and>
   registered (hypercall_table s') \<subseteq> registered (hypercall_table s) \<union> (\<Union>d\<in>set ds. set (provides d)) \<and>
   registered (hypercall_table s) \<subseteq> registered (hypercall_table s') \<and>
   (\<Union>d\<in>set ds - {D_interrupt_redirect_init}. set (provides d)) \<subseteq> registered (hypercall_table s')"
proof (induction ds arbitrary: s)
  case (Cons d ds)
  obtain s1 where s1: "run_initcall d s = Some s1" "drivers_initialization ds s1 = Some s'" using Cons.prems(1) by auto
  note r = run_initcall_table [OF s1(1) Cons.prems(2)]
  have "set (provides d') \<inter> registered (hypercall_table s1) = {}" if "d' \<in> set ds" for d'
  proof -
    have "d' \<noteq> d" using Cons.prems(3) that by auto
    then have "set (provides d') \<inter> set (provides d) = {}" by (rule provides_disjoint)
    moreover have "registered (hypercall_table s1) \<subseteq> registered (hypercall_table s) \<union> set (provides d)"
      using r by (simp add: adds_def)
    moreover have "set (provides d') \<inter> registered (hypercall_table s) = {}" using Cons.prems(4) that by simp
    ultimately show ?thesis by blast
  qed
  moreover have "typed_table (hypercall_table s1)" using r by (simp add: adds_def)
  ultimately have "typed_table (hypercall_table s') \<and>
     registered (hypercall_table s') \<subseteq> registered (hypercall_table s1) \<union> (\<Union>d\<in>set ds. set (provides d)) \<and>
     registered (hypercall_table s1) \<subseteq> registered (hypercall_table s') \<and>
     (\<Union>d\<in>set ds - {D_interrupt_redirect_init}. set (provides d)) \<subseteq> registered (hypercall_table s')"
    using Cons.IH [OF s1(2)] Cons.prems(3) by auto
  moreover have "d \<noteq> D_interrupt_redirect_init \<Longrightarrow> set (provides d) \<subseteq> registered (hypercall_table s1)"
    using r Cons.prems(4) by auto
  ultimately show ?case using r unfolding adds_def by auto
qed simp

lemma start_timer_table: "hypercall_table (start_timer s) = hypercall_table s"
proof -
  obtain off s1 where r: "register_interrupt I_timer_interrupt_handler s = (off, s1)" by fastforce
  from register_interrupt_table [OF this] r show ?thesis
    by (simp add: start_timer_def upd_mach_def Let_def case_prod_beta)
qed

subsection \<open>The running kernel leaves the table alone\<close>

fun table_of :: "outcome \<Rightarrow> hcall option list" where
  "table_of (Running s) = hypercall_table s"
| "table_of (Halted s) = hypercall_table s"

lemma k_step_table: "k_step s s' \<Longrightarrow> hypercall_table s' = hypercall_table s"
  by (simp add: k_step_def k_frame_def)

lemma timer_table: "timer_interrupt_handler s = Some s' \<Longrightarrow> hypercall_table s' = hypercall_table s"
proof -
  assume t: "timer_interrupt_handler s = Some s'"
  then obtain s1 where s1: "run_scheduler s = Some s1" by (auto simp: timer_interrupt_handler_def)
  have "hypercall_table s1 = hypercall_table s" using run_scheduler_frame [OF s1] by (simp add: k_frame_def)
  then show ?thesis
    using t s1 by (auto simp: timer_interrupt_handler_def upd_mach_def Let_def case_prod_beta split: if_splits)
qed

lemma kernel_step_table:
  "kernel_step r r' \<Longrightarrow> good rs ms tab r \<Longrightarrow> table_of r' = table_of r"
proof (induction rule: kernel_step.induct)
  case (guest s h)
  then show ?case by simp
next
  case (interrupt i s r)
  then obtain ih where ih: "run_handler ih s = Some r" by (auto simp: interrupt_vector_def split: if_splits)
  then show ?case
    using timer_table k_step_table [OF interrupt_injection_step] by (cases ih) auto
next
  case (exception s r)
  then have ctl: "\<forall>h. m_keep h (nvm_ctl s h)" by (simp add: kinv_at_def)
  show ?case
    using exception.hyps(2) k_step_table [OF guest_exit_step [OF _ ctl]]
    by (auto simp: general_exception_handler_def split: if_splits)
qed

lemma kernel_steps_table:
  "kernel_step\<^sup>*\<^sup>* r r' \<Longrightarrow> good rs ms tab r \<Longrightarrow> table_of r' = table_of r"
proof (induction rule: rtranclp_induct)
  case (step y z)
  then show ?case using kernel_step_table [OF step.hyps(2) kernel_steps_good [OF step.hyps(1)]] by simp
qed simp

lemma dispatch:
  assumes "typed_table (hypercall_table s)"
  shows "hc \<in> registered (hypercall_table s) \<Longrightarrow> getHypercallCode (mach s) = hcall_code hc \<Longrightarrow>
      hypercall_execution s = run_hcall hc s"
    and "(\<forall>hc\<in>registered (hypercall_table s). getHypercallCode (mach s) \<noteq> hcall_code hc) \<Longrightarrow>
      hypercall_execution s = Some (set_V0 HCALL_NOT_IMPLEMENTED s)"
proof -
  let ?c = "getHypercallCode (mach s)" and ?T = "hypercall_table s"
  show "hypercall_execution s = run_hcall hc s" if "hc \<in> registered ?T" "?c = hcall_code hc"
  proof -
    have "\<not> HCALL_TABLE_SIZE - 1 < hcall_code hc" by (cases hc) (simp_all add: HCALL_TABLE_SIZE_def)
    then show ?thesis using that by (simp add: hypercall_execution_def registered_def Let_def)
  qed
  show "hypercall_execution s = Some (set_V0 HCALL_NOT_IMPLEMENTED s)" if no: "\<forall>hc\<in>registered ?T. ?c \<noteq> hcall_code hc"
  proof (cases "HCALL_TABLE_SIZE - 1 < ?c")
    case False
    then have lt: "unat ?c < 30" by (simp add: HCALL_TABLE_SIZE_def word_less_nat_alt)
    have "?T ! unat ?c = None"
    proof (rule ccontr)
      assume "?T ! unat ?c \<noteq> None"
      then obtain h where h: "?T ! unat ?c = Some h" by blast
      then have "unat (hcall_code h) = unat ?c" using assms lt by (simp add: typed_table_def)
      then have "h \<in> registered ?T" "?c = hcall_code h" using h by (simp_all add: registered_def word_unat_eq_iff)
      with no show False by blast
    qed
    then show ?thesis using False by (simp add: hypercall_execution_def Let_def)
  qed (simp add: hypercall_execution_def Let_def)
qed

text \<open>From the boot of a cold machine, with an empty table, on: the calls that are served.\<close>

definition served :: "initcall list \<Rightarrow> hcall set \<Rightarrow> bool" where
  "served ds hs \<longleftrightarrow> hs \<subseteq> (\<Union>d\<in>set ds. set (provides d)) \<and>
     (\<Union>d\<in>set ds - {D_interrupt_redirect_init}. set (provides d)) \<subseteq> hs"

lemma boot_table:
  assumes c: "cold s" and hp: "heap_room hs sz r" "CREATE_COST * length (VMCONF s) < r"
    and empty: "hypercall_table s = replicate 30 None" and ds: "distinct ds"
    and run: "hyper_init hs sz ds s = Some (Running s')" and steps: "kernel_step\<^sup>*\<^sup>* (Running s') (Running s'')"
  shows "typed_table (hypercall_table s'') \<and> served ds (registered (hypercall_table s''))"
proof -
  obtain h where ll: "LowLevelProcInit (early_platform_init (mach s)) = (0, h)"
    using hyper_init_halted [OF run] .
  obtain s3 rs ms tab where s3: "kinv_at rs ms tab s3" "vcpu_executing_nd s3 = NULL" "hypercall_table s3 = hypercall_table s"
    "hyper_init hs sz ds s = map_option (\<lambda>s. Running (start_timer s)) (drivers_initialization ds s3)"
    using boot_kinv [OF c hp ll] boot_authentic [OF run] by blast
  then obtain s4 where s4: "drivers_initialization ds s3 = Some s4" "s' = start_timer s4"
    using run by (cases "drivers_initialization ds s3") auto
  have "b_step s3 s'" unfolding s4(2) by (rule b_step_trans [OF b_step_drivers [OF s4(1)] b_step_start_timer])
  then have "good rs ms tab (Running s')" using kinv_at_b_step [OF s3(1) _ s3(2)] by simp
  from kernel_steps_table [OF steps this] have same: "hypercall_table s'' = hypercall_table s4"
    using s4(2) start_timer_table by simp
  have e: "typed_table (hypercall_table s3)" "registered (hypercall_table s3) = {}"
    using s3(3) empty hcall_code_less by (simp_all add: typed_table_def registered_def)
  show ?thesis using drivers_table [OF s4(1) e(1) ds] e(2) unfolding same served_def by simp
qed

end
