(* ===== verification/GuestProps.thy ===== *)
theory GuestProps
  imports GuestMail GuestHeap HcallTable Examples
begin

text \<open>
  Properties of what a guest is given: the hypercalls it can make, and its run-time's interrupts, messages and heap
  (C26, C28, C34 and C40 among them).
\<close>

text \<open>C26: From the boot of a cold machine on, in every state the running kernel reaches, a hypercall runs exactly the
  call that its code stands for, provided that one of the linked drivers offers it; every other code is answered with
  \<open>HCALL_NOT_IMPLEMENTED\<close>. (Interrupt redirection offers its call only if the configuration redirects an interrupt.)\<close>

theorem hypercalls_dispatched:
  assumes "cold s" and "heap_room heap_start heap_size r" and "CREATE_COST * length (VMCONF s) < r"
    and "hypercall_table s = replicate 30 None" and "distinct drivers"
    and "hyper_init heap_start heap_size drivers s = Some (Running s')" and "kernel_step\<^sup>*\<^sup>* (Running s') (Running s'')"
  shows "\<exists>hs. hs \<subseteq> (\<Union>d\<in>set drivers. set (provides d)) \<and>
    (\<Union>d\<in>set drivers - {D_interrupt_redirect_init}. set (provides d)) \<subseteq> hs \<and>
    (\<forall>hc\<in>hs. getHypercallCode (mach s'') = hcall_code hc \<longrightarrow> hypercall_execution s'' = run_hcall hc s'') \<and>
    (getHypercallCode (mach s'') \<notin> hcall_code ` hs \<longrightarrow>
       hypercall_execution s'' = Some (set_V0 HCALL_NOT_IMPLEMENTED s''))"
proof -
  have t: "typed_table (hypercall_table s'')" "served drivers (registered (hypercall_table s''))"
    using boot_table [OF assms] by simp_all
  then have "\<forall>hc\<in>registered (hypercall_table s''). getHypercallCode (mach s'') \<noteq> hcall_code hc"
    if "getHypercallCode (mach s'') \<notin> hcall_code ` registered (hypercall_table s'')" using that by blast
  with t(2) dispatch [OF t(1)] show ?thesis unfolding served_def by blast
qed

theorem hypercalls_dispatched_witness:
  "\<exists>s'. hyper_init 0x80002000 0x10000 [D_intervm_init] ex_cold = Some (Running s') \<and>
     (let s'' = s'\<lparr>mach := (mach s')\<lparr>cp0 := (cp0 (mach s'))((8, 1) := 0x1000)\<rparr>\<rparr>
      in hypercall_execution s'' = intervm_send_msg s'')"
proof -
  obtain h where "LowLevelProcInit (early_platform_init (mach ex_cold)) = (0, h)" using ex_LowLevel by blast
  from boot_kinv [OF ex_is_cold ex_heap_room _ this ex_authentic, where ds = "[D_intervm_init]"] obtain s'
    where s': "hyper_init 0x80002000 0x10000 [D_intervm_init] ex_cold = Some (Running s')"
    by (auto simp: CREATE_COST_def ex_defs)
  let ?s = "s'\<lparr>mach := (mach s')\<lparr>cp0 := (cp0 (mach s'))((8, 1) := 0x1000)\<rparr>\<rparr>"
  have "guest_turn (mach s') (mach ?s)" by (simp add: guest_turn_def)
  then have "kernel_step (Running s') (Running (s'\<lparr>mach := mach ?s\<rparr>))" by (rule kernel_step.guest)
  then have st: "kernel_step\<^sup>*\<^sup>* (Running s') (Running ?s)" by simp
  have code: "getHypercallCode (mach ?s) = 2" by (simp add: getHypercallCode_def mfc0_def)
  obtain hs where "(\<Union>d\<in>set [D_intervm_init] - {D_interrupt_redirect_init}. set (provides d)) \<subseteq> hs"
    and run: "\<forall>hc\<in>hs. getHypercallCode (mach ?s) = hcall_code hc \<longrightarrow> hypercall_execution ?s = run_hcall hc ?s"
    using hypercalls_dispatched [OF ex_is_cold ex_heap_room _ _ _ s' st] by (auto simp: CREATE_COST_def ex_defs)
  then have "H_intervm_send_msg \<in> hs" by auto
  then have "hypercall_execution ?s = run_hcall H_intervm_send_msg ?s"
    using run code by (metis hcall_code.simps(3))
  then show ?thesis using s' by (simp add: Let_def)
qed




text \<open>C34: A virtual interrupt reaches its handlers: the guest's exception routine runs the registered handlers of the
  interrupts in the RIPL field of \<open>Cause\<close>, each once and in the order of their numbers, and it does not read past the table.\<close>

theorem guest_interrupts_dispatched:
  assumes "length (handlers s) = 10" and "\<forall>p s s'. call p s = Some s' \<longrightarrow> handlers s' = handlers s"
  shows "irq_handler handlers call cause s =
    run_handlers call [handlers s ! k. k \<leftarrow> [0..<8], bit cause (10 + k) \<and> handlers s ! k \<noteq> NULL] s"
proof -
  let ?ripl = "drop_bit 10 (cause AND 0x3FC00)"
  have m: "(0x3FC00 :: u32) = push_bit 10 (mask 8)" by (simp add: mask_eq_exp_minus_1)
  have b: "bit ?ripl k \<longleftrightarrow> k < 8 \<and> bit cause (10 + k)" for k
    unfolding m by (auto simp: bit_simps dest: bit_imp_le_length)
  have top: "\<forall>k\<ge>8. \<not> bit ?ripl k" using b by (metis not_less)
  have "irq_handler handlers call cause s = run_handlers call (pending_handlers (handlers s) 0 8 ?ripl) s"
    unfolding irq_handler_def by (rule irq_handler_loop_runs [OF assms(2) _ top]) (simp_all add: assms(1))
  moreover have "pending_handlers (handlers s) 0 8 ?ripl =
      [handlers s ! k. k \<leftarrow> [0..<8], bit cause (10 + k) \<and> handlers s ! k \<noteq> NULL]"
    unfolding pending_handlers_def b by (intro arg_cong [of _ _ concat] map_cong) auto
  ultimately show ?thesis by simp
qed

theorem guest_interrupts_dispatched_witness:
  "irq_handler (\<lambda>s. snd (interrupt_register 0x9D001000 GUEST_INTERVM_INT (replicate 10 0)))
     (\<lambda>p s. Some (s @ [p])) (push_bit 11 1) ([] :: ptr list) = Some [0x9D001000]"
proof -
  let ?tab = "snd (interrupt_register 0x9D001000 GUEST_INTERVM_INT (replicate 10 0))"
  have tab: "?tab = (replicate 10 0)[1 := 0x9D001000]"
    using interrupt_register_loop_found [of 0 1 "GUEST_INTERVM_INT" "replicate 10 0" "0x9D001000"]
    by (simp add: interrupt_register_def NUM_GUEST_INTERRUPTS_def bit_numeral_rec(1))
  have ks: "[0..<8] = [0, 1, 2, 3, 4, 5, 6, 7 :: nat]" by (simp add: upt_rec)
  have "[?tab ! k. k \<leftarrow> [0..<8], bit (push_bit 11 1 :: u32) (10 + k) \<and> ?tab ! k \<noteq> NULL] = [0x9D001000]"
    unfolding tab ks by (simp add: bit_simps)
  then show ?thesis
    using guest_interrupts_dispatched [of "\<lambda>s. ?tab" "[]" "\<lambda>p s. Some (s @ [p])" "push_bit 11 1"]
    by (simp add: tab)
qed

definition ex_gheap :: gheap where
  "ex_gheap = \<lparr>gmem = \<lambda>_. 0, krnl_free = 0, krnl_heap = 0\<rparr>"

text \<open>C40: Without releases the guests' allocator hands out adjacent blocks, each with its header, in the order of the
  requests; it never refuses one, however small the heap: the size of the heap does not occur in the condition.\<close>

theorem guest_heap_grows:
  assumes "h = unat ((heap_start + 8) AND 0xFFFFFFFC)" and "8 \<le> h"
    and "end_of h (map (\<lambda>sz. unat (align4 sz)) szs) + 8 \<le> 2 ^ 32"
  shows "\<exists>g'. g_mallocs szs (g_init_mem heap_start heap_size g) = Some (adjacent h (map (\<lambda>sz. unat (align4 sz)) szs), g')"
proof -
  have "h + 8 \<le> 2 ^ 32" using assms(3) end_of_ge [of h "map (\<lambda>sz. unat (align4 sz)) szs"] by linarith
  from g_mallocs_grown [OF init_grown(1) [OF assms(1,2) this], of szs] assms(3) show ?thesis by auto
qed

theorem guest_heap_grows_witness:
  "\<exists>g'. g_mallocs [5, 0x100000] (g_init_mem 0x80000000 64 ex_gheap) = Some ([0x80000010, 0x80000020], g')"
  using guest_heap_grows [where h = "0x80000008" and heap_start = "0x80000000" and szs = "[5, 0x100000]"] by (simp add: align4_def)

text \<open>Releasing the second of two blocks makes the allocator hang: no later \<open>malloc\<close> returns, because the last free
  block leads back to the second, which is free too now.\<close>

theorem guest_heap_hangs:
  assumes "h = unat ((heap_start + 8) AND 0xFFFFFFFC)" and "8 \<le> h"
    and "h + unat (align4 a) + unat (align4 b) + 24 \<le> 2 ^ 32"
  shows "\<exists>p q g'. g_mallocs [a, b] (g_init_mem heap_start heap_size g) = Some ([p, q], g') \<and>
    (\<forall>c. g_malloc c (g_free q g') = None)"
proof -
  let ?ss = "map (\<lambda>sz. unat (align4 sz)) [a, b]"
  have b: "h + 8 \<le> 2 ^ 32" "end_of h ?ss + 8 \<le> 2 ^ 32" using assms(3) by simp_all
  obtain g' where g': "g_mallocs [a, b] (g_init_mem heap_start heap_size g) = Some (adjacent h ?ss, g')" "grown h ?ss g'"
    using g_mallocs_grown [OF init_grown(1) [OF assms(1,2) b(1)], of "[a, b]"] b(2)
    unfolding end_of.simps append_Nil by blast
  have "g_malloc c (g_free (of_nat (h + unat (align4 a) + 16)) g') = None" for c
    using free_second_hangs [of h "unat (align4 a)" "unat (align4 b)" g'] g'(2) assms(3) by simp
  moreover have "adjacent h ?ss = [of_nat (h + 8), of_nat (h + unat (align4 a) + 16)]"
    by (simp add: ac_simps del: of_nat_unat of_nat_add)
  ultimately show ?thesis using g'(1) by metis
qed

theorem guest_heap_hangs_witness:
  "\<exists>p q g'. g_mallocs [16, 32] (g_init_mem 0x80000000 0x10000 ex_gheap) = Some ([p, q], g') \<and> g_malloc 4 (g_free q g') = None"
  using guest_heap_hangs [where h = "0x80000008" and heap_start = "0x80000000" and a = 16 and b = 32] by (fastforce simp: align4_def)

end
