(* ===== verification/EccSign.thy ===== *)
theory EccSign
  imports EcdsaSpec
begin

text \<open>
  Signing and key generation: the multiplication by a scalar and with it every function that signs or makes a key returns
  (\<open>EccPoint_mult_returns\<close> and the lemmas after it), the random numbers are in range, and a signature satisfies the
  equation of the standard (\<open>sign_equation\<close>).
\<close>

subsection \<open>The multiplication returns\<close>

definition pair_ok :: "vli \<times> vli \<Rightarrow> bool" where
  "pair_ok p \<longleftrightarrow> length (fst p) = 8 \<and> length (snd p) = 8"

definition pairs_ok :: "(vli \<times> vli) list \<Rightarrow> bool" where
  "pairs_ok R \<longleftrightarrow> length R = 2 \<and> list_all pair_ok R"

lemma XYcZ_add_pairs:
  assumes "length X1 = 8" and "length Y1 = 8" and "length X2 = 8" and "length Y2 = 8"
  shows "pair_ok (fst (XYcZ_add X1 Y1 X2 Y2 curve_secp256k1)) \<and> pair_ok (snd (XYcZ_add X1 Y1 X2 Y2 curve_secp256k1))"
    and "pair_ok (fst (XYcZ_addC X1 Y1 X2 Y2 curve_secp256k1)) \<and> pair_ok (snd (XYcZ_addC X1 Y1 X2 Y2 curve_secp256k1))"
  using assms by (auto simp: pair_ok_def XYcZ_add_def XYcZ_addC_def Let_def len8)

lemma pairs_ok_nth: "pairs_ok R \<Longrightarrow> i < 2 \<Longrightarrow> pair_ok (R ! i)"
  by (simp add: pairs_ok_def list_all_length)

lemma list_all_update: "list_all Q xs \<Longrightarrow> Q a \<Longrightarrow> list_all Q (xs[i := a])"
  by (auto simp: list_all_iff dest: subsetD [OF set_update_subset_insert])

lemma ladder_pair_ok:
  assumes "pairs_ok R" and "nb < 2" and "f = XYcZ_add \<or> f = XYcZ_addC"
  shows "pairs_ok (ladder_pair f nb curve_secp256k1 R)"
proof -
  obtain X1 Y1 X2 Y2 where r: "R ! (1 - nb) = (X1, Y1)" "R ! nb = (X2, Y2)" by (metis prod.collapse)
  have "pair_ok (X1, Y1)" "pair_ok (X2, Y2)"
    using pairs_ok_nth [OF assms(1), of "1 - nb"] pairs_ok_nth [OF assms(1,2)] r assms(2) by simp_all
  then have l: "length X1 = 8" "length Y1 = 8" "length X2 = 8" "length Y2 = 8" by (simp_all add: pair_ok_def)
  have "pair_ok (fst (f X1 Y1 X2 Y2 curve_secp256k1)) \<and> pair_ok (snd (f X1 Y1 X2 Y2 curve_secp256k1))"
    using XYcZ_add_pairs [OF l] assms(3) by auto
  then show ?thesis
    using assms(1) unfolding ladder_pair_def r
    by (auto simp: pairs_ok_def Let_def split: prod.splits intro!: list_all_update)
qed

lemma scalar_nb_less: "scalar_nb s i < 2" "1 - scalar_nb s i < 2"
  by (simp_all add: scalar_nb_def)

lemma ladder_ok: "pairs_ok R \<Longrightarrow> pairs_ok (ladder scalar curve_secp256k1 i R)"
  by (induction i arbitrary: R) (simp_all add: ladder_pair_ok scalar_nb_less Let_def)

lemma initial_double_ok:
  assumes "length X = 8" and "length Y = 8" and "\<And>w. Z = Some w \<Longrightarrow> length w = 8"
    and "XYcZ_initial_double X Y Z curve_secp256k1 = (A, B)"
  shows "pairs_ok [B, A]"
proof -
  define z where "z = (case Z of Some w \<Rightarrow> uECC_vli_set w 8 | None \<Rightarrow> (uECC_vli_clear 8)[0 := 1])"
  have z: "length z = 8" using assms(3) clear_one(1) by (cases Z) (simp_all add: z_def)
  obtain X1 Y1 where a: "apply_z X Y z curve_secp256k1 = (X1, Y1)" by (cases "apply_z X Y z curve_secp256k1")
  have l1: "length X1 = 8" "length Y1 = 8" using apply_z_coord [OF assms(1,2) z a] by simp_all
  obtain X3 Y3 z3 where d: "double_jacobian_secp256k1 X1 Y1 z curve_secp256k1 = (X3, Y3, z3)"
    by (cases "double_jacobian_secp256k1 X1 Y1 z curve_secp256k1")
  note l3 = double_jacobian_length [OF l1 z d]
  obtain X4 Y4 where b: "apply_z X Y z3 curve_secp256k1 = (X4, Y4)" by (cases "apply_z X Y z3 curve_secp256k1")
  have l4: "length X4 = 8" "length Y4 = 8" using apply_z_coord [OF assms(1,2) _ b] l3 by simp_all
  have "A = (X3, Y3)" "B = (X4, Y4)"
    using assms(4) set_coord [OF assms(1)] set_coord [OF assms(2)] a [unfolded z_def] b d [unfolded z_def]
    by (cases Z; simp add: XYcZ_initial_double_def)+
  then show ?thesis using l3 l4 by (simp add: pairs_ok_def pair_ok_def)
qed

lemma EccPoint_mult_returns:
  assumes "length point = 16" and "\<And>w. Z = Some w \<Longrightarrow> length w = 8"
  shows "\<exists>r. EccPoint_mult point scalar Z num_bits curve_secp256k1 = Some r \<and> coord_point r"
proof -
  let ?c = curve_secp256k1
  obtain R1 R0 where i: "XYcZ_initial_double (take 8 point) (drop 8 point) Z ?c = (R1, R0)"
    by (cases "XYcZ_initial_double (take 8 point) (drop 8 point) Z ?c")
  have i0: "pairs_ok [R0, R1]" using initial_double_ok [OF _ _ assms(2) i] assms(1) by simp
  define nb where "nb = scalar_nb scalar 0"
  have nb: "nb < 2" "1 - nb < 2" using scalar_nb_less by (simp_all add: nb_def)
  define R where "R = ladder_pair XYcZ_addC nb ?c (ladder scalar ?c (num_bits - 2) [R0, R1])"
  have R: "pairs_ok R" unfolding R_def using ladder_pair_ok [OF ladder_ok [OF i0] nb(1)] by simp
  have Rl: "length (fst (R ! k)) = 8" "length (snd (R ! k)) = 8" if "k < 2" for k
    using pairs_ok_nth [OF R that] by (simp_all add: pair_ok_def)
  define z where "z = uECC_vli_modMult_fast (uECC_vli_modMult_fast
    (uECC_vli_modSub (fst (R ! 1)) (fst (R ! 0)) (curve_p ?c) 8) (snd (R ! (1 - nb))) ?c) (take 8 point) ?c"
  have z: "length z = 8" using Rl nb assms(1) by (simp add: z_def len8)
  obtain w where w: "uECC_vli_modInv z (curve_p ?c) 8 = Some w" "length w = 8" using modInv_fe [OF z] by auto
  define w' where "w' = uECC_vli_modMult_fast (uECC_vli_modMult_fast w (drop 8 point) ?c) (fst (R ! (1 - nb))) ?c"
  have w': "length w' = 8" using w(2) assms(1) Rl nb by (simp add: w'_def len8)
  define Q where "Q = ladder_pair XYcZ_add (1 - nb) ?c R"
  have Q: "pair_ok (Q ! 0)" unfolding Q_def using pairs_ok_nth [OF ladder_pair_ok [OF R nb(2)], of XYcZ_add 0] by simp
  obtain X Y where a: "apply_z (fst (Q ! 0)) (snd (Q ! 0)) w' ?c = (X, Y)"
    by (cases "apply_z (fst (Q ! 0)) (snd (Q ! 0)) w' ?c")
  have xy: "coord X" "coord Y" using apply_z_coord [OF _ _ w' a] Q by (simp_all add: pair_ok_def)
  have sp: "uECC_vli_set point 8 = take 8 point" "uECC_vli_set (drop 8 point) 8 = drop 8 point"
    using assms(1) by (simp_all add: uECC_vli_set_def)
  have "EccPoint_mult point scalar Z num_bits ?c = Some (X @ Y)"
    using w(1) a unfolding z_def w'_def Q_def EccPoint_mult_def
    by (simp add: Let_def sp i nb_def [symmetric] R_def [symmetric] xy)
  then show ?thesis using xy by (simp add: coord_point_def)
qed

subsection \<open>Random numbers\<close>

text \<open>The generator returns as many bytes as it is asked for.\<close>

definition rng_ok :: "'g rng \<Rightarrow> bool" where
  "rng_ok rng \<longleftrightarrow> (\<forall>f g n bytes g'. rng = Some f \<longrightarrow> f g n = (Some bytes, g') \<longrightarrow> length bytes = n)"

lemma native_words_length: "length bs = 4 * n \<Longrightarrow> length (native_words bs) = n"
proof (induction n arbitrary: bs)
  case (Suc n)
  then have "length bs = Suc (Suc (Suc (Suc (4 * n))))" by simp
  then obtain a b c d bs' where "bs = a # b # c # d # bs'" "length bs' = 4 * n"
    unfolding length_Suc_conv by blast
  then show ?case using Suc.IH by simp
qed simp

lemma random_int_range:
  assumes "rng_ok rng" and "length upper = n" and "uECC_generate_random_int rng upper n g = (Some w, g')"
  shows "length w = n" and "0 < vli_val w" and "vli_val w < vli_val upper"
proof -
  obtain f where f: "rng = Some f" "random_int_tries uECC_RNG_MAX_TRIES f upper n g = (Some w, g')"
    using assms(3) by (auto simp: uECC_generate_random_int_def split: option.splits)
  have ok: "f g n = (Some bytes, g') \<Longrightarrow> length bytes = n" for g n bytes g'
    using assms(1) f(1) unfolding rng_ok_def by blast
  have "random_int_tries k f upper n g = (Some w, g') \<Longrightarrow> length w = n \<and> 0 < vli_val w \<and> vli_val w < vli_val upper" for k g
  proof (induction k arbitrary: g)
    case (Suc k)
    obtain b g1 where b: "f g (n * 4) = (b, g1)" by (cases "f g (n * 4)")
    then obtain bs where bs: "b = Some bs" using Suc.prems by (cases b) simp_all
    define r where "r = (native_words bs)[n - 1 := native_words bs ! (n - 1) AND drop_bit (n * 32 - uECC_vli_numBits upper n) (- 1)]"
    have r: "length r = n" using ok [of g "n * 4" bs g1] b bs native_words_length [of bs n] by (simp add: r_def)
    have e: "(if \<not> uECC_vli_isZero r n \<and> uECC_vli_cmp upper r n = 1 then (Some r, g1) else random_int_tries k f upper n g1)
      = (Some w, g')" 
      using Suc.prems unfolding r_def by (simp only: random_int_tries.simps b bs prod.case option.case Let_def)
    show ?case
    proof (cases "\<not> uECC_vli_isZero r n \<and> uECC_vli_cmp upper r n = 1")
      case True
      then have "w = r" using e by simp
      moreover have "0 < vli_val r" using True isZero_iff [OF r] by simp
      moreover have "vli_val r < vli_val upper" using True cmp_sgn [OF assms(2) r] by (auto simp: sgn_if split: if_splits)
      ultimately show ?thesis using r by simp
    next
      case False
      have "random_int_tries k f upper n g1 = (Some w, g')" using e unfolding if_not_P [OF False] .
      then show ?thesis by (rule Suc.IH)
    qed
  qed simp
  then show "length w = n" and "0 < vli_val w" and "vli_val w < vli_val upper" using f(2) by blast+
qed

lemma blinding_range:
  assumes "rng_ok rng" and "sign_blinding rng curve_secp256k1 g = (Some w, g')"
  shows "length w = 8" and "0 < vli_val w" and "vli_val w < N_VAL"
proof -
  have one: "(0::nat) < 1" "1 < N_VAL" using odd_moduli(4) by simp_all
  have "length w = 8 \<and> 0 < vli_val w \<and> vli_val w < N_VAL"
  proof (cases rng)
    case None
    then have "w = (uECC_vli_clear 8)[0 := 1]" using assms(2) by (simp add: sign_blinding_def)
    then show ?thesis using clear_one one(2) by simp
  next
    case (Some f)
    then have "uECC_generate_random_int rng (curve_n curve_secp256k1) 8 g = (Some w, g')"
      using assms(2) by (simp add: sign_blinding_def)
    from random_int_range [OF assms(1) curve_fields(5) this] show ?thesis by simp
  qed
  then show "length w = 8" and "0 < vli_val w" and "vli_val w < N_VAL" by simp_all
qed

subsection \<open>Signing\<close>

text \<open>No signature comes of a nonce out of range, of a point with first coordinate 0, and without a blinding factor.\<close>

definition sign_refused :: "'g rng \<Rightarrow> vli \<Rightarrow> 'g \<Rightarrow> bool" where
  "sign_refused rng k g \<longleftrightarrow> vli_val k = 0 \<or> N_VAL \<le> vli_val k \<or> fst (sign_blinding rng curve_secp256k1 g) = None \<or>
     (\<exists>scalar p. EccPoint_mult (curve_G curve_secp256k1) scalar None 257 curve_secp256k1 = Some p \<and> vli_val (take 8 p) = 0)"

text \<open>Otherwise the parts of the signature before they are written: \<open>r\<close>, as the point's first coordinate, and \<open>s\<close>.\<close>

lemma sign_with_k_cases:
  assumes "rng_ok rng" and "length k = 8" and "32 \<le> length key" and "min 32 hs \<le> length hash"
  shows "\<exists>g'. (uECC_sign_with_k rng key hash hs k curve_secp256k1 g = Some (None, g') \<and> sign_refused rng k g) \<or>
    (\<exists>r t u s. coord r \<and> length t = 8 \<and> 0 < vli_val t \<and> vli_val t < N_VAL \<and> (rng = None \<longrightarrow> vli_val t = 1) \<and>
      0 < vli_val k \<and> vli_val k < N_VAL \<and>
      u * (vli_val k * vli_val t mod N_VAL) mod N_VAL = gcd (vli_val k * vli_val t mod N_VAL) N_VAL mod N_VAL \<and>
      length s = 8 \<and> vli_val s < N_VAL \<and>
      vli_val s = (digest hash hs + vli_val r * be_val (take 32 key)) * (u * vli_val t) mod N_VAL \<and>
      uECC_sign_with_k rng key hash hs k curve_secp256k1 g =
        Some (Some (uECC_vli_nativeToBytes 32 r @ uECC_vli_nativeToBytes 32 s), g'))"
proof (cases "uECC_vli_isZero k 8 \<or> uECC_vli_cmp (curve_n curve_secp256k1) k 8 \<noteq> 1")
  case True
  then show ?thesis
    using isZero_iff [OF assms(2)] cmp_sgn [OF curve_fields(5) assms(2)]
    by (auto simp: uECC_sign_with_k_def sign_refused_def sgn_if split: if_splits)
next
  case False
  let ?c = curve_secp256k1 let ?n = "curve_n curve_secp256k1"
  have k: "0 < vli_val k" "vli_val k < N_VAL"
    using False isZero_iff [OF assms(2)] cmp_sgn [OF curve_fields(5) assms(2)] by (auto simp: sgn_if split: if_splits)
  obtain k0 k1 cy where rk: "regularize_k k ?c = (k0, k1, cy)" by (cases "regularize_k k ?c")
  obtain p where p: "EccPoint_mult (curve_G ?c) (if cy then k0 else k1) None 257 ?c = Some p" "coord_point p"
    using EccPoint_mult_returns [of "curve_G ?c" None] by auto
  obtain b g' where b: "sign_blinding rng ?c g = (b, g')" by (cases "sign_blinding rng ?c g")
  show ?thesis
  proof (cases "uECC_vli_isZero p 8 \<or> b = None")
    case True
    have "uECC_vli_isZero p 8 = uECC_vli_isZero (take 8 p) 8" by (simp add: uECC_vli_isZero_def)
    also have "\<dots> \<longleftrightarrow> vli_val (take 8 p) = 0" using p(2) by (intro isZero_iff) (simp add: coord_point_def)
    finally have "sign_refused rng k g" using True p(1) b unfolding sign_refused_def by auto
    then show ?thesis using True False rk p(1) b by (cases "uECC_vli_isZero p 8") (auto simp: uECC_sign_with_k_def)
  next
    case nz: False
    then obtain t where t: "b = Some t" by auto
    have tr: "length t = 8" "0 < vli_val t" "vli_val t < N_VAL" using blinding_range [OF assms(1)] b t by auto
    have t1: "rng = None \<longrightarrow> vli_val t = 1" using b t clear_one by (auto simp: sign_blinding_def)
    define r where "r = take 8 p"
    have r: "coord r" "length r = 8" "uECC_vli_set p 8 = r" "take 8 p = r"
      using p(2) by (simp_all add: r_def coord_point_def uECC_vli_set_def)
    define kt where "kt = uECC_vli_modMult k t ?n 8"
    note kt = modMult_val [OF full_size_n assms(2) tr(1), folded kt_def]
    obtain u where u: "uECC_vli_modInv kt ?n 8 = Some u" "length u = 8"
      "vli_val u * vli_val kt mod N_VAL = gcd (vli_val kt) N_VAL mod N_VAL"
      using modInv_total [OF kt(1) curve_fields(5)] odd_moduli(2,4) by auto
    define ki where "ki = uECC_vli_modMult u t ?n 8"
    note ki = modMult_val [OF full_size_n u(2) tr(1), folded ki_def]
    define d where "d = uECC_vli_bytesToNative key 32"
    have d: "length d = 8" "vli_val d = be_val (take 32 key)"
      using bytesToNative_val [OF assms(3)] by (simp_all add: d_def)
    define e where "e = bits2int hash hs ?c"
    have e: "length e = 8" "vli_val e = digest hash hs"
      using bits2int_val [OF assms(4)] by (simp_all add: e_def digest_def)
    define s1 where "s1 = uECC_vli_modMult d r ?n 8"
    note s1 = modMult_val [OF full_size_n d(1) r(2), folded s1_def]
    have s1n: "vli_val s1 < N_VAL" using s1(2) odd_moduli(4) by simp
    define s2 where "s2 = uECC_vli_modAdd e s1 ?n 8"
    have "vli_val e + vli_val s1 < vli_val ?n + 2 ^ (32 * 8)" using vli_val_less' [OF e(1)] s1n by simp
    note s2 = modAdd_val [OF e(1) s1(1) curve_fields(5) this, folded s2_def]
    define s where "s = uECC_vli_modMult s2 ki ?n 8"
    note s = modMult_val [OF full_size_n s2(1) ki(1), folded s_def]
    have sn: "vli_val s < N_VAL" using s(2) odd_moduli(4) by simp
    have "(2::nat) ^ (uECC_vli_numBits s 8 - 1) < 2 ^ 256"
    proof (cases "vli_val s = 0")
      case True
      then have "uECC_vli_numBits s 8 = 0" using numBits_bounds(3) [OF s(1)] by simp
      then show ?thesis by simp
    next
      case False
      then show ?thesis using numBits_bounds(2) [OF s(1) False] vli_val_less' [OF s(1)] by simp
    qed
    then have "uECC_vli_numBits s 8 - 1 < 256" by (rule power_less_imp_less_exp [rotated]) simp
    then have nb: "\<not> 256 < uECC_vli_numBits s 8" by simp
    have "uECC_sign_with_k rng key hash hs k ?c g = Some (Some (uECC_vli_nativeToBytes 32 p @ uECC_vli_nativeToBytes 32 s), g')"
      using False nz rk p(1) b t u(1) r(3) nb
      unfolding uECC_sign_with_k_def kt_def ki_def d_def e_def s_def s2_def s1_def by (simp add: Let_def)
    moreover have "uECC_vli_nativeToBytes 32 p = uECC_vli_nativeToBytes 32 r"
      unfolding uECC_vli_nativeToBytes_def r_def by (auto simp: Let_def intro!: arg_cong [of _ _ ucast])
    moreover have "vli_val s = (digest hash hs + vli_val r * be_val (take 32 key)) * (vli_val u * vli_val t) mod N_VAL"
    proof -
      have "vli_val s2 mod N_VAL = (vli_val e + vli_val s1) mod N_VAL"
        using s2(2) by (auto simp: le_mod_geq)
      then have "vli_val s2 mod N_VAL = (digest hash hs + vli_val r * be_val (take 32 key)) mod N_VAL"
        by (simp add: s1(2) e(2) d(2) mod_simps mult.commute)
      then have "vli_val s = (digest hash hs + vli_val r * be_val (take 32 key)) mod N_VAL * (vli_val u * vli_val t mod N_VAL) mod N_VAL"
        using s(2) ki(2) by (metis curve_n_val mod_mult_left_eq)
      then show ?thesis by (simp add: mod_simps)
    qed
    ultimately show ?thesis
      using r(1) tr t1 k u(3) s(1) sn kt(2)
      by (intro exI [of _ g'] disjI2 exI [of _ r] exI [of _ t] exI [of _ "vli_val u"] exI [of _ s]) (simp only: curve_n_val simp_thms)
  qed
qed


lemma sign_with_k_returns:
  assumes "rng_ok rng" and "length k = 8" and "32 \<le> length key" and "min 32 hs \<le> length hash"
  shows "\<exists>r. uECC_sign_with_k rng key hash hs k curve_secp256k1 g = Some r"
  using sign_with_k_cases [OF assms, of g] by auto

lemma sign_returns:
  assumes "rng_ok rng" and "32 \<le> length key" and "min 32 hs \<le> length hash"
  shows "\<exists>r. uECC_sign rng key hash hs curve_secp256k1 g = Some r"
proof -
  have "\<exists>r. sign_tries n rng key hash hs curve_secp256k1 g = Some r" for n
  proof (induction n arbitrary: g)
    case (Suc n)
    obtain ko g1 where k: "uECC_generate_random_int rng (curve_n curve_secp256k1) 8 g = (ko, g1)"
      by (cases "uECC_generate_random_int rng (curve_n curve_secp256k1) 8 g")
    show ?case
    proof (cases ko)
      case (Some w)
      then have "length w = 8" using random_int_range(1) [OF assms(1) curve_fields(5)] k by blast
      then obtain sg g2 where "uECC_sign_with_k rng key hash hs w curve_secp256k1 g1 = Some (sg, g2)"
        using sign_with_k_returns [OF assms(1) _ assms(2,3)] by fastforce
      then show ?thesis using k Some Suc.IH by (cases sg) simp_all
    qed (use k in simp)
  qed simp
  then show ?thesis by (simp add: uECC_sign_def)
qed

lemma compute_public_key_returns: "\<exists>r. EccPoint_compute_public_key private curve_secp256k1 = Some r"
proof -
  obtain k0 k1 cy where "regularize_k private curve_secp256k1 = (k0, k1, cy)" by (cases "regularize_k private curve_secp256k1")
  moreover obtain r where "EccPoint_mult (curve_G curve_secp256k1) (if cy then k0 else k1) None 257 curve_secp256k1 = Some r"
    using EccPoint_mult_returns [of "curve_G curve_secp256k1" None] by auto
  ultimately show ?thesis by (simp add: EccPoint_compute_public_key_def)
qed

lemma make_key_returns: "\<exists>r. uECC_make_key rng curve_secp256k1 g = Some r"
proof -
  have "\<exists>r. make_key_tries n rng curve_secp256k1 g = Some r" for n
  proof (induction n arbitrary: g)
    case (Suc n)
    obtain ko g1 where k: "uECC_generate_random_int rng (curve_n curve_secp256k1) 8 g = (ko, g1)"
      by (cases "uECC_generate_random_int rng (curve_n curve_secp256k1) 8 g")
    show ?case
    proof (cases ko)
      case (Some w)
      obtain q ok where "EccPoint_compute_public_key w curve_secp256k1 = Some (q, ok)"
        using compute_public_key_returns by fastforce
      then show ?thesis using k Some Suc.IH by (cases ok) simp_all
    qed (use k in simp)
  qed simp
  then show ?thesis by (simp add: uECC_make_key_def)
qed

text \<open>A private key of 0 or not below the order is refused.\<close>

lemma compute_public_key_range:
  assumes "32 \<le> length key"
  shows "be_val (take 32 key) = 0 \<or> N_VAL \<le> be_val (take 32 key) \<Longrightarrow>
      uECC_compute_public_key key curve_secp256k1 = Some ([], 0)"
    and "\<exists>q ok. uECC_compute_public_key key curve_secp256k1 = Some (q, ok)"
proof -
  let ?d = "uECC_vli_bytesToNative key 32"
  have d: "length ?d = 8" "vli_val ?d = be_val (take 32 key)" using bytesToNative_val [OF assms] by simp_all
  show "uECC_compute_public_key key curve_secp256k1 = Some ([], 0)" if "be_val (take 32 key) = 0 \<or> N_VAL \<le> be_val (take 32 key)"
    using that cmp_sgn [OF curve_fields(5) d(1)]
    by (auto simp: uECC_compute_public_key_def Let_def isZero_iff [OF d(1)] d(2) sgn_if)
  obtain q ok where "EccPoint_compute_public_key ?d curve_secp256k1 = Some (q, ok)"
    using compute_public_key_returns by fastforce
  then show "\<exists>q ok. uECC_compute_public_key key curve_secp256k1 = Some (q, ok)"
    by (simp add: uECC_compute_public_key_def Let_def)
qed

text \<open>The equation of the standard: \<open>s * k = e + r * d\<close>, modulo the order. Neither number is checked against 0 or, for
  \<open>r\<close>, reduced modulo the order.\<close>

lemma sign_equation:
  assumes "length k = 8" and "32 \<le> length key" and "min 32 hs \<le> length hash" and "coprime (vli_val k) N_VAL"
  shows "case uECC_sign_with_k None key hash hs k curve_secp256k1 g of
    None \<Rightarrow> False
  | Some (None, g') \<Rightarrow> sign_refused None k g
  | Some (Some sg, g') \<Rightarrow> length sg = 64 \<and> 0 < vli_val k \<and> vli_val k < N_VAL \<and> sig_r sg \<le> P_VAL \<and> sig_s sg < N_VAL \<and>
      sig_s sg * vli_val k mod N_VAL = (digest hash hs + sig_r sg * be_val (take 32 key)) mod N_VAL"
proof -
  have "rng_ok None" by (simp add: rng_ok_def)
  from sign_with_k_cases [OF this assms(1-3), of g] show ?thesis
  proof (elim exE disjE conjE)
    fix g' r t u s
    assume st: "coord r" "0 < vli_val k" "vli_val k < N_VAL" "None = None \<longrightarrow> vli_val t = 1" "length s = 8" "vli_val s < N_VAL"
      "u * (vli_val k * vli_val t mod N_VAL) mod N_VAL = gcd (vli_val k * vli_val t mod N_VAL) N_VAL mod N_VAL"
      "vli_val s = (digest hash hs + vli_val r * be_val (take 32 key)) * (u * vli_val t) mod N_VAL"
      "uECC_sign_with_k None key hash hs k curve_secp256k1 g =
        Some (Some (uECC_vli_nativeToBytes 32 r @ uECC_vli_nativeToBytes 32 s), g')"
    let ?sg = "uECC_vli_nativeToBytes 32 r @ uECC_vli_nativeToBytes 32 s"
    have v: "sig_r ?sg = vli_val r" "sig_s ?sg = vli_val s"
      using st(1,5) by (simp_all add: sig_r_def sig_s_def nativeToBytes_val)
    have g: "u * vli_val k mod N_VAL = 1"
      using st(4,7) st(3) assms(4) odd_moduli(4) by simp
    let ?x = "digest hash hs + vli_val r * be_val (take 32 key)"
    have "vli_val s * vli_val k mod N_VAL = ?x * (u * vli_val k mod N_VAL) mod N_VAL"
      using st(4) unfolding st(8) by (simp add: mod_simps mult.assoc)
    then have "vli_val s * vli_val k mod N_VAL = ?x mod N_VAL" unfolding g by simp
    then show ?thesis
      using st(1-3,6) v by (simp add: st(9) coord_def)
  qed simp
qed

end
