(* ===== verification/EccHmac.thy ===== *)
theory EccHmac
  imports Sha256 EccSign
begin

text \<open>
  Deterministic signatures in \<^verbatim>\<open>uECC.c\<close>: the hash context with its functions, the context of SHA-256, HMAC over the
  context's buffer, and \<open>uECC_sign_deterministic\<close>. The buffer is \<open>K\<close>, then \<open>V\<close>, then the pad, of which the first byte
  is also the byte that is hashed after \<open>V\<close>. The locale \<open>hash_function\<close> states what HMAC relies on; its facts are those
  of FIPS 198 and of RFC 6979, and they are used for SHA-256.
\<close>

subsection \<open>Operations\<close>

text \<open>The hash's own data follows the context in memory; it is a field of the record here.\<close>

record 'c uECC_HashContext =
  init_hash :: "'c \<Rightarrow> 'c"
  update_hash :: "'c \<Rightarrow> u8 list \<Rightarrow> 'c"
  finish_hash :: "'c \<Rightarrow> 'c \<times> u8 list"
  block_size :: nat
  result_size :: nat
  hash_tmp :: "u8 list"
  hash_data :: 'c

definition init_SHA256 :: "SHA256_CTX \<Rightarrow> SHA256_CTX" where
  "init_SHA256 context = sha256_init context"

definition update_SHA256 :: "SHA256_CTX \<Rightarrow> u8 list \<Rightarrow> SHA256_CTX" where
  "update_SHA256 context mess = sha256_update context mess"

definition finish_SHA256 :: "SHA256_CTX \<Rightarrow> SHA256_CTX \<times> u8 list" where
  "finish_SHA256 context = sha256_final context"

definition SHA256_HashContext :: "u8 list \<Rightarrow> SHA256_CTX \<Rightarrow> SHA256_CTX uECC_HashContext" where
  "SHA256_HashContext tmp ctx = \<lparr>init_hash = init_SHA256, update_hash = update_SHA256, finish_hash = finish_SHA256,
     block_size = 64, result_size = 32, hash_tmp = tmp, hash_data = ctx\<rparr>"

text \<open>\<open>HMAC_init\<close> and \<open>HMAC_finish\<close> take \<open>K\<close> and the place of the result as positions in the buffer.\<close>

definition hmac_pad :: "u8 \<Rightarrow> nat \<Rightarrow> 'c uECC_HashContext \<Rightarrow> 'c uECC_HashContext" where
  "hmac_pad c k hc = hc\<lparr>hash_tmp := list_splice (2 * result_size hc)
     (map (\<lambda>i. if i < result_size hc then hash_tmp hc ! (k + i) XOR c else c) [0..<block_size hc]) (hash_tmp hc)\<rparr>"

definition do_init :: "'c uECC_HashContext \<Rightarrow> 'c uECC_HashContext" where
  "do_init hc = hc\<lparr>hash_data := init_hash hc (hash_data hc)\<rparr>"

definition do_update :: "u8 list \<Rightarrow> 'c uECC_HashContext \<Rightarrow> 'c uECC_HashContext" where
  "do_update mess hc = hc\<lparr>hash_data := update_hash hc (hash_data hc) mess\<rparr>"

definition do_finish :: "nat \<Rightarrow> 'c uECC_HashContext \<Rightarrow> 'c uECC_HashContext" where
  "do_finish result hc = (let (d, h) = finish_hash hc (hash_data hc)
     in hc\<lparr>hash_data := d, hash_tmp := list_splice result h (hash_tmp hc)\<rparr>)"

definition tmp_bytes :: "nat \<Rightarrow> nat \<Rightarrow> 'c uECC_HashContext \<Rightarrow> u8 list" where
  "tmp_bytes a n hc = take n (drop a (hash_tmp hc))"

definition HMAC_init :: "nat \<Rightarrow> 'c uECC_HashContext \<Rightarrow> 'c uECC_HashContext" where
  "HMAC_init k hc =
     (let hc = hmac_pad 0x36 k hc;
          hc = do_init hc
      in do_update (tmp_bytes (2 * result_size hc) (block_size hc) hc) hc)"

definition HMAC_update :: "u8 list \<Rightarrow> 'c uECC_HashContext \<Rightarrow> 'c uECC_HashContext" where
  "HMAC_update mess hc = do_update mess hc"

definition HMAC_finish :: "nat \<Rightarrow> nat \<Rightarrow> 'c uECC_HashContext \<Rightarrow> 'c uECC_HashContext" where
  "HMAC_finish k result hc =
     (let hc = hmac_pad 0x5C k hc;
          hc = do_finish result hc;
          hc = do_init hc;
          hc = do_update (tmp_bytes (2 * result_size hc) (block_size hc) hc) hc;
          hc = do_update (tmp_bytes result (result_size hc) hc) hc
      in do_finish result hc)"

definition update_V :: "'c uECC_HashContext \<Rightarrow> 'c uECC_HashContext" where
  "update_V hc =
     (let V = result_size hc;
          hc = HMAC_init 0 hc;
          hc = HMAC_update (tmp_bytes V (result_size hc) hc) hc
      in HMAC_finish 0 V hc)"

text \<open>\<open>K = HMAC_K(V || b || ...)\<close>, with the byte written after \<open>V\<close>.\<close>

definition update_K :: "u8 \<Rightarrow> u8 list list \<Rightarrow> 'c uECC_HashContext \<Rightarrow> 'c uECC_HashContext" where
  "update_K b chunks hc =
     (let V = result_size hc;
          hc = HMAC_init 0 hc;
          hc = hc\<lparr>hash_tmp := (hash_tmp hc)[V + result_size hc := b]\<rparr>;
          hc = HMAC_update (tmp_bytes V (result_size hc + 1) hc) hc;
          hc = fold HMAC_update chunks hc
      in HMAC_finish 0 0 hc)"

text \<open>\<open>T\<close> is filled from \<open>V\<close>, over and over; with results of no bytes this would go on for ever.\<close>

partial_function (option) fill_T :: "nat \<Rightarrow> u8 list \<Rightarrow> 'c uECC_HashContext \<Rightarrow> (u8 list \<times> 'c uECC_HashContext) option" where
  "fill_T limit T hc =
     (let hc = update_V hc;
          T = T @ tmp_bytes (result_size hc) (result_size hc) hc
      in if limit \<le> length T then Some (take limit T, hc) else fill_T limit T hc)"

declare fill_T.simps [code]

definition mask_T :: "vli \<Rightarrow> uECC_Curve \<Rightarrow> vli" where
  "mask_T T curve =
     (let n = BITS_TO_WORDS (num_n_bits curve)
      in if num_n_bits curve < n * 4 * 8
         then T[n - 1 := T ! (n - 1) AND drop_bit (n * 4 * 8 - num_n_bits curve) (- 1)] else T)"

primrec deterministic_tries ::
  "nat \<Rightarrow> 'g rng \<Rightarrow> u8 list \<Rightarrow> u8 list \<Rightarrow> nat \<Rightarrow> uECC_Curve \<Rightarrow> 'c uECC_HashContext \<Rightarrow> 'g \<Rightarrow> (u8 list option \<times> 'g) option" where
  "deterministic_tries 0 rng private_key message_hash hash_size curve hc g = Some (None, g)"
| "deterministic_tries (Suc tries) rng private_key message_hash hash_size curve hc g = do {
     (T, hc) \<leftarrow> fill_T (BITS_TO_WORDS (num_n_bits curve) * 4) [] hc;
     (sg, g) \<leftarrow> uECC_sign_with_k rng private_key message_hash hash_size (mask_T (native_words T) curve) curve g;
     if sg \<noteq> None then Some (sg, g)
     else (let hc = update_K 0 [] hc; hc = update_V hc
       in deterministic_tries tries rng private_key message_hash hash_size curve hc g) }"

definition uECC_sign_deterministic ::
  "'g rng \<Rightarrow> u8 list \<Rightarrow> u8 list \<Rightarrow> nat \<Rightarrow> 'c uECC_HashContext \<Rightarrow> uECC_Curve \<Rightarrow> 'g \<Rightarrow> (u8 list option \<times> 'g) option" where
  "uECC_sign_deterministic rng private_key message_hash hash_size hc curve g =
     (let n = result_size hc;
          hc = hc\<lparr>hash_tmp := list_splice 0 (replicate n 0 @ replicate n 1) (hash_tmp hc)\<rparr>;
          seed = [take (num_bytes curve) private_key, take hash_size message_hash];
          hc = update_K 0 seed hc;
          hc = update_V hc;
          hc = update_K 1 seed hc;
          hc = update_V hc
      in deterministic_tries uECC_RNG_MAX_TRIES rng private_key message_hash hash_size curve hc g)"

subsection \<open>What a hash function promises\<close>

text \<open>\<open>absorbed c m\<close>: since it was initialised, the context has been given the bytes of \<open>m\<close>.\<close>

locale hash_function =
  fixes hinit :: "'c \<Rightarrow> 'c"
    and hupdate :: "'c \<Rightarrow> u8 list \<Rightarrow> 'c"
    and hfinish :: "'c \<Rightarrow> 'c \<times> u8 list"
    and hash_ok :: "'c \<Rightarrow> bool"
    and absorbed :: "'c \<Rightarrow> u8 list \<Rightarrow> bool"
    and H :: "u8 list \<Rightarrow> u8 list"
    and B :: nat and L :: nat
  assumes init_absorbed: "hash_ok c \<Longrightarrow> absorbed (hinit c) []"
    and update_absorbed: "absorbed c m \<Longrightarrow> absorbed (hupdate c d) (m @ d)"
    and finish_hash_ok: "absorbed c m \<Longrightarrow> hash_ok (fst (hfinish c))"
    and finish_digest: "absorbed c m \<Longrightarrow> snd (hfinish c) = H m"
    and digest_length: "length (H m) = L"
    and block_larger: "L < B"
begin

definition xor_pad :: "u8 \<Rightarrow> u8 list \<Rightarrow> u8 list" where
  "xor_pad c K = map (\<lambda>b. b XOR c) K @ replicate (B - length K) c"

definition HMAC :: "u8 list \<Rightarrow> u8 list \<Rightarrow> u8 list" where
  "HMAC K m = H (xor_pad 0x5C K @ H (xor_pad 0x36 K @ m))"

lemma HMAC_length: "length (HMAC K m) = L"
  by (simp add: HMAC_def digest_length)

text \<open>A context of this hash, its buffer \<open>K @ V @ pad\<close>.\<close>

definition uses :: "'c uECC_HashContext \<Rightarrow> bool" where
  "uses hc \<longleftrightarrow> init_hash hc = hinit \<and> update_hash hc = hupdate \<and> finish_hash hc = hfinish \<and>
     block_size hc = B \<and> result_size hc = L"

definition holds :: "'c uECC_HashContext \<Rightarrow> u8 list \<Rightarrow> u8 list \<Rightarrow> bool" where
  "holds hc K V \<longleftrightarrow> uses hc \<and> length K = L \<and> length V = L \<and> (\<exists>pad. hash_tmp hc = K @ V @ pad \<and> length pad = B)"

definition ready :: "'c uECC_HashContext \<Rightarrow> u8 list \<Rightarrow> u8 list \<Rightarrow> bool" where
  "ready hc K V \<longleftrightarrow> holds hc K V \<and> hash_ok (hash_data hc)"

lemma pad_bytes:
  assumes "length K = L"
  shows "map (\<lambda>i. if i < L then (K @ xs) ! i XOR c else c) [0..<B] = xor_pad c K"
  by (rule nth_equalityI) (use assms block_larger in \<open>auto simp: xor_pad_def nth_append\<close>)

lemma pad_holds:
  assumes "holds hc K V"
  shows "holds (hmac_pad c 0 hc) K V"
    and "tmp_bytes (2 * result_size (hmac_pad c 0 hc)) (block_size (hmac_pad c 0 hc)) (hmac_pad c 0 hc) = xor_pad c K"
    and "hash_data (hmac_pad c 0 hc) = hash_data hc"
proof -
  obtain pad where t: "hash_tmp hc = K @ V @ pad" "length pad = B" and u: "uses hc" "length K = L" "length V = L"
    using assms by (auto simp: holds_def)
  have m: "map (\<lambda>i. if i < L then hash_tmp hc ! (0 + i) XOR c else c) [0..<B] = xor_pad c K"
    using pad_bytes [OF u(2), of "V @ pad" c] by (simp only: t(1) add_0)
  have l: "length (xor_pad c K) = B" using u(2) block_larger by (simp add: xor_pad_def)
  have "hash_tmp (hmac_pad c 0 hc) = K @ V @ xor_pad c K"
    using u t l by (simp add: hmac_pad_def m uses_def list_splice_def)
  then show "holds (hmac_pad c 0 hc) K V" and "hash_data (hmac_pad c 0 hc) = hash_data hc"
    and "tmp_bytes (2 * result_size (hmac_pad c 0 hc)) (block_size (hmac_pad c 0 hc)) (hmac_pad c 0 hc) = xor_pad c K"
    using u l by (simp_all add: holds_def hmac_pad_def uses_def tmp_bytes_def)
qed

lemma holds_data [simp]: "holds (hc\<lparr>hash_data := d\<rparr>) K V \<longleftrightarrow> holds hc K V"
  by (simp add: holds_def uses_def)

lemma init_holds:
  assumes "ready hc K V"
  shows "holds (HMAC_init 0 hc) K V" and "absorbed (hash_data (HMAC_init 0 hc)) (xor_pad 0x36 K)"
proof -
  have h: "holds hc K V" "hash_ok (hash_data hc)" using assms by (simp_all add: ready_def)
  note p = pad_holds [OF h(1), of "0x36"]
  have u: "init_hash (hmac_pad 0x36 0 hc) = hinit" "update_hash (hmac_pad 0x36 0 hc) = hupdate"
    using p(1) by (simp_all add: holds_def uses_def)
  have e: "HMAC_init 0 hc = (hmac_pad 0x36 0 hc)\<lparr>hash_data := hupdate (hinit (hash_data hc)) (xor_pad 0x36 K)\<rparr>"
    using p(2,3) u by (simp add: HMAC_init_def do_init_def do_update_def tmp_bytes_def)
  show "holds (HMAC_init 0 hc) K V" unfolding e using p(1) by simp
  show "absorbed (hash_data (HMAC_init 0 hc)) (xor_pad 0x36 K)"
    unfolding e using update_absorbed [OF init_absorbed [OF h(2)]] by simp
qed

lemma update_holds:
  assumes "holds hc K V" and "absorbed (hash_data hc) m"
  shows "holds (HMAC_update d hc) K V" and "absorbed (hash_data (HMAC_update d hc)) (m @ d)"
  using assms update_absorbed by (auto simp: HMAC_update_def do_update_def holds_def uses_def)

lemma finish_data:
  assumes "uses hc" and "absorbed (hash_data hc) m"
  shows "hash_ok (hash_data (do_finish result hc))"
    and "do_finish result hc = (do_finish result hc)\<lparr>hash_tmp := list_splice result (H m) (hash_tmp hc)\<rparr>"
    and "uses (do_finish result hc)"
  using assms finish_hash_ok [OF assms(2)] finish_digest [OF assms(2)]
  by (auto simp: do_finish_def uses_def split: prod.splits)

lemma do_init_data: "uses hc \<Longrightarrow> hash_ok (hash_data hc) \<Longrightarrow> absorbed (hash_data (do_init hc)) []"
  by (simp add: do_init_def uses_def init_absorbed)

lemma do_update_data: "uses hc \<Longrightarrow> absorbed (hash_data hc) m \<Longrightarrow> absorbed (hash_data (do_update d hc)) (m @ d)"
  by (simp add: do_update_def uses_def update_absorbed)

lemma uses_steps [simp]: "uses (do_init hc) = uses hc" "uses (do_update d hc) = uses hc"
  "hash_tmp (do_init hc) = hash_tmp hc" "hash_tmp (do_update d hc) = hash_tmp hc"
  by (simp_all add: uses_def do_init_def do_update_def)

text \<open>The end of an HMAC: the result, over \<open>V\<close> or over \<open>K\<close>.\<close>

lemma finish_steps:
  assumes "holds hc K V" and "absorbed (hash_data hc) (xor_pad 0x36 K @ m)"
    and "list_splice r (H (xor_pad 0x36 K @ m)) (K @ V @ xor_pad 0x5C K) = Ka @ Va @ xor_pad 0x5C K"
    and "take L (drop r (Ka @ Va @ xor_pad 0x5C K)) = H (xor_pad 0x36 K @ m)"
    and "list_splice r (HMAC K m) (Ka @ Va @ xor_pad 0x5C K) = Kb @ Vb @ xor_pad 0x5C K"
    and "length Ka = L" and "length Va = L" and "length Kb = L" and "length Vb = L"
  shows "ready (HMAC_finish 0 r hc) Kb Vb"
proof -
  let ?p = "xor_pad 0x5C K"
  define a where "a = hmac_pad 0x5C 0 hc"
  note p = pad_holds [OF assms(1), of "0x5C", folded a_def]
  have lp: "length ?p = B" using assms(1) block_larger by (simp add: xor_pad_def holds_def)
  have ua: "uses a" and lK: "length K = L" "length V = L" using p(1) by (simp_all add: holds_def)
  have ta: "hash_tmp a = K @ V @ ?p"
    using p(1,2) ua by (auto simp: holds_def uses_def tmp_bytes_def)
  note s = assms(3-5)
  have da: "absorbed (hash_data a) (xor_pad 0x36 K @ m)" using assms(2) p(3) by simp
  define b where "b = do_finish r a"
  note f = finish_data [OF ua da, of r, folded b_def]
  have tb: "hash_tmp b = Ka @ Va @ ?p"
    by (subst f(2)) (simp add: ta s(1))
  have bb: "tmp_bytes (2 * result_size (do_init b)) (block_size (do_init b)) (do_init b) = ?p"
    using f(3) lp assms(6,7) by (simp add: tmp_bytes_def tb uses_def do_init_def)
  define c where "c = do_update ?p (do_init b)"
  have cc: "tmp_bytes r (result_size c) c = H (xor_pad 0x36 K @ m)"
    using f(3) s(2) by (simp add: c_def tmp_bytes_def tb uses_def do_init_def do_update_def)
  define d where "d = do_update (H (xor_pad 0x36 K @ m)) c"
  have dd: "absorbed (hash_data d) (?p @ H (xor_pad 0x36 K @ m))" and ud: "uses d" and td: "hash_tmp d = Ka @ Va @ ?p"
    using do_update_data [OF _ do_update_data [OF _ do_init_data [OF f(3,1)]], of ?p "H (xor_pad 0x36 K @ m)"] f(3)
    by (simp_all add: d_def c_def tb)
  have e: "HMAC_finish 0 r hc = do_finish r d"
    by (simp add: HMAC_finish_def Let_def a_def [symmetric] b_def [symmetric] bb c_def [symmetric] cc d_def [symmetric])
  note g = finish_data [OF ud dd, of r, folded e]
  have "hash_tmp (HMAC_finish 0 r hc) = Kb @ Vb @ ?p"
    by (subst g(2)) (simp add: td s(3) flip: HMAC_def)
  then show ?thesis using g(1,3) assms(8,9) lp by (simp add: ready_def holds_def)
qed

lemma finish_V:
  assumes "holds hc K V" and "absorbed (hash_data hc) (xor_pad 0x36 K @ m)"
  shows "ready (HMAC_finish 0 L hc) K (HMAC K m)"
  by (rule finish_steps [OF assms, where Ka = K and Va = "H (xor_pad 0x36 K @ m)"])
    (use assms(1) in \<open>simp_all add: holds_def list_splice_def digest_length HMAC_length\<close>)

lemma finish_K:
  assumes "holds hc K V" and "absorbed (hash_data hc) (xor_pad 0x36 K @ m)"
  shows "ready (HMAC_finish 0 0 hc) (HMAC K m) V"
  by (rule finish_steps [OF assms, where Ka = "H (xor_pad 0x36 K @ m)" and Va = V])
    (use assms(1) in \<open>simp_all add: holds_def list_splice_def digest_length HMAC_length\<close>)

lemma update_V_ready:
  assumes "ready hc K V"
  shows "ready (update_V hc) K (HMAC K V)"
proof -
  note i = init_holds [OF assms]
  have v: "tmp_bytes L L (HMAC_init 0 hc) = V" using i(1) by (auto simp: holds_def tmp_bytes_def)
  have r: "result_size (HMAC_init 0 hc) = L" "result_size hc = L"
    using i(1) assms by (simp_all add: ready_def holds_def uses_def)
  show ?thesis
    using finish_V [OF update_holds [OF i, of V]] by (simp add: update_V_def r v)
qed

lemma fold_update_holds:
  "holds hc K V \<Longrightarrow> absorbed (hash_data hc) m \<Longrightarrow>
   holds (fold HMAC_update ds hc) K V \<and> absorbed (hash_data (fold HMAC_update ds hc)) (m @ concat ds)"
proof (induction ds arbitrary: hc m)
  case (Cons d ds)
  show ?case using Cons.IH [OF update_holds [OF Cons.prems, of d]] by simp
qed simp

lemma update_K_ready:
  assumes "ready hc K V"
  shows "ready (update_K b ds hc) (HMAC K (V @ [b] @ concat ds)) V"
proof -
  note i = init_holds [OF assms]
  define h where "h = (HMAC_init 0 hc)\<lparr>hash_tmp := (hash_tmp (HMAC_init 0 hc))[L + L := b]\<rparr>"
  obtain pad where t: "hash_tmp (HMAC_init 0 hc) = K @ V @ pad" "length pad = B" "length K = L" "length V = L"
    "uses (HMAC_init 0 hc)" using i(1) by (auto simp: holds_def)
  obtain x xs where pad: "pad = x # xs" using t(2) block_larger by (cases pad) auto
  have th: "hash_tmp h = K @ V @ b # xs" using t pad by (simp add: h_def list_update_append)
  have h: "holds h K V" "hash_data h = hash_data (HMAC_init 0 hc)"
    using t(2-5) pad th by (simp_all add: holds_def uses_def h_def)
  have v: "tmp_bytes L (L + 1) h = V @ [b]" using t(3,4) by (simp add: tmp_bytes_def th)
  have r: "result_size hc = L" "result_size (HMAC_init 0 hc) = L" "result_size h = L"
    using i(1) h(1) assms by (simp_all add: ready_def holds_def uses_def)
  have "absorbed (hash_data h) (xor_pad 0x36 K)" using i(2) h(2) by simp
  note u = fold_update_holds [OF update_holds [OF h(1) this, of "V @ [b]"], of ds]
  have "update_K b ds hc = HMAC_finish 0 0 (fold HMAC_update ds (HMAC_update (V @ [b]) h))"
    using v r by (simp add: update_K_def Let_def h_def [symmetric])
  then show ?thesis using finish_K [of _ K V "(V @ [b]) @ concat ds"] u by simp
qed

end

subsection \<open>SHA-256\<close>

definition sha_absorbed :: "SHA256_CTX \<Rightarrow> u8 list \<Rightarrow> bool" where
  "sha_absorbed c m \<longleftrightarrow> (\<exists>full rest. m = full @ rest \<and> sha_inv c full rest)"

lemma sha_absorbed_byte: "sha_absorbed c m \<Longrightarrow> sha_absorbed (sha256_byte c b) (m @ [b])"
proof -
  assume "sha_absorbed c m"
  then obtain full rest where m: "m = full @ rest" "sha_inv c full rest" by (auto simp: sha_absorbed_def)
  show ?thesis
  proof (cases "length rest = 63")
    case True
    then show ?thesis using sha_inv_byte [OF m(2), of b] m(1)
      unfolding sha_absorbed_def by (intro exI [of _ "full @ rest @ [b]"] exI [of _ "[]"]) simp
  next
    case False
    then show ?thesis using sha_inv_byte [OF m(2), of b] m(1)
      unfolding sha_absorbed_def by (intro exI [of _ full] exI [of _ "rest @ [b]"]) simp
  qed
qed

lemma sha_absorbed_update: "sha_absorbed c m \<Longrightarrow> sha_absorbed (sha256_update c d) (m @ d)"
proof (induction d arbitrary: c m)
  case (Cons b d)
  show ?case using Cons.IH [OF sha_absorbed_byte [OF Cons.prems, of b]] by (simp add: sha256_update_def)
qed (simp add: sha256_update_def)

lemma length_zero_fill [simp]: "length (foldl (\<lambda>d j. d[j := x]) d js) = length d"
  by (induction js arbitrary: d) simp_all

lemma sha256_final_data: "length (ctx_data c) = 64 \<Longrightarrow> length (ctx_data (fst (sha256_final c))) = 64"
  by (auto simp: sha256_final_def sha256_transform_def Let_def put_bitlen_def pad_data_def)

interpretation sha: hash_function init_SHA256 update_SHA256 finish_SHA256
  "\<lambda>c. length (ctx_data c) = 64" sha_absorbed sha256_spec 64 32
proof
  fix c m d
  show "sha_absorbed (init_SHA256 c) []" if "length (ctx_data c) = 64"
    using sha_inv_init [OF that] by (auto simp: init_SHA256_def sha_absorbed_def)
  show "sha_absorbed c m \<Longrightarrow> sha_absorbed (update_SHA256 c d) (m @ d)"
    by (simp add: update_SHA256_def sha_absorbed_update)
  show "sha_absorbed c m \<Longrightarrow> length (ctx_data (fst (finish_SHA256 c))) = 64"
    by (auto simp: finish_SHA256_def sha_absorbed_def sha_inv_def intro: sha256_final_data)
  show "sha_absorbed c m \<Longrightarrow> snd (finish_SHA256 c) = sha256_spec m"
    using sha256_final_inv by (auto simp: finish_SHA256_def sha_absorbed_def)
  show "length (sha256_spec m) = 32" by (rule length_sha256_spec)
qed simp

text \<open>HMAC of FIPS 198 for a key of 32 bytes, filled up with zeros to a block.\<close>

definition hmac_sha256 :: "u8 list \<Rightarrow> u8 list \<Rightarrow> u8 list" where
  "hmac_sha256 K m = (let K0 = K @ replicate 32 0
     in sha256_spec (map (\<lambda>b. b XOR 0x5C) K0 @ sha256_spec (map (\<lambda>b. b XOR 0x36) K0 @ m)))"

lemma sha_HMAC: "length K = 32 \<Longrightarrow> sha.HMAC K m = hmac_sha256 K m"
  by (simp add: sha.HMAC_def hmac_sha256_def sha.xor_pad_def Let_def)

lemma length_hmac [simp]: "length (hmac_sha256 K m) = 32"
  by (simp add: hmac_sha256_def Let_def length_sha256_spec)

lemma sha_ready:
  assumes "length K = 32" and "length V = 32" and "length pad = 64" and "length (ctx_data ctx) = 64"
  shows "sha.ready (SHA256_HashContext (K @ V @ pad) ctx) K V"
  using assms by (simp add: sha.ready_def sha.holds_def sha.uses_def SHA256_HashContext_def)

lemma sha_ready_lengths: "sha.ready hc K V \<Longrightarrow> length K = 32 \<and> length V = 32"
  by (simp add: sha.ready_def sha.holds_def)

lemmas sha_updates = sha.update_V_ready sha.update_K_ready

subsection \<open>RFC 6979\<close>

text \<open>The generator of nonces, as the standard has it, for a hash as long as the order, and without the reduction of the digest.\<close>

definition rfc6979_seed :: "u8 list \<Rightarrow> u8 list \<Rightarrow> u8 list \<times> u8 list" where
  "rfc6979_seed x h =
     (let V = replicate 32 1; K = replicate 32 0;
          K = hmac_sha256 K (V @ [0] @ x @ h); V = hmac_sha256 K V;
          K = hmac_sha256 K (V @ [1] @ x @ h); V = hmac_sha256 K V
      in (K, V))"

primrec rfc6979_tries ::
  "nat \<Rightarrow> (u8 list \<Rightarrow> 'g \<Rightarrow> (u8 list option \<times> 'g) option) \<Rightarrow> u8 list \<Rightarrow> u8 list \<Rightarrow> 'g \<Rightarrow> (u8 list option \<times> 'g) option" where
  "rfc6979_tries 0 sign K V g = Some (None, g)"
| "rfc6979_tries (Suc n) sign K V g =
     (let V = hmac_sha256 K V
      in do {
        (sg, g) \<leftarrow> sign V g;
        if sg \<noteq> None then Some (sg, g)
        else let K = hmac_sha256 K (V @ [0]); V = hmac_sha256 K V in rfc6979_tries n sign K V g })"

lemma fill_T_ready:
  assumes "sha.ready hc K V"
  shows "fill_T 32 [] hc = Some (hmac_sha256 K V, update_V hc)" and "sha.ready (update_V hc) K (hmac_sha256 K V)"
proof -
  show r: "sha.ready (update_V hc) K (hmac_sha256 K V)"
    using sha.update_V_ready [OF assms] sha_ready_lengths [OF assms] by (simp add: sha_HMAC)
  then have "tmp_bytes 32 32 (update_V hc) = hmac_sha256 K V" "result_size (update_V hc) = 32"
    by (auto simp: sha.ready_def sha.holds_def sha.uses_def tmp_bytes_def)
  then show "fill_T 32 [] hc = Some (hmac_sha256 K V, update_V hc)"
    by (subst fill_T.simps) (simp add: Let_def)
qed

lemma deterministic_tries_rfc:
  "sha.ready hc K V \<Longrightarrow> deterministic_tries n rng key hash k curve_secp256k1 hc g =
    rfc6979_tries n (\<lambda>T. uECC_sign_with_k rng key hash k (native_words T) curve_secp256k1) K V g"
proof (induction n arbitrary: hc K V g)
  case (Suc n)
  note f = fill_T_ready [OF Suc.prems]
  let ?hc = "update_V (update_K 0 [] (update_V hc))"
  let ?V = "hmac_sha256 K V" let ?K = "hmac_sha256 K (?V @ [0])"
  have "sha.ready ?hc ?K (hmac_sha256 ?K ?V)"
    using sha.update_V_ready [OF sha.update_K_ready [OF f(2), of 0 "[]"]] sha_ready_lengths [OF f(2)]
    by (simp add: sha_HMAC)
  note IH = Suc.IH [OF this]
  have step: "(if sg \<noteq> None then Some (sg, g)
      else let hc = update_K 0 [] (update_V hc); hc = update_V hc in deterministic_tries n rng key hash k curve_secp256k1 hc g) =
    (if sg \<noteq> None then Some (sg, g)
      else let K = ?K; V = hmac_sha256 K ?V
        in rfc6979_tries n (\<lambda>T. uECC_sign_with_k rng key hash k (native_words T) curve_secp256k1) K V g)" for sg g
    by (simp only: Let_def IH)
  have "deterministic_tries (Suc n) rng key hash k curve_secp256k1 hc g =
    uECC_sign_with_k rng key hash k (native_words ?V) curve_secp256k1 g \<bind> (\<lambda>(sg, g). if sg \<noteq> None then Some (sg, g)
      else let hc = update_K 0 [] (update_V hc); hc = update_V hc in deterministic_tries n rng key hash k curve_secp256k1 hc g)"
    by (simp add: f(1) mask_T_def)
  then show ?case by (simp only: step rfc6979_tries.simps Let_def [of "hmac_sha256 K V"])
qed simp

lemma sign_deterministic_rfc6979:
  assumes "length tmp = 128" and "length (ctx_data ctx) = 64"
  shows "uECC_sign_deterministic rng key hash k (SHA256_HashContext tmp ctx) curve_secp256k1 g =
    (case rfc6979_seed (take 32 key) (take k hash) of (K, V) \<Rightarrow>
      rfc6979_tries 64 (\<lambda>T. uECC_sign_with_k rng key hash k (native_words T) curve_secp256k1) K V g)"
proof -
  let ?K = "replicate 32 (0 :: u8)" and ?V = "replicate 32 (1 :: u8)"
  define hc where "hc = SHA256_HashContext (?K @ ?V @ drop 64 tmp) ctx"
  define s where "s = [take 32 key, take k hash]"
  have r0: "sha.ready hc ?K ?V" unfolding hc_def by (rule sha_ready) (use assms in simp_all)
  let ?K1 = "hmac_sha256 ?K (?V @ [0] @ concat s)" let ?V1 = "hmac_sha256 ?K1 ?V"
  let ?K2 = "hmac_sha256 ?K1 (?V1 @ [1] @ concat s)"
  have r1: "sha.ready (update_V (update_K 0 s hc)) ?K1 ?V1"
    using sha.update_V_ready [OF sha.update_K_ready [OF r0, of 0 s]] by (simp add: sha_HMAC)
  have r2: "sha.ready (update_V (update_K 1 s (update_V (update_K 0 s hc)))) ?K2 (hmac_sha256 ?K2 ?V1)"
    using sha.update_V_ready [OF sha.update_K_ready [OF r1, of 1 s]] by (simp add: sha_HMAC)
  have e: "uECC_sign_deterministic rng key hash k (SHA256_HashContext tmp ctx) curve_secp256k1 g =
    deterministic_tries uECC_RNG_MAX_TRIES rng key hash k curve_secp256k1
      (update_V (update_K 1 s (update_V (update_K 0 s hc)))) g"
    using assms(1) by (simp add: uECC_sign_deterministic_def Let_def s_def hc_def SHA256_HashContext_def list_splice_def)
  show ?thesis
    unfolding e deterministic_tries_rfc [OF r2]
    by (simp add: rfc6979_seed_def Let_def s_def uECC_RNG_MAX_TRIES_def)
qed

lemma rfc6979_returns:
  assumes "\<And>T g. length T = 32 \<Longrightarrow> \<exists>r. sign T g = Some r"
  shows "\<exists>r. rfc6979_tries n sign K V g = Some r"
proof (induction n arbitrary: K V g)
  case (Suc n)
  obtain sg g1 where "sign (hmac_sha256 K V) g = Some (sg, g1)" using assms [of "hmac_sha256 K V" g] by auto
  then show ?case using Suc.IH by (cases sg) (simp_all add: Let_def)
qed simp

lemma sign_deterministic_returns:
  assumes "rng_ok rng" and "32 \<le> length key" and "min 32 k \<le> length hash" and "length tmp = 128" and "length (ctx_data ctx) = 64"
  shows "\<exists>r. uECC_sign_deterministic rng key hash k (SHA256_HashContext tmp ctx) curve_secp256k1 g = Some r"
proof -
  have "\<exists>r. uECC_sign_with_k rng key hash k (native_words T) curve_secp256k1 g = Some r" if "length T = 32" for T g
    using sign_with_k_returns [OF assms(1) native_words_length [of T 8] assms(2,3)] that by simp
  note tries = rfc6979_returns [OF this]
  obtain K V where "rfc6979_seed (take 32 key) (take k hash) = (K, V)"
    by (cases "rfc6979_seed (take 32 key) (take k hash)")
  then show ?thesis unfolding sign_deterministic_rfc6979 [OF assms(4,5)] using tries by simp
qed

end
