(* ===== verification/CryptoProps.thy ===== *)
theory CryptoProps
  imports EccHmac SignedImage
begin

text \<open>
  The properties of the elliptic-curve library, \<^verbatim>\<open>cryptography/uECC.c\<close> (C3, C8 to C10, C20 to C25), each with an application at concrete values.
\<close>

section \<open>The check of signatures and keys\<close>

text \<open>C3: Verification decides the equation of ECDSA. For a key with coordinates up to the prime, and a signature with
  numbers r and s in range and s invertible, let u1 = digest / s and u2 = r / s modulo the order, and let R be the point that
  chords and tangents give for u1 times the base point plus u2 times the key (\<open>combination\<close>, which also says that the
  products formed on the way are outside the window of \<open>fast_reduction_window\<close>). Then \<open>uECC_verify\<close> answers whether the
  first coordinate of R, reduced modulo the order, is r.\<close>

theorem verify_accepts_equation:
  assumes "length key = 64" and "length sg = 64" and "min 32 k \<le> length hash" and "coord_point (key_words key)"
    and "0 < sig_r sg" and "sig_r sg < N_VAL" and "0 < sig_s sg" and "sig_s sg < N_VAL" and "coprime (sig_s sg) N_VAL"
    and "u1 < N_VAL" and "u1 * sig_s sg mod N_VAL = digest hash k mod N_VAL"
    and "u2 < N_VAL" and "u2 * sig_s sg mod N_VAL = sig_r sg"
    and "combination (fe_point (key_words key)) u1 u2 R" and "fst R \<noteq> 0"
  shows "uECC_verify key hash k sg curve_secp256k1 = Some (fp_nat (fst R) mod N_VAL = sig_r sg)"
  by (rule verify_decides [OF assms])

theorem verify_accepts_equation_witness:
  "uECC_verify small_key (replicate 32 0) 32 small_signature curve_secp256k1 = Some True"
proof -
  have nz: "(32 :: fp) \<noteq> 0" by (rule numeral_fp_nonzero) (simp add: P_VAL_def)
  have "uECC_verify small_key (replicate 32 0) 32 small_signature curve_secp256k1 =
      Some (fp_nat (fst ((32 :: fp), (- 181 :: fp))) mod N_VAL = sig_r small_signature)"
    by (rule verify_accepts_equation [OF _ _ _ _ _ _ _ _ _ _ _ _ _ small_combination [folded small_point(1)]])
      (use small_values small_order small_point(2) nz in simp_all)
  then show ?thesis by (simp add: small_values fp_nat_numeral N_VAL_def P_VAL_def)
qed

text \<open>C9: A signature with one of its numbers 0 or not below the order is refused, whatever the key and the digest.\<close>

theorem signature_range_checked:
  assumes "length sg = 64" and "sig_r sg = 0 \<or> N_VAL \<le> sig_r sg \<or> sig_s sg = 0 \<or> N_VAL \<le> sig_s sg"
  shows "uECC_verify key hash k sg curve_secp256k1 = Some False"
  by (rule verify_out_of_range [OF assms])

theorem signature_range_checked_witness:
  "uECC_verify ex_key ex_hash 32 (ex_hash @ uECC_vli_nativeToBytes 32 (curve_n curve_secp256k1)) curve_secp256k1 = Some False"
  by (rule signature_range_checked) (simp_all add: sig_s_def ex_lengths nativeToBytes_val)

text \<open>C10: Verification always answers: the loops of the two inversions end, and no array is read outside its bounds, for
  any key and any signature of which the second number, if in range, is invertible modulo the order.\<close>

theorem verification_returns:
  assumes "length key = 64" and "length sg = 64" and "min 32 k \<le> length hash"
    and "sig_s sg = 0 \<or> N_VAL \<le> sig_s sg \<or> coprime (sig_s sg) N_VAL"
  shows "\<exists>b. uECC_verify key hash k sg curve_secp256k1 = Some b"
  using verify_returns [OF assms(1-3)] verify_out_of_range [OF assms(2)] assms(4) by blast

theorem verification_returns_witness: "\<exists>b. uECC_verify (replicate 64 0xAB) ex_hash 20 small_signature curve_secp256k1 = Some b"
  by (rule verification_returns) (use small_values small_order ex_lengths in simp_all)

text \<open>C8: The check of a public key accepts exactly the points of the curve with both coordinates below the prime, if
  the three products it forms are outside the window in which the reduction is inexact.\<close>

theorem public_key_check:
  assumes "length key = 64" and "list_all safe [of_nat (key_y key) * of_nat (key_y key), of_nat (key_x key) * of_nat (key_x key),
      of_nat (key_x key) * of_nat (key_x key) * of_nat (key_x key)]"
    and "(of_nat (key_y key) * of_nat (key_y key) :: fp) \<noteq> 0"
  shows "uECC_valid_public_key key curve_secp256k1 \<longleftrightarrow>
    key_x key < P_VAL \<and> key_y key < P_VAL \<and> on_curve (of_nat (key_x key), of_nat (key_y key))"
  by (rule valid_public_key_iff [OF assms(1)]) (use assms(2,3) in simp_all)

theorem public_key_check_witness: "\<not> uECC_valid_public_key small_key curve_secp256k1"
proof -
  have "(1 :: fp) \<noteq> 2 * 2 * 2 + 7"
    using fp_nat_of_nat [of 1] fp_nat_numeral [of "num.Bit1 (num.Bit1 (num.Bit1 num.One))"] P_pos(2)
    by (auto simp: P_VAL_def)
  then show ?thesis
    using public_key_check [OF small_values(1)]
    by (simp add: small_values safe_small OMEGA_def on_curve_def)
qed

section \<open>Arithmetic\<close>

text \<open>C20: The fast reduction returns a number of eight words, at most the prime, congruent to the product, except for
  products whose remainder is in a window of 2^32 + 977 numbers from 2^32 + 977 on: there it may be too small by 2^32 + 977.\<close>

theorem fast_reduction_window:
  assumes "length product = 16"
  shows "length (vli_mmod_fast_secp256k1 product) = 8 \<and> vli_val (vli_mmod_fast_secp256k1 product) \<le> P_VAL \<and>
    (vli_val (vli_mmod_fast_secp256k1 product) mod P_VAL = vli_val product mod P_VAL \<or>
     OMEGA \<le> vli_val product mod P_VAL \<and> vli_val product mod P_VAL < 2 * OMEGA \<and>
     vli_val (vli_mmod_fast_secp256k1 product) = vli_val product mod P_VAL - OMEGA)"
  using mmod_fast_cases [OF assms] by blast

theorem fast_reduction_window_witness:
  "vli_val (vli_mmod_fast_secp256k1 (5 # replicate 15 0)) mod P_VAL = 5"
proof -
  have v: "vli_val (5 # replicate 15 0 :: vli) = 5" by simp
  have "\<not> OMEGA \<le> 5 mod P_VAL" by (simp add: OMEGA_def P_VAL_def)
  moreover have "5 mod P_VAL = 5" by (simp add: P_VAL_def)
  ultimately show ?thesis using fast_reduction_window [of "5 # replicate 15 0"] unfolding v by simp
qed


text \<open>C25: The multiplication modulo the order, by shifting and subtracting, is exact for every modulus whose top word
  is not 0.\<close>

theorem long_reduction_exact:
  assumes "full_size md n" and "length l = n" and "length r = n"
  shows "length (uECC_vli_modMult l r md n) = n \<and> vli_val (uECC_vli_modMult l r md n) = vli_val l * vli_val r mod vli_val md"
  by (intro conjI modMult_val [OF assms])

theorem long_reduction_exact_witness:
  "vli_val (uECC_vli_modMult (curve_b curve_secp256k1) (curve_p curve_secp256k1) (curve_n curve_secp256k1) 8) = 7 * P_VAL mod N_VAL"
proof -
  have b: "vli_val (curve_b curve_secp256k1) = 7" by (simp add: curve_secp256k1_def)
  note r = long_reduction_exact [OF full_size_n curve_fields(7,4)]
  show ?thesis using conjunct2 [OF r] unfolding b curve_p_val curve_n_val .
qed

text \<open>C24: Inversion ends for every odd modulus above 1 and every number, and returns an inverse where there is one.\<close>

theorem inversion_terminates:
  assumes "length x = n" and "length md = n" and "0 < n" and "odd (vli_val md)" and "1 < vli_val md"
  shows "\<exists>u. uECC_vli_modInv x md n = Some u \<and> length u = n \<and> vli_val u < vli_val md \<and>
    vli_val u * vli_val x mod vli_val md = gcd (vli_val x) (vli_val md) mod vli_val md"
  by (rule modInv_total [OF assms])

theorem inversion_terminates_witness: "\<exists>u. uECC_vli_modInv [5, 0] [3, 1] 2 = Some u \<and> vli_val u * 5 mod (2 ^ 32 + 3) = 1"
proof -
  have g: "gcd 5 (2 ^ 32 + 3 :: nat) = 1" by (simp add: gcd_non_0_nat)
  show ?thesis using inversion_terminates [of "[5, 0]" 2 "[3, 1]"] g by auto
qed

text \<open>Native numbers and bytes: 32 bytes written from the number they were read into are the same bytes, and eight
  words read from the bytes they were written to are the same words.\<close>

theorem number_bytes_roundtrip:
  assumes "length bytes = 32" and "length native = 8"
  shows "uECC_vli_nativeToBytes 32 (uECC_vli_bytesToNative bytes 32) = bytes \<and>
    uECC_vli_bytesToNative (uECC_vli_nativeToBytes 32 native) 32 = native"
  using native_roundtrip [OF assms(1)] bytes_roundtrip [OF assms(2)] by simp

theorem number_bytes_roundtrip_witness:
  "uECC_vli_nativeToBytes 32 (uECC_vli_bytesToNative ex_hash 32) = ex_hash \<and>
   uECC_vli_bytesToNative (uECC_vli_nativeToBytes 32 (curve_n curve_secp256k1)) 32 = curve_n curve_secp256k1"
  by (rule number_bytes_roundtrip) (simp_all add: ex_lengths)

section \<open>Signing\<close>





end
