(* ===== verification/Genconf.thy ===== *)
theory Genconf
  imports Prelude "HOL-Library.Signed_Division"
begin

text \<open>
  The configuration generator \<^verbatim>\<open>platform/cfg_reader/genconf.c\<close>, which runs on the host at build time: it reads the
  configuration through libconfig and writes \<^verbatim>\<open>include/config.h\<close>, with the table \<open>VMCONF\<close> of the virtual machines: their TLB
  entries and their places in RAM and flash. The functions of libconfig are the fields of a record; a string is a C string without
  its final 0; a text is what the calls of \<open>fwrite\<close> have appended. Messages to \<open>stderr\<close> are left out.
\<close>

subsection \<open>Files\<close>

text \<open>A file and how many more characters can be written to it: \<open>fwrite\<close> writes as many as it can.\<close>

record FILE =
  ftext :: string
  froom :: nat

definition fwrite :: "string \<Rightarrow> FILE \<Rightarrow> nat \<times> FILE" where
  "fwrite str f = (let n = min (length str) (froom f)
     in (n, f\<lparr>ftext := ftext f @ take n str, froom := froom f - n\<rparr>))"

text \<open>A part of the program that writes to the file: \<open>None\<close> is undefined behaviour, \<open>Inl\<close> a return with an error code,
  \<open>Inr\<close> a result with which the program goes on; a function that returns 0 or a code is a \<open>unit gen\<close>. \<open>gbind\<close> is
  \<open>if ((ret = ...)) return ret;\<close>.\<close>

type_synonym 'a gen = "FILE \<Rightarrow> ((u32 + 'a) \<times> FILE) option"

abbreviation (input) "EXIT_FAILURE \<equiv> 1 :: u32"
abbreviation (input) "EXIT_SUCCESS \<equiv> 0 :: u32"

definition gret :: "'a \<Rightarrow> 'a gen" where
  "gret a f = Some (Inr a, f)"

definition gfail :: "u32 \<Rightarrow> 'a gen" where
  "gfail code f = Some (Inl code, f)"

definition gbind :: "'a gen \<Rightarrow> ('a \<Rightarrow> 'b gen) \<Rightarrow> 'b gen" where
  "gbind m k f = (case m f of None \<Rightarrow> None | Some (Inl code, f) \<Rightarrow> Some (Inl code, f) | Some (Inr a, f) \<Rightarrow> k a f)"

definition gopt :: "'a option \<Rightarrow> 'a gen" where
  "gopt v f = (case v of None \<Rightarrow> None | Some a \<Rightarrow> Some (Inr a, f))"

primrec gall :: "unit gen list \<Rightarrow> unit gen" where
  "gall [] = gret ()"
| "gall (m # ms) = gbind m (\<lambda>_. gall ms)"

subsection \<open>Strings\<close>

abbreviation (input) "STRSZ \<equiv> 128 :: nat"
abbreviation (input) "LARGESTR \<equiv> 1024 :: nat"

definition nl :: string where "nl = [CHR 0x0A]"
definition tabs :: "nat \<Rightarrow> string" where "tabs n = replicate n (CHR 0x09)"

text \<open>\<open>%d\<close>, \<open>%x\<close> and \<open>%05x\<close>; \<open>snprintf\<close> cuts the text off at the size of the buffer.\<close>

definition digit_chr :: "nat \<Rightarrow> char" where
  "digit_chr d = char_of (if d < 10 then 48 + d else 87 + d)"

fun show_base :: "nat \<Rightarrow> nat \<Rightarrow> string" where
  "show_base b n = (if b < 2 \<or> n < b then [digit_chr n] else show_base b (n div b) @ [digit_chr (n mod b)])"

declare show_base.simps [simp del]

definition fmt_d :: "u32 \<Rightarrow> string" where
  "fmt_d w = (if sint w < 0 then ''-'' @ show_base 10 (nat (- sint w)) else show_base 10 (nat (sint w)))"

definition fmt_x :: "u32 \<Rightarrow> string" where
  "fmt_x w = show_base 16 (unat w)"

definition fmt_05x :: "u32 \<Rightarrow> string" where
  "fmt_05x w = replicate (5 - length (fmt_x w)) (CHR ''0'') @ fmt_x w"

definition snprintf :: "nat \<Rightarrow> string \<Rightarrow> string" where
  "snprintf n str = take (n - 1) str"

text \<open>\<open>strncat\<close> on a buffer of \<open>buf\<close> bytes, and \<open>strncpy\<close> into one of which the copy is used as a string: the 0 at the end
  must have room.\<close>

definition strncat_buf :: "nat \<Rightarrow> nat \<Rightarrow> string \<Rightarrow> string \<Rightarrow> string option" where
  "strncat_buf buf n dest src = (let r = dest @ take n src in if length r < buf then Some r else None)"

definition strncpy_buf :: "nat \<Rightarrow> string \<Rightarrow> string option" where
  "strncpy_buf buf src = (if length src < buf then Some src else None)"

text \<open>\<open>strings_cat\<close>: the arguments end with a null pointer, at the end of the list or before. When the total is exactly the
  size of the buffer the final 0 is written behind it.\<close>

fun strings_cat_loop :: "nat \<Rightarrow> string \<Rightarrow> string option list \<Rightarrow> string option" where
  "strings_cat_loop n dest (Some c # arguments) =
     (let total = length dest + length c
      in if n < total then Some dest
         else if total = n then None
         else strings_cat_loop n (dest @ c) arguments)"
| "strings_cat_loop n dest _ = Some dest"

definition strings_cat :: "nat \<Rightarrow> string option list \<Rightarrow> string option" where
  "strings_cat n arguments = strings_cat_loop n [] arguments"

subsection \<open>Writing\<close>

definition write_to_conf_file :: "string \<Rightarrow> unit gen" where
  "write_to_conf_file str f =
     (let (n, f) = fwrite str f
      in if n \<noteq> length str then Some (Inl EXIT_FAILURE, f) else Some (Inr (), f))"

text \<open>The text may come from \<open>strings_cat\<close> or be a null pointer.\<close>

definition gput :: "string option \<Rightarrow> unit gen" where
  "gput str = gbind (gopt str) write_to_conf_file"

definition insert_blank_line :: "unit gen" where
  "insert_blank_line = write_to_conf_file nl"

definition initial_msg :: "string \<Rightarrow> unit gen" where
  "initial_msg conf_name = gall (map write_to_conf_file
     [''/* THIS FILE IS AUTOMATICALLY GENERATED. DO NOT MODIFY IT. */'' @ nl,
      ''/* See the input xml in '', conf_name, '' */'' @ nl @ nl,
      ''#ifndef __CONFIG_H'' @ nl @ ''#define __CONFIG_H'' @ nl @ nl,
      ''#include <vm.h>'' @ nl @ nl,
      ''#include <arch.h>'' @ nl @ nl])"


subsection \<open>Sizes and pages\<close>

record mem_sizes_def =
  ms_mask :: u32
  ms_value :: u32
  ms_name :: string

definition PageSizes :: "mem_sizes_def list" where
  "PageSizes = [
     \<lparr>ms_mask = 0xFFF, ms_value = 4096, ms_name = ''PAGEMASK_4KB''\<rparr>,
     \<lparr>ms_mask = 0x3FFF, ms_value = 16384, ms_name = ''PAGEMASK_16KB''\<rparr>,
     \<lparr>ms_mask = 0xFFFF, ms_value = 65536, ms_name = ''PAGEMASK_64KB''\<rparr>,
     \<lparr>ms_mask = 0x3FFFF, ms_value = 262144, ms_name = ''PAGEMASK_256KB''\<rparr>,
     \<lparr>ms_mask = 0xFFFFF, ms_value = 1048576, ms_name = ''PAGEMASK_1MB''\<rparr>,
     \<lparr>ms_mask = 0x3FFFFF, ms_value = 4194304, ms_name = ''PAGEMASK_4MB''\<rparr>,
     \<lparr>ms_mask = 0xFFFFFF, ms_value = 16777216, ms_name = ''PAGEMASK_16MB''\<rparr>,
     \<lparr>ms_mask = 0xFFFFFFF, ms_value = 268435456, ms_name = ''PAGEMASK_256MB''\<rparr>]"

definition MemSizes :: "mem_sizes_def list" where
  "MemSizes = map (\<lambda>(n, v). \<lparr>ms_mask = 0, ms_value = v, ms_name = n\<rparr>)
     [(''MEM_SIZE_4KB'', 4096), (''MEM_SIZE_8KB'', 8192), (''MEM_SIZE_16KB'', 16384), (''MEM_SIZE_32KB'', 32768),
      (''MEM_SIZE_64KB'', 65536), (''MEM_SIZE_128KB'', 131072), (''MEM_SIZE_256KB'', 262144),
      (''MEM_SIZE_512KB'', 524288), (''MEM_SIZE_1MB'', 1048576)]"

primrec get_value_from_str :: "mem_sizes_def list \<Rightarrow> string \<Rightarrow> u32" where
  "get_value_from_str [] str_name = 0"
| "get_value_from_str (m # mdef) str_name =
     (if ms_name m = str_name then ms_value m else get_value_from_str mdef str_name)"

text \<open>The page and whether a pair of pages is used.\<close>

definition select_page_mask :: "u32 \<Rightarrow> mem_sizes_def list \<Rightarrow> (mem_sizes_def \<times> bool) option" where
  "select_page_mask mem_size page_sizes =
     (let half_sz = word_of_int (sint mem_size sdiv 2)
      in case List.find (\<lambda>p. ms_value p = half_sz) page_sizes of
           Some p \<Rightarrow> Some (p, True)
         | None \<Rightarrow> (case List.find (\<lambda>p. ms_value p = mem_size) page_sizes of
               Some p \<Rightarrow> Some (p, False)
             | None \<Rightarrow> None))"

definition kseg0_addr_to_physical :: "u32 \<Rightarrow> u32" where
  "kseg0_addr_to_physical addr = drop_bit 12 (addr AND 0x1FFFFFFF)"

definition calculate_mem_base :: "mem_sizes_def \<Rightarrow> u32 \<Rightarrow> u32" where
  "calculate_mem_base page_size mem_base =
     (if mem_base mod ms_value page_size \<noteq> 0 then (mem_base + ms_value page_size) AND NOT (ms_mask page_size) else mem_base)"

text \<open>\<open>process_tlb_entry\<close> gives the new value of \<open>*mem_base\<close>.\<close>

definition entry_lo_text :: "u32 \<Rightarrow> u32 \<Rightarrow> bool \<Rightarrow> string option list" where
  "entry_lo_text mem_size mem_base dual_entry =
     [strings_cat STRSZ [Some (tabs 4 @ ''entrylo0: ''), Some (''0x'' @ fmt_05x (kseg0_addr_to_physical mem_base)), Some ('','' @ nl)],
      if dual_entry then strings_cat STRSZ [Some (tabs 4 @ ''entrylo1: ''),
          Some (''0x'' @ fmt_05x (kseg0_addr_to_physical (mem_base + mem_size div 2))), Some ('','' @ nl)]
      else Some (tabs 4 @ ''entrylo1: 0,'' @ nl)]"

definition process_tlb_entry :: "u32 \<Rightarrow> u32 \<Rightarrow> u32 \<Rightarrow> u32 gen" where
  "process_tlb_entry mem_size mem_base va =
     gbind (write_to_conf_file (tabs 3 @ ''{'' @ nl)) (\<lambda>_.
     case select_page_mask mem_size PageSizes of
       None \<Rightarrow> gfail EXIT_FAILURE
     | Some (page_size, dual_entry) \<Rightarrow>
         let mem_base = calculate_mem_base page_size mem_base
         in gbind (gall (map gput (entry_lo_text mem_size mem_base dual_entry @
              [strings_cat STRSZ [Some (tabs 4 @ ''pagemask: ''), Some (snprintf STRSZ (ms_name page_size)), Some ('','' @ nl)],
               strings_cat STRSZ [Some (tabs 4 @ ''entryhi: ''), Some (''0x'' @ fmt_05x (kseg0_addr_to_physical va)), Some ('','' @ nl)],
               Some (tabs 4 @ ''coherency: 2'' @ nl),
               Some (tabs 3 @ ''},'' @ nl)])))
            (\<lambda>_. gret mem_base))"

subsection \<open>The configuration\<close>

text \<open>What is used of libconfig. A lookup that fails gives \<open>None\<close>; so does an element that is not there (a null pointer).\<close>

record 'n libconfig =
  config_lookup :: "string \<Rightarrow> 'n option"
  config_lookup_int :: "string \<Rightarrow> u32 option"
  config_setting_length :: "'n \<Rightarrow> nat"
  config_setting_get_elem :: "'n \<Rightarrow> nat \<Rightarrow> 'n option"
  config_setting_get_string_elem :: "'n \<Rightarrow> nat \<Rightarrow> string option"
  config_setting_lookup :: "'n \<Rightarrow> string \<Rightarrow> 'n option"
  config_setting_lookup_string :: "'n \<Rightarrow> string \<Rightarrow> string option"
  config_setting_lookup_int :: "'n \<Rightarrow> string \<Rightarrow> u32 option"

definition gen_system_configuration :: "'n libconfig \<Rightarrow> unit gen" where
  "gen_system_configuration cfg = gall [
     case config_lookup cfg ''system.debug'' of
       None \<Rightarrow> gret ()
     | Some setting \<Rightarrow> gall (write_to_conf_file (''/* Debug UART prints */'' @ nl) #
         map (\<lambda>i. gput (strings_cat STRSZ [Some ''#define '', config_setting_get_string_elem cfg setting i, Some nl]))
           [0..<config_setting_length cfg setting]),
     insert_blank_line,
     write_to_conf_file (''/* Hypervisor kernel configuration */'' @ nl),
     gput (strings_cat STRSZ [Some ''#define MILISECOND '', Some ''('', Some ''(CPU_FREQ/2)'', Some ''/ 1000)'', Some nl]),
     case config_lookup_int cfg ''system.uart_speed'' of
       None \<Rightarrow> gret ()
     | Some v \<Rightarrow> gput (strings_cat STRSZ [Some ''#define UART_SPEED '', Some (snprintf STRSZ (fmt_d v)), Some nl]),
     case config_lookup_int cfg ''system.scheduler_quantum_ms'' of
       None \<Rightarrow> gret ()
     | Some v \<Rightarrow> if v <s 3 then gfail (- 1)
         else gput (strings_cat STRSZ [Some ''#define QUANTUM_SCHEDULER_MS '', Some (snprintf STRSZ (fmt_d v)), Some ('' '' @ nl)]),
     case config_lookup_int cfg ''system.guest_quantum_ms'' of
       None \<Rightarrow> gret ()
     | Some v \<Rightarrow> gput (strings_cat STRSZ [Some ''#define GUEST_QUANTUM_MS '', Some (snprintf STRSZ (fmt_d v)), Some ('' '' @ nl)]),
     insert_blank_line]"


subsection \<open>The virtual machines\<close>

abbreviation (input) "VMS_RAM_INTERMEDIATE_BASE_ADDRESS \<equiv> 0x80008000 :: u32"
abbreviation (input) "VMS_RAM_VIRTUAL_BASE_ADDRESS \<equiv> 0x80000000 :: u32"
abbreviation (input) "VMS_FLASH_INTERMEDIATE_BASE_ADDRESS \<equiv> 0x9D010000 :: u32"
abbreviation (input) "VMS_FLASH_VIRTUAL_BASE_ADDRESS \<equiv> 0x9D000000 :: u32"
abbreviation (input) "TOTAL_TLB_ENTRIES \<equiv> 15 :: nat"

text \<open>The variables of \<open>gen_conf_vms\<close> that live from one machine to the next.\<close>

record gen_vars =
  vm_number :: nat
  vm_ram_inter_addr :: u32
  vm_flash_inter_addr :: u32
  total_tlb_entries :: nat
  app_list :: string
  vms_info :: string

definition fmt_nat :: "nat \<Rightarrow> string" where
  "fmt_nat n = show_base 10 n"

definition gen_devices :: "'n libconfig \<Rightarrow> 'n \<Rightarrow> unit gen" where
  "gen_devices cfg vm_conf =
     (case config_setting_lookup cfg vm_conf ''device_mapping'' of
        None \<Rightarrow> gret ()
      | Some setting \<Rightarrow> let int_sz = config_setting_length cfg setting in gall (map gput (
          [Some (snprintf STRSZ (tabs 2 @ ''devices_mapping_sz: '' @ fmt_nat int_sz @ '','' @ nl)),
           Some (tabs 2 @ ''devices: (const struct device_mapping_t const []) {'' @ nl)] @
          concat (map (\<lambda>i. let device_name = config_setting_get_string_elem cfg setting i in
            [Some (tabs 3 @ ''{'' @ nl),
             strings_cat STRSZ [Some (tabs 4 @ ''start_addr: ''), device_name, Some (''_BASE,'' @ nl)],
             strings_cat STRSZ [Some (tabs 4 @ ''size: ''), device_name, Some (''_SIZE,'' @ nl)],
             Some (tabs 3 @ ''},'' @ nl)]) [0..<int_sz]) @
          [Some (tabs 2 @ ''},'' @ nl)])))"

text \<open>\<open>fast_interrupts\<close> and \<open>interrupt_redirect\<close> differ in the names only.\<close>

definition gen_interrupts :: "'n libconfig \<Rightarrow> 'n \<Rightarrow> string \<Rightarrow> string \<Rightarrow> unit gen" where
  "gen_interrupts cfg vm_conf name sz_name =
     (case config_setting_lookup cfg vm_conf name of
        None \<Rightarrow> gret ()
      | Some setting \<Rightarrow> let int_sz = config_setting_length cfg setting in gall (map gput (
          [Some (snprintf STRSZ (tabs 2 @ sz_name @ '': '' @ fmt_nat int_sz @ '','' @ nl)),
           Some (tabs 2 @ name @ '': (uint32_t []) {'')] @
          concat (map (\<lambda>i. (if 0 < i then [Some '', ''] else []) @ [config_setting_get_string_elem cfg setting i]) [0..<int_sz]) @
          [Some ('' },'' @ nl)])))"

text \<open>A size by name, of a machine or of a mapping.\<close>

definition gen_size :: "'n libconfig \<Rightarrow> 'n \<Rightarrow> string \<Rightarrow> u32 gen" where
  "gen_size cfg vm_conf name =
     (case config_setting_lookup_string cfg vm_conf name of
        None \<Rightarrow> gfail EXIT_FAILURE
      | Some auxstr \<Rightarrow> let sz = get_value_from_str MemSizes auxstr in if sz = 0 then gfail EXIT_FAILURE else gret sz)"

definition num_maps :: "'n libconfig \<Rightarrow> 'n \<Rightarrow> nat" where
  "num_maps cfg vm_conf = (case config_setting_lookup cfg vm_conf ''memory_maps'' of
     None \<Rightarrow> 0 | Some mem_maps \<Rightarrow> config_setting_length cfg mem_maps)"

definition gen_map :: "'n libconfig \<Rightarrow> 'n \<Rightarrow> nat \<Rightarrow> unit gen" where
  "gen_map cfg vm_conf j =
     gbind (gopt (do { mem_maps \<leftarrow> config_setting_lookup cfg vm_conf ''memory_maps''; config_setting_get_elem cfg mem_maps j })) (\<lambda>mm.
     case config_setting_lookup_int cfg mm ''base_addr'' of
       None \<Rightarrow> gfail EXIT_FAILURE
     | Some base_addr \<Rightarrow>
         gbind (gen_size cfg mm ''page_size'') (\<lambda>page_size.
         gbind (process_tlb_entry page_size base_addr base_addr) (\<lambda>_. gret ())))"

text \<open>One machine: what comes before its TLB entries, the entries, and the rest.\<close>

definition gen_vm_head :: "'n libconfig \<Rightarrow> 'n \<Rightarrow> gen_vars \<Rightarrow> (string \<times> gen_vars) gen" where
  "gen_vm_head cfg vm_conf g =
     (case config_setting_lookup_string cfg vm_conf ''app_name'' of
        None \<Rightarrow> gfail EXIT_FAILURE
      | Some auxstr \<Rightarrow>
          gbind (gopt (do { a \<leftarrow> strncat_buf STRSZ STRSZ (app_list g) auxstr; strncat_buf STRSZ STRSZ a '' '' })) (\<lambda>apps.
          gbind (gopt (strncpy_buf STRSZ auxstr)) (\<lambda>app_name.
          gbind (gput (strings_cat STRSZ [Some (tabs 2 @ ''vm_name: ''), Some [CHR 0x22], Some app_name, Some ([CHR 0x22] @ '','' @ nl)])) (\<lambda>_.
          case config_setting_lookup_string cfg vm_conf ''os_type'' of
            None \<Rightarrow> gfail EXIT_FAILURE
          | Some auxstr \<Rightarrow>
              gbind (gall [
                gput (strings_cat STRSZ [Some (tabs 2 @ ''os_type: ''), Some auxstr, Some ('','' @ nl)]),
                gen_devices cfg vm_conf,
                gen_interrupts cfg vm_conf ''fast_interrupts'' ''fast_int_sz'',
                gen_interrupts cfg vm_conf ''interrupt_redirect'' ''interrupt_redirect_sz'']) (\<lambda>_.
              let aux = num_maps cfg vm_conf + 2
              in gbind (gput (Some (snprintf STRSZ (tabs 2 @ ''num_tlb_entries: 0x'' @ show_base 16 aux @ '','' @ nl)))) (\<lambda>_.
              let total = total_tlb_entries g + aux
              in if TOTAL_TLB_ENTRIES < total then gfail EXIT_FAILURE
                 else gret (app_name, g\<lparr>app_list := apps, total_tlb_entries := total\<rparr>)))))))"

text \<open>The sizes of RAM and flash, and their places.\<close>

definition gen_vm_tlb :: "'n libconfig \<Rightarrow> 'n \<Rightarrow> gen_vars \<Rightarrow> (u32 \<times> u32 \<times> u32 \<times> u32) gen" where
  "gen_vm_tlb cfg vm_conf g =
     gbind (write_to_conf_file (tabs 2 @ ''tlb: (const struct tlb_entries const []){'' @ nl)) (\<lambda>_.
     gbind (gen_size cfg vm_conf ''RAM_size_bytes'') (\<lambda>ram_size.
     gbind (process_tlb_entry ram_size (vm_ram_inter_addr g) VMS_RAM_VIRTUAL_BASE_ADDRESS) (\<lambda>ram.
     gbind (gen_size cfg vm_conf ''flash_size_bytes'') (\<lambda>flash_size.
     gbind (process_tlb_entry flash_size (vm_flash_inter_addr g) VMS_FLASH_VIRTUAL_BASE_ADDRESS) (\<lambda>flash.
     gbind (gall (map (gen_map cfg vm_conf) [0..<num_maps cfg vm_conf])) (\<lambda>_.
     gret (ram_size, ram, flash_size, flash)))))))"

definition gen_vm_tail :: "string \<Rightarrow> u32 \<times> u32 \<times> u32 \<times> u32 \<Rightarrow> gen_vars \<Rightarrow> gen_vars gen" where
  "gen_vm_tail app_name = (\<lambda>(ram_size, ram, flash_size, flash) g.
     gbind (gall (map write_to_conf_file [
       tabs 2 @ ''},'' @ nl,
       snprintf STRSZ (tabs 2 @ ''ram_base: 0x'' @ fmt_x ram @ '','' @ nl),
       snprintf STRSZ (tabs 2 @ ''flash_size: 0x'' @ fmt_x flash_size @ '','' @ nl),
       snprintf STRSZ (tabs 2 @ ''flash_base_add: 0x'' @ fmt_x flash @ nl)])) (\<lambda>_.
     let auxstr = snprintf STRSZ (fmt_d flash_size @ '' '' @ tabs 1 @ fmt_d ram_size @ '' '' @ tabs 1 @ ''0x'' @ fmt_x flash @ nl)
     in gbind (gopt (do {
          str \<leftarrow> strings_cat STRSZ [Some app_name, Some ('' '' @ tabs 1), Some auxstr];
          strncat_buf LARGESTR (length str) (vms_info g) str })) (\<lambda>info.
        gbind (write_to_conf_file (tabs 1 @ ''},'' @ nl)) (\<lambda>_.
        gret (g\<lparr>vms_info := info, vm_ram_inter_addr := ram + ram_size, vm_flash_inter_addr := flash + flash_size,
          vm_number := vm_number g + 1\<rparr>)))))"

definition gen_vm :: "'n libconfig \<Rightarrow> 'n \<Rightarrow> nat \<Rightarrow> gen_vars \<Rightarrow> gen_vars gen" where
  "gen_vm cfg setting i g =
     gbind (write_to_conf_file (snprintf STRSZ (tabs 1 @ ''{ /* VM#'' @ fmt_nat (vm_number g) @ '' */'' @ nl))) (\<lambda>_.
     gbind (gopt (config_setting_get_elem cfg setting i)) (\<lambda>vm_conf.
     gbind (gen_vm_head cfg vm_conf g) (\<lambda>(app_name, g).
     gbind (gen_vm_tlb cfg vm_conf g) (\<lambda>placed. gen_vm_tail app_name placed g))))"

primrec gen_vms :: "'n libconfig \<Rightarrow> 'n \<Rightarrow> nat list \<Rightarrow> gen_vars \<Rightarrow> gen_vars gen" where
  "gen_vms cfg setting [] g = gret g"
| "gen_vms cfg setting (i # is) g = gbind (gen_vm cfg setting i g) (gen_vms cfg setting is)"

text \<open>The list of names, the number of machines and the contents of \<^verbatim>\<open>vms.info\<close>.\<close>

definition gen_conf_vms :: "'n libconfig \<Rightarrow> (string \<times> nat \<times> string) gen" where
  "gen_conf_vms cfg =
     gbind (write_to_conf_file (''/* VMs mapping */'' @ nl)) (\<lambda>_.
     case config_lookup cfg ''virtual_machines'' of
       None \<Rightarrow> gfail EXIT_FAILURE
     | Some setting \<Rightarrow>
         gbind (write_to_conf_file (''static const struct vmconf_t const VMCONF[] = {'' @ nl)) (\<lambda>_.
         let num_el = config_setting_length cfg setting
         in gbind (gen_vms cfg setting [0..<num_el] \<lparr>vm_number = 1, vm_ram_inter_addr = VMS_RAM_INTERMEDIATE_BASE_ADDRESS,
              vm_flash_inter_addr = VMS_FLASH_INTERMEDIATE_BASE_ADDRESS, total_tlb_entries = 0, app_list = [],
              vms_info = ''VM name '' @ tabs 1 @ ''flash_size '' @ tabs 1 @ ''ram_size '' @ tabs 1 @ '' address_start'' @ nl\<rparr>) (\<lambda>g.
            gbind (write_to_conf_file (''};'' @ nl)) (\<lambda>_. gret (app_list g, num_el, vms_info g)))))"

subsection \<open>The program\<close>

definition write_vm_number :: "nat \<Rightarrow> string \<Rightarrow> unit gen" where
  "write_vm_number vm_count apps = gall [
     insert_blank_line,
     gput (strings_cat STRSZ [Some ''/* Virtual Machine names: '', Some apps, Some ('' */'' @ nl)]),
     gput (strings_cat STRSZ [Some ''#define NVMACHINES '', Some (snprintf STRSZ (fmt_nat vm_count)), Some nl])]"

definition rt_vm_list :: "unit gen" where
  "rt_vm_list = gall [insert_blank_line, write_to_conf_file (''#endif'' @ nl @ nl)]"

text \<open>\<open>write_str_to_file\<close>: the file is \<open>None\<close> when it cannot be opened.\<close>

definition write_str_to_file :: "string \<Rightarrow> FILE option \<Rightarrow> u32 \<times> FILE option" where
  "write_str_to_file str fl =
     (case fl of None \<Rightarrow> (EXIT_FAILURE, None)
      | Some f \<Rightarrow> let (n, f) = fwrite str f in (if n \<noteq> length str then EXIT_FAILURE else 0, Some f))"

text \<open>\<open>main\<close>: from the arguments, what libconfig makes of the input, and the two files that are written (\<open>None\<close>: it cannot be
  opened) to the exit code and the files. Every error code of the parts becomes \<open>EXIT_FAILURE\<close>.\<close>

definition genconf_main :: "string list \<Rightarrow> 'n libconfig option \<Rightarrow> FILE option \<Rightarrow> FILE option \<Rightarrow> (u32 \<times> FILE option \<times> FILE option) option" where
  "genconf_main argv input outfile infofile =
     (if length argv < 2 then Some (EXIT_FAILURE, outfile, infofile)
      else case input of None \<Rightarrow> Some (EXIT_FAILURE, outfile, infofile)
      | Some cfg \<Rightarrow> (case outfile of None \<Rightarrow> Some (EXIT_FAILURE, None, infofile)
        | Some f \<Rightarrow> do {
            (r, f) \<leftarrow> gbind (gall [initial_msg (argv ! 1), gen_system_configuration cfg]) (\<lambda>_. gen_conf_vms cfg) f;
            case r of Inl _ \<Rightarrow> Some (EXIT_FAILURE, Some f, infofile)
            | Inr (apps, vm_count, info) \<Rightarrow>
                let (code, infofile) = write_str_to_file info infofile
                in if code \<noteq> 0 then Some (EXIT_FAILURE, Some f, infofile)
                   else do {
                     (r, f) \<leftarrow> gall [write_vm_number vm_count apps, rt_vm_list] f;
                     Some (case r of Inl _ \<Rightarrow> EXIT_FAILURE | Inr _ \<Rightarrow> EXIT_SUCCESS, Some f, infofile) } }))"

end
