(* ===== verification/GenconfSpec.thy ===== *)
theory GenconfSpec
  imports Genconf
begin

text \<open>
  What the configuration generator writes: \<open>gen_conf_vms_writes\<close> says that a successful run appends the table of a plan
  (\<open>render_table\<close>), in which every machine has the names of the configuration and regions of RAM and flash of the sizes it
  asks for, one after the other (\<open>plans_of_conf\<close>).
\<close>

named_theorems gen_iff "when a part of the generator succeeds"
named_theorems emit "parts of the generator as the text they write"

subsection \<open>Successful runs\<close>

definition wrote :: "string \<Rightarrow> FILE \<Rightarrow> FILE" where
  "wrote t f = f\<lparr>ftext := ftext f @ t, froom := froom f - length t\<rparr>"

lemma wrote_wrote [simp]: "wrote b (wrote a f) = wrote (a @ b) f"
  by (simp add: wrote_def)

lemma wrote_nil [simp]: "wrote [] f = f"
  by (simp add: wrote_def)

lemma ftext_wrote [simp]: "ftext (wrote t f) = ftext f @ t"
  by (simp add: wrote_def)

lemma gbind_Inr [gen_iff]:
  "gbind m k f = Some (Inr b, f') \<longleftrightarrow> (\<exists>a f1. m f = Some (Inr a, f1) \<and> k a f1 = Some (Inr b, f'))"
  by (auto simp: gbind_def split: option.splits sum.splits)

lemma gret_Inr [gen_iff]: "gret a f = Some (Inr b, f') \<longleftrightarrow> b = a \<and> f' = f"
  by (auto simp: gret_def)

lemma gfail_Inr [gen_iff]: "gfail c f = Some (Inr b, f') \<longleftrightarrow> False"
  by (simp add: gfail_def)

lemma gopt_Inr [gen_iff]: "gopt v f = Some (Inr b, f') \<longleftrightarrow> v = Some b \<and> f' = f"
  by (auto simp: gopt_def split: option.splits)

lemma write_Inr: "write_to_conf_file str f = Some (Inr u, f') \<longleftrightarrow> length str \<le> froom f \<and> f' = wrote str f"
  by (auto simp: write_to_conf_file_def fwrite_def wrote_def Let_def)

lemma write_wrote: "write_to_conf_file str f = Some (Inr u, f') \<Longrightarrow> f' = wrote str f"
  by (simp add: write_Inr)

lemma gput_wrote: "gput s f = Some (Inr u, f') \<Longrightarrow> \<exists>t. s = Some t \<and> f' = wrote t f"
  by (auto simp: gput_def gen_iff write_Inr)

lemma gall_gput:
  "gall (map gput xs) f = Some (Inr u, f') \<Longrightarrow> None \<notin> set xs \<and> f' = wrote (concat (map the xs)) f"
proof (induction xs arbitrary: f)
  case (Cons x xs)
  then obtain f1 where f1: "gput x f = Some (Inr (), f1)" "gall (map gput xs) f1 = Some (Inr u, f')"
    by (auto simp: gen_iff)
  then show ?case using gput_wrote [OF f1(1)] Cons.IH [OF f1(2)] by auto
qed (simp add: gen_iff)

lemma gall_write: "gall (map write_to_conf_file xs) f = Some (Inr u, f') \<Longrightarrow> f' = wrote (concat xs) f"
proof (induction xs arbitrary: f)
  case (Cons x xs)
  then obtain f1 where f1: "write_to_conf_file x f = Some (Inr (), f1)" "gall (map write_to_conf_file xs) f1 = Some (Inr u, f')"
    by (auto simp: gen_iff)
  then show ?case using Cons.IH [OF f1(2)] by (auto simp: write_Inr)
qed (simp add: gen_iff)

subsection \<open>Parts that only write\<close>

text \<open>\<open>emits t a\<close> writes \<open>t\<close>, as far as there is room, and goes on with \<open>a\<close>.\<close>

definition emits :: "string \<Rightarrow> 'a \<Rightarrow> 'a gen" where
  "emits t a f = (if length t \<le> froom f then Some (Inr a, wrote t f) else Some (Inl EXIT_FAILURE, wrote (take (froom f) t) f))"

lemma emits_success: "m = emits t a \<Longrightarrow> m f = Some (Inr b, f') \<Longrightarrow> b = a \<and> f' = wrote t f"
  by (auto simp: emits_def split: if_splits)

lemma emits_ret [emit]: "gret a = emits [] a" "gopt (Some a) = emits [] a"
  by (auto simp: gret_def gopt_def emits_def)

lemma emits_write [emit]: "write_to_conf_file t = emits t ()"
  by (rule ext) (auto simp: write_to_conf_file_def fwrite_def wrote_def emits_def Let_def)

lemma emits_bind: "k a = emits t' b \<Longrightarrow> gbind (emits t a) k = emits (t @ t') b"
proof (rule ext)
  fix f assume k: "k a = emits t' b"
  show "gbind (emits t a) k f = emits (t @ t') b f"
  proof (cases "length t \<le> froom f")
    case True
    then have "gbind (emits t a) k f = emits t' b (wrote t f)" using k by (simp add: gbind_def emits_def)
    then show ?thesis using True by (auto simp: emits_def wrote_def)
  qed (simp add: gbind_def emits_def)
qed

lemma emits_nil [simp]: "gbind (emits [] a) k = k a"
  by (rule ext) (simp add: gbind_def emits_def)

lemma emits_gput [emit]: "gput (Some t) = emits t ()"
  by (simp add: gput_def emit)

lemma emits_gall: "list_all2 (\<lambda>m t. m = emits t ()) ms ts \<Longrightarrow> gall ms = emits (concat ts) ()"
  by (induction ms ts rule: list_all2_induct) (simp_all add: emit emits_bind)

lemma emits_texts: "gall (map gput (map Some ts)) = emits (concat ts) ()"
  by (rule emits_gall) (simp add: list_all2_conv_all_nth emit)

subsection \<open>Lengths of texts\<close>

lemma strings_cat_short:
  "sum_list (map length cs) < n \<Longrightarrow> strings_cat n (map Some cs) = Some (concat cs)"
proof -
  have "length dest + sum_list (map length cs) < n \<Longrightarrow> strings_cat_loop n dest (map Some cs) = Some (dest @ concat cs)" for dest
    by (induction cs arbitrary: dest) (auto simp: Let_def)
  from this [of "[]"] show "sum_list (map length cs) < n \<Longrightarrow> ?thesis" by (simp add: strings_cat_def)
qed

lemma show_base_length:
  assumes "2 \<le> b" and "n < b ^ k" and "0 < k"
  shows "length (show_base b n) \<le> k"
  using assms(2,3)
proof (induction k arbitrary: n)
  case (Suc k)
  show ?case
  proof (cases "n < b")
    case False
    then have "0 < k" using Suc.prems assms(1) by (cases k) auto
    moreover have "n div b < b ^ k" using Suc.prems(1) assms(1) by (simp add: less_mult_imp_div_less mult.commute)
    ultimately show ?thesis using Suc.IH [of "n div b"] False assms(1) by (subst show_base.simps) simp
  qed (subst show_base.simps, simp)
qed simp

lemma fmt_lengths: "length (fmt_x w) \<le> 8" "length (fmt_d w) \<le> 11" "length (fmt_05x w) \<le> 8"
proof -
  have u: "unat w < 16 ^ 8" using unat_lt32 [of w] by simp
  then show x: "length (fmt_x w) \<le> 8" unfolding fmt_x_def by (rule show_base_length [rotated]) simp_all
  then show "length (fmt_05x w) \<le> 8" by (simp add: fmt_05x_def)
  have "sint w < 2 ^ 31" "- (2 ^ 31) \<le> sint w" using sint_lt [of w] sint_ge [of w] by simp_all
  then have "nat (sint w) < 10 ^ 10" "nat (- sint w) < 10 ^ 10" by (simp_all add: nat_less_iff)
  then have "length (show_base 10 (nat (sint w))) \<le> 10" "length (show_base 10 (nat (- sint w))) \<le> 10"
    by (auto intro!: show_base_length)
  then show "length (fmt_d w) \<le> 11" by (simp add: fmt_d_def)
qed

subsection \<open>The plan of a configuration\<close>

text \<open>A region of a machine: a virtual address, the place it is mapped to and its size.\<close>

record region =
  rg_size :: u32
  rg_base :: u32
  rg_va :: u32

record vm_plan =
  vp_name :: string
  vp_os :: string
  vp_devices :: "string option list option"
  vp_fast :: "string option list option"
  vp_redirect :: "string option list option"
  vp_ram :: region
  vp_flash :: region
  vp_maps :: "region list"

definition vp_regions :: "vm_plan \<Rightarrow> region list" where
  "vp_regions p = vp_ram p # vp_flash p # vp_maps p"

text \<open>The page of a size, and the next place that is aligned to it.\<close>

definition page_of :: "u32 \<Rightarrow> mem_sizes_def \<times> bool" where
  "page_of sz = the (select_page_mask sz PageSizes)"

definition fit :: "u32 \<Rightarrow> u32 \<Rightarrow> u32" where
  "fit sz base = calculate_mem_base (fst (page_of sz)) base"

definition mem_sizes :: "u32 set" where
  "mem_sizes = ms_value ` set MemSizes"

subsection \<open>The text of a plan\<close>

definition hex05 :: "u32 \<Rightarrow> string" where
  "hex05 addr = ''0x'' @ fmt_05x (kseg0_addr_to_physical addr)"

definition render_region :: "region \<Rightarrow> string" where
  "render_region r =
     tabs 3 @ ''{'' @ nl @
     tabs 4 @ ''entrylo0: '' @ hex05 (rg_base r) @ '','' @ nl @
     tabs 4 @ ''entrylo1: '' @ (if snd (page_of (rg_size r)) then hex05 (rg_base r + rg_size r div 2) else ''0'') @ '','' @ nl @
     tabs 4 @ ''pagemask: '' @ ms_name (fst (page_of (rg_size r))) @ '','' @ nl @
     tabs 4 @ ''entryhi: '' @ hex05 (rg_va r) @ '','' @ nl @
     tabs 4 @ ''coherency: 2'' @ nl @
     tabs 3 @ ''},'' @ nl"

definition render_devices :: "string option list option \<Rightarrow> string" where
  "render_devices ds = (case ds of None \<Rightarrow> [] | Some ds \<Rightarrow>
     tabs 2 @ ''devices_mapping_sz: '' @ fmt_nat (length ds) @ '','' @ nl @
     tabs 2 @ ''devices: (const struct device_mapping_t const []) {'' @ nl @
     concat (map (\<lambda>d. tabs 3 @ ''{'' @ nl @
       tabs 4 @ ''start_addr: '' @ the d @ ''_BASE,'' @ nl @
       tabs 4 @ ''size: '' @ the d @ ''_SIZE,'' @ nl @
       tabs 3 @ ''},'' @ nl) ds) @
     tabs 2 @ ''},'' @ nl)"

definition separated :: "string list \<Rightarrow> string" where
  "separated xs = concat (map (\<lambda>i. (if 0 < i then '', '' else []) @ xs ! i) [0..<length xs])"

definition render_interrupts :: "string \<Rightarrow> string \<Rightarrow> string option list option \<Rightarrow> string" where
  "render_interrupts name sz_name is = (case is of None \<Rightarrow> [] | Some is \<Rightarrow>
     tabs 2 @ sz_name @ '': '' @ fmt_nat (length is) @ '','' @ nl @
     tabs 2 @ name @ '': (uint32_t []) {'' @ separated (map the is) @ '' },'' @ nl)"

definition render_vm :: "nat \<Rightarrow> vm_plan \<Rightarrow> string" where
  "render_vm k p =
     tabs 1 @ ''{ /* VM#'' @ fmt_nat k @ '' */'' @ nl @
     tabs 2 @ ''vm_name: '' @ [CHR 0x22] @ vp_name p @ [CHR 0x22] @ '','' @ nl @
     tabs 2 @ ''os_type: '' @ vp_os p @ '','' @ nl @
     render_devices (vp_devices p) @
     render_interrupts ''fast_interrupts'' ''fast_int_sz'' (vp_fast p) @
     render_interrupts ''interrupt_redirect'' ''interrupt_redirect_sz'' (vp_redirect p) @
     tabs 2 @ ''num_tlb_entries: 0x'' @ show_base 16 (length (vp_regions p)) @ '','' @ nl @
     tabs 2 @ ''tlb: (const struct tlb_entries const []){'' @ nl @
     concat (map render_region (vp_regions p)) @
     tabs 2 @ ''},'' @ nl @
     tabs 2 @ ''ram_base: 0x'' @ fmt_x (rg_base (vp_ram p)) @ '','' @ nl @
     tabs 2 @ ''flash_size: 0x'' @ fmt_x (rg_size (vp_flash p)) @ '','' @ nl @
     tabs 2 @ ''flash_base_add: 0x'' @ fmt_x (rg_base (vp_flash p)) @ nl @
     tabs 1 @ ''},'' @ nl"

primrec render_vms :: "nat \<Rightarrow> vm_plan list \<Rightarrow> string" where
  "render_vms k [] = []"
| "render_vms k (p # ps) = render_vm k p @ render_vms (k + 1) ps"

definition render_table :: "vm_plan list \<Rightarrow> string" where
  "render_table ps =
     ''/* VMs mapping */'' @ nl @
     ''static const struct vmconf_t const VMCONF[] = {'' @ nl @
     render_vms 1 ps @
     ''};'' @ nl"

subsection \<open>Where a plan comes from\<close>

text \<open>The names of an array setting.\<close>

definition elems_of :: "'n libconfig \<Rightarrow> 'n \<Rightarrow> string \<Rightarrow> string option list option" where
  "elems_of cfg node name = map_option
     (\<lambda>setting. map (config_setting_get_string_elem cfg setting) [0..<config_setting_length cfg setting])
     (config_setting_lookup cfg node name)"

definition size_of :: "'n libconfig \<Rightarrow> 'n \<Rightarrow> string \<Rightarrow> u32 option" where
  "size_of cfg node name = map_option (get_value_from_str MemSizes) (config_setting_lookup_string cfg node name)"

text \<open>The mapping number \<open>j\<close> of a machine. The virtual address is the address of the configuration, the place the next
  aligned one.\<close>

definition map_of_conf :: "'n libconfig \<Rightarrow> 'n \<Rightarrow> nat \<Rightarrow> region option" where
  "map_of_conf cfg node j = do {
     mem_maps \<leftarrow> config_setting_lookup cfg node ''memory_maps'';
     mm \<leftarrow> config_setting_get_elem cfg mem_maps j;
     base_addr \<leftarrow> config_setting_lookup_int cfg mm ''base_addr'';
     sz \<leftarrow> size_of cfg mm ''page_size'';
     Some \<lparr>rg_size = sz, rg_base = fit sz base_addr, rg_va = base_addr\<rparr> }"

definition plan_of_conf :: "'n libconfig \<Rightarrow> 'n \<Rightarrow> u32 \<Rightarrow> u32 \<Rightarrow> vm_plan \<Rightarrow> bool" where
  "plan_of_conf cfg node ram flash p \<longleftrightarrow>
     config_setting_lookup_string cfg node ''app_name'' = Some (vp_name p) \<and>
     config_setting_lookup_string cfg node ''os_type'' = Some (vp_os p) \<and>
     vp_devices p = elems_of cfg node ''device_mapping'' \<and>
     vp_fast p = elems_of cfg node ''fast_interrupts'' \<and>
     vp_redirect p = elems_of cfg node ''interrupt_redirect'' \<and>
     size_of cfg node ''RAM_size_bytes'' = Some (rg_size (vp_ram p)) \<and>
     vp_ram p = \<lparr>rg_size = rg_size (vp_ram p), rg_base = fit (rg_size (vp_ram p)) ram, rg_va = VMS_RAM_VIRTUAL_BASE_ADDRESS\<rparr> \<and>
     size_of cfg node ''flash_size_bytes'' = Some (rg_size (vp_flash p)) \<and>
     vp_flash p = \<lparr>rg_size = rg_size (vp_flash p), rg_base = fit (rg_size (vp_flash p)) flash, rg_va = VMS_FLASH_VIRTUAL_BASE_ADDRESS\<rparr> \<and>
     map (map_of_conf cfg node) [0..<num_maps cfg node] = map Some (vp_maps p)"

text \<open>The plans of the elements of a list of machines, from given places in RAM and flash on.\<close>

fun plans_of_conf :: "'n libconfig \<Rightarrow> 'n option list \<Rightarrow> u32 \<Rightarrow> u32 \<Rightarrow> vm_plan list \<Rightarrow> bool" where
  "plans_of_conf cfg [] ram flash ps = (ps = [])"
| "plans_of_conf cfg (None # ns) ram flash ps = False"
| "plans_of_conf cfg (Some n # ns) ram flash [] = False"
| "plans_of_conf cfg (Some n # ns) ram flash (p # ps) =
     (plan_of_conf cfg n ram flash p \<and>
      plans_of_conf cfg ns (rg_base (vp_ram p) + rg_size (vp_ram p)) (rg_base (vp_flash p) + rg_size (vp_flash p)) ps)"

text \<open>A configuration within what the generator can print: strings that fit its buffers with what is around them, array
  lengths that are an \<open>int\<close>, and names, not other values, as the devices of a machine.\<close>

definition printable :: "'n libconfig \<Rightarrow> bool" where
  "printable cfg \<longleftrightarrow> (\<forall>n k s. config_setting_lookup_string cfg n k = Some s \<longrightarrow> length s \<le> 80) \<and>
     (\<forall>n i s. config_setting_get_string_elem cfg n i = Some s \<longrightarrow> length s \<le> 80) \<and>
     (\<forall>n. config_setting_length cfg n < 2 ^ 31) \<and>
     (\<forall>m n i. config_setting_lookup cfg m ''device_mapping'' = Some n \<longrightarrow> i < config_setting_length cfg n \<longrightarrow>
        config_setting_get_string_elem cfg n i \<noteq> None)"

subsection \<open>The text that is written\<close>

lemma strings_cat_texts:
  "length a + length b + length c < n \<Longrightarrow> strings_cat n [Some a, Some b, Some c] = Some (a @ b @ c)"
  "length a + length b + length c + length d < n \<Longrightarrow> strings_cat n [Some a, Some b, Some c, Some d] = Some (a @ b @ c @ d)"
  using strings_cat_short [of "[a, b, c]" n] strings_cat_short [of "[a, b, c, d]" n] by simp_all

lemma snprintf_short: "length str < n \<Longrightarrow> snprintf n str = str"
  by (simp add: snprintf_def)

lemma text_lengths [simp]: "length (tabs n) = n" "length nl = 1"
  by (simp_all add: tabs_def nl_def)

lemma fmt_nat_length: "n < 2 ^ 32 \<Longrightarrow> length (fmt_nat n) \<le> 10" "n < 2 ^ 32 \<Longrightarrow> length (show_base 16 n) \<le> 8"
  unfolding fmt_nat_def by (auto intro!: show_base_length elim: less_le_trans)

lemma hex05_length: "length (hex05 a) \<le> 10"
  using fmt_lengths(3) [of "kseg0_addr_to_physical a"] by (simp add: hex05_def)

lemma select_page_in: "select_page_mask sz ps = Some (p, d) \<Longrightarrow> p \<in> set ps"
  by (auto simp: select_page_mask_def Let_def find_Some_iff split: option.splits)

lemma page_names: "p \<in> set PageSizes \<Longrightarrow> length (ms_name p) \<le> 14"
  by (auto simp: PageSizes_def)

lemma gall_texts: "gall (map gput xs) f = Some (Inr u, f') \<Longrightarrow> xs = map Some ts \<Longrightarrow> f' = wrote (concat ts) f"
  by (drule gall_gput) (auto simp: o_def)

lemma hex_line:
  assumes "length a \<le> 40"
  shows "strings_cat STRSZ [Some a, Some (''0x'' @ fmt_05x (kseg0_addr_to_physical x)), Some ('','' @ nl)] = Some (a @ hex05 x @ '','' @ nl)"
  unfolding hex05_def [symmetric] by (rule strings_cat_texts) (use assms hex05_length [of x] in simp)

lemma process_tlb_entry_emits:
  assumes p: "select_page_mask sz PageSizes = Some (p, d)"
  shows "process_tlb_entry sz base va = emits (render_region \<lparr>rg_size = sz, rg_base = fit sz base, rg_va = va\<rparr>) (fit sz base)"
proof -
  have pg: "page_of sz = (p, d)" "calculate_mem_base p base = fit sz base" using p by (simp_all add: page_of_def fit_def)
  let ?b = "fit sz base"
  let ?line = "\<lambda>name v. tabs 4 @ name @ v @ '','' @ nl"
  have lo: "entry_lo_text sz ?b d = map Some [?line ''entrylo0: '' (hex05 ?b),
      ?line ''entrylo1: '' (if d then hex05 (?b + sz div 2) else ''0'')]"
    using hex_line [of "tabs 4 @ ''entrylo0: ''" ?b] hex_line [of "tabs 4 @ ''entrylo1: ''" "?b + sz div 2"]
    by (simp add: entry_lo_text_def)
  have pm: "strings_cat STRSZ [Some (tabs 4 @ ''pagemask: ''), Some (snprintf STRSZ (ms_name p)), Some ('','' @ nl)]
      = Some (?line ''pagemask: '' (ms_name p))"
    using page_names [OF select_page_in [OF p]] by (simp add: snprintf_short strings_cat_texts)
  have hi: "strings_cat STRSZ [Some (tabs 4 @ ''entryhi: ''), Some (''0x'' @ fmt_05x (kseg0_addr_to_physical va)), Some ('','' @ nl)]
      = Some (?line ''entryhi: '' (hex05 va))"
    using hex_line [of "tabs 4 @ ''entryhi: ''" va] by simp
  let ?ts = "[?line ''entrylo0: '' (hex05 ?b), ?line ''entrylo1: '' (if d then hex05 (?b + sz div 2) else ''0''),
    ?line ''pagemask: '' (ms_name p), ?line ''entryhi: '' (hex05 va), tabs 4 @ ''coherency: 2'' @ nl, tabs 3 @ ''},'' @ nl]"
  have "process_tlb_entry sz base va = gbind (emits (tabs 3 @ ''{'' @ nl) ()) (\<lambda>_. gbind (gall (map gput (map Some ?ts))) (\<lambda>_. gret ?b))"
    unfolding process_tlb_entry_def p option.case prod.case Let_def pg(2) emits_write lo pm hi by (simp only: list.map append.simps)
  also have "\<dots> = emits ((tabs 3 @ ''{'' @ nl) @ concat ?ts @ []) ?b" unfolding emits_texts by (intro emits_bind emits_ret)
  finally show ?thesis by (simp add: render_region_def pg(1))
qed

lemma process_tlb_entry_writes:
  assumes "process_tlb_entry sz base va f = Some (Inr b, f')"
  shows "b = fit sz base \<and> f' = wrote (render_region \<lparr>rg_size = sz, rg_base = fit sz base, rg_va = va\<rparr>) f"
proof -
  obtain p d where "select_page_mask sz PageSizes = Some (p, d)"
    using assms by (cases "select_page_mask sz PageSizes") (auto simp: process_tlb_entry_def gen_iff)
  then show ?thesis using emits_success [OF process_tlb_entry_emits assms] by blast
qed

lemma gen_size_ok:
  assumes "gen_size cfg node name f = Some (Inr sz, f')"
  shows "size_of cfg node name = Some sz \<and> sz \<in> mem_sizes \<and> f' = f"
proof -
  have "get_value_from_str ms k = 0 \<or> get_value_from_str ms k \<in> ms_value ` set ms" for ms k
    by (induction ms) auto
  then show ?thesis
    using assms by (auto simp: gen_size_def gen_iff size_of_def mem_sizes_def Let_def split: option.splits if_splits)
qed

lemma gen_devices_emits:
  assumes pr: "printable cfg"
  shows "gen_devices cfg node = emits (render_devices (elems_of cfg node ''device_mapping'')) ()"
proof (cases "config_setting_lookup cfg node ''device_mapping''")
  case None
  then show ?thesis by (simp add: gen_devices_def emit elems_of_def render_devices_def)
next
  case (Some setting)
  let ?n = "config_setting_length cfg setting" and ?d = "config_setting_get_string_elem cfg setting"
  have "?n < 2 ^ 31" using pr by (simp add: printable_def)
  then have n: "length (fmt_nat ?n) \<le> 10" by (intro fmt_nat_length(1)) simp
  have d: "\<exists>s. ?d i = Some s \<and> length s \<le> 80" if "i < ?n" for i
    using pr Some that unfolding printable_def by (cases "?d i") blast+
  have c: "[Some (tabs 3 @ ''{'' @ nl),
       strings_cat STRSZ [Some (tabs 4 @ ''start_addr: ''), ?d i, Some (''_BASE,'' @ nl)],
       strings_cat STRSZ [Some (tabs 4 @ ''size: ''), ?d i, Some (''_SIZE,'' @ nl)], Some (tabs 3 @ ''},'' @ nl)] =
     map Some [tabs 3 @ ''{'' @ nl, tabs 4 @ ''start_addr: '' @ the (?d i) @ ''_BASE,'' @ nl,
      tabs 4 @ ''size: '' @ the (?d i) @ ''_SIZE,'' @ nl, tabs 3 @ ''},'' @ nl]" if "i < ?n" for i
    using d [OF that] by (auto simp: strings_cat_texts)
  let ?block = "\<lambda>i. [tabs 3 @ ''{'' @ nl, tabs 4 @ ''start_addr: '' @ the (?d i) @ ''_BASE,'' @ nl,
      tabs 4 @ ''size: '' @ the (?d i) @ ''_SIZE,'' @ nl, tabs 3 @ ''},'' @ nl]"
  let ?ts = "[tabs 2 @ ''devices_mapping_sz: '' @ fmt_nat ?n @ '','' @ nl,
    tabs 2 @ ''devices: (const struct device_mapping_t const []) {'' @ nl] @ concat (map ?block [0..<?n]) @ [tabs 2 @ ''},'' @ nl]"
  have b: "concat (map (\<lambda>i. [Some (tabs 3 @ ''{'' @ nl),
       strings_cat STRSZ [Some (tabs 4 @ ''start_addr: ''), ?d i, Some (''_BASE,'' @ nl)],
       strings_cat STRSZ [Some (tabs 4 @ ''size: ''), ?d i, Some (''_SIZE,'' @ nl)], Some (tabs 3 @ ''},'' @ nl)]) [0..<?n])
     = map Some (concat (map ?block [0..<?n]))"
    unfolding map_concat map_map o_def by (intro arg_cong [of _ _ concat] map_cong refl c) simp
  have "gen_devices cfg node = gall (map gput (map Some ?ts))"
    unfolding gen_devices_def Some option.case Let_def b using n by (simp add: snprintf_short del: append.simps(2))
  also have "\<dots> = emits (concat ?ts) ()" by (rule emits_texts)
  also have "concat ?ts = render_devices (elems_of cfg node ''device_mapping'')"
  proof -
    have "concat (concat (map g xs)) = concat (map (concat \<circ> g) xs)" for g :: "nat \<Rightarrow> string list" and xs
      by (induction xs) simp_all
    then show ?thesis using Some by (simp add: render_devices_def elems_of_def o_def)
  qed
  finally show ?thesis .
qed

lemma gen_devices_writes:
  "gen_devices cfg node f = Some (Inr u, f') \<Longrightarrow> printable cfg \<Longrightarrow> f' = wrote (render_devices (elems_of cfg node ''device_mapping'')) f"
  by (drule emits_success [OF gen_devices_emits, rotated]) simp_all

text \<open>A list of interrupts is a list of texts, of which those of the configuration may be missing.\<close>

lemma gen_interrupts_texts:
  assumes pr: "printable cfg" and "length sz_name \<le> 80"
  shows "\<exists>xs. gen_interrupts cfg node name sz_name = gall (map gput xs) \<and>
    concat (map the xs) = render_interrupts name sz_name (elems_of cfg node name) \<and>
    (None \<in> set xs \<longrightarrow> (\<exists>ds. elems_of cfg node name = Some ds \<and> None \<in> set ds))"
proof (cases "config_setting_lookup cfg node name")
  case None
  then show ?thesis
    by (intro exI [of _ "[]"]) (simp add: gen_interrupts_def elems_of_def render_interrupts_def)
next
  case (Some setting)
  let ?n = "config_setting_length cfg setting" and ?d = "config_setting_get_string_elem cfg setting"
  have "?n < 2 ^ 31" using pr by (simp add: printable_def)
  then have n: "length (fmt_nat ?n) \<le> 10" by (intro fmt_nat_length(1)) simp
  let ?mid = "concat (map (\<lambda>i. (if 0 < i then [Some '', ''] else []) @ [?d i]) [0..<?n])"
  let ?xs = "[Some (snprintf STRSZ (tabs 2 @ sz_name @ '': '' @ fmt_nat ?n @ '','' @ nl)),
           Some (tabs 2 @ name @ '': (uint32_t []) {'')] @ ?mid @ [Some ('' },'' @ nl)]"
  have "concat (map the ?mid) = separated (map the (map ?d [0..<?n]))"
  proof -
    have "concat (map the (concat (map g xs))) = concat (map (\<lambda>i. concat (map the (g i))) xs)"
      for g :: "nat \<Rightarrow> string option list" and xs by (induction xs) simp_all
    then show ?thesis unfolding separated_def by (auto intro!: arg_cong [of _ _ concat])
  qed
  then have "concat (map the ?xs) = render_interrupts name sz_name (elems_of cfg node name)"
    using n Some assms(2) by (simp add: render_interrupts_def elems_of_def snprintf_short)
  moreover have "None \<in> set ?xs \<longrightarrow> (\<exists>ds. elems_of cfg node name = Some ds \<and> None \<in> set ds)"
    using Some by (force simp: elems_of_def split: if_splits)
  moreover have "gen_interrupts cfg node name sz_name = gall (map gput ?xs)" using Some by (simp add: gen_interrupts_def Let_def)
  ultimately show ?thesis by blast
qed

lemma gen_interrupts_writes:
  assumes "gen_interrupts cfg node name sz_name f = Some (Inr u, f')" and "printable cfg" and "length sz_name \<le> 80"
  shows "f' = wrote (render_interrupts name sz_name (elems_of cfg node name)) f"
  using gen_interrupts_texts [OF assms(2,3), of node name] assms(1) gall_gput by metis

lemma gen_interrupts_emits:
  assumes "printable cfg" and "length sz_name \<le> 80" and "\<And>ds. elems_of cfg node name = Some ds \<Longrightarrow> None \<notin> set ds"
  shows "gen_interrupts cfg node name sz_name = emits (render_interrupts name sz_name (elems_of cfg node name)) ()"
proof -
  obtain xs where xs: "gen_interrupts cfg node name sz_name = gall (map gput xs)"
    "concat (map the xs) = render_interrupts name sz_name (elems_of cfg node name)" "None \<notin> set xs"
    using gen_interrupts_texts [OF assms(1,2), of node name] assms(3) by blast
  have "map Some (map the xs) = xs" using xs(3) by (induction xs) auto
  then show ?thesis using emits_texts [of "map the xs"] xs(1,2) by simp
qed

lemma gen_map_writes:
  assumes "gen_map cfg node j f = Some (Inr u, f')"
  shows "\<exists>r. map_of_conf cfg node j = Some r \<and> rg_size r \<in> mem_sizes \<and> f' = wrote (render_region r) f"
proof -
  obtain mm base sz b where "config_setting_lookup cfg node ''memory_maps'' \<bind> (\<lambda>m. config_setting_get_elem cfg m j) = Some mm"
    and "config_setting_lookup_int cfg mm ''base_addr'' = Some base"
    and sz: "size_of cfg mm ''page_size'' = Some sz" "sz \<in> mem_sizes" and p: "process_tlb_entry sz base base f = Some (Inr b, f')"
    using assms by (auto simp: gen_map_def gen_iff split: option.splits dest!: gen_size_ok)
  then have "map_of_conf cfg node j = Some \<lparr>rg_size = sz, rg_base = fit sz base, rg_va = base\<rparr>"
    by (auto simp: map_of_conf_def)
  then show ?thesis using process_tlb_entry_writes [OF p] sz(2) by auto
qed

lemma gen_maps_write:
  "gall (map (gen_map cfg node) js) f = Some (Inr u, f') \<Longrightarrow>
   \<exists>rs. map (map_of_conf cfg node) js = map Some rs \<and> (\<forall>r\<in>set rs. rg_size r \<in> mem_sizes) \<and> f' = wrote (concat (map render_region rs)) f"
proof (induction js arbitrary: f)
  case (Cons j js)
  then obtain f1 where f1: "gen_map cfg node j f = Some (Inr (), f1)" "gall (map (gen_map cfg node) js) f1 = Some (Inr u, f')"
    by (auto simp: gen_iff)
  obtain r where r: "map_of_conf cfg node j = Some r" "rg_size r \<in> mem_sizes" "f1 = wrote (render_region r) f"
    using gen_map_writes [OF f1(1)] by blast
  obtain rs where "map (map_of_conf cfg node) js = map Some rs" "\<forall>r\<in>set rs. rg_size r \<in> mem_sizes"
    "f' = wrote (concat (map render_region rs)) f1" using Cons.IH [OF f1(2)] by blast
  then show ?case using r by (intro exI [of _ "r # rs"]) simp
qed (simp add: gen_iff)

text \<open>The lines before the TLB entries.\<close>

definition render_head :: "'n libconfig \<Rightarrow> 'n \<Rightarrow> string \<Rightarrow> string \<Rightarrow> string" where
  "render_head cfg node name os =
     tabs 2 @ ''vm_name: '' @ [CHR 0x22] @ name @ [CHR 0x22] @ '','' @ nl @
     tabs 2 @ ''os_type: '' @ os @ '','' @ nl @
     render_devices (elems_of cfg node ''device_mapping'') @
     render_interrupts ''fast_interrupts'' ''fast_int_sz'' (elems_of cfg node ''fast_interrupts'') @
     render_interrupts ''interrupt_redirect'' ''interrupt_redirect_sz'' (elems_of cfg node ''interrupt_redirect'') @
     tabs 2 @ ''num_tlb_entries: 0x'' @ show_base 16 (num_maps cfg node + 2) @ '','' @ nl"

lemma gen_vm_head_writes:
  assumes g: "gen_vm_head cfg node g f = Some (Inr (name, g'), f')" and pr: "printable cfg"
  shows "config_setting_lookup_string cfg node ''app_name'' = Some name \<and>
    (\<exists>os. config_setting_lookup_string cfg node ''os_type'' = Some os \<and> f' = wrote (render_head cfg node name os) f) \<and>
    (\<exists>apps. g' = g\<lparr>app_list := apps, total_tlb_entries := total_tlb_entries g + (num_maps cfg node + 2)\<rparr>) \<and>
    total_tlb_entries g + (num_maps cfg node + 2) \<le> TOTAL_TLB_ENTRIES"
proof -
  let ?os_line = "\<lambda>os. strings_cat STRSZ [Some (tabs 2 @ ''os_type: ''), Some os, Some ('','' @ nl)]"
  let ?name_line = "strings_cat STRSZ [Some (tabs 2 @ ''vm_name: ''), Some [CHR 0x22], Some name, Some ([CHR 0x22] @ '','' @ nl)]"
  let ?tlb_line = "snprintf STRSZ (tabs 2 @ ''num_tlb_entries: 0x'' @ show_base 16 (num_maps cfg node + 2) @ '','' @ nl)"
  obtain os apps f1 f2 f3 f4 f5 where
    n: "config_setting_lookup_string cfg node ''app_name'' = Some name" "config_setting_lookup_string cfg node ''os_type'' = Some os"
    and w: "gput ?name_line f = Some (Inr (), f1)" "gput (?os_line os) f1 = Some (Inr (), f2)"
      "gen_devices cfg node f2 = Some (Inr (), f3)"
      "gen_interrupts cfg node ''fast_interrupts'' ''fast_int_sz'' f3 = Some (Inr (), f4)"
      "gen_interrupts cfg node ''interrupt_redirect'' ''interrupt_redirect_sz'' f4 = Some (Inr (), f5)"
      "gput (Some ?tlb_line) f5 = Some (Inr (), f')"
    and g': "g' = g\<lparr>app_list := apps, total_tlb_entries := total_tlb_entries g + (num_maps cfg node + 2)\<rparr>"
      "total_tlb_entries g + (num_maps cfg node + 2) \<le> TOTAL_TLB_ENTRIES"
    using g unfolding gen_vm_head_def
    by (auto simp: gen_iff Let_def strncpy_buf_def simp del: append.simps split: option.splits if_splits)
  have s: "length name \<le> 80" "length os \<le> 80" using n pr unfolding printable_def by blast+
  have m: "length (show_base 16 (num_maps cfg node + 2)) \<le> 8" using g'(2) by (intro fmt_nat_length(2)) simp
  have 1: "?name_line = Some (tabs 2 @ ''vm_name: '' @ [CHR 0x22] @ name @ [CHR 0x22] @ '','' @ nl)"
    using strings_cat_texts(2) [of "tabs 2 @ ''vm_name: ''" "[CHR 0x22]" name "[CHR 0x22] @ '','' @ nl" STRSZ] s(1) by simp
  have 2: "?os_line os = Some (tabs 2 @ ''os_type: '' @ os @ '','' @ nl)"
    using strings_cat_texts(1) [of "tabs 2 @ ''os_type: ''" os "'','' @ nl" STRSZ] s(2) by simp
  have 3: "?tlb_line = tabs 2 @ ''num_tlb_entries: 0x'' @ show_base 16 (num_maps cfg node + 2) @ '','' @ nl"
    by (rule snprintf_short) (use m in simp)
  have "f' = wrote (render_head cfg node name os) f"
    using gput_wrote [OF w(1)] gput_wrote [OF w(2)] gen_devices_writes [OF w(3) pr] gen_interrupts_writes [OF w(4) pr]
      gen_interrupts_writes [OF w(5) pr] gput_wrote [OF w(6)]
    unfolding 1 2 3 render_head_def by auto
  then show ?thesis using n g' by blast
qed

lemma gen_vm_tlb_writes:
  assumes "gen_vm_tlb cfg node g f = Some (Inr (rs, ram, fs, flash), f')"
  shows "\<exists>maps. size_of cfg node ''RAM_size_bytes'' = Some rs \<and> rs \<in> mem_sizes \<and> ram = fit rs (vm_ram_inter_addr g) \<and>
    size_of cfg node ''flash_size_bytes'' = Some fs \<and> fs \<in> mem_sizes \<and> flash = fit fs (vm_flash_inter_addr g) \<and>
    map (map_of_conf cfg node) [0..<num_maps cfg node] = map Some maps \<and> (\<forall>r\<in>set maps. rg_size r \<in> mem_sizes) \<and>
    f' = wrote (tabs 2 @ ''tlb: (const struct tlb_entries const []){'' @ nl @ concat (map render_region
      (\<lparr>rg_size = rs, rg_base = ram, rg_va = VMS_RAM_VIRTUAL_BASE_ADDRESS\<rparr> #
       \<lparr>rg_size = fs, rg_base = flash, rg_va = VMS_FLASH_VIRTUAL_BASE_ADDRESS\<rparr> # maps))) f"
proof -
  obtain f1 f2 f3 f4 f5 where
    w: "write_to_conf_file (tabs 2 @ ''tlb: (const struct tlb_entries const []){'' @ nl) f = Some (Inr (), f1)"
    and r: "gen_size cfg node ''RAM_size_bytes'' f1 = Some (Inr rs, f2)"
      "process_tlb_entry rs (vm_ram_inter_addr g) VMS_RAM_VIRTUAL_BASE_ADDRESS f2 = Some (Inr ram, f3)"
    and l: "gen_size cfg node ''flash_size_bytes'' f3 = Some (Inr fs, f4)"
      "process_tlb_entry fs (vm_flash_inter_addr g) VMS_FLASH_VIRTUAL_BASE_ADDRESS f4 = Some (Inr flash, f5)"
    and m: "gall (map (gen_map cfg node) [0..<num_maps cfg node]) f5 = Some (Inr (), f')"
    using assms unfolding gen_vm_tlb_def by (auto simp: gen_iff simp del: append.simps)
  obtain maps where "map (map_of_conf cfg node) [0..<num_maps cfg node] = map Some maps" "\<forall>r\<in>set maps. rg_size r \<in> mem_sizes"
    "f' = wrote (concat (map render_region maps)) f5" using gen_maps_write [OF m] by blast
  then show ?thesis
    using write_wrote [OF w] gen_size_ok [OF r(1)] process_tlb_entry_writes [OF r(2)] gen_size_ok [OF l(1)]
      process_tlb_entry_writes [OF l(2)] by (intro exI [of _ maps]) auto
qed

lemma gen_vm_tail_writes:
  assumes "gen_vm_tail name (rs, ram, fs, flash) g f = Some (Inr g', f')"
  shows "(\<exists>info. g' = g\<lparr>vms_info := info, vm_ram_inter_addr := ram + rs, vm_flash_inter_addr := flash + fs,
      vm_number := vm_number g + 1\<rparr>) \<and>
    f' = wrote (tabs 2 @ ''},'' @ nl @ tabs 2 @ ''ram_base: 0x'' @ fmt_x ram @ '','' @ nl @
      tabs 2 @ ''flash_size: 0x'' @ fmt_x fs @ '','' @ nl @ tabs 2 @ ''flash_base_add: 0x'' @ fmt_x flash @ nl @ tabs 1 @ ''},'' @ nl) f"
proof -
  let ?l = "[tabs 2 @ ''},'' @ nl,
       snprintf STRSZ (tabs 2 @ ''ram_base: 0x'' @ fmt_x ram @ '','' @ nl),
       snprintf STRSZ (tabs 2 @ ''flash_size: 0x'' @ fmt_x fs @ '','' @ nl),
       snprintf STRSZ (tabs 2 @ ''flash_base_add: 0x'' @ fmt_x flash @ nl)]"
  obtain f1 info u v where w: "gall (map write_to_conf_file ?l) f = Some (Inr u, f1)"
    "write_to_conf_file (tabs 1 @ ''},'' @ nl) f1 = Some (Inr v, f')"
    and g: "g' = g\<lparr>vms_info := info, vm_ram_inter_addr := ram + rs, vm_flash_inter_addr := flash + fs, vm_number := vm_number g + 1\<rparr>"
    using assms unfolding gen_vm_tail_def prod.case gbind_Inr Let_def gopt_Inr gret_Inr by blast
  have l: "?l = [tabs 2 @ ''},'' @ nl, tabs 2 @ ''ram_base: 0x'' @ fmt_x ram @ '','' @ nl,
       tabs 2 @ ''flash_size: 0x'' @ fmt_x fs @ '','' @ nl, tabs 2 @ ''flash_base_add: 0x'' @ fmt_x flash @ nl]"
    using fmt_lengths(1) [of ram] fmt_lengths(1) [of fs] fmt_lengths(1) [of flash] by (simp add: snprintf_short)
  have "f1 = wrote (concat ?l) f" using w(1) by (rule gall_write)
  then show ?thesis using write_wrote [OF w(2)] g unfolding l by auto
qed

lemma gen_vm_writes:
  assumes g: "gen_vm cfg setting i g f = Some (Inr g', f')" and pr: "printable cfg" and "vm_number g < 2 ^ 32"
  shows "\<exists>node p. config_setting_get_elem cfg setting i = Some node \<and>
    plan_of_conf cfg node (vm_ram_inter_addr g) (vm_flash_inter_addr g) p \<and> rg_size ` set (vp_regions p) \<subseteq> mem_sizes \<and>
    f' = wrote (render_vm (vm_number g) p) f \<and>
    vm_ram_inter_addr g' = rg_base (vp_ram p) + rg_size (vp_ram p) \<and>
    vm_flash_inter_addr g' = rg_base (vp_flash p) + rg_size (vp_flash p) \<and> vm_number g' = vm_number g + 1 \<and>
    total_tlb_entries g' = total_tlb_entries g + length (vp_regions p) \<and> total_tlb_entries g' \<le> TOTAL_TLB_ENTRIES"
proof -
  let ?first = "tabs 1 @ ''{ /* VM#'' @ fmt_nat (vm_number g) @ '' */'' @ nl"
  obtain f1 f2 f3 node name g1 rs ram fs flash where w: "write_to_conf_file (snprintf STRSZ ?first) f = Some (Inr (), f1)"
    and node: "config_setting_get_elem cfg setting i = Some node"
    and h: "gen_vm_head cfg node g f1 = Some (Inr (name, g1), f2)"
    and t: "gen_vm_tlb cfg node g1 f2 = Some (Inr (rs, ram, fs, flash), f3)"
    and e: "gen_vm_tail name (rs, ram, fs, flash) g1 f3 = Some (Inr g', f')"
    using g unfolding gen_vm_def gbind_Inr gopt_Inr by (auto simp: gbind_Inr simp del: append.simps split: prod.splits)
  note H = gen_vm_head_writes [OF h pr]
  obtain os where os: "config_setting_lookup_string cfg node ''os_type'' = Some os" "f2 = wrote (render_head cfg node name os) f1"
    using H by blast
  have g1: "vm_ram_inter_addr g1 = vm_ram_inter_addr g" "vm_flash_inter_addr g1 = vm_flash_inter_addr g" "vm_number g1 = vm_number g"
    "total_tlb_entries g1 = total_tlb_entries g + (num_maps cfg node + 2)" using H by auto
  obtain maps where m: "size_of cfg node ''RAM_size_bytes'' = Some rs" "rs \<in> mem_sizes" "ram = fit rs (vm_ram_inter_addr g)"
    "size_of cfg node ''flash_size_bytes'' = Some fs" "fs \<in> mem_sizes" "flash = fit fs (vm_flash_inter_addr g)"
    "map (map_of_conf cfg node) [0..<num_maps cfg node] = map Some maps" "\<forall>r\<in>set maps. rg_size r \<in> mem_sizes"
    "f3 = wrote (tabs 2 @ ''tlb: (const struct tlb_entries const []){'' @ nl @ concat (map render_region
      (\<lparr>rg_size = rs, rg_base = ram, rg_va = VMS_RAM_VIRTUAL_BASE_ADDRESS\<rparr> #
       \<lparr>rg_size = fs, rg_base = flash, rg_va = VMS_FLASH_VIRTUAL_BASE_ADDRESS\<rparr> # maps))) f2"
    using gen_vm_tlb_writes [OF t] unfolding g1 by blast
  note T = gen_vm_tail_writes [OF e]
  define p where "p = \<lparr>vp_name = name, vp_os = os, vp_devices = elems_of cfg node ''device_mapping'',
    vp_fast = elems_of cfg node ''fast_interrupts'', vp_redirect = elems_of cfg node ''interrupt_redirect'',
    vp_ram = \<lparr>rg_size = rs, rg_base = ram, rg_va = VMS_RAM_VIRTUAL_BASE_ADDRESS\<rparr>,
    vp_flash = \<lparr>rg_size = fs, rg_base = flash, rg_va = VMS_FLASH_VIRTUAL_BASE_ADDRESS\<rparr>, vp_maps = maps\<rparr>"
  have len: "length maps = num_maps cfg node" using arg_cong [OF m(7), of length] by simp
  have f1: "f1 = wrote ?first f"
    using write_wrote [OF w] snprintf_short [of ?first STRSZ] fmt_nat_length(1) [OF assms(3)] by simp
  have "f' = wrote (render_vm (vm_number g) p) f"
    using T unfolding m(9) os(2) f1 by (simp add: render_vm_def render_head_def p_def vp_regions_def len)
  moreover have "plan_of_conf cfg node (vm_ram_inter_addr g) (vm_flash_inter_addr g) p"
    using H os(1) m(1,3,4,6,7) by (simp add: plan_of_conf_def p_def)
  moreover have "rg_size ` set (vp_regions p) \<subseteq> mem_sizes" using m(2,5,8) by (auto simp: p_def vp_regions_def)
  moreover have "vm_ram_inter_addr g' = ram + rs" "vm_flash_inter_addr g' = flash + fs" "vm_number g' = vm_number g + 1"
    "total_tlb_entries g' = total_tlb_entries g + (num_maps cfg node + 2)" using T g1 by auto
  ultimately show ?thesis using node H by (intro exI [of _ node] exI [of _ p]) (simp add: p_def vp_regions_def len)
qed

lemma gen_vms_writes:
  "gen_vms cfg setting is g f = Some (Inr g', f') \<Longrightarrow> printable cfg \<Longrightarrow> vm_number g + length is \<le> 2 ^ 32 \<Longrightarrow>
   total_tlb_entries g \<le> TOTAL_TLB_ENTRIES \<Longrightarrow>
   \<exists>ps. plans_of_conf cfg (map (config_setting_get_elem cfg setting) is) (vm_ram_inter_addr g) (vm_flash_inter_addr g) ps \<and>
     (\<forall>p\<in>set ps. rg_size ` set (vp_regions p) \<subseteq> mem_sizes) \<and> length ps = length is \<and>
     f' = wrote (render_vms (vm_number g) ps) f \<and>
     total_tlb_entries g + sum_list (map (length \<circ> vp_regions) ps) \<le> TOTAL_TLB_ENTRIES"
proof (induction "is" arbitrary: g f)
  case (Cons i "is")
  obtain g1 f1 where s: "gen_vm cfg setting i g f = Some (Inr g1, f1)" "gen_vms cfg setting is g1 f1 = Some (Inr g', f')"
    using Cons.prems(1) by (auto simp: gen_iff)
  have n: "vm_number g < 2 ^ 32" using Cons.prems(3) by simp
  obtain node p where p: "config_setting_get_elem cfg setting i = Some node"
    "plan_of_conf cfg node (vm_ram_inter_addr g) (vm_flash_inter_addr g) p" "rg_size ` set (vp_regions p) \<subseteq> mem_sizes"
    "f1 = wrote (render_vm (vm_number g) p) f" "vm_ram_inter_addr g1 = rg_base (vp_ram p) + rg_size (vp_ram p)"
    "vm_flash_inter_addr g1 = rg_base (vp_flash p) + rg_size (vp_flash p)" "vm_number g1 = vm_number g + 1"
    "total_tlb_entries g1 = total_tlb_entries g + length (vp_regions p)" "total_tlb_entries g1 \<le> TOTAL_TLB_ENTRIES"
    using gen_vm_writes [OF s(1) Cons.prems(2) n] by blast
  have "vm_number g1 + length is \<le> 2 ^ 32" using Cons.prems(3) p(7) by simp
  from Cons.IH [OF s(2) Cons.prems(2) this p(9)] obtain ps where
    "plans_of_conf cfg (map (config_setting_get_elem cfg setting) is) (vm_ram_inter_addr g1) (vm_flash_inter_addr g1) ps"
    "\<forall>p\<in>set ps. rg_size ` set (vp_regions p) \<subseteq> mem_sizes" "length ps = length is"
    "f' = wrote (render_vms (vm_number g1) ps) f1"
    "total_tlb_entries g1 + sum_list (map (length \<circ> vp_regions) ps) \<le> TOTAL_TLB_ENTRIES" by blast
  then show ?case using p by (intro exI [of _ "p # ps"]) (simp add: add.assoc o_def)
qed (auto simp: gen_iff)

lemma gen_conf_vms_writes:
  assumes "gen_conf_vms cfg f = Some (Inr (apps, n, info), f')" and pr: "printable cfg"
  shows "\<exists>setting ps. config_lookup cfg ''virtual_machines'' = Some setting \<and>
    plans_of_conf cfg (map (config_setting_get_elem cfg setting) [0..<config_setting_length cfg setting])
      VMS_RAM_INTERMEDIATE_BASE_ADDRESS VMS_FLASH_INTERMEDIATE_BASE_ADDRESS ps \<and>
    (\<forall>p\<in>set ps. rg_size ` set (vp_regions p) \<subseteq> mem_sizes) \<and> n = length ps \<and> f' = wrote (render_table ps) f \<and>
    sum_list (map (length \<circ> vp_regions) ps) \<le> TOTAL_TLB_ENTRIES"
proof -
  obtain setting g f1 f2 f3 where c: "config_lookup cfg ''virtual_machines'' = Some setting"
    and w: "write_to_conf_file (''/* VMs mapping */'' @ nl) f = Some (Inr (), f1)"
      "write_to_conf_file (''static const struct vmconf_t const VMCONF[] = {'' @ nl) f1 = Some (Inr (), f2)"
    and v: "gen_vms cfg setting [0..<config_setting_length cfg setting] \<lparr>vm_number = 1, vm_ram_inter_addr = VMS_RAM_INTERMEDIATE_BASE_ADDRESS,
              vm_flash_inter_addr = VMS_FLASH_INTERMEDIATE_BASE_ADDRESS, total_tlb_entries = 0, app_list = [],
              vms_info = ''VM name '' @ tabs 1 @ ''flash_size '' @ tabs 1 @ ''ram_size '' @ tabs 1 @ '' address_start'' @ nl\<rparr> f2
            = Some (Inr g, f3)"
    and e: "write_to_conf_file (''};'' @ nl) f3 = Some (Inr (), f')" and n: "n = config_setting_length cfg setting"
    using assms(1) unfolding gen_conf_vms_def by (auto simp: gen_iff Let_def simp del: append.simps split: option.splits)
  have "config_setting_length cfg setting < 2 ^ 31" using pr by (simp add: printable_def)
  then obtain ps where "plans_of_conf cfg (map (config_setting_get_elem cfg setting) [0..<config_setting_length cfg setting])
      VMS_RAM_INTERMEDIATE_BASE_ADDRESS VMS_FLASH_INTERMEDIATE_BASE_ADDRESS ps"
    "\<forall>p\<in>set ps. rg_size ` set (vp_regions p) \<subseteq> mem_sizes" "length ps = config_setting_length cfg setting"
    "f3 = wrote (render_vms 1 ps) f2" "sum_list (map (length \<circ> vp_regions) ps) \<le> TOTAL_TLB_ENTRIES"
    using gen_vms_writes [OF v pr] by auto
  then show ?thesis
    using c n write_wrote [OF w(1)] write_wrote [OF w(2)] write_wrote [OF e]
    by (intro exI [of _ setting] exI [of _ ps]) (simp add: render_table_def)
qed

end
