(* ===== verification/GenconfLayout.thy ===== *)
theory GenconfLayout
  imports GenconfSpec
begin

text \<open>
  Where the generator puts the machines: the regions of RAM, and those of flash, follow one another (\<open>stacked\<close>), aligned
  to their pages, so that the physical memory behind the regions of different machines is disjoint (\<open>regions_disjoint\<close>) and lies
  above the hypervisor's own part.
\<close>

subsection \<open>Sizes, pages and alignment\<close>

lemma mem_sizes_eq: "mem_sizes = {4096, 8192, 16384, 32768, 65536, 131072, 262144, 524288, 1048576}"
  by (auto simp: mem_sizes_def MemSizes_def)

lemma page_table:
  "page_of 4096 = (PageSizes ! 0, False)" "page_of 8192 = (PageSizes ! 0, True)"
  "page_of 16384 = (PageSizes ! 1, False)" "page_of 32768 = (PageSizes ! 1, True)"
  "page_of 65536 = (PageSizes ! 2, False)" "page_of 131072 = (PageSizes ! 2, True)"
  "page_of 262144 = (PageSizes ! 3, False)" "page_of 524288 = (PageSizes ! 3, True)"
  "page_of 1048576 = (PageSizes ! 4, False)"
  by (simp_all add: page_of_def select_page_mask_def PageSizes_def)

lemma page_masks:
  "ms_value (PageSizes ! 0) = 2 ^ 12 \<and> ms_mask (PageSizes ! 0) = mask 12"
  "ms_value (PageSizes ! 1) = 2 ^ 14 \<and> ms_mask (PageSizes ! 1) = mask 14"
  "ms_value (PageSizes ! 2) = 2 ^ 16 \<and> ms_mask (PageSizes ! 2) = mask 16"
  "ms_value (PageSizes ! 3) = 2 ^ 18 \<and> ms_mask (PageSizes ! 3) = mask 18"
  "ms_value (PageSizes ! 4) = 2 ^ 20 \<and> ms_mask (PageSizes ! 4) = mask 20"
  by (simp_all add: PageSizes_def mask_eq_exp_minus_1)

definition page_bits :: "u32 \<Rightarrow> nat" where
  "page_bits sz = (if sz \<le> 8192 then 12 else if sz \<le> 32768 then 14 else if sz \<le> 131072 then 16
     else if sz \<le> 524288 then 18 else 20)"

lemma page_bits_le: "12 \<le> page_bits sz" "page_bits sz \<le> 20"
  by (simp_all add: page_bits_def)

lemma mem_sizes_pages:
  assumes "sz \<in> mem_sizes"
  shows "ms_value (fst (page_of sz)) = 2 ^ page_bits sz" and "ms_mask (fst (page_of sz)) = mask (page_bits sz)"
    and "unat sz = (if snd (page_of sz) then 2 else 1) * 2 ^ page_bits sz"
proof -
  have "ms_value (fst (page_of sz)) = 2 ^ page_bits sz \<and> ms_mask (fst (page_of sz)) = mask (page_bits sz) \<and>
    unat sz = (if snd (page_of sz) then 2 else 1) * 2 ^ page_bits sz"
    using assms unfolding mem_sizes_eq
    by (elim insertE emptyE) (simp_all only: page_table page_masks page_bits_def fst_conv snd_conv, simp_all)
  then show "ms_value (fst (page_of sz)) = 2 ^ page_bits sz" and "ms_mask (fst (page_of sz)) = mask (page_bits sz)"
    and "unat sz = (if snd (page_of sz) then 2 else 1) * 2 ^ page_bits sz" by blast+
qed

lemma unat_pow2: "k < 32 \<Longrightarrow> unat (2 ^ k :: u32) = 2 ^ k"
  using unat_of_nat_small [where 'a = 32, of "2 ^ k"] power_strict_increasing [of k 32 "2::nat"] by simp

lemma unat_clear_low:
  assumes "k < 32"
  shows "unat (x AND NOT (mask k) :: u32) = unat x div 2 ^ k * 2 ^ k"
proof -
  have p: "x AND NOT (mask k) = push_bit k (drop_bit k x)" by (rule bit_word_eqI) (auto simp: bit_simps)
  have d: "unat (drop_bit k x) = unat x div 2 ^ k" by (simp add: drop_bit_eq_div unat_div unat_pow2 [OF assms])
  have "unat x div 2 ^ k * 2 ^ k < 2 ^ 32" using unat_lt32 [of x] by (rule le_less_trans [OF div_times_less_eq_dividend])
  then show ?thesis unfolding p by (simp add: push_bit_eq_mult unat_word_ariths unat_pow2 [OF assms] d)
qed

lemma mem_sizes_small: "sz \<in> mem_sizes \<Longrightarrow> 0 < unat sz \<and> unat sz \<le> 2 ^ 20"
  by (auto simp: mem_sizes_def MemSizes_def)

lemma fit_aligned:
  assumes "sz \<in> mem_sizes"
  shows "unat (fit sz base) mod 2 ^ page_bits sz = 0"
proof -
  let ?k = "page_bits sz"
  have k: "?k < 32" using page_bits_le [of sz] by simp
  have "unat base mod 2 ^ ?k = 0" if "base mod 2 ^ ?k = 0"
    using that unat_pow2 [OF k] by (metis unat_mod unsigned_0)
  then show ?thesis
    using unat_clear_low [OF k] by (auto simp: fit_def calculate_mem_base_def mem_sizes_pages [OF assms])
qed

lemma fit_bounds:
  assumes "sz \<in> mem_sizes" and "unat base + 2 ^ 20 < 2 ^ 32"
  shows "unat base \<le> unat (fit sz base)" and "unat (fit sz base) \<le> unat base + unat sz"
proof -
  let ?k = "page_bits sz"
  note mp = mem_sizes_pages [OF assms(1)]
  have k: "?k < 32" and "(2::nat) ^ ?k \<le> 2 ^ 20"
    using page_bits_le [of sz] power_increasing [of ?k 20 "2 :: nat"] by simp_all
  then have s: "unat (base + 2 ^ ?k) = unat base + 2 ^ ?k"
    using assms(2) by (subst unat_add_small) (simp_all add: unat_pow2)
  have "unat base \<le> unat (fit sz base) \<and> unat (fit sz base) \<le> unat base + 2 ^ ?k"
  proof (cases "base mod 2 ^ ?k = 0")
    case True
    then show ?thesis by (simp add: fit_def calculate_mem_base_def mp(1))
  next
    case False
    then have "fit sz base = (base + 2 ^ ?k) AND NOT (mask ?k)" by (simp add: fit_def calculate_mem_base_def mp(1,2))
    then have f: "unat (fit sz base) = (unat base + 2 ^ ?k) div 2 ^ ?k * 2 ^ ?k"
      using unat_clear_low [OF k] s by simp
    have "unat base = unat base div 2 ^ ?k * 2 ^ ?k + unat base mod 2 ^ ?k" by (rule div_mult_mod_eq [symmetric])
    moreover have "unat base mod 2 ^ ?k < 2 ^ ?k" by simp
    moreover have "(unat base + 2 ^ ?k) div 2 ^ ?k * 2 ^ ?k = unat base div 2 ^ ?k * 2 ^ ?k + 2 ^ ?k"
      by (subst div_add_self2) (simp_all add: distrib_right)
    ultimately show ?thesis unfolding f by linarith
  qed
  then show "unat base \<le> unat (fit sz base)" and "unat (fit sz base) \<le> unat base + unat sz" using mp(3) by simp_all
qed

subsection \<open>Regions one after the other\<close>

fun stacked :: "u32 \<Rightarrow> region list \<Rightarrow> bool" where
  "stacked base [] = True"
| "stacked base (r # rs) = (rg_base r = fit (rg_size r) base \<and> stacked (rg_base r + rg_size r) rs)"

lemma plan_bases:
  "plan_of_conf cfg n ram flash p \<Longrightarrow>
   rg_base (vp_ram p) = fit (rg_size (vp_ram p)) ram \<and> rg_base (vp_flash p) = fit (rg_size (vp_flash p)) flash"
  unfolding plan_of_conf_def by (metis region.select_convs(2))

lemma plans_stacked:
  "plans_of_conf cfg ns ram flash ps \<Longrightarrow> stacked ram (map vp_ram ps) \<and> stacked flash (map vp_flash ps)"
  by (induction cfg ns ram flash ps rule: plans_of_conf.induct) (auto dest: plan_bases)

definition rg_start :: "region \<Rightarrow> nat" where "rg_start r = unat (rg_base r)"
definition rg_end :: "region \<Rightarrow> nat" where "rg_end r = unat (rg_base r) + unat (rg_size r)"

lemma stacked_bounds:
  "stacked base rs \<Longrightarrow> \<forall>r\<in>set rs. rg_size r \<in> mem_sizes \<Longrightarrow> unat base + length rs * 2 ^ 21 < 2 ^ 32 \<Longrightarrow>
   (\<forall>r\<in>set rs. unat base \<le> rg_start r \<and> rg_end r \<le> unat base + length rs * 2 ^ 21) \<and>
   (\<forall>i j. i < j \<longrightarrow> j < length rs \<longrightarrow> rg_end (rs ! i) \<le> rg_start (rs ! j))"
proof (induction rs arbitrary: base)
  case (Cons r rs)
  let ?next = "rg_base r + rg_size r"
  have sz: "rg_size r \<in> mem_sizes" using Cons.prems(2) by simp
  have b: "unat base \<le> rg_start r" "rg_start r \<le> unat base + unat (rg_size r)"
    using fit_bounds [OF sz, of base] Cons.prems(1,3) by (simp_all add: rg_start_def)
  have e: "rg_end r \<le> unat base + 2 ^ 21" using b(2) mem_sizes_small [OF sz] by (simp add: rg_end_def rg_start_def)
  then have n: "unat ?next = rg_end r"
    unfolding rg_end_def using Cons.prems(3) by (intro unat_add_small) simp
  have ih: "(\<forall>r\<in>set rs. unat ?next \<le> rg_start r \<and> rg_end r \<le> unat ?next + length rs * 2 ^ 21) \<and>
    (\<forall>i j. i < j \<longrightarrow> j < length rs \<longrightarrow> rg_end (rs ! i) \<le> rg_start (rs ! j))"
    using Cons.prems(1,2,3) e n by (intro Cons.IH) auto
  have "rg_start r \<le> rg_end r" by (simp add: rg_start_def rg_end_def)
  then have "\<forall>x\<in>set (r # rs). unat base \<le> rg_start x \<and> rg_end x \<le> unat base + length (r # rs) * 2 ^ 21"
    using ih e b(1) unfolding n by fastforce
  moreover have "rg_end ((r # rs) ! i) \<le> rg_start ((r # rs) ! j)" if "i < j" "j < length (r # rs)" for i j
  proof (cases i)
    case 0
    then have "(r # rs) ! j \<in> set rs" using that by (cases j) auto
    then show ?thesis using ih 0 unfolding n by simp
  next
    case (Suc i')
    then show ?thesis using ih that by (cases j) auto
  qed
  ultimately show ?case by blast
qed simp

text \<open>The physical addresses of the bytes of a region.\<close>

definition window :: "region \<Rightarrow> u32 set" where
  "window r = {(rg_base r + of_nat k) AND 0x1FFFFFFF | k. k < unat (rg_size r)}"

lemma window_interval:
  assumes "0x80000000 \<le> rg_start r" and "rg_end r \<le> 0xA0000000" and "pa \<in> window r"
  shows "rg_start r \<le> unat pa + 0x80000000" and "unat pa + 0x80000000 < rg_end r"
proof -
  obtain k where k: "k < unat (rg_size r)" "pa = (rg_base r + of_nat k) AND 0x1FFFFFFF" using assms(3) by (auto simp: window_def)
  have "unat (of_nat k :: u32) = k" using k(1) unat_lt32 [of "rg_size r"] by (intro unat_of_nat_small) simp
  then have u: "unat (rg_base r + of_nat k) = rg_start r + k"
    using k(1) assms(2) by (subst unat_add_small) (simp_all add: rg_start_def rg_end_def)
  have "(0x1FFFFFFF :: u32) = mask 29" by (simp add: mask_eq_exp_minus_1)
  then have "pa = take_bit 29 (rg_base r + of_nat k)" unfolding k(2) by (simp only: take_bit_eq_mask)
  then have "unat pa = (rg_start r + k) mod 2 ^ 29" using u by (simp add: unsigned_take_bit_eq take_bit_eq_mod unat_mod)
  moreover have "rg_start r + k < 0xA0000000" using k(1) assms(2) by (simp add: rg_start_def rg_end_def)
  ultimately have "unat pa + 0x80000000 = rg_start r + k"
    using assms(1) mod_nat_eqI [of "rg_start r + k - 0x80000000" "2 ^ 29" "rg_start r + k"] by simp
  then show "rg_start r \<le> unat pa + 0x80000000" and "unat pa + 0x80000000 < rg_end r"
    using k(1) by (simp_all add: rg_start_def rg_end_def)
qed

text \<open>A table as the generator makes it, as far as its regions go.\<close>

definition laid_out :: "vm_plan list \<Rightarrow> bool" where
  "laid_out ps \<longleftrightarrow> stacked VMS_RAM_INTERMEDIATE_BASE_ADDRESS (map vp_ram ps) \<and>
     stacked VMS_FLASH_INTERMEDIATE_BASE_ADDRESS (map vp_flash ps) \<and>
     (\<forall>p\<in>set ps. rg_size ` set (vp_regions p) \<subseteq> mem_sizes) \<and>
     (\<forall>p\<in>set ps. \<forall>r\<in>set (vp_maps p). rg_base r = fit (rg_size r) (rg_va r)) \<and>
     (\<forall>p\<in>set ps. rg_va (vp_ram p) = VMS_RAM_VIRTUAL_BASE_ADDRESS \<and> rg_va (vp_flash p) = VMS_FLASH_VIRTUAL_BASE_ADDRESS) \<and>
     sum_list (map (length \<circ> vp_regions) ps) \<le> TOTAL_TLB_ENTRIES"

lemma maps_fit:
  assumes "plan_of_conf cfg n a b p" and "r \<in> set (vp_maps p)"
  shows "rg_base r = fit (rg_size r) (rg_va r)"
proof -
  have "Some r \<in> set (map Some (vp_maps p))" using assms(2) by simp
  then have "Some r \<in> set (map (map_of_conf cfg n) [0..<num_maps cfg n])" using assms(1) unfolding plan_of_conf_def by metis
  then obtain j where "map_of_conf cfg n j = Some r" by auto
  then show ?thesis by (auto simp: map_of_conf_def)
qed

lemma plans_plan:
  "plans_of_conf cfg ns a b ps \<Longrightarrow> p \<in> set ps \<Longrightarrow> \<exists>n a b. plan_of_conf cfg n a b p"
  by (induction cfg ns a b ps rule: plans_of_conf.induct) auto

lemma plan_vas:
  assumes "plan_of_conf cfg n a b p"
  shows "rg_va (vp_ram p) = VMS_RAM_VIRTUAL_BASE_ADDRESS \<and> rg_va (vp_flash p) = VMS_FLASH_VIRTUAL_BASE_ADDRESS"
proof -
  have "vp_ram p = \<lparr>rg_size = rg_size (vp_ram p), rg_base = fit (rg_size (vp_ram p)) a, rg_va = VMS_RAM_VIRTUAL_BASE_ADDRESS\<rparr>"
    "vp_flash p = \<lparr>rg_size = rg_size (vp_flash p), rg_base = fit (rg_size (vp_flash p)) b, rg_va = VMS_FLASH_VIRTUAL_BASE_ADDRESS\<rparr>"
    using assms unfolding plan_of_conf_def by blast+
  then show ?thesis by (metis region.select_convs(3))
qed

text \<open>The generator's table is such a table.\<close>

lemma generator_lays_out:
  assumes "gen_conf_vms cfg f = Some (Inr (apps, n, info), f')" and "printable cfg"
  shows "\<exists>setting ps. config_lookup cfg ''virtual_machines'' = Some setting \<and>
    plans_of_conf cfg (map (config_setting_get_elem cfg setting) [0..<config_setting_length cfg setting])
      VMS_RAM_INTERMEDIATE_BASE_ADDRESS VMS_FLASH_INTERMEDIATE_BASE_ADDRESS ps \<and>
    laid_out ps \<and> n = length ps \<and> f' = wrote (render_table ps) f"
proof -
  obtain setting ps where c: "config_lookup cfg ''virtual_machines'' = Some setting"
    and p: "plans_of_conf cfg (map (config_setting_get_elem cfg setting) [0..<config_setting_length cfg setting])
      VMS_RAM_INTERMEDIATE_BASE_ADDRESS VMS_FLASH_INTERMEDIATE_BASE_ADDRESS ps"
    and r: "\<forall>p\<in>set ps. rg_size ` set (vp_regions p) \<subseteq> mem_sizes" "n = length ps" "f' = wrote (render_table ps) f"
      "sum_list (map (length \<circ> vp_regions) ps) \<le> TOTAL_TLB_ENTRIES"
    using gen_conf_vms_writes [OF assms] by blast
  have "\<forall>p\<in>set ps. \<forall>r\<in>set (vp_maps p). rg_base r = fit (rg_size r) (rg_va r)"
    using plans_plan [OF p] maps_fit by meson
  moreover have "\<forall>p\<in>set ps. rg_va (vp_ram p) = VMS_RAM_VIRTUAL_BASE_ADDRESS \<and> rg_va (vp_flash p) = VMS_FLASH_VIRTUAL_BASE_ADDRESS"
    using plans_plan [OF p] plan_vas by meson
  ultimately have "laid_out ps" unfolding laid_out_def
    by (intro conjI plans_stacked [OF p, THEN conjunct1] plans_stacked [OF p, THEN conjunct2] r(1,4))
  with c p r(2,3) show ?thesis by blast
qed

text \<open>Every region is aligned to its page.\<close>

lemma stacked_fit: "stacked base rs \<Longrightarrow> r \<in> set rs \<Longrightarrow> \<exists>b. rg_base r = fit (rg_size r) b"
  by (induction rs arbitrary: base) auto

lemma laid_out_aligned:
  assumes "laid_out ps" and "p \<in> set ps" and "r \<in> set (vp_regions p)"
  shows "rg_size r \<in> mem_sizes" and "unat (rg_base r) mod 2 ^ page_bits (rg_size r) = 0"
proof -
  show sz: "rg_size r \<in> mem_sizes" using assms by (auto simp: laid_out_def)
  have "\<exists>b. rg_base r = fit (rg_size r) b"
    using assms stacked_fit [of _ "map vp_ram ps" r] stacked_fit [of _ "map vp_flash ps" r]
    by (auto simp: laid_out_def vp_regions_def)
  then show "unat (rg_base r) mod 2 ^ page_bits (rg_size r) = 0" using fit_aligned [OF sz] by auto
qed

lemma few_machines: "laid_out ps \<Longrightarrow> length ps \<le> 7"
proof -
  have "2 * length ps \<le> sum_list (map (length \<circ> vp_regions) ps)"
    by (induction ps) (simp_all add: vp_regions_def)
  then show "laid_out ps \<Longrightarrow> ?thesis" by (simp add: laid_out_def)
qed

lemma laid_out_bounds:
  assumes "laid_out ps" and "i < length ps"
  shows "0x80008000 \<le> rg_start (vp_ram (ps ! i))" and "rg_end (vp_ram (ps ! i)) \<le> 0x80E08000"
    and "0x9D010000 \<le> rg_start (vp_flash (ps ! i))" and "rg_end (vp_flash (ps ! i)) \<le> 0x9DE10000"
proof -
  note n = few_machines [OF assms(1)]
  have "\<forall>r\<in>set (map vp_ram ps). rg_size r \<in> mem_sizes" "\<forall>r\<in>set (map vp_flash ps). rg_size r \<in> mem_sizes"
    using assms(1) by (auto simp: laid_out_def vp_regions_def)
  note b = stacked_bounds [OF _ this(1), THEN conjunct1] stacked_bounds [OF _ this(2), THEN conjunct1]
  have r: "vp_ram (ps ! i) \<in> set (map vp_ram ps)" "vp_flash (ps ! i) \<in> set (map vp_flash ps)" using assms(2) by auto
  have s: "stacked 0x80008000 (map vp_ram ps)" "stacked 0x9D010000 (map vp_flash ps)" using assms(1) by (simp_all add: laid_out_def)
  have "0x80008000 \<le> rg_start (vp_ram (ps ! i)) \<and> rg_end (vp_ram (ps ! i)) \<le> 0x80008000 + length ps * 2 ^ 21"
    using bspec [OF b(1) [OF s(1)] r(1)] n by simp
  moreover have "0x9D010000 \<le> rg_start (vp_flash (ps ! i)) \<and> rg_end (vp_flash (ps ! i)) \<le> 0x9D010000 + length ps * 2 ^ 21"
    using bspec [OF b(2) [OF s(2)] r(2)] n by simp
  ultimately show "0x80008000 \<le> rg_start (vp_ram (ps ! i))" and "rg_end (vp_ram (ps ! i)) \<le> 0x80E08000"
    and "0x9D010000 \<le> rg_start (vp_flash (ps ! i))" and "rg_end (vp_flash (ps ! i)) \<le> 0x9DE10000" using n by simp_all
qed

lemma laid_out_ordered:
  assumes "laid_out ps" and "i < j" and "j < length ps"
  shows "rg_end (vp_ram (ps ! i)) \<le> rg_start (vp_ram (ps ! j))" and "rg_end (vp_flash (ps ! i)) \<le> rg_start (vp_flash (ps ! j))"
proof -
  note n = few_machines [OF assms(1)]
  have "\<forall>r\<in>set (map vp_ram ps). rg_size r \<in> mem_sizes" "\<forall>r\<in>set (map vp_flash ps). rg_size r \<in> mem_sizes"
    using assms(1) by (auto simp: laid_out_def vp_regions_def)
  note b = stacked_bounds [OF _ this(1), THEN conjunct2] stacked_bounds [OF _ this(2), THEN conjunct2]
  show "rg_end (vp_ram (ps ! i)) \<le> rg_start (vp_ram (ps ! j))" and "rg_end (vp_flash (ps ! i)) \<le> rg_start (vp_flash (ps ! j))"
    using b(1) [of "0x80008000"] b(2) [of "0x9D010000"] assms n by (auto simp: laid_out_def)
qed

text \<open>The memory of a machine apart from the mappings it asks for by address.\<close>

definition own_memory :: "vm_plan \<Rightarrow> u32 set" where
  "own_memory p = window (vp_ram p) \<union> window (vp_flash p)"

lemma regions_disjoint:
  assumes "laid_out ps" and "i < length ps" and "j < length ps" and "i \<noteq> j"
  shows "own_memory (ps ! i) \<inter> own_memory (ps ! j) = {}"
proof -
  have "False" if ij: "i < j" "j < length ps" and pa: "pa \<in> own_memory (ps ! i)" "pa \<in> own_memory (ps ! j)" for i j pa
  proof -
    have i: "i < length ps" using ij by simp
    note bi = laid_out_bounds [OF assms(1) i] and bj = laid_out_bounds [OF assms(1) ij(2)]
    note o = laid_out_ordered [OF assms(1) ij]
    have w: "rg_start r \<le> unat pa + 0x80000000 \<and> unat pa + 0x80000000 < rg_end r"
      if "pa \<in> window r" "0x80008000 \<le> rg_start r" "rg_end r \<le> 0x9DE10000" for r
      using window_interval [OF _ _ that(1)] that(2,3) by simp
    show False using pa w [of "vp_ram (ps ! i)"] w [of "vp_flash (ps ! i)"] w [of "vp_ram (ps ! j)"] w [of "vp_flash (ps ! j)"]
      bi bj o unfolding own_memory_def by auto
  qed
  then show ?thesis using assms(2-4) by (metis disjoint_iff linorder_neqE_nat)
qed

text \<open>The first 32 KB of RAM are the hypervisor's.\<close>

lemma above_hypervisor:
  assumes "laid_out ps" and "i < length ps" and "pa \<in> own_memory (ps ! i)"
  shows "0x8000 \<le> unat pa"
  using assms(3) window_interval(1) [of "vp_ram (ps ! i)" pa] window_interval(1) [of "vp_flash (ps ! i)" pa]
    laid_out_bounds [OF assms(1,2)] by (auto simp: own_memory_def)

end
