(* ===== verification/Isolation.thy ===== *)
theory Isolation
  imports GenconfLayout Boot
begin

text \<open>
  Isolation of the guests' memory, from the configuration to the running kernel: the generated table (\<open>GenconfLayout\<close>) as the
  compiler reads it (\<open>entry_of\<close>, \<open>tables_of\<close>); the TLB that start-up fills from it (\<open>boot_loads\<close>), which no later step changes
  for the guests, so that the translation of a guest's addresses is the configured one (\<open>guest_translation\<close>); and what an entry
  reaches: the bytes of its region only (\<open>entry_confined\<close>, \<open>guest_confined\<close>), and all of them (\<open>entry_translates\<close>, \<open>guest_reaches\<close>).
  Last, why a RAM that begins at an odd page cannot be read by the hypervisor (\<open>odd_base_copy\<close>).
\<close>

subsection \<open>The generated table as the compiler reads it\<close>

text \<open>The macros of \<^verbatim>\<open>tlb.h\<close>.\<close>

definition pagemask_of :: "string \<Rightarrow> u32" where
  "pagemask_of name =
     (if name = ''PAGEMASK_4KB'' then 0 else if name = ''PAGEMASK_16KB'' then 0x3 else if name = ''PAGEMASK_64KB'' then 0xF
      else if name = ''PAGEMASK_256KB'' then 0x3F else if name = ''PAGEMASK_1MB'' then 0xFF else if name = ''PAGEMASK_4MB'' then 0x3FF
      else if name = ''PAGEMASK_16MB'' then 0xFFF else if name = ''PAGEMASK_64MB'' then 0x3FFF else 0xFFFF)"

definition entry_of :: "region \<Rightarrow> tlb_entries" where
  "entry_of r = \<lparr>te_entrylo0 = kseg0_addr_to_physical (rg_base r),
     te_entrylo1 = (if snd (page_of (rg_size r)) then kseg0_addr_to_physical (rg_base r + rg_size r div 2) else 0),
     te_pagemask = pagemask_of (ms_name (fst (page_of (rg_size r)))),
     te_entryhi = kseg0_addr_to_physical (rg_va r), te_coherency = 2\<rparr>"

definition tlb_of :: "tlbentry \<Rightarrow> tlb_reg" where
  "tlb_of e = \<lparr>t_gid = guestid e, t_hi = push_bit ENTRYHI_VPN2_SHIFT (entryhi e) AND ENTRYHI_MASK,
     t_lo0 = push_bit ENTRYLO_PFN_SHIFT (entrylo0 e) OR lo0flags e OR push_bit ENTRYLO_C_SHIFT (coherency e),
     t_lo1 = push_bit ENTRYLO_PFN_SHIFT (entrylo1 e) OR lo1flags e OR push_bit ENTRYLO_C_SHIFT (coherency e),
     t_mask = push_bit PAGEMASK_MASK_SHIFT (pagemask e)\<rparr>"

definition guest_entry :: "u32 \<Rightarrow> tlb_entries \<Rightarrow> tlb_reg" where
  "guest_entry vmid te = tlb_of (mk_tlbentry vmid 0 te)"

lemma tlb_of_mk: "tlb_of (mk_tlbentry vmid idx te) = guest_entry vmid te"
  by (simp add: guest_entry_def tlb_of_def mk_tlbentry_def Let_def)

lemma page_pair:
  assumes "rg_size r \<in> mem_sizes"
  shows "pair_mask (guest_entry vmid (entry_of r)) = mask (page_bits (rg_size r) + 1)"
  using assms unfolding mem_sizes_eq
  by (elim insertE emptyE) (simp_all add: guest_entry_def tlb_of_def mk_tlbentry_def entry_of_def Let_def pair_mask_def
    page_table PageSizes_def pagemask_of_def page_bits_def mask_eq_exp_minus_1)

lemma page_offset:
  assumes "rg_size r \<in> mem_sizes"
  shows "drop_bit 1 (pair_mask (guest_entry vmid (entry_of r))) = mask (page_bits (rg_size r))"
proof -
  have "drop_bit 1 (mask (n + 1) :: u32) = mask n" if "n < 31" for n
    using that by (intro bit_word_eqI) (auto simp: bit_simps)
  then show ?thesis using page_bits_le [of "rg_size r"] unfolding page_pair [OF assms] by simp
qed

text \<open>The two physical frames of an entry.\<close>

lemma entry_frames:
  "t_lo0 (guest_entry vmid te) = push_bit 6 (te_entrylo0 te) OR (if te_entrylo0 te = 0 then 0 else 6) OR push_bit 3 (te_coherency te)"
  "t_lo1 (guest_entry vmid te) = push_bit 6 (te_entrylo1 te) OR (if te_entrylo1 te = 0 then 0 else 6) OR push_bit 3 (te_coherency te)"
  by (simp_all add: guest_entry_def tlb_of_def mk_tlbentry_def zero_tlbentry_def Let_def)

lemma lo_flags: "(push_bit 6 p OR f OR 16 :: u32) AND 2 = f AND 2"
proof -
  have "push_bit 6 p AND 2 = (0 :: u32)" by (rule bit_word_eqI) (auto simp: bit_simps)
  then show ?thesis by (simp add: bit.conj_disj_distrib2)
qed

lemma lo_nonzero: "(push_bit 6 p OR (if p = 0 then 0 else 6) OR 16 :: u32) AND 2 \<noteq> 0 \<Longrightarrow> p \<noteq> 0"
  by (auto simp: lo_flags)

lemma page_frame:
  fixes x va :: u32
  assumes "12 \<le> k" "k < 29" and al: "unat x mod 2 ^ k = 0" and f: "f = 6"
  shows "(push_bit 12 (drop_bit 6 (push_bit 6 (drop_bit 12 (x AND 0x1FFFFFFF)) OR f OR 16)) AND NOT (mask k)) OR (va AND mask k)
    = (x + (va AND mask k)) AND 0x1FFFFFFF"
proof -
  have m: "(0x1FFFFFFF :: u32) = mask 29" by (simp add: mask_eq_exp_minus_1)
  have "take_bit k x = 0" using al by (metis take_bit_eq_mod unsigned_take_bit_eq unat_eq_zero)
  then have lowz: "\<not> bit x i" if "i < k" for i using that by (metis bit_take_bit_iff bit_0_eq bot_apply bot_bool_def)
  have d: "drop_bit 6 (push_bit 6 (drop_bit 12 (x AND mask 29)) OR f OR 16 :: u32) = drop_bit 12 (x AND mask 29)"
  proof -
    have "drop_bit 6 (6 :: u32) = 0" "drop_bit 6 (16 :: u32) = 0" by simp_all
    then have "drop_bit 6 (a OR f OR 16) = drop_bit 6 a" for a :: u32 unfolding f by (simp only: drop_bit_or or.right_neutral)
    moreover have "drop_bit 6 (push_bit 6 (drop_bit 12 (x AND mask 29))) = drop_bit 12 (x AND mask 29)"
      by (rule bit_word_eqI) (auto simp: bit_simps)
    ultimately show ?thesis by (simp only:)
  qed
  have "x AND (va AND mask k) = 0" by (rule bit_word_eqI) (use lowz in \<open>auto simp: bit_simps\<close>)
  then have add: "x + (va AND mask k) = x OR (va AND mask k)" by (rule disjunctive_add_eq_or)
  have ge: "12 \<le> i" if "bit x i" for i using lowz [of i] that assms(1) by (cases "i < k") auto
  then have "bit x (12 + (i - 12)) \<longleftrightarrow> bit x i" if "12 \<le> i" for i using that by simp
  then show ?thesis unfolding m d add
    using assms(1,2) lowz ge by (intro bit_word_eqI) (auto simp: bit_simps)
qed


text \<open>An entry of a region reaches the bytes of the region only.\<close>

lemma entry_confined:
  assumes sz: "rg_size r \<in> mem_sizes" and al: "unat (rg_base r) mod 2 ^ page_bits (rg_size r) = 0"
    and pa: "tlb_phys va (guest_entry vmid (entry_of r)) = Some pa"
  shows "pa \<in> window r"
proof -
  let ?e = "guest_entry vmid (entry_of r)" and ?k = "page_bits (rg_size r)"
  let ?x = "rg_base r + rg_size r div 2"
  have k: "12 \<le> ?k" "?k < 29" using page_bits_le [of "rg_size r"] by simp_all
  have off: "drop_bit 1 (pair_mask ?e) = mask ?k" using sz by (rule page_offset)
  have lo: "t_lo0 ?e = push_bit 6 (te_entrylo0 (entry_of r)) OR (if te_entrylo0 (entry_of r) = 0 then 0 else 6) OR 16"
    "t_lo1 ?e = push_bit 6 (te_entrylo1 (entry_of r)) OR (if te_entrylo1 (entry_of r) = 0 then 0 else 6) OR 16"
    by (simp_all add: entry_frames entry_of_def)
  define lo where "lo = (if va AND (mask ?k + 1) = 0 then t_lo0 ?e else t_lo1 ?e)"
  have v: "lo AND 2 \<noteq> 0" and pa': "pa = (push_bit 12 (drop_bit 6 lo) AND NOT (mask ?k)) OR (va AND mask ?k)"
    using pa unfolding tlb_phys_def off Let_def lo_def [symmetric] by (simp_all split: if_splits)
  define p where "p = (if va AND (mask ?k + 1) = 0 then te_entrylo0 (entry_of r) else te_entrylo1 (entry_of r))"
  have lp: "lo = push_bit 6 p OR (if p = 0 then 0 else 6) OR 16" unfolding lo_def lo p_def by simp
  then have "p \<noteq> 0" using v lo_nonzero by metis
  moreover have "\<exists>y. p = drop_bit 12 (y AND 0x1FFFFFFF) \<and> (y = rg_base r \<or> y = ?x \<and> snd (page_of (rg_size r)))"
    if "p \<noteq> 0" using that unfolding p_def entry_of_def tlb_entries.simps kseg0_addr_to_physical_def
    by (auto simp del: drop_bit_and split: if_splits)
  ultimately have "\<exists>y. lo = push_bit 6 (drop_bit 12 (y AND 0x1FFFFFFF)) OR 6 OR 16 \<and> (y = rg_base r \<or> y = ?x \<and> snd (page_of (rg_size r)))"
    using lp by auto
  then obtain y where y: "lo = push_bit 6 (drop_bit 12 (y AND 0x1FFFFFFF)) OR 6 OR 16"
    "y = rg_base r \<or> y = ?x \<and> snd (page_of (rg_size r))" by blast
  note mp = mem_sizes_pages(3) [OF sz]
  have off_lt: "unat (va AND mask ?k) < 2 ^ ?k"
  proof -
    have "unat (va AND mask ?k) = unat va mod 2 ^ ?k"
      by (metis take_bit_eq_mask take_bit_eq_mod unsigned_take_bit_eq)
    then show ?thesis by simp
  qed
  have half: "unat (rg_size r div 2) = 2 ^ ?k" if "snd (page_of (rg_size r))" using that mp by (simp add: unat_div)
  have "\<exists>n. y + (va AND mask ?k) = rg_base r + of_nat n \<and> n < unat (rg_size r) \<and> unat y mod 2 ^ ?k = 0"
    using y(2)
  proof
    assume "y = rg_base r"
    then show ?thesis using al off_lt mp by (intro exI [of _ "unat (va AND mask ?k)"]) (auto split: if_splits)
  next
    assume d: "y = ?x \<and> snd (page_of (rg_size r))"
    have "(2 :: nat) ^ ?k dvd 2 ^ 32" using k by (intro le_imp_power_dvd) simp
    moreover have "unat ?x = (unat (rg_base r) + 2 ^ ?k) mod 2 ^ 32" using half d by (simp add: unat_word_ariths)
    ultimately have "unat ?x mod 2 ^ ?k = (unat (rg_base r) + 2 ^ ?k) mod 2 ^ ?k" by (simp only: mod_mod_cancel)
    then have "unat y mod 2 ^ ?k = 0" using al d by simp
    moreover have "of_nat (unat (rg_size r div 2) + unat (va AND mask ?k)) = rg_size r div 2 + (va AND mask ?k)"
      by simp
    then have "y + (va AND mask ?k) = rg_base r + of_nat (unat (rg_size r div 2) + unat (va AND mask ?k))"
      using d by (simp only: add.assoc)
    moreover have "unat (rg_size r div 2) + unat (va AND mask ?k) < unat (rg_size r)"
      using off_lt mp half d by (simp only: if_True)
    ultimately show ?thesis by metis
  qed
  then obtain n where n: "y + (va AND mask ?k) = rg_base r + of_nat n" "n < unat (rg_size r)" "unat y mod 2 ^ ?k = 0"
    by (elim exE conjE) (rule that)
  have "pa = (y + (va AND mask ?k)) AND 0x1FFFFFFF"
    unfolding pa' y(1) by (rule page_frame [OF k n(3) refl])
  then show ?thesis using n by (auto simp: window_def)
qed


subsection \<open>The TLB after start-up\<close>

text \<open>Start-up writes the entries of the machines one after the other, from index 0 on.\<close>

primrec tlb_load :: "u32 \<Rightarrow> tlb_reg list \<Rightarrow> (u32 \<Rightarrow> tlb_reg option) \<Rightarrow> u32 \<Rightarrow> tlb_reg option" where
  "tlb_load i [] t = t"
| "tlb_load i (e # es) t = tlb_load (i + 1) es (t(i \<mapsto> e))"

lemma tlb_load_append: "tlb_load i (xs @ ys) t = tlb_load (i + of_nat (length xs)) ys (tlb_load i xs t)"
  by (induction xs arbitrary: i t) (simp_all add: algebra_simps)

lemma tlb_load_lookup:
  "unat i + length es < 2 ^ 32 \<Longrightarrow> tlb_load i es t j =
   (if unat i \<le> unat j \<and> unat j < unat i + length es then Some (es ! (unat j - unat i)) else t j)"
proof (induction es arbitrary: i t)
  case (Cons e es)
  have u: "unat (i + 1) = unat i + 1" using Cons.prems by (subst unat_add_small) simp_all
  define t' where "t' = t(i \<mapsto> e)"
  have ih: "tlb_load (i + 1) es t' j =
    (if unat i + 1 \<le> unat j \<and> unat j < unat i + 1 + length es then Some (es ! (unat j - (unat i + 1))) else t' j)"
    using Cons.IH [of "i + 1" t'] Cons.prems unfolding u by simp
  have j: "unat j = unat i \<longleftrightarrow> j = i" by (simp add: word_unat_eq_iff)
  have "tlb_load i (e # es) t j = tlb_load (i + 1) es t' j" by (simp add: t'_def)
  also have "\<dots> = (if unat i \<le> unat j \<and> unat j < unat i + length (e # es) then Some ((e # es) ! (unat j - unat i)) else t j)"
  proof (cases "unat i < unat j")
    case True
    then have "unat j - unat i = Suc (unat j - (unat i + 1))" "j \<noteq> i" by auto
    then show ?thesis unfolding ih using True by (simp add: t'_def)
  next
    case False
    then show ?thesis unfolding ih using j by (auto simp: t'_def)
  qed
  finally show ?case .
qed auto

definition boots_alike :: "kst \<Rightarrow> kst \<Rightarrow> bool" where
  "boots_alike s s' \<longleftrightarrow> mach s' = mach s \<and> VMCONF s' = VMCONF s \<and> st_vm_id s' = st_vm_id s \<and> st_tlbindex s' = st_tlbindex s"

lemma boots_alike_malloc: "k_malloc n s = Some (s', p) \<Longrightarrow> boots_alike s s'"
  by (auto simp: k_malloc_def boots_alike_def)

lemma boots_alike_append: "list_append l x s = Some (r, l', s') \<Longrightarrow> boots_alike s s'"
  by (auto simp: list_append_def upd_node_def Let_def boots_alike_def split: if_splits dest!: boots_alike_malloc)

lemma boots_alike_vcpu: "create_vcpu vm e s = Some (p, s') \<Longrightarrow> boots_alike s s'"
  by (auto simp: create_vcpu_def Let_def boots_alike_def split: if_splits dest!: boots_alike_malloc)

lemma fill_tlb_loads:
  assumes "unat vmid < 256"
  shows "fill_tlb vmid tes s = (es, s') \<Longrightarrow>
    tlb (mach s') = tlb_load (st_tlbindex s) (map (guest_entry vmid) tes) (tlb (mach s)) \<and> VMCONF s' = VMCONF s \<and>
    st_vm_id s' = st_vm_id s \<and> st_tlbindex s' = st_tlbindex s + of_nat (length tes)"
proof (induction tes arbitrary: s es)
  case (Cons te tes)
  let ?e = "mk_tlbentry vmid (st_tlbindex s) te"
  let ?s = "s\<lparr>mach := tlbEntryWrite ?e (mach s), st_tlbindex := st_tlbindex s + 1\<rparr>"
  obtain es1 where "fill_tlb vmid tes ?s = (es1, s')"
    using Cons.prems by (auto simp: upd_mach_def Let_def split: prod.splits)
  note ih = Cons.IH [OF this]
  have T: "tlb (mach ?s) = (tlb (mach s))(st_tlbindex s \<mapsto> guest_entry vmid te)"
    using tlbEntryWrite_tlb [of ?e "mach s"] assms unfolding tlb_of_def [symmetric] by (simp add: tlb_of_mk)
  have "tlb (mach s') = tlb_load (st_tlbindex s) (map (guest_entry vmid) (te # tes)) (tlb (mach s))"
    using ih [THEN conjunct1] unfolding T unfolding list.map tlb_load.simps by (simp del: fun_upd_apply)
  then show ?case using ih [THEN conjunct2] by (simp add: algebra_simps)
qed simp

lemma create_vm_loads:
  assumes c: "create_vm i s = Some (m, s')" and "unat (st_vm_id s) < 256"
  shows "tlb (mach s') = tlb_load (st_tlbindex s) (map (guest_entry (st_vm_id s)) (cf_tlb (VMCONF s ! i))) (tlb (mach s)) \<and>
    VMCONF s' = VMCONF s \<and> st_vm_id s' = st_vm_id s + 1 \<and>
    st_tlbindex s' = st_tlbindex s + of_nat (length (cf_tlb (VMCONF s ! i)))"
proof -
  let ?id = "st_vm_id s" and ?conf = "VMCONF s ! i"
  obtain s1 vm where s1: "k_malloc SIZEOF_vm_t s = Some (s1, vm)" "vm \<noteq> NULL"
    using c by (auto simp: create_vm_def Let_def split: if_splits)
  obtain s2 tab es s3 where s2: "k_malloc (SIZEOF_tlbentry * of_nat (length (cf_tlb ?conf))) (s1\<lparr>st_vm_id := st_vm_id s1 + 1\<rparr>) = Some (s2, tab)"
    and s3: "fill_tlb (st_vm_id s1) (cf_tlb ?conf) s2 = (es, s3)" "boots_alike s3 s'"
  proof -
    have "\<exists>s2 tab es s3. k_malloc (SIZEOF_tlbentry * of_nat (length (cf_tlb ?conf))) (s1\<lparr>st_vm_id := st_vm_id s1 + 1\<rparr>) = Some (s2, tab) \<and>
      fill_tlb (st_vm_id s1) (cf_tlb ?conf) s2 = (es, s3) \<and> mach s' = mach s3 \<and> VMCONF s' = VMCONF s3 \<and> st_vm_id s' = st_vm_id s3 \<and>
      st_tlbindex s' = st_tlbindex s3"
      using c s1 by (auto simp: create_vm_def Let_def bind_eq_Some_conv boots_alike_def split: if_splits prod.splits
          dest!: boots_alike_vcpu boots_alike_append)
    with that show thesis by (auto simp: boots_alike_def)
  qed
  have b: "boots_alike s s1" "boots_alike (s1\<lparr>st_vm_id := st_vm_id s1 + 1\<rparr>) s2" using boots_alike_malloc s1(1) s2 by blast+
  then have "unat (st_vm_id s1) < 256" using assms(2) by (simp add: boots_alike_def)
  from fill_tlb_loads [OF this s3(1)] show ?thesis using b s3(2) by (simp add: boots_alike_def)
qed

text \<open>The entries of all machines, in order.\<close>

primrec configured_tlb :: "u32 \<Rightarrow> vmconf_t list \<Rightarrow> tlb_reg list" where
  "configured_tlb vmid [] = []"
| "configured_tlb vmid (c # cs) = map (guest_entry vmid) (cf_tlb c) @ configured_tlb (vmid + 1) cs"

lemma create_vms_loads:
  "create_vms is s = Some s' \<Longrightarrow> unat (st_vm_id s) + length is < 256 \<Longrightarrow>
   tlb (mach s') = tlb_load (st_tlbindex s) (configured_tlb (st_vm_id s) (map ((!) (VMCONF s)) is)) (tlb (mach s))"
proof (induction "is" arbitrary: s)
  case (Cons i "is")
  obtain m s1 where s1: "create_vm i s = Some (m, s1)" "create_vms is s1 = Some s'"
    using Cons.prems(1) by (auto simp: bind_eq_Some_conv)
  have id: "unat (st_vm_id s) < 256" using Cons.prems(2) by simp
  note e = create_vm_loads [OF s1(1) id]
  have "unat (st_vm_id s1) = unat (st_vm_id s) + 1"
    using e Cons.prems(2) unat_add_small [of "st_vm_id s" 1] by simp
  then have "unat (st_vm_id s1) + length is < 256" using Cons.prems(2) by simp
  from Cons.IH [OF s1(2) this] e show ?case by (simp add: tlb_load_append)
qed simp

lemma boot_loads:
  assumes run: "hyper_init hs sz ds s = Some (Running s')"
    and v1: "st_vm_id s = 1" and few: "length (VMCONF s) \<le> 15"
  shows "tlb (mach s') = tlb_load (st_tlbindex s) (configured_tlb 1 (VMCONF s)) (tlb (mach s))"
proof -
  obtain h where ll: "LowLevelProcInit (early_platform_init (mach s)) = (0, h)"
    using hyper_init_halted [OF run] .
  note eq = hyper_init_eq [OF ll, of hs sz]
  let ?s2 = "s\<lparr>mach := h, heap := init_mem (heap s) hs sz\<rparr>"
  have "\<forall>c\<in>set (VMCONF s). image_decided ?s2 c" using boot_authentic [OF run] eq(2) authentic_decided by blast
  from isVmTrust_loop_total [OF this] obtain t k where t: "isVmTrust_loop (VMCONF s) ?s2 = Some (t, ?s2\<lparr>mach := k\<rparr>)"
    "tlb k = tlb (mach ?s2)" by blast
  let ?s3 = "?s2\<lparr>mach := k\<rparr>"
  obtain s4 s5 where s4: "initializeMachines ?s3 = Some s4" and s5: "drivers_initialization ds s4 = Some s5" "s' = start_timer s5"
    using run t(1) unfolding eq(1) by (auto simp: isVmTrust_def split: if_splits)
  have "b_step s4 s'" unfolding s5(2) by (rule b_step_trans [OF b_step_drivers [OF s5(1)] b_step_start_timer])
  then have "tlb (mach s') = tlb (mach s4)" by (simp add: b_step_def)
  moreover have c: "create_vms [0..<length (VMCONF s)] (?s3\<lparr>vcpu_ready_list := NULL, virtual_machines_list := NULL\<rparr>) = Some s4"
    using s4 by (simp add: initializeMachines_def)
  ultimately show ?thesis
    using create_vms_loads [OF c] v1 few t(2) eq(4) by (simp add: map_nth)
qed

subsection \<open>The translation of a guest's addresses\<close>

text \<open>The second stage of the translation: what the processor makes of a physical address of guest \<open>gid\<close>.\<close>

definition guest_translate :: "hw \<Rightarrow> u32 \<Rightarrow> u32 \<Rightarrow> u32 option" where
  "guest_translate h gid va = Option.bind (tlb_lookup h gid va) (tlb_phys va)"

lemma find_map_filter_cong:
  "(\<And>x. x \<in> set xs \<Longrightarrow> f x = g x \<or> (\<forall>e. f x = Some e \<or> g x = Some e \<longrightarrow> \<not> P e)) \<Longrightarrow>
   List.find P (List.map_filter f xs) = List.find P (List.map_filter g xs)"
proof (induction xs)
  case (Cons x xs)
  have "List.find P (List.map_filter f xs) = List.find P (List.map_filter g xs)" by (rule Cons.IH) (use Cons.prems in simp)
  then show ?case using Cons.prems [of x] by (auto simp: List.map_filter_simps split: option.splits)
qed (simp add: List.map_filter_simps)

lemma map_filter_table:
  assumes "length es \<le> n" and "\<And>i. i < n \<Longrightarrow> f i = (if i < length es then Some (es ! i) else None)"
  shows "List.map_filter f [0..<n] = es"
proof -
  have "filter (\<lambda>i. f i \<noteq> None) [0..<n] = [0..<length es]"
  proof -
    have "[0..<n] = [0..<length es] @ [length es..<n]" using assms(1) by (metis le_add_diff_inverse upt_add_eq_append zero_le)
    moreover have "filter (\<lambda>i. f i \<noteq> None) [0..<length es] = [0..<length es]" using assms by (intro filter_True) auto
    moreover have "filter (\<lambda>i. f i \<noteq> None) [length es..<n] = []" using assms by (intro filter_False) auto
    ultimately show ?thesis by simp
  qed
  moreover have "map (the \<circ> f) [0..<length es] = es"
    by (rule nth_equalityI) (use assms in simp_all)
  ultimately show ?thesis by (simp add: List.map_filter_def o_def)
qed

text \<open>In every state that the running kernel reaches, it is the configured one.\<close>

lemma guest_translation:
  assumes c: "cold s" and emp: "tlb (mach s) = Map.empty" "st_tlbindex s = 0" and room: "length (configured_tlb 1 (VMCONF s)) \<le> 15"
    and hp: "heap_room hs sz r" "CREATE_COST * length (VMCONF s) < r"
    and run: "hyper_init hs sz ds s = Some (Running s')" and steps: "kernel_step\<^sup>*\<^sup>* (Running s') (Running s'')" and "gid \<noteq> 0"
  shows "tlb_lookup (mach s'') gid va = List.find (\<lambda>e. t_gid e = gid \<and> tlb_match va e) (configured_tlb 1 (VMCONF s))"
proof -
  let ?L = "configured_tlb 1 (VMCONF s)" and ?P = "\<lambda>e. t_gid e = gid \<and> tlb_match va e"
  obtain rs ms t where k: "kinv_at rs ms t s'" using boot_reaches_kinv [OF c hp run] by blast
  have "tlb (mach s') = tlb_load 0 ?L Map.empty" using boot_loads [OF run] c emp by (simp add: cold_def)
  then have l: "tlb (mach s') j = (if unat j < length ?L then Some (?L ! unat j) else None)" for j
    using tlb_load_lookup [of 0 ?L Map.empty j] room by simp
  have same: "guest_tlb_same (mach s') (mach s'')" using kernel_steps_guest_tlb [OF steps refl k refl] .
  have u: "unat (of_nat i :: u32) = i" if "i < NUM_TLB" for i using that by (intro unat_of_nat_small) (simp add: NUM_TLB_def)
  have "List.find ?P (List.map_filter (\<lambda>i. tlb (mach s'') (of_nat i)) [0..<NUM_TLB]) =
    List.find ?P (List.map_filter (\<lambda>i. tlb (mach s') (of_nat i)) [0..<NUM_TLB])"
  proof (rule find_map_filter_cong)
    fix i assume "i \<in> set [0..<NUM_TLB]"
    then have i: "i < NUM_TLB" by simp
    show "tlb (mach s'') (of_nat i) = tlb (mach s') (of_nat i) \<or>
      (\<forall>e. tlb (mach s'') (of_nat i) = Some e \<or> tlb (mach s') (of_nat i) = Some e \<longrightarrow> \<not> ?P e)"
    proof (cases "i = 15")
      case True
      then have n: "tlb (mach s') 15 = None" using l [of 15] room by simp
      have "t_gid e = 0" if "tlb (mach s'') 15 = Some e" for e
        using same that n by (auto simp: guest_tlb_same_def)
      then show ?thesis using True n assms(9) by auto
    next
      case False
      have "unat (15 :: u32) = 15" by simp
      then have "of_nat i \<noteq> (15 :: u32)" using u [OF i] False by auto
      then show ?thesis using same by (simp add: guest_tlb_same_def)
    qed
  qed
  also have "List.map_filter (\<lambda>i. tlb (mach s') (of_nat i)) [0..<NUM_TLB] = ?L"
    by (rule map_filter_table) (use room l u in \<open>simp_all add: NUM_TLB_def\<close>)
  finally show ?thesis by (simp add: tlb_lookup_def)
qed

subsection \<open>The memory of a machine\<close>

text \<open>What a guest can reach, what a machine of a table is given, and the tables of the machines.\<close>

definition reachable_memory :: "hw \<Rightarrow> u32 \<Rightarrow> u32 set" where
  "reachable_memory h gid = {pa. \<exists>va. guest_translate h gid va = Some pa}"

definition machine_memory :: "vm_plan \<Rightarrow> u32 set" where
  "machine_memory p = \<Union> (window ` set (vp_regions p))"

definition tables_of :: "vm_plan list \<Rightarrow> tlb_entries list list" where
  "tables_of ps = map (\<lambda>p. map entry_of (vp_regions p)) ps"

lemma configured_tlb_entries:
  "e \<in> set (configured_tlb vmid cs) \<Longrightarrow> \<exists>i te. i < length cs \<and> te \<in> set (cf_tlb (cs ! i)) \<and> e = guest_entry (vmid + of_nat i) te"
proof (induction cs arbitrary: vmid)
  case (Cons c cs)
  then consider te where "te \<in> set (cf_tlb c)" "e = guest_entry vmid te" | "e \<in> set (configured_tlb (vmid + 1) cs)" by auto
  then show ?case
  proof cases
    case 1
    then show ?thesis by (intro exI [of _ 0] exI [of _ te]) simp
  next
    case 2
    from Cons.IH [OF this] obtain i te where "i < length cs" "te \<in> set (cf_tlb (cs ! i))" "e = guest_entry (vmid + 1 + of_nat i) te"
      by blast
    then show ?thesis by (intro exI [of _ "Suc i"] exI [of _ te]) (simp add: add.assoc)
  qed
qed simp

lemma configured_tlb_length: "length (configured_tlb vmid cs) = sum_list (map (length \<circ> cf_tlb) cs)"
  by (induction cs arbitrary: vmid) simp_all

lemma laid_out_table:
  assumes "laid_out ps" and tab: "map cf_tlb cs = tables_of ps"
  shows "length (configured_tlb vmid cs) \<le> 15" and "length cs = length ps"
    and "\<And>i. i < length ps \<Longrightarrow> cf_tlb (cs ! i) = map entry_of (vp_regions (ps ! i))"
proof -
  have "map length (map cf_tlb cs) = map length (tables_of ps)" using tab by simp
  then have "sum_list (map (length \<circ> cf_tlb) cs) = sum_list (map (length \<circ> vp_regions) ps)"
    by (simp add: tables_of_def o_def)
  then show "length (configured_tlb vmid cs) \<le> 15" using assms(1) by (simp add: configured_tlb_length laid_out_def)
  show len: "length cs = length ps" using arg_cong [OF tab, of length] by (simp add: tables_of_def)
  fix i assume i: "i < length ps"
  have "map cf_tlb cs ! i = tables_of ps ! i" using tab by (simp only:)
  then show "cf_tlb (cs ! i) = map entry_of (vp_regions (ps ! i))" using i len by (simp add: tables_of_def)
qed

lemma guest_confined:
  assumes lo: "laid_out ps" and tab: "map cf_tlb (VMCONF s) = tables_of ps"
    and c: "cold s" and emp: "tlb (mach s) = Map.empty" "st_tlbindex s = 0"
    and hp: "heap_room hs sz r" "CREATE_COST * length (VMCONF s) < r"
    and run: "hyper_init hs sz ds s = Some (Running s')" and steps: "kernel_step\<^sup>*\<^sup>* (Running s') (Running s'')"
    and gid: "gid \<noteq> 0" and pa: "pa \<in> reachable_memory (mach s'') gid"
  shows "\<exists>i < length ps. gid = of_nat (i + 1) \<and> pa \<in> machine_memory (ps ! i)"
proof -
  note T = laid_out_table [OF lo tab]
  obtain va where va: "guest_translate (mach s'') gid va = Some pa" using pa by (auto simp: reachable_memory_def)
  then obtain e where e: "tlb_lookup (mach s'') gid va = Some e" "tlb_phys va e = Some pa" by (auto simp: guest_translate_def)
  then have "List.find (\<lambda>e. t_gid e = gid \<and> tlb_match va e) (configured_tlb 1 (VMCONF s)) = Some e"
    using guest_translation [OF c emp T(1) hp run steps gid] by simp
  then have "e \<in> set (configured_tlb 1 (VMCONF s))" and g: "t_gid e = gid" by (auto simp: find_Some_iff)
  from configured_tlb_entries [OF this(1)] obtain i te where i: "i < length ps" "te \<in> set (cf_tlb (VMCONF s ! i))"
    "e = guest_entry (of_nat (i + 1)) te" unfolding T(2) by (auto simp: add.commute)
  then obtain r where r: "r \<in> set (vp_regions (ps ! i))" "te = entry_of r" unfolding T(3) [OF i(1)] by auto
  have "ps ! i \<in> set ps" using i(1) by simp
  note al = laid_out_aligned [OF lo this r(1)]
  have "pa \<in> window r" using entry_confined [OF al] e(2) unfolding i(3) r(2) by blast
  moreover have "gid = of_nat (i + 1)" using g by (simp add: i(3) guest_entry_def tlb_of_def)
  ultimately show ?thesis using i(1) r(1) by (auto simp: machine_memory_def)
qed

subsection \<open>A guest reaches its memory\<close>

lemma take_bit_small: "unat o1 < 2 ^ n \<Longrightarrow> take_bit n (o1 :: u32) = o1"
  by (metis take_bit_nat_eq_self unsigned_take_bit_eq word_unat_eq_iff)

lemma find_configured:
  "unat vmid + length cs < 2 ^ 32 \<Longrightarrow> i < length cs \<Longrightarrow>
   List.find (\<lambda>e. t_gid e = vmid + of_nat i \<and> P e) (configured_tlb vmid cs) = List.find P (map (guest_entry (vmid + of_nat i)) (cf_tlb (cs ! i)))"
proof (induction cs arbitrary: vmid i)
  case (Cons c cs)
  have gid: "t_gid (guest_entry v te) = v" for v te by (simp add: guest_entry_def tlb_of_def)
  have app: "List.find Q (xs @ ys) = (case List.find Q xs of None \<Rightarrow> List.find Q ys | Some x \<Rightarrow> Some x)" for Q and xs ys :: "tlb_reg list"
    by (induction xs) auto
  have other: "List.find (\<lambda>e. t_gid e = g \<and> P e) (map (guest_entry v) tes) = (if g = v then List.find P (map (guest_entry v) tes) else None)" for g v tes
    by (induction tes) (auto simp: gid)
  have none: "List.find (\<lambda>e. t_gid e = vmid \<and> P e) (configured_tlb (vmid + 1) cs) = None"
  proof -
    have "t_gid e \<noteq> vmid" if e: "e \<in> set (configured_tlb (vmid + 1) cs)" for e
    proof -
      obtain k te where k: "k < length cs" "e = guest_entry (vmid + 1 + of_nat k) te" using configured_tlb_entries [OF e] by blast
      have "unat (of_nat (k + 1) :: u32) = k + 1" using k(1) Cons.prems(1) by (intro unat_of_nat_small) simp
      then have "of_nat (k + 1) \<noteq> (0 :: u32)" by (metis add_is_0 one_neq_zero unsigned_0)
      then show ?thesis using k(2) by (simp add: gid add.assoc)
    qed
    then show ?thesis by (auto simp: find_None_iff)
  qed
  show ?case
  proof (cases i)
    case 0
    then show ?thesis by (simp add: app other none split: option.split)
  next
    case (Suc k)
    have k: "k < length cs" using Cons.prems(2) Suc by simp
    have u: "unat (vmid + 1) = unat vmid + 1" using Cons.prems(1) by (subst unat_add_small) simp_all
    have "unat (of_nat i :: u32) = i" using Cons.prems by (intro unat_of_nat_small) simp
    then have "of_nat i \<noteq> (0 :: u32)" using Suc by (metis nat.distinct(1) unsigned_0)
    then have "vmid + of_nat i \<noteq> vmid" by simp
    moreover have "vmid + of_nat i = vmid + 1 + of_nat k" using Suc by simp
    ultimately show ?thesis using Cons.IH [of "vmid + 1" k] Cons.prems(1) k u
      unfolding configured_tlb.simps app other by (simp add: Suc add.assoc)
  qed
qed simp

lemma kseg0_nonzero:
  assumes "0x80001000 \<le> unat x" and "unat x < 0xA0000000"
  shows "kseg0_addr_to_physical x \<noteq> 0"
proof -
  have "(0x1FFFFFFF :: u32) = mask 29" by (simp add: mask_eq_exp_minus_1)
  then have "unat (x AND 0x1FFFFFFF) = unat x mod 2 ^ 29" by (metis take_bit_eq_mask take_bit_eq_mod unsigned_take_bit_eq)
  also have "\<dots> = unat x - 0x80000000" using assms by (intro mod_nat_eqI) simp_all
  finally have "0x1000 \<le> unat (x AND 0x1FFFFFFF)" using assms(1) by simp
  then have "unat (kseg0_addr_to_physical x) \<noteq> 0"
    unfolding kseg0_addr_to_physical_def by (simp add: drop_bit_eq_div unat_div)
  then show ?thesis by auto
qed

text \<open>The entry of a region maps every offset, if the place does not begin at physical address 0.\<close>

lemma entry_translates:
  assumes sz: "rg_size r \<in> mem_sizes" and al: "unat (rg_base r) mod 2 ^ page_bits (rg_size r) = 0"
    and place: "0x80001000 \<le> rg_start r" "rg_end r \<le> 0xA0000000"
    and v: "v = rg_va r AND 0x1FFFFFFF" "take_bit 21 v = 0" and o1: "unat o1 < unat (rg_size r)"
  shows "tlb_match (v + o1) (guest_entry vmid (entry_of r))"
    and "tlb_phys (v + o1) (guest_entry vmid (entry_of r)) = Some ((rg_base r + o1) AND 0x1FFFFFFF)"
proof -
  let ?e = "guest_entry vmid (entry_of r)" and ?k = "page_bits (rg_size r)"
  note mp = mem_sizes_pages(3) [OF sz]
  have k: "12 \<le> ?k" "?k \<le> 20" by (rule page_bits_le)+
  have o2: "unat o1 < 2 ^ (?k + 1)" using o1 mp by (auto split: if_splits)
  then have ob: "\<not> bit o1 n" if "?k < n" for n
    using take_bit_small [OF o2] that by (metis bit_take_bit_iff not_less_eq Suc_eq_plus1)
  have vb: "\<not> bit v n" if "n < 21" for n using v(2) that by (metis bit_take_bit_iff bit_0_eq bot_apply bot_bool_def)
  have "v AND o1 = 0"
  proof (rule bit_word_eqI)
    fix n show "bit (v AND o1) n = bit (0 :: u32) n" using vb [of n] ob [of n] k by (cases "n < 21") (auto simp: bit_simps)
  qed
  then have add: "v + o1 = v OR o1" by (rule disjunctive_add_eq_or)
  have hi: "t_hi ?e = v"
  proof -
    have h: "t_hi ?e = push_bit 12 (drop_bit 12 v) AND 0xFFFFE000"
      by (simp add: v(1) guest_entry_def tlb_of_def mk_tlbentry_def zero_tlbentry_def entry_of_def kseg0_addr_to_physical_def Let_def)
    have m: "(0xFFFFE000 :: u32) = NOT (mask 13)" by (simp add: mask_eq_exp_minus_1)
    have "push_bit 12 (drop_bit 12 v) AND NOT (mask 13) = v"
    proof (rule bit_word_eqI)
      fix n :: nat assume n: "n < LENGTH(32)"
      then show "bit (push_bit 12 (drop_bit 12 v) AND NOT (mask 13)) n = bit v n"
        using vb [of n] by (cases "n < 21") (auto simp: bit_simps)
    qed
    then show ?thesis unfolding h m .
  qed
  show "tlb_match (v + o1) ?e"
    unfolding tlb_match_def page_pair [OF sz] hi add
    using ob by (intro bit_word_eqI) (auto simp: bit_simps)
  have off: "drop_bit 1 (pair_mask ?e) = mask ?k" using sz by (rule page_offset)
  have bitk: "mask ?k + 1 = (2 ^ ?k :: u32)" by (simp add: mask_eq_exp_minus_1)
  have low: "(v + o1) AND mask ?k = take_bit ?k o1"
    unfolding add using vb k(2) by (intro bit_word_eqI) (auto simp: bit_simps)
  have sel: "(v + o1) AND (mask ?k + 1) = 0 \<longleftrightarrow> \<not> bit o1 ?k"
    unfolding bitk add using vb [of ?k] k by (simp add: and_exp_eq_0_iff_not_bit bit_simps)
  have hb: "unat (rg_base r) + unat (rg_size r) \<le> 0xA0000000" "0x80001000 \<le> unat (rg_base r)"
    using place by (simp_all add: rg_start_def rg_end_def)
  define p where "p = (if (v + o1) AND (mask ?k + 1) = 0 then te_entrylo0 (entry_of r) else te_entrylo1 (entry_of r))"
  define y where "y = (if bit o1 ?k then rg_base r + rg_size r div 2 else rg_base r)"
  have split: "unat o1 = (if bit o1 ?k then 2 ^ ?k else 0) + unat (take_bit ?k o1)"
  proof -
    have "take_bit (Suc ?k) (unat o1) = unat o1" using o2 by (simp add: take_bit_nat_eq_self)
    moreover have "take_bit (Suc ?k) (unat o1) = of_bool (bit (unat o1) ?k) * 2 ^ ?k + take_bit ?k (unat o1)"
      by (simp add: take_bit_Suc_from_most)
    moreover have "bit (unat o1) ?k = bit o1 ?k" using k by (simp add: bit_unsigned_iff)
    ultimately show ?thesis by (cases "bit o1 ?k") (simp_all add: unsigned_take_bit_eq)
  qed
  have y: "p = kseg0_addr_to_physical y \<and> unat y = unat (rg_base r) + (if bit o1 ?k then 2 ^ ?k else 0)"
  proof (cases "bit o1 ?k")
    case True
    then have "2 ^ ?k \<le> unat o1" using split by simp
    then have d: "snd (page_of (rg_size r))" using o1 mp by (auto split: if_splits)
    then have h: "unat (rg_size r div 2) = 2 ^ ?k" using mp by (simp add: unat_div)
    have "unat (rg_base r + rg_size r div 2) = unat (rg_base r) + 2 ^ ?k"
      using hb mp d h by (subst unat_add_small) simp_all
    then show ?thesis using True d sel by (simp add: p_def y_def entry_of_def)
  next
    case False
    then show ?thesis using sel by (simp add: p_def y_def entry_of_def)
  qed
  have y2: "y + take_bit ?k o1 = rg_base r + o1"
  proof (rule iffD2 [OF word_unat_eq_iff])
    have "unat (y + take_bit ?k o1) = (unat y + unat (take_bit ?k o1)) mod 2 ^ 32" by (simp add: unat_word_ariths)
    moreover have "unat (rg_base r + o1) = (unat (rg_base r) + unat o1) mod 2 ^ 32" by (simp add: unat_word_ariths)
    ultimately show "unat (y + take_bit ?k o1) = unat (rg_base r + o1)" using y split by (simp only: add.assoc)
  qed
  have lo: "(if (v + o1) AND (mask ?k + 1) = 0 then t_lo0 ?e else t_lo1 ?e) = push_bit 6 p OR (if p = 0 then 0 else 6) OR 16"
    unfolding p_def entry_frames by (simp add: entry_of_def)
  have "unat y < 0xA0000000" "0x80001000 \<le> unat y"
    using y hb o1 split by (simp_all split: if_splits)
  then have p0: "p \<noteq> 0" using y kseg0_nonzero by simp
  have al': "unat y mod 2 ^ ?k = 0" using y al by simp
  have "tlb_phys (v + o1) ?e = Some ((push_bit 12 (drop_bit 6 (push_bit 6 p OR 6 OR 16)) AND NOT (mask ?k)) OR ((v + o1) AND mask ?k))"
  proof -
    have "(push_bit 6 p OR 6 OR 16 :: u32) AND 2 = 6 AND 2" by (rule lo_flags)
    also have "\<dots> \<noteq> 0" by simp
    finally show ?thesis unfolding tlb_phys_def off Let_def lo if_not_P [OF p0] by (simp only: if_False)
  qed
  also have "\<dots> = Some ((y + take_bit ?k o1) AND 0x1FFFFFFF)"
    using page_frame [of ?k y 6 "v + o1"] k al' y unfolding low by (simp add: kseg0_addr_to_physical_def)
  finally show "tlb_phys (v + o1) ?e = Some ((rg_base r + o1) AND 0x1FFFFFFF)" unfolding y2 .
qed

text \<open>The bytes of its RAM and flash are where a guest expects them, in every state that the running kernel reaches.\<close>

lemma guest_reaches:
  assumes lo: "laid_out ps" and tab: "map cf_tlb (VMCONF s) = tables_of ps"
    and c: "cold s" and emp: "tlb (mach s) = Map.empty" "st_tlbindex s = 0"
    and hp: "heap_room hs sz r" "CREATE_COST * length (VMCONF s) < r"
    and run: "hyper_init hs sz ds s = Some (Running s')" and steps: "kernel_step\<^sup>*\<^sup>* (Running s') (Running s'')"
    and i: "i < length ps"
  shows "unat o1 < unat (rg_size (vp_ram (ps ! i))) \<Longrightarrow>
      guest_translate (mach s'') (of_nat (i + 1)) o1 = Some ((rg_base (vp_ram (ps ! i)) + o1) AND 0x1FFFFFFF)"
    and "unat o1 < unat (rg_size (vp_flash (ps ! i))) \<Longrightarrow>
      guest_translate (mach s'') (of_nat (i + 1)) (0x1D000000 + o1) = Some ((rg_base (vp_flash (ps ! i)) + o1) AND 0x1FFFFFFF)"
proof -
  note T = laid_out_table [OF lo tab]
  let ?p = "ps ! i"
  define gid :: u32 where "gid = of_nat (i + 1)"
  have p: "?p \<in> set ps" using i by simp
  have id: "gid \<noteq> 0"
  proof -
    have "i < 7" using few_machines [OF lo] i by simp
    then have "unat gid = i + 1" unfolding gid_def by (intro unat_of_nat_small) simp
    then show ?thesis by (metis add_is_0 one_neq_zero unsigned_0)
  qed
  let ?es = "map (guest_entry gid) (map entry_of (vp_regions ?p))"
  have lk: "tlb_lookup (mach s'') gid va = List.find (tlb_match va) ?es" for va
    using guest_translation [OF c emp T(1) hp run steps id, of va] few_machines [OF lo] i T(2)
      find_configured [of 1 "VMCONF s" i "tlb_match va"] T(3) [OF i] unfolding gid_def by (simp add: add.commute)
  have va: "rg_va (vp_ram ?p) = 0x80000000" "rg_va (vp_flash ?p) = 0x9D000000" using lo p by (auto simp: laid_out_def)
  have mem: "vp_ram ?p \<in> set (vp_regions ?p)" "vp_flash ?p \<in> set (vp_regions ?p)" by (simp_all add: vp_regions_def)
  note b = laid_out_bounds [OF lo i]
  note ta = entry_translates [OF laid_out_aligned [OF lo p mem(1)], where v = 0 and vmid = gid]
    and tf = entry_translates [OF laid_out_aligned [OF lo p mem(2)], where v = "0x1D000000" and vmid = gid]
  show "guest_translate (mach s'') (of_nat (i + 1)) o1 = Some ((rg_base (vp_ram ?p) + o1) AND 0x1FFFFFFF)"
    if o1: "unat o1 < unat (rg_size (vp_ram ?p))"
    using ta [of o1] b(1,2) o1 va(1) unfolding gid_def [symmetric] guest_translate_def lk by (simp add: vp_regions_def)
  show "guest_translate (mach s'') (of_nat (i + 1)) (0x1D000000 + o1) = Some ((rg_base (vp_flash ?p) + o1) AND 0x1FFFFFFF)"
    if o1: "unat o1 < unat (rg_size (vp_flash ?p))"
  proof -
    have n: "\<not> tlb_match (0x1D000000 + o1) (guest_entry gid (entry_of (vp_ram ?p)))"
    proof
      assume m: "tlb_match (0x1D000000 + o1) (guest_entry gid (entry_of (vp_ram ?p)))"
      have hi: "t_hi (guest_entry gid (entry_of (vp_ram ?p))) = 0"
        by (simp add: va(1) guest_entry_def tlb_of_def mk_tlbentry_def zero_tlbentry_def entry_of_def kseg0_addr_to_physical_def Let_def)
      let ?n = "page_bits (rg_size (vp_ram ?p)) + 1"
      have z: "(0x1D000000 + o1) AND NOT (mask ?n) = 0"
        using m unfolding tlb_match_def page_pair [OF laid_out_aligned(1) [OF lo p mem(1)]] hi by simp
      have n: "?n \<le> 21" using page_bits_le(2) [of "rg_size (vp_ram ?p)"] by simp
      then have "unat (0x1D000000 + o1) div 2 ^ ?n * 2 ^ ?n = 0" using unat_clear_low [of ?n "0x1D000000 + o1"] unfolding z by simp
      then have "unat (0x1D000000 + o1) < 2 ^ ?n" by (simp add: div_eq_0_iff)
      also have "(2 :: nat) ^ ?n \<le> 2 ^ 21" using n by (intro power_increasing) simp_all
      finally have "unat (0x1D000000 + o1) < 2 ^ 21" .
      moreover have "unat o1 \<le> 2 ^ 20" using o1 mem_sizes_small [OF laid_out_aligned(1) [OF lo p mem(2)]] by simp
      ultimately show False by (simp add: unat_word_ariths)
    qed
    show ?thesis
      using tf [of o1] b(3,4) o1 va(2) n unfolding gid_def [symmetric] guest_translate_def lk by (simp add: vp_regions_def)
  qed
qed

subsection \<open>A RAM that begins at an odd page\<close>

text \<open>The hypervisor's own mapping of a guest's buffer needs a RAM that begins at an even page: at an odd one, a buffer within one
  page falls into the half of the entry that is not valid.\<close>

lemma odd_base_unmapped:
  assumes base: "0x80000000 \<le> unat base" "unat base < 0xA0000000" "unat base mod 8192 = 4096"
    and page: "unat address mod 4096 + unat sz < 4096" "unat address + unat sz < 2 ^ 32" and k: "k < unat sz"
    and rf: "root_free h 15" and ce: "tlbCreateEntry address base sz 15 CACHEABLE h = (va, h')"
  shows "translate h' (va + of_nat k) = None"
proof -
  note ct = create_entry_tlb [OF _ ce, simplified]
  let ?va = "va + of_nat k" and ?o = "(address AND 0xFFF) + of_nat k"
  have k32: "unat (of_nat k :: u32) = k" using k page by (intro unat_of_nat_small) simp
  have o: "unat ?o = unat address mod 4096 + k"
    using k page by (subst unat_add_small) (simp_all only: unat_low12 k32, simp)
  have b: "unat (base - 0x80000000) = unat base - 0x80000000" using base(1) by (simp add: unat_sub word_le_nat_alt)
  have "?va = ?o + (base - 0x80000000)" unfolding ct(1) by simp
  then have u: "unat ?va = unat address mod 4096 + k + (unat base - 0x80000000)"
    using o b base(2) k page by (simp only:) (subst unat_add_small, simp_all)
  have nx: "\<not> address div 0x1000 < (address + sz) div 0x1000"
  proof -
    have s: "unat (address + sz) = unat address + unat sz" using page(2) by (intro unat_add_small) simp
    have "(unat address + unat sz) div 4096 = unat address div 4096"
      using page(1) div_add1_eq [of "unat address" "unat sz" 4096] by simp
    then show ?thesis by (simp add: word_less_nat_alt unat_div s)
  qed
  have odd: "bit ?va 12"
  proof -
    obtain q where q: "unat base = 4096 + 8192 * q" using base(3) by (metis mult_div_mod_eq add.commute)
    have "unat ?va = unat address mod 4096 + k + 4096 * (2 * (q - 262144) + 1)" using base(1) unfolding u q by simp
    then have "unat ?va div 4096 = 2 * (q - 262144) + 1" using k page(1) by simp
    then have "bit (unat ?va) 12" unfolding bit_iff_odd by simp
    then show ?thesis by (simp only: bit_unsigned_iff)
  qed
  have "tlb_phys ?va e = None" if "tlb_lookup h' 0 ?va = Some e" for e
  proof -
    have "t_gid e = 0" "e \<in> set (List.map_filter (\<lambda>i. tlb h' (of_nat i)) [0..<NUM_TLB])"
      using that by (auto simp: tlb_lookup_def find_Some_iff intro: nth_mem)
    then obtain j where j: "tlb h' j = Some e" "t_gid e = 0" by (auto simp: List.map_filter_def)
    then have "j = 15" using rf unfolding root_free_def ct(2) by (auto split: if_splits)
    then have e: "t_mask e = 0" "t_lo1 e = 16" using j ct(2) nx by auto
    have "?va AND 0x1000 \<noteq> 0" using odd and_exp_eq_0_iff_not_bit [of ?va 12] by simp
    then show ?thesis using e by (simp add: tlb_phys_def pair_mask_def Let_def)
  qed
  then have "tlb_lookup h' 0 ?va \<bind> tlb_phys ?va = None" by (cases "tlb_lookup h' 0 ?va") auto
  moreover have "\<not> in_kseg01 ?va" using u base k page by (auto simp: in_kseg01_def word_le_nat_alt)
  ultimately show ?thesis by (simp add: translate_def)
qed

text \<open>So nothing is copied from there.\<close>

lemma odd_base_copy:
  assumes "0x80000000 \<le> unat base" "unat base < 0xA0000000" "unat base mod 8192 = 4096"
    and "unat address mod 4096 + unat sz < 4096" "unat address + unat sz < 2 ^ 32" and "0 < unat sz" and "root_free (mach s) 15"
  shows "copy_from_guest address base sz sz s = None"
proof -
  obtain va h where ce: "tlbCreateEntry address base sz 15 CACHEABLE (mach s) = (va, h)" by fastforce
  have "translate h va = None" using odd_base_unmapped [OF assms(1-6,7) ce] by simp
  then have "read_bytes h va (unat sz) = None" using assms(6) by (cases "unat sz") (simp_all add: read8_def)
  then show ?thesis by (simp add: copy_from_guest_def ce Let_def)
qed

end
