(* ===== verification/GenconfTotal.thy ===== *)
theory GenconfTotal
  imports GenconfLayout
begin

text \<open>
  What the configuration generator accepts: a configuration that has a plan, names its interrupts, keeps to the names' buffer and
  to the entries of the TLB is written out as the table of the plan, whatever the file (\<open>gen_conf_vms_emits\<close>). With
  \<open>gen_conf_vms_writes\<close>, the generator succeeds for exactly the plans. Also, the numbers of the table, as C reads them
  (\<open>read_hex05\<close>).
\<close>

subsection \<open>The parts of a machine\<close>

lemma page_selected:
  assumes "sz \<in> mem_sizes"
  obtains p d where "select_page_mask sz PageSizes = Some (p, d)"
proof -
  have "select_page_mask sz PageSizes \<noteq> None"
    using assms unfolding mem_sizes_eq by (elim insertE emptyE) (simp_all add: select_page_mask_def PageSizes_def)
  then show thesis using that by auto
qed

lemma gen_size_emits [emit]:
  assumes "size_of cfg node name = Some sz" and "sz \<in> mem_sizes"
  shows "gen_size cfg node name = emits [] sz"
proof -
  have "sz \<noteq> 0" using mem_sizes_small [OF assms(2)] by auto
  then show ?thesis using assms(1) by (auto simp: gen_size_def size_of_def emit)
qed

lemma gen_map_emits:
  assumes "map_of_conf cfg node j = Some r" and "rg_size r \<in> mem_sizes"
  shows "gen_map cfg node j = emits (render_region r) ()"
proof -
  obtain p d where pd: "select_page_mask (rg_size r) PageSizes = Some (p, d)" using page_selected [OF assms(2)] .
  obtain mm where mm: "config_setting_lookup cfg node ''memory_maps'' \<bind> (\<lambda>m. config_setting_get_elem cfg m j) = Some mm"
    "config_setting_lookup_int cfg mm ''base_addr'' = Some (rg_va r)" "size_of cfg mm ''page_size'' = Some (rg_size r)"
    and r: "\<lparr>rg_size = rg_size r, rg_base = fit (rg_size r) (rg_va r), rg_va = rg_va r\<rparr> = r"
    using assms(1) by (auto simp: map_of_conf_def)
  have "gen_map cfg node j = emits (render_region r @ []) ()"
    unfolding gen_map_def mm(1,2) option.case emits_ret(2) emits_nil gen_size_emits [OF mm(3) assms(2)] process_tlb_entry_emits [OF pd] r
    by (rule emits_bind) (rule emits_ret)
  then show ?thesis by simp
qed

lemma gen_vm_tlb_emits:
  assumes s: "size_of cfg node ''RAM_size_bytes'' = Some rs" "rs \<in> mem_sizes" "size_of cfg node ''flash_size_bytes'' = Some fs" "fs \<in> mem_sizes"
    and m: "map (map_of_conf cfg node) [0..<num_maps cfg node] = map Some maps" "\<forall>r\<in>set maps. rg_size r \<in> mem_sizes"
    and place: "place = fit rs (vm_ram_inter_addr g)" and flash: "flash = fit fs (vm_flash_inter_addr g)"
  shows "gen_vm_tlb cfg node g = emits (tabs 2 @ ''tlb: (const struct tlb_entries const []){'' @ nl @ concat (map render_region
      (\<lparr>rg_size = rs, rg_base = place, rg_va = VMS_RAM_VIRTUAL_BASE_ADDRESS\<rparr> #
       \<lparr>rg_size = fs, rg_base = flash, rg_va = VMS_FLASH_VIRTUAL_BASE_ADDRESS\<rparr> # maps))) (rs, place, fs, flash)"
proof -
  obtain p d p' d' where pd: "select_page_mask rs PageSizes = Some (p, d)" "select_page_mask fs PageSizes = Some (p', d')"
    using page_selected [OF s(2)] page_selected [OF s(4)] by metis
  have "list_all2 (\<lambda>m t. m = emits t ()) (map (gen_map cfg node) [0..<num_maps cfg node]) (map render_region maps)"
  proof (rule list_all2_all_nthI)
    show len: "length (map (gen_map cfg node) [0..<num_maps cfg node]) = length (map render_region maps)"
      using arg_cong [OF m(1), of length] by simp
    fix j assume j: "j < length (map (gen_map cfg node) [0..<num_maps cfg node])"
    then have "map (map_of_conf cfg node) [0..<num_maps cfg node] ! j = map Some maps ! j" using m(1) by simp
    then have "map_of_conf cfg node j = Some (maps ! j)" using j len by simp
    then show "map (gen_map cfg node) [0..<num_maps cfg node] ! j = emits (map render_region maps ! j) ()"
      using j len m(2) gen_map_emits [of cfg node j "maps ! j"] by simp
  qed
  note e = emits_gall [OF this] process_tlb_entry_emits [OF pd(1)] process_tlb_entry_emits [OF pd(2)]
    gen_size_emits [OF s(1,2)] gen_size_emits [OF s(3,4)]
  have "gen_vm_tlb cfg node g = emits ((tabs 2 @ ''tlb: (const struct tlb_entries const []){'' @ nl) @
      render_region \<lparr>rg_size = rs, rg_base = place, rg_va = VMS_RAM_VIRTUAL_BASE_ADDRESS\<rparr> @
      render_region \<lparr>rg_size = fs, rg_base = flash, rg_va = VMS_FLASH_VIRTUAL_BASE_ADDRESS\<rparr> @ concat (map render_region maps) @ [])
    (rs, place, fs, flash)"
    unfolding gen_vm_tlb_def e emits_write emits_nil place flash by (intro emits_bind emits_ret)
  then show ?thesis by simp
qed

text \<open>The line of a machine in \<^verbatim>\<open>vms.info\<close>.\<close>

definition info_line :: "string \<Rightarrow> u32 \<Rightarrow> u32 \<Rightarrow> u32 \<Rightarrow> string" where
  "info_line name rs fs flash = name @ '' '' @ tabs 1 @ fmt_d fs @ '' '' @ tabs 1 @ fmt_d rs @ '' '' @ tabs 1 @ ''0x'' @ fmt_x flash @ nl"

lemma info_line_length: "length name \<le> 80 \<Longrightarrow> length (info_line name rs fs flash) \<le> 120"
  using fmt_lengths(1) [of flash] fmt_lengths(2) [of fs] fmt_lengths(2) [of rs] by (simp add: info_line_def)

lemma gen_vm_tail_emits:
  assumes "length name \<le> 80" and "length (vms_info g) + 120 < LARGESTR"
  shows "gen_vm_tail name (rs, place, fs, flash) g = emits (tabs 2 @ ''},'' @ nl @ tabs 2 @ ''ram_base: 0x'' @ fmt_x place @ '','' @ nl @
      tabs 2 @ ''flash_size: 0x'' @ fmt_x fs @ '','' @ nl @ tabs 2 @ ''flash_base_add: 0x'' @ fmt_x flash @ nl @ tabs 1 @ ''},'' @ nl)
    (g\<lparr>vms_info := vms_info g @ info_line name rs fs flash, vm_ram_inter_addr := place + rs, vm_flash_inter_addr := flash + fs,
       vm_number := vm_number g + 1\<rparr>)"
proof -
  let ?l = "[tabs 2 @ ''},'' @ nl, tabs 2 @ ''ram_base: 0x'' @ fmt_x place @ '','' @ nl,
       tabs 2 @ ''flash_size: 0x'' @ fmt_x fs @ '','' @ nl, tabs 2 @ ''flash_base_add: 0x'' @ fmt_x flash @ nl]"
  let ?aux = "fmt_d fs @ '' '' @ tabs 1 @ fmt_d rs @ '' '' @ tabs 1 @ ''0x'' @ fmt_x flash @ nl"
  have s: "snprintf STRSZ (tabs 2 @ ''ram_base: 0x'' @ fmt_x place @ '','' @ nl) = ?l ! 1"
    "snprintf STRSZ (tabs 2 @ ''flash_size: 0x'' @ fmt_x fs @ '','' @ nl) = ?l ! 2"
    "snprintf STRSZ (tabs 2 @ ''flash_base_add: 0x'' @ fmt_x flash @ nl) = ?l ! 3" "snprintf STRSZ ?aux = ?aux"
    using fmt_lengths(1) [of place] fmt_lengths(1) [of fs] fmt_lengths(1) [of flash] fmt_lengths(2) [of fs] fmt_lengths(2) [of rs]
    by (simp_all add: snprintf_short)
  have w: "gall (map write_to_conf_file ?l) = emits (concat ?l) ()"
    by (rule emits_gall) (simp add: emits_write)
  have i: "strings_cat STRSZ [Some name, Some ('' '' @ tabs 1), Some ?aux] = Some (info_line name rs fs flash)"
    using strings_cat_texts(1) [of name "'' '' @ tabs 1" ?aux STRSZ] info_line_length [OF assms(1), of rs fs flash]
    by (simp add: info_line_def)
  have c: "strncat_buf LARGESTR (length (info_line name rs fs flash)) (vms_info g) (info_line name rs fs flash) =
      Some (vms_info g @ info_line name rs fs flash)"
    using info_line_length [OF assms(1), of rs fs flash] assms(2) by (simp add: strncat_buf_def Let_def)
  have "gen_vm_tail name (rs, place, fs, flash) g = emits (concat ?l @ (tabs 1 @ ''},'' @ nl) @ [])
    (g\<lparr>vms_info := vms_info g @ info_line name rs fs flash, vm_ram_inter_addr := place + rs, vm_flash_inter_addr := flash + fs,
       vm_number := vm_number g + 1\<rparr>)"
    unfolding gen_vm_tail_def prod.case Let_def s(4) i Option.bind.simps c emits_ret(2) emits_nil
    unfolding s(1-3) emits_write [of "tabs 1 @ ''},'' @ nl"] using w by (simp add: emits_bind emits_ret(1))
  then show ?thesis by simp
qed

subsection \<open>The whole table\<close>

text \<open>Every interrupt of a machine has a name.\<close>

definition named :: "vm_plan \<Rightarrow> bool" where
  "named p \<longleftrightarrow> (\<forall>ds. vp_fast p = Some ds \<or> vp_redirect p = Some ds \<longrightarrow> None \<notin> set ds)"

lemma gen_vm_head_emits:
  assumes n: "config_setting_lookup_string cfg node ''app_name'' = Some name" and os: "config_setting_lookup_string cfg node ''os_type'' = Some os"
    and pr: "printable cfg" and i: "\<And>ds. elems_of cfg node ''fast_interrupts'' = Some ds \<Longrightarrow> None \<notin> set ds"
      "\<And>ds. elems_of cfg node ''interrupt_redirect'' = Some ds \<Longrightarrow> None \<notin> set ds"
    and apps: "length (app_list g) + length name + 1 < STRSZ" and tot: "total_tlb_entries g + (num_maps cfg node + 2) \<le> TOTAL_TLB_ENTRIES"
  shows "gen_vm_head cfg node g = emits (render_head cfg node name os)
    (name, g\<lparr>app_list := app_list g @ name @ '' '', total_tlb_entries := total_tlb_entries g + (num_maps cfg node + 2)\<rparr>)"
proof -
  have s: "length name \<le> 80" "length os \<le> 80" using n os pr unfolding printable_def by blast+
  have m: "length (show_base 16 (num_maps cfg node + 2)) \<le> 8" using tot by (intro fmt_nat_length(2)) simp
  have 1: "strings_cat STRSZ [Some (tabs 2 @ ''vm_name: ''), Some [CHR 0x22], Some name, Some ([CHR 0x22] @ '','' @ nl)] =
      Some (tabs 2 @ ''vm_name: '' @ [CHR 0x22] @ name @ [CHR 0x22] @ '','' @ nl)"
    using strings_cat_texts(2) [of "tabs 2 @ ''vm_name: ''" "[CHR 0x22]" name "[CHR 0x22] @ '','' @ nl" STRSZ] s(1) by simp
  have 2: "strings_cat STRSZ [Some (tabs 2 @ ''os_type: ''), Some os, Some ('','' @ nl)] = Some (tabs 2 @ ''os_type: '' @ os @ '','' @ nl)"
    using strings_cat_texts(1) [of "tabs 2 @ ''os_type: ''" os "'','' @ nl" STRSZ] s(2) by simp
  have 3: "snprintf STRSZ (tabs 2 @ ''num_tlb_entries: 0x'' @ show_base 16 (num_maps cfg node + 2) @ '','' @ nl) =
      tabs 2 @ ''num_tlb_entries: 0x'' @ show_base 16 (num_maps cfg node + 2) @ '','' @ nl"
    by (rule snprintf_short) (use m in simp)
  have 4: "strncat_buf STRSZ STRSZ (app_list g) name = Some (app_list g @ name)"
    "strncat_buf STRSZ STRSZ (app_list g @ name) '' '' = Some (app_list g @ name @ '' '')" "strncpy_buf STRSZ name = Some name"
    using apps s(1) by (simp_all add: strncat_buf_def strncpy_buf_def Let_def)
  have 5: "gall [gput (Some (tabs 2 @ ''os_type: '' @ os @ '','' @ nl)), gen_devices cfg node,
      gen_interrupts cfg node ''fast_interrupts'' ''fast_int_sz'', gen_interrupts cfg node ''interrupt_redirect'' ''interrupt_redirect_sz''] =
    emits (concat [tabs 2 @ ''os_type: '' @ os @ '','' @ nl, render_devices (elems_of cfg node ''device_mapping''),
      render_interrupts ''fast_interrupts'' ''fast_int_sz'' (elems_of cfg node ''fast_interrupts''),
      render_interrupts ''interrupt_redirect'' ''interrupt_redirect_sz'' (elems_of cfg node ''interrupt_redirect'')]) ()"
    using gen_devices_emits [OF pr, of node] gen_interrupts_emits [OF pr _ i(1), of "''fast_int_sz''"]
      gen_interrupts_emits [OF pr _ i(2), of "''interrupt_redirect_sz''"]
    by (intro emits_gall) (simp add: emits_gput)
  have t: "\<not> TOTAL_TLB_ENTRIES < total_tlb_entries g + (num_maps cfg node + 2)" using tot by simp
  let ?r = "(name, g\<lparr>app_list := app_list g @ name @ '' '', total_tlb_entries := total_tlb_entries g + (num_maps cfg node + 2)\<rparr>)"
  have "gen_vm_head cfg node g = emits ((tabs 2 @ ''vm_name: '' @ [CHR 0x22] @ name @ [CHR 0x22] @ '','' @ nl) @
     concat [tabs 2 @ ''os_type: '' @ os @ '','' @ nl, render_devices (elems_of cfg node ''device_mapping''),
      render_interrupts ''fast_interrupts'' ''fast_int_sz'' (elems_of cfg node ''fast_interrupts''),
      render_interrupts ''interrupt_redirect'' ''interrupt_redirect_sz'' (elems_of cfg node ''interrupt_redirect'')] @
     (tabs 2 @ ''num_tlb_entries: 0x'' @ show_base 16 (num_maps cfg node + 2) @ '','' @ nl) @ []) ?r"
    unfolding gen_vm_head_def n os option.case Option.bind.simps 4 emits_ret(2) emits_nil 1 2 3 emits_gput 5 [unfolded emits_gput] Let_def if_not_P [OF t]
    by (intro emits_bind emits_ret(1))
  then show ?thesis by (simp add: render_head_def)
qed

text \<open>One machine from the places that are free: the text, and the variables after it.\<close>

definition after_vm :: "vm_plan \<Rightarrow> gen_vars \<Rightarrow> gen_vars" where
  "after_vm p g = g\<lparr>vm_number := vm_number g + 1, vm_ram_inter_addr := rg_base (vp_ram p) + rg_size (vp_ram p),
     vm_flash_inter_addr := rg_base (vp_flash p) + rg_size (vp_flash p),
     total_tlb_entries := total_tlb_entries g + length (vp_regions p), app_list := app_list g @ vp_name p @ '' '',
     vms_info := vms_info g @ info_line (vp_name p) (rg_size (vp_ram p)) (rg_size (vp_flash p)) (rg_base (vp_flash p))\<rparr>"

lemma gen_vm_emits:
  assumes p: "plan_of_conf cfg node (vm_ram_inter_addr g) (vm_flash_inter_addr g) p"
    and node: "config_setting_get_elem cfg setting i = Some node" and pr: "printable cfg" and "named p"
    and sz: "rg_size ` set (vp_regions p) \<subseteq> mem_sizes" and n: "vm_number g < 2 ^ 32"
    and apps: "length (app_list g) + length (vp_name p) + 1 < STRSZ" and info: "length (vms_info g) + 120 < LARGESTR"
    and tot: "total_tlb_entries g + length (vp_regions p) \<le> TOTAL_TLB_ENTRIES"
  shows "gen_vm cfg setting i g = emits (render_vm (vm_number g) p) (after_vm p g)"
proof -
  let ?first = "tabs 1 @ ''{ /* VM#'' @ fmt_nat (vm_number g) @ '' */'' @ nl"
  have "map (map_of_conf cfg node) [0..<num_maps cfg node] = map Some (vp_maps p)" using p by (simp only: plan_of_conf_def)
  from arg_cong [OF this, of length] have len: "length (vp_maps p) = num_maps cfg node" by simp
  have name: "config_setting_lookup_string cfg node ''app_name'' = Some (vp_name p)"
    "config_setting_lookup_string cfg node ''os_type'' = Some (vp_os p)" using p by (simp_all add: plan_of_conf_def)
  then have short: "length (vp_name p) \<le> 80" using pr unfolding printable_def by blast
  let ?g1 = "g\<lparr>app_list := app_list g @ vp_name p @ '' '', total_tlb_entries := total_tlb_entries g + (num_maps cfg node + 2)\<rparr>"
  have head: "gen_vm_head cfg node g = emits (render_head cfg node (vp_name p) (vp_os p)) (vp_name p, ?g1)"
  proof (rule gen_vm_head_emits [OF name pr])
    show "None \<notin> set ds" if "elems_of cfg node ''fast_interrupts'' = Some ds" for ds
      using that p assms(4) by (simp add: plan_of_conf_def named_def)
    show "None \<notin> set ds" if "elems_of cfg node ''interrupt_redirect'' = Some ds" for ds
      using that p assms(4) by (simp add: plan_of_conf_def named_def)
  qed (use apps tot len in \<open>simp_all add: vp_regions_def\<close>)
  have sizes: "rg_size (vp_ram p) \<in> mem_sizes" "rg_size (vp_flash p) \<in> mem_sizes" "\<forall>r\<in>set (vp_maps p). rg_size r \<in> mem_sizes"
    using sz by (auto simp: vp_regions_def)
  have regions: "\<lparr>rg_size = rg_size (vp_ram p), rg_base = rg_base (vp_ram p), rg_va = VMS_RAM_VIRTUAL_BASE_ADDRESS\<rparr> = vp_ram p"
    "\<lparr>rg_size = rg_size (vp_flash p), rg_base = rg_base (vp_flash p), rg_va = VMS_FLASH_VIRTUAL_BASE_ADDRESS\<rparr> = vp_flash p"
    using p unfolding plan_of_conf_def by (metis region.select_convs(2))+
  have tlb: "gen_vm_tlb cfg node ?g1 = emits (tabs 2 @ ''tlb: (const struct tlb_entries const []){'' @ nl @ concat (map render_region (vp_regions p)))
      (rg_size (vp_ram p), rg_base (vp_ram p), rg_size (vp_flash p), rg_base (vp_flash p))"
    using gen_vm_tlb_emits [of cfg node "rg_size (vp_ram p)" "rg_size (vp_flash p)" "vp_maps p" "rg_base (vp_ram p)" ?g1 "rg_base (vp_flash p)"]
      sizes p plan_bases [OF p] unfolding regions by (simp add: plan_of_conf_def vp_regions_def)
  have tail: "gen_vm_tail (vp_name p) (rg_size (vp_ram p), rg_base (vp_ram p), rg_size (vp_flash p), rg_base (vp_flash p)) ?g1 =
    emits (tabs 2 @ ''},'' @ nl @ tabs 2 @ ''ram_base: 0x'' @ fmt_x (rg_base (vp_ram p)) @ '','' @ nl @
      tabs 2 @ ''flash_size: 0x'' @ fmt_x (rg_size (vp_flash p)) @ '','' @ nl @
      tabs 2 @ ''flash_base_add: 0x'' @ fmt_x (rg_base (vp_flash p)) @ nl @ tabs 1 @ ''},'' @ nl) (after_vm p g)"
  proof -
    have i: "length (vms_info ?g1) + 120 < LARGESTR" using info by simp
    have "?g1\<lparr>vms_info := vms_info ?g1 @ info_line (vp_name p) (rg_size (vp_ram p)) (rg_size (vp_flash p)) (rg_base (vp_flash p)),
      vm_ram_inter_addr := rg_base (vp_ram p) + rg_size (vp_ram p), vm_flash_inter_addr := rg_base (vp_flash p) + rg_size (vp_flash p),
      vm_number := vm_number ?g1 + 1\<rparr> = after_vm p g"
      by (rule gen_vars.equality) (simp_all add: after_vm_def vp_regions_def len)
    then show ?thesis unfolding gen_vm_tail_emits [OF short i] by (rule arg_cong)
  qed
  have first: "snprintf STRSZ ?first = ?first" using fmt_nat_length(1) [OF n] by (simp add: snprintf_short)
  have "gen_vm cfg setting i g = emits (?first @ render_head cfg node (vp_name p) (vp_os p) @
    (tabs 2 @ ''tlb: (const struct tlb_entries const []){'' @ nl @ concat (map render_region (vp_regions p))) @
    (tabs 2 @ ''},'' @ nl @ tabs 2 @ ''ram_base: 0x'' @ fmt_x (rg_base (vp_ram p)) @ '','' @ nl @
      tabs 2 @ ''flash_size: 0x'' @ fmt_x (rg_size (vp_flash p)) @ '','' @ nl @
      tabs 2 @ ''flash_base_add: 0x'' @ fmt_x (rg_base (vp_flash p)) @ nl @ tabs 1 @ ''},'' @ nl)) (after_vm p g)"
    unfolding gen_vm_def first node emits_ret(2) emits_nil emits_write head
    by (intro emits_bind) (simp only: prod.case tlb, rule emits_bind, rule tail)
  moreover have "vp_devices p = elems_of cfg node ''device_mapping''" "vp_fast p = elems_of cfg node ''fast_interrupts''"
    "vp_redirect p = elems_of cfg node ''interrupt_redirect''" using p by (simp_all add: plan_of_conf_def)
  ultimately show ?thesis by (simp add: render_vm_def render_head_def vp_regions_def len)
qed

definition vm_info :: "vm_plan \<Rightarrow> string" where
  "vm_info p = info_line (vp_name p) (rg_size (vp_ram p)) (rg_size (vp_flash p)) (rg_base (vp_flash p))"

definition name_list :: "vm_plan list \<Rightarrow> string" where
  "name_list ps = concat (map (\<lambda>p. vp_name p @ '' '') ps)"

lemma gen_vms_emits:
  "plans_of_conf cfg (map (config_setting_get_elem cfg setting) is) (vm_ram_inter_addr g) (vm_flash_inter_addr g) ps \<Longrightarrow>
   printable cfg \<Longrightarrow> \<forall>p\<in>set ps. named p \<and> rg_size ` set (vp_regions p) \<subseteq> mem_sizes \<Longrightarrow>
   vm_number g + length ps \<le> 2 ^ 32 \<Longrightarrow> length (app_list g) + length (name_list ps) < STRSZ \<Longrightarrow>
   length (vms_info g) + 120 * length ps < LARGESTR \<Longrightarrow>
   total_tlb_entries g + sum_list (map (length \<circ> vp_regions) ps) \<le> TOTAL_TLB_ENTRIES \<Longrightarrow>
   \<exists>g'. gen_vms cfg setting is g = emits (render_vms (vm_number g) ps) g' \<and> app_list g' = app_list g @ name_list ps \<and>
     vms_info g' = vms_info g @ concat (map vm_info ps)"
proof (induction "is" arbitrary: g ps)
  case Nil
  then show ?case by (intro exI [of _ g]) (simp add: emits_ret name_list_def)
next
  case (Cons i "is")
  obtain node p ps' where ps: "ps = p # ps'" and node: "config_setting_get_elem cfg setting i = Some node"
    and p: "plan_of_conf cfg node (vm_ram_inter_addr g) (vm_flash_inter_addr g) p"
    and r: "plans_of_conf cfg (map (config_setting_get_elem cfg setting) is) (rg_base (vp_ram p) + rg_size (vp_ram p))
      (rg_base (vp_flash p) + rg_size (vp_flash p)) ps'"
    using Cons.prems(1) by (cases "config_setting_get_elem cfg setting i"; cases ps) auto
  have v: "gen_vm cfg setting i g = emits (render_vm (vm_number g) p) (after_vm p g)"
    by (rule gen_vm_emits [OF p node Cons.prems(2)]) (use Cons.prems(3-) in \<open>simp_all add: ps name_list_def\<close>)
  have name: "config_setting_lookup_string cfg node ''app_name'' = Some (vp_name p)" using p by (simp add: plan_of_conf_def)
  then have "length (vp_name p) \<le> 80" using Cons.prems(2) unfolding printable_def by blast
  then have "length (vm_info p) \<le> 120" by (simp add: vm_info_def info_line_length)
  then have "\<exists>g'. gen_vms cfg setting is (after_vm p g) = emits (render_vms (vm_number (after_vm p g)) ps') g' \<and>
      app_list g' = app_list (after_vm p g) @ name_list ps' \<and> vms_info g' = vms_info (after_vm p g) @ concat (map vm_info ps')"
    by (intro Cons.IH Cons.prems(2)) (use Cons.prems(3-) r in \<open>simp_all add: ps after_vm_def name_list_def vm_info_def\<close>)
  then obtain g' where g': "gen_vms cfg setting is (after_vm p g) = emits (render_vms (vm_number g + 1) ps') g'"
    "app_list g' = app_list g @ vp_name p @ '' '' @ name_list ps'" "vms_info g' = vms_info g @ vm_info p @ concat (map vm_info ps')"
    by (auto simp: after_vm_def vm_info_def)
  show ?case using g'(2,3) unfolding gen_vms.simps v emits_bind [where k = "gen_vms cfg setting is", OF g'(1)]
    by (intro exI [of _ g']) (simp add: ps name_list_def)
qed

lemma gen_conf_vms_emits:
  assumes c: "config_lookup cfg ''virtual_machines'' = Some setting"
    and ps: "plans_of_conf cfg (map (config_setting_get_elem cfg setting) [0..<config_setting_length cfg setting])
      VMS_RAM_INTERMEDIATE_BASE_ADDRESS VMS_FLASH_INTERMEDIATE_BASE_ADDRESS ps"
    and pr: "printable cfg" and ok: "\<forall>p\<in>set ps. named p \<and> rg_size ` set (vp_regions p) \<subseteq> mem_sizes"
    and names: "length (name_list ps) < STRSZ" and tot: "sum_list (map (length \<circ> vp_regions) ps) \<le> TOTAL_TLB_ENTRIES"
  shows "\<exists>info. gen_conf_vms cfg = emits (render_table ps) (name_list ps, length ps, info)"
proof -
  have len: "config_setting_length cfg setting = length ps"
  proof -
    have "plans_of_conf cfg ns a b ps \<Longrightarrow> length ps = length ns" for ns a b
      by (induction cfg ns a b ps rule: plans_of_conf.induct) auto
    from this [OF ps] show ?thesis by simp
  qed
  have "2 * length ps \<le> sum_list (map (length \<circ> vp_regions) ps)" by (induction ps) (simp_all add: vp_regions_def)
  then have few: "length ps \<le> 7" using tot by simp
  let ?g = "\<lparr>vm_number = 1, vm_ram_inter_addr = VMS_RAM_INTERMEDIATE_BASE_ADDRESS,
              vm_flash_inter_addr = VMS_FLASH_INTERMEDIATE_BASE_ADDRESS, total_tlb_entries = 0, app_list = [],
              vms_info = ''VM name '' @ tabs 1 @ ''flash_size '' @ tabs 1 @ ''ram_size '' @ tabs 1 @ '' address_start'' @ nl\<rparr>"
  obtain g where g: "gen_vms cfg setting [0..<config_setting_length cfg setting] ?g = emits (render_vms 1 ps) g"
    "app_list g = name_list ps"
    using gen_vms_emits [of cfg setting "[0..<config_setting_length cfg setting]" ?g ps] ps pr ok names tot few by auto
  have "gen_conf_vms cfg = emits ((''/* VMs mapping */'' @ nl) @ (''static const struct vmconf_t const VMCONF[] = {'' @ nl) @
      render_vms 1 ps @ (''};'' @ nl) @ []) (name_list ps, length ps, vms_info g)"
    unfolding gen_conf_vms_def c option.case Let_def g(1) emits_write len [symmetric] g(2) [symmetric]
    by (intro emits_bind emits_ret)
  then show ?thesis by (intro exI [of _ "vms_info g"]) (simp add: render_table_def)
qed

subsection \<open>The numbers of the table, as C reads them\<close>

definition hex_value :: "char \<Rightarrow> nat" where
  "hex_value c = (let n = of_char c in if n < 58 then n - 48 else n - 87)"

definition read_hex :: "string \<Rightarrow> nat" where
  "read_hex digits = foldl (\<lambda>n c. 16 * n + hex_value c) 0 digits"

lemma hex_value_digit: "d < 16 \<Longrightarrow> hex_value (digit_chr d) = d"
  by (simp add: hex_value_def digit_chr_def Let_def)

lemma read_hex_show: "read_hex (show_base 16 n) = n"
proof (induction n rule: less_induct)
  case (less n)
  show ?case
  proof (cases "n < 16")
    case True
    then show ?thesis by (subst show_base.simps) (simp add: read_hex_def hex_value_digit)
  next
    case False
    then have "read_hex (show_base 16 (n div 16)) = n div 16" by (intro less) simp
    then show ?thesis using False by (subst show_base.simps) (simp add: read_hex_def hex_value_digit)
  qed
qed

lemma read_hex05: "read_hex (fmt_05x w) = unat w"
proof -
  have "foldl (\<lambda>n c. 16 * n + hex_value c) 0 (replicate k (CHR ''0'')) = 0" for k
    by (induction k) (simp_all add: hex_value_def)
  then show ?thesis using read_hex_show [of "unat w"] by (simp add: fmt_05x_def fmt_x_def read_hex_def)
qed

end
