(* ===== verification/ConfigProps.thy ===== *)
theory ConfigProps
  imports Isolation GenconfTotal Examples
begin

text \<open>
  The properties of the configuration generator (C35 to C38), and of the guests' memory from the configuration to the running
  kernel (C11, C12), with a configuration of two machines at which they are exercised.
\<close>

subsection \<open>A configuration\<close>

text \<open>Two machines, \<^verbatim>\<open>ping\<close> with a fast interrupt and the registers of a serial port, and \<^verbatim>\<open>pong\<close>.\<close>

definition ex_setting :: "nat \<Rightarrow> string \<Rightarrow> nat option" where
  "ex_setting n k = (if n = 1 \<and> k = ''memory_maps'' then Some 3 else if n = 1 \<and> k = ''fast_interrupts'' then Some 5 else None)"

definition ex_strings :: "nat \<Rightarrow> string \<Rightarrow> string option" where
  "ex_strings n k =
     (if n = 1 \<or> n = 2 then map_of [(''app_name'', if n = 1 then ''ping'' else ''pong''), (''os_type'', ''BARE_METAL''),
        (''RAM_size_bytes'', ''MEM_SIZE_32KB''), (''flash_size_bytes'', ''MEM_SIZE_64KB'')] k
      else if n = 4 \<and> k = ''page_size'' then Some ''MEM_SIZE_4KB'' else None)"

definition ex_cfg :: "nat libconfig" where
  "ex_cfg = \<lparr>config_lookup = \<lambda>k. if k = ''virtual_machines'' then Some 0 else None, config_lookup_int = \<lambda>_. None,
     config_setting_length = \<lambda>n. if n = 0 then 2 else 1,
     config_setting_get_elem = \<lambda>n i. if n = 0 then Some (i + 1) else if n = 3 then Some 4 else None,
     config_setting_get_string_elem = \<lambda>n i. if n = 5 then Some ''IRQ_U3RX'' else None,
     config_setting_lookup = ex_setting, config_setting_lookup_string = ex_strings,
     config_setting_lookup_int = \<lambda>n k. if n = 4 \<and> k = ''base_addr'' then Some 0x1F820000 else None\<rparr>"

definition ex_plans :: "vm_plan list" where
  "ex_plans =
     [\<lparr>vp_name = ''ping'', vp_os = ''BARE_METAL'', vp_devices = None, vp_fast = Some [Some ''IRQ_U3RX''], vp_redirect = None,
       vp_ram = \<lparr>rg_size = 32768, rg_base = 0x80008000, rg_va = 0x80000000\<rparr>,
       vp_flash = \<lparr>rg_size = 65536, rg_base = 0x9D010000, rg_va = 0x9D000000\<rparr>,
       vp_maps = [\<lparr>rg_size = 4096, rg_base = 0x1F820000, rg_va = 0x1F820000\<rparr>]\<rparr>,
      \<lparr>vp_name = ''pong'', vp_os = ''BARE_METAL'', vp_devices = None, vp_fast = None, vp_redirect = None,
       vp_ram = \<lparr>rg_size = 32768, rg_base = 0x80010000, rg_va = 0x80000000\<rparr>,
       vp_flash = \<lparr>rg_size = 65536, rg_base = 0x9D020000, rg_va = 0x9D000000\<rparr>, vp_maps = []\<rparr>]"

lemma ex_printable: "printable ex_cfg"
  by (auto simp: printable_def ex_cfg_def ex_strings_def ex_setting_def split: if_splits)

lemma ex_fits:
  "fit 32768 0x80008000 = 0x80008000" "fit 32768 0x80010000 = 0x80010000" "fit 65536 0x9D010000 = 0x9D010000"
  "fit 65536 0x9D020000 = 0x9D020000" "fit 4096 0x1F820000 = 0x1F820000"
  by (simp_all add: fit_def page_table calculate_mem_base_def PageSizes_def)

lemma ex_planned:
  "plans_of_conf ex_cfg (map (config_setting_get_elem ex_cfg 0) [0..<config_setting_length ex_cfg 0]) 0x80008000 0x9D010000 ex_plans"
proof -
  have 1: "plan_of_conf ex_cfg 1 0x80008000 0x9D010000 (ex_plans ! 0)"
    by (simp add: plan_of_conf_def ex_plans_def ex_cfg_def ex_strings_def ex_setting_def elems_of_def size_of_def MemSizes_def
      num_maps_def map_of_conf_def ex_fits)
  have 2: "plan_of_conf ex_cfg 2 0x80010000 0x9D020000 (ex_plans ! 1)"
    by (simp add: plan_of_conf_def ex_plans_def ex_cfg_def ex_strings_def ex_setting_def elems_of_def size_of_def MemSizes_def
      num_maps_def map_of_conf_def ex_fits)
  have "map (config_setting_get_elem ex_cfg 0) [0..<config_setting_length ex_cfg 0] = [Some 1, Some 2]"
    by (simp add: ex_cfg_def upt_rec)
  moreover have "ex_plans = [ex_plans ! 0, ex_plans ! 1]" by (simp add: ex_plans_def)
  moreover have "rg_base (vp_ram (ex_plans ! 0)) + rg_size (vp_ram (ex_plans ! 0)) = 0x80010000"
    "rg_base (vp_flash (ex_plans ! 0)) + rg_size (vp_flash (ex_plans ! 0)) = 0x9D020000" by (simp_all add: ex_plans_def)
  ultimately show ?thesis using 1 2 by (metis plans_of_conf.simps(1,4))
qed

lemma ex_sizes: "\<forall>p\<in>set ex_plans. rg_size ` set (vp_regions p) \<subseteq> mem_sizes"
  by (simp add: ex_plans_def vp_regions_def mem_sizes_eq)

lemma ex_laid_out: "laid_out ex_plans"
  using ex_sizes by (simp add: laid_out_def) (simp add: ex_plans_def vp_regions_def ex_fits)

definition ex_file :: FILE where
  "ex_file = \<lparr>ftext = [], froom = length (render_table ex_plans)\<rparr>"

text \<open>The first machine of the plan alone, on the machine that has its image in flash.\<close>

definition ex_laid :: kst where
  "ex_laid = ex_cold\<lparr>VMCONF := [ex_conf\<lparr>cf_tlb := map entry_of (vp_regions (ex_plans ! 0))\<rparr>]\<rparr>"

lemma ex_laid_one: "laid_out [ex_plans ! 0]" "map cf_tlb (VMCONF ex_laid) = tables_of [ex_plans ! 0]"
  using ex_sizes by (simp_all add: laid_out_def ex_laid_def tables_of_def) (simp add: ex_plans_def vp_regions_def ex_fits)

lemma ex_laid_cold: "cold ex_laid" "tlb (mach ex_laid) = Map.empty" "st_tlbindex ex_laid = 0" "CREATE_COST * length (VMCONF ex_laid) < 1000"
  using ex_is_cold by (simp_all add: ex_laid_def cold_def ex_cold_def ex_hw_def ex_plans_def vp_regions_def CREATE_COST_def live_def)

lemma ex_laid_booted: "\<exists>s. hyper_init 0x80002000 0x10000 [] ex_laid = Some (Running s)"
proof -
  have m: "mach ex_laid = mach ex_cold" by (simp add: ex_laid_def)
  obtain h where h: "LowLevelProcInit (early_platform_init (mach ex_laid)) = (0, h)" using ex_LowLevel m by auto
  have "image_authentic ex_cold ex_conf" using ex_authentic by (simp add: ex_cold_def)
  then have "\<forall>c\<in>set (VMCONF ex_laid). image_authentic ex_laid c"
    by (simp add: ex_laid_def image_authentic_def image_key_def image_sig_def image_hash_def)
  from boot_kinv [OF ex_laid_cold(1) ex_heap_room ex_laid_cold(4) h this, where ds = "[]"]
  show ?thesis by auto
qed

subsection \<open>The generator\<close>

text \<open>C35: A run of the generator that succeeds has written exactly the table of a plan: one machine for every element of the
  configuration, in order, with the names, devices and interrupts of the configuration and regions of the sizes it asks for, those of RAM
  and of flash one after the other, each at the next place that is aligned to its page; at most seven machines.\<close>

theorem generator_writes_plan:
  assumes "printable cfg" and "gen_conf_vms cfg f = Some (Inr (apps, n, info), f')"
  shows "\<exists>setting ps. config_lookup cfg ''virtual_machines'' = Some setting \<and>
    plans_of_conf cfg (map (config_setting_get_elem cfg setting) [0..<config_setting_length cfg setting]) 0x80008000 0x9D010000 ps \<and>
    (\<forall>p\<in>set ps. rg_size ` set (vp_regions p) \<subseteq> mem_sizes) \<and> n = length ps \<and> n \<le> 7 \<and>
    ftext f' = ftext f @ render_table ps"
proof -
  obtain setting ps where "config_lookup cfg ''virtual_machines'' = Some setting"
    "plans_of_conf cfg (map (config_setting_get_elem cfg setting) [0..<config_setting_length cfg setting]) 0x80008000 0x9D010000 ps"
    "laid_out ps" "n = length ps" "f' = wrote (render_table ps) f" using generator_lays_out [OF assms(2,1)] by blast
  moreover from this(3) have "\<forall>p\<in>set ps. rg_size ` set (vp_regions p) \<subseteq> mem_sizes" "length ps \<le> 7"
    using few_machines by (simp_all add: laid_out_def)
  ultimately show ?thesis by auto
qed

lemma ex_generated: "\<exists>info. gen_conf_vms ex_cfg ex_file = Some (Inr (''ping pong '', 2, info), wrote (render_table ex_plans) ex_file)"
proof -
  have "config_lookup ex_cfg ''virtual_machines'' = Some 0" by (simp add: ex_cfg_def)
  moreover have "\<forall>p\<in>set ex_plans. named p" by (auto simp: ex_plans_def named_def)
  moreover have n: "name_list ex_plans = ''ping pong ''" "length ex_plans = 2" by (simp_all add: name_list_def ex_plans_def)
  moreover have "sum_list (map (length \<circ> vp_regions) ex_plans) \<le> 15" by (simp add: ex_plans_def vp_regions_def)
  ultimately obtain info where "gen_conf_vms ex_cfg = emits (render_table ex_plans) (name_list ex_plans, length ex_plans, info)"
    using gen_conf_vms_emits [OF _ ex_planned ex_printable] ex_sizes by auto
  then show ?thesis by (simp add: n emits_def ex_file_def)
qed

theorem generator_writes_plan_witness:
  "\<exists>ps info f'. gen_conf_vms ex_cfg ex_file = Some (Inr (''ping pong '', 2, info), f') \<and> length ps = 2 \<and> ftext f' = render_table ps"
proof -
  obtain info where g: "gen_conf_vms ex_cfg ex_file = Some (Inr (''ping pong '', 2, info), wrote (render_table ex_plans) ex_file)"
    using ex_generated by blast
  then obtain ps where "2 = length ps" "ftext (wrote (render_table ex_plans) ex_file) = ftext ex_file @ render_table ps"
    using generator_writes_plan [OF ex_printable g] by blast
  then show ?thesis using g by (auto simp: ex_file_def)
qed

text \<open>C36: The generator accepts every configuration that has a plan, if the plan keeps to the 15 entries of the TLB, every interrupt
  has a name, and the names of the machines fit their buffer: it then writes the table of the plan, or fails because the file is
  full after as much of it as there was room for.\<close>

theorem generator_accepts_plans:
  assumes "printable cfg" and "config_lookup cfg ''virtual_machines'' = Some setting"
    and "plans_of_conf cfg (map (config_setting_get_elem cfg setting) [0..<config_setting_length cfg setting]) 0x80008000 0x9D010000 ps"
    and "\<forall>p\<in>set ps. named p \<and> rg_size ` set (vp_regions p) \<subseteq> mem_sizes"
    and "length (name_list ps) < 128" and "sum_list (map (length \<circ> vp_regions) ps) \<le> 15"
  shows "\<exists>info. gen_conf_vms cfg f =
    (if length (render_table ps) \<le> froom f then Some (Inr (name_list ps, length ps, info), wrote (render_table ps) f)
     else Some (Inl EXIT_FAILURE, wrote (take (froom f) (render_table ps)) f))"
  using gen_conf_vms_emits [OF assms(2,3,1,4-6)] by (auto simp: emits_def)

theorem generator_accepts_plans_witness:
  "\<exists>info. gen_conf_vms ex_cfg ex_file = Some (Inr (''ping pong '', 2, info), ex_file\<lparr>ftext := render_table ex_plans, froom := 0\<rparr>)"
proof -
  have c: "config_lookup ex_cfg ''virtual_machines'' = Some 0" by (simp add: ex_cfg_def)
  have p: "\<forall>p\<in>set ex_plans. named p \<and> rg_size ` set (vp_regions p) \<subseteq> mem_sizes"
    using ex_sizes by (auto simp: ex_plans_def named_def)
  have n: "name_list ex_plans = ''ping pong ''" "length ex_plans = 2" by (simp_all add: name_list_def ex_plans_def)
  have t: "sum_list (map (length \<circ> vp_regions) ex_plans) \<le> 15" by (simp add: ex_plans_def vp_regions_def)
  show ?thesis using generator_accepts_plans [OF ex_printable c ex_planned p _ t, of ex_file] by (simp add: n ex_file_def wrote_def)
qed

text \<open>C37: In the table that the generator writes, the RAM and the flash of different machines are disjoint in physical memory, and above
  the hypervisor's own 32 KB of RAM.\<close>

theorem machines_disjoint:
  assumes "printable cfg" and "gen_conf_vms cfg f = Some (Inr (apps, n, info), f')"
  shows "\<exists>ps. ftext f' = ftext f @ render_table ps \<and> n = length ps \<and>
    (\<forall>i<length ps. \<forall>j<length ps. i \<noteq> j \<longrightarrow> own_memory (ps ! i) \<inter> own_memory (ps ! j) = {}) \<and>
    (\<forall>i<length ps. \<forall>pa\<in>own_memory (ps ! i). 0x8000 \<le> unat pa)"
proof -
  obtain ps where ps: "laid_out ps" "n = length ps" "f' = wrote (render_table ps) f" using generator_lays_out [OF assms(2,1)] by blast
  show ?thesis
    by (rule exI [of _ ps]) (use ps regions_disjoint above_hypervisor in \<open>simp\<close>)
qed

theorem machines_disjoint_witness:
  "\<exists>info ps f'. gen_conf_vms ex_cfg ex_file = Some (Inr (''ping pong '', 2, info), f') \<and> ftext f' = render_table ps \<and>
     own_memory (ps ! 0) \<inter> own_memory (ps ! 1) = {}"
proof -
  obtain info where g: "gen_conf_vms ex_cfg ex_file = Some (Inr (''ping pong '', 2, info), wrote (render_table ex_plans) ex_file)"
    using ex_generated by blast
  from machines_disjoint [OF ex_printable g] obtain ps where "ftext (wrote (render_table ex_plans) ex_file) = ftext ex_file @ render_table ps"
    "2 = length ps" "\<forall>i<length ps. \<forall>j<length ps. i \<noteq> j \<longrightarrow> own_memory (ps ! i) \<inter> own_memory (ps ! j) = {}" by blast
  then show ?thesis using g by (intro exI [of _ info] exI [of _ ps] exI [of _ "wrote (render_table ex_plans) ex_file"]) (simp add: ex_file_def)
qed

subsection \<open>Memory of the guests\<close>

text \<open>C11: Memory isolation: from the boot of a cold machine with a generated table on, in every state the running kernel reaches,
  whatever the guests and devices do, an address of a guest is translated into the regions of the guest's own machine only (its RAM, its
  flash and the mappings the configuration gives it), and an id that no machine has translates nothing.\<close>

theorem guest_memory_isolated:
  assumes "laid_out ps" and "map cf_tlb (VMCONF s) = tables_of ps" and "cold s" and "tlb (mach s) = Map.empty" and "st_tlbindex s = 0"
    and "heap_room heap_start heap_size r" and "CREATE_COST * length (VMCONF s) < r"
    and "hyper_init heap_start heap_size drivers s = Some (Running s')" and "kernel_step\<^sup>*\<^sup>* (Running s') (Running s'')" and "gid \<noteq> 0"
  shows "reachable_memory (mach s'') gid \<subseteq> (if unat gid \<le> length ps then machine_memory (ps ! (unat gid - 1)) else {})"
proof
  fix pa assume "pa \<in> reachable_memory (mach s'') gid"
  then obtain i where i: "i < length ps" "gid = of_nat (i + 1)" "pa \<in> machine_memory (ps ! i)"
    using guest_confined [OF assms] by blast
  have "unat gid = i + 1" unfolding i(2) using few_machines [OF assms(1)] i(1) by (intro unat_of_nat_small) simp
  then show "pa \<in> (if unat gid \<le> length ps then machine_memory (ps ! (unat gid - 1)) else {})" using i by simp
qed

theorem guest_memory_isolated_witness:
  "\<exists>s'. hyper_init 0x80002000 0x10000 [] ex_laid = Some (Running s') \<and> reachable_memory (mach s') 1 \<subseteq> machine_memory (ex_plans ! 0) \<and>
     reachable_memory (mach s') 2 = {}"
proof -
  obtain s' where s': "hyper_init 0x80002000 0x10000 [] ex_laid = Some (Running s')" using ex_laid_booted by blast
  note g = guest_memory_isolated [OF ex_laid_one ex_laid_cold(1-3) ex_heap_room ex_laid_cold(4) s' rtranclp.rtrancl_refl]
  show ?thesis using s' g [of 1] g [of 2] by auto
qed

text \<open>C12: And a guest has its memory: in every such state, the bytes of its RAM are at the guest's physical addresses from 0 on, those of
  its flash from \<open>0x1D000000\<close> on, in the places that the table gives them.\<close>

theorem guest_memory_present:
  assumes "laid_out ps" and "map cf_tlb (VMCONF s) = tables_of ps" and "cold s" and "tlb (mach s) = Map.empty" and "st_tlbindex s = 0"
    and "heap_room heap_start heap_size r" and "CREATE_COST * length (VMCONF s) < r"
    and "hyper_init heap_start heap_size drivers s = Some (Running s')" and "kernel_step\<^sup>*\<^sup>* (Running s') (Running s'')"
    and "i < length ps" and "unat o1 < unat (rg_size (vp_ram (ps ! i)))" and "unat o2 < unat (rg_size (vp_flash (ps ! i)))"
  shows "guest_translate (mach s'') (of_nat (i + 1)) o1 = Some ((rg_base (vp_ram (ps ! i)) + o1) AND 0x1FFFFFFF) \<and>
    guest_translate (mach s'') (of_nat (i + 1)) (0x1D000000 + o2) = Some ((rg_base (vp_flash (ps ! i)) + o2) AND 0x1FFFFFFF)"
  using guest_reaches(1) [OF assms(1-10,11)] guest_reaches(2) [OF assms(1-10,12)] by blast

theorem guest_memory_present_witness:
  "\<exists>s'. hyper_init 0x80002000 0x10000 [] ex_laid = Some (Running s') \<and> guest_translate (mach s') 1 0x123 = Some 0x8123 \<and>
     guest_translate (mach s') 1 0x1D00FFFF = Some 0x1D01FFFF"
proof -
  obtain s' where s': "hyper_init 0x80002000 0x10000 [] ex_laid = Some (Running s')" using ex_laid_booted by blast
  from guest_memory_present [OF ex_laid_one ex_laid_cold(1-3) ex_heap_room ex_laid_cold(4) s' rtranclp.rtrancl_refl, of 0 "0x123" "0xFFFF"]
  show ?thesis using s' by (simp add: ex_plans_def)
qed





end
