(* ===== verification/Spec2Isabelle.thy ===== *)
theory Spec2Isabelle
  imports DriverProps LibProps GuestProps CryptoProps ConfigProps
begin

text \<open>
  A verification development of the hypervisor of \<^verbatim>\<open>src/Hypervisor\<close> (prplHypervisor with verified boot, for the PIC32MZ, a
  MIPS32 processor with hardware virtualisation) and of the run-time library of its bare-metal guests.

  \<^bold>\<open>The program.\<close> At reset, \<open>hyper_init\<close> (\<^verbatim>\<open>arch/mips/common/hal.c\<close>) sets up the board and the processor, builds the heap,
  checks the signature of every configured image (\<^verbatim>\<open>cryptography\<close>), creates one virtual machine with one VCPU per
  configuration (\<^verbatim>\<open>sys/kernel/vm.c\<close>), runs the initialisers of the linked drivers and waits for the timer. From then on the
  hypervisor only reacts: the timer interrupt (\<^verbatim>\<open>arch/mips/pic32mz/timer.c\<close>) saves the context of the VCPU that ran, lets the
  scheduler choose one and restores its context; device interrupts are redirected to the guest that asked for them; a guest exit
  ends in \<open>hypercall_execution\<close>, which calls the driver's function for the code. A guest is one register bank, one guest
  id in the TLB, a window of RAM and a queue of messages.

  \<^bold>\<open>The state.\<close> A global variable of the hypervisor is a field of the record \<open>kst\<close> (\<open>KState\<close>), the machine (coprocessor
  registers, special function registers, register banks, TLB, RAM) the record \<open>hw\<close> (\<open>Machine\<close>); objects on the heap are finite maps from
  addresses. A C function is a function from the state to \<open>option\<close> of the new state: \<open>None\<close> is undefined behaviour (a null or
  dangling pointer, an index out of range, a read of an address that nothing maps) or a loop that never ends, and the error
  codes of the source are ordinary values. \<open>CRITICAL\<close> is the outcome \<open>Halted\<close>. Integers are words of their width; \<open>int\<close> is the same word with
  the signed comparisons.

  \<^bold>\<open>Theories.\<close>
  \<^item> \<open>Prelude\<close>, \<open>CMem\<close>: types, words, lists; the byte-addressed memory and C strings.
  \<^item> \<open>HypLibc\<close>, \<open>KrHeap\<close>, \<open>Lists\<close>: \<^verbatim>\<open>sys/lib\<close> (\<^verbatim>\<open>libc.c\<close>, the K and R allocator of \<^verbatim>\<open>malloc.c\<close>, \<^verbatim>\<open>linkedlist.c\<close>).
  \<^item> \<open>Machine\<close>, \<open>Hal\<close>, \<open>Tlb\<close>, \<open>Vcpu\<close>: \<^verbatim>\<open>arch/mips/common\<close>: registers and address translation; \<^verbatim>\<open>hal.c\<close>; TLB entries and the
    temporary mapping of guest buffers (\<^verbatim>\<open>tlb.c\<close>); saving and restoring a guest's context (\<^verbatim>\<open>vcpu.c\<close>).
  \<^item> \<open>KState\<close>, \<open>Vm\<close>, \<open>Scheduler\<close>, \<open>Registry\<close>, \<open>Timer\<close>, \<open>Kernel\<close>: \<^verbatim>\<open>sys/kernel\<close> and \<^verbatim>\<open>arch/mips/pic32mz\<close>: the global state, creation of
    machines, scheduling, the tables of hypercalls and interrupt handlers, the tick, dispatch and start-up.
  \<^item> \<open>MsgQueue\<close>, \<open>InterVm\<close>, \<open>VirtualIo\<close>, \<open>IntRedirect\<close>, \<open>PufFlash\<close>, \<open>Usb\<close>, \<open>Eth\<close>: \<^verbatim>\<open>drivers\<close>; \<open>Board\<close>: the starter kit.
  \<^item> \<open>Sha256\<close>, \<open>Security\<close>: \<^verbatim>\<open>cryptography\<close>: the hash against its specification; verified boot and the key checks of updates.
  \<^item> \<open>Vli\<close>, \<open>VliMod\<close>, \<open>Secp256k1\<close>, \<open>EccPoint\<close>, \<open>EccBytes\<close>, \<open>Ecdsa\<close>, \<open>EcdsaSpec\<close>, \<open>EccSign\<close>, \<open>EccHmac\<close>: \<^verbatim>\<open>cryptography/uECC.c\<close> for the
    curve secp256k1: numbers as lists of 32-bit words (\<open>vli_val\<close> is the value); long multiplication, reduction and inversion; the
    curve and the fast reduction, against the residues \<open>fp\<close>; points, the ladder, public keys; bytes; signing and verification; the
    equation that verification decides; what signing returns; HMAC and deterministic nonces.
  \<^item> \<open>GuestLibc\<close>, \<open>GuestDecimal\<close>, \<open>GuestArith\<close>, \<open>GuestHeap\<close>, \<open>GuestNet\<close>: \<^verbatim>\<open>bare-metal-apps\<close>: the guests' C library and compiler
    run-time, allocator, interrupts and message ring; \<open>GuestMail\<close> puts the guest's ring on top of the hypervisor's queue.
  \<^item> \<open>KInv\<close>, \<open>KSteps\<close>, \<open>KernelInv\<close>, \<open>Boot\<close>, \<open>HcallTable\<close>, \<open>Ipc\<close>: the invariant of the kernel's data, what each operation keeps of it, the
    step relation of the running kernel, start-up, the hypercall table, message passing in a running kernel.
  \<^item> \<open>DigestVector\<close>, \<open>SignedImage\<close>: an image with a key and a signature that the checks accept, by evaluation with certificates;
    \<open>Examples\<close>: concrete states for the witnesses, with that image in flash.
  \<^item> \<open>Genconf\<close>: \<^verbatim>\<open>platform/cfg_reader/genconf.c\<close>, the generator of the configuration: the text of \<^verbatim>\<open>config.h\<close>. \<open>GenconfSpec\<close>,
    \<open>GenconfLayout\<close>, \<open>GenconfTotal\<close>: the plan of a configuration, the table that a plan is written as, where its machines lie, what is
    accepted. \<open>Isolation\<close> takes the table through start-up and the running kernel to the memory a guest reaches.
  \<^item> \<open>CryptoProps\<close>, \<open>DriverProps\<close>, \<open>LibProps\<close>, \<open>GuestProps\<close>, \<open>ConfigProps\<close> and this theory: the properties C1 to C40.

  \<^bold>\<open>What is shown.\<close> Verified boot runs only images that \<open>uECC_verify\<close> accepts for their SHA-256 digest, and halts otherwise
  (C1, C2, C32). What \<open>uECC_verify\<close> decides is the equation of ECDSA, over chords and tangents of the curve; it always answers, and the checks
  of keys and ranges are exact (C3, C8 to C10), outside a window of products in which the fast reduction loses a carry (C20, C21). The
  arithmetic under it, the equation of signing and the nonces of deterministic signing are C22 to C25. Boot establishes the kernel invariant
  \<open>kinv_at\<close> and every step of the running kernel keeps it (C4, C5): the inductive relation \<open>kernel_step\<close> lets guests and devices do
  anything the processor does not prevent, between and inside which interrupts and exits arrive in any order. The scheduler is fair,
  context switches are transparent, exits are isolated, hypercalls reach their function (C6, C7, C18, C19, C26). The generated table is that
  of the configuration's plan, with disjoint machines (C35 to C37); from such a table on, in every state of the running kernel, a guest
  reaches, by its own accesses, the memory of its own machine, all of its RAM and flash, and nothing else (C11, C12); what the hypervisor
  stores for it is another matter (C16). Messages arrive once and in order, through
  the hypervisor (C13 to C17) and up to the guest's program (C28, C34). Device access, interrupt redirection and flash writes have their exact
  effects and the USB driver stays in its bounds (C27, C29, C30, C33). The allocators and libraries do what their callers rely on (C31, C39,
  C40). Several properties state behaviour that the code surely does not intend (C16, C21, C38, C40 among them); the manifest lists them as
  findings. Theorems without a number are properties of the same kind.

  \<^bold>\<open>Interfaces.\<close> Locale \<open>fifo\<close> is a bounded queue, with the ring of a VCPU and the ring of a guest as instances; \<open>mailbox\<close> is what the
  guest's driver expects of \<open>ipc_recv\<close>, with \<open>intervm_recv_msg\<close> as its instance; \<open>fresh_allocator\<close> is what start-up expects of \<open>malloc\<close>,
  with the hypervisor's heap as its instance; \<open>hash_function\<close> is what HMAC and the generator of RFC 6979 expect of a hash, with SHA-256
  as its instance (\<open>sha\<close>).

  \<^bold>\<open>Bounds.\<close> There are at most 15 virtual machines, since a machine needs a register bank of its own and there are 16; that is a
  hypothesis of the boot theorems (\<open>cold\<close>); a generated table has at most 7 (\<open>few_machines\<close>). The TLB has \<open>NUM_TLB\<close> = 32 entries. Loops over memory or hardware that need not end are
  \<open>partial_function\<close>s and their termination is a lemma where it holds (\<open>phy_wait_returns\<close>, \<open>udelay_returns\<close>,
  \<open>nvm_wait_one\<close>, \<open>wait_message_returns\<close>, \<open>modInv_total\<close>); no fuel is used. The 64 tries for a random number are those of the code
  (\<open>uECC_RNG_MAX_TRIES\<close>).

  \<^bold>\<open>Parameters.\<close> The random number generator an application may set (\<open>rng\<close>), the flash controller (\<open>nvm_ctl\<close>), the USB and
  Ethernet controllers' registers as they change under the driver, the functions of libconfig (the record \<open>libconfig\<close>), what \<open>VMCONF\<close> and
  the linker's symbols hold. C11 and C12 take the TLB entries of \<open>VMCONF\<close> to be those of a plan (\<open>tables_of\<close>), which is the generated table as
  C reads it (\<open>entry_of\<close>, \<open>read_hex05\<close>); the generator's theorems take strings of at most 80 characters (\<open>printable\<close>), since it does not
  check that its lines fit.

  \<^bold>\<open>Not modelled.\<close> Console output of the kernel (\<open>INFO\<close>, \<open>WARNING\<close> and the dump in \<open>flash_read\<close>), which changes no state; the assembly of
  \<^verbatim>\<open>boot.S\<close>, whose effect is part of \<open>kernel_step\<close>; of \<^verbatim>\<open>uECC.c\<close> what the configuration disables (the
  other curves, compressed points, the squaring functions, the exported interface to its numbers) and \<open>vli_print\<close>; the signing
  tools, which run on the host; the messages and the directory of the generator; the other boards; the example applications; wolfSSL and picoTCP (vendored). The USB and Ethernet drivers keep state
  of their own and are modelled beside \<open>kst\<close>; their hypercalls are not entries of the shared table. It is not shown that the two primes of the curve are prime, so that
  being invertible stays a hypothesis where the code divides, nor that chords and tangents form a group, so that C3 speaks of the
  chain of additions that the bits of the two scalars prescribe; the value of the scalar multiplication in signing is not
  related to that chain.
\<close>

section \<open>Verified boot\<close>

text \<open>C1: The hypervisor only ever runs authentic images: if \<open>hyper_init\<close> ends with the kernel running, the image
  of every configured virtual machine carries a valid public key and a signature, under that key, of the
  SHA-256 digest of its code.\<close>

theorem boot_runs_authentic_images:
  assumes "hyper_init heap_start heap_size drivers s = Some (Running s')" and "c \<in> set (VMCONF s)"
  shows "\<exists>code key sg.
    read_bytes (mach s) (flash_base_add c) (unat (flash_size c - 128)) = Some code \<and>
    read_bytes (mach s) (flash_base_add c + (flash_size c - 128)) 64 = Some key \<and>
    read_bytes (mach s) (flash_base_add c + (flash_size c - 64)) 64 = Some sg \<and>
    uECC_valid_public_key key uECC_secp256k1 \<and>
    uECC_verify key (sha256_spec code) SHA256_BLOCK_SIZE sg uECC_secp256k1 = Some True"
  using boot_authentic [OF assms] unfolding image_authentic_def image_key_def image_sig_def .

theorem boot_runs_authentic_images_witness:
  "\<exists>code key sg. read_bytes (mach ex_cold) 0x9D020000 4 = Some code \<and>
     read_bytes (mach ex_cold) 0x9D020004 64 = Some key \<and> read_bytes (mach ex_cold) 0x9D020044 64 = Some sg \<and>
     uECC_verify key (sha256_spec code) SHA256_BLOCK_SIZE sg uECC_secp256k1 = Some True"
proof -
  obtain s where "hyper_init 0x80002000 0x10000 [] ex_cold = Some (Running s)" using ex_booted by blast
  from boot_runs_authentic_images [OF this, of ex_conf] show ?thesis by (auto simp: ex_cold_def ex_conf_def)
qed

text \<open>C2: A machine with an image that is not authentic does not start, if the images can be read and the second numbers
  of their signatures, where they are in range, are invertible modulo the order: \<open>hyper_init\<close> ends in \<open>CRITICAL\<close> before
  any virtual machine or VCPU exists.\<close>

theorem tampered_image_halts:
  assumes "LowLevelProcInit (early_platform_init (mach s)) = (0, h)"
    and "\<forall>c\<in>set (VMCONF s). image_readable s c" and "c \<in> set (VMCONF s)" and "\<not> image_authentic s c"
  shows "\<exists>s'. hyper_init heap_start heap_size drivers s = Some (Halted s') \<and> vms s' = vms s \<and> vcpus s' = vcpus s"
  by (rule boot_rejects [OF assms])

theorem tampered_image_halts_witness:
  "\<exists>s'. hyper_init 0x80002000 0x10000 [D_intervm_init] ex_tampered = Some (Halted s') \<and> vms s' = Map.empty"
proof -
  have m: "vms ex_tampered = Map.empty" "ex_conf \<in> set (VMCONF ex_tampered)"
    by (simp_all add: ex_tampered_def ex_cold_def)
  obtain h where "LowLevelProcInit (early_platform_init (mach ex_tampered)) = (0, h)" using ex_tampered_LowLevel by blast
  from tampered_image_halts [OF this ex_tampered_readable m(2) ex_tampered_refused, where heap_start = "0x80002000" and
      heap_size = "0x10000" and drivers = "[D_intervm_init]"]
  show ?thesis unfolding m(1) by blast
qed

text \<open>C4: A successful boot establishes the kernel's invariant, for any drivers that are linked: one virtual machine
  and one VCPU per configuration, on their lists in order, with matching ids, banks and empty scheduler state.\<close>

theorem boot_establishes_invariant:
  assumes "cold s" and "heap_room heap_start heap_size r" and "CREATE_COST * length (VMCONF s) < r"
    and "hyper_init heap_start heap_size drivers s = Some (Running s')"
  shows "\<exists>rs ms tab. kinv_at rs ms tab s' \<and> length tab = length (VMCONF s)"
  by (rule boot_reaches_kinv [OF assms])

theorem boot_establishes_invariant_witness:
  "\<exists>s rs ms tab. hyper_init 0x80002000 0x10000 [] ex_cold = Some (Running s) \<and> kinv_at rs ms tab s \<and> length tab = 1"
proof -
  obtain s where s: "hyper_init 0x80002000 0x10000 [] ex_cold = Some (Running s)" using ex_booted by blast
  from boot_establishes_invariant [OF ex_is_cold ex_heap_room _ s] show ?thesis
    using s by (auto simp: CREATE_COST_def ex_cold_def)
qed

section \<open>The running kernel\<close>

text \<open>C5: The invariant holds in every state the running kernel reaches, whatever the guests and the devices do
  and in whatever order timer interrupts, redirected interrupts and guest exits arrive.\<close>

theorem kernel_invariant:
  assumes "kinv_at rs ms tab s" and "kernel_step\<^sup>*\<^sup>* (Running s) (Running s')"
  shows "kinv_at rs ms tab s'"
  using kernel_steps_good [OF assms(2), of rs ms tab] assms(1) by simp

theorem kernel_invariant_witness: "kinv_at ex_rs ex_ms ex_tab (ex_call 1 2 3)"
proof (rule kernel_invariant [OF ex_kinv])
  have "guest_turn (mach ex_run) (mach (ex_call 1 2 3))"
    by (simp add: guest_turn_def ex_call_def ex_defs prev_set_def)
  moreover have "ex_call 1 2 3 = ex_run\<lparr>mach := mach (ex_call 1 2 3)\<rparr>" by (simp add: ex_call_def)
  ultimately show "kernel_step\<^sup>*\<^sup>* (Running ex_run) (Running (ex_call 1 2 3))"
    by (metis kernel_step.guest r_into_rtranclp)
qed

text \<open>C6: The timer interrupt always returns and leaves a virtual machine in execution: the one that a fast
  interrupt asked for, else, every tenth tick, the successor of the last one in the ready list, else the same.
  The processor then runs with that machine's guest id and register bank.\<close>

theorem timer_schedules:
  assumes "kinv_at rs ms tab s"
  shows "\<exists>s' i vc. timer_interrupt_handler s = Some s' \<and> kinv_at rs ms tab s' \<and>
    vcpu_executing_nd s' =
      (if next_vcpu s \<noteq> NULL then next_vcpu s
       else if tick_count s mod 10 = 0 then rr_succ rs (last_scheduled s) else vcpu_executing_nd s) \<and>
    next_vcpu s' = NULL \<and> runs s' tab i \<and> vcpus s' (snd (tab ! i)) = Some vc \<and>
    prev_set (mach s') = gprshadowset vc \<and> getGuestID (mach s') = of_nat (i + 1)"
proof -
  obtain s' where s': "timer_interrupt_handler s = Some s'" "kinv_at rs ms tab s'"
    "vcpu_executing_nd s' = next_exec rs s" "vcpu_executing_nd s' \<noteq> NULL" "next_vcpu s' = NULL"
    using timer_interrupt_handler_ok [OF assms] by blast
  obtain i where i: "runs s' tab i" using kinv_at_runs [OF s'(2,4)] by blast
  have kd: "kdata s' rs ms tab" "i < length tab" "length tab \<le> 15" "bank_ok s'"
    using s'(2) i by (simp_all add: kinv_at_def runs_def)
  obtain vc where vc: "vcpus s' (snd (tab ! i)) = Some vc" "vcpu_id vc = of_nat (i + 1)"
    using vm_of_entry [OF kd(1-3)] by metis
  then have "prev_set (mach s') = gprshadowset vc \<and> getGuestID (mach s') = of_nat (i + 1)"
    using kd(4) i s'(4) by (auto simp: bank_ok_def runs_def)
  then show ?thesis using s' i vc(1)
    by (intro exI [of _ s'] exI [of _ i] exI [of _ vc]) (simp add: next_exec_def)
qed

theorem timer_schedules_witness:
  "\<exists>s'. timer_interrupt_handler (ex_run\<lparr>next_vcpu := 0x1008\<rparr>) = Some s' \<and> vcpu_executing_nd s' = 0x1008"
proof -
  have "kinv_at ex_rs ex_ms ex_tab (ex_run\<lparr>next_vcpu := 0x1008\<rparr>)"
    using ex_kinv by (simp add: kinv_at_def kdata_def vm_entry_def vcpu_node_def bank_ok_def vcpu_executing_def)
      (simp add: ex_defs)
  from timer_schedules [OF this] show ?thesis by auto
qed



section \<open>Messages between virtual machines\<close>

text \<open>C13: A message that is sent arrives: with a target that exists, is up and has room, and a buffer that can be
  mapped, the message is appended to the target's queue with the sender's id and the bytes of the sender's RAM, the
  target's virtual interrupt is raised, the sender gets the size, and no other VCPU changes.\<close>

theorem send_delivers:
  assumes "kinv_at rs ms tab s" and "runs s tab i" and "j < length tab"
    and "guest_reg s REG_A0 = of_nat (j + 1)" and "guest_reg s REG_A2 \<le> MESSAGE_SZ"
    and "\<forall>vc. vcpus s (snd (tab ! j)) = Some vc \<longrightarrow> vcpu_init vc = 0 \<and> num_messages (messages vc) < MESSAGELIST_SZ"
    and "mappable (ram_base (VMCONF s ! i)) (guest_reg s REG_A1) (guest_reg s REG_A2)"
  shows "\<exists>s' vc vc'. intervm_send_msg s = Some s' \<and> kinv_at rs ms tab s' \<and>
    vcpus s (snd (tab ! j)) = Some vc \<and> vcpus s' = (vcpus s)(snd (tab ! j) \<mapsto> vc') \<and>
    msg_contents (messages vc') = msg_contents (messages vc) @
      [(of_nat (i + 1), bytes_at (ram (mach s)) (guest_phys (ram_base (VMCONF s ! i)) (guest_reg s REG_A1))
        (unat (guest_reg s REG_A2)))] \<and>
    guestclt2 vc' = guestclt2 vc OR push_bit 24 2 \<and> guest_reg s' REG_V0 = guest_reg s REG_A2"
  by (rule intervm_send_ok [OF assms])

theorem send_delivers_witness:
  "\<exists>s' vc'. intervm_send_msg (ex_call 2 0x80000100 4) = Some s' \<and> vcpus s' 0x2800 = Some vc' \<and>
     msg_contents (messages vc') = [(1, [0, 0, 0, 0])]"
proof -
  have c: "VMCONF (ex_call 2 0x80000100 4) ! 0 = ex_conf" "vcpus (ex_call 2 0x80000100 4) 0x2800 = Some (ex_vcpu 2 0x3040)"
    "ram (mach (ex_call 2 0x80000100 4)) = flash_with ex_image" "ex_tab ! Suc 0 = (0x3040, 0x2800)" "length ex_tab = 2"
    by (simp_all add: ex_call_def ex_defs)
  have q: "msg_contents zero_message_buffer = []" "num_messages zero_message_buffer < MESSAGELIST_SZ"
    by (simp_all add: msg_contents_def zero_message_buffer_def MESSAGELIST_SZ_def)
  have mp: "mappable (ram_base ex_conf) 0x80000100 4" by (simp add: mappable_def ex_conf_def guest_phys_def)
  have b: "bytes_at (flash_with ex_image) (guest_phys (ram_base ex_conf) 0x80000100) (unat (4 :: u32)) = [0, 0, 0, 0]"
    by (simp add: bytes_at_def upt_rec guest_phys_def ex_conf_def flash_with_def ex_lengths ex_image_def ex_code_def)
  from send_delivers [OF ex_call_kinv [of 2 "0x80000100" 4] ex_call_runs, of 1] show ?thesis
    using c q mp b by (auto simp: ex_call_regs MESSAGE_SZ_def ex_vcpu_def zero_vcpu_def)
qed

text \<open>C14: A send that cannot be delivered changes no queue and returns its own error code: too big, no such virtual
  machine, not started yet, or queue full (the target is still interrupted); the checks apply in this order.\<close>

theorem send_refused:
  assumes "kinv_at rs ms tab s" and "v = vm_of tab (guest_reg s REG_A0)"
  shows "(MESSAGE_SZ < guest_reg s REG_A2 \<longrightarrow> intervm_send_msg s = Some (set_V0 (- 3) s)) \<and>
    (guest_reg s REG_A2 \<le> MESSAGE_SZ \<longrightarrow> v = NULL \<longrightarrow> intervm_send_msg s = Some (set_V0 (- 1) s)) \<and>
    (guest_reg s REG_A2 \<le> MESSAGE_SZ \<longrightarrow> v \<noteq> NULL \<longrightarrow> vcpus s v = Some vc \<longrightarrow> vcpu_init vc \<noteq> 0 \<longrightarrow>
      intervm_send_msg s = Some (set_V0 (- 5) s)) \<and>
    (guest_reg s REG_A2 \<le> MESSAGE_SZ \<longrightarrow> v \<noteq> NULL \<longrightarrow> vcpus s v = Some vc \<longrightarrow> vcpu_init vc = 0 \<longrightarrow>
      num_messages (messages vc) = MESSAGELIST_SZ \<longrightarrow>
      intervm_send_msg s = Some (set_V0 (- 2) (s\<lparr>vcpus := (vcpus s)(v \<mapsto> post_intervm vc)\<rparr>)))"
  unfolding assms(2) using intervm_send_refused [OF assms(1)] by (intro conjI impI)

theorem send_refused_witness:
  "intervm_send_msg (ex_call 2 0x80000100 256) = Some (set_V0 (- 3) (ex_call 2 0x80000100 256)) \<and>
   intervm_send_msg (ex_call 3 0x80000100 4) = Some (set_V0 (- 1) (ex_call 3 0x80000100 4))"
proof -
  have "vm_of ex_tab 3 = NULL" by (simp add: vm_of_def ex_tab_def)
  then show ?thesis
    using send_refused [OF ex_call_kinv [of 2 "0x80000100" 256] refl]
      send_refused [OF ex_call_kinv [of 3 "0x80000100" 4] refl]
    by (simp add: ex_call_regs MESSAGE_SZ_def)
qed

text \<open>C15: A receive takes the oldest message: its bytes are stored at the receiver's buffer, its size and sender are
  returned, it leaves the queue, and no other VCPU changes.\<close>

theorem receive_takes_oldest:
  assumes "kinv_at rs ms tab s" and "runs s tab i" and "vcpus s (snd (tab ! i)) = Some vc"
    and "msg_contents (messages vc) = (src, bs) # rest"
    and "mappable (ram_base (VMCONF s ! i)) (guest_reg s REG_A0) (of_nat (length bs))"
  shows "\<exists>s' vc'. intervm_recv_msg s = Some s' \<and> kinv_at rs ms tab s' \<and>
    vcpus s' = (vcpus s)(snd (tab ! i) \<mapsto> vc') \<and> msg_contents (messages vc') = rest \<and>
    ram (mach s') = store_bytes (ram (mach s)) (guest_phys (ram_base (VMCONF s ! i)) (guest_reg s REG_A0)) bs \<and>
    guest_reg s' REG_V0 = of_nat (length bs) \<and> guest_reg s' REG_A0 = src"
  by (rule intervm_recv_ok [OF assms])

theorem receive_takes_oldest_witness:
  "\<exists>s'. intervm_recv_msg (ex_mail 0x80000100) = Some s' \<and> guest_reg s' REG_A0 = 2 \<and> guest_reg s' REG_V0 = 2 \<and>
     ram (mach s') 0x10100 = 7 \<and> ram (mach s') 0x10101 = 8"
proof -
  obtain vc where vc: "vcpus (ex_mail 0x80000100) 0x2000 = Some vc" "msg_contents (messages vc) = [(2, [7, 8])]"
    using ex_mail_facts(4) by blast
  have "mappable (ram_base ex_conf) 0x80000100 2" by (simp add: mappable_def ex_conf_def guest_phys_def)
  then show ?thesis
    using receive_takes_oldest [OF ex_mail_kinv ex_mail_runs, of "0x80000100" vc 2 "[7, 8]" "[]"] vc
    by (auto simp: ex_mail_facts guest_phys_def ex_conf_def)
qed

text \<open>C16: Guest memory is not confined: the buffer address of a receive is not checked, so for every physical
  address \<open>P\<close>, of another guest or of the hypervisor, the guest that asks for its message at \<open>P - base\<close> has the
  message stored at \<open>P\<close>.\<close>

theorem receive_not_confined:
  assumes "kinv_at rs ms tab s" and "runs s tab i" and "vcpus s (snd (tab ! i)) = Some vc"
    and "msg_contents (messages vc) = (src, bs) # rest"
    and "guest_reg s REG_A0 = P - ram_base (VMCONF s ! i)"
    and "mappable (ram_base (VMCONF s ! i)) (P - ram_base (VMCONF s ! i)) (of_nat (length bs))"
  shows "\<exists>s'. intervm_recv_msg s = Some s' \<and> ram (mach s') = store_bytes (ram (mach s)) P bs"
  using intervm_recv_ok [OF assms(1-4)] assms(5,6) by (auto simp: guest_phys_any)

theorem receive_not_confined_witness:
  "\<exists>s'. intervm_recv_msg (ex_mail 0x80010040) = Some s' \<and>
     ram (mach s') = store_bytes (ram (mach (ex_mail 0x80010040))) 0x20040 [7, 8]"
proof -
  obtain vc where vc: "vcpus (ex_mail 0x80010040) 0x2000 = Some vc" "msg_contents (messages vc) = [(2, [7, 8])]"
    using ex_mail_facts(4) by blast
  have "mappable (ram_base ex_conf) (0x20040 - ram_base ex_conf) 2"
    by (simp add: mappable_def ex_conf_def guest_phys_def)
  then show ?thesis
    using receive_not_confined [OF ex_mail_kinv ex_mail_runs, of "0x80010040" vc 2 "[7, 8]" "[]" "0x20040"] vc
    by (simp add: ex_mail_facts ex_conf_def)
qed

text \<open>C17: The message ring is a first-in first-out queue: over any history of sends and receives, what was received,
  followed by what is still queued, is what was queued at the start followed by what was accepted.\<close>

theorem message_ring_fifo:
  assumes "msg_buf_ok b" and "\<forall>m. Put m \<in> set ops \<longrightarrow> length (snd m) \<le> 255"
  shows "\<exists>acc rcv b'. ring.run_queue ops b = Some (acc, rcv, b') \<and> msg_buf_ok b' \<and>
    msg_contents b @ acc = rcv @ msg_contents b'"
  using ring.run_queue_fifo [OF assms(1), of ops] assms(2) by (simp add: ring_fits_def)

theorem message_ring_fifo_witness:
  "\<exists>acc rcv b'. ring.run_queue [Put (1, [65]), Put (2, [66, 67]), Get] zero_message_buffer = Some (acc, rcv, b') \<and>
     acc = rcv @ msg_contents b'"
proof -
  have "msg_contents zero_message_buffer = []" by (simp add: msg_contents_def zero_message_buffer_def)
  moreover have "\<forall>m. Put m \<in> set [Put (1 :: u32, [65 :: u8]), Put (2, [66, 67]), Get] \<longrightarrow> length (snd m) \<le> 255" by simp
  ultimately show ?thesis using message_ring_fifo [OF zero_message_buffer_ok] by (metis append_Nil)
qed

section \<open>Switching between virtual machines\<close>

text \<open>C18: A guest does not notice that it was interrupted: what \<open>contextSave\<close> records of its CP0 registers is what
  a later \<open>contextRestore\<close> of the same VCPU puts back, whatever ran in between, with its register bank, its id and
  its program counter; only \<open>Compare\<close>, which is saved, is not put back.\<close>

theorem context_switch_transparent:
  assumes "vcpu_executing_nd s \<noteq> NULL" and "vcpu_executing s = Some v" and "v \<noteq> NULL"
    and "vcpus s v = Some vc" and "vcpu_init vc = 0" and "contextSave s = Some s1"
    and "vcpu_executing s2 = Some v" and "vcpus s2 v = vcpus s1 v" and "unat (gprshadowset vc) < 16"
  shows "\<exists>s3. contextRestore s2 = Some s3 \<and>
    (\<forall>(r, sel)\<in>set saved_regs - {(11, 0)}. mfgc0 (mach s3) r sel = mfgc0 (mach s) r sel) \<and>
    mfgc0 (mach s3) 11 0 = mfgc0 (mach s2) 11 0 \<and>
    prev_set (mach s3) = gprshadowset vc \<and> getEPC (mach s3) = getEPC (mach s)"
proof -
  let ?vc = "vc\<lparr>cp0_registers := map (\<lambda>(r, sel). mfgc0 (mach s) r sel) saved_regs,
    guestclt2 := guestclt2 vc OR getGuestCTL2 (mach s), pc := getEPC (mach s)\<rparr>"
  have "is_vcpu_executing s = Some v" using assms(1,2) by (simp add: is_vcpu_executing_def vcpu_executing_def)
  then have "vcpus s1 v = Some ?vc" using assms(3-6) by (auto simp: contextSave_def upd_vcpu_def)
  then have r: "contextRestore s2 = Some (s2\<lparr>mach := restore_mach ?vc (mach s2),
      vcpus := (vcpus s2)(v \<mapsto> ?vc\<lparr>vcpu_init := 0, guestclt2 := 0\<rparr>)\<rparr>)"
    using assms(7,8) by (intro contextRestore_eq) simp_all
  have "case p of (r, sel) \<Rightarrow> mfgc0 (restore_mach ?vc (mach s2)) r sel = mfgc0 (mach s) r sel"
    if "p \<in> set saved_regs - {(11, 0)}" for p
    using saved_regs_restored [of ?vc "mach s" p "mach s2"] that by (simp add: mfgc0_def split_beta)
  moreover have "prev_set (restore_mach ?vc (mach s2)) = gprshadowset vc"
    using restore_mach_prev_set [of ?vc "mach s2"] assms(9) by simp
  moreover have "getEPC (restore_mach ?vc (mach s2)) = getEPC (mach s)"
    by (simp add: restore_mach_def getEPC_def setEPC_def mfc0_def mtc0_def)
  moreover have "mfgc0 (restore_mach ?vc (mach s2)) 11 0 = mfgc0 (mach s2) 11 0"
    by (simp add: restore_mach_def mfgc0_def hal_setters restore_cp0_gcp0)
  ultimately show ?thesis using r by (intro exI [of _ "s2\<lparr>mach := restore_mach ?vc (mach s2),
      vcpus := (vcpus s2)(v \<mapsto> ?vc\<lparr>vcpu_init := 0, guestclt2 := 0\<rparr>)\<rparr>"] conjI ballI) simp_all
qed

theorem context_switch_transparent_witness:
  "\<exists>s1 s3. contextSave ex_run = Some s1 \<and> contextRestore (s1\<lparr>mach := (mach ex_run)\<lparr>gcp0 := \<lambda>_. 9\<rparr>\<rparr>) = Some s3 \<and>
     mfgc0 (mach s3) 12 0 = 0 \<and> mfgc0 (mach s3) 11 0 = 9"
proof -
  have e: "vcpu_executing_nd ex_run = 0x1000" "vcpu_executing ex_run = Some 0x2000"
    "vcpus ex_run 0x2000 = Some (ex_vcpu 1 0x3000)" "gcp0 (mach ex_run) = (\<lambda>_. 0)" "valid_nd ex_run 0x1000"
    by (simp_all add: ex_defs vcpu_executing_def valid_nd_def zero_vcpu_def)
  have vc: "vcpu_init (ex_vcpu 1 0x3000) = 0" "gprshadowset (ex_vcpu 1 0x3000) = 1" by (simp_all add: ex_vcpu_def zero_vcpu_def)
  obtain f where f: "contextSave ex_run = Some (ex_run\<lparr>vcpus := f\<rparr>)"
    using contextSave_eq [of ex_run] e(1,5) by auto
  let ?s2 = "ex_run\<lparr>vcpus := f, mach := (mach ex_run)\<lparr>gcp0 := \<lambda>_. 9\<rparr>\<rparr>"
  have x: "vcpu_executing ?s2 = Some 0x2000" using e(2) by (simp add: vcpu_executing_def)
  obtain s3 where "contextRestore ?s2 = Some s3" "\<forall>(r, sel)\<in>set saved_regs - {(11, 0)}. mfgc0 (mach s3) r sel = mfgc0 (mach ex_run) r sel"
    "mfgc0 (mach s3) 11 0 = mfgc0 (mach ?s2) 11 0"
    using context_switch_transparent [OF _ e(2) _ e(3) vc(1) f x] e(1) vc(2) by auto
  moreover from this(2) have "mfgc0 (mach s3) 12 0 = 0" using e(4) by (simp add: saved_regs_def mfgc0_def)
  ultimately show ?thesis using f by (intro exI [of _ "ex_run\<lparr>vcpus := f\<rparr>"] exI [of _ s3]) (simp add: mfgc0_def)
qed

text \<open>C19: The round robin is fair: in as many turns as there are VCPUs, each gets exactly one, in the order of the
  ready list, beginning after the one that ran last.\<close>

theorem round_robin_fair:
  assumes "chain (nodes s) (vcpu_ready_list s) rs" and "i < length rs" and "last_scheduled s = rs ! i"
  shows "\<exists>s'. rr_turns (length rs) s = Some (rotate (i + 1) rs, s')"
  by (rule rr_turns_rotate [OF assms])

theorem round_robin_fair_witness: "\<exists>s'. rr_turns 2 ex_run = Some ([0x1008, 0x1000], s')"
proof -
  have "chain (nodes ex_run) (vcpu_ready_list ex_run) ex_rs" "length ex_rs = 2" "last_scheduled ex_run = ex_rs ! 0"
    "rotate (0 + 1) ex_rs = [0x1008, 0x1000]"
    by (simp_all add: ex_defs)
  then show ?thesis using round_robin_fair [of ex_run ex_rs 0] by simp
qed

text \<open>The window through which the hypervisor reaches a guest's buffer: the address that \<open>tlbCreateEntry\<close>
  returns translates, for every byte of a buffer of at most a page, to that byte of the guest's RAM, also where the
  buffer crosses a page.\<close>

theorem guest_buffer_window:
  assumes "mappable base address sz" and "root_free h i" and "unat i < 32" and "c \<noteq> 0"
    and "tlbCreateEntry address base sz i c h = (va, h')" and "k < unat sz"
  shows "translate h' (va + of_nat k) = Some (guest_phys base address + of_nat k)"
  by (rule create_entry_translates [OF assms(1,4,2,3,5,6)])

theorem guest_buffer_window_witness:
  "translate (snd (tlbCreateEntry 0x80000FFE 0x80010000 4 0xf 2 (mach ex_run)))
     (fst (tlbCreateEntry 0x80000FFE 0x80010000 4 0xf 2 (mach ex_run)) + 3) = Some 0x11001"
proof -
  have "mappable 0x80010000 0x80000FFE 4" by (simp add: mappable_def guest_phys_def)
  from guest_buffer_window [OF this ex_root_free _ _ surjective_pairing, of 2 3] show ?thesis
    by (simp add: guest_phys_def)
qed

text \<open>A hypercall that no driver registered, or whose code is out of range, is refused: the guest gets
  \<open>HCALL_NOT_IMPLEMENTED\<close>, resumes after the call, and nothing else changes.\<close>

theorem unknown_hypercall_refused:
  assumes "vcpu_executing s = Some v" and "vcpus s v = Some vc" and "getGCauseCode (mach s) = GUEST_HYPERCALL"
    and "29 < getHypercallCode (mach s) \<or> hypercall_table s ! unat (getHypercallCode (mach s)) = None"
  shows "guest_exit_exception s = Some (s\<lparr>mach := setEPC (getEPC (mach s) + 4)
      (MoveToPreviousGuestGPR 2 (- 3) (mach s)), vcpus := (vcpus s)(v \<mapsto> vc\<lparr>pc := getEPC (mach s) + 4\<rparr>)\<rparr>)"
  using assms by (auto simp: guest_exit_exception_def hypercall_execution_def HCALL_TABLE_SIZE_def upd_mach_def
    upd_vcpu_def vcpu_executing_def Let_def)

theorem unknown_hypercall_refused_witness:
  "\<exists>s'. guest_exit_exception (ex_run\<lparr>mach := (mach ex_run)\<lparr>cp0 := (cp0 (mach ex_run))((8, 1) := 0xF800, (12, 6) := 8)\<rparr>\<rparr>)
     = Some s' \<and> guest_reg s' 2 = - 3"
proof -
  let ?s = "ex_run\<lparr>mach := (mach ex_run)\<lparr>cp0 := (cp0 (mach ex_run))((8, 1) := 0xF800, (12, 6) := 8)\<rparr>\<rparr>"
  have "vcpu_executing ?s = Some 0x2000" "vcpus ?s 0x2000 = Some (ex_vcpu 1 0x3000)"
    "getGCauseCode (mach ?s) = 2" "getHypercallCode (mach ?s) = 31"
    by (simp_all add: vcpu_executing_def getGCauseCode_def getHypercallCode_def mfc0_def ex_defs)
  from unknown_hypercall_refused [OF this(1,2)] this(3,4) show ?thesis
    by (simp add: MoveFromPreviousGuestGPR_def MoveToPreviousGuestGPR_def setEPC_def mtc0_def prev_set_def)
qed

text \<open>Interrupt handlers are registered in order: each takes the first free slot and gets that slot's vector,
  and the eleventh is refused with 0 and changes nothing.\<close>

theorem interrupt_slots:
  assumes "length (interrupt_handlers s) = 10"
  shows "(\<forall>j<10. interrupt_handlers s ! j = None \<longrightarrow> (\<forall>k<j. interrupt_handlers s ! k \<noteq> None) \<longrightarrow>
      register_interrupt ih s = (0x220 + of_nat j * 32, s\<lparr>interrupt_handlers := (interrupt_handlers s)[j := Some ih]\<rparr>)) \<and>
    (None \<notin> set (interrupt_handlers s) \<longrightarrow> register_interrupt ih s = (0, s))"
proof (intro conjI allI impI)
  fix j assume "j < 10" "interrupt_handlers s ! j = None" "\<forall>k<j. interrupt_handlers s ! k \<noteq> None"
  then show "register_interrupt ih s = (0x220 + of_nat j * 32, s\<lparr>interrupt_handlers := (interrupt_handlers s)[j := Some ih]\<rparr>)"
    using register_interrupt_loop_free [of 0 j s ih]
    by (simp add: register_interrupt_def MAX_NUM_INTERRUPTS_def VECTOR_1_OFFSET_def)
next
  assume "None \<notin> set (interrupt_handlers s)"
  then have "\<forall>k. 0 \<le> k \<longrightarrow> k < MAX_NUM_INTERRUPTS \<longrightarrow> interrupt_handlers s ! k \<noteq> None"
    using assms by (metis MAX_NUM_INTERRUPTS_def nth_mem)
  then show "register_interrupt ih s = (0, s)"
    unfolding register_interrupt_def by (rule register_interrupt_loop_full)
qed

theorem interrupt_slots_witness:
  "register_interrupt I_interrupt_injection
     (ex_run\<lparr>interrupt_handlers := [Some I_timer_interrupt_handler, None, None, None, None, None, None, None, None, None]\<rparr>)
   = (0x240, ex_run\<lparr>interrupt_handlers := [Some I_timer_interrupt_handler, Some I_interrupt_injection, None, None, None,
       None, None, None, None, None]\<rparr>)"
  using interrupt_slots [of "ex_run\<lparr>interrupt_handlers := [Some I_timer_interrupt_handler, None, None, None, None, None,
    None, None, None, None]\<rparr>" I_interrupt_injection, THEN conjunct1, rule_format, of 1]
  by simp

section \<open>Devices\<close>



text \<open>The check lets one address too many through: a write to the address just past the end of a guest's device
  range, where the next device begins, is carried out.\<close>

theorem device_end_writable:
  assumes "executing_conf s = Some c" and "d \<in> set (devices c)" and "start_addr d \<le> start_addr d + dev_size d"
    and "guest_reg s REG_A0 = start_addr d + dev_size d"
  shows "write_address s = Some (set_V0 0 (upd_mach (sfr_write (start_addr d + dev_size d) (guest_reg s REG_A1)) s))"
  by (rule write_address_end [OF assms])

theorem device_end_writable_witness:
  "write_address (ex_call 0xBF860704 7 0) = Some (set_V0 0 (upd_mach (sfr_write 0xBF860704 7) (ex_call 0xBF860704 7 0)))"
proof -
  have "executing_conf (ex_call 0xBF860704 7 0) = Some ex_conf"
    by (simp add: executing_conf_def vcpu_executing_def ex_call_def ex_defs)
  from device_end_writable [OF this, of "\<lparr>start_addr = 0xBF860700, dev_size = 4\<rparr>"] show ?thesis
    by (simp add: ex_call_regs) (simp add: ex_conf_def)
qed

text \<open>C29: Redirected interrupts: the handler acknowledges and disables exactly the lines of the table that were
  requested, leaves every other line alone, and leaves the virtual interrupt of each of them pending at its guest, in
  the register of the guest that runs or in the saved state of another.\<close>

theorem interrupts_redirected:
  assumes "mapping_table s = Some ims" and "vcpu_executing s = Some v" and "distinct (map irq_number ims)"
    and "\<forall>im\<in>set ims. irq_number im < 256 \<and> (irq_vcpu im = v \<or> irq_vcpu im \<in> dom (vcpus s))"
  shows "\<exists>s'. interrupt_injection s = Some s' \<and>
    (\<forall>q<256. irq_pending (mach s') q \<longleftrightarrow> irq_pending (mach s) q \<and> q \<notin> irq_number ` set ims) \<and>
    (\<forall>q<256. irq_enabled (mach s') q \<longleftrightarrow>
       irq_enabled (mach s) q \<and> \<not> (irq_pending (mach s) q \<and> q \<in> irq_number ` set ims)) \<and>
    (\<forall>im\<in>set ims. irq_pending (mach s) (irq_number im) \<longrightarrow> delivered s' v im)"
  using inject_all_ok [OF assms(2,4,3)] assms(1) by (auto simp: interrupt_injection_def)

theorem interrupts_redirected_witness:
  "\<exists>s' vc. interrupt_injection ex_irq = Some s' \<and> \<not> irq_pending (mach s') 44 \<and> vcpus s' 0x2800 = Some vc \<and>
     guestclt2 vc AND 0x04000000 = 0x04000000"
proof -
  have m: "mapping_table ex_irq = Some [\<lparr>irq_number = 44, irq_guest = 4, irq_vcpu = 0x2800\<rparr>]"
    "vcpu_executing ex_irq = Some 0x2000" "0x2800 \<in> dom (vcpus ex_irq)" "irq_pending (mach ex_irq) 44"
    by (simp_all add: mapping_table_def ex_irq_def vcpu_executing_def ex_defs irq_pending_def irq_reg_def)
  from interrupts_redirected [OF m(1,2)] m(3,4) show ?thesis by (auto simp: delivered_def Let_def)
qed

text \<open>A guest can enable its interrupt again, and only that one: the hypercall with the number of one of the
  guest's virtual interrupts enables the line behind it and no other.\<close>

theorem interrupt_reenabled:
  assumes "vcpu_executing s = Some v" and "mapping_table s = Some ims" and "im \<in> set ims" and "irq_vcpu im = v"
    and "\<forall>im'\<in>set ims. irq_vcpu im' = v \<and> irq_guest im' = irq_guest im \<longrightarrow> im' = im"
    and "guest_reg s REG_A0 = irq_guest im" and "irq_number im < 256"
  shows "\<exists>s'. reenable_interrupt s = Some s' \<and> guest_reg s' REG_V0 = 0 \<and>
    (\<forall>q<256. irq_enabled (mach s') q \<longleftrightarrow> irq_enabled (mach s) q \<or> q = irq_number im)"
  by (rule reenable_ok [OF assms(1-3,5,4,6,7)])

theorem interrupt_reenabled_witness:
  "\<exists>s'. reenable_interrupt (ex_irq\<lparr>vcpu_executing_nd := 0x1008, mach := (mach ex_irq)\<lparr>gpr := \<lambda>_ _. 4\<rparr>\<rparr>) = Some s' \<and>
     irq_enabled (mach s') 44 \<and> \<not> irq_enabled (mach s') 45"
proof -
  let ?s = "ex_irq\<lparr>vcpu_executing_nd := 0x1008, mach := (mach ex_irq)\<lparr>gpr := \<lambda>_ _. 4\<rparr>\<rparr>"
  have m: "mapping_table ?s = Some [\<lparr>irq_number = 44, irq_guest = 4, irq_vcpu = 0x2800\<rparr>]"
    "vcpu_executing ?s = Some 0x2800" "guest_reg ?s REG_A0 = 4" "\<not> irq_enabled (mach ?s) 45"
    by (simp_all add: mapping_table_def ex_irq_def vcpu_executing_def ex_defs MoveFromPreviousGuestGPR_def
      irq_enabled_def irq_reg_def IFS_def IEC_def SFR_BASE_def)
  from interrupt_reenabled [OF m(2,1), of "\<lparr>irq_number = 44, irq_guest = 4, irq_vcpu = 0x2800\<rparr>"] m(3,4) show ?thesis
    by auto
qed

text \<open>C30: The flash driver loses data: with a flash controller that erases and programs as its manual says, a write
  of 1024 bytes returns 1024, but erases only the page that holds the first 128 bytes of its block, the 16256 bytes
  before the block included. The other 896 bytes become the conjunction of their old contents and the data.\<close>

theorem flash_write_effect:
  assumes "flash_controller ctl" and "ticking (count_src h)"
    and "\<forall>k<1024. translate h (buffer + of_nat k) = Some (P + of_nat k)"
    and "blocks_disjoint 0x1D014000 0x4380 P 1024"
  shows "\<exists>h'. flash_write1Kbuffer ctl buffer h = Some (1024, h') \<and> tlb h' = tlb h \<and>
    (\<forall>i<128. ram h' (0x1D017F80 + of_nat i) = ram h (P + of_nat i)) \<and>
    (\<forall>i. 128 \<le> i \<longrightarrow> i < 1024 \<longrightarrow> ram h' (0x1D017F80 + of_nat i) = ram h (0x1D017F80 + of_nat i) AND ram h (P + of_nat i)) \<and>
    (\<forall>i<16256. ram h' (0x1D014000 + of_nat i) = 0xFF)"
  using assms(3) by (intro flash_write1K_done [OF assms(1,2) _ assms(4)]) simp

theorem flash_write_effect_witness:
  "\<exists>h'. flash_write1Kbuffer (\<lambda>h. h\<lparr>sfr := (sfr h)(NVMCON := sfr h NVMCON AND NOT 0x8000), ram := nvm_op h\<rparr>) 0x80010000
      (ex_hw\<lparr>ram := \<lambda>x. if x < 0x20000 then 0x55 else 0\<rparr>) = Some (1024, h') \<and>
     ram h' 0x1D017F80 = 0x55 \<and> ram h' 0x1D018000 = 0 \<and> ram h' 0x1D014000 = 0xFF"
proof -
  let ?h = "ex_hw\<lparr>ram := \<lambda>x. if x < 0x20000 then 0x55 else 0\<rparr>"
    and ?ctl = "\<lambda>h. h\<lparr>sfr := (sfr h)(NVMCON := sfr h NVMCON AND NOT 0x8000), ram := nvm_op h\<rparr>"
  have fc: "flash_controller ?ctl" by (simp add: flash_controller_def)
  have tk: "ticking (count_src ?h)"
    unfolding ticking_def
  proof (intro allI)
    fix k :: nat and f :: u32
    have "(of_nat (k * 2 ^ 32) :: u32) = 0" by (subst word_of_nat_eq_0_iff) simp
    then have "(of_nat (unat f + k * 2 ^ 32) :: u32) = f" by (simp only: of_nat_add add_0_right of_nat_unat ucast_id)
    then have "0 \<le>s count_src ?h (unat f + k * 2 ^ 32) - f" by (simp add: ex_hw_def)
    moreover have "k \<le> unat f + k * 2 ^ 32" by simp
    ultimately show "\<exists>n\<ge>k. 0 \<le>s count_src ?h n - f" by blast
  qed
  have tr: "\<forall>k<1024. translate ?h (0x80010000 + of_nat k) = Some (0x10000 + of_nat k)"
  proof (intro allI impI)
    fix k :: nat assume k: "k < 1024"
    then have "unat (0x10000 + of_nat k :: u32) = 0x10000 + k" by (subst unat_add_small) (simp_all add: unat_of_nat_small)
    then show "translate ?h (0x80010000 + of_nat k) = Some (0x10000 + of_nat k)"
      using translate_kseg0 [of "0x10000 + of_nat k" ?h] k by simp
  qed
  have dj: "blocks_disjoint 0x1D014000 0x4380 0x10000 1024"
    by (auto simp: blocks_disjoint_def in_block_def unat_sub_if' split: if_splits)
  show ?thesis using flash_write_effect [OF fc tk tr dj]
  proof (elim exE conjE)
    fix h' assume h': "flash_write1Kbuffer ?ctl 0x80010000 ?h = Some (1024, h')"
      and a: "\<forall>i<128. ram h' (0x1D017F80 + of_nat i) = ram ?h (0x10000 + of_nat i)"
      and b: "\<forall>i. 128 \<le> i \<longrightarrow> i < 1024 \<longrightarrow> ram h' (0x1D017F80 + of_nat i) = ram ?h (0x1D017F80 + of_nat i) AND ram ?h (0x10000 + of_nat i)"
      and c: "\<forall>i<16256. ram h' (0x1D014000 + of_nat i) = 0xFF"
    show ?thesis
      using h' a [rule_format, of 0] b [rule_format, of 128] c [rule_format, of 0] by (intro exI [of _ h']) simp
  qed
qed

section \<open>Memory\<close>



text \<open>A request for exactly the one free block breaks the heap: the block is returned but stays free, and the
  next request of that size returns it again.\<close>

theorem exact_fit_allocated_twice:
  assumes "arena h p (units_of sz)"
  shows "\<exists>h1 h2. malloc h sz = Some (h1, p + HDR_SZ) \<and> malloc h1 sz = Some (h2, p + HDR_SZ)"
  using arena_malloc_exact [OF assms] arena_malloc_exact by blast

theorem exact_fit_allocated_twice_witness:
  "\<exists>h1 h2. malloc (HeapInit (heap ex_cold) 0x80002008 0x1000) 0xFF8 = Some (h1, 0x80002010) \<and>
     malloc h1 0xFF8 = Some (h2, 0x80002010)"
proof -
  have "arena (HeapInit (heap ex_cold) 0x80002008 0x1000) 0x80002008 (units_of 0xFF8)"
    using arena_HeapInit [of "heap ex_cold" "0x80002008" "0x1000"] by (simp add: ex_cold_def HDR_SZ_def units_of_def)
  from exact_fit_allocated_twice [OF this] show ?thesis by (simp add: HDR_SZ_def)
qed

section \<open>Cryptography\<close>



end
